(* ===== verification/Prelude.thy ===== *)
theory Prelude
  imports Main "HOL-Library.Word"
begin

text \<open>
  Shared vocabulary of the development: the machine-integer types of the Rust sources, the
  result type that stands for \<open>Result<T, E>\<close>, bit streams (the sources carry one bit per
  byte), generic stateful stream transducers with their chunking law, and finite-map facts.
  The collections declared here carry the component proofs.
\<close>

unbundle bit_operations_syntax

named_theorems wf_intros \<open>introduction rules for well-formedness invariants\<close>
named_theorems bit_simps_dev \<open>rewrites for streams of 0/1 bytes\<close>

section \<open>Machine integers and results\<close>

type_synonym u8 = "8 word"
type_synonym u16 = "16 word"
type_synonym u32 = "32 word"
type_synonym i32 = "32 word"
type_synonym u64 = "64 word"

lemma unat_u8 [simp]: "unat (v :: u8) < 256"
proof -
  have "unat v < 2 ^ LENGTH(8)" by (rule unsigned_less)
  then show ?thesis by simp
qed

lemma unat_u16 [simp]: "unat (v :: u16) < 65536"
proof -
  have "unat v < 2 ^ LENGTH(16)" by (rule unsigned_less)
  then show ?thesis by simp
qed

lemma unat_u32 [simp]: "unat (v :: u32) < 4294967296"
proof -
  have "unat v < 2 ^ LENGTH(32)" by (rule unsigned_less)
  then show ?thesis by simp
qed

lemma unat_inject: "unat a = unat b \<Longrightarrow> a = b" for a b :: "'a::len word"
  by (simp add: word_unat_eq_iff)

lemma xor_cancel_left: "a XOR b = a XOR c \<Longrightarrow> b = c" for a b c :: "'a::len word"
proof -
  assume "a XOR b = a XOR c"
  then have "(a XOR a) XOR b = (a XOR a) XOR c" by (simp only: xor.assoc)
  then show "b = c" by simp
qed

lemma xor_cancel_right: "b XOR a = c XOR a \<Longrightarrow> b = c" for a b c :: "'a::len word"
  by (rule xor_cancel_left [of a]) (simp add: xor.commute)

text \<open>\<open>Result<'a, 'e>\<close>: \<open>Inl\<close> is \<open>Err\<close>, \<open>Inr\<close> is \<open>Ok\<close>.\<close>

type_synonym ('a, 'e) result = "'e + 'a"

abbreviation Ok :: "'a \<Rightarrow> ('a, 'e) result" where "Ok \<equiv> Inr"
abbreviation Err :: "'e \<Rightarrow> ('a, 'e) result" where "Err \<equiv> Inl"

definition is_ok :: "('a, 'e) result \<Rightarrow> bool" where
  "is_ok r = (case r of Inl _ \<Rightarrow> False | Inr _ \<Rightarrow> True)"

lemma is_ok_simps [simp]: "is_ok (Ok x)" "\<not> is_ok (Err e)"
  by (simp_all add: is_ok_def)

lemma is_ok_iff: "is_ok r \<longleftrightarrow> (\<exists>x. r = Ok x)"
  by (cases r) auto

section \<open>Bit streams\<close>

text \<open>The DSP code carries bits as bytes \<open>0\<close> and \<open>1\<close>.\<close>

definition bits01 :: "u8 list \<Rightarrow> bool" where
  "bits01 bs \<longleftrightarrow> set bs \<subseteq> {0, 1}"

lemma bits01_Nil [simp]: "bits01 []"
  by (simp add: bits01_def)

lemma bits01_Cons [simp]: "bits01 (b # bs) \<longleftrightarrow> (b = 0 \<or> b = 1) \<and> bits01 bs"
  by (auto simp: bits01_def)

lemma bits01_append [simp]: "bits01 (xs @ ys) \<longleftrightarrow> bits01 xs \<and> bits01 ys"
  by (auto simp: bits01_def)

lemma bits01_concat: "(\<And>x. x \<in> set xs \<Longrightarrow> bits01 (f x)) \<Longrightarrow> bits01 (concat (map f xs))"
  by (induction xs) auto

lemma and_1_cases: "(b AND 1 = 0) \<or> (b AND 1 = 1)" for b :: "'a::len word"
  by (metis and_one_eq mod2_eq_if)

text \<open>The bits of a byte, least significant first, as \<open>(b >> i) & 1\<close> yields them.\<close>

definition byte_bits_lsb :: "u8 \<Rightarrow> u8 list" where
  "byte_bits_lsb b = map (\<lambda>i. (drop_bit i b) AND 1) [0..<8]"

lemma length_byte_bits_lsb [simp]: "length (byte_bits_lsb b) = 8"
  by (simp add: byte_bits_lsb_def)

lemma bits01_byte_bits_lsb [simp]: "bits01 (byte_bits_lsb b)"
  using and_1_cases by (auto simp: byte_bits_lsb_def bits01_def)

section \<open>Stateful stream transducers\<close>

text \<open>
  A decoder of the sources is an object with a method that takes one symbol, updates the
  object and yields any number of outputs. \<open>transduce\<close> is its loop over a slice.
\<close>

fun transduce :: "('s \<Rightarrow> 'i \<Rightarrow> 's \<times> 'o list) \<Rightarrow> 's \<Rightarrow> 'i list \<Rightarrow> 's \<times> 'o list" where
  "transduce f s [] = (s, [])"
| "transduce f s (x # xs) =
     (let (s1, ys) = f s x; (s2, zs) = transduce f s1 xs in (s2, ys @ zs))"

lemma transduce_append:
  "transduce f s (xs @ ys) =
     (let (s1, as) = transduce f s xs; (s2, bs) = transduce f s1 ys in (s2, as @ bs))"
  by (induction xs arbitrary: s) (auto simp: Let_def split: prod.splits)

lemma transduce_inv:
  assumes "\<And>s x. P s \<Longrightarrow> P (fst (f s x))" and "P s"
  shows "P (fst (transduce f s xs))"
  using assms(2)
proof (induction xs arbitrary: s)
  case (Cons x xs)
  from assms(1) [OF Cons.prems, of x] have "P (fst (f s x))" .
  from Cons.IH [OF this] show ?case by (auto simp: Let_def split: prod.splits)
qed simp

text \<open>A one-output-per-input machine (\<open>iter().map(..).collect()\<close> with a mutable capture).\<close>

fun map_state :: "('s \<Rightarrow> 'i \<Rightarrow> 's \<times> 'o) \<Rightarrow> 's \<Rightarrow> 'i list \<Rightarrow> 's \<times> 'o list" where
  "map_state f s [] = (s, [])"
| "map_state f s (x # xs) =
     (let (s1, y) = f s x; (s2, ys) = map_state f s1 xs in (s2, y # ys))"

lemma length_map_state [simp]: "length (snd (map_state f s xs)) = length xs"
proof (induction xs arbitrary: s)
  case (Cons x xs)
  from Cons.IH [of "fst (f s x)"] show ?case by (simp add: split_beta)
qed simp

lemma map_state_append:
  "map_state f s (xs @ ys) =
     (let (s1, as) = map_state f s xs; (s2, bs) = map_state f s1 ys in (s2, as @ bs))"
  by (induction xs arbitrary: s) (auto simp: Let_def split: prod.splits)

section \<open>Invertible stream codes\<close>

text \<open>
  The contract between a transmitter's coding step and the receiver's inverse: on admissible
  input the decoder inverts the encoder, the length is kept, and the coded stream is again
  admissible, so that steps compose.
\<close>

locale stream_code =
  fixes enc :: "'a list \<Rightarrow> 'a list"
    and dec :: "'a list \<Rightarrow> 'a list"
    and ok :: "'a list \<Rightarrow> bool"
  assumes dec_enc: "ok xs \<Longrightarrow> dec (enc xs) = xs"
    and length_enc: "ok xs \<Longrightarrow> length (enc xs) = length xs"
    and ok_enc: "ok xs \<Longrightarrow> ok (enc xs)"
begin

lemma enc_inj: "ok xs \<Longrightarrow> ok ys \<Longrightarrow> enc xs = enc ys \<Longrightarrow> xs = ys"
  by (metis dec_enc)

lemma enc_eq_Nil: "ok xs \<Longrightarrow> enc xs = [] \<longleftrightarrow> xs = []"
  by (metis length_enc length_0_conv)

lemma iterated: "ok xs \<Longrightarrow> (dec ^^ n) ((enc ^^ n) xs) = xs \<and> ok ((enc ^^ n) xs)"
proof (induction n arbitrary: xs)
  case (Suc n)
  from Suc.IH [OF ok_enc [OF Suc.prems]] Suc.prems show ?case
    by (simp add: funpow_swap1 dec_enc)
qed simp

end

locale stream_code_pair =
  outer: stream_code enc1 dec1 ok + inner: stream_code enc2 dec2 ok
  for enc1 dec1 enc2 dec2 :: "'a list \<Rightarrow> 'a list" and ok

sublocale stream_code_pair \<subseteq> composed: stream_code "enc2 \<circ> enc1" "dec1 \<circ> dec2" ok
  by unfold_locales
    (simp_all add: outer.dec_enc inner.dec_enc outer.length_enc inner.length_enc
      outer.ok_enc inner.ok_enc)

section \<open>Finite maps as the sources use \<open>HashMap\<close>\<close>

definition retain_vals :: "('v \<Rightarrow> bool) \<Rightarrow> ('k \<rightharpoonup> 'v) \<Rightarrow> ('k \<rightharpoonup> 'v)" where
  "retain_vals p m = (\<lambda>k. case m k of None \<Rightarrow> None | Some v \<Rightarrow> if p v then Some v else None)"

lemma retain_vals_Some [simp]: "retain_vals p m k = Some v \<longleftrightarrow> m k = Some v \<and> p v"
  by (auto simp: retain_vals_def split: option.splits)

lemma retain_vals_None: "retain_vals p m k = None \<longleftrightarrow> (\<forall>v. m k = Some v \<longrightarrow> \<not> p v)"
  by (auto simp: retain_vals_def split: option.splits)

text \<open>Removing a list of keys, one \<open>remove\<close> per key.\<close>

definition remove_keys :: "'k list \<Rightarrow> ('k \<rightharpoonup> 'v) \<Rightarrow> ('k \<rightharpoonup> 'v)" where
  "remove_keys ks m = (\<lambda>k. if k \<in> set ks then None else m k)"

lemma remove_keys_Nil [simp]: "remove_keys [] m = m"
  by (simp add: remove_keys_def)

lemma remove_keys_apply: "remove_keys ks m k = (if k \<in> set ks then None else m k)"
  by (simp add: remove_keys_def)

section \<open>Ordered maps as the sources use \<open>BTreeMap\<close>\<close>

text \<open>An association list kept strictly increasing in its keys; \<open>map_of\<close> reads it.\<close>

fun bt_insert :: "'k::linorder \<Rightarrow> 'v \<Rightarrow> ('k \<times> 'v) list \<Rightarrow> ('k \<times> 'v) list" where
  "bt_insert k v [] = [(k, v)]"
| "bt_insert k v ((k', v') # rest) =
     (if k < k' then (k, v) # (k', v') # rest
      else if k = k' then (k, v) # rest
      else (k', v') # bt_insert k v rest)"

definition bt_ok :: "('k::linorder \<times> 'v) list \<Rightarrow> bool" where
  "bt_ok t \<longleftrightarrow> sorted_wrt (<) (map fst t)"

lemma map_of_bt_insert [simp]: "map_of (bt_insert k v t) = (map_of t)(k \<mapsto> v)"
  by (induction k v t rule: bt_insert.induct) auto

lemma keys_bt_insert: "fst ` set (bt_insert k v t) = insert k (fst ` set t)"
  by (induction k v t rule: bt_insert.induct) auto

lemma bt_ok_Nil [wf_intros]: "bt_ok []"
  by (simp add: bt_ok_def)

lemma bt_ok_Cons: "bt_ok ((k, v) # t) \<longleftrightarrow> (\<forall>x\<in>fst ` set t. k < x) \<and> bt_ok t"
  by (auto simp: bt_ok_def)

lemma bt_ok_insert [wf_intros]: "bt_ok t \<Longrightarrow> bt_ok (bt_insert k v t)"
proof (induction k v t rule: bt_insert.induct)
  case (2 k v k' v' rest)
  consider "k < k'" | "k = k'" | "k' < k" by (meson linorder_less_linear)
  then show ?case
  proof cases
    case 1
    with 2 show ?thesis by (fastforce simp: bt_ok_Cons dest: less_trans)
  next
    case 2
    with \<open>bt_ok ((k', v') # rest)\<close> show ?thesis by (simp add: bt_ok_Cons)
  next
    case 3
    with 2 show ?thesis by (auto simp: bt_ok_Cons keys_bt_insert)
  qed
qed (simp add: bt_ok_def)

lemma bt_ok_distinct: "bt_ok t \<Longrightarrow> distinct (map fst t)"
  by (induction t) (fastforce simp: bt_ok_def)+

lemma bt_ext:
  assumes "bt_ok s" "bt_ok t" "map_of s = map_of t"
  shows "s = t"
  using assms
proof (induction s arbitrary: t)
  case Nil
  then show ?case by (cases t) (auto simp: fun_eq_iff split: if_splits)
next
  case (Cons a s)
  obtain k v where a: "a = (k, v)" by force
  have "map_of t k = Some v" using Cons.prems(3) by (metis a map_of_Cons_code(2))
  then obtain b t' where t: "t = b # t'" by (cases t) auto
  obtain k' v' where b: "b = (k', v')" by force
  have "map_of t k' = Some v'" by (simp add: t b)
  then have "map_of (a # s) k' = Some v'" by (simp only: Cons.prems(3))
  have fresh: "x \<in> fst ` set s \<Longrightarrow> k < x" "y \<in> fst ` set t' \<Longrightarrow> k' < y" for x y
    using Cons.prems(1,2) by (auto simp: bt_ok_def a t b)
  have "k = k'"
  proof (rule ccontr)
    assume ne: "k \<noteq> k'"
    have "k' \<in> fst ` set s"
      using \<open>map_of (a # s) k' = Some v'\<close> ne by (force simp: a dest: map_of_SomeD)
    moreover have "k \<in> fst ` set t'"
      using \<open>map_of t k = Some v\<close> ne by (force simp: t b dest: map_of_SomeD)
    ultimately show False using fresh by (meson less_asym)
  qed
  moreover from this have "v = v'"
    using \<open>map_of (a # s) k' = Some v'\<close> by (simp add: a)
  moreover have "map_of s = map_of t'"
  proof
    fix x
    have "map_of (a # s) x = map_of t x" by (simp only: Cons.prems(3))
    moreover have "k \<notin> fst ` set s" "k' \<notin> fst ` set t'" using fresh by blast+
    ultimately show "map_of s x = map_of t' x"
      using \<open>k = k'\<close> by (cases "x = k") (auto simp: a t b map_of_eq_None_iff [symmetric])
  qed
  with Cons.IH [of t'] Cons.prems(1,2) have "s = t'" by (auto simp: bt_ok_def a t b)
  ultimately show ?case by (simp add: a t b)
qed

end
