(* ===== verification/RustText.thy ===== *)
theory RustText
  imports Prelude
begin

text \<open>
  The fragments of Rust's \<open>str\<close> and integer parsing and formatting that the sources use.
  A \<open>string\<close> is the byte sequence of a \<open>String\<close>; every separator the sources split on is
  ASCII, so splitting bytes and splitting UTF-8 agree.
\<close>

section \<open>Splitting\<close>

text \<open>\<open>str::split_once\<close>: at the first occurrence.\<close>

fun split_once :: "char \<Rightarrow> string \<Rightarrow> (string \<times> string) option" where
  "split_once c [] = None"
| "split_once c (x # xs) =
     (if x = c then Some ([], xs)
      else map_option (\<lambda>(a, b). (x # a, b)) (split_once c xs))"

text \<open>\<open>str::rsplit_once\<close>: at the last occurrence.\<close>

definition rsplit_once :: "char \<Rightarrow> string \<Rightarrow> (string \<times> string) option" where
  "rsplit_once c s = map_option (\<lambda>(a, b). (rev b, rev a)) (split_once c (rev s))"

text \<open>\<open>str::splitn(n, c)\<close>: at most \<open>n\<close> pieces, the last one unsplit.\<close>

fun splitn :: "nat \<Rightarrow> char \<Rightarrow> string \<Rightarrow> string list" where
  "splitn 0 c s = []"
| "splitn (Suc 0) c s = [s]"
| "splitn (Suc (Suc n)) c s =
     (case split_once c s of None \<Rightarrow> [s] | Some (a, b) \<Rightarrow> a # splitn (Suc n) c b)"

lemma split_once_append: "c \<notin> set a \<Longrightarrow> split_once c (a @ c # b) = Some (a, b)"
  by (induction a) auto

lemma split_once_None: "split_once c s = None \<longleftrightarrow> c \<notin> set s"
  by (induction s) auto

lemma split_once_Some:
  "split_once c s = Some (a, b) \<Longrightarrow> s = a @ c # b \<and> c \<notin> set a"
  by (induction s arbitrary: a) (auto split: if_splits)

lemma rsplit_once_append: "c \<notin> set b \<Longrightarrow> rsplit_once c (a @ c # b) = Some (a, b)"
  by (simp add: rsplit_once_def split_once_append)

section \<open>Digits\<close>

definition digit_char :: "nat \<Rightarrow> char" where
  "digit_char d = (if d < 10 then char_of (48 + d) else char_of (87 + d))"

text \<open>\<open>char::to_digit(radix)\<close>.\<close>

definition to_digit :: "nat \<Rightarrow> char \<Rightarrow> nat option" where
  "to_digit radix c =
     (let n = (of_char c :: nat);
          d = (if 48 \<le> n \<and> n \<le> 57 then Some (n - 48)
               else if 97 \<le> n \<and> n \<le> 122 then Some (n - 87)
               else if 65 \<le> n \<and> n \<le> 90 then Some (n - 55)
               else None)
      in case d of None \<Rightarrow> None | Some v \<Rightarrow> if v < radix then Some v else None)"

text \<open>
  \<open><uN>::from_str_radix\<close> (and \<open>str::parse\<close> with radix 10): an empty string and a lone sign
  are errors, one leading \<open>+\<close> is skipped, every other character must be a digit, and
  exceeding \<open>maxv\<close> is an error.
\<close>

fun parse_digits :: "nat \<Rightarrow> nat \<Rightarrow> nat \<Rightarrow> string \<Rightarrow> nat option" where
  "parse_digits radix maxv acc [] = Some acc"
| "parse_digits radix maxv acc (c # cs) =
     (case to_digit radix c of None \<Rightarrow> None
      | Some d \<Rightarrow> (if acc * radix + d \<le> maxv then parse_digits radix maxv (acc * radix + d) cs
                  else None))"

definition from_str_radix :: "nat \<Rightarrow> nat \<Rightarrow> string \<Rightarrow> nat option" where
  "from_str_radix radix maxv s =
     (case s of
        [] \<Rightarrow> None
      | c # cs \<Rightarrow>
          if c = CHR ''+'' then (if cs = [] then None else parse_digits radix maxv 0 cs)
          else parse_digits radix maxv 0 s)"

text \<open>Formatting an unsigned integer in a radix (\<open>{}\<close>, \<open>{:x}\<close>), and \<open>{:0w}\<close> padding.\<close>

fun show_radix :: "nat \<Rightarrow> nat \<Rightarrow> string" where
  "show_radix radix n =
     (if n < radix \<or> radix < 2 then [digit_char n]
      else show_radix radix (n div radix) @ [digit_char (n mod radix)])"

declare show_radix.simps [simp del]

definition pad0 :: "nat \<Rightarrow> string \<Rightarrow> string" where
  "pad0 w s = replicate (w - length s) (CHR ''0'') @ s"

abbreviation show_dec :: "nat \<Rightarrow> string" where
  "show_dec \<equiv> show_radix 10"

definition show_hex04 :: "nat \<Rightarrow> string" where
  "show_hex04 n = pad0 4 (show_radix 16 n)"

lemma of_char_digit_char:
  "d < 36 \<Longrightarrow> (of_char (digit_char d) :: nat) = (if d < 10 then 48 + d else 87 + d)"
  by (simp add: digit_char_def)

lemma to_digit_digit_char:
  "d < radix \<Longrightarrow> radix \<le> 36 \<Longrightarrow> to_digit radix (digit_char d) = Some d"
  by (auto simp: to_digit_def of_char_digit_char Let_def)

lemma digit_char_neq:
  assumes "d < 36" and "of_char c < (48::nat)"
  shows "digit_char d \<noteq> c"
proof
  assume "digit_char d = c"
  with assms of_char_digit_char [OF assms(1)] show False by (simp split: if_splits)
qed

lemma digit_char_neq_colon: "d < 36 \<Longrightarrow> digit_char d \<noteq> CHR '':''"
proof
  assume d: "d < 36" and "digit_char d = CHR '':''"
  with of_char_digit_char [OF d] show False by (simp split: if_splits)
qed

lemma show_radix_chars:
  assumes "2 \<le> radix" "radix \<le> 36"
  shows "set (show_radix radix n) \<subseteq> digit_char ` {..<radix}"
  using assms
proof (induction radix n rule: show_radix.induct)
  case (1 radix n)
  show ?case
  proof (cases "n < radix")
    case True
    then show ?thesis by (simp add: show_radix.simps [of radix n])
  next
    case False
    with 1 have "set (show_radix radix (n div radix)) \<subseteq> digit_char ` {..<radix}" by simp
    moreover have "n mod radix < radix" using "1.prems" by simp
    ultimately show ?thesis using False "1.prems" by (auto simp: show_radix.simps [of radix n])
  qed
qed

lemma show_radix_notin:
  assumes "2 \<le> radix" "radix \<le> 36" "\<And>d. d < 36 \<Longrightarrow> digit_char d \<noteq> c"
  shows "c \<notin> set (show_radix radix n)"
proof
  assume "c \<in> set (show_radix radix n)"
  then obtain d where "d < radix" "c = digit_char d"
    using show_radix_chars [OF assms(1,2), of n] by auto
  with assms(2) assms(3) [of d] show False by simp
qed

lemma show_radix_nonempty [simp]: "show_radix radix n \<noteq> []"
  by (simp add: show_radix.simps [of radix n])

lemma show_dec_no_colon: "CHR '':'' \<notin> set (show_dec n)"
  by (rule show_radix_notin) (simp_all add: digit_char_neq_colon)

lemma show_dec_no_dash: "CHR ''-'' \<notin> set (show_dec n)"
  by (rule show_radix_notin) (simp_all add: digit_char_neq)

lemma parse_digits_append:
  "parse_digits radix maxv acc (xs @ ys) =
     (case parse_digits radix maxv acc xs of None \<Rightarrow> None
      | Some a \<Rightarrow> parse_digits radix maxv a ys)"
  by (induction xs arbitrary: acc) (auto split: option.splits)

lemma parse_show_radix:
  assumes "2 \<le> radix" "radix \<le> 36" "n \<le> maxv"
  shows "parse_digits radix maxv 0 (show_radix radix n) = Some n"
  using assms
proof (induction radix n rule: show_radix.induct)
  case (1 radix n)
  show ?case
  proof (cases "n < radix")
    case True
    with "1.prems" show ?thesis
      by (simp add: show_radix.simps [of radix n] to_digit_digit_char)
  next
    case False
    have "n div radix \<le> maxv" using "1.prems"(3) by (meson div_le_dividend le_trans)
    with 1 False have "parse_digits radix maxv 0 (show_radix radix (n div radix)) = Some (n div radix)"
      by simp
    moreover have "n mod radix < radix" using "1.prems" by simp
    ultimately show ?thesis using False "1.prems"
      by (simp add: show_radix.simps [of radix n] parse_digits_append to_digit_digit_char)
  qed
qed

lemma parse_digits_zeros:
  "2 \<le> radix \<Longrightarrow> parse_digits radix maxv 0 (replicate k (CHR ''0'') @ s) = parse_digits radix maxv 0 s"
  by (induction k) (auto simp: to_digit_def)

lemma from_str_radix_eq_parse:
  "s \<noteq> [] \<Longrightarrow> CHR ''+'' \<notin> set s \<Longrightarrow> from_str_radix radix maxv s = parse_digits radix maxv 0 s"
  by (cases s) (auto simp: from_str_radix_def)

lemma show_radix_no_plus: "2 \<le> radix \<Longrightarrow> radix \<le> 36 \<Longrightarrow> CHR ''+'' \<notin> set (show_radix radix n)"
  by (rule show_radix_notin) (simp_all add: digit_char_neq)

lemma from_str_show_dec: "n \<le> maxv \<Longrightarrow> from_str_radix 10 maxv (show_dec n) = Some n"
  by (simp add: from_str_radix_eq_parse show_radix_no_plus parse_show_radix)

lemma show_dec_inject:
  assumes "show_dec m = show_dec n"
  shows "m = n"
proof -
  have "from_str_radix 10 (max m n) (show_dec m) = Some m"
    and "from_str_radix 10 (max m n) (show_dec n) = Some n"
    by (simp_all add: from_str_show_dec)
  with assms show ?thesis by (metis option.inject)
qed

lemma set_pad0: "set (pad0 w s) \<subseteq> insert (CHR ''0'') (set s)"
  by (auto simp: pad0_def)

lemma from_str_show_hex04: "n \<le> maxv \<Longrightarrow> from_str_radix 16 maxv (show_hex04 n) = Some n"
proof -
  assume n: "n \<le> maxv"
  have "CHR ''+'' \<notin> set (show_hex04 n)"
    using set_pad0 [of 4 "show_radix 16 n"] show_radix_no_plus [of 16 n]
    by (auto simp: show_hex04_def)
  moreover have "show_hex04 n \<noteq> []" by (simp add: show_hex04_def pad0_def)
  ultimately show ?thesis using n
    by (simp add: from_str_radix_eq_parse show_hex04_def pad0_def parse_digits_zeros parse_show_radix)
qed

lemma show_hex04_no_colon: "CHR '':'' \<notin> set (show_hex04 n)"
  using set_pad0 [of 4 "show_radix 16 n"] show_radix_notin [of 16 "CHR '':''" n]
  by (auto simp: show_hex04_def digit_char_neq_colon)

lemma parse_digits_bound:
  "parse_digits radix maxv acc t = Some n \<Longrightarrow> acc \<le> maxv \<Longrightarrow> n \<le> maxv"
  by (induction t arbitrary: acc) (auto split: option.splits if_splits)

lemma from_str_radix_bound: "from_str_radix radix maxv s = Some n \<Longrightarrow> n \<le> maxv"
  unfolding from_str_radix_def
  by (cases s) (auto simp del: parse_digits.simps intro: parse_digits_bound split: if_splits)

section \<open>Pieces and trimming\<close>

text \<open>\<open>str::split\<close> on a character, and \<open>str::trim\<close> on ASCII text.\<close>

fun split_all :: "char \<Rightarrow> string \<Rightarrow> string list" where
  "split_all c [] = [[]]"
| "split_all c (x # xs) =
     (if x = c then [] # split_all c xs
      else (case split_all c xs of [] \<Rightarrow> [[x]] | w # ws \<Rightarrow> (x # w) # ws))"

definition ascii_space :: "char \<Rightarrow> bool" where
  "ascii_space c \<longleftrightarrow> (let n = (of_char c :: nat) in n = 32 \<or> (9 \<le> n \<and> n \<le> 13))"

definition trim :: "string \<Rightarrow> string" where
  "trim s = rev (dropWhile ascii_space (rev (dropWhile ascii_space s)))"

lemma split_all_not_Nil: "split_all c s \<noteq> []"
  by (cases s) (auto split: list.splits)

lemma split_all_single: "c \<notin> set s \<Longrightarrow> split_all c s = [s]"
  by (induction s) auto

lemma split_all_append: "c \<notin> set a \<Longrightarrow> split_all c (a @ c # b) = a # split_all c b"
  by (induction a) auto

lemma split_all_pieces: "w \<in> set (split_all c s) \<Longrightarrow> c \<notin> set w \<and> set w \<subseteq> set s"
proof (induction s arbitrary: w)
  case (Cons x xs)
  show ?case
  proof (cases "x = c")
    case True
    with Cons show ?thesis by auto
  next
    case False
    obtain y ys where ys: "split_all c xs = y # ys"
      using split_all_not_Nil [of c xs] by (cases "split_all c xs") auto
    with False Cons.prems have "w = x # y \<or> w \<in> set ys" by simp
    with Cons.IH [of y] Cons.IH [of w] ys False show ?thesis by auto
  qed
qed simp

lemma trim_fix: "v = [] \<or> (\<not> ascii_space (hd v) \<and> \<not> ascii_space (last v)) \<Longrightarrow> trim v = v"
proof -
  assume v: "v = [] \<or> (\<not> ascii_space (hd v) \<and> \<not> ascii_space (last v))"
  have fix_dw: "xs = [] \<or> \<not> ascii_space (hd xs) \<Longrightarrow> dropWhile ascii_space xs = xs" for xs
    by (cases xs) auto
  from v have "dropWhile ascii_space v = v" "dropWhile ascii_space (rev v) = rev v"
    by (auto intro!: fix_dw simp: hd_rev)
  then show ?thesis by (simp add: trim_def)
qed

lemma trim_idem [simp]: "trim (trim s) = trim s"
proof (rule trim_fix)
  let ?d = "dropWhile ascii_space s" and ?r = "dropWhile ascii_space (rev (dropWhile ascii_space s))"
  show "trim s = [] \<or> (\<not> ascii_space (hd (trim s)) \<and> \<not> ascii_space (last (trim s)))"
  proof (cases "?r = []")
    case False
    then have "?d \<noteq> []" by (metis dropWhile.simps(1) rev.simps(1))
    then have hd: "\<not> ascii_space (hd ?d)" by (rule hd_dropWhile)
    have "\<not> ascii_space (hd ?r)" using False by (rule hd_dropWhile)
    moreover have "last ?r = last (rev ?d)"
      using hd \<open>?d \<noteq> []\<close> by (intro dropWhile_last [of "hd ?d"]) auto
    ultimately show ?thesis using hd False \<open>?d \<noteq> []\<close>
      by (simp add: trim_def hd_rev last_rev)
  qed (simp add: trim_def)
qed

lemma trim_subset: "set (trim s) \<subseteq> set s"
proof -
  have "set (dropWhile P xs) \<subseteq> set xs" for P :: "char \<Rightarrow> bool" and xs
    by (auto dest: set_dropWhileD)
  from this [of ascii_space "rev (dropWhile ascii_space s)"] this [of ascii_space s] show ?thesis
    unfolding trim_def set_rev by blast
qed

end
