(* ===== verification/DeviceIds.thy ===== *)
theory DeviceIds
  imports RustText "HOL-Library.Char_ord" "HOL-Library.List_Lexorder"
    "HOL-Library.Product_Lexorder"
begin

text \<open>
  \<open>crates/omnimodem/src/ids.rs\<close>: channel and transmit identifiers, the durable device
  identity with its canonical string form, the parser of that form, and the derived order.
\<close>

section \<open>Identifiers\<close>

type_synonym channel_id = u32
type_synonym transmit_id = u64

datatype rtl_key =
    RtlSerial string
  | RtlTopo u8 string

datatype device_id =
    Usb u16 u16 string
  | AlsaCard string
  | Topology u8 string
  | Serial string
  | RtlTcp string u16
  | Rtl rtl_key
  | Placeholder string

definition placeholder :: device_id where
  "placeholder = Placeholder ''virtual:0''"

definition is_sdr :: "device_id \<Rightarrow> bool" where
  "is_sdr d = (case d of RtlTcp _ _ \<Rightarrow> True | Rtl _ \<Rightarrow> True | _ \<Rightarrow> False)"

section \<open>The canonical string\<close>

fun to_canonical_string :: "device_id \<Rightarrow> string" where
  "to_canonical_string (Usb vid pid serial) =
     ''usb:'' @ show_hex04 (unat vid) @ '':'' @ show_hex04 (unat pid) @ '':'' @ serial"
| "to_canonical_string (AlsaCard card_name) = ''alsa:'' @ card_name"
| "to_canonical_string (Topology bus ports) = ''topo:'' @ show_dec (unat bus) @ ''-'' @ ports"
| "to_canonical_string (Serial by_id) = ''serial:'' @ by_id"
| "to_canonical_string (RtlTcp host port) = ''rtltcp:'' @ host @ '':'' @ show_dec (unat port)"
| "to_canonical_string (Rtl (RtlSerial s)) = ''rtl:serial:'' @ s"
| "to_canonical_string (Rtl (RtlTopo bus ports)) =
     ''rtl:topo:'' @ show_dec (unat bus) @ ''-'' @ ports"
| "to_canonical_string (Placeholder tag) = ''virtual:'' @ tag"

definition parse_u16_hex :: "string \<Rightarrow> u16 option" where
  "parse_u16_hex s = map_option of_nat (from_str_radix 16 65535 s)"

definition parse_u16 :: "string \<Rightarrow> u16 option" where
  "parse_u16 s = map_option of_nat (from_str_radix 10 65535 s)"

definition parse_u8 :: "string \<Rightarrow> u8 option" where
  "parse_u8 s = map_option of_nat (from_str_radix 10 255 s)"

text \<open>\<open><bus>-<ports>\<close>, shared by the \<open>topo:\<close> and \<open>rtl:topo:\<close> arms.\<close>

definition parse_bus_ports :: "string \<Rightarrow> (u8 \<times> string) option" where
  "parse_bus_ports s =
     (case split_once (CHR ''-'') s of
        None \<Rightarrow> None
      | Some (bus, ports) \<Rightarrow> map_option (\<lambda>b. (b, ports)) (parse_u8 bus))"

definition parse_usb_body :: "string \<Rightarrow> device_id option" where
  "parse_usb_body body =
     (case splitn 3 (CHR '':'') body of
        vid # pid # rest \<Rightarrow>
          (case (parse_u16_hex vid, parse_u16_hex pid) of
             (Some v, Some p) \<Rightarrow> Some (Usb v p (case rest of [] \<Rightarrow> [] | s # _ \<Rightarrow> s))
           | _ \<Rightarrow> None)
      | _ \<Rightarrow> None)"

definition parse_rtltcp_body :: "string \<Rightarrow> device_id option" where
  "parse_rtltcp_body body =
     (case rsplit_once (CHR '':'') body of
        None \<Rightarrow> None
      | Some (host, port) \<Rightarrow> map_option (RtlTcp host) (parse_u16 port))"

definition parse_rtl_body :: "string \<Rightarrow> device_id option" where
  "parse_rtl_body body =
     (case split_once (CHR '':'') body of
        None \<Rightarrow> None
      | Some (sub, rest) \<Rightarrow>
          if sub = ''serial'' then Some (Rtl (RtlSerial rest))
          else if sub = ''topo'' then
            map_option (\<lambda>(b, ports). Rtl (RtlTopo b ports)) (parse_bus_ports rest)
          else None)"

definition parse_device_id :: "string \<Rightarrow> device_id option" where
  "parse_device_id s =
     (case split_once (CHR '':'') s of
        None \<Rightarrow> None
      | Some (scheme, body) \<Rightarrow>
          if scheme = ''usb'' then parse_usb_body body
          else if scheme = ''alsa'' then Some (AlsaCard body)
          else if scheme = ''topo'' then
            map_option (\<lambda>(b, ports). Topology b ports) (parse_bus_ports body)
          else if scheme = ''serial'' then Some (Serial body)
          else if scheme = ''rtltcp'' then parse_rtltcp_body body
          else if scheme = ''rtl'' then parse_rtl_body body
          else if scheme = ''virtual'' then Some (Placeholder body)
          else None)"

lemma parse_u16_hex_show [simp]: "parse_u16_hex (show_hex04 (unat v)) = Some v"
proof -
  have "unat v \<le> 65535" using unat_u16 [of v] by linarith
  then show ?thesis by (simp add: parse_u16_hex_def from_str_show_hex04)
qed

lemma parse_u16_show [simp]: "parse_u16 (show_dec (unat v)) = Some v"
proof -
  have "unat v \<le> 65535" using unat_u16 [of v] by linarith
  then show ?thesis by (simp add: parse_u16_def from_str_show_dec)
qed

lemma parse_u8_show [simp]: "parse_u8 (show_dec (unat v)) = Some v"
proof -
  have "unat v \<le> 255" using unat_u8 [of v] by linarith
  then show ?thesis by (simp add: parse_u8_def from_str_show_dec)
qed

lemma parse_bus_ports_show:
  "parse_bus_ports (show_dec (unat b) @ CHR ''-'' # ports) = Some (b, ports)"
  by (simp add: parse_bus_ports_def split_once_append show_dec_no_dash)

lemma parse_usb_body_show:
  "parse_usb_body (show_hex04 (unat v) @ CHR '':'' # show_hex04 (unat p) @ CHR '':'' # s) =
     Some (Usb v p s)"
  by (simp add: parse_usb_body_def numeral_3_eq_3 split_once_append show_hex04_no_colon)

lemma parse_rtltcp_body_show:
  "parse_rtltcp_body (host @ CHR '':'' # show_dec (unat p)) = Some (RtlTcp host p)"
  by (simp add: parse_rtltcp_body_def rsplit_once_append show_dec_no_colon)

lemma parse_canonical: "parse_device_id (to_canonical_string d) = Some d"
proof (cases d)
  case (Rtl k)
  then show ?thesis
    by (cases k) (simp_all add: parse_device_id_def parse_rtl_body_def parse_bus_ports_show)
qed (simp_all add: parse_device_id_def parse_bus_ports_show parse_usb_body_show
    parse_rtltcp_body_show)

lemma to_canonical_string_inject [simp]:
  "to_canonical_string d = to_canonical_string e \<longleftrightarrow> d = e"
  by (metis option.inject parse_canonical)

section \<open>The derived order\<close>

text \<open>
  \<open>#[derive(PartialOrd, Ord)]\<close> compares the variants in declaration order, then the fields
  from left to right. \<open>ord_key\<close> lays every variant out as one tuple with that order.
\<close>

fun ord_key :: "device_id \<Rightarrow> nat \<times> nat \<times> nat \<times> string \<times> nat" where
  "ord_key (Usb vid pid serial) = (0, unat vid, unat pid, serial, 0)"
| "ord_key (AlsaCard card_name) = (1, 0, 0, card_name, 0)"
| "ord_key (Topology bus ports) = (2, unat bus, 0, ports, 0)"
| "ord_key (Serial by_id) = (3, 0, 0, by_id, 0)"
| "ord_key (RtlTcp host port) = (4, 0, 0, host, unat port)"
| "ord_key (Rtl (RtlSerial s)) = (5, 0, 0, s, 0)"
| "ord_key (Rtl (RtlTopo bus ports)) = (5, 1, unat bus, ports, 0)"
| "ord_key (Placeholder tag) = (6, 0, 0, tag, 0)"

lemma ord_key_inject [simp]: "ord_key d = ord_key e \<longleftrightarrow> d = e"
proof
  assume "ord_key d = ord_key e"
  then show "d = e"
    by (cases d rule: ord_key.cases; cases e rule: ord_key.cases) (auto intro: unat_inject)
qed simp

instantiation device_id :: linorder
begin

definition less_eq_device_id :: "device_id \<Rightarrow> device_id \<Rightarrow> bool" where
  "less_eq_device_id d e \<longleftrightarrow> ord_key d \<le> ord_key e"

definition less_device_id :: "device_id \<Rightarrow> device_id \<Rightarrow> bool" where
  "less_device_id d e \<longleftrightarrow> ord_key d < ord_key e"

instance
proof
  fix x y z :: device_id
  show "(x < y) = (x \<le> y \<and> \<not> y \<le> x)"
    by (simp add: less_eq_device_id_def less_device_id_def less_le_not_le)
  show "x \<le> x" by (simp add: less_eq_device_id_def)
  show "x \<le> y \<Longrightarrow> y \<le> z \<Longrightarrow> x \<le> z" unfolding less_eq_device_id_def by (rule order_trans)
  show "x \<le> y \<Longrightarrow> y \<le> x \<Longrightarrow> x = y"
    unfolding less_eq_device_id_def using order_antisym ord_key_inject by blast
  show "x \<le> y \<or> y \<le> x" by (simp add: less_eq_device_id_def linear)
qed

end

lemma usb_before_topology: "Usb v p s < Topology b q"
  by (simp add: less_device_id_def)

section \<open>Properties\<close>

text \<open>
  parsing the canonical string of a device identity yields that identity again, for every
  variant and all field values; serials, host names and port chains may contain the separators.
\<close>

theorem device_id_roundtrip: "parse_device_id (to_canonical_string d) = Some d"
  by (rule parse_canonical)

end
