(* ===== verification/PttDriver.thy ===== *)
theory PttDriver
  imports DeviceIds
begin

text \<open>
  \<open>crates/omnimodem/src/ptt/\<close>: the \<open>PttDriver\<close> trait and its implementations (no-op, test
  double, serial RTS/DTR, CM108 HID GPIO, gpiochip), the production opener, and the port
  registry. The operating-system calls below each driver's seam trait (\<open>ModemControlLines\<close>,
  \<open>Cm108Hid\<close>, \<open>GpiochipLine\<close>) are the fields of a parameter record.
\<close>

section \<open>Errors and the trait's contract\<close>

datatype ptt_error =
    DeviceGone string
  | PermissionDenied string
  | Busy string
  | ConfigError string
  | Unsupported
  | IoError string

type_synonym ptt_reply = "(unit, ptt_error) result"

text \<open>
  \<open>key\<close> asserts the line, \<open>unkey\<close> releases it, and a call that fails leaves the line where it
  was. \<open>valid\<close> restricts the drivers the contract speaks about.
\<close>

locale ptt_driver =
  fixes key unkey :: "'d \<Rightarrow> 'd \<times> ptt_reply"
    and asserted valid :: "'d \<Rightarrow> bool"
  assumes unkey_ok: "valid d \<Longrightarrow> unkey d = (d', Ok ()) \<Longrightarrow> \<not> asserted d'"
    and unkey_err: "valid d \<Longrightarrow> unkey d = (d', Err e) \<Longrightarrow> asserted d' = asserted d"
    and key_err: "valid d \<Longrightarrow> key d = (d', Err e) \<Longrightarrow> asserted d' = asserted d"
    and valid_key: "valid d \<Longrightarrow> valid (fst (key d))"
    and valid_unkey: "valid d \<Longrightarrow> valid (fst (unkey d))"
begin

lemma unkey_cases:
  assumes "valid d"
  obtains (released) "snd (unkey d) = Ok ()" "\<not> asserted (fst (unkey d))"
    | (failed) e where "snd (unkey d) = Err e" "asserted (fst (unkey d)) = asserted d"
proof (cases "snd (unkey d)")
  case (Inl e)
  then have "unkey d = (fst (unkey d), Err e)" by (simp add: prod_eq_iff)
  from failed [OF Inl unkey_err [OF assms this]] show thesis .
next
  case (Inr u)
  then have "unkey d = (fst (unkey d), Ok ())" by (simp add: prod_eq_iff)
  from released [OF _ unkey_ok [OF assms this]] Inr show thesis by simp
qed

lemma release_idle: "valid d \<Longrightarrow> \<not> asserted d \<Longrightarrow> \<not> asserted (fst (unkey d))"
  by (erule unkey_cases) simp_all

end

text \<open>Drivers with a real line additionally assert it on a successful \<open>key\<close>.\<close>

locale ptt_line_driver = ptt_driver +
  assumes key_ok: "valid d \<Longrightarrow> key d = (d', Ok ()) \<Longrightarrow> asserted d'"
begin

lemma key_iff:
  assumes "valid d" "\<not> asserted d"
  shows "asserted (fst (key d)) \<longleftrightarrow> snd (key d) = Ok ()"
proof (cases "snd (key d)")
  case (Inl e)
  then have "key d = (fst (key d), Err e)" by (simp add: prod_eq_iff)
  from key_err [OF assms(1) this] assms(2) Inl show ?thesis by simp
next
  case (Inr u)
  then have "key d = (fst (key d), Ok ())" by (simp add: prod_eq_iff)
  from key_ok [OF assms(1) this] Inr show ?thesis by simp
qed

end

section \<open>The no-op driver and the test double (\<open>none.rs\<close>)\<close>

definition none_key :: "unit \<Rightarrow> unit \<times> ptt_reply" where
  "none_key p = (p, Ok ())"

definition none_unkey :: "unit \<Rightarrow> unit \<times> ptt_reply" where
  "none_unkey p = (p, Ok ())"

interpretation none_ptt: ptt_driver none_key none_unkey "\<lambda>_. False" "\<lambda>_. True"
  by unfold_locales (auto simp: none_key_def none_unkey_def)

record mock_ptt =
  mock_keyed :: bool
  mock_keys :: nat
  mock_unkeys :: nat
  mock_fail_key :: bool
  mock_fail_unkey :: bool

definition mock_new :: mock_ptt where
  "mock_new = \<lparr>mock_keyed = False, mock_keys = 0, mock_unkeys = 0,
     mock_fail_key = False, mock_fail_unkey = False\<rparr>"

definition mock_key :: "mock_ptt \<Rightarrow> mock_ptt \<times> ptt_reply" where
  "mock_key p =
     (if mock_fail_key p then (p, Err (IoError ''mock key failure''))
      else (p\<lparr>mock_keys := mock_keys p + 1, mock_keyed := True\<rparr>, Ok ()))"

definition mock_unkey :: "mock_ptt \<Rightarrow> mock_ptt \<times> ptt_reply" where
  "mock_unkey p =
     (if mock_fail_unkey p then (p, Err (IoError ''mock unkey failure''))
      else (p\<lparr>mock_unkeys := mock_unkeys p + 1, mock_keyed := False\<rparr>, Ok ()))"

definition mock_drop :: "mock_ptt \<Rightarrow> mock_ptt" where
  "mock_drop p = (if mock_keyed p then fst (mock_unkey p) else p)"

interpretation mock: ptt_line_driver mock_key mock_unkey mock_keyed "\<lambda>_. True"
  by unfold_locales (auto simp: mock_key_def mock_unkey_def split: if_splits)

lemma mock_drop_releases: "\<not> mock_fail_unkey p \<Longrightarrow> \<not> mock_keyed (mock_drop p)"
  by (simp add: mock_drop_def mock_unkey_def)

section \<open>The hardware seams\<close>

datatype serial_line = Rts | Dtr

text \<open>
  \<open>'l\<close>, \<open>'h\<close> and \<open>'g\<close> are the open tty, hidraw node and gpio request; the fields are the
  seam methods and the adapters' \<open>open\<close>.
\<close>

record ('l, 'h, 'g) ptt_hw =
  lines_open :: "string \<Rightarrow> ('l, ptt_error) result"
  write_rts :: "'l \<Rightarrow> bool \<Rightarrow> 'l \<times> ptt_reply"
  write_dtr :: "'l \<Rightarrow> bool \<Rightarrow> 'l \<times> ptt_reply"
  hid_open :: "string \<Rightarrow> ('h, ptt_error) result"
  write_report :: "'h \<Rightarrow> u8 list \<Rightarrow> 'h \<times> ptt_reply"
  gpio_open :: "string \<Rightarrow> u32 \<Rightarrow> ('g, ptt_error) result"
  set_active :: "'g \<Rightarrow> bool \<Rightarrow> 'g \<times> ptt_reply"

text \<open>What a probe on the pins would read.\<close>

record ('l, 'h, 'g) ptt_probe =
  rts_level :: "'l \<Rightarrow> bool"
  dtr_level :: "'l \<Rightarrow> bool"
  hid_pins :: "'h \<Rightarrow> u8"
  gpio_level :: "'g \<Rightarrow> bool"

text \<open>
  The documented behaviour of the kernel interfaces: a write that succeeds sets the addressed
  line and leaves the other lines of the adapter alone; one that fails changes nothing. A CM108
  report \<open>[0, 0, value, mask, 0]\<close> drives the masked pins to \<open>value\<close>.
\<close>

definition sets_line :: "('x \<Rightarrow> bool \<Rightarrow> 'x \<times> ptt_reply) \<Rightarrow> ('x \<Rightarrow> bool) \<Rightarrow> bool" where
  "sets_line w lvl \<longleftrightarrow>
     (\<forall>x v. (case snd (w x v) of Ok _ \<Rightarrow> lvl (fst (w x v)) = v | Err _ \<Rightarrow> lvl (fst (w x v)) = lvl x))"

definition hw_ok :: "('l, 'h, 'g) ptt_hw \<Rightarrow> ('l, 'h, 'g) ptt_probe \<Rightarrow> bool" where
  "hw_ok hw pr \<longleftrightarrow>
     sets_line (write_rts hw) (rts_level pr) \<and> sets_line (write_dtr hw) (dtr_level pr) \<and>
     sets_line (set_active hw) (gpio_level pr) \<and>
     (\<forall>x v. dtr_level pr (fst (write_rts hw x v)) = dtr_level pr x) \<and>
     (\<forall>x v. rts_level pr (fst (write_dtr hw x v)) = rts_level pr x) \<and>
     (\<forall>x v m. (case snd (write_report hw x [0, 0, v, m, 0]) of
        Ok _ \<Rightarrow> hid_pins pr (fst (write_report hw x [0, 0, v, m, 0])) =
                 (hid_pins pr x AND NOT m) OR (v AND m)
      | Err _ \<Rightarrow> hid_pins pr (fst (write_report hw x [0, 0, v, m, 0])) = hid_pins pr x))"

section \<open>The drivers with a line (\<open>serial.rs\<close>, \<open>cm108.rs\<close>, \<open>gpio.rs\<close>)\<close>

record 'l serial_ptt =
  ser_lines :: 'l
  ser_line :: serial_line
  ser_invert :: bool
  ser_device :: string

record 'h cm108_ptt =
  cm_hid :: 'h
  cm_pin :: u8
  cm_invert :: bool

record 'g gpio_ptt =
  gp_line :: 'g
  gp_invert :: bool

definition serial_set :: "('l, 'h, 'g) ptt_hw \<Rightarrow> 'l serial_ptt \<Rightarrow> bool \<Rightarrow> 'l serial_ptt \<times> ptt_reply" where
  "serial_set hw d asserted =
     (let level = (asserted \<noteq> ser_invert d);
          (l, r) = (case ser_line d of
                      Rts \<Rightarrow> write_rts hw (ser_lines d) level
                    | Dtr \<Rightarrow> write_dtr hw (ser_lines d) level)
      in (d\<lparr>ser_lines := l\<rparr>, r))"

definition serial_new :: "('l, 'h, 'g) ptt_hw \<Rightarrow> 'l \<Rightarrow> serial_line \<Rightarrow> bool \<Rightarrow> string \<Rightarrow>
    ('l serial_ptt, ptt_error) result" where
  "serial_new hw lines line invert device =
     (let (d, r) = serial_set hw
            \<lparr>ser_lines = lines, ser_line = line, ser_invert = invert, ser_device = device\<rparr> False
      in case r of Err e \<Rightarrow> Err e | Ok _ \<Rightarrow> Ok d)"

text \<open>\<open>1u8 << (self.pin - 1)\<close>.\<close>

definition pin_mask :: "u8 \<Rightarrow> u8" where
  "pin_mask pin = push_bit (unat pin - 1) 1"

definition cm108_set :: "('l, 'h, 'g) ptt_hw \<Rightarrow> 'h cm108_ptt \<Rightarrow> bool \<Rightarrow> 'h cm108_ptt \<times> ptt_reply" where
  "cm108_set hw d asserted =
     (let on = (asserted \<noteq> cm_invert d);
          mask = pin_mask (cm_pin d);
          value = (if on then mask else 0);
          (h, r) = write_report hw (cm_hid d) [0, 0, value, mask, 0]
      in (d\<lparr>cm_hid := h\<rparr>, r))"

definition cm108_new :: "('l, 'h, 'g) ptt_hw \<Rightarrow> 'h \<Rightarrow> u8 \<Rightarrow> bool \<Rightarrow>
    ('h cm108_ptt, ptt_error) result" where
  "cm108_new hw hid pin invert =
     (if \<not> (1 \<le> pin \<and> pin \<le> 8)
      then Err (ConfigError (''cm108 pin '' @ show_dec (unat pin) @ '' out of range 1..=8''))
      else let (d, r) = cm108_set hw \<lparr>cm_hid = hid, cm_pin = pin, cm_invert = invert\<rparr> False
           in case r of Err e \<Rightarrow> Err e | Ok _ \<Rightarrow> Ok d)"

definition gpio_drive :: "('l, 'h, 'g) ptt_hw \<Rightarrow> 'g gpio_ptt \<Rightarrow> bool \<Rightarrow> 'g gpio_ptt \<times> ptt_reply" where
  "gpio_drive hw d asserted =
     (let (g, r) = set_active hw (gp_line d) (asserted \<noteq> gp_invert d) in (d\<lparr>gp_line := g\<rparr>, r))"

definition gpio_new :: "('l, 'h, 'g) ptt_hw \<Rightarrow> 'g \<Rightarrow> bool \<Rightarrow> ('g gpio_ptt, ptt_error) result" where
  "gpio_new hw line invert =
     (let (d, r) = gpio_drive hw \<lparr>gp_line = line, gp_invert = invert\<rparr> False
      in case r of Err e \<Rightarrow> Err e | Ok _ \<Rightarrow> Ok d)"

text \<open>\<open>TIOCMGET\<close>/\<open>TIOCMSET\<close> read-modify-write of one modem-control bit.\<close>

definition modem_bit :: "u32 \<Rightarrow> bool \<Rightarrow> u32 \<Rightarrow> u32" where
  "modem_bit tiocm high status = (if high then status OR tiocm else status AND NOT tiocm)"

lemma modem_bit_sets: "modem_bit m high status AND m = (if high then m else 0)"
  by (rule bit_eqI) (auto simp: modem_bit_def bit_simps)

lemma modem_bit_keeps: "m AND k = 0 \<Longrightarrow> modem_bit m high status AND k = status AND k"
proof -
  assume "m AND k = 0"
  then have "\<not> (bit m n \<and> bit k n)" for n by (metis bit_0_eq bit_and_iff bot_apply bot_bool_def)
  then show ?thesis by (intro bit_eqI) (auto simp: modem_bit_def bit_simps)
qed

section \<open>The registry and the production opener (\<open>registry.rs\<close>)\<close>

datatype ptt_method =
    MNone
  | MVox
  | MSerialRts string
  | MSerialDtr string
  | MCm108 string u8
  | MGpio string u32

record ptt_config =
  ptt_device_id :: device_id
  ptt_method :: ptt_method
  ptt_invert :: bool
  ptt_tx_delay_ms :: u32
  ptt_tx_tail_ms :: u32

definition default_tx_delay_ms :: u32 where "default_tx_delay_ms = 300"
definition default_tx_tail_ms :: u32 where "default_tx_tail_ms = 50"

text \<open>A boxed driver, by its concrete type.\<close>

datatype ('l, 'h, 'g) ptt_box =
    BoxNone
  | BoxSerial "'l serial_ptt"
  | BoxCm108 "'h cm108_ptt"
  | BoxGpio "'g gpio_ptt"

definition real_open :: "('l, 'h, 'g) ptt_hw \<Rightarrow> ptt_config \<Rightarrow> (('l, 'h, 'g) ptt_box, ptt_error) result" where
  "real_open hw cfg =
     (case ptt_method cfg of
        MNone \<Rightarrow> Ok BoxNone
      | MVox \<Rightarrow> Ok BoxNone
      | MSerialRts node \<Rightarrow>
          (case lines_open hw node of Err e \<Rightarrow> Err e
           | Ok l \<Rightarrow> map_sum id BoxSerial (serial_new hw l Rts (ptt_invert cfg) node))
      | MSerialDtr node \<Rightarrow>
          (case lines_open hw node of Err e \<Rightarrow> Err e
           | Ok l \<Rightarrow> map_sum id BoxSerial (serial_new hw l Dtr (ptt_invert cfg) node))
      | MCm108 node pin \<Rightarrow>
          (case hid_open hw node of Err e \<Rightarrow> Err e
           | Ok h \<Rightarrow> map_sum id BoxCm108 (cm108_new hw h pin (ptt_invert cfg)))
      | MGpio chip line \<Rightarrow>
          (case gpio_open hw chip line of Err e \<Rightarrow> Err e
           | Ok g \<Rightarrow> map_sum id BoxGpio (gpio_new hw g (ptt_invert cfg))))"

fun box_set :: "('l, 'h, 'g) ptt_hw \<Rightarrow> ('l, 'h, 'g) ptt_box \<Rightarrow> bool \<Rightarrow> ('l, 'h, 'g) ptt_box \<times> ptt_reply" where
  "box_set hw BoxNone v = (BoxNone, Ok ())"
| "box_set hw (BoxSerial d) v = (let (d', r) = serial_set hw d v in (BoxSerial d', r))"
| "box_set hw (BoxCm108 d) v = (let (d', r) = cm108_set hw d v in (BoxCm108 d', r))"
| "box_set hw (BoxGpio d) v = (let (d', r) = gpio_drive hw d v in (BoxGpio d', r))"

definition box_key :: "('l, 'h, 'g) ptt_hw \<Rightarrow> ('l, 'h, 'g) ptt_box \<Rightarrow> ('l, 'h, 'g) ptt_box \<times> ptt_reply" where
  "box_key hw d = box_set hw d True"

definition box_unkey :: "('l, 'h, 'g) ptt_hw \<Rightarrow> ('l, 'h, 'g) ptt_box \<Rightarrow> ('l, 'h, 'g) ptt_box \<times> ptt_reply" where
  "box_unkey hw d = box_set hw d False"

text \<open>\<open>Drop\<close> of a boxed driver releases the line and ignores the reply.\<close>

definition box_drop :: "('l, 'h, 'g) ptt_hw \<Rightarrow> ('l, 'h, 'g) ptt_box \<Rightarrow> ('l, 'h, 'g) ptt_box" where
  "box_drop hw d = fst (box_set hw d False)"

type_synonym port_registry = "device_id set"

definition registry_new :: port_registry where
  "registry_new = {}"

definition build_driver :: "(ptt_config \<Rightarrow> ('d, ptt_error) result) \<Rightarrow> port_registry \<Rightarrow> ptt_config \<Rightarrow>
    port_registry \<times> ('d, ptt_error) result" where
  "build_driver opener reg cfg =
     (case opener cfg of
        Err e \<Rightarrow> (reg, Err e)
      | Ok d \<Rightarrow> (insert (ptt_device_id cfg) reg, Ok d))"

definition evict :: "port_registry \<Rightarrow> device_id \<Rightarrow> port_registry" where
  "evict reg d = reg - {d}"

definition knows :: "port_registry \<Rightarrow> device_id \<Rightarrow> bool" where
  "knows reg d \<longleftrightarrow> d \<in> reg"

section \<open>Every production driver keeps the contract\<close>

text \<open>What the rig sees: the line is asserted when its level differs from the released level.\<close>

fun transmitting :: "('l, 'h, 'g) ptt_probe \<Rightarrow> ('l, 'h, 'g) ptt_box \<Rightarrow> bool" where
  "transmitting pr BoxNone = False"
| "transmitting pr (BoxSerial d) =
     ((case ser_line d of Rts \<Rightarrow> rts_level pr (ser_lines d) | Dtr \<Rightarrow> dtr_level pr (ser_lines d))
       \<noteq> ser_invert d)"
| "transmitting pr (BoxCm108 d) =
     ((hid_pins pr (cm_hid d) AND pin_mask (cm_pin d) \<noteq> 0) \<noteq> cm_invert d)"
| "transmitting pr (BoxGpio d) = (gpio_level pr (gp_line d) \<noteq> gp_invert d)"

text \<open>The pin check of \<open>cm108_new\<close> keeps the mask inside the byte.\<close>

fun box_valid :: "('l, 'h, 'g) ptt_box \<Rightarrow> bool" where
  "box_valid (BoxCm108 d) = (1 \<le> cm_pin d \<and> cm_pin d \<le> 8)"
| "box_valid _ = True"

lemma pin_mask_nonzero:
  fixes p :: u8
  assumes "1 \<le> p" "p \<le> 8"
  shows "pin_mask p \<noteq> 0"
proof -
  have "unat p - 1 < 8" using assms by (simp add: word_le_nat_alt)
  then have "bit (pin_mask p) (unat p - 1)" by (simp add: pin_mask_def bit_simps)
  then show ?thesis by (metis bit_0_eq bot_apply bot_bool_def)
qed

lemma masked_pins: "((x AND NOT m) OR (m AND m)) AND m = (m :: u8)"
  "((x AND NOT m) OR (0 AND m)) AND m = (0 :: u8)" "(x AND NOT m) AND m = (0 :: u8)"
  by (auto intro!: bit_eqI simp: bit_simps)

lemma box_set_line:
  assumes hw: "hw_ok hw pr" and v: "box_valid d" and "d \<noteq> BoxNone"
  shows "(case snd (box_set hw d on) of
            Ok _ \<Rightarrow> transmitting pr (fst (box_set hw d on)) = on
          | Err _ \<Rightarrow> transmitting pr (fst (box_set hw d on)) = transmitting pr d)"
proof (cases d)
  case (BoxSerial s)
  with hw show ?thesis
    by (cases "ser_line s")
      (auto simp: hw_ok_def sets_line_def serial_set_def Let_def split: prod.splits sum.splits,
        (metis fst_conv snd_conv Inl_Inr_False sum.inject)+)
next
  case (BoxCm108 c)
  define m where "m = pin_mask (cm_pin c)"
  have m: "m \<noteq> 0" unfolding m_def using v BoxCm108 by (intro pin_mask_nonzero) simp_all
  obtain h r where w: "write_report hw (cm_hid c)
      [0, 0, if on \<noteq> cm_invert c then m else 0, m, 0] = (h, r)" by fastforce
  with hw have "(case r of
      Ok _ \<Rightarrow> hid_pins pr h = (hid_pins pr (cm_hid c) AND NOT m) OR
                ((if on \<noteq> cm_invert c then m else 0) AND m)
    | Err _ \<Rightarrow> hid_pins pr h = hid_pins pr (cm_hid c))"
    unfolding hw_ok_def by (metis fst_conv snd_conv)
  with w m BoxCm108 show ?thesis
    by (auto simp: cm108_set_def Let_def masked_pins simp flip: m_def split: sum.splits if_splits)
next
  case (BoxGpio g)
  with hw show ?thesis
    by (auto simp: hw_ok_def sets_line_def gpio_drive_def Let_def split: prod.splits sum.splits)
      (metis fst_conv snd_conv Inl_Inr_False sum.inject)+
qed (use assms(3) in simp)

lemma box_valid_set: "box_valid d \<Longrightarrow> box_valid (fst (box_set hw d on))"
  by (cases d) (auto simp: serial_set_def cm108_set_def gpio_drive_def Let_def split: prod.splits)

lemma box_set_None: "box_set hw d on = (BoxNone, r) \<Longrightarrow> d = BoxNone"
  by (cases d) (auto simp: serial_set_def cm108_set_def gpio_drive_def Let_def split: prod.splits)

lemma box_set_kind: "fst (box_set hw d on) = BoxNone \<longleftrightarrow> d = BoxNone"
  using box_set_None [of hw d on "snd (box_set hw d on)"] by (auto simp: prod_eq_iff)

lemma real_driver_contract:
  fixes hw :: "('l, 'h, 'g) ptt_hw"
  assumes "hw_ok hw pr"
  shows "ptt_driver (box_key hw) (box_unkey hw) (transmitting pr) box_valid"
proof
  fix d d' :: "('l, 'h, 'g) ptt_box" and e
  show "box_valid d \<Longrightarrow> box_unkey hw d = (d', Ok ()) \<Longrightarrow> \<not> transmitting pr d'"
    using box_set_line [OF assms, of d False] by (cases "d = BoxNone") (auto simp: box_unkey_def)
  show "box_valid d \<Longrightarrow> box_unkey hw d = (d', Err e) \<Longrightarrow> transmitting pr d' = transmitting pr d"
    using box_set_line [OF assms, of d False] by (cases "d = BoxNone") (auto simp: box_unkey_def)
  show "box_valid d \<Longrightarrow> box_key hw d = (d', Err e) \<Longrightarrow> transmitting pr d' = transmitting pr d"
    using box_set_line [OF assms, of d True] by (cases "d = BoxNone") (auto simp: box_key_def)
qed (simp_all add: box_key_def box_unkey_def box_valid_set)

lemma real_line_driver_contract:
  fixes hw :: "('l, 'h, 'g) ptt_hw"
  assumes "hw_ok hw pr"
  shows "ptt_line_driver (box_key hw) (box_unkey hw) (transmitting pr) (\<lambda>d. box_valid d \<and> d \<noteq> BoxNone)"
proof (intro ptt_line_driver.intro ptt_driver.intro ptt_line_driver_axioms.intro)
  fix d d' :: "('l, 'h, 'g) ptt_box" and e
  assume v: "box_valid d \<and> d \<noteq> BoxNone"
  show "box_key hw d = (d', Ok ()) \<Longrightarrow> transmitting pr d'"
    using box_set_line [OF assms, of d True] v by (auto simp: box_key_def)
  show "box_unkey hw d = (d', Ok ()) \<Longrightarrow> \<not> transmitting pr d'"
    using box_set_line [OF assms, of d False] v by (auto simp: box_unkey_def)
  show "box_unkey hw d = (d', Err e) \<Longrightarrow> transmitting pr d' = transmitting pr d"
    using box_set_line [OF assms, of d False] v by (auto simp: box_unkey_def)
  show "box_key hw d = (d', Err e) \<Longrightarrow> transmitting pr d' = transmitting pr d"
    using box_set_line [OF assms, of d True] v by (auto simp: box_key_def)
qed (simp_all add: box_key_def box_unkey_def box_valid_set box_set_kind)

text \<open>The constructors of the drivers release the line before the driver is used.\<close>

lemma serial_new_set:
  "map_sum id BoxSerial (serial_new hw l ln iv node) = Ok d \<Longrightarrow>
     \<exists>d0. box_set hw d0 False = (d, Ok ()) \<and> box_valid d0 \<and> d0 \<noteq> BoxNone"
  by (rule exI [of _ "BoxSerial \<lparr>ser_lines = l, ser_line = ln, ser_invert = iv, ser_device = node\<rparr>"])
    (auto simp: serial_new_def split: sum.splits prod.splits)

lemma cm108_new_set:
  "map_sum id BoxCm108 (cm108_new hw h pin iv) = Ok d \<Longrightarrow>
     \<exists>d0. box_set hw d0 False = (d, Ok ()) \<and> box_valid d0 \<and> d0 \<noteq> BoxNone"
  by (rule exI [of _ "BoxCm108 \<lparr>cm_hid = h, cm_pin = pin, cm_invert = iv\<rparr>"])
    (auto simp: cm108_new_def split: sum.splits prod.splits if_splits)

lemma gpio_new_set:
  "map_sum id BoxGpio (gpio_new hw g iv) = Ok d \<Longrightarrow>
     \<exists>d0. box_set hw d0 False = (d, Ok ()) \<and> box_valid d0 \<and> d0 \<noteq> BoxNone"
  by (rule exI [of _ "BoxGpio \<lparr>gp_line = g, gp_invert = iv\<rparr>"])
    (auto simp: gpio_new_def split: sum.splits prod.splits)

lemma real_open_cases:
  assumes "real_open hw cfg = Ok d"
  shows "d = BoxNone \<or> (\<exists>d0. box_set hw d0 False = (d, Ok ()) \<and> box_valid d0 \<and> d0 \<noteq> BoxNone)"
proof (cases "ptt_method cfg")
  case (MSerialRts node)
  with assms show ?thesis by (auto simp: real_open_def dest: serial_new_set split: sum.splits)
next
  case (MSerialDtr node)
  with assms show ?thesis by (auto simp: real_open_def dest: serial_new_set split: sum.splits)
next
  case (MCm108 node pin)
  with assms show ?thesis by (auto simp: real_open_def dest: cm108_new_set split: sum.splits)
next
  case (MGpio chip line)
  with assms show ?thesis by (auto simp: real_open_def dest: gpio_new_set split: sum.splits)
qed (use assms in \<open>auto simp: real_open_def\<close>)

lemma real_open_idle:
  assumes "hw_ok hw pr" "real_open hw cfg = Ok d"
  shows "\<not> transmitting pr d \<and> box_valid d"
proof -
  from real_open_cases [OF assms(2)] show ?thesis
  proof
    assume "\<exists>d0. box_set hw d0 False = (d, Ok ()) \<and> box_valid d0 \<and> d0 \<noteq> BoxNone"
    then obtain d0 where d0: "box_set hw d0 False = (d, Ok ())" "box_valid d0" "d0 \<noteq> BoxNone"
      by blast
    with box_set_line [OF assms(1) d0(2,3), of False] box_valid_set [OF d0(2), of hw False]
    show ?thesis by simp
  qed simp
qed

lemma build_driver_knows:
  "build_driver opener reg cfg = (reg', r) \<Longrightarrow>
     knows reg' d \<longleftrightarrow> knows reg d \<or> (is_ok r \<and> d = ptt_device_id cfg)"
  by (auto simp: build_driver_def knows_def is_ok_def split: sum.splits)

lemma evict_knows: "knows (evict reg e) d \<longleftrightarrow> knows reg d \<and> d \<noteq> e"
  by (auto simp: evict_def knows_def)

section \<open>Properties\<close>

text \<open>
  A hardware on which every write succeeds, for the witnesses: a tty is the pair of its RTS and
  DTR levels, a hidraw node its pin register, a gpio request its level.
\<close>

definition ideal_hw :: "(bool \<times> bool, u8, bool) ptt_hw" where
  "ideal_hw = \<lparr>lines_open = (\<lambda>_. Ok (False, True)),
     write_rts = (\<lambda>(r, d) v. ((v, d), Ok ())), write_dtr = (\<lambda>(r, d) v. ((r, v), Ok ())),
     hid_open = (\<lambda>_. Ok 0),
     write_report = (\<lambda>x rep. case rep of
        [_, _, v, m, _] \<Rightarrow> ((x AND NOT m) OR (v AND m), Ok ()) | _ \<Rightarrow> (x, Ok ())),
     gpio_open = (\<lambda>_ _. Ok False), set_active = (\<lambda>_ v. (v, Ok ()))\<rparr>"

definition ideal_probe :: "(bool \<times> bool, u8, bool) ptt_probe" where
  "ideal_probe = \<lparr>rts_level = fst, dtr_level = snd, hid_pins = (\<lambda>x. x), gpio_level = (\<lambda>x. x)\<rparr>"

lemma ideal_hw_ok: "hw_ok ideal_hw ideal_probe"
  by (simp add: hw_ok_def sets_line_def ideal_hw_def ideal_probe_def)

text \<open>
  C35: every driver the production opener returns is idle when it is handed out, whatever level
  the operating system left on the line and whatever the configured polarity; after that a
  successful \<open>key\<close> transmits, a successful \<open>unkey\<close> or drop stops transmitting, and a failed
  call leaves the transmitter as it was.
\<close>

theorem opened_driver_is_safe:
  assumes hw: "hw_ok hw pr" and op: "real_open hw cfg = Ok d"
  shows "\<not> transmitting pr d
    \<and> (d \<noteq> BoxNone \<longrightarrow> (transmitting pr (fst (box_key hw d)) \<longleftrightarrow> snd (box_key hw d) = Ok ()))
    \<and> (\<forall>d'. d' \<in> {d, fst (box_key hw d)} \<longrightarrow> snd (box_unkey hw d') = Ok () \<longrightarrow>
          \<not> transmitting pr (box_drop hw d'))"
proof (intro conjI impI allI)
  note idle = real_open_idle [OF hw op]
  show "\<not> transmitting pr d" using idle by simp
  show "transmitting pr (fst (box_key hw d)) \<longleftrightarrow> snd (box_key hw d) = Ok ()" if "d \<noteq> BoxNone"
    using ptt_line_driver.key_iff [OF real_line_driver_contract [OF hw], of d] idle that by simp
  fix d' assume d': "d' \<in> {d, fst (box_key hw d)}" and ok: "snd (box_unkey hw d') = Ok ()"
  have "box_valid d'" using d' idle by (auto simp: box_key_def box_valid_set)
  moreover have "box_unkey hw d' = (box_drop hw d', Ok ())"
    using ok by (simp add: box_drop_def box_unkey_def prod_eq_iff)
  ultimately show "\<not> transmitting pr (box_drop hw d')"
    by (rule ptt_driver.unkey_ok [OF real_driver_contract [OF hw]])
qed

theorem opened_driver_is_safe_witness:
  "\<exists>d. real_open ideal_hw \<lparr>ptt_device_id = placeholder, ptt_method = MSerialDtr ''/dev/ttyUSB0'',
       ptt_invert = False, ptt_tx_delay_ms = 300, ptt_tx_tail_ms = 50\<rparr> = Ok d
     \<and> \<not> transmitting ideal_probe d \<and> transmitting ideal_probe (fst (box_key ideal_hw d))"
proof -
  let ?cfg = "\<lparr>ptt_device_id = placeholder, ptt_method = MSerialDtr ''/dev/ttyUSB0'',
       ptt_invert = False, ptt_tx_delay_ms = 300, ptt_tx_tail_ms = 50\<rparr>"
  let ?d = "BoxSerial \<lparr>ser_lines = (False, False), ser_line = Dtr, ser_invert = False,
       ser_device = ''/dev/ttyUSB0''\<rparr>"
  have op: "real_open ideal_hw ?cfg = Ok ?d"
    by (simp add: real_open_def serial_new_def serial_set_def ideal_hw_def)
  have "snd (box_key ideal_hw ?d) = Ok ()"
    by (simp add: box_key_def serial_set_def ideal_hw_def)
  with opened_driver_is_safe [OF ideal_hw_ok op] op show ?thesis by blast
qed

end
