(* ===== verification/TxSequence.thy ===== *)
theory TxSequence
  imports PttDriver
begin

text \<open>
  \<open>crates/omnimodem/src/ptt/sequence.rs\<close> and the playback handle of
  \<open>crates/omnimodem/src/audio/backend.rs\<close>: one transmission, from keying to release. What the
  loops read from outside (the cancel flag, the drain counter the audio callback advances, the
  monotonic clock) is a list of observations, one per poll; a list that runs out while the loop
  still waits gives \<open>None\<close>. Times are nanoseconds.
\<close>

section \<open>The playback handle\<close>

text \<open>
  \<open>send_ok\<close> tells whether the backend's receiver is still connected; \<open>played\<close> is the buffers
  handed to the backend. The counters are \<open>AtomicUsize\<close>.
\<close>

record sink =
  submitted :: nat
  drained :: nat
  send_ok :: bool
  sent :: "int list list"

definition submit :: "sink \<Rightarrow> int list \<Rightarrow> sink \<times> (nat, string) result" where
  "submit s samples =
     (let total = submitted s + length samples; s' = s\<lparr>submitted := total\<rparr>
      in if send_ok s then (s'\<lparr>sent := sent s @ [samples]\<rparr>, Ok total)
         else (s', Err ''sending on a closed channel''))"

definition flush :: "sink \<Rightarrow> sink" where
  "flush s = s\<lparr>drained := submitted s\<rparr>"

section \<open>Waiting\<close>

datatype outcome =
    Done
  | Aborted
  | KeyFailed ptt_error
  | SubmitFailed ptt_error
  | UnkeyFailed ptt_error

text \<open>One pass of the wait loop: the flag, then the clock.\<close>

record sleep_obs =
  so_cancel :: bool
  so_now :: nat

text \<open>
  \<open>sleep_cancellable\<close>: the flag is read once up front (\<open>c0\<close>), a zero duration returns it, and
  otherwise the loop reads flag and clock until \<open>t0 + dur\<close>. \<open>Some True\<close> means cancelled.
\<close>

fun sleep_loop :: "nat \<Rightarrow> sleep_obs list \<Rightarrow> bool option" where
  "sleep_loop deadline [] = None"
| "sleep_loop deadline (o1 # os) =
     (if so_cancel o1 then Some True
      else if deadline \<le> so_now o1 then Some False
      else sleep_loop deadline os)"

definition sleep_cancellable :: "nat \<Rightarrow> bool \<Rightarrow> nat \<Rightarrow> sleep_obs list \<Rightarrow> bool option" where
  "sleep_cancellable dur c0 t0 os =
     (if c0 then Some True else if dur = 0 then Some False else sleep_loop (t0 + dur) os)"

text \<open>One pass of the drain loop: flag, drain counter, \<open>start.elapsed()\<close>, \<open>Instant::now()\<close>.\<close>

record drain_obs =
  do_cancel :: bool
  do_drained :: nat
  do_elapsed :: nat
  do_now :: nat

text \<open>\<open>Some True\<close>: cancelled. \<open>Some False\<close>: drained and aired, or timed out.\<close>

fun drain_loop :: "nat \<Rightarrow> nat \<Rightarrow> nat \<Rightarrow> drain_obs list \<Rightarrow> bool option" where
  "drain_loop watermark expected deadline [] = None"
| "drain_loop watermark expected deadline (o1 # os) =
     (if do_cancel o1 then Some True
      else if watermark \<le> do_drained o1 \<and> expected \<le> do_elapsed o1 then Some False
      else if deadline \<le> do_now o1 then Some False
      else drain_loop watermark expected deadline os)"

section \<open>One transmission\<close>

text \<open>\<open>(n as u64 * 1_000_000_000) / sample_rate.max(1) as u64\<close>; the product is a \<open>u64\<close>.\<close>

definition expected_ns :: "nat \<Rightarrow> u32 \<Rightarrow> nat" where
  "expected_ns n rate = ((n * 1000000000) mod 2 ^ 64) div (max (unat rate) 1)"

text \<open>What the three waits of one cycle observe, and when each begins.\<close>

record cycle_env =
  lead_c0 :: bool
  lead_t0 :: nat
  lead_obs :: "sleep_obs list"
  drain_t0 :: nat
  drain_obs :: "drain_obs list"
  tail_c0 :: bool
  tail_t0 :: nat
  tail_obs :: "sleep_obs list"

definition finish_cycle :: "('d \<Rightarrow> 'd \<times> ptt_reply) \<Rightarrow> bool \<Rightarrow> 'd \<Rightarrow> sink \<Rightarrow> 'd \<times> sink \<times> outcome" where
  "finish_cycle unkey aborted d s =
     (case unkey d of
        (d', Ok _) \<Rightarrow> (d', s, if aborted then Aborted else Done)
      | (d', Err e) \<Rightarrow> (d', s, UnkeyFailed e))"

text \<open>The part after a successful \<open>submit\<close>: drain, tail, release.\<close>

definition play_out :: "('d \<Rightarrow> 'd \<times> ptt_reply) \<Rightarrow> nat \<Rightarrow> nat \<Rightarrow> nat \<Rightarrow> cycle_env \<Rightarrow> 'd \<Rightarrow> sink \<Rightarrow>
    ('d \<times> sink \<times> outcome) option" where
  "play_out unkey watermark expected tail env d s =
     (case drain_loop watermark expected (drain_t0 env + expected + 500000000) (drain_obs env) of
        None \<Rightarrow> None
      | Some True \<Rightarrow> Some (finish_cycle unkey True d (flush s))
      | Some False \<Rightarrow>
          (case sleep_cancellable tail (tail_c0 env) (tail_t0 env) (tail_obs env) of
             None \<Rightarrow> None
           | Some _ \<Rightarrow> Some (finish_cycle unkey False d s)))"

definition drive_tx_cycle :: "('d \<Rightarrow> 'd \<times> ptt_reply) \<Rightarrow> ('d \<Rightarrow> 'd \<times> ptt_reply) \<Rightarrow>
    int list \<Rightarrow> u32 \<Rightarrow> nat \<Rightarrow> nat \<Rightarrow> cycle_env \<Rightarrow> 'd \<Rightarrow> sink \<Rightarrow> ('d \<times> sink \<times> outcome) option" where
  "drive_tx_cycle key unkey samples rate tx_delay tx_tail env d s =
     (case key d of
        (d1, Err e) \<Rightarrow> Some (d1, s, KeyFailed e)
      | (d1, Ok _) \<Rightarrow>
          (case sleep_cancellable tx_delay (lead_c0 env) (lead_t0 env) (lead_obs env) of
             None \<Rightarrow> None
           | Some True \<Rightarrow> Some (finish_cycle unkey True d1 s)
           | Some False \<Rightarrow>
               (case submit s samples of
                  (s1, Err m) \<Rightarrow> Some (fst (unkey d1), s1, SubmitFailed (IoError m))
                | (s1, Ok wm) \<Rightarrow> play_out unkey wm (expected_ns (length samples) rate) tx_tail env d1 s1)))"

section \<open>The waits end\<close>

text \<open>
  A clock that is observed to reach the deadline, or a raised flag, ends either wait no later
  than at that observation.
\<close>

lemma sleep_loop_ends:
  "\<exists>o1 \<in> set os. so_cancel o1 \<or> deadline \<le> so_now o1 \<Longrightarrow> \<exists>b. sleep_loop deadline os = Some b"
  by (induction os) auto

lemma drain_loop_ends:
  "\<exists>o1 \<in> set os. do_cancel o1 \<or> deadline \<le> do_now o1 \<Longrightarrow>
     \<exists>b. drain_loop wm expected deadline os = Some b"
  by (induction os) auto

lemma drain_loop_prefix:
  "drain_loop wm expected deadline os = Some b \<Longrightarrow> drain_loop wm expected deadline (os @ os') = Some b"
  by (induction os) (auto split: if_splits)

text \<open>A drain that is not cancelled really waited: for the samples and the airtime, or the deadline.\<close>

lemma drain_loop_False:
  "drain_loop wm expected deadline os = Some False \<Longrightarrow>
     \<exists>o1 \<in> set os. \<not> do_cancel o1 \<and>
       ((wm \<le> do_drained o1 \<and> expected \<le> do_elapsed o1) \<or> deadline \<le> do_now o1)"
  by (induction os) (auto split: if_splits)

lemma drain_loop_True: "drain_loop wm expected deadline os = Some True \<Longrightarrow> \<exists>o1 \<in> set os. do_cancel o1"
  by (induction os) (auto split: if_splits)

lemma sleep_cancellable_ends:
  "c0 \<or> dur = 0 \<or> (\<exists>o1 \<in> set os. so_cancel o1 \<or> t0 + dur \<le> so_now o1) \<Longrightarrow>
     \<exists>b. sleep_cancellable dur c0 t0 os = Some b"
  by (auto simp: sleep_cancellable_def intro!: sleep_loop_ends)

text \<open>The environment lets every wait of the cycle end.\<close>

definition env_live :: "nat \<Rightarrow> nat \<Rightarrow> nat \<Rightarrow> cycle_env \<Rightarrow> bool" where
  "env_live expected tx_delay tx_tail env \<longleftrightarrow>
     (lead_c0 env \<or> tx_delay = 0 \<or>
        (\<exists>o1 \<in> set (lead_obs env). so_cancel o1 \<or> lead_t0 env + tx_delay \<le> so_now o1)) \<and>
     (\<exists>o1 \<in> set (drain_obs env). do_cancel o1 \<or> drain_t0 env + expected + 500000000 \<le> do_now o1) \<and>
     (tail_c0 env \<or> tx_tail = 0 \<or>
        (\<exists>o1 \<in> set (tail_obs env). so_cancel o1 \<or> tail_t0 env + tx_tail \<le> so_now o1))"

lemma drive_tx_cycle_total:
  assumes "env_live (expected_ns (length samples) rate) tx_delay tx_tail env"
  shows "\<exists>r. drive_tx_cycle key unkey samples rate tx_delay tx_tail env d s = Some r"
proof -
  from assms obtain b1 where b1: "sleep_cancellable tx_delay (lead_c0 env) (lead_t0 env) (lead_obs env) = Some b1"
    unfolding env_live_def by (metis sleep_cancellable_ends)
  from assms obtain b2 where b2: "sleep_cancellable tx_tail (tail_c0 env) (tail_t0 env) (tail_obs env) = Some b2"
    unfolding env_live_def by (metis sleep_cancellable_ends)
  from assms have d: "\<exists>b. drain_loop wm (expected_ns (length samples) rate)
      (drain_t0 env + expected_ns (length samples) rate + 500000000) (drain_obs env) = Some b" for wm
    unfolding env_live_def by (intro drain_loop_ends) blast
  have "\<exists>r. play_out unkey wm (expected_ns (length samples) rate) tx_tail env d1 s1 = Some r" for wm d1 s1
    using d [of wm] b2 by (auto simp: play_out_def prod_eq_iff split: bool.splits)
  with b1 show ?thesis
    by (cases b1) (auto simp: drive_tx_cycle_def prod_eq_iff split: prod.splits sum.splits)
qed

section \<open>What a cycle leaves behind\<close>

lemma finish_cycle_fields:
  "finish_cycle unkey ab d s = (d', s', out) \<Longrightarrow>
     d' = fst (unkey d) \<and> s' = s \<and>
     out = (case snd (unkey d) of Ok _ \<Rightarrow> if ab then Aborted else Done | Err e \<Rightarrow> UnkeyFailed e)"
  by (auto simp: finish_cycle_def split: prod.splits sum.splits)

lemma play_out_cases:
  assumes "play_out unkey wm expected tail env d s = Some (d', s', out)"
  shows "finish_cycle unkey True d (flush s) = (d', s', out) \<or>
    finish_cycle unkey False d s = (d', s', out)"
  using assms by (auto simp: play_out_def split: option.splits bool.splits)

text \<open>The four ways a cycle ends.\<close>

lemma drive_tx_cycle_cases:
  assumes "drive_tx_cycle key unkey samples rate tx_delay tx_tail env d s = Some (d', s', out)"
  obtains (key_failed) e where "key d = (d', Err e)" "out = KeyFailed e" "s' = s"
    | (lead_abort) d1 where "key d = (d1, Ok ())" "finish_cycle unkey True d1 s = (d', s', out)"
    | (submit_failed) d1 m where "key d = (d1, Ok ())" "submit s samples = (s', Err m)"
        "out = SubmitFailed (IoError m)" "d' = fst (unkey d1)"
    | (played) d1 s1 wm ab where "key d = (d1, Ok ())" "submit s samples = (s1, Ok wm)"
        "finish_cycle unkey ab d1 (if ab then flush s1 else s1) = (d', s', out)"
proof (cases "key d")
  case (Pair d1 r)
  show thesis
  proof (cases r)
    case (Inl e)
    with assms Pair show thesis by (auto simp: drive_tx_cycle_def intro: key_failed)
  next
    case (Inr u)
    with assms Pair show thesis
      using played [where ab = True] played [where ab = False]
      by (auto simp: drive_tx_cycle_def intro: lead_abort submit_failed dest!: play_out_cases
          split: option.splits bool.splits prod.splits sum.splits)
  qed
qed

context ptt_driver
begin

lemma finish_cycle_released:
  assumes "valid d" "finish_cycle unkey ab d s = (d', s', out)"
  shows "valid d' \<and> (out = (if ab then Aborted else Done) \<and> \<not> asserted d' \<or> (\<exists>e. out = UnkeyFailed e))"
  using assms(1)
proof (cases rule: unkey_cases)
  case released
  with finish_cycle_fields [OF assms(2)] valid_unkey [OF assms(1)] show ?thesis by simp
next
  case (failed e)
  with finish_cycle_fields [OF assms(2)] valid_unkey [OF assms(1)] show ?thesis by simp
qed

text \<open>
  A cycle that ends \<open>Done\<close> or \<open>Aborted\<close> has released the line. \<open>KeyFailed\<close> leaves it as it was.
\<close>

lemma drive_tx_cycle_released:
  assumes v: "valid d"
    and run: "drive_tx_cycle key unkey samples rate tx_delay tx_tail env d s = Some (d', s', out)"
  shows "valid d' \<and>
    (case out of
       Done \<Rightarrow> \<not> asserted d'
     | Aborted \<Rightarrow> \<not> asserted d'
     | KeyFailed e \<Rightarrow> asserted d' = asserted d
     | SubmitFailed e \<Rightarrow> snd (unkey (fst (key d))) = Ok () \<longrightarrow> \<not> asserted d'
     | UnkeyFailed e \<Rightarrow> True)"
  using run
proof (cases rule: drive_tx_cycle_cases)
  case (key_failed e)
  with key_err [OF v key_failed(1)] valid_key [OF v] show ?thesis by simp
next
  case (lead_abort d1)
  with finish_cycle_released [OF _ lead_abort(2)] valid_key [OF v] show ?thesis by auto
next
  case (submit_failed d1 m)
  with valid_key [OF v] have v1: "valid d1" by simp
  from v1 submit_failed valid_unkey [OF v1] show ?thesis by (cases rule: unkey_cases) simp_all
next
  case (played d1 s1 wm ab)
  with finish_cycle_released [OF _ played(3)] valid_key [OF v] show ?thesis
    by (auto split: if_splits)
qed

end

text \<open>The audio a cycle hands to the backend.\<close>

lemma submit_sent:
  "sent (fst (submit s samples)) = (if send_ok s then sent s @ [samples] else sent s)"
  "submitted (fst (submit s samples)) = submitted s + length samples"
  by (simp_all add: submit_def Let_def)

lemma flush_sent [simp]: "sent (flush s) = sent s" "submitted (flush s) = submitted s"
  "drained (flush s) = submitted s"
  by (simp_all add: flush_def)

lemma drive_tx_cycle_sent:
  assumes "drive_tx_cycle key unkey samples rate tx_delay tx_tail env d s = Some (d', s', out)"
  shows "(out = Done \<longrightarrow> sent s' = sent s @ [samples]) \<and>
    (sent s' = sent s \<or> sent s' = sent s @ [samples]) \<and>
    ((\<exists>e. out = KeyFailed e \<or> out = SubmitFailed e) \<longrightarrow> sent s' = sent s)"
  using assms
proof (cases rule: drive_tx_cycle_cases)
  case (lead_abort d1)
  from finish_cycle_fields [OF lead_abort(2)] show ?thesis by (auto split: sum.splits)
next
  case (submit_failed d1 m)
  then have "\<not> send_ok s" by (auto simp: submit_def Let_def split: if_splits)
  with submit_failed submit_sent [of s samples] show ?thesis by simp
next
  case (played d1 s1 wm ab)
  then have "send_ok s" by (auto simp: submit_def Let_def split: if_splits)
  with played(2) submit_sent [of s samples] have "sent s1 = sent s @ [samples]" by simp
  with finish_cycle_fields [OF played(3)] show ?thesis by (cases ab) (auto split: sum.splits)
qed simp_all

section \<open>Properties\<close>

text \<open>
  C7: transmit safety. For any driver that keeps the PTT contract and any behaviour of the flag,
  the drain counter and the clock, a cycle that reports \<open>Done\<close> or \<open>Aborted\<close> leaves the
  transmitter off, \<open>Done\<close> means the whole buffer went to the backend exactly once, a failed key
  leaves the line untouched and sends no audio, and a failed submit releases the line unless the
  release itself fails.
\<close>

theorem tx_cycle_safe:
  assumes "ptt_driver key unkey asserted valid" and "valid d"
    and "drive_tx_cycle key unkey samples rate tx_delay tx_tail env d s = Some (d', s', out)"
  shows "(out \<in> {Done, Aborted} \<longrightarrow> \<not> asserted d')
    \<and> (out = Done \<longrightarrow> sent s' = sent s @ [samples])
    \<and> (\<forall>e. out = KeyFailed e \<longrightarrow> asserted d' = asserted d \<and> sent s' = sent s)
    \<and> (\<forall>e. out = SubmitFailed e \<longrightarrow> snd (unkey (fst (key d))) = Ok () \<longrightarrow> \<not> asserted d')"
  using ptt_driver.drive_tx_cycle_released [OF assms] drive_tx_cycle_sent [OF assms(3)]
  by (auto split: outcome.splits)

definition idle_sink :: sink where
  "idle_sink = \<lparr>submitted = 0, drained = 0, send_ok = True, sent = []\<rparr>"

text \<open>480 samples at 48 kHz: 10 ms of airtime, drained after two polls, no delay and no tail.\<close>

definition quiet_env :: cycle_env where
  "quiet_env = \<lparr>lead_c0 = False, lead_t0 = 0, lead_obs = [], drain_t0 = 0,
     drain_obs = [\<lparr>do_cancel = False, do_drained = 240, do_elapsed = 5000000, do_now = 5000000\<rparr>,
                  \<lparr>do_cancel = False, do_drained = 480, do_elapsed = 10000000, do_now = 510000000\<rparr>],
     tail_c0 = False, tail_t0 = 0, tail_obs = []\<rparr>"

lemma quiet_cycle:
  "drive_tx_cycle mock_key mock_unkey (replicate 480 5) 48000 0 0 quiet_env mock_new idle_sink =
     Some (fst (mock_unkey (fst (mock_key mock_new))),
       fst (submit idle_sink (replicate 480 5)), Done)"
  by (simp add: drive_tx_cycle_def mock_key_def mock_unkey_def mock_new_def quiet_env_def
      sleep_cancellable_def submit_def idle_sink_def play_out_def expected_ns_def
      finish_cycle_def Let_def)

theorem tx_cycle_safe_witness:
  "\<not> mock_keyed (fst (mock_unkey (fst (mock_key mock_new))))
   \<and> sent (fst (submit idle_sink (replicate 480 5))) = sent idle_sink @ [replicate 480 5]"
  using tx_cycle_safe [OF mock.ptt_driver_axioms TrueI quiet_cycle] by blast

text \<open>
  C8: a transmission cannot hang with the transmitter keyed. Once the observed clock reaches the
  end of the lead-in, the airtime plus 500 ms, and the end of the tail (or the cancel flag is
  seen first), the cycle returns, whatever the driver answers and even if the sound card never
  drains a sample.
\<close>

theorem tx_cycle_returns:
  assumes "env_live (expected_ns (length samples) rate) tx_delay tx_tail env"
  shows "\<exists>d' s' out. drive_tx_cycle key unkey samples rate tx_delay tx_tail env d s = Some (d', s', out)"
  using drive_tx_cycle_total [OF assms, of key unkey d s] by auto

theorem tx_cycle_returns_witness:
  "\<exists>d' s' out. drive_tx_cycle mock_key mock_unkey (replicate 480 5) 48000 0 0 quiet_env mock_new
     idle_sink = Some (d', s', out)"
  by (rule tx_cycle_returns) (simp add: env_live_def quiet_env_def expected_ns_def)

text \<open>
  the documented guarantee that PTT is released on every failure except \<open>KeyFailed\<close> does not
  extend to \<open>SubmitFailed\<close> with a failing release, nor to \<open>UnkeyFailed\<close>: with the
  test double's injected failures both end with the transmitter still keyed.
\<close>

theorem failed_release_stays_keyed:
  "(\<exists>d' s' e. drive_tx_cycle mock_key mock_unkey samples rate 0 0 quiet_env
       (mock_new\<lparr>mock_fail_unkey := True\<rparr>) (idle_sink\<lparr>send_ok := False\<rparr>) =
         Some (d', s', SubmitFailed e) \<and> mock_keyed d')
   \<and> (\<exists>d' s' e. drive_tx_cycle mock_key mock_unkey samples rate 0 0 (quiet_env\<lparr>lead_c0 := True\<rparr>)
       (mock_new\<lparr>mock_fail_unkey := True\<rparr>) idle_sink = Some (d', s', UnkeyFailed e) \<and> mock_keyed d')"
  by (simp add: drive_tx_cycle_def mock_key_def mock_unkey_def mock_new_def quiet_env_def
      sleep_cancellable_def submit_def idle_sink_def finish_cycle_def Let_def)

end
