(* ===== verification/Interlock.thy ===== *)
theory Interlock
  imports DeviceIds
begin

text \<open>
  \<open>crates/omnimodem/src/ptt/interlock.rs\<close>: the per-rig count of keyed transmissions that
  mutes reception. The contract of a per-key nesting counter is stated once, as a locale, and
  the interlock interprets it; the transmit paths use its bracket lemmas.
\<close>

section \<open>The contract: a nesting counter per key\<close>

locale nesting_counter =
  fixes up :: "'m \<Rightarrow> 'k \<Rightarrow> 'm"
    and down :: "'m \<Rightarrow> 'k \<Rightarrow> 'm"
    and depth :: "'m \<Rightarrow> 'k \<Rightarrow> nat"
    and cap :: nat
  assumes depth_up: "depth m k < cap \<Longrightarrow> depth (up m k) = (depth m)(k := Suc (depth m k))"
    and depth_down: "depth (down m k) = (depth m)(k := depth m k - 1)"
begin

lemma bracket: "depth m k < cap \<Longrightarrow> depth (down (up m k) k) = depth m"
  by (simp add: depth_up depth_down)

lemma up_other: "k \<noteq> j \<Longrightarrow> depth m k < cap \<Longrightarrow> depth (up m k) j = depth m j"
  by (simp add: depth_up)

lemma down_other: "k \<noteq> j \<Longrightarrow> depth (down m k) j = depth m j"
  by (simp add: depth_down)

lemma overlap:
  assumes "Suc (depth m k) < cap"
  shows "0 < depth (down (up (up m k) k) k) k"
  using assms by (simp add: depth_up depth_down)

text \<open>\<open>n\<close> overlapping transmissions need \<open>n\<close> releases.\<close>

lemma depth_ups: "depth m k + n \<le> cap \<Longrightarrow> depth (((\<lambda>x. up x k) ^^ n) m) = (depth m)(k := depth m k + n)"
  by (induction n) (simp_all add: depth_up)

lemma depth_downs: "depth (((\<lambda>x. down x k) ^^ j) m) = (depth m)(k := depth m k - j)"
  by (induction j) (auto simp: depth_down fun_eq_iff)

lemma depth_ups_downs:
  "depth m k + n \<le> cap \<Longrightarrow>
     depth (((\<lambda>x. down x k) ^^ j) (((\<lambda>x. up x k) ^^ n) m)) = (depth m)(k := depth m k + n - j)"
  by (simp add: depth_ups depth_downs)

end

section \<open>The interlock\<close>

text \<open>\<open>Arc<Mutex<HashMap<DeviceId, u32>>>\<close>; \<open>+=\<close> on the \<open>u32\<close> is modelled as the wrapping add.\<close>

type_synonym interlock = "device_id \<rightharpoonup> u32"

definition interlock_new :: interlock where
  "interlock_new = Map.empty"

definition begin_tx :: "interlock \<Rightarrow> device_id \<Rightarrow> interlock" where
  "begin_tx il d = il(d \<mapsto> (case il d of None \<Rightarrow> 0 | Some c \<Rightarrow> c) + 1)"

definition saturating_dec :: "u32 \<Rightarrow> u32" where
  "saturating_dec c = (if c = 0 then 0 else c - 1)"

definition end_tx :: "interlock \<Rightarrow> device_id \<Rightarrow> interlock" where
  "end_tx il d =
     (case il d of
        None \<Rightarrow> il
      | Some c \<Rightarrow> (let c' = saturating_dec c in if c' = 0 then il(d := None) else il(d \<mapsto> c')))"

definition is_muted :: "interlock \<Rightarrow> device_id \<Rightarrow> bool" where
  "is_muted il d = (case il d of None \<Rightarrow> False | Some c \<Rightarrow> 0 < c)"

text \<open>The abstraction: how many transmissions hold the rig.\<close>

definition key_depth :: "interlock \<Rightarrow> device_id \<Rightarrow> nat" where
  "key_depth il d = (case il d of None \<Rightarrow> 0 | Some c \<Rightarrow> unat c)"

lemma key_depth_new [simp]: "key_depth interlock_new d = 0"
  by (simp add: key_depth_def interlock_new_def)

lemma unat_add1: "unat c < 4294967295 \<Longrightarrow> unat (c + 1) = Suc (unat c)" for c :: u32
  by (simp add: unat_word_ariths)

lemma unat_dec: "unat (saturating_dec c) = unat c - 1"
  by (simp add: saturating_dec_def unat_minus_one)

interpretation lock: nesting_counter begin_tx end_tx key_depth 4294967295
proof
  fix m k
  assume "key_depth m k < 4294967295"
  then show "key_depth (begin_tx m k) = (key_depth m)(k := Suc (key_depth m k))"
    by (auto simp: key_depth_def begin_tx_def fun_eq_iff unat_add1 split: option.splits)
next
  fix m k
  have z: "saturating_dec c = 0 \<Longrightarrow> unat c - 1 = 0" for c
    using unat_dec [of c] by simp
  show "key_depth (end_tx m k) = (key_depth m)(k := key_depth m k - 1)"
    using z by (auto simp: key_depth_def end_tx_def fun_eq_iff unat_dec Let_def split: option.splits)
qed

lemma is_muted_iff: "is_muted il d \<longleftrightarrow> 0 < key_depth il d"
  by (auto simp: is_muted_def key_depth_def word_less_nat_alt split: option.splits)

text \<open>The map never keeps a zero entry, so an idle rig takes no space.\<close>

definition interlock_ok :: "interlock \<Rightarrow> bool" where
  "interlock_ok il \<longleftrightarrow> (\<forall>d. il d \<noteq> Some 0)"

lemma interlock_ok_new [wf_intros]: "interlock_ok interlock_new"
  by (simp add: interlock_ok_def interlock_new_def)

lemma interlock_ok_end [wf_intros]: "interlock_ok il \<Longrightarrow> interlock_ok (end_tx il d)"
  by (auto simp: interlock_ok_def end_tx_def Let_def split: option.splits)

lemma interlock_ok_begin [wf_intros]:
  assumes "interlock_ok il" "key_depth il d < 4294967295"
  shows "interlock_ok (begin_tx il d)"
proof -
  have "unat ((case il d of None \<Rightarrow> 0 | Some c \<Rightarrow> c) + 1) \<noteq> 0"
    using assms(2) by (auto simp: key_depth_def unat_add1 split: option.splits)
  then have "(case il d of None \<Rightarrow> 0 | Some c \<Rightarrow> c) + 1 \<noteq> 0" by (metis unat_0)
  with assms(1) show ?thesis by (auto simp: interlock_ok_def begin_tx_def)
qed

lemma interlock_ok_depth: "interlock_ok il \<Longrightarrow> il d = None \<longleftrightarrow> key_depth il d = 0"
  by (auto simp: interlock_ok_def key_depth_def unat_eq_zero split: option.splits)

section \<open>Properties\<close>

text \<open>
  the interlock nests. While \<open>n\<close> transmissions overlap on a rig, reception on it stays
  muted until the last of them ends: after \<open>j\<close> of \<open>n\<close> ends the rig is muted exactly when
  \<open>j < n\<close>, and other rigs are untouched throughout.
\<close>

theorem interlock_nests:
  assumes "n \<le> 4294967295" and "d \<noteq> e"
  shows "(is_muted (((\<lambda>x. end_tx x d) ^^ j) (((\<lambda>x. begin_tx x d) ^^ n) interlock_new)) d \<longleftrightarrow> j < n)
    \<and> \<not> is_muted (((\<lambda>x. end_tx x d) ^^ j) (((\<lambda>x. begin_tx x d) ^^ n) interlock_new)) e"
  using assms lock.depth_ups_downs [of interlock_new d n j] by (auto simp: is_muted_iff)

theorem interlock_nests_witness:
  "is_muted (((\<lambda>x. end_tx x placeholder) ^^ 1) (((\<lambda>x. begin_tx x placeholder) ^^ 2) interlock_new)) placeholder
    \<and> \<not> is_muted (((\<lambda>x. end_tx x placeholder) ^^ 1) (((\<lambda>x. begin_tx x placeholder) ^^ 2) interlock_new)) (AlsaCard ''PCH'')"
  using interlock_nests [of 2 placeholder "AlsaCard ''PCH''" 1] by (simp add: placeholder_def)

end
