(* ===== verification/Lease.thy ===== *)
theory Lease
  imports DeviceIds
begin

text \<open>
  \<open>crates/omnimodem/src/ptt/lease.rs\<close>: the exclusive transmit lease per rig. The lease
  discipline is stated as a locale over its operations and interpreted by the registry; its
  central fact is that no sequence of operations of other channels takes a lease away.
\<close>

section \<open>The registry\<close>

type_synonym lease_registry = "device_id \<rightharpoonup> channel_id"

datatype lease_error = HeldBy channel_id

definition lease_new :: lease_registry where
  "lease_new = Map.empty"

definition acquire :: "lease_registry \<Rightarrow> device_id \<Rightarrow> channel_id \<Rightarrow>
    lease_registry \<times> (unit, lease_error) result" where
  "acquire m rig ch =
     (case m rig of
        Some h \<Rightarrow> if h = ch then (m, Ok ()) else (m, Err (HeldBy h))
      | None \<Rightarrow> (m(rig \<mapsto> ch), Ok ()))"

definition release :: "lease_registry \<Rightarrow> device_id \<Rightarrow> channel_id \<Rightarrow> lease_registry" where
  "release m rig ch = (if m rig = Some ch then m(rig := None) else m)"

definition may_transmit :: "lease_registry \<Rightarrow> device_id \<Rightarrow> channel_id \<Rightarrow> bool" where
  "may_transmit m rig ch = (case m rig of Some h \<Rightarrow> h = ch | None \<Rightarrow> True)"

definition holder :: "lease_registry \<Rightarrow> device_id \<Rightarrow> channel_id option" where
  "holder m rig = m rig"

definition release_all :: "lease_registry \<Rightarrow> channel_id \<Rightarrow> lease_registry" where
  "release_all m ch = retain_vals (\<lambda>h. h \<noteq> ch) m"

section \<open>The lease discipline\<close>

text \<open>One operation of a client: which channel asks for what.\<close>

datatype lease_op =
    AcquireOp device_id channel_id
  | ReleaseOp device_id channel_id
  | ReleaseAllOp channel_id

fun op_channel :: "lease_op \<Rightarrow> channel_id" where
  "op_channel (AcquireOp _ c) = c"
| "op_channel (ReleaseOp _ c) = c"
| "op_channel (ReleaseAllOp c) = c"

fun lease_step :: "lease_registry \<Rightarrow> lease_op \<Rightarrow> lease_registry" where
  "lease_step m (AcquireOp rig c) = fst (acquire m rig c)"
| "lease_step m (ReleaseOp rig c) = release m rig c"
| "lease_step m (ReleaseAllOp c) = release_all m c"

definition lease_run :: "lease_registry \<Rightarrow> lease_op list \<Rightarrow> lease_registry" where
  "lease_run m ops = foldl lease_step m ops"

locale exclusive_lease =
  fixes hold :: "'m \<Rightarrow> 'r \<Rightarrow> 'c option"
    and step :: "'m \<Rightarrow> 'o \<Rightarrow> 'm"
    and by_chan :: "'o \<Rightarrow> 'c"
    and may :: "'m \<Rightarrow> 'r \<Rightarrow> 'c \<Rightarrow> bool"
  assumes keeps: "hold m r = Some c \<Longrightarrow> by_chan op \<noteq> c \<Longrightarrow> hold (step m op) r = Some c"
    and gains: "hold (step m op) r = Some c \<Longrightarrow> hold m r = Some c \<or> (hold m r = None \<and> by_chan op = c)"
    and may_iff: "may m r c \<longleftrightarrow> (\<forall>h. hold m r = Some h \<longrightarrow> h = c)"
begin

lemma exclusive: "may m r c \<Longrightarrow> hold m r = Some h \<Longrightarrow> c = h"
  by (simp add: may_iff)

lemma run_keeps:
  "hold m r = Some c \<Longrightarrow> (\<And>op. op \<in> set ops \<Longrightarrow> by_chan op \<noteq> c) \<Longrightarrow>
     hold (foldl step m ops) r = Some c"
  by (induction ops arbitrary: m) (simp_all add: keeps)

lemma run_excludes:
  assumes "hold m r = Some c" "\<And>op. op \<in> set ops \<Longrightarrow> by_chan op \<noteq> c" "d \<noteq> c"
  shows "\<not> may (foldl step m ops) r d"
  using run_keeps [OF assms(1,2)] assms(3) by (auto simp: may_iff)

text \<open>A holder after a run either held the lease all along or asked for it during the run.\<close>

lemma run_gains:
  "hold (foldl step m ops) r = Some c \<Longrightarrow>
     hold m r = Some c \<or> (\<exists>op \<in> set ops. by_chan op = c)"
proof (induction ops arbitrary: m)
  case (Cons op ops)
  then have "hold (step m op) r = Some c \<or> (\<exists>op \<in> set ops. by_chan op = c)" by simp
  with gains show ?case by (metis list.set_intros(1,2))
qed simp

end

lemma holder_acquire:
  "holder (fst (acquire m rig c)) r =
     (if r = rig \<and> m rig = None then Some c else holder m r)"
  by (auto simp: holder_def acquire_def split: option.splits)

lemma acquire_ok_iff: "snd (acquire m rig c) = Ok () \<longleftrightarrow> may_transmit m rig c"
  by (auto simp: acquire_def may_transmit_def split: option.splits)

lemma acquire_err_iff:
  "snd (acquire m rig c) = Err (HeldBy h) \<longleftrightarrow> holder m rig = Some h \<and> h \<noteq> c"
  by (auto simp: acquire_def holder_def split: option.splits)

interpretation tx_lease: exclusive_lease holder lease_step op_channel may_transmit
proof
  fix m r c op
  assume "holder m r = Some c" "op_channel op \<noteq> c"
  then show "holder (lease_step m op) r = Some c"
    by (cases op) (auto simp: holder_acquire, auto simp: holder_def release_def release_all_def)
next
  fix m op r c
  assume "holder (lease_step m op) r = Some c"
  then show "holder m r = Some c \<or> holder m r = None \<and> op_channel op = c"
    by (cases op) (auto simp: holder_acquire split: if_splits,
      auto simp: holder_def release_def release_all_def split: if_splits)
qed (auto simp: may_transmit_def holder_def split: option.splits)

lemma release_frees: "holder m rig = Some c \<Longrightarrow> holder (release m rig c) rig = None"
  by (simp add: holder_def release_def)

lemma release_all_frees: "holder (release_all m c) rig \<noteq> Some c"
  by (simp add: holder_def release_all_def)

lemma release_all_other: "holder m rig = Some h \<Longrightarrow> h \<noteq> c \<Longrightarrow> holder (release_all m c) rig = Some h"
  by (simp add: holder_def release_all_def)

section \<open>Properties\<close>

text \<open>
  C36: a granted lease is exclusive until its holder gives it up. After channel \<open>c\<close> acquires a
  rig, no sequence of acquire, release and teardown operations of other channels lets any other
  channel transmit on it, \<open>c\<close> stays admitted, and a later acquire by another channel is refused
  with the holder's identity.
\<close>

theorem lease_is_exclusive:
  assumes "snd (acquire m rig c) = Ok ()"
    and "\<forall>op \<in> set ops. op_channel op \<noteq> c"
    and "d \<noteq> c"
  shows "let m' = lease_run (fst (acquire m rig c)) ops in
      may_transmit m' rig c \<and> \<not> may_transmit m' rig d \<and>
      acquire m' rig d = (m', Err (HeldBy c))"
proof -
  have h: "holder (fst (acquire m rig c)) rig = Some c"
    using assms(1) by (auto simp: holder_def acquire_def split: option.splits if_splits)
  then have h': "holder (lease_run (fst (acquire m rig c)) ops) rig = Some c"
    unfolding lease_run_def using assms(2) by (intro tx_lease.run_keeps) auto
  then show ?thesis using assms(3)
    by (simp add: Let_def tx_lease.may_iff) (simp add: acquire_def holder_def)
qed

theorem lease_is_exclusive_witness:
  "\<not> may_transmit (lease_run (fst (acquire lease_new placeholder 1))
       [AcquireOp placeholder 2, ReleaseOp placeholder 2, ReleaseAllOp 2]) placeholder 2"
  using lease_is_exclusive [of lease_new placeholder 1
      "[AcquireOp placeholder 2, ReleaseOp placeholder 2, ReleaseAllOp 2]" 2]
  by (simp add: Let_def acquire_def lease_new_def)

end
