(* ===== verification/Events.thy ===== *)
theory Events
  imports DeviceIds
begin

text \<open>
  \<open>crates/omnimodem/src/core/event.rs\<close>: the two classes of events the core emits. \<open>'n\<close> stands
  for the floating-point numbers some of them carry.
\<close>

record rx_image =
  img_width :: u16
  img_channels :: u8
  img_pixels :: "u8 list"

datatype frame_event = RxFrame channel_id "u8 list" "rx_image option" u64

datatype 'n telemetry =
    ChannelConfigured channel_id
  | TransmitStarted channel_id transmit_id
  | TransmitComplete channel_id transmit_id
  | TransmitFailed channel_id transmit_id string
  | AudioLevel channel_id 'n
  | StatusEvent channel_id u64
  | DeviceArrived device_id string
  | DeviceDeparted device_id
  | PttKeyed channel_id bool
  | ClockOffset 'n 'n bool
  | ChannelMetricsEvent channel_id u64 u64 'n 'n 'n bool "string option"
  | RsidDetected channel_id string string 'n bool
  | SpectrumFrame channel_id u64 'n 'n 'n 'n "u8 list" bool
  | SdrState channel_id 'n 'n 'n bool 'n u8 'n
  | AircraftReport channel_id u32 "string option" "'n option" "'n option" "int option" "'n option"
      "'n option" "int option" u64 u32

text \<open>The transmit lifecycle of one id, as a client filters the stream.\<close>

fun about_tx :: "channel_id \<Rightarrow> transmit_id \<Rightarrow> 'n telemetry \<Rightarrow> bool" where
  "about_tx c t (TransmitStarted c' t') = (c' = c \<and> t' = t)"
| "about_tx c t (TransmitComplete c' t') = (c' = c \<and> t' = t)"
| "about_tx c t (TransmitFailed c' t' _) = (c' = c \<and> t' = t)"
| "about_tx c t _ = False"

fun keyed_events :: "'n telemetry list \<Rightarrow> bool list" where
  "keyed_events [] = []"
| "keyed_events (PttKeyed _ k # es) = k # keyed_events es"
| "keyed_events (_ # es) = keyed_events es"

lemma keyed_events_append [simp]: "keyed_events (xs @ ys) = keyed_events xs @ keyed_events ys"
  by (induction xs rule: keyed_events.induct) simp_all

text \<open>The transmit ids announced as started and as complete, in stream order.\<close>

fun started_ids :: "'n telemetry list \<Rightarrow> transmit_id list" where
  "started_ids [] = []"
| "started_ids (TransmitStarted _ t # es) = t # started_ids es"
| "started_ids (_ # es) = started_ids es"

fun completed_ids :: "'n telemetry list \<Rightarrow> transmit_id list" where
  "completed_ids [] = []"
| "completed_ids (TransmitComplete _ t # es) = t # completed_ids es"
| "completed_ids (_ # es) = completed_ids es"

lemma started_ids_append [simp]: "started_ids (xs @ ys) = started_ids xs @ started_ids ys"
  by (induction xs rule: started_ids.induct) simp_all

lemma completed_ids_append [simp]: "completed_ids (xs @ ys) = completed_ids xs @ completed_ids ys"
  by (induction xs rule: completed_ids.induct) simp_all

text \<open>Key and unkey reports alternate, starting with a key and ending with an unkey.\<close>

fun well_keyed :: "bool list \<Rightarrow> bool" where
  "well_keyed [] = True"
| "well_keyed (True # False # ks) = well_keyed ks"
| "well_keyed _ = False"

lemma well_keyed_append: "well_keyed xs \<Longrightarrow> well_keyed ys \<Longrightarrow> well_keyed (xs @ ys)"
  by (induction xs rule: well_keyed.induct) simp_all

end
