(* ===== verification/TxWorker.thy ===== *)
theory TxWorker
  imports TxSequence Interlock Lease Events
begin

text \<open>
  \<open>crates/omnimodem/src/core/tx_worker.rs\<close>: the per-channel transmit worker. The signal
  processing it calls (modulator, resampler, RSID burst, gain and \<open>i16\<close> conversion) is
  floating-point code and enters as the fields of a parameter record; everything else of the
  drain loop is here. Other threads act on the shared lease registry and the cancel flag while a
  job waits, so their content at each read is part of the job's environment.
\<close>

section \<open>Jobs, the bounded queue, and the worker\<close>

definition tx_queue_depth :: nat where "tx_queue_depth = 32"

record ('f, 's) tx_job =
  job_frame :: 'f
  job_id :: transmit_id
  job_prebuilt :: "('s list \<times> u32) option"

text \<open>\<open>TxWorker::enqueue\<close>: \<open>try_send\<close> on a bounded queue; a full or closed queue returns the job.\<close>

definition enqueue :: "bool \<Rightarrow> 'j list \<Rightarrow> 'j \<Rightarrow> 'j list \<times> (unit, 'j) result" where
  "enqueue open queue job =
     (if \<not> open then (queue, Err job)
      else if length queue < tx_queue_depth then (queue @ [job], Ok ())
      else (queue, Err job))"

lemma enqueue_bounded:
  "length queue \<le> tx_queue_depth \<Longrightarrow> length (fst (enqueue opn queue job)) \<le> tx_queue_depth"
  by (simp add: enqueue_def)

lemma enqueue_rejects: "snd (enqueue opn queue job) = Err j \<Longrightarrow> j = job \<and> fst (enqueue opn queue job) = queue"
  by (auto simp: enqueue_def split: if_splits)

text \<open>
  \<open>modulate\<close> renders a frame or explains why it cannot; the number is \<open>caps().native_rate\<close>.
\<close>

record ('m, 'f, 's, 'n) tx_dsp =
  modulate :: "'m \<Rightarrow> 'f \<Rightarrow> 'm \<times> ('s list, string) result"
  native_rate :: "'m \<Rightarrow> u32"
  resample :: "u32 \<Rightarrow> u32 \<Rightarrow> 's list \<Rightarrow> 's list"
  rsid_burst :: "string \<Rightarrow> 'n \<Rightarrow> u32 \<Rightarrow> 's list option"
  to_pcm :: "'s list \<Rightarrow> int list"

record ('d, 'm, 'n) tx_worker =
  w_channel :: channel_id
  w_rig :: device_id
  w_rate :: u32
  w_mod :: 'm
  w_sink :: sink
  w_driver :: 'd
  w_rsid :: "(string \<times> 'n) option"
  w_slotted :: bool
  w_tx_delay :: nat
  w_tx_tail :: nat

text \<open>What one job meets: the cancel flag at \<open>recv\<close>, the lease registry at both checks.\<close>

record job_env =
  je_cancel :: bool
  je_lease :: lease_registry
  je_lease_after_wait :: lease_registry
  je_cycle :: cycle_env

section \<open>Rendering\<close>

definition raw_audio :: "('m, 'f, 's, 'n) tx_dsp \<Rightarrow> 'm \<Rightarrow> ('f, 's) tx_job \<Rightarrow>
    'm \<times> ('s list \<times> u32, string) result" where
  "raw_audio dsp m job =
     (case job_prebuilt job of
        Some (samples, native) \<Rightarrow> (m, Ok (samples, native))
      | None \<Rightarrow>
          (case modulate dsp m (job_frame job) of
             (m', Ok s) \<Rightarrow> (m', Ok (s, native_rate dsp m'))
           | (m', Err e) \<Rightarrow> (m', Err e)))"

definition shape_audio :: "('m, 'f, 's, 'n) tx_dsp \<Rightarrow> u32 \<Rightarrow> (string \<times> 'n) option \<Rightarrow> u32 \<Rightarrow>
    's list \<Rightarrow> int list" where
  "shape_audio dsp rate rsid native samples =
     (let samples = (if 0 < rate \<and> native \<noteq> rate then resample dsp native rate samples else samples);
          samples = (case rsid of
              Some (key, center) \<Rightarrow>
                if 0 < rate then
                  (case rsid_burst dsp key center rate of
                     Some burst \<Rightarrow> burst @ samples | None \<Rightarrow> samples)
                else samples
            | None \<Rightarrow> samples)
      in to_pcm dsp samples)"

section \<open>One job, and the drain loop\<close>

text \<open>\<open>Some (worker, interlock, events, continue)\<close>; \<open>None\<close> while the cycle's waits have not ended.\<close>

definition encode_reason :: "string \<Rightarrow> string" where
  "encode_reason e = ''cannot encode this message in this mode ('' @ e @ '')''"

definition run_job :: "('m, 'f, 's, 'n) tx_dsp \<Rightarrow> ('d \<Rightarrow> 'd \<times> ptt_reply) \<Rightarrow> ('d \<Rightarrow> 'd \<times> ptt_reply) \<Rightarrow>
    job_env \<Rightarrow> ('f, 's) tx_job \<Rightarrow> ('d, 'm, 'n) tx_worker \<Rightarrow> interlock \<Rightarrow>
    (('d, 'm, 'n) tx_worker \<times> interlock \<times> 'n telemetry list \<times> bool) option" where
  "run_job dsp key unkey env job w il =
     (let c = w_channel w; t = job_id job; rig = w_rig w;
          skipped = [TransmitStarted c t, TransmitComplete c t] in
      if je_cancel env then Some (w, il, [], False)
      else case raw_audio dsp (w_mod w) job of
        (m, Err e) \<Rightarrow>
          Some (w\<lparr>w_mod := m\<rparr>, il,
            [TransmitStarted c t, TransmitFailed c t (encode_reason e), TransmitComplete c t], True)
      | (m, Ok (samples, native)) \<Rightarrow>
          let w = w\<lparr>w_mod := m\<rparr>;
              pcm = shape_audio dsp (w_rate w) (w_rsid w) native samples in
          if \<not> may_transmit (je_lease env) rig c then Some (w, il, skipped, True)
          else if \<not> may_transmit (je_lease_after_wait env) rig c then Some (w, il, skipped, True)
          else
            case drive_tx_cycle key unkey pcm (w_rate w) (w_tx_delay w) (w_tx_tail w) (je_cycle env)
                (w_driver w) (w_sink w) of
              None \<Rightarrow> None
            | Some (d, s, out) \<Rightarrow>
                Some (w\<lparr>w_driver := d, w_sink := s\<rparr>, end_tx (begin_tx il rig) rig,
                  [TransmitStarted c t, PttKeyed c True, PttKeyed c False, TransmitComplete c t],
                  out = Done))"

fun run_worker :: "('m, 'f, 's, 'n) tx_dsp \<Rightarrow> ('d \<Rightarrow> 'd \<times> ptt_reply) \<Rightarrow> ('d \<Rightarrow> 'd \<times> ptt_reply) \<Rightarrow>
    (job_env \<times> ('f, 's) tx_job) list \<Rightarrow> ('d, 'm, 'n) tx_worker \<Rightarrow> interlock \<Rightarrow>
    (('d, 'm, 'n) tx_worker \<times> interlock \<times> 'n telemetry list \<times> nat) option" where
  "run_worker dsp key unkey [] w il = Some (w, il, [], 0)"
| "run_worker dsp key unkey ((env, job) # jobs) w il =
     (case run_job dsp key unkey env job w il of
        None \<Rightarrow> None
      | Some (w1, il1, evs, cont) \<Rightarrow>
          if \<not> cont then Some (w1, il1, evs, 1)
          else map_option (\<lambda>(w2, il2, evs2, n). (w2, il2, evs @ evs2, Suc n))
                 (run_worker dsp key unkey jobs w1 il1))"

section \<open>What one job does\<close>

text \<open>The four outcomes of a job.\<close>

lemma run_job_cases:
  assumes "run_job dsp key unkey env job w il = Some (w', il', evs, cont)"
  obtains (cancelled) "je_cancel env" "w' = w" "il' = il" "evs = []" "\<not> cont"
    | (rejected) m e where "\<not> je_cancel env" "w' = w\<lparr>w_mod := m\<rparr>" "il' = il" "cont"
        "evs = [TransmitStarted (w_channel w) (job_id job),
           TransmitFailed (w_channel w) (job_id job) (encode_reason e),
           TransmitComplete (w_channel w) (job_id job)]"
    | (leased_out) m where "\<not> je_cancel env" "w' = w\<lparr>w_mod := m\<rparr>" "il' = il" "cont"
        "\<not> may_transmit (je_lease env) (w_rig w) (w_channel w) \<or>
         \<not> may_transmit (je_lease_after_wait env) (w_rig w) (w_channel w)"
        "evs = [TransmitStarted (w_channel w) (job_id job), TransmitComplete (w_channel w) (job_id job)]"
    | (aired) m d s out pcm where "\<not> je_cancel env"
        "may_transmit (je_lease env) (w_rig w) (w_channel w)"
        "may_transmit (je_lease_after_wait env) (w_rig w) (w_channel w)"
        "drive_tx_cycle key unkey pcm (w_rate w) (w_tx_delay w) (w_tx_tail w) (je_cycle env)
           (w_driver w) (w_sink w) = Some (d, s, out)"
        "w' = w\<lparr>w_mod := m, w_driver := d, w_sink := s\<rparr>"
        "il' = end_tx (begin_tx il (w_rig w)) (w_rig w)" "cont \<longleftrightarrow> out = Done"
        "evs = [TransmitStarted (w_channel w) (job_id job), PttKeyed (w_channel w) True,
           PttKeyed (w_channel w) False, TransmitComplete (w_channel w) (job_id job)]"
proof (cases "je_cancel env")
  case True
  with assms show thesis by (auto simp: run_job_def intro: cancelled)
next
  case nc: False
  obtain m r where raw: "raw_audio dsp (w_mod w) job = (m, r)" by fastforce
  show thesis
  proof (cases r)
    case (Inl e)
    with assms nc raw show thesis by (auto simp: run_job_def Let_def intro: rejected)
  next
    case (Inr a)
    obtain samples native where a: "a = (samples, native)" by fastforce
    show thesis
    proof (cases "may_transmit (je_lease env) (w_rig w) (w_channel w) \<and>
        may_transmit (je_lease_after_wait env) (w_rig w) (w_channel w)")
      case False
      with assms nc raw Inr a show thesis
        by (auto simp: run_job_def Let_def intro!: leased_out [of m] split: if_splits)
    next
      case True
      with assms nc raw Inr a show thesis
        by (auto simp: run_job_def Let_def intro!: aired split: option.splits)
    qed
  qed
qed

lemma run_job_static:
  assumes "run_job dsp key unkey env job w il = Some (w', il', evs, cont)"
  shows "w_channel w' = w_channel w \<and> w_rig w' = w_rig w \<and> w_rate w' = w_rate w"
  using assms by (cases rule: run_job_cases) simp_all

lemma run_job_interlock:
  assumes "run_job dsp key unkey env job w il = Some (w', il', evs, cont)"
    and "key_depth il (w_rig w) < 4294967295"
  shows "key_depth il' = key_depth il"
  using assms(1) by (cases rule: run_job_cases) (simp_all add: lock.bracket assms(2))

lemma run_job_events:
  assumes "run_job dsp key unkey env job w il = Some (w', il', evs, cont)" "\<not> je_cancel env"
  shows "hd evs = TransmitStarted (w_channel w) (job_id job) \<and>
    last evs = TransmitComplete (w_channel w) (job_id job) \<and>
    count_list evs (TransmitStarted (w_channel w) (job_id job)) = 1 \<and>
    count_list evs (TransmitComplete (w_channel w) (job_id job)) = 1 \<and>
    keyed_events evs \<in> {[], [True, False]} \<and>
    started_ids evs = [job_id job] \<and> completed_ids evs = [job_id job]"
  using assms(1) by (cases rule: run_job_cases) (use assms(2) in simp_all)

lemma run_job_keyed_leased:
  assumes "run_job dsp key unkey env job w il = Some (w', il', evs, cont)"
    and "True \<in> set (keyed_events evs)"
  shows "may_transmit (je_lease env) (w_rig w) (w_channel w) \<and>
    may_transmit (je_lease_after_wait env) (w_rig w) (w_channel w)"
  using assms(1) by (cases rule: run_job_cases) (use assms(2) in simp_all)

lemma run_job_unkeyed_driver:
  assumes "run_job dsp key unkey env job w il = Some (w', il', evs, cont)"
    and "keyed_events evs = []"
  shows "w_driver w' = w_driver w \<and> w_sink w' = w_sink w"
  using assms(1) by (cases rule: run_job_cases) (use assms(2) in simp_all)

context ptt_driver
begin

lemma run_job_released:
  assumes "run_job dsp key unkey env job w il = Some (w', il', evs, cont)"
    and "valid (w_driver w)" and "\<not> asserted (w_driver w)" and "cont"
  shows "valid (w_driver w') \<and> \<not> asserted (w_driver w')"
  using assms(1)
proof (cases rule: run_job_cases)
  case (aired m d s out pcm)
  with drive_tx_cycle_released [OF assms(2) aired(4)] assms(4) show ?thesis by simp
qed (use assms in simp_all)

end

section \<open>What a worker does\<close>

lemma run_worker_Cons_Some:
  assumes "run_worker dsp key unkey ((env, job) # jobs) w il = Some (w', il', evs, n)"
  obtains w1 il1 evs1 cont where "run_job dsp key unkey env job w il = Some (w1, il1, evs1, cont)"
    "\<not> cont \<longrightarrow> w' = w1 \<and> il' = il1 \<and> evs = evs1 \<and> n = 1"
    "cont \<longrightarrow> (\<exists>evs2 m. run_worker dsp key unkey jobs w1 il1 = Some (w', il', evs2, m) \<and>
        evs = evs1 @ evs2 \<and> n = Suc m)"
  using assms by (auto split: option.splits if_splits)

lemma run_worker_static:
  "run_worker dsp key unkey jobs w il = Some (w', il', evs, n) \<Longrightarrow>
     w_channel w' = w_channel w \<and> w_rig w' = w_rig w \<and> n \<le> length jobs"
proof (induction jobs arbitrary: w il evs n)
  case (Cons ej jobs)
  obtain env job where ej: "ej = (env, job)" by fastforce
  from Cons.prems ej obtain w1 il1 evs1 cont
    where job: "run_job dsp key unkey env job w il = Some (w1, il1, evs1, cont)"
    by (auto split: option.splits)
  from run_job_static [OF job] Cons.prems ej job Cons.IH [of w1 il1] show ?case
    by (fastforce split: if_splits)
qed simp

lemma run_worker_interlock:
  "run_worker dsp key unkey jobs w il = Some (w', il', evs, n) \<Longrightarrow>
     key_depth il (w_rig w) < 4294967295 \<Longrightarrow> key_depth il' = key_depth il"
proof (induction jobs arbitrary: w il evs n)
  case (Cons ej jobs)
  obtain env job where ej: "ej = (env, job)" by fastforce
  from Cons.prems ej obtain w1 il1 evs1 cont
    where job: "run_job dsp key unkey env job w il = Some (w1, il1, evs1, cont)"
    by (auto split: option.splits)
  from run_job_interlock [OF job Cons.prems(2)] have "key_depth il1 = key_depth il" .
  moreover from run_job_static [OF job] have "w_rig w1 = w_rig w" by simp
  ultimately show ?case using Cons.prems ej job Cons.IH [of w1 il1]
    by (fastforce split: if_splits)
qed simp

lemma run_worker_events:
  "run_worker dsp key unkey jobs w il = Some (w', il', evs, n) \<Longrightarrow>
     \<exists>told lost. take n jobs = told @ lost \<and> length lost \<le> 1 \<and>
       (\<forall>(env, job)\<in>set told. \<not> je_cancel env) \<and> (\<forall>(env, job)\<in>set lost. je_cancel env) \<and>
       started_ids evs = map (job_id \<circ> snd) told \<and> completed_ids evs = map (job_id \<circ> snd) told \<and>
       well_keyed (keyed_events evs)"
proof (induction jobs arbitrary: w il evs n)
  case (Cons ej jobs)
  obtain env job where ej: "ej = (env, job)" by fastforce
  from Cons.prems ej obtain w1 il1 evs1 cont
    where job: "run_job dsp key unkey env job w il = Some (w1, il1, evs1, cont)"
    by (auto split: option.splits)
  show ?case
  proof (cases "je_cancel env")
    case True
    then have "\<not> cont" "evs1 = []" using job by (auto simp: run_job_def)
    with Cons.prems ej job True show ?thesis
      by (intro exI [of _ "[]"] exI [of _ "[(env, job)]"]) auto
  next
    case False
    from run_job_events [OF job this]
    have one: "started_ids evs1 = [job_id job]" "completed_ids evs1 = [job_id job]"
      "well_keyed (keyed_events evs1)" by auto
    show ?thesis
    proof (cases cont)
      case False
      with Cons.prems ej job one \<open>\<not> je_cancel env\<close> show ?thesis
        by (intro exI [of _ "[(env, job)]"] exI [of _ "[]"]) auto
    next
      case True
      with Cons.prems(1) ej job obtain evs2 m
        where rest: "run_worker dsp key unkey jobs w1 il1 = Some (w', il', evs2, m)"
          and evs: "evs = evs1 @ evs2" "n = Suc m" by auto
      from Cons.IH [OF rest] obtain told lost where IH: "take m jobs = told @ lost" "length lost \<le> 1"
        "\<forall>(env, job)\<in>set told. \<not> je_cancel env" "\<forall>(env, job)\<in>set lost. je_cancel env"
        "started_ids evs2 = map (job_id \<circ> snd) told" "completed_ids evs2 = map (job_id \<circ> snd) told"
        "well_keyed (keyed_events evs2)" by blast
      with one evs ej \<open>\<not> je_cancel env\<close> show ?thesis
        by (intro exI [of _ "(env, job) # told"] exI [of _ lost]) (simp add: well_keyed_append)
    qed
  qed
qed simp

section \<open>Properties\<close>

text \<open>
  C9: every job the worker takes off its queue is accounted for. The transmit ids announced as
  started, and those announced as complete, are those of the jobs taken, in queue order, each once,
  except for at most one: a job taken after the worker was cancelled ends the worker without a report.
  Key and unkey reports alternate, and if the rig's key count was below its maximum it is back where it was.
\<close>

theorem worker_accounts_for_jobs:
  assumes "run_worker dsp key unkey jobs w il = Some (w', il', evs, n)"
    and "key_depth il (w_rig w) < 4294967295"
  shows "(\<exists>told lost. take n jobs = told @ lost \<and> length lost \<le> 1 \<and>
      (\<forall>(env, job)\<in>set told. \<not> je_cancel env) \<and> (\<forall>(env, job)\<in>set lost. je_cancel env) \<and>
      started_ids evs = map (job_id \<circ> snd) told \<and> completed_ids evs = map (job_id \<circ> snd) told)
    \<and> well_keyed (keyed_events evs) \<and> key_depth il' = key_depth il"
  using run_worker_events [OF assms(1)] run_worker_interlock [OF assms] by blast

text \<open>A worker on the test double, whose "modulator" turns a number into that many samples.\<close>

definition demo_dsp :: "(unit, nat, int, nat) tx_dsp" where
  "demo_dsp = \<lparr>modulate = (\<lambda>m n. (m, if n = 0 then Err ''empty'' else Ok (replicate n 5))),
     native_rate = (\<lambda>_. 48000), resample = (\<lambda>_ _ s. s), rsid_burst = (\<lambda>_ _ _. None),
     to_pcm = (\<lambda>s. s)\<rparr>"

definition demo_worker :: "(mock_ptt, unit, nat) tx_worker" where
  "demo_worker = \<lparr>w_channel = 0, w_rig = placeholder, w_rate = 48000, w_mod = (), w_sink = idle_sink,
     w_driver = mock_new, w_rsid = None, w_slotted = False, w_tx_delay = 0, w_tx_tail = 0\<rparr>"

definition demo_env :: "lease_registry \<Rightarrow> job_env" where
  "demo_env l = \<lparr>je_cancel = False, je_lease = lease_new, je_lease_after_wait = l, je_cycle = quiet_env\<rparr>"

definition demo_jobs :: "(job_env \<times> (nat, int) tx_job) list" where
  "demo_jobs =
     [(demo_env lease_new, \<lparr>job_frame = 480, job_id = 1, job_prebuilt = None\<rparr>),
      (demo_env lease_new, \<lparr>job_frame = 0, job_id = 2, job_prebuilt = None\<rparr>),
      (demo_env (lease_new(placeholder \<mapsto> 7)), \<lparr>job_frame = 480, job_id = 3, job_prebuilt = None\<rparr>)]"

lemma demo_job1:
  "run_job demo_dsp mock_key mock_unkey (demo_env lease_new)
     \<lparr>job_frame = 480, job_id = 1, job_prebuilt = None\<rparr> demo_worker interlock_new =
   Some (demo_worker\<lparr>w_driver := fst (mock_unkey (fst (mock_key mock_new))),
       w_sink := fst (submit idle_sink (replicate 480 5))\<rparr>,
     end_tx (begin_tx interlock_new placeholder) placeholder,
     [TransmitStarted 0 1, PttKeyed 0 True, PttKeyed 0 False, TransmitComplete 0 1], True)"
  by (simp add: run_job_def demo_env_def raw_audio_def shape_audio_def demo_dsp_def demo_worker_def
      may_transmit_def lease_new_def quiet_cycle Let_def)

lemma demo_run:
  "run_worker demo_dsp mock_key mock_unkey demo_jobs demo_worker interlock_new =
     Some (demo_worker\<lparr>w_driver := fst (mock_unkey (fst (mock_key mock_new))),
         w_sink := fst (submit idle_sink (replicate 480 5))\<rparr>,
       end_tx (begin_tx interlock_new placeholder) placeholder,
       [TransmitStarted 0 1, PttKeyed 0 True, PttKeyed 0 False, TransmitComplete 0 1,
        TransmitStarted 0 2, TransmitFailed 0 2 (encode_reason ''empty''), TransmitComplete 0 2,
        TransmitStarted 0 3, TransmitComplete 0 3], 3)"
  by (simp add: demo_jobs_def demo_job1)
    (simp add: run_job_def demo_env_def raw_audio_def shape_audio_def demo_dsp_def demo_worker_def
      may_transmit_def lease_new_def Let_def)

theorem worker_accounts_for_jobs_witness:
  "\<exists>w' il' evs. run_worker demo_dsp mock_key mock_unkey demo_jobs demo_worker interlock_new =
      Some (w', il', evs, 3) \<and> completed_ids evs = [1, 2, 3] \<and> key_depth il' = key_depth interlock_new"
proof -
  obtain w' il' evs where run: "run_worker demo_dsp mock_key mock_unkey demo_jobs demo_worker interlock_new =
      Some (w', il', evs, 3)" using demo_run by blast
  have "key_depth interlock_new (w_rig demo_worker) < 4294967295" by simp
  from worker_accounts_for_jobs [OF run this] obtain told lost where
    r: "take 3 demo_jobs = told @ lost" "\<forall>(env, job)\<in>set lost. je_cancel env"
      "completed_ids evs = map (job_id \<circ> snd) told" "key_depth il' = key_depth interlock_new" by blast
  have "take 3 demo_jobs = demo_jobs" by (simp add: demo_jobs_def)
  then have jobs: "demo_jobs = told @ lost" using r(1) by simp
  have "\<forall>(env, job) \<in> set demo_jobs. \<not> je_cancel env" by (simp add: demo_jobs_def demo_env_def)
  with r(2) have "lost = []" unfolding jobs by (cases lost) auto
  with r(3) jobs have "completed_ids evs = map (job_id \<circ> snd) demo_jobs" by simp
  also have "\<dots> = [1, 2, 3]" by (simp add: demo_jobs_def)
  finally show ?thesis using run r(4) by blast
qed

text \<open>
  C10: the worker honours the lease. When another channel holds the rig's exclusive lease, either
  when the job comes off the queue or after the wait for its time slot, the job neither keys nor
  plays: driver, playback and interlock are untouched, and the client still sees the transmission
  end (with the reason, when the message could not be encoded at all).
\<close>

theorem worker_honours_lease:
  assumes "run_job dsp key unkey env job w il = Some (w', il', evs, cont)"
    and "\<not> je_cancel env"
    and "holder l (w_rig w) = Some h" and "h \<noteq> w_channel w"
    and "l = je_lease env \<or> l = je_lease_after_wait env"
  shows "w_driver w' = w_driver w \<and> w_sink w' = w_sink w \<and> il' = il \<and> keyed_events evs = []
    \<and> completed_ids evs = [job_id job] \<and> cont"
  using assms(1)
proof (cases rule: run_job_cases)
  case (aired m d s out pcm)
  with assms(3-5) tx_lease.exclusive show ?thesis by metis
qed (use assms(2) in simp_all)

theorem worker_honours_lease_witness:
  "\<exists>w' il' evs cont. run_job demo_dsp mock_key mock_unkey (demo_env (lease_new(placeholder \<mapsto> 7)))
      \<lparr>job_frame = 480, job_id = 3, job_prebuilt = None\<rparr> demo_worker interlock_new =
        Some (w', il', evs, cont) \<and> keyed_events evs = [] \<and> completed_ids evs = [3]"
proof -
  let ?l = "lease_new(placeholder \<mapsto> (7::channel_id))"
  let ?job = "\<lparr>job_frame = 480, job_id = 3, job_prebuilt = None\<rparr>"
  have r: "run_job demo_dsp mock_key mock_unkey (demo_env ?l) ?job demo_worker interlock_new =
      Some (demo_worker, interlock_new, [TransmitStarted 0 3, TransmitComplete 0 3], True)"
    by (simp add: run_job_def demo_env_def raw_audio_def shape_audio_def demo_dsp_def
        demo_worker_def may_transmit_def lease_new_def Let_def)
  have "keyed_events [TransmitStarted 0 3, TransmitComplete 0 3 :: nat telemetry] = []
      \<and> completed_ids [TransmitStarted 0 3, TransmitComplete 0 3 :: nat telemetry] = [3]"
    using worker_honours_lease [OF r, of ?l 7] by (simp add: demo_env_def demo_worker_def holder_def)
  with r show ?thesis by blast
qed

end
