(* ===== verification/TxSystem.thy ===== *)
theory TxSystem
  imports TxWorker
begin

text \<open>
  The transmit side as a concurrent system: any number of channel workers
  (\<open>core/tx_worker.rs\<close>), each on its rig, sharing the interlock and the lease registry
  (\<open>ptt/interlock.rs\<close>, \<open>ptt/lease.rs\<close>) with lease clients. One step is one access to the shared
  state, in the order of the worker's loop body, so every interleaving of threads is a run.
\<close>

section \<open>States and steps\<close>

text \<open>
  Where a worker stands in its loop: waiting for a job, past the first lease check (waiting for
  its slot), past the re-check, past \<open>begin_tx\<close> (the interval in which \<open>drive_tx_cycle\<close> keys the
  rig).
\<close>

datatype tx_phase = TxIdle | TxWaiting | TxCleared | TxKeyed

record tx_sys =
  phase :: "channel_id \<Rightarrow> tx_phase"
  lock :: interlock
  leases :: lease_registry

definition tx_init :: tx_sys where
  "tx_init = \<lparr>phase = (\<lambda>_. TxIdle), lock = interlock_new, leases = lease_new\<rparr>"

inductive tx_step :: "(channel_id \<Rightarrow> device_id) \<Rightarrow> tx_sys \<Rightarrow> tx_sys \<Rightarrow> bool" for rig where
  check: "phase s c = TxIdle \<Longrightarrow> may_transmit (leases s) (rig c) c \<Longrightarrow>
     tx_step rig s (s\<lparr>phase := (phase s)(c := TxWaiting)\<rparr>)"
| recheck_ok: "phase s c = TxWaiting \<Longrightarrow> may_transmit (leases s) (rig c) c \<Longrightarrow>
     tx_step rig s (s\<lparr>phase := (phase s)(c := TxCleared)\<rparr>)"
| recheck_blocked: "phase s c = TxWaiting \<Longrightarrow> \<not> may_transmit (leases s) (rig c) c \<Longrightarrow>
     tx_step rig s (s\<lparr>phase := (phase s)(c := TxIdle)\<rparr>)"
| begin_cycle: "phase s c = TxCleared \<Longrightarrow>
     tx_step rig s (s\<lparr>phase := (phase s)(c := TxKeyed), lock := begin_tx (lock s) (rig c)\<rparr>)"
| end_cycle: "phase s c = TxKeyed \<Longrightarrow>
     tx_step rig s (s\<lparr>phase := (phase s)(c := TxIdle), lock := end_tx (lock s) (rig c)\<rparr>)"
| lease_client: "tx_step rig s (s\<lparr>leases := lease_step (leases s) op\<rparr>)"

inductive tx_reachable :: "(channel_id \<Rightarrow> device_id) \<Rightarrow> tx_sys \<Rightarrow> bool" for rig where
  start: "tx_reachable rig tx_init"
| step: "tx_reachable rig s \<Longrightarrow> tx_step rig s t \<Longrightarrow> tx_reachable rig t"

lemmas tx_step_intros = check recheck_ok recheck_blocked begin_cycle end_cycle lease_client

section \<open>The interlock counts the keyed workers\<close>

definition keyed_on :: "(channel_id \<Rightarrow> device_id) \<Rightarrow> tx_sys \<Rightarrow> device_id \<Rightarrow> channel_id set" where
  "keyed_on rig s d = {c. phase s c = TxKeyed \<and> rig c = d}"

text \<open>
  Channel ids are \<open>u32\<close>, so at most \<open>2^32\<close> workers exist and the set is finite. The count would
  only wrap with all of them keyed on one rig; the invariant carries that bound.
\<close>

lemma finite_keyed_on [simp]: "finite (keyed_on rig s d)"
  by (rule finite_subset [OF subset_UNIV]) simp

definition lock_inv :: "(channel_id \<Rightarrow> device_id) \<Rightarrow> tx_sys \<Rightarrow> bool" where
  "lock_inv rig s \<longleftrightarrow> (\<forall>d. key_depth (lock s) d = card (keyed_on rig s d))"

lemma keyed_on_enter:
  "phase s c \<noteq> TxKeyed \<Longrightarrow>
     keyed_on rig (s\<lparr>phase := (phase s)(c := TxKeyed), lock := l\<rparr>) d =
       (if rig c = d then insert c (keyed_on rig s d) else keyed_on rig s d)"
  by (auto simp: keyed_on_def)

lemma keyed_on_leave:
  "keyed_on rig (s\<lparr>phase := (phase s)(c := TxIdle), lock := l\<rparr>) d = keyed_on rig s d - {c}"
  by (auto simp: keyed_on_def)

lemma keyed_on_other:
  "phase s c \<noteq> TxKeyed \<Longrightarrow> p \<noteq> TxKeyed \<Longrightarrow>
     keyed_on rig (s\<lparr>phase := (phase s)(c := p)\<rparr>) d = keyed_on rig s d"
  by (auto simp: keyed_on_def)

lemma keyed_on_lease [simp]: "keyed_on rig (s\<lparr>leases := l\<rparr>) d = keyed_on rig s d"
  by (simp add: keyed_on_def)

text \<open>Fewer than \<open>2^32 - 1\<close> workers are keyed on one rig.\<close>

definition few_workers :: "(channel_id \<Rightarrow> device_id) \<Rightarrow> bool" where
  "few_workers rig \<longleftrightarrow> (\<forall>d. card {c. rig c = d} < 4294967295)"

lemma keyed_on_few: "few_workers rig \<Longrightarrow> card (keyed_on rig s d) < 4294967295"
proof -
  assume "few_workers rig"
  then have "card {c. rig c = d} < 4294967295" by (simp add: few_workers_def)
  moreover have "card (keyed_on rig s d) \<le> card {c. rig c = d}"
    by (rule card_mono) (auto simp: keyed_on_def)
  ultimately show ?thesis by simp
qed

lemma lock_inv_step:
  assumes "tx_step rig s t" "lock_inv rig s" "few_workers rig"
  shows "lock_inv rig t"
  using assms(1)
proof cases
  case (begin_cycle c)
  have bound: "key_depth (lock s) (rig c) < 4294967295"
    using assms(2) keyed_on_few [OF assms(3)] by (simp add: lock_inv_def)
  have "c \<notin> keyed_on rig s (rig c)" using begin_cycle by (simp add: keyed_on_def)
  with begin_cycle assms(2) show ?thesis
    by (auto simp: lock_inv_def keyed_on_enter lock.depth_up [OF bound])
next
  case (end_cycle c)
  have "c \<in> keyed_on rig s (rig c)" using end_cycle by (simp add: keyed_on_def)
  moreover have "d \<noteq> rig c \<Longrightarrow> c \<notin> keyed_on rig s d" for d by (auto simp: keyed_on_def)
  ultimately show ?thesis using end_cycle assms(2)
    by (auto simp: lock_inv_def keyed_on_leave lock.depth_down)
qed (use assms(2) in \<open>auto simp: lock_inv_def keyed_on_other\<close>)

lemma lock_inv_reachable: "tx_reachable rig s \<Longrightarrow> few_workers rig \<Longrightarrow> lock_inv rig s"
proof (induction rule: tx_reachable.induct)
  case start
  show ?case by (simp add: lock_inv_def tx_init_def keyed_on_def)
qed (blast intro: lock_inv_step)

section \<open>Runs\<close>

lemma reach_check: "tx_reachable rig s \<Longrightarrow> phase s c = TxIdle \<Longrightarrow> may_transmit (leases s) (rig c) c \<Longrightarrow>
    tx_reachable rig (s\<lparr>phase := (phase s)(c := TxWaiting)\<rparr>)"
  by (blast intro: tx_reachable.step tx_step.check)

lemma reach_recheck: "tx_reachable rig s \<Longrightarrow> phase s c = TxWaiting \<Longrightarrow> may_transmit (leases s) (rig c) c \<Longrightarrow>
    tx_reachable rig (s\<lparr>phase := (phase s)(c := TxCleared)\<rparr>)"
  by (blast intro: tx_reachable.step tx_step.recheck_ok)

lemma reach_begin: "tx_reachable rig s \<Longrightarrow> phase s c = TxCleared \<Longrightarrow>
    tx_reachable rig (s\<lparr>phase := (phase s)(c := TxKeyed), lock := begin_tx (lock s) (rig c)\<rparr>)"
  by (blast intro: tx_reachable.step tx_step.begin_cycle)

text \<open>An admitted idle worker can go all the way to a keyed rig.\<close>

lemma reach_keyed:
  assumes "tx_reachable rig s" "phase s c = TxIdle" "may_transmit (leases s) (rig c) c"
  shows "tx_reachable rig (s\<lparr>phase := (phase s)(c := TxKeyed), lock := begin_tx (lock s) (rig c)\<rparr>)"
  using reach_begin [OF reach_recheck [OF reach_check [OF assms]], of c c] assms(3) by simp

section \<open>The lease, from the grant on\<close>

text \<open>The steps along which \<open>h\<close> keeps the lease of \<open>d\<close>.\<close>

definition held_step :: "(channel_id \<Rightarrow> device_id) \<Rightarrow> device_id \<Rightarrow> channel_id \<Rightarrow> tx_sys \<Rightarrow> tx_sys \<Rightarrow> bool" where
  "held_step rig d h s t \<longleftrightarrow>
     tx_step rig s t \<and> holder (leases s) d = Some h \<and> holder (leases t) d = Some h"

text \<open>No other worker of the rig has passed the re-check.\<close>

definition others_clear :: "(channel_id \<Rightarrow> device_id) \<Rightarrow> device_id \<Rightarrow> channel_id \<Rightarrow> tx_sys \<Rightarrow> bool" where
  "others_clear rig d h s \<longleftrightarrow>
     (\<forall>c. rig c = d \<longrightarrow> c \<noteq> h \<longrightarrow> phase s c \<notin> {TxCleared, TxKeyed})"

lemma others_clear_step:
  assumes "held_step rig d h s t" "others_clear rig d h s"
  shows "others_clear rig d h t"
proof -
  from assms(1) have st: "tx_step rig s t" and h: "holder (leases s) d = Some h"
    by (simp_all add: held_step_def)
  from st show ?thesis
  proof cases
    case (recheck_ok c)
    with h tx_lease.exclusive [of "leases s" d c h] assms(2) show ?thesis
      by (auto simp: others_clear_def)
  next
    case (begin_cycle c)
    with assms(2) show ?thesis by (auto simp: others_clear_def)
  qed (use assms(2) in \<open>auto simp: others_clear_def\<close>)
qed

section \<open>Properties\<close>

text \<open>
  C11: reception is muted exactly while somebody transmits. In every state reachable by any
  interleaving of any number of channel workers and lease clients, the interlock mutes a rig if
  and only if some worker is inside its key-to-unkey interval on that rig.
\<close>

theorem muted_iff_transmitting:
  assumes "tx_reachable rig s" and "few_workers rig"
  shows "is_muted (lock s) d \<longleftrightarrow> (\<exists>c. phase s c = TxKeyed \<and> rig c = d)"
proof -
  have "is_muted (lock s) d \<longleftrightarrow> 0 < card (keyed_on rig s d)"
    using lock_inv_reachable [OF assms] by (simp add: is_muted_iff lock_inv_def)
  also have "\<dots> \<longleftrightarrow> keyed_on rig s d \<noteq> {}" by (simp add: card_gt_0_iff)
  finally show ?thesis by (auto simp: keyed_on_def)
qed

text \<open>Channels 1 and 2 share the rig \<open>Serial ''A''\<close>; every other channel has the placeholder rig.\<close>

definition demo_rig :: "channel_id \<Rightarrow> device_id" where
  "demo_rig c = (if c = 1 \<or> c = 2 then Serial ''A'' else AlsaCard (show_dec (unat c)))"

lemma demo_rig_inj:
  "c \<notin> {1, 2} \<Longrightarrow> c' \<notin> {1, 2} \<Longrightarrow> demo_rig c = demo_rig c' \<Longrightarrow> c = c'"
  by (auto simp: demo_rig_def intro: unat_inject dest: show_dec_inject)

lemma demo_rig_few: "few_workers demo_rig"
  unfolding few_workers_def
proof
  fix d
  obtain x where x: "{c. demo_rig c = d} \<subseteq> {1, 2, x}"
  proof (cases "\<exists>x. x \<notin> {1, 2} \<and> demo_rig x = d")
    case True
    then obtain x where "x \<notin> {1, 2}" "demo_rig x = d" by blast
    then have "{c. demo_rig c = d} \<subseteq> {1, 2, x}" using demo_rig_inj by blast
    then show thesis by (rule that)
  next
    case False
    then have "{c. demo_rig c = d} \<subseteq> {1, 2, 1}" by blast
    then show thesis by (rule that)
  qed
  have "card {c. demo_rig c = d} \<le> card {1, 2, x}" by (rule card_mono [OF _ x]) simp
  also have "\<dots> \<le> length [1, 2, x]" by (metis card_length list.set(1) list.simps(15))
  finally show "card {c. demo_rig c = d} < 4294967295" by simp
qed

theorem muted_iff_transmitting_witness:
  "\<exists>s. tx_reachable demo_rig s \<and> is_muted (lock s) (Serial ''A'') \<and> \<not> is_muted (lock s) (Serial ''B'')"
proof -
  let ?s = "tx_init\<lparr>phase := (phase tx_init)(1 := TxKeyed),
      lock := begin_tx (lock tx_init) (demo_rig 1)\<rparr>"
  have r: "tx_reachable demo_rig ?s"
    by (rule reach_keyed [OF tx_reachable.start]) (simp_all add: tx_init_def may_transmit_def lease_new_def)
  have "is_muted (lock ?s) (Serial ''A'')"
    unfolding muted_iff_transmitting [OF r demo_rig_few] by (rule exI [of _ 1]) (simp add: demo_rig_def)
  moreover have "\<not> is_muted (lock ?s) (Serial ''B'')"
    unfolding muted_iff_transmitting [OF r demo_rig_few] by (auto simp: demo_rig_def tx_init_def)
  ultimately show ?thesis using r by blast
qed

text \<open>
  the interlock counts, it does not serialise. Two channels of one rig, with no lease taken,
  reach a state in which both transmit on it at once.
\<close>

theorem two_channels_transmit_at_once:
  "\<exists>s. tx_reachable demo_rig s \<and> phase s 1 = TxKeyed \<and> phase s 2 = TxKeyed \<and> demo_rig 1 = demo_rig 2"
proof -
  let ?s1 = "tx_init\<lparr>phase := (phase tx_init)(1 := TxKeyed),
      lock := begin_tx (lock tx_init) (demo_rig 1)\<rparr>"
  let ?s2 = "?s1\<lparr>phase := (phase ?s1)(2 := TxKeyed), lock := begin_tx (lock ?s1) (demo_rig 2)\<rparr>"
  have r1: "tx_reachable demo_rig ?s1"
    by (rule reach_keyed [OF tx_reachable.start]) (simp_all add: tx_init_def may_transmit_def lease_new_def)
  have "tx_reachable demo_rig ?s2"
    by (rule reach_keyed [OF r1]) (simp_all add: tx_init_def may_transmit_def lease_new_def)
  then show ?thesis by (rule exI [where x = ?s2, OF conjI]) (simp add: demo_rig_def)
qed

text \<open>
  C12: the lease is exclusive from the moment the rig is quiet. If \<open>h\<close> holds the lease and no
  other worker of the rig has passed its re-check, then along every run on which \<open>h\<close> keeps the
  lease no other worker of the rig ever transmits.
\<close>

theorem lease_excludes_transmitters:
  assumes "(held_step rig d h)\<^sup>*\<^sup>* s t" and "others_clear rig d h s"
    and "rig c = d" and "c \<noteq> h"
  shows "phase t c \<noteq> TxKeyed"
proof -
  from assms(1,2) have "others_clear rig d h t"
    by (induction rule: rtranclp_induct) (auto intro: others_clear_step)
  with assms(3,4) show ?thesis by (auto simp: others_clear_def)
qed

theorem lease_excludes_transmitters_witness:
  "phase (tx_init\<lparr>leases := lease_step lease_new (AcquireOp (Serial ''A'') 1)\<rparr>) 2 \<noteq> TxKeyed"
proof -
  let ?s = "tx_init\<lparr>leases := lease_step lease_new (AcquireOp (Serial ''A'') 1)\<rparr>"
  let ?t = "?s\<lparr>phase := (phase ?s)(1 := TxWaiting)\<rparr>"
  have h: "leases ?s = lease_new(Serial ''A'' \<mapsto> 1)"
    by (simp add: acquire_def lease_new_def)
  have st: "tx_step demo_rig ?s ?t"
    by (rule tx_step.check) (simp_all add: tx_init_def may_transmit_def acquire_def lease_new_def demo_rig_def)
  then have "held_step demo_rig (Serial ''A'') 1 ?s ?t"
    using h by (simp add: held_step_def holder_def)
  then have "(held_step demo_rig (Serial ''A'') 1)\<^sup>*\<^sup>* ?s ?t" by blast
  moreover have "others_clear demo_rig (Serial ''A'') 1 ?s"
    by (simp add: others_clear_def tx_init_def)
  ultimately have "phase ?t 2 \<noteq> TxKeyed"
    by (rule lease_excludes_transmitters) (simp_all add: demo_rig_def)
  then show ?thesis by simp
qed

text \<open>
  the registry grants an exclusive lease on a rig that another channel is transmitting on:
  a state is reachable in which channel 2 holds the lease while channel 1 is still keyed.
\<close>

theorem lease_granted_during_transmission:
  "\<exists>s. tx_reachable demo_rig s \<and> phase s 1 = TxKeyed \<and> holder (leases s) (demo_rig 1) = Some 2"
proof -
  let ?s1 = "tx_init\<lparr>phase := (phase tx_init)(1 := TxKeyed),
      lock := begin_tx (lock tx_init) (demo_rig 1)\<rparr>"
  let ?s2 = "?s1\<lparr>leases := lease_step (leases ?s1) (AcquireOp (demo_rig 1) 2)\<rparr>"
  have "tx_reachable demo_rig ?s1"
    by (rule reach_keyed [OF tx_reachable.start]) (simp_all add: tx_init_def may_transmit_def lease_new_def)
  then have "tx_reachable demo_rig ?s2"
    by (rule tx_reachable.step) (rule tx_step.lease_client)
  moreover have "holder (leases ?s2) (demo_rig 1) = Some 2"
    by (simp add: tx_init_def acquire_def lease_new_def holder_def)
  ultimately show ?thesis by (intro exI [of _ ?s2]) simp
qed

end
