(* ===== verification/Ensemble.thy ===== *)
theory Ensemble
  imports Prelude
begin

text \<open>
  The duplicate window of the demodulator ensembles (\<open>ensemble.rs\<close>): which frames of several
  decoders over the same samples are reported.
\<close>

text \<open>
  \<open>DedupWindow\<close>: \<open>seen\<close> pairs a content hash with a sample offset. The hash of the standard
  library is the parameter of \<open>admit\<close>; offsets are far below \<open>2^64\<close>, so they are naturals.
\<close>

record dedup_window =
  dw_window_samples :: nat
  dw_latest :: nat
  dw_seen :: "(u64 \<times> nat) list"

definition dedup_new :: "nat \<Rightarrow> dedup_window" where
  "dedup_new window_samples = \<lparr>dw_window_samples = window_samples, dw_latest = 0, dw_seen = []\<rparr>"

definition abs_diff :: "nat \<Rightarrow> nat \<Rightarrow> nat" where
  "abs_diff a b = (if a < b then b - a else a - b)"

definition admit :: "dedup_window \<Rightarrow> u64 \<Rightarrow> nat \<Rightarrow> dedup_window \<times> bool" where
  "admit d ch off =
     (let d1 = d\<lparr>dw_latest := max (dw_latest d) off\<rparr>;
          dup = (\<exists>(c, o')\<in>set (dw_seen d). c = ch \<and> abs_diff off o' \<le> dw_window_samples d)
      in if dup then (d1, False) else (d1\<lparr>dw_seen := dw_seen d @ [(ch, off)]\<rparr>, True))"

definition prune :: "dedup_window \<Rightarrow> nat \<Rightarrow> dedup_window" where
  "prune d cutoff_offset =
     d\<lparr>dw_seen := filter (\<lambda>(_, o'). cutoff_offset \<le> o' + dw_window_samples d) (dw_seen d)\<rparr>"

definition prune_to_latest :: "dedup_window \<Rightarrow> dedup_window" where
  "prune_to_latest d = prune d (dw_latest d)"

definition dedup_clear :: "dedup_window \<Rightarrow> dedup_window" where
  "dedup_clear d = d\<lparr>dw_seen := [], dw_latest := 0\<rparr>"

text \<open>
  A run of the ensemble: each batch is the frames of one \<open>feed\<close> call (hash and offset),
  admitted one by one, then pruned; the result lists the admitted frames.
\<close>

definition admit_step :: "dedup_window \<Rightarrow> u64 \<times> nat \<Rightarrow> dedup_window \<times> (u64 \<times> nat) list" where
  "admit_step d fr = (let (d1, novel) = admit d (fst fr) (snd fr) in (d1, if novel then [fr] else []))"

definition feed_batch :: "dedup_window \<Rightarrow> (u64 \<times> nat) list \<Rightarrow> dedup_window \<times> (u64 \<times> nat) list" where
  "feed_batch d frames = (let (d1, out) = transduce admit_step d frames in (prune_to_latest d1, out))"

definition dedup_run :: "dedup_window \<Rightarrow> (u64 \<times> nat) list list \<Rightarrow> (u64 \<times> nat) list" where
  "dedup_run d batches = snd (transduce feed_batch d batches)"

text \<open>The window \<open>d\<close> after the frames \<open>xs\<close> of which \<open>out\<close> were admitted.\<close>

definition dedup_inv :: "nat \<Rightarrow> dedup_window \<Rightarrow> (u64 \<times> nat) list \<Rightarrow> (u64 \<times> nat) list \<Rightarrow> bool" where
  "dedup_inv w d out xs \<longleftrightarrow> dw_window_samples d = w \<and>
     (\<forall>fr\<in>set out. snd fr \<le> dw_latest d) \<and> set (dw_seen d) \<subseteq> set out \<and>
     (\<forall>fr\<in>set out. fr \<in> set (dw_seen d) \<or> snd fr + w < dw_latest d) \<and>
     sorted_wrt (\<lambda>a b. fst a = fst b \<longrightarrow> snd a + w < snd b) out \<and>
     (\<forall>fr\<in>set xs. \<exists>fr'\<in>set out. fst fr' = fst fr \<and> abs_diff (snd fr) (snd fr') \<le> w)"

lemma dedup_inv_admit:
  assumes iv: "dedup_inv w d out xs" and le: "dw_latest d \<le> snd fr"
  shows "dedup_inv w (fst (admit_step d fr)) (out @ snd (admit_step d fr)) (xs @ [fr]) \<and>
    dw_latest (fst (admit_step d fr)) = snd fr"
proof -
  obtain c off where fr: "fr = (c, off)" by force
  from iv have w: "dw_window_samples d = w"
    and upper: "\<And>r. r \<in> set out \<Longrightarrow> snd r \<le> dw_latest d"
    and sub: "\<And>r. r \<in> set (dw_seen d) \<Longrightarrow> r \<in> set out"
    and old: "\<And>r. r \<in> set out \<Longrightarrow> r \<in> set (dw_seen d) \<or> snd r + w < dw_latest d"
    and apart: "sorted_wrt (\<lambda>a b. fst a = fst b \<longrightarrow> snd a + w < snd b) out"
    and cover: "\<And>r. r \<in> set xs \<Longrightarrow> \<exists>fr'\<in>set out. fst fr' = fst r \<and> abs_diff (snd r) (snd fr') \<le> w"
    by (auto simp: dedup_inv_def)
  from le have latest: "max (dw_latest d) off = off" by (simp add: fr)
  have upper': "r \<in> set out \<Longrightarrow> snd r \<le> off" for r using upper [of r] le by (simp add: fr)
  have old': "r \<in> set out \<Longrightarrow> r \<in> set (dw_seen d) \<or> snd r + w < off" for r
    using old [of r] le by (auto simp: fr)
  show ?thesis
  proof (cases "\<exists>(c', o')\<in>set (dw_seen d). c' = c \<and> abs_diff off o' \<le> dw_window_samples d")
    case True
    then obtain o' where dup: "(c, o') \<in> set (dw_seen d)" "abs_diff off o' \<le> w"
      by (auto simp: w)
    have "admit_step d fr = (d\<lparr>dw_latest := off\<rparr>, [])"
      using True by (simp add: fr admit_step_def admit_def Let_def latest)
    moreover have "\<exists>fr'\<in>set out. fst fr' = c \<and> abs_diff off (snd fr') \<le> w"
      using sub [OF dup(1)] dup(2) by force
    ultimately show ?thesis using w upper' sub old' apart cover by (auto simp: dedup_inv_def fr)
  next
    case False
    have far: "a + w < off" if "(c, a) \<in> set out" for a
    proof (cases "(c, a) \<in> set (dw_seen d)")
      case True
      with False have "\<not> abs_diff off a \<le> w" by (auto simp: w)
      with upper' [OF that] show ?thesis by (simp add: abs_diff_def split: if_splits)
    next
      case False
      with old' [OF that] show ?thesis by simp
    qed
    have "admit_step d fr = (d\<lparr>dw_latest := off, dw_seen := dw_seen d @ [fr]\<rparr>, [fr])"
      using False by (simp add: fr admit_step_def admit_def Let_def latest)
    moreover have "sorted_wrt (\<lambda>a b. fst a = fst b \<longrightarrow> snd a + w < snd b) (out @ [fr])"
      using apart far by (auto simp: sorted_wrt_append fr)
    moreover have "\<exists>fr'\<in>set (out @ [fr]). fst fr' = fst r \<and> abs_diff (snd r) (snd fr') \<le> w"
      if "r \<in> set (xs @ [fr])" for r
    proof (cases "r = fr")
      case True
      then show ?thesis by (simp add: abs_diff_def)
    next
      case False
      with that have "r \<in> set xs" by simp
      from cover [OF this] show ?thesis by auto
    qed
    ultimately show ?thesis using w upper' sub old' by (auto simp: dedup_inv_def fr)
  qed
qed

lemma dedup_inv_prune:
  "dedup_inv w d out xs \<Longrightarrow> dedup_inv w (prune_to_latest d) out xs"
  by (auto simp: dedup_inv_def prune_to_latest_def prune_def)

text \<open>The offsets of a list of frames never decrease, starting from \<open>t\<close>.\<close>

fun nondecreasing :: "nat \<Rightarrow> (u64 \<times> nat) list \<Rightarrow> bool" where
  "nondecreasing t [] \<longleftrightarrow> True"
| "nondecreasing t (fr # frs) \<longleftrightarrow> t \<le> snd fr \<and> nondecreasing (snd fr) frs"

lemma nondecreasing_append:
  "nondecreasing t (xs @ ys) \<longleftrightarrow> nondecreasing t xs \<and> nondecreasing (foldl (\<lambda>_. snd) t xs) ys"
  by (induction xs arbitrary: t) auto

lemma dedup_inv_batch:
  "dedup_inv w d out xs \<Longrightarrow> nondecreasing (dw_latest d) frames \<Longrightarrow>
    dedup_inv w (fst (transduce admit_step d frames)) (out @ snd (transduce admit_step d frames)) (xs @ frames) \<and>
    dw_latest (fst (transduce admit_step d frames)) = foldl (\<lambda>_. snd) (dw_latest d) frames"
proof (induction frames arbitrary: d out xs)
  case (Cons fr frames)
  from Cons.prems have le: "dw_latest d \<le> snd fr" by simp
  from dedup_inv_admit [OF Cons.prems(1) le] Cons.prems(2)
    Cons.IH [of "fst (admit_step d fr)" "out @ snd (admit_step d fr)" "xs @ [fr]"]
  show ?case by (simp add: split_beta)
qed simp

lemma dedup_inv_run:
  "dedup_inv w d out xs \<Longrightarrow> nondecreasing (dw_latest d) (concat batches) \<Longrightarrow>
    dedup_inv w (fst (transduce feed_batch d batches)) (out @ snd (transduce feed_batch d batches))
      (xs @ concat batches)"
proof (induction batches arbitrary: d out xs)
  case (Cons b batches)
  let ?d1 = "fst (transduce admit_step d b)"
  from Cons.prems(2) have nd: "nondecreasing (dw_latest d) b"
    "nondecreasing (foldl (\<lambda>_. snd) (dw_latest d) b) (concat batches)"
    by (simp_all add: nondecreasing_append)
  from dedup_inv_batch [OF Cons.prems(1) nd(1)] nd(2)
  have iv: "dedup_inv w (prune_to_latest ?d1) (out @ snd (transduce admit_step d b)) (xs @ b)"
    and "nondecreasing (dw_latest (prune_to_latest ?d1)) (concat batches)"
    by (auto intro: dedup_inv_prune) (simp add: prune_to_latest_def prune_def)
  from Cons.IH [OF this] show ?case by (simp add: feed_batch_def split_beta)
qed simp

text \<open>
  on frames in the order of their offsets the ensemble reports no content twice within the
  window and loses none: every frame has a reported one of the same content within the window.
  Pruning the record after each batch does not change that.
\<close>

theorem dedup_exact:
  assumes "nondecreasing 0 (concat batches)"
  shows "sorted_wrt (\<lambda>a b. fst a = fst b \<longrightarrow> snd a + w < snd b) (dedup_run (dedup_new w) batches) \<and>
    (\<forall>fr\<in>set (concat batches). \<exists>fr'\<in>set (dedup_run (dedup_new w) batches).
      fst fr' = fst fr \<and> abs_diff (snd fr) (snd fr') \<le> w)"
proof -
  have "dedup_inv w (dedup_new w) [] []" by (simp add: dedup_inv_def dedup_new_def)
  moreover from assms have "nondecreasing (dw_latest (dedup_new w)) (concat batches)"
    by (simp add: dedup_new_def)
  ultimately have "dedup_inv w (fst (transduce feed_batch (dedup_new w) batches))
      ([] @ snd (transduce feed_batch (dedup_new w) batches)) ([] @ concat batches)"
    by (rule dedup_inv_run)
  then show ?thesis by (simp add: dedup_inv_def dedup_run_def)
qed

lemma dedup_exact_witness:
  "\<exists>fr'\<in>set (dedup_run (dedup_new 120) [[(7, 10), (7, 90)], [(8, 95), (7, 400)]]).
      fst fr' = 7 \<and> abs_diff 90 (snd fr') \<le> 120"
  using dedup_exact [of "[[(7, 10), (7, 90)], [(8, 95), (7, 400)]]" 120] by simp

end
