(* ===== verification/Crc.thy ===== *)
theory Crc
  imports Prelude
begin

text \<open>
  The cyclic redundancy checks of \<open>fec/crc.rs\<close>: the parametric bit-at-a-time \<open>crc\<close> over a
  \<open>CrcSpec\<close> (here with the two published parameter sets) and \<open>ftx_compute_crc\<close>, the FT8
  variant over a bit count. A register is a \<open>u32\<close> (\<open>u16\<close> for FT8), so the shifts are the
  machine's. The lemmas show that the X.25 register step is linear and injective, which
  gives the error detection the packet receivers rely on, and that the two routines agree.
\<close>

unbundle bit_operations_syntax

section \<open>Parameters\<close>

record crc_spec =
  crc_width :: u8
  crc_poly :: u32
  crc_init :: u32
  crc_refin :: bool
  crc_refout :: bool
  crc_xorout :: u32

definition crc16_x25 :: crc_spec where
  "crc16_x25 = \<lparr>crc_width = 16, crc_poly = 0x1021, crc_init = 0xFFFF, crc_refin = True,
     crc_refout = True, crc_xorout = 0xFFFF\<rparr>"

definition crc14_ft8 :: crc_spec where
  "crc14_ft8 = \<lparr>crc_width = 14, crc_poly = 0x2757, crc_init = 0, crc_refin = False,
     crc_refout = False, crc_xorout = 0\<rparr>"

section \<open>The generic register machine\<close>

text \<open>\<open>reflect\<close>: the loop moves \<open>bits\<close> low bits of \<open>v\<close> into \<open>r\<close>, first bit highest.\<close>

fun reflect_loop :: "nat \<Rightarrow> u32 \<Rightarrow> u32 \<Rightarrow> u32" where
  "reflect_loop 0 r v = r"
| "reflect_loop (Suc k) r v = reflect_loop k (push_bit 1 r OR (v AND 1)) (drop_bit 1 v)"

definition reflect :: "u32 \<Rightarrow> u8 \<Rightarrow> u32" where
  "reflect v bits = reflect_loop (unat bits) 0 v"

definition crc_topbit :: "crc_spec \<Rightarrow> u32" where
  "crc_topbit spec = push_bit (unat (crc_width spec - 1)) 1"

definition crc_mask :: "crc_spec \<Rightarrow> u32" where
  "crc_mask spec = push_bit (unat (crc_width spec)) 1 - 1"

text \<open>One round of the inner loop.\<close>

definition crc_bit :: "u32 \<Rightarrow> u32 \<Rightarrow> u32 \<Rightarrow> u32 \<Rightarrow> u32" where
  "crc_bit topbit msk poly reg =
     (if reg AND topbit \<noteq> 0 then (push_bit 1 reg XOR poly) AND msk
      else push_bit 1 reg AND msk)"

text \<open>One round of the outer loop: a byte is folded in at the top and clocked eight times.\<close>

definition crc_byte :: "crc_spec \<Rightarrow> u32 \<Rightarrow> u8 \<Rightarrow> u32" where
  "crc_byte spec reg b =
     (let byte = (if crc_refin spec then reflect (ucast b) 8 else ucast b);
          reg1 = reg XOR (push_bit (unat (crc_width spec - 8)) byte AND crc_mask spec)
      in (crc_bit (crc_topbit spec) (crc_mask spec) (crc_poly spec) ^^ 8) reg1)"

definition crc :: "crc_spec \<Rightarrow> u8 list \<Rightarrow> u32" where
  "crc spec data =
     (let reg = foldl (crc_byte spec) (crc_init spec AND crc_mask spec) data;
          reg1 = (if crc_refout spec then reflect reg (crc_width spec) else reg)
      in (reg1 XOR crc_xorout spec) AND crc_mask spec)"

section \<open>Bit-level facts\<close>

lemma u32_eqI: "(\<And>n. n < 32 \<Longrightarrow> bit a n = bit b n) \<Longrightarrow> a = b" for a b :: u32
  by (rule bit_word_eqI) auto

lemma bit_times2: "m < 32 \<Longrightarrow> bit (r * 2) m \<longleftrightarrow> m \<noteq> 0 \<and> bit r (m - 1)" for r :: u32
  by (simp add: mult.commute [of r 2] bit_double_iff)

lemma bit_shift_in:
  "m < 32 \<Longrightarrow> bit (r * 2 OR v AND 1) m = (if m = 0 then bit v 0 else bit r (m - 1))" for r :: u32
  by (auto simp: bit_or_iff bit_and_iff bit_1_iff bit_times2)

lemma bit_reflect_loop:
  assumes "n < 32" and "k \<le> 32"
  shows "bit (reflect_loop k r v) n = (if n < k then bit v (k - 1 - n) else bit r (n - k))"
  using assms
proof (induction k arbitrary: r v)
  case (Suc k)
  then have IH: "bit (reflect_loop k (r * 2 OR v AND 1) (drop_bit 1 v)) n =
     (if n < k then bit (drop_bit 1 v) (k - 1 - n) else bit (r * 2 OR v AND 1) (n - k))"
    by simp
  show ?case
  proof (cases "n < k")
    case True
    then have "Suc (k - 1 - n) = Suc k - 1 - n" by simp
    with True IH show ?thesis by (simp add: bit_drop_bit_eq)
  next
    case False
    with IH Suc.prems show ?thesis
      by (simp add: bit_shift_in split: if_splits)
  qed
qed simp

lemma bit_reflect:
  "n < 32 \<Longrightarrow> unat bits \<le> 32 \<Longrightarrow>
    bit (reflect v bits) n = (n < unat bits \<and> bit v (unat bits - 1 - n))"
  by (simp add: reflect_def bit_reflect_loop)

lemma reflect_involutive:
  assumes "\<And>n. unat bits \<le> n \<Longrightarrow> \<not> bit v n" and "unat bits \<le> 32"
  shows "reflect (reflect v bits) bits = v"
proof (rule u32_eqI)
  fix n :: nat assume "n < 32"
  with assms(2) show "bit (reflect (reflect v bits) bits) n = bit v n"
    using assms(1) [of n] by (cases "n < unat bits") (simp_all add: bit_reflect)
qed

section \<open>The two parameter sets, evaluated\<close>

lemma funpow_8: "(f ^^ 8) x = f (f (f (f (f (f (f (f x)))))))"
  by (simp add: eval_nat_numeral)

definition x25_bit :: "u32 \<Rightarrow> u32" where
  "x25_bit = crc_bit 0x8000 0xFFFF 0x1021"

lemma crc_byte_x25:
  "crc_byte crc16_x25 reg b =
     (x25_bit ^^ 8) (reg XOR (push_bit 8 (reflect (ucast b) 8) AND 0xFFFF))"
  by (simp add: crc_byte_def crc_topbit_def crc_mask_def crc16_x25_def x25_bit_def)

lemma crc_x25:
  "crc crc16_x25 data =
     (reflect (foldl (crc_byte crc16_x25) 0xFFFF data) 16 XOR 0xFFFF) AND 0xFFFF"
  by (simp add: crc_def crc_mask_def crc16_x25_def)

lemma crc_byte_ft8:
  "crc_byte crc14_ft8 reg b =
     (crc_bit 0x2000 0x3FFF 0x2757 ^^ 8) (reg XOR (push_bit 6 (ucast b) AND 0x3FFF))"
  by (simp add: crc_byte_def crc_topbit_def crc_mask_def crc14_ft8_def)

lemma crc_ft8: "crc crc14_ft8 data = foldl (crc_byte crc14_ft8) 0 data AND 0x3FFF"
  by (simp add: crc_def crc_mask_def crc14_ft8_def)

lemma reflect_loop_numeral [simp]:
  "reflect_loop (numeral k) r v =
     reflect_loop (pred_numeral k) (push_bit 1 r OR (v AND 1)) (drop_bit 1 v)"
  by (simp add: numeral_eq_Suc)

lemmas crc_x25_eval = crc_x25 crc_byte_x25 funpow_8 x25_bit_def crc_bit_def reflect_def

text \<open>The published check value of CRC-16/X.25.\<close>

lemma crc16_x25_check: "crc crc16_x25 [0x31,0x32,0x33,0x34,0x35,0x36,0x37,0x38,0x39] = 0x906E"
  by (simp add: crc_x25_eval)

section \<open>The X.25 register step is linear and injective\<close>

text \<open>Registers are 16 bits wide.\<close>

definition reg16 :: "u32 \<Rightarrow> bool" where
  "reg16 r \<longleftrightarrow> r AND 0xFFFF = r"

lemma mask16: "(0xFFFF :: u32) = mask 16"
  by (simp add: mask_eq_exp_minus_1)

lemma reg16_iff: "reg16 r \<longleftrightarrow> (\<forall>n\<ge>16. \<not> bit r n)"
proof
  assume "reg16 r"
  then have "r = r AND mask 16" by (simp add: reg16_def mask16)
  then show "\<forall>n\<ge>16. \<not> bit r n"
    by (metis bit_and_iff bit_mask_iff not_less)
next
  assume high: "\<forall>n\<ge>16. \<not> bit r n"
  show "reg16 r" unfolding reg16_def mask16
  proof (rule u32_eqI)
    fix n :: nat assume "n < 32"
    with high show "bit (r AND mask 16) n = bit r n"
      by (cases "n < 16") (simp_all add: bit_and_iff bit_mask_iff)
  qed
qed

lemma reg16_xor: "reg16 a \<Longrightarrow> reg16 b \<Longrightarrow> reg16 (a XOR b)"
  by (simp add: reg16_iff bit_xor_iff)

lemma reg16_and_mask [simp]: "reg16 (a AND 0xFFFF)"
  by (simp add: reg16_def and.assoc)

lemma reg16_x25_bit [simp]: "reg16 (x25_bit r)"
  by (simp add: x25_bit_def crc_bit_def)

lemma topbit_test: "r AND 0x8000 \<noteq> 0 \<longleftrightarrow> bit r 15" for r :: u32
proof -
  have "(0x8000 :: u32) = 2 ^ 15" by simp
  then show ?thesis by (simp only: and_exp_eq_0_iff_not_bit not_not)
qed

lemma x25_bit_alt: "x25_bit r = (r * 2 XOR (if bit r 15 then 0x1021 else 0)) AND 0xFFFF"
  by (simp add: x25_bit_def crc_bit_def topbit_test)

lemma bit_x25_bit:
  assumes "n < 32"
  shows "bit (x25_bit r) n \<longleftrightarrow> n < 16 \<and>
     ((n \<noteq> 0 \<and> bit r (n - 1)) \<noteq> (bit r 15 \<and> bit (0x1021 :: u32) n))"
  using assms unfolding x25_bit_alt mask16
  by (auto simp: bit_and_iff bit_xor_iff bit_mask_iff bit_times2)

lemma x25_bit_xor: "x25_bit (a XOR b) = x25_bit a XOR x25_bit b"
  by (rule u32_eqI) (auto simp: bit_x25_bit bit_xor_iff)

lemma x25_bit_inj: "reg16 a \<Longrightarrow> reg16 b \<Longrightarrow> x25_bit a = x25_bit b \<Longrightarrow> a = b"
proof (rule u32_eqI)
  fix n :: nat assume reg: "reg16 a" "reg16 b" and eq: "x25_bit a = x25_bit b" and "n < 32"
  have "bit (x25_bit a) 0 = bit (x25_bit b) 0" by (simp only: eq)
  then have top: "bit a 15 = bit b 15" by (simp add: bit_x25_bit)
  show "bit a n = bit b n"
  proof (cases "n < 15")
    case True
    have "bit (x25_bit a) (Suc n) = bit (x25_bit b) (Suc n)" by (simp only: eq)
    with top True show ?thesis by (auto simp: bit_x25_bit)
  next
    case False
    with top reg show ?thesis by (cases "n = 15") (auto simp: reg16_iff)
  qed
qed

lemma x25_bits_xor: "(x25_bit ^^ k) (a XOR b) = (x25_bit ^^ k) a XOR (x25_bit ^^ k) b"
  by (induction k) (simp_all add: x25_bit_xor)

lemma reg16_x25_bits: "reg16 r \<Longrightarrow> reg16 ((x25_bit ^^ k) r)"
  by (induction k) simp_all

lemma x25_bits_inj:
  "reg16 a \<Longrightarrow> reg16 b \<Longrightarrow> (x25_bit ^^ k) a = (x25_bit ^^ k) b \<Longrightarrow> a = b"
  by (induction k) (auto intro: x25_bit_inj reg16_x25_bits)

text \<open>A byte below the feedback tap is only shifted.\<close>

lemma x25_bits_low:
  assumes "\<And>n. n \<ge> 8 \<Longrightarrow> \<not> bit c n" and "k \<le> 8"
  shows "(x25_bit ^^ k) c = push_bit k c"
  using assms(2)
proof (induction k)
  case (Suc k)
  then have IH: "(x25_bit ^^ k) c = push_bit k c" by simp
  show ?case
  proof (rule u32_eqI)
    fix n :: nat assume n: "n < 32"
    have low: "\<not> bit (push_bit k c) 15" using assms(1) [of "15 - k"] Suc.prems
      by (simp add: bit_push_bit_iff)
    have goal: "bit (push_bit (Suc k) c) n = (Suc k \<le> n \<and> bit c (n - Suc k))" using n
      by (subst bit_push_bit_iff) simp
    have "bit c (n - Suc k) \<Longrightarrow> n < 16"
      using assms(1) [of "n - Suc k"] Suc.prems by (cases "n < 16") auto
    with low n Suc.prems show "bit ((x25_bit ^^ Suc k) c) n = bit (push_bit (Suc k) c) n"
      unfolding goal by (cases n) (auto simp: IH bit_x25_bit bit_push_bit_iff not_less)
  qed
qed simp

section \<open>Error detection\<close>

text \<open>What a byte contributes: its reflection, aligned to the top of the register.\<close>

definition crc_in :: "u8 \<Rightarrow> u32" where
  "crc_in b = reflect (ucast b) 8"

lemma bit_crc_in: "n < 32 \<Longrightarrow> bit (crc_in b) n \<longleftrightarrow> n < 8 \<and> bit b (7 - n)"
  by (auto simp: crc_in_def bit_reflect bit_ucast_iff)

lemma crc_in_low: "n \<ge> 8 \<Longrightarrow> \<not> bit (crc_in b) n"
  using bit_crc_in [of n b] by (cases "n < 32") (auto dest: bit_imp_le_length)

lemma reg16_crc_in [simp]: "reg16 (crc_in b)"
  by (simp add: reg16_iff crc_in_low)

lemma crc_byte_shift:
  "crc_byte crc16_x25 r b = (x25_bit ^^ 8) (r XOR push_bit 8 (crc_in b))"
proof -
  have "reg16 (push_bit 8 (crc_in b))"
    by (simp add: reg16_iff bit_push_bit_iff crc_in_low)
  then show ?thesis by (simp only: crc_byte_x25 crc_in_def [symmetric] reg16_def)
qed

lemma push_crc_in: "push_bit 8 (crc_in b) = (x25_bit ^^ 8) (crc_in b)"
  by (rule x25_bits_low [symmetric]) (simp_all add: crc_in_low)

lemma reg16_push_crc_in [simp]: "reg16 (push_bit 8 (crc_in b))"
  by (simp only: push_crc_in reg16_x25_bits reg16_crc_in)

lemma reg16_crc_byte: "reg16 r \<Longrightarrow> reg16 (crc_byte crc16_x25 r b)"
  by (simp only: crc_byte_shift) (intro reg16_x25_bits reg16_xor reg16_push_crc_in)

lemma reg16_crc_fold: "reg16 r \<Longrightarrow> reg16 (foldl (crc_byte crc16_x25) r bs)"
  by (induction bs arbitrary: r) (simp_all add: reg16_crc_byte)

lemma crc_byte_inj:
  assumes "reg16 r" "reg16 r'" and "crc_byte crc16_x25 r b = crc_byte crc16_x25 r' b"
  shows "r = r'"
proof -
  from assms(3) have "r XOR push_bit 8 (crc_in b) = r' XOR push_bit 8 (crc_in b)"
    unfolding crc_byte_shift
    by (rule x25_bits_inj [rotated 2]) (simp_all add: assms reg16_xor)
  then show ?thesis by (rule xor_cancel_right)
qed

lemma crc_fold_inj:
  "reg16 r \<Longrightarrow> reg16 r' \<Longrightarrow>
    foldl (crc_byte crc16_x25) r bs = foldl (crc_byte crc16_x25) r' bs \<Longrightarrow> r = r'"
  by (induction bs arbitrary: r r') (auto intro: crc_byte_inj reg16_crc_byte)

lemma crc_out_inj:
  assumes "reg16 r" "reg16 r'"
    and "(reflect r 16 XOR 0xFFFF) AND 0xFFFF = (reflect r' 16 XOR 0xFFFF) AND 0xFFFF"
  shows "r = r'"
proof (rule u32_eqI)
  fix n :: nat assume n: "n < 32"
  show "bit r n = bit r' n"
  proof (cases "n < 16")
    case True
    then have k: "15 - n < 16" "15 - n < 32" by simp_all
    have "bit ((reflect r 16 XOR 0xFFFF) AND 0xFFFF) (15 - n) =
      bit ((reflect r' 16 XOR 0xFFFF) AND 0xFFFF) (15 - n)" by (simp only: assms(3))
    with True k show ?thesis unfolding mask16
      by (simp add: bit_and_iff bit_xor_iff bit_mask_iff bit_reflect)
  next
    case False
    with assms show ?thesis by (simp add: reg16_iff)
  qed
qed

lemma two_bytes_shift:
  "crc_byte crc16_x25 (crc_byte crc16_x25 r a) b =
     (x25_bit ^^ 16) (r XOR (push_bit 8 (crc_in a) XOR crc_in b))"
proof -
  have "(16 :: nat) = 8 + 8" by simp
  then show ?thesis
    by (simp only: funpow_add o_apply crc_byte_shift push_crc_in [of b] x25_bits_xor xor.assoc)
qed

lemma two_bytes_inj:
  assumes "push_bit 8 (crc_in a) XOR crc_in b = push_bit 8 (crc_in a') XOR crc_in b'"
  shows "a = a' \<and> b = b'"
proof -
  have eq: "bit (push_bit 8 (crc_in a) XOR crc_in b) n =
      bit (push_bit 8 (crc_in a') XOR crc_in b') n" for n by (simp only: assms)
  have "bit b n = bit b' n" if "n < 8" for n
    using eq [of "7 - n"] that diff_le_self [of 7 n]
    by (simp add: bit_xor_iff bit_push_bit_iff bit_crc_in)
  moreover have "bit a n = bit a' n" if n: "n < 8" for n
  proof -
    from n have "8 \<le> 15 - n" "15 - n < 32" "7 - n < 8" "\<not> 15 - n < 8" "7 - (7 - n) = n" by auto
    with eq [of "15 - n"] show ?thesis
      by (simp add: bit_xor_iff bit_push_bit_iff bit_crc_in)
  qed
  ultimately show ?thesis by (auto intro: bit_word_eqI)
qed

text \<open>
  no corruption confined to two adjacent bytes of a packet goes unnoticed: two packets
  that differ at most there have the same CRC-16/X.25 exactly when they are equal.
\<close>

theorem crc_detects_adjacent_errors:
  "crc crc16_x25 (xs @ [a, b] @ ys) = crc crc16_x25 (xs @ [a', b'] @ ys) \<longleftrightarrow> a = a' \<and> b = b'"
proof
  let ?r = "foldl (crc_byte crc16_x25) 0xFFFF xs"
  have r: "reg16 ?r" by (rule reg16_crc_fold) (simp add: reg16_def)
  assume "crc crc16_x25 (xs @ [a, b] @ ys) = crc crc16_x25 (xs @ [a', b'] @ ys)"
  then have "foldl (crc_byte crc16_x25) 0xFFFF (xs @ [a, b] @ ys) =
      foldl (crc_byte crc16_x25) 0xFFFF (xs @ [a', b'] @ ys)"
    unfolding crc_x25
    by (rule crc_out_inj [rotated 2]) (rule reg16_crc_fold, simp add: reg16_def)+
  then have "foldl (crc_byte crc16_x25) (crc_byte crc16_x25 (crc_byte crc16_x25 ?r a) b) ys =
      foldl (crc_byte crc16_x25) (crc_byte crc16_x25 (crc_byte crc16_x25 ?r a') b') ys"
    by (simp only: foldl_append foldl_Cons foldl_Nil)
  then have "crc_byte crc16_x25 (crc_byte crc16_x25 ?r a) b =
      crc_byte crc16_x25 (crc_byte crc16_x25 ?r a') b'"
    by (rule crc_fold_inj [rotated 2]) (intro reg16_crc_byte r)+
  then have "?r XOR (push_bit 8 (crc_in a) XOR crc_in b) =
      ?r XOR (push_bit 8 (crc_in a') XOR crc_in b')"
    unfolding two_bytes_shift
    by (rule x25_bits_inj [rotated 2]) (simp_all add: r reg16_xor)
  then have "push_bit 8 (crc_in a) XOR crc_in b = push_bit 8 (crc_in a') XOR crc_in b'"
    by (rule xor_cancel_left)
  then show "a = a' \<and> b = b'" by (rule two_bytes_inj)
qed simp

section \<open>The FT8 CRC over a bit count\<close>

text \<open>\<open>None\<close> is the panic of indexing past the end of the message.\<close>

definition ftx_bit :: "u16 \<Rightarrow> u16" where
  "ftx_bit remainder =
     (if remainder AND 0x2000 \<noteq> 0 then push_bit 1 remainder XOR 0x2757
      else push_bit 1 remainder)"

fun ftx_loop :: "u8 list \<Rightarrow> nat \<Rightarrow> nat \<Rightarrow> nat \<Rightarrow> u16 \<Rightarrow> u16 option" where
  "ftx_loop message 0 idx_bit idx_byte remainder = Some remainder"
| "ftx_loop message (Suc k) idx_bit idx_byte remainder =
     (if idx_bit mod 8 = 0 then
        (if idx_byte < length message
         then ftx_loop message k (idx_bit + 1) (idx_byte + 1)
                (ftx_bit (remainder XOR push_bit 6 (ucast (message ! idx_byte))))
         else None)
      else ftx_loop message k (idx_bit + 1) idx_byte (ftx_bit remainder))"

definition ftx_compute_crc :: "u8 list \<Rightarrow> nat \<Rightarrow> u16 option" where
  "ftx_compute_crc message num_bits =
     map_option (\<lambda>remainder. remainder AND 0x3FFF) (ftx_loop message num_bits 0 0 0)"

text \<open>The 16-bit remainder carries garbage above bit 13; the generic register does not.\<close>

definition ftx_rel :: "u16 \<Rightarrow> u32 \<Rightarrow> bool" where
  "ftx_rel remainder reg \<longleftrightarrow> (\<forall>n. bit reg n = (n < 14 \<and> bit remainder n))"

lemma mask14: "(0x3FFF :: u32) = mask 14" "(0x3FFF :: u16) = mask 14"
  by (simp_all add: mask_eq_exp_minus_1)

lemma bit13_test_16: "r AND 0x2000 \<noteq> 0 \<longleftrightarrow> bit r 13" for r :: u16
proof -
  have "(0x2000 :: u16) = 2 ^ 13" by simp
  then show ?thesis by (simp only: and_exp_eq_0_iff_not_bit not_not)
qed

lemma bit13_test_32: "r AND 0x2000 \<noteq> 0 \<longleftrightarrow> bit r 13" for r :: u32
proof -
  have "(0x2000 :: u32) = 2 ^ 13" by simp
  then show ?thesis by (simp only: and_exp_eq_0_iff_not_bit not_not)
qed

lemma bit_0x2757: "n < 14 \<Longrightarrow> bit (0x2757 :: u32) n = bit (0x2757 :: u16) n"
proof -
  assume n: "n < 14"
  have "bit (ucast (0x2757 :: u16) :: u32) n = bit (0x2757 :: u16) n"
    by (subst bit_ucast_iff) (use n in simp)
  then show ?thesis by simp
qed

lemma bit_times2_16: "m < 16 \<Longrightarrow> bit (r * 2) m \<longleftrightarrow> m \<noteq> 0 \<and> bit r (m - 1)" for r :: u16
  by (simp add: mult.commute [of r 2] bit_double_iff)

lemma bit_ftx_bit:
  "n < 14 \<Longrightarrow> bit (ftx_bit r) n \<longleftrightarrow> ((n \<noteq> 0 \<and> bit r (n - 1)) \<noteq> (bit r 13 \<and> bit (0x2757 :: u16) n))"
  unfolding ftx_bit_def bit13_test_16 by (auto simp: bit_xor_iff bit_times2_16)

lemma bit_ft8_bit:
  "n < 32 \<Longrightarrow> bit (crc_bit 0x2000 0x3FFF 0x2757 r) n \<longleftrightarrow>
    n < 14 \<and> ((n \<noteq> 0 \<and> bit r (n - 1)) \<noteq> (bit r 13 \<and> bit (0x2757 :: u16) n))"
  unfolding crc_bit_def bit13_test_32 mask14
  by (auto simp: bit_and_iff bit_xor_iff bit_mask_iff bit_times2 bit_0x2757)

lemma ftx_rel_bit:
  assumes "ftx_rel rem reg"
  shows "ftx_rel (ftx_bit rem) (crc_bit 0x2000 0x3FFF 0x2757 reg)"
  unfolding ftx_rel_def
proof (intro allI)
  fix n
  let ?c = "crc_bit 0x2000 0x3FFF 0x2757 reg"
  from assms have bits: "bit reg (n - 1) = (n - 1 < 14 \<and> bit rem (n - 1))" "bit reg 13 = bit rem 13"
    by (simp_all add: ftx_rel_def)
  show "bit ?c n = (n < 14 \<and> bit (ftx_bit rem) n)"
  proof (cases "n < 14")
    case True
    with bits show ?thesis by (auto simp: bit_ftx_bit bit_ft8_bit)
  next
    case False
    then show ?thesis using bit_ft8_bit [of n reg] by (cases "n < 32") (auto dest: bit_imp_le_length)
  qed
qed

lemma ftx_rel_bits:
  "ftx_rel rem reg \<Longrightarrow> ftx_rel ((ftx_bit ^^ k) rem) ((crc_bit 0x2000 0x3FFF 0x2757 ^^ k) reg)"
  by (induction k) (simp_all add: ftx_rel_bit)

lemma ftx_rel_byte:
  assumes "ftx_rel rem reg"
  shows "ftx_rel ((ftx_bit ^^ 8) (rem XOR push_bit 6 (ucast b))) (crc_byte crc14_ft8 reg b)"
  unfolding crc_byte_ft8
proof (rule ftx_rel_bits)
  show "ftx_rel (rem XOR push_bit 6 (ucast b)) (reg XOR (push_bit 6 (ucast b) AND 0x3FFF))"
    unfolding ftx_rel_def mask14
  proof (intro allI)
    fix n
    from assms have n: "bit reg n = (n < 14 \<and> bit rem n)" by (simp add: ftx_rel_def)
    have "n < 14 \<Longrightarrow> n - 6 < 16 \<and> n - 6 < 32" by auto
    then show "bit (reg XOR (push_bit 6 (ucast b) AND mask 14)) n =
        (n < 14 \<and> bit (rem XOR push_bit 6 (ucast b)) n)"
      by (cases "n < 14")
        (simp_all add: n bit_xor_iff bit_and_iff bit_mask_iff bit_push_bit_iff bit_ucast_iff)
  qed
qed

lemma ftx_loop_rest:
  "n \<le> 7 \<Longrightarrow> ftx_loop message (n + k) (8 * Suc j - n) jb r =
    ftx_loop message k (8 * Suc j) jb ((ftx_bit ^^ n) r)"
proof (induction n arbitrary: r)
  case (Suc n)
  have "(8 * Suc j - Suc n) mod 8 \<noteq> 0" using Suc.prems by presburger
  moreover have "8 * Suc j - Suc n + 1 = 8 * Suc j - n" using Suc.prems by simp
  ultimately show ?case using Suc by (simp add: funpow_swap1)
qed simp

lemma ftx_loop_byte:
  assumes "j < length message"
  shows "ftx_loop message (8 + k) (8 * j) j r =
    ftx_loop message k (8 * Suc j) (Suc j) ((ftx_bit ^^ 8) (r XOR push_bit 6 (ucast (message ! j))))"
proof -
  have step: "ftx_loop message (Suc m) (8 * j) j r =
    ftx_loop message m (8 * Suc j - 7) (Suc j) (ftx_bit (r XOR push_bit 6 (ucast (message ! j))))"
    for m using assms by simp
  have "8 + k = Suc (7 + k)" by simp
  then have "ftx_loop message (8 + k) (8 * j) j r =
    ftx_loop message (7 + k) (8 * Suc j - 7) (Suc j) (ftx_bit (r XOR push_bit 6 (ucast (message ! j))))"
    by (simp only: step)
  also have "\<dots> = ftx_loop message k (8 * Suc j) (Suc j)
      ((ftx_bit ^^ 7) (ftx_bit (r XOR push_bit 6 (ucast (message ! j)))))"
    by (rule ftx_loop_rest) simp
  also have "(ftx_bit ^^ 7) (ftx_bit (r XOR push_bit 6 (ucast (message ! j)))) =
      (ftx_bit ^^ Suc 7) (r XOR push_bit 6 (ucast (message ! j)))"
    by (simp only: funpow_Suc_right o_apply)
  finally show ?thesis by simp
qed

lemma ftx_loop_bytes:
  assumes "ftx_rel r reg" and "j + m = length message"
  shows "\<exists>r'. ftx_loop message (8 * m) (8 * j) j r = Some r' \<and>
    ftx_rel r' (foldl (crc_byte crc14_ft8) reg (drop j message))"
  using assms
proof (induction m arbitrary: j r reg)
  case (Suc m)
  then have j: "j < length message" by simp
  then have "drop j message = message ! j # drop (Suc j) message"
    by (rule Cons_nth_drop_Suc [symmetric])
  moreover have "8 * Suc m = 8 + 8 * m" by simp
  ultimately show ?case
    using Suc.IH [OF ftx_rel_byte [OF Suc.prems(1)], of "Suc j" "message ! j"] Suc.prems(2)
    by (simp only: ftx_loop_byte [OF j] foldl_Cons)
qed simp

text \<open>
  on whole bytes the FT8 routine agrees with the generic CRC under the FT8 parameters,
  and never indexes past the message.
\<close>

theorem ftx_crc_is_crc14:
  "map_option (ucast :: u16 \<Rightarrow> u32) (ftx_compute_crc message (8 * length message)) =
    Some (crc crc14_ft8 message)"
proof -
  have "ftx_rel 0 0" by (simp add: ftx_rel_def)
  from ftx_loop_bytes [OF this, of 0 "length message" message]
  obtain r where r: "ftx_loop message (8 * length message) 0 0 0 = Some r"
    "ftx_rel r (foldl (crc_byte crc14_ft8) 0 message)" by auto
  have "(ucast (r AND 0x3FFF) :: u32) = foldl (crc_byte crc14_ft8) 0 message AND 0x3FFF"
    unfolding mask14
  proof (rule u32_eqI)
    fix n :: nat assume n: "n < 32"
    from r(2) have "bit (foldl (crc_byte crc14_ft8) 0 message) n = (n < 14 \<and> bit r n)"
      by (simp add: ftx_rel_def)
    with n show "bit (ucast (r AND mask 14) :: u32) n =
        bit (foldl (crc_byte crc14_ft8) 0 message AND mask 14) n"
      by (auto simp: bit_ucast_iff bit_and_iff bit_mask_iff)
  qed
  with r show ?thesis by (simp add: ftx_compute_crc_def crc_ft8)
qed

end
