(* ===== verification/LineCodes.thy ===== *)
theory LineCodes
  imports Prelude
begin

text \<open>
  Line coding and scrambling: NRZI (\<open>fec/nrzi.rs\<close>) and the three scramblers of
  \<open>fec/scramble.rs\<close>. Each coding step is an instance of the \<open>stream_code\<close> contract;
  the self-synchronising scrambler has, beyond that, a bounded memory of channel errors.
\<close>

unbundle bit_operations_syntax

section \<open>NRZI\<close>

definition nrzi_enc_step :: "u8 \<Rightarrow> u8 \<Rightarrow> u8 \<times> u8" where
  "nrzi_enc_step level b = (let level1 = (if b = 0 then level XOR 1 else level) in (level1, level1))"

definition nrzi_encode :: "u8 list \<Rightarrow> u8 list" where
  "nrzi_encode bs = snd (map_state nrzi_enc_step 0 bs)"

definition nrzi_dec_step :: "u8 \<Rightarrow> u8 \<Rightarrow> u8 \<times> u8" where
  "nrzi_dec_step prev lvl = (lvl, if lvl = prev then 1 else 0)"

definition nrzi_decode :: "u8 list \<Rightarrow> u8 list" where
  "nrzi_decode levels = snd (map_state nrzi_dec_step 0 levels)"

lemma nrzi_hand_kat: "nrzi_encode [0, 1, 1, 0, 1] = [1, 1, 1, 0, 0]"
  by (simp add: nrzi_encode_def nrzi_enc_step_def)

lemma nrzi_step_inverse:
  "bits01 bs \<Longrightarrow> snd (map_state nrzi_dec_step level (snd (map_state nrzi_enc_step level bs))) = bs"
proof (induction bs arbitrary: level)
  case (Cons b bs)
  let ?l = "if b = 0 then level XOR 1 else level"
  have "level XOR 1 \<noteq> level" by (metis xor_cancel_left xor.right_neutral zero_neq_one)
  with Cons.IH [of ?l] Cons.prems show ?case
    by (auto simp: nrzi_enc_step_def nrzi_dec_step_def split_beta Let_def)
qed simp

lemma nrzi_levels01:
  "level = 0 \<or> level = 1 \<Longrightarrow> bits01 (snd (map_state nrzi_enc_step level bs))"
  by (induction bs arbitrary: level) (auto simp: nrzi_enc_step_def split_beta)

lemma length_nrzi_encode [simp]: "length (nrzi_encode bs) = length bs"
  by (simp add: nrzi_encode_def)

interpretation nrzi: stream_code nrzi_encode nrzi_decode bits01
  by unfold_locales
    (simp_all add: nrzi_encode_def nrzi_decode_def nrzi_step_inverse nrzi_levels01)

text \<open>
  Only level changes matter: two streams of levels that are complements of each other decode
  to the same bits, the first bit apart.
\<close>

lemma nrzi_decode_shift:
  "snd (map_state nrzi_dec_step (prev XOR 1) (map (\<lambda>l. l XOR 1) ls)) =
    snd (map_state nrzi_dec_step prev ls)"
proof (induction ls arbitrary: prev)
  case (Cons l ls)
  have "(l XOR 1 = prev XOR 1) = (l = prev)" by (metis xor_cancel_right)
  with Cons.IH [of l] show ?case by (simp add: nrzi_dec_step_def split_beta)
qed simp

lemma map_state_nrzi_first:
  "drop 1 (snd (map_state nrzi_dec_step p ls)) = drop 1 (snd (map_state nrzi_dec_step q ls))"
  by (cases ls) (simp_all add: nrzi_dec_step_def split_beta)

text \<open>
  NRZI decoding inverts encoding, and inverting the polarity of the line changes at most
  the first decoded bit.
\<close>

theorem nrzi_roundtrip_polarity:
  assumes "bits01 bs"
  shows "nrzi_decode (nrzi_encode bs) = bs \<and>
    drop 1 (nrzi_decode (map (\<lambda>l. l XOR 1) (nrzi_encode bs))) = drop 1 bs"
proof -
  let ?ls = "nrzi_encode bs"
  have "drop 1 (nrzi_decode (map (\<lambda>l. l XOR 1) ?ls)) =
      drop 1 (snd (map_state nrzi_dec_step (0 XOR 1) (map (\<lambda>l. l XOR 1) ?ls)))"
    unfolding nrzi_decode_def by (rule map_state_nrzi_first)
  also have "\<dots> = drop 1 (nrzi_decode ?ls)"
    by (simp only: nrzi_decode_shift nrzi_decode_def)
  finally show ?thesis using nrzi.dec_enc [OF assms] by simp
qed

lemma nrzi_roundtrip_polarity_witness:
  "nrzi_decode (nrzi_encode [0, 1, 1, 0]) = [0, 1, 1, 0] \<and>
    drop 1 (nrzi_decode (map (\<lambda>l. l XOR 1) (nrzi_encode [0, 1, 1, 0]))) = [1, 1, 0]"
  using nrzi_roundtrip_polarity [of "[0, 1, 1, 0]"] by simp

section \<open>The self-synchronising scrambler\<close>

text \<open>The state is \<open>shift\<close>, the last 17 channel bits, most recent lowest.\<close>

type_synonym self_sync = u32

definition tap12 :: u32 where "tap12 = push_bit 11 1"
definition tap17 :: u32 where "tap17 = push_bit 16 1"
definition mask17 :: u32 where "mask17 = push_bit 17 1 - 1"

definition self_sync_new :: self_sync where "self_sync_new = 0"

definition self_sync_taps :: "self_sync \<Rightarrow> u8" where
  "self_sync_taps shift =
     (let a = (if shift AND tap12 \<noteq> 0 then 1 else 0 :: u32);
          b = (if shift AND tap17 \<noteq> 0 then 1 else 0)
      in ucast (a XOR b))"

definition scramble_bit :: "self_sync \<Rightarrow> u8 \<Rightarrow> self_sync \<times> u8" where
  "scramble_bit shift data =
     (let out = (data AND 1) XOR self_sync_taps shift
      in ((push_bit 1 shift OR ucast out) AND mask17, out))"

definition descramble_bit :: "self_sync \<Rightarrow> u8 \<Rightarrow> self_sync \<times> u8" where
  "descramble_bit shift chan =
     (let data = (chan AND 1) XOR self_sync_taps shift
      in ((push_bit 1 shift OR ucast (chan AND 1)) AND mask17, data))"

definition scramble :: "self_sync \<Rightarrow> u8 list \<Rightarrow> self_sync \<times> u8 list" where
  "scramble = map_state scramble_bit"

definition descramble :: "self_sync \<Rightarrow> u8 list \<Rightarrow> self_sync \<times> u8 list" where
  "descramble = map_state descramble_bit"

lemma taps01: "self_sync_taps s = 0 \<or> self_sync_taps s = 1"
  by (simp add: self_sync_taps_def)

lemma taps_bits: "self_sync_taps s = (if bit s 11 \<noteq> bit s 16 then 1 else 0)"
proof -
  have "s AND tap12 \<noteq> 0 \<longleftrightarrow> bit s 11" "s AND tap17 \<noteq> 0 \<longleftrightarrow> bit s 16"
    unfolding tap12_def tap17_def push_bit_of_1 by (simp_all only: and_exp_eq_0_iff_not_bit not_not)
  then show ?thesis by (simp add: self_sync_taps_def)
qed

lemma scramble_bit01: "snd (scramble_bit s b) = 0 \<or> snd (scramble_bit s b) = 1"
  using and_1_cases [of b] taps01 [of s] by (auto simp: scramble_bit_def Let_def)

lemma descramble_inverts_bit:
  assumes "b = 0 \<or> b = 1"
  shows "descramble_bit s (snd (scramble_bit s b)) = (fst (scramble_bit s b), b)"
  using assms taps01 [of s] by (auto simp: descramble_bit_def scramble_bit_def)

lemma descramble_scramble: "bits01 bs \<Longrightarrow> snd (descramble s (snd (scramble s bs))) = bs"
proof (induction bs arbitrary: s)
  case (Cons b bs)
  from Cons.prems have "b = 0 \<or> b = 1" by simp
  from descramble_inverts_bit [OF this, of s] Cons.IH [of "fst (scramble_bit s b)"] Cons.prems
  show ?case by (simp add: scramble_def descramble_def split_beta)
qed (simp add: scramble_def descramble_def)

lemma scramble01: "bits01 (snd (scramble s bs))"
proof (induction bs arbitrary: s)
  case (Cons b bs)
  from Cons.IH [of "fst (scramble_bit s b)"] scramble_bit01 [of s b] show ?case
    by (simp add: scramble_def split_beta)
qed (simp add: scramble_def)

interpretation g3ruh: stream_code "\<lambda>bs. snd (scramble self_sync_new bs)"
    "\<lambda>bs. snd (descramble self_sync_new bs)" bits01
  by unfold_locales (simp_all add: descramble_scramble scramble01, simp add: scramble_def)

text \<open>Scrambled bits sent as NRZI levels: the contract composes.\<close>

interpretation g3ruh_nrzi: stream_code_pair
    "\<lambda>bs. snd (scramble self_sync_new bs)" "\<lambda>bs. snd (descramble self_sync_new bs)"
    nrzi_encode nrzi_decode bits01 ..

text \<open>
  Two descramblers agree on their most recent \<open>k\<close> channel bits; a common channel bit extends
  the agreement, and 17 bits are all that the taps read.
\<close>

definition recent_agree :: "nat \<Rightarrow> self_sync \<Rightarrow> self_sync \<Rightarrow> bool" where
  "recent_agree k s t \<longleftrightarrow> (\<forall>n<min k 17. bit s n = bit t n)"

lemma mask17_mask: "mask17 = mask 17"
  by (simp add: mask17_def mask_eq_exp_minus_1)

lemma bit_shift_reg:
  assumes "n < 32"
  shows "bit (fst (descramble_bit s c)) n \<longleftrightarrow> n < 17 \<and> (if n = 0 then bit c 0 else bit s (n - 1))"
proof -
  have "bit (s * 2) n = (n \<noteq> 0 \<and> bit s (n - 1))"
    using assms by (simp add: mult.commute [of s 2] bit_double_iff)
  then show ?thesis using assms unfolding descramble_bit_def mask17_mask Let_def
    by (auto simp: bit_and_iff bit_or_iff bit_mask_iff bit_ucast_iff bit_1_iff)
qed

lemma descramble_step_agree:
  assumes "recent_agree k s t"
  shows "recent_agree (Suc k) (fst (descramble_bit s c)) (fst (descramble_bit t c))"
  using assms unfolding recent_agree_def by (auto simp: bit_shift_reg gr0_conv_Suc)

lemma descramble_agree:
  "recent_agree k s t \<Longrightarrow>
    recent_agree (k + length cs) (fst (descramble s cs)) (fst (descramble t cs))"
proof (induction cs arbitrary: k s t)
  case (Cons c cs)
  from Cons.IH [OF descramble_step_agree [OF Cons.prems, of c]]
  show ?case by (simp add: descramble_def split_beta)
qed (simp add: descramble_def)

lemma taps_agree: "recent_agree 17 s t \<Longrightarrow> self_sync_taps s = self_sync_taps t"
  by (simp add: recent_agree_def taps_bits)

lemma descramble_same:
  "recent_agree 17 s t \<Longrightarrow> snd (descramble s cs) = snd (descramble t cs)"
proof (induction cs arbitrary: s t)
  case (Cons c cs)
  from descramble_step_agree [OF Cons.prems, of c]
  have "recent_agree 17 (fst (descramble_bit s c)) (fst (descramble_bit t c))"
    by (simp add: recent_agree_def)
  from Cons.IH [OF this] taps_agree [OF Cons.prems] show ?case
    by (simp add: descramble_def descramble_bit_def split_beta Let_def)
qed (simp add: descramble_def)

lemma length_descramble [simp]: "length (snd (descramble s cs)) = length cs"
  by (simp add: descramble_def)

lemma snd_descramble_append:
  "snd (descramble s (xs @ ys)) = snd (descramble s xs) @ snd (descramble (fst (descramble s xs)) ys)"
  by (simp add: descramble_def map_state_append split_beta)

lemma fst_descramble_append:
  "fst (descramble s (xs @ ys)) = fst (descramble (fst (descramble s xs)) ys)"
  by (simp add: descramble_def map_state_append split_beta)

lemma drop_descramble:
  "length xs = n \<Longrightarrow>
    drop n (snd (descramble s (xs @ ys))) = snd (descramble (fst (descramble s xs)) ys)"
  by (simp add: snd_descramble_append)

text \<open>
  the descrambler needs no seed and forgets channel errors: started in any state, and fed
  a stream whose first \<open>k\<close> symbols are arbitrarily corrupted, it recovers every data bit
  from position \<open>k + 17\<close> on.
\<close>

theorem descrambler_resynchronises:
  assumes "bits01 bs" and "length noise = k" and "k \<le> length bs"
  shows "drop (k + 17) (snd (descramble s (noise @ drop k (snd (scramble s0 bs))))) =
    drop (k + 17) bs"
proof -
  define chan where "chan = snd (scramble s0 bs)"
  have len: "length chan = length bs" by (simp add: chan_def scramble_def)
  let ?rest = "drop k chan"
  let ?s = "fst (descramble s noise)"
  let ?t = "fst (descramble s0 (take k chan))"
  let ?r1 = "take 17 ?rest" and ?r2 = "drop 17 ?rest"
  have "recent_agree 0 ?s ?t" by (simp add: recent_agree_def)
  from descramble_agree [OF this, of ?r1]
  have agree: "length ?r1 = 17 \<Longrightarrow>
      recent_agree 17 (fst (descramble ?s ?r1)) (fst (descramble ?t ?r1))" by simp
  have "snd (descramble (fst (descramble ?s ?r1)) ?r2) = snd (descramble (fst (descramble ?t ?r1)) ?r2)"
  proof (cases "length ?r1 = 17")
    case True
    then show ?thesis by (intro descramble_same agree)
  next
    case False
    then have "?r2 = []" by simp
    then show ?thesis by (simp add: descramble_def)
  qed
  then have same: "snd (descramble (fst (descramble s (noise @ ?r1))) ?r2) =
      snd (descramble (fst (descramble s0 (take k chan @ ?r1))) ?r2)"
    by (simp only: fst_descramble_append)
  have split: "noise @ drop k chan = (noise @ ?r1) @ ?r2" "chan = (take k chan @ ?r1) @ ?r2"
    by (simp_all only: append_assoc append_take_drop_id)
  show ?thesis
  proof (cases "length ?r1 = 17")
    case True
    then have lens: "length (noise @ ?r1) = k + 17" "length (take k chan @ ?r1) = k + 17"
      using assms(2,3) len by auto
    have "drop (k + 17) (snd (descramble s (noise @ drop k chan))) =
        snd (descramble (fst (descramble s (noise @ ?r1))) ?r2)"
      by (simp only: split(1) drop_descramble [OF lens(1)])
    also have "\<dots> = drop (k + 17) (snd (descramble s0 chan))"
      using drop_descramble [OF lens(2), of s0 ?r2] by (simp only: same split(2) [symmetric])
    also have "snd (descramble s0 chan) = bs"
      unfolding chan_def by (rule descramble_scramble [OF assms(1)])
    finally show ?thesis by (simp add: chan_def)
  next
    case False
    with assms len show ?thesis by (simp add: chan_def)
  qed
qed

lemma descrambler_resynchronises_witness:
  "drop (2 + 17) (snd (descramble 0x15555 ([1, 1] @
      drop 2 (snd (scramble 0 (replicate 30 1)))))) = drop (2 + 17) (replicate 30 (1 :: u8))"
  by (rule descrambler_resynchronises) (auto simp: bits01_def)

section \<open>Additive scramblers\<close>

text \<open>XOR with a keystream, bit by bit (\<open>apply\<close> of both additive scramblers).\<close>

definition additive_step :: "('s \<Rightarrow> 's \<times> u8) \<Rightarrow> 's \<Rightarrow> u8 \<Rightarrow> 's \<times> u8" where
  "additive_step next_key st b = (let (st1, k) = next_key st in (st1, (b AND 1) XOR k))"

lemma additive_involutive:
  assumes key: "\<And>st. snd (next_key st) = 0 \<or> snd (next_key st) = 1" and "bits01 bs"
  shows "snd (map_state (additive_step next_key) st
    (snd (map_state (additive_step next_key) st bs))) = bs"
  using assms(2)
proof (induction bs arbitrary: st)
  case (Cons b bs)
  from Cons.IH [of "fst (next_key st)"] Cons.prems key [of st] show ?case
    by (auto simp: additive_step_def split_beta)
qed simp

lemma additive01:
  assumes key: "\<And>st. snd (next_key st) = 0 \<or> snd (next_key st) = 1"
  shows "bits01 (snd (map_state (additive_step next_key) st bs))"
proof (induction bs arbitrary: st)
  case (Cons b bs)
  from Cons.IH [of "fst (next_key st)"] key [of st] and_1_cases [of b] show ?case
    by (auto simp: additive_step_def split_beta)
qed simp

subsection \<open>The IL2P frame-reset scrambler\<close>

definition frame_reset_seed :: u16 where "frame_reset_seed = 0x1FF"

definition frame_reset_next_key :: "u16 \<Rightarrow> u16 \<times> u8" where
  "frame_reset_next_key state =
     (let b9 = drop_bit 8 state AND 1;
          b4 = drop_bit 3 state AND 1;
          fb = b9 XOR b4
      in ((push_bit 1 state OR fb) AND 0x1FF, ucast b9))"

definition frame_reset_apply :: "u16 \<Rightarrow> u8 list \<Rightarrow> u16 \<times> u8 list" where
  "frame_reset_apply = map_state (additive_step frame_reset_next_key)"

lemma frame_reset_key01:
  "snd (frame_reset_next_key st) = 0 \<or> snd (frame_reset_next_key st) = 1"
  using and_1_cases [of "drop_bit 8 st"] by (auto simp: frame_reset_next_key_def Let_def)

interpretation il2p_scrambler: stream_code
    "\<lambda>bs. snd (frame_reset_apply frame_reset_seed bs)"
    "\<lambda>bs. snd (frame_reset_apply frame_reset_seed bs)" bits01
  unfolding frame_reset_apply_def
  by unfold_locales
    (simp_all add: additive_involutive additive01 frame_reset_key01)

subsection \<open>The generic PRBS whitener\<close>

definition pop_count :: "'a::len word \<Rightarrow> nat" where
  "pop_count w = length (filter (bit w) [0..<LENGTH('a)])"

record additive_prbs =
  prbs_poly :: u32
  prbs_state :: u32
  prbs_width :: u8
  prbs_seed :: u32

definition prbs_new :: "u32 \<Rightarrow> u32 \<Rightarrow> u8 \<Rightarrow> additive_prbs" where
  "prbs_new poly seed width =
     (let msk = push_bit (unat width) 1 - 1
      in \<lparr>prbs_poly = poly AND msk, prbs_state = max (seed AND msk) 1, prbs_width = width,
          prbs_seed = seed AND msk\<rparr>)"

definition prbs_m17 :: additive_prbs where
  "prbs_m17 = prbs_new (push_bit 8 1 OR push_bit 4 1) (push_bit 9 1 - 1) 9"

definition prbs_reset :: "additive_prbs \<Rightarrow> additive_prbs" where
  "prbs_reset p = p\<lparr>prbs_state := max (prbs_seed p) 1\<rparr>"

definition prbs_next_key :: "additive_prbs \<Rightarrow> additive_prbs \<times> u8" where
  "prbs_next_key p =
     (let out = ucast (drop_bit (unat (prbs_width p - 1)) (prbs_state p) AND 1);
          fb = word_of_nat (pop_count (prbs_state p AND prbs_poly p)) AND 1;
          msk = push_bit (unat (prbs_width p)) 1 - 1
      in (p\<lparr>prbs_state := (push_bit 1 (prbs_state p) OR fb) AND msk\<rparr>, out))"

definition prbs_apply :: "additive_prbs \<Rightarrow> u8 list \<Rightarrow> additive_prbs \<times> u8 list" where
  "prbs_apply = map_state (additive_step prbs_next_key)"

lemma prbs_key01: "snd (prbs_next_key p) = 0 \<or> snd (prbs_next_key p) = 1"
  using and_1_cases [of "drop_bit (unat (prbs_width p - 1)) (prbs_state p)"]
  by (auto simp: prbs_next_key_def Let_def)

interpretation m17_whitener: stream_code
    "\<lambda>bs. snd (prbs_apply prbs_m17 bs)" "\<lambda>bs. snd (prbs_apply prbs_m17 bs)" bits01
  unfolding prbs_apply_def
  by unfold_locales (simp_all add: additive_involutive additive01 prbs_key01)

lemma prbs_step_fields:
  "prbs_reset (fst (additive_step prbs_next_key p b)) = prbs_reset p"
  by (simp add: additive_step_def prbs_next_key_def prbs_reset_def Let_def split_beta)

lemma prbs_apply_reset: "prbs_reset (fst (prbs_apply p bs)) = prbs_reset p"
proof (induction bs arbitrary: p)
  case (Cons b bs)
  from Cons.IH [of "fst (additive_step prbs_next_key p b)"] show ?case
    by (simp add: prbs_apply_def split_beta prbs_step_fields)
qed (simp add: prbs_apply_def)

lemma prbs_reset_new: "prbs_reset (prbs_new poly seed width) = prbs_new poly seed width"
  by (simp add: prbs_reset_def prbs_new_def Let_def)

text \<open>
  for any polynomial, seed and width the whitener undoes itself once reset, however long
  it ran before: the receiver and the transmitter share one operation.
\<close>

theorem whitener_undoes_itself:
  assumes "bits01 bs"
  shows "snd (prbs_apply (prbs_reset (fst (prbs_apply (prbs_new poly seed width) earlier)))
    (snd (prbs_apply (prbs_new poly seed width) bs))) = bs"
  unfolding prbs_apply_reset prbs_reset_new
  unfolding prbs_apply_def by (rule additive_involutive [OF prbs_key01 assms])

lemma whitener_undoes_itself_witness:
  "snd (prbs_apply (prbs_reset (fst (prbs_apply (prbs_new 0x110 0x1FF 9) [1, 0])))
    (snd (prbs_apply (prbs_new 0x110 0x1FF 9) [0, 1, 1]))) = [0, 1, 1]"
  by (rule whitener_undoes_itself) simp

end
