(* ===== verification/Hdlc.thy ===== *)
theory Hdlc
  imports Crc LineCodes
begin

text \<open>
  HDLC framing (\<open>framing/hdlc.rs\<close>): flags, bit stuffing and the CRC-16/X.25 check sequence.
  The receiver is one step function over its five mutable variables. The lemmas track the
  run of ones at the end of the channel, which decides both stuffing and flag detection, and
  lead to a round trip for whole streams of frames behind arbitrary noise.
\<close>

unbundle bit_operations_syntax

section \<open>Transmitter\<close>

definition hdlc_flag :: u8 where "hdlc_flag = 0x7E"

definition with_fcs :: "u8 list \<Rightarrow> u8 list" where
  "with_fcs payload =
     (let fcs = ucast (crc crc16_x25 payload) :: u16
      in payload @ [ucast (fcs AND 0xFF), ucast (drop_bit 8 fcs)])"

definition push_byte_lsb :: "u8 list \<Rightarrow> u8 \<Rightarrow> u8 list" where
  "push_byte_lsb bs b = bs @ byte_bits_lsb b"

text \<open>One data bit on the wire; the state is the counter \<open>ones\<close>.\<close>

definition stuff_step :: "u8 \<Rightarrow> u8 \<Rightarrow> u8 \<times> u8 list" where
  "stuff_step ones b =
     (if b = 1 then (if ones + 1 = 5 then (0, [b, 0]) else (ones + 1, [b])) else (0, [b]))"

definition hdlc_frame :: "u8 list \<Rightarrow> u8 list" where
  "hdlc_frame payload =
     (let data = with_fcs payload;
          opened = push_byte_lsb [] hdlc_flag;
          body = snd (transduce stuff_step 0 (concat (map byte_bits_lsb data)))
      in push_byte_lsb (opened @ body) hdlc_flag)"

section \<open>Receiver\<close>

record hdlc_rx =
  rx_window :: u8
  rx_filled :: nat
  rx_collecting :: bool
  rx_ones :: u8
  rx_bits :: "u8 list"

definition hdlc_rx_new :: hdlc_rx where
  "hdlc_rx_new = \<lparr>rx_window = 0, rx_filled = 0, rx_collecting = False, rx_ones = 0, rx_bits = []\<rparr>"

fun chunks8 :: "'a list \<Rightarrow> 'a list list" where
  "chunks8 [] = []"
| "chunks8 (x # xs) = take 8 (x # xs) # chunks8 (drop 8 (x # xs))"

definition pack_lsb :: "u8 list \<Rightarrow> u8" where
  "pack_lsb chunk = foldl (\<lambda>b (i, bt). b OR push_bit i bt) 0 (enumerate 0 chunk)"

text \<open>\<open>finish_frame\<close> returns the frames it pushes (it always clears the bits it is given).\<close>

definition finish_frame :: "u8 list \<Rightarrow> u8 list list" where
  "finish_frame payload_bits =
     (let nbytes = length payload_bits div 8
      in if nbytes < 3 then []
         else (let bytes = map pack_lsb (chunks8 (take (nbytes * 8) payload_bits));
                   split = length bytes - 2;
                   payload = take split bytes;
                   got = (ucast (bytes ! split) :: u16) OR push_bit 8 (ucast (bytes ! (split + 1)));
                   want = ucast (crc crc16_x25 payload)
               in if got = want then [payload] else []))"

text \<open>The body of the scan loop. The counter \<open>ones\<close> is a \<open>u8\<close>: it wraps after 255.\<close>

definition shift_window :: "u8 \<Rightarrow> u8 \<Rightarrow> u8" where
  "shift_window w b = drop_bit 1 w OR push_bit 7 b"

definition deframe_step :: "hdlc_rx \<Rightarrow> u8 \<Rightarrow> hdlc_rx \<times> u8 list list" where
  "deframe_step st b =
     (let window = shift_window (rx_window st) b;
          filled = rx_filled st + 1;
          st1 = st\<lparr>rx_window := window, rx_filled := filled\<rparr>
      in if filled \<ge> 8 \<and> window = hdlc_flag then
           (st1\<lparr>rx_collecting := True, rx_bits := [], rx_ones := 0\<rparr>,
            if rx_collecting st \<and> length (rx_bits st) \<ge> 7
            then finish_frame (take (length (rx_bits st) - 7) (rx_bits st)) else [])
         else if rx_collecting st then
           (if rx_ones st = 5 \<and> b = 0 then (st1\<lparr>rx_ones := 0\<rparr>, [])
            else (st1\<lparr>rx_bits := rx_bits st @ [b],
                      rx_ones := (if b = 1 then rx_ones st + 1 else 0)\<rparr>, []))
         else (st1, []))"

definition hdlc_deframe :: "u8 list \<Rightarrow> u8 list list" where
  "hdlc_deframe bs = snd (transduce deframe_step hdlc_rx_new bs)"

section \<open>Bytes and bits\<close>

lemma bit_and_1: "bit (w AND 1) n \<longleftrightarrow> n = 0 \<and> bit w 0" for w :: "'a::len word"
  by (auto simp: bit_and_iff bit_1_iff)

lemma byte_bits_lsb_list:
  "byte_bits_lsb b = [b AND 1, drop_bit 1 b AND 1, drop_bit 2 b AND 1, drop_bit 3 b AND 1,
     drop_bit 4 b AND 1, drop_bit 5 b AND 1, drop_bit 6 b AND 1, drop_bit 7 b AND 1]"
  by (simp add: byte_bits_lsb_def upt_rec eval_nat_numeral)

lemma bit_fold_pack:
  "n < 8 \<Longrightarrow> bit (foldl (\<lambda>b (i, bt). b OR push_bit i bt) b0 (enumerate k cs)) n \<longleftrightarrow>
     bit b0 n \<or> (\<exists>j<length cs. k + j \<le> n \<and> bit (cs ! j) (n - (k + j)))" for b0 :: u8
proof (induction cs arbitrary: b0 k)
  case (Cons c cs)
  have "(\<exists>j<length (c # cs). k + j \<le> n \<and> bit ((c # cs) ! j) (n - (k + j))) \<longleftrightarrow>
      (k \<le> n \<and> bit c (n - k)) \<or> (\<exists>j<length cs. Suc k + j \<le> n \<and> bit (cs ! j) (n - (Suc k + j)))"
    by (auto simp: less_Suc_eq_0_disj)
  with Cons.IH [OF Cons.prems, of "b0 OR push_bit k c" "Suc k"] Cons.prems show ?case
    by (auto simp: bit_or_iff bit_push_bit_iff)
qed simp

lemma pack_byte_bits [simp]: "pack_lsb (byte_bits_lsb b) = b"
proof (rule bit_word_eqI)
  fix n assume "n < LENGTH(8)"
  then have n: "n < 8" by simp
  have "bit (pack_lsb (byte_bits_lsb b)) n \<longleftrightarrow>
      (\<exists>j<8. j \<le> n \<and> n = j \<and> bit b j)"
    unfolding pack_lsb_def
    by (subst bit_fold_pack [OF n]) (auto simp: byte_bits_lsb_def bit_and_1 bit_drop_bit_eq)
  with n show "bit (pack_lsb (byte_bits_lsb b)) n = bit b n" by auto
qed

lemma chunks8_append: "length c = 8 \<Longrightarrow> chunks8 (c @ cs) = c # chunks8 cs"
  by (cases c) (simp_all add: take_Cons' drop_Cons')

lemma chunks8_bytes: "chunks8 (concat (map byte_bits_lsb bs)) = map byte_bits_lsb bs"
  by (induction bs) (simp_all add: chunks8_append)

lemma length_bits_of_bytes [simp]: "length (concat (map byte_bits_lsb bs)) = 8 * length bs"
  by (induction bs) simp_all

lemma bits01_of_bytes [simp]: "bits01 (concat (map byte_bits_lsb bs))"
  by (induction bs) simp_all

lemma fcs_halves:
  "(ucast (ucast (f AND 0xFF) :: u8) :: u16) OR push_bit 8 (ucast (ucast (drop_bit 8 f) :: u8)) = f"
  for f :: u16
proof (rule bit_word_eqI)
  fix n assume n: "n < LENGTH(16)"
  have m: "(0xFF :: u16) = mask 8" by (simp add: mask_eq_exp_minus_1)
  show "bit ((ucast (ucast (f AND 0xFF) :: u8) :: u16) OR
      push_bit 8 (ucast (ucast (drop_bit 8 f) :: u8))) n = bit f n"
    unfolding m using n by (cases "n < 8")
      (auto simp: bit_or_iff bit_push_bit_iff bit_ucast_iff bit_and_iff bit_mask_iff bit_drop_bit_eq)
qed

lemma length_with_fcs [simp]: "length (with_fcs p) = length p + 2"
  by (simp add: with_fcs_def Let_def)

lemma finish_frame_bytes:
  "finish_frame (concat (map byte_bits_lsb (with_fcs p))) = (if p = [] then [] else [p])"
proof (cases "p = []")
  case False
  then have "\<not> length p + 2 < 3" by (cases p) auto
  moreover have "map pack_lsb (map byte_bits_lsb bs) = bs" for bs by (induction bs) simp_all
  ultimately show ?thesis using False
    by (simp add: finish_frame_def Let_def chunks8_bytes del: map_map)
      (simp add: with_fcs_def Let_def nth_append fcs_halves)
qed (simp add: finish_frame_def)

section \<open>The run of ones at the end of the channel\<close>

text \<open>The window ends with exactly \<open>t\<close> ones: \<open>t\<close> high bits set, the next one clear.\<close>

definition trailing :: "u8 \<Rightarrow> nat \<Rightarrow> bool" where
  "trailing w t \<longleftrightarrow> t \<le> 7 \<and> (\<forall>i<t. bit w (7 - i)) \<and> \<not> bit w (7 - t)"

lemma bit_shift_window:
  "n < 8 \<Longrightarrow> bit (shift_window w b) n \<longleftrightarrow> (if n = 7 then bit b 0 else bit w (n + 1))"
  by (auto simp: shift_window_def bit_or_iff bit_drop_bit_eq bit_push_bit_iff dest: bit_imp_le_length)

lemma trailing_zero: "trailing (shift_window w 0) 0"
  by (simp add: trailing_def bit_shift_window)

lemma trailing_one:
  assumes "trailing w t" and "t < 7"
  shows "trailing (shift_window w 1) (Suc t)"
proof -
  have "bit (shift_window w 1) (7 - i)" if "i < Suc t" for i
  proof (cases i)
    case (Suc j)
    with that assms have "7 - i < 8" "7 - i \<noteq> 7" "7 - i + 1 = 7 - j" "bit w (7 - j)"
      by (auto simp: trailing_def)
    then show ?thesis by (simp add: bit_shift_window)
  qed (simp add: bit_shift_window)
  moreover have "\<not> bit (shift_window w 1) (7 - Suc t)"
  proof -
    from assms have "7 - Suc t < 8" "7 - Suc t \<noteq> 7" "7 - Suc t + 1 = 7 - t" "\<not> bit w (7 - t)"
      by (auto simp: trailing_def)
    then show ?thesis by (simp add: bit_shift_window)
  qed
  ultimately show ?thesis using assms(2) by (simp add: trailing_def)
qed

lemma bit_flag: "n < 8 \<Longrightarrow> bit hdlc_flag n \<longleftrightarrow> 1 \<le> n \<and> n \<le> 6"
proof -
  have "\<forall>n\<in>set [0..<8]. bit hdlc_flag n \<longleftrightarrow> 1 \<le> n \<and> n \<le> 6"
    unfolding hdlc_flag_def by code_simp
  then show "n < 8 \<Longrightarrow> ?thesis" by simp
qed

lemma one_never_closes: "shift_window w 1 \<noteq> hdlc_flag"
proof
  assume "shift_window w 1 = hdlc_flag"
  then have "bit (shift_window w 1) 7 = bit hdlc_flag 7" by (simp only:)
  then show False by (simp add: bit_shift_window bit_flag)
qed

lemma zero_closes_iff:
  assumes "trailing w t"
  shows "shift_window w 0 = hdlc_flag \<longleftrightarrow> t = 6"
proof
  assume eq: "shift_window w 0 = hdlc_flag"
  have bits: "bit w (n + 1) \<longleftrightarrow> 1 \<le> n" if "n < 7" for n
  proof -
    have "bit (shift_window w 0) n = bit hdlc_flag n" by (simp only: eq)
    with that show ?thesis by (simp add: bit_shift_window bit_flag)
  qed
  show "t = 6"
  proof (rule ccontr)
    assume "t \<noteq> 6"
    with assms have "t < 6 \<or> t = 7" by (auto simp: trailing_def)
    then show False
    proof
      assume "t < 6"
      then have "6 - t < 7" "1 \<le> 6 - t" "6 - t + 1 = 7 - t" by auto
      with bits [of "6 - t"] assms show False by (simp add: trailing_def)
    next
      assume "t = 7"
      moreover from assms have "\<forall>i<t. bit w (7 - i)" by (simp add: trailing_def)
      ultimately have "bit w (7 - 6)" by (auto dest: spec [of _ 6])
      with bits [of 0] show False by simp
    qed
  qed
next
  assume t: "t = 6"
  show "shift_window w 0 = hdlc_flag"
  proof (rule bit_word_eqI)
    fix n assume "n < LENGTH(8)"
    then have n: "n < 8" by simp
    have w: "i < 6 \<Longrightarrow> bit w (7 - i)" "\<not> bit w 1" for i
      using assms t by (auto simp: trailing_def)
    show "bit (shift_window w 0) n = bit hdlc_flag n"
    proof (cases "1 \<le> n \<and> n \<le> 6")
      case True
      then have "6 - n < 6" "7 - (6 - n) = n + 1" by auto
      with w(1) [of "6 - n"] True n show ?thesis by (simp add: bit_shift_window bit_flag)
    next
      case False
      with n w(2) show ?thesis by (cases "n = 0") (auto simp: bit_shift_window bit_flag)
    qed
  qed
qed

section \<open>Between two flags\<close>

text \<open>
  \<open>in_frame t os acc st\<close>: the receiver is collecting, has kept \<open>acc\<close>, counts \<open>os\<close> ones, and
  the channel ends in a run of \<open>t\<close> ones.
\<close>

definition in_frame :: "nat \<Rightarrow> u8 \<Rightarrow> u8 list \<Rightarrow> hdlc_rx \<Rightarrow> bool" where
  "in_frame t os acc st \<longleftrightarrow> rx_collecting st \<and> 8 \<le> rx_filled st \<and> rx_ones st = os \<and>
     rx_bits st = acc \<and> trailing (rx_window st) t"

lemma in_frame_one:
  assumes "in_frame t os acc st" and "t < 7"
  shows "in_frame (Suc t) (os + 1) (acc @ [1]) (fst (deframe_step st 1)) \<and> snd (deframe_step st 1) = []"
  using assms by (auto simp: in_frame_def deframe_step_def Let_def one_never_closes trailing_one)

lemma in_frame_zero:
  assumes "in_frame t os acc st" and "t \<noteq> 6"
  shows "in_frame 0 0 (if os = 5 then acc else acc @ [0]) (fst (deframe_step st 0)) \<and>
    snd (deframe_step st 0) = []"
  using assms by (auto simp: in_frame_def deframe_step_def Let_def zero_closes_iff trailing_zero)

lemma in_frame_close:
  assumes "in_frame 6 os acc st"
  shows "in_frame 0 0 [] (fst (deframe_step st 0)) \<and>
    snd (deframe_step st 0) = (if length acc \<ge> 7 then finish_frame (take (length acc - 7) acc) else [])"
  using assms zero_closes_iff [of "rx_window st" 6] trailing_zero [of "rx_window st"]
  by (auto simp: in_frame_def deframe_step_def Let_def)

text \<open>At rest, between data bits, the counters of both ends agree with the run, below five.\<close>

definition at_rest :: "u8 \<Rightarrow> u8 list \<Rightarrow> hdlc_rx \<Rightarrow> bool" where
  "at_rest os acc st \<longleftrightarrow> unat os < 5 \<and> in_frame (unat os) os acc st"

lemma ones_cases:
  assumes "unat (os :: u8) < 5"
  shows "os \<in> {0, 1, 2, 3, 4}"
proof -
  from assms have "unat os \<in> {0, 1, 2, 3, 4}" by auto
  then show ?thesis by (auto simp: word_unat_eq_iff)
qed

lemma data_bit:
  assumes rest: "at_rest os acc st" and b: "b = 0 \<or> b = 1"
  shows "at_rest (fst (stuff_step os b)) (acc @ [b])
      (fst (transduce deframe_step st (snd (stuff_step os b)))) \<and>
    snd (transduce deframe_step st (snd (stuff_step os b))) = []"
proof -
  from rest have fr: "in_frame (unat os) os acc st" and lt: "unat os < 5" by (simp_all add: at_rest_def)
  from lt have os: "os \<in> {0, 1, 2, 3, 4}" by (rule ones_cases)
  show ?thesis
  proof (cases "b = 1")
    case False
    with b have b: "b = 0" by simp
    from in_frame_zero [OF fr] lt os show ?thesis
      by (auto simp: b stuff_step_def at_rest_def split_beta)
  next
    case True
    from fr lt have one: "in_frame (Suc (unat os)) (os + 1) (acc @ [1]) (fst (deframe_step st 1)) \<and>
      snd (deframe_step st 1) = []" by (intro in_frame_one) auto
    show ?thesis
    proof (cases "os = 4")
      case True
      with one have "in_frame 5 5 (acc @ [1]) (fst (deframe_step st 1))" by simp
      from in_frame_zero [OF this] one True show ?thesis
        by (simp add: \<open>b = 1\<close> stuff_step_def at_rest_def split_beta)
    next
      case False
      with os have "unat (os + 1) = Suc (unat os)" "Suc (unat os) < 5" "os + 1 \<noteq> 5" by auto
      with one show ?thesis
        by (simp add: \<open>b = 1\<close> stuff_step_def at_rest_def split_beta)
    qed
  qed
qed

lemma data_bits:
  "at_rest os acc st \<Longrightarrow> bits01 bs \<Longrightarrow>
    at_rest (fst (transduce stuff_step os bs)) (acc @ bs)
      (fst (transduce deframe_step st (snd (transduce stuff_step os bs)))) \<and>
    snd (transduce deframe_step st (snd (transduce stuff_step os bs))) = []"
proof (induction bs arbitrary: os acc st)
  case (Cons b bs)
  from Cons.prems have b: "b = 0 \<or> b = 1" by simp
  from data_bit [OF Cons.prems(1) b] Cons.prems(2)
    Cons.IH [of "fst (stuff_step os b)" "acc @ [b]"
      "fst (transduce deframe_step st (snd (stuff_step os b)))"]
  show ?case by (simp add: split_beta transduce_append)
qed simp

definition flag_bits :: "u8 list" where
  "flag_bits = [0, 1, 1, 1, 1, 1, 1, 0]"

lemma byte_bits_flag: "byte_bits_lsb hdlc_flag = flag_bits"
  by (simp add: byte_bits_lsb_list hdlc_flag_def flag_bits_def)

lemma closing_flag:
  assumes "at_rest os acc st"
  shows "at_rest 0 [] (fst (transduce deframe_step st flag_bits)) \<and>
    snd (transduce deframe_step st flag_bits) = finish_frame acc"
proof -
  from assms have fr: "in_frame (unat os) os acc st" and lt: "unat os < 5" by (simp_all add: at_rest_def)
  let ?z = "fst (deframe_step st 0)"
  from ones_cases [OF lt] have "os \<noteq> 5" by auto
  with in_frame_zero [OF fr] lt
  have z: "in_frame 0 0 (acc @ [0]) ?z" "snd (deframe_step st 0) = []" by auto
  have run: "k \<le> 6 \<Longrightarrow> in_frame k (of_nat k) (acc @ [0] @ replicate k 1)
      (fst (transduce deframe_step ?z (replicate k 1))) \<and>
    snd (transduce deframe_step ?z (replicate k 1)) = []" for k
  proof (induction k)
    case (Suc k)
    let ?st = "fst (transduce deframe_step ?z (replicate k 1))"
    from Suc have IH: "in_frame k (of_nat k) (acc @ [0] @ replicate k 1) ?st"
      "snd (transduce deframe_step ?z (replicate k 1)) = []" by auto
    have rep: "replicate (Suc k) (1 :: u8) = replicate k 1 @ [1]"
      by (simp add: replicate_append_same)
    from in_frame_one [OF IH(1)] IH(2) Suc.prems show ?case
      unfolding rep by (simp add: transduce_append split_beta add.commute)
  qed (simp add: z)
  let ?y = "fst (transduce deframe_step ?z (replicate 6 1))"
  from run [of 6] have y: "in_frame 6 6 (acc @ [0] @ replicate 6 1) ?y"
    "snd (transduce deframe_step ?z (replicate 6 1)) = []" by simp_all
  have flag: "flag_bits = 0 # replicate 6 1 @ [0]"
    by (simp add: flag_bits_def eval_nat_numeral)
  show ?thesis
    unfolding flag using in_frame_close [OF y(1)] y(2) z(2)
    by (simp add: transduce_append split_beta at_rest_def)
qed

section \<open>Synchronising on a flag from any state\<close>

lemma window_after:
  "rx_window (fst (transduce deframe_step st bs)) = foldl shift_window (rx_window st) bs \<and>
   rx_filled (fst (transduce deframe_step st bs)) = rx_filled st + length bs"
proof (induction bs arbitrary: st)
  case (Cons b bs)
  from Cons.IH [of "fst (deframe_step st b)"] show ?case
    by (auto simp: deframe_step_def split_beta Let_def)
qed simp

lemma flag_fills_window: "foldl shift_window w flag_bits = hdlc_flag"
proof (rule bit_word_eqI)
  fix n assume "n < LENGTH(8)"
  then have "n \<in> {0, 1, 2, 3, 4, 5, 6, 7}" by auto
  then show "bit (foldl shift_window w flag_bits) n = bit hdlc_flag n"
    unfolding flag_bits_def
    by (auto simp: bit_shift_window bit_flag simp del: bit_0)
qed

lemma flag_synchronises: "at_rest 0 [] (fst (transduce deframe_step st flag_bits))"
proof -
  define front where "front = butlast flag_bits"
  have split: "flag_bits = front @ [0]" and len: "length front = 7"
    by (simp_all add: front_def flag_bits_def)
  let ?m = "fst (transduce deframe_step st front)"
  from window_after [of st front] len have "rx_filled ?m + 1 \<ge> 8" by simp
  moreover have "shift_window (rx_window ?m) 0 = hdlc_flag"
    using flag_fills_window [of "rx_window st"] window_after [of st front] by (simp add: split)
  moreover have "trailing hdlc_flag 0" by (simp add: trailing_def bit_flag)
  ultimately have "at_rest 0 [] (fst (deframe_step ?m 0))"
    by (simp add: at_rest_def in_frame_def deframe_step_def Let_def)
  then show ?thesis by (simp add: split transduce_append split_beta)
qed

section \<open>Frames and streams\<close>

definition hdlc_body :: "u8 list \<Rightarrow> u8 list" where
  "hdlc_body payload = snd (transduce stuff_step 0 (concat (map byte_bits_lsb (with_fcs payload))))"

lemma hdlc_frame_body: "hdlc_frame payload = flag_bits @ hdlc_body payload @ flag_bits"
  by (simp add: hdlc_frame_def push_byte_lsb_def byte_bits_flag hdlc_body_def Let_def)

lemma body_and_flag:
  assumes "at_rest 0 [] st"
  shows "at_rest 0 [] (fst (transduce deframe_step st (hdlc_body p @ flag_bits))) \<and>
    snd (transduce deframe_step st (hdlc_body p @ flag_bits)) = (if p = [] then [] else [p])"
proof -
  let ?bs = "concat (map byte_bits_lsb (with_fcs p))"
  from data_bits [OF assms bits01_of_bytes, of "with_fcs p"]
  have b: "at_rest (fst (transduce stuff_step 0 ?bs)) ?bs (fst (transduce deframe_step st (hdlc_body p)))"
    "snd (transduce deframe_step st (hdlc_body p)) = []" by (simp_all add: hdlc_body_def)
  from closing_flag [OF b(1)] b(2) show ?thesis
    by (simp add: transduce_append split_beta finish_frame_bytes)
qed

lemma idle_flag:
  assumes "at_rest 0 [] st"
  shows "at_rest 0 [] (fst (transduce deframe_step st flag_bits)) \<and>
    snd (transduce deframe_step st flag_bits) = []"
  using closing_flag [OF assms] by (simp add: finish_frame_def)

lemma one_frame:
  assumes "at_rest 0 [] st"
  shows "at_rest 0 [] (fst (transduce deframe_step st (hdlc_frame p))) \<and>
    snd (transduce deframe_step st (hdlc_frame p)) = (if p = [] then [] else [p])"
  unfolding hdlc_frame_body transduce_append [of _ _ flag_bits]
  using idle_flag [OF assms] body_and_flag [of "fst (transduce deframe_step st flag_bits)" p]
  by (simp add: split_beta)

lemma many_frames:
  "at_rest 0 [] st \<Longrightarrow>
    at_rest 0 [] (fst (transduce deframe_step st (concat (map hdlc_frame ps)))) \<and>
    snd (transduce deframe_step st (concat (map hdlc_frame ps))) = filter (\<lambda>p. p \<noteq> []) ps"
proof (induction ps arbitrary: st)
  case (Cons p ps)
  from one_frame [OF Cons.prems, of p]
    Cons.IH [of "fst (transduce deframe_step st (hdlc_frame p))"]
  show ?case by (simp add: transduce_append split_beta)
qed simp

lemma many_flags:
  "at_rest 0 [] st \<Longrightarrow>
    at_rest 0 [] (fst (transduce deframe_step st (concat (replicate n flag_bits)))) \<and>
    snd (transduce deframe_step st (concat (replicate n flag_bits))) = []"
proof (induction n arbitrary: st)
  case (Suc n)
  from idle_flag [OF Suc.prems] Suc.IH [of "fst (transduce deframe_step st flag_bits)"]
  show ?case by (simp add: transduce_append split_beta)
qed simp

text \<open>
  C31: behind arbitrary received symbols and one flag, the receiver recovers every nonempty
  payload of a stream of frames, in order and unaltered, and adds nothing; frames of an empty
  payload vanish.
\<close>

theorem hdlc_stream_recovered:
  "hdlc_deframe (noise @ flag_bits @ concat (map hdlc_frame ps)) =
    hdlc_deframe (noise @ flag_bits) @ filter (\<lambda>p. p \<noteq> []) ps"
  unfolding hdlc_deframe_def
  using many_frames [OF flag_synchronises, of "fst (transduce deframe_step hdlc_rx_new noise)" ps]
  by (simp add: transduce_append split_beta)

text \<open>Nothing is emitted before the last bit of a flag, nor from fewer than 39 symbols.\<close>

lemma flag_front_quiet:
  assumes "at_rest os acc st"
  shows "snd (transduce deframe_step st (butlast flag_bits)) = []"
proof -
  have step: "snd (deframe_step s b) = []" if "shift_window (rx_window s) b \<noteq> hdlc_flag" for s b
    using that by (simp add: deframe_step_def Let_def)
  have ones: "snd (transduce deframe_step s (replicate k 1)) = []" for s k
    by (induction k arbitrary: s) (simp_all add: step one_never_closes split_beta)
  from assms have "shift_window (rx_window st) 0 \<noteq> hdlc_flag"
    using zero_closes_iff [of "rx_window st" "unat os"] by (auto simp: at_rest_def in_frame_def)
  moreover have "butlast flag_bits = 0 # replicate 6 1"
    by (simp add: flag_bits_def eval_nat_numeral)
  ultimately show ?thesis by (simp add: step ones split_beta)
qed

lemma short_stream_quiet:
  assumes "length bs < 39"
  shows "hdlc_deframe bs = []"
proof -
  let ?ok = "\<lambda>st. rx_collecting st \<longrightarrow> length (rx_bits st) + 8 \<le> rx_filled st"
  have step: "?ok st \<Longrightarrow> ?ok (fst (deframe_step st b)) \<and>
      rx_filled (fst (deframe_step st b)) = rx_filled st + 1 \<and>
      (rx_filled st < 38 \<longrightarrow> snd (deframe_step st b) = [])" for st b
    by (auto simp: deframe_step_def Let_def finish_frame_def)
  have "?ok st \<Longrightarrow> rx_filled st + length cs < 39 \<Longrightarrow> snd (transduce deframe_step st cs) = []" for st cs
  proof (induction cs arbitrary: st)
    case (Cons c cs)
    let ?s = "fst (deframe_step st c)"
    from step [OF Cons.prems(1), of c] Cons.prems(2)
    have ok: "?ok ?s" and "rx_filled ?s = rx_filled st + 1" and out: "snd (deframe_step st c) = []"
      by (blast, blast, auto)
    with Cons.prems(2) Cons.IH [OF ok] have "snd (transduce deframe_step ?s cs) = []" by simp
    with out show ?case by (simp add: split_beta)
  qed simp
  from this [of hdlc_rx_new bs] assms show ?thesis
    by (simp add: hdlc_deframe_def hdlc_rx_new_def)
qed

section \<open>Flags occur only at the ends of a frame\<close>

text \<open>No window over the channel equals the flag.\<close>

fun no_flag :: "u8 \<Rightarrow> u8 list \<Rightarrow> bool" where
  "no_flag w [] \<longleftrightarrow> True"
| "no_flag w (b # bs) \<longleftrightarrow> shift_window w b \<noteq> hdlc_flag \<and> no_flag (shift_window w b) bs"

lemma no_flag_append: "no_flag w (xs @ ys) \<longleftrightarrow> no_flag w xs \<and> no_flag (foldl shift_window w xs) ys"
  by (induction xs arbitrary: w) auto

lemma no_flag_ones: "no_flag w (replicate k 1)"
  by (induction k arbitrary: w) (simp_all add: one_never_closes)

lemma stuffed_no_flag:
  "trailing w (unat os) \<Longrightarrow> unat os < 5 \<Longrightarrow> bits01 bs \<Longrightarrow>
    no_flag w (snd (transduce stuff_step os bs)) \<and>
    (\<exists>t<5. trailing (foldl shift_window w (snd (transduce stuff_step os bs))) t)"
proof (induction bs arbitrary: os w)
  case (Cons b bs)
  from Cons.prems(3) have b: "b = 0 \<or> b = 1" by simp
  let ?w = "foldl shift_window w (snd (stuff_step os b))"
  have "no_flag w (snd (stuff_step os b)) \<and> trailing ?w (unat (fst (stuff_step os b))) \<and>
      unat (fst (stuff_step os b)) < 5"
  proof (cases "b = 1 \<and> os = 4")
    case True
    with Cons.prems(1) have "trailing (shift_window w 1) 5" using trailing_one [of w 4] by simp
    with True show ?thesis
      by (simp add: stuff_step_def one_never_closes zero_closes_iff trailing_zero)
  next
    case False
    from b show ?thesis
    proof
      assume "b = 0"
      with Cons.prems(1,2) show ?thesis
        by (simp add: stuff_step_def zero_closes_iff [OF Cons.prems(1)] trailing_zero)
    next
      assume b1: "b = 1"
      with False ones_cases [OF Cons.prems(2)]
      have "unat (os + 1) = Suc (unat os)" "Suc (unat os) < 5" "os + 1 \<noteq> 5" by auto
      with b1 trailing_one [OF Cons.prems(1)] show ?thesis
        by (simp add: stuff_step_def one_never_closes)
    qed
  qed
  with Cons.IH [of ?w "fst (stuff_step os b)"] Cons.prems(3) show ?case
    by (simp add: split_beta no_flag_append)
qed auto

lemma frame_interior_no_flag: "no_flag hdlc_flag (hdlc_body p @ butlast flag_bits)"
proof -
  have "trailing hdlc_flag (unat (0 :: u8))" by (simp add: trailing_def bit_flag)
  from stuffed_no_flag [OF this _ bits01_of_bytes, of "with_fcs p"]
  obtain t where "no_flag hdlc_flag (hdlc_body p)" "t < 5"
    "trailing (foldl shift_window hdlc_flag (hdlc_body p)) t" by (auto simp: hdlc_body_def)
  moreover have "butlast flag_bits = 0 # replicate 6 1"
    by (simp add: flag_bits_def eval_nat_numeral)
  ultimately show ?thesis by (auto simp: no_flag_append zero_closes_iff no_flag_ones)
qed

text \<open>
  bit stuffing works: the flag pattern occurs in a frame at its two ends and nowhere in
  between, not even straddling a flag and the payload.
\<close>

theorem flag_only_at_ends:
  assumes "hdlc_frame p = pre @ flag_bits @ post"
  shows "pre = [] \<or> post = []"
proof (rule ccontr)
  assume "\<not> (pre = [] \<or> post = [])"
  then have ne: "pre \<noteq> []" "post \<noteq> []" by auto
  let ?inner = "hdlc_body p @ butlast flag_bits"
  have flag_ne: "flag_bits \<noteq> []" and len8: "length flag_bits = 8"
    by (simp_all add: flag_bits_def)
  have "hdlc_frame p = (flag_bits @ ?inner) @ [last flag_bits]"
    unfolding hdlc_frame_body using flag_ne by simp
  with assms ne have inner: "flag_bits @ ?inner = pre @ flag_bits @ butlast post"
    by (metis append.assoc append_butlast_last_id butlast_append butlast_snoc append_is_Nil_conv)
  have match: "foldl shift_window w (pre @ flag_bits) = hdlc_flag" for w
    by (simp add: flag_fills_window)
  define j where "j = length pre"
  have j: "0 < j" using ne(1) by (simp add: j_def)
  have "take (j + 8) (flag_bits @ ?inner) = pre @ flag_bits"
    unfolding inner by (simp add: j_def len8)
  moreover have "take (j + 8) (flag_bits @ ?inner) = flag_bits @ take j ?inner"
    by (simp add: len8)
  ultimately have pre: "flag_bits @ take j ?inner = pre @ flag_bits" by simp
  then have "length (take j ?inner) = j" by (metis add.commute add_left_imp_eq j_def length_append)
  with j have last: "take j ?inner = butlast (take j ?inner) @ [last (take j ?inner)]"
    by (metis append_butlast_last_id length_greater_0_conv)
  have "no_flag hdlc_flag (take j ?inner @ drop j ?inner)"
    by (simp only: append_take_drop_id frame_interior_no_flag)
  then have "no_flag hdlc_flag (butlast (take j ?inner) @ [last (take j ?inner)])"
    using last by (simp only: no_flag_append)
  then have "foldl shift_window hdlc_flag (take j ?inner) \<noteq> hdlc_flag"
    by (subst last) (simp add: no_flag_append)
  moreover have "foldl shift_window hdlc_flag (take j ?inner) = hdlc_flag"
    using match [of 0] flag_fills_window [of 0] by (simp only: pre [symmetric] foldl_append)
  ultimately show False by simp
qed

lemma flag_only_at_ends_witness:
  "flag_bits @ hdlc_body [0x41] = [] \<or> ([] :: u8 list) = []"
  by (rule flag_only_at_ends [of "[0x41]"]) (simp add: hdlc_frame_body)

section \<open>The ones counter of the receiver\<close>

lemma ones_counted:
  "rx_collecting st \<Longrightarrow>
    rx_ones (fst (transduce deframe_step st (replicate k 1))) = rx_ones st + of_nat k \<and>
    rx_collecting (fst (transduce deframe_step st (replicate k 1)))"
proof (induction k arbitrary: st)
  case (Suc k)
  from Suc.prems have "rx_collecting (fst (deframe_step st 1))"
    "rx_ones (fst (deframe_step st 1)) = rx_ones st + 1"
    by (simp_all add: deframe_step_def Let_def one_never_closes)
  with Suc.IH [of "fst (deframe_step st 1)"] show ?case by (simp add: split_beta)
qed simp

text \<open>
  after a flag and a steady level (which NRZI decodes to ones), the \<open>u8\<close> counter of ones
  reaches 255 and the next one overflows it: a build with overflow checks panics there, a
  release build wraps to zero.
\<close>

theorem ones_counter_overflows:
  "rx_ones (fst (transduce deframe_step hdlc_rx_new (flag_bits @ replicate 255 1))) = 255 \<and>
   rx_ones (fst (transduce deframe_step hdlc_rx_new (flag_bits @ replicate 256 1))) = 0"
proof -
  have "rx_collecting (fst (transduce deframe_step hdlc_rx_new flag_bits)) \<and>
      rx_ones (fst (transduce deframe_step hdlc_rx_new flag_bits)) = 0"
    using flag_synchronises [of hdlc_rx_new] by (simp add: at_rest_def in_frame_def)
  with ones_counted [of "fst (transduce deframe_step hdlc_rx_new flag_bits)" 255]
    ones_counted [of "fst (transduce deframe_step hdlc_rx_new flag_bits)" 256]
  show ?thesis by (simp add: transduce_append split_beta)
qed

end
