(* ===== verification/Afsk1200.thy ===== *)
theory Afsk1200
  imports Hdlc
begin

text \<open>
  AFSK 1200 (\<open>modes/afsk1200.rs\<close>): the bit path of the modulator (preamble, HDLC, NRZI) and the
  receiver's \<open>BitAssembler\<close>, from the levels its bit clock delivers to packets. The tone
  synthesis and the filters are floating-point code: the synthesiser is a parameter and the
  receiver starts at the recovered levels.
\<close>

section \<open>Payloads (\<open>types.rs\<close>)\<close>

datatype frame_payload =
    Packet "u8 list"
  | Text string
  | Message77 "u8 list"
  | Vocoder "u8 list"
  | Image u16 u8 "u8 list"

definition payload_kind :: "frame_payload \<Rightarrow> string" where
  "payload_kind p = (case p of
       Packet _ \<Rightarrow> ''packet'' | Text _ \<Rightarrow> ''text'' | Message77 _ \<Rightarrow> ''message77''
     | Vocoder _ \<Rightarrow> ''vocoder'' | Image _ _ _ \<Rightarrow> ''image'')"

section \<open>Modulator\<close>

definition preamble_flags :: nat where "preamble_flags = 24"
definition postamble_flags :: nat where "postamble_flags = 4"

definition preamble_bits :: "nat \<Rightarrow> u8 list" where
  "preamble_bits n = concat (replicate n (map (\<lambda>i. drop_bit i 0x7E AND 1) [0..<8]))"

definition packet_bits :: "u8 list \<Rightarrow> u8 list" where
  "packet_bits payload =
     preamble_bits preamble_flags @ hdlc_frame payload @ preamble_bits postamble_flags"

text \<open>\<open>Err\<close> is \<open>ModError::UnsupportedPayload\<close>; \<open>synth\<close> is the tone modulator.\<close>

definition afsk1200_modulate ::
    "(bool list \<Rightarrow> 'sample list) \<Rightarrow> frame_payload \<Rightarrow> ('sample list, string) result" where
  "afsk1200_modulate synth payload = (case payload of
       Packet b \<Rightarrow> Ok (synth (map (\<lambda>l. l \<noteq> 0) (nrzi_encode (packet_bits b))))
     | other \<Rightarrow> Err (payload_kind other))"

section \<open>Bit assembler\<close>

definition max_levels :: nat where "max_levels = 4096"

text \<open>\<open>push\<close> after the bit clock has delivered a level; the state is \<open>levels\<close>.\<close>

definition push_level :: "u8 list \<Rightarrow> bool \<Rightarrow> u8 list \<times> u8 list list" where
  "push_level levels0 level =
     (let levels = levels0 @ [if level then 1 else 0]
      in if length levels mod 8 \<noteq> 0 then (levels, [])
         else let bits = nrzi_decode levels; frames = hdlc_deframe bits
              in if frames \<noteq> [] then ([], frames)
                 else if length levels > max_levels
                      then (drop (length levels - max_levels div 2) levels, [])
                      else (levels, []))"

lemma preamble_flag_bits: "preamble_bits n = concat (replicate n flag_bits)"
  using byte_bits_flag unfolding preamble_bits_def byte_bits_lsb_def hdlc_flag_def by simp

lemma length_flag_bits [simp]: "length flag_bits = 8"
  by (simp add: flag_bits_def)

lemma length_preamble_bits [simp]: "length (preamble_bits n) = 8 * n"
  by (induction n) (simp_all add: preamble_flag_bits)

lemma bits01_flag_bits [simp]: "bits01 flag_bits"
  by (simp add: flag_bits_def)

lemma bits01_stuffed: "bits01 bs \<Longrightarrow> bits01 (snd (transduce stuff_step os bs))"
  by (induction bs arbitrary: os) (auto simp: split_beta stuff_step_def)

lemma bits01_preamble [simp]: "bits01 (preamble_bits n)"
  by (induction n) (simp_all add: preamble_flag_bits)

lemma bits01_frame [simp]: "bits01 (hdlc_frame p)"
  by (simp add: hdlc_frame_body hdlc_body_def bits01_stuffed)

lemma bits01_packet_bits [simp]: "bits01 (packet_bits p)"
  by (simp add: packet_bits_def)

section \<open>Memory bound\<close>

lemma push_level_bound:
  assumes "length ls \<le> max_levels + 7"
  shows "length (fst (push_level ls b)) \<le> max_levels + 7"
proof (cases "length ls = max_levels + 7")
  case True
  then have "(length ls + 1) mod 8 = 0" by (simp add: max_levels_def)
  then show ?thesis by (simp add: push_level_def Let_def max_levels_def)
next
  case False
  with assms have "length ls + 1 \<le> max_levels + 7" by simp
  then show ?thesis by (auto simp: push_level_def Let_def max_levels_def)
qed

text \<open>however long the line is noisy, the assembler holds at most 4103 levels.\<close>

theorem assembler_memory_bounded: "length (fst (transduce push_level [] levels)) \<le> 4103"
  using transduce_inv [of "\<lambda>ls. length ls \<le> max_levels + 7" push_level "[]" levels]
    push_level_bound by (simp add: max_levels_def)

section \<open>From levels to the packet\<close>

lemma nrzi_levels_of_bools:
  "bits01 bs \<Longrightarrow> map (\<lambda>level. if level then 1 else 0) (map (\<lambda>l. l \<noteq> 0) bs) = bs"
  by (induction bs) auto

lemma bits01_take: "bits01 bs \<Longrightarrow> bits01 (take n bs)"
  by (auto simp: bits01_def dest: in_set_takeD)

lemma nrzi_encode_take: "take n (nrzi_encode bs) = nrzi_encode (take n bs)"
proof -
  have "nrzi_encode (take n bs @ drop n bs) = nrzi_encode (take n bs) @
      snd (map_state nrzi_enc_step (fst (map_state nrzi_enc_step 0 (take n bs))) (drop n bs))"
    unfolding nrzi_encode_def map_state_append by (simp add: split_beta)
  then have "take n (nrzi_encode bs) = take n (nrzi_encode (take n bs) @
      snd (map_state nrzi_enc_step (fst (map_state nrzi_enc_step 0 (take n bs))) (drop n bs)))"
    by (simp only: append_take_drop_id)
  also have "\<dots> = nrzi_encode (take n bs)" by (cases "n \<le> length bs") simp_all
  finally show ?thesis .
qed

lemma bits01_nth: "bits01 ls \<Longrightarrow> i < length ls \<Longrightarrow> (if ls ! i \<noteq> 0 then 1 else 0) = ls ! i"
  unfolding bits01_def by (metis insertE nth_mem singletonD subsetD)

text \<open>While no whole octet count closes a frame, levels only accumulate.\<close>

lemma assemble_quiet:
  assumes "\<And>k. k \<le> n \<Longrightarrow> k mod 8 = 0 \<Longrightarrow> hdlc_deframe (nrzi_decode (take k ls)) = []"
    and "n \<le> length ls" and "length ls \<le> max_levels" and "bits01 ls"
  shows "transduce push_level [] (map (\<lambda>l. l \<noteq> 0) (take n ls)) = (take n ls, [])"
  using assms(1,2)
proof (induction n)
  case (Suc n)
  then have IH: "transduce push_level [] (map (\<lambda>l. l \<noteq> 0) (take n ls)) = (take n ls, [])" by simp
  have snoc: "take (Suc n) ls = take n ls @ [ls ! n]"
    using Suc.prems(2) by (simp add: take_Suc_conv_app_nth)
  have "(if ls ! n \<noteq> 0 then 1 else 0) = ls ! n"
    using bits01_nth [OF assms(4), of n] Suc.prems(2) by simp
  moreover have "Suc n \<le> max_levels" using Suc.prems(2) assms(3) by simp
  ultimately have "push_level (take n ls) (ls ! n \<noteq> 0) = (take (Suc n) ls, [])"
    using Suc.prems unfolding push_level_def snoc [symmetric] Let_def
    by (auto simp: snoc [symmetric])
  with IH show ?case unfolding snoc by (simp add: transduce_append)
qed simp

text \<open>What the receiver's scan makes of the prefixes of a modulated packet.\<close>

lemma after_preamble:
  assumes "n > 0"
  shows "at_rest 0 [] (fst (transduce deframe_step hdlc_rx_new (preamble_bits n))) \<and>
    snd (transduce deframe_step hdlc_rx_new (preamble_bits n)) = []"
proof -
  from assms obtain m where n: "n = Suc m" by (cases n) auto
  have split: "preamble_bits n = flag_bits @ concat (replicate m flag_bits)"
    by (simp add: preamble_flag_bits n)
  have "snd (transduce deframe_step hdlc_rx_new flag_bits) = []"
    using short_stream_quiet [of flag_bits] by (simp add: hdlc_deframe_def)
  with many_flags [OF flag_synchronises [of hdlc_rx_new], of m] show ?thesis
    unfolding split by (simp add: transduce_append split_beta)
qed

lemma deframe_prefix: "\<exists>zs. hdlc_deframe (xs @ ys) = hdlc_deframe xs @ zs"
  by (simp add: hdlc_deframe_def transduce_append split_beta)

lemma deframe_take_quiet:
  assumes "hdlc_deframe xs = []"
  shows "hdlc_deframe (take k xs) = []"
  using deframe_prefix [of "take k xs" "drop k xs"] assms by simp

lemma front_of_packet_quiet:
  assumes "k < 8 * preamble_flags + length (hdlc_frame p)"
  shows "hdlc_deframe (take k (packet_bits p)) = []"
proof -
  let ?pre = "preamble_bits preamble_flags"
  let ?front = "?pre @ (flag_bits @ hdlc_body p) @ butlast flag_bits"
  have flag: "flag_bits = butlast flag_bits @ [0]" by (simp add: flag_bits_def)
  have "packet_bits p = ?pre @ flag_bits @ hdlc_body p @ flag_bits @ preamble_bits postamble_flags"
    by (simp add: packet_bits_def hdlc_frame_body)
  also have "\<dots> = ?front @ [0] @ preamble_bits postamble_flags"
    by (subst (2) flag) simp
  finally have packet: "packet_bits p = ?front @ [0] @ preamble_bits postamble_flags" .
  let ?s = "fst (transduce deframe_step hdlc_rx_new ?pre)"
  let ?s1 = "fst (transduce deframe_step ?s flag_bits)"
  have pre: "at_rest 0 [] ?s" "snd (transduce deframe_step hdlc_rx_new ?pre) = []"
    using after_preamble [of preamble_flags] by (simp_all add: preamble_flags_def)
  from idle_flag [OF pre(1)] have s1: "at_rest 0 [] ?s1" "snd (transduce deframe_step ?s flag_bits) = []"
    by simp_all
  from data_bits [OF s1(1) bits01_of_bytes, of "with_fcs p"]
  have body: "at_rest (fst (transduce stuff_step 0 (concat (map byte_bits_lsb (with_fcs p)))))
      (concat (map byte_bits_lsb (with_fcs p))) (fst (transduce deframe_step ?s1 (hdlc_body p)))"
    "snd (transduce deframe_step ?s1 (hdlc_body p)) = []"
    unfolding hdlc_body_def by simp_all
  from body(2) flag_front_quiet [OF body(1)]
  have "snd (transduce deframe_step ?s1 (hdlc_body p @ butlast flag_bits)) = []"
    by (simp add: transduce_append split_beta)
  with pre(2) s1(2) have quiet: "hdlc_deframe ?front = []"
    by (simp add: hdlc_deframe_def transduce_append split_beta)
  have "length ?front + 1 = 8 * preamble_flags + length (hdlc_frame p)"
    by (simp add: hdlc_frame_body)
  with assms have "take k (packet_bits p) = take k ?front" unfolding packet
    by (simp only: take_append) simp
  with deframe_take_quiet [OF quiet] show ?thesis by simp
qed

lemma packet_with_part_flag:
  assumes "p \<noteq> []" and "j < 8"
  shows "hdlc_deframe (take (8 * preamble_flags + length (hdlc_frame p) + j) (packet_bits p)) = [p]"
proof -
  let ?pre = "preamble_bits preamble_flags"
  have "preamble_bits postamble_flags = butlast flag_bits @ [0] @ preamble_bits 3"
    by (simp add: preamble_flag_bits postamble_flags_def flag_bits_def eval_nat_numeral)
  then have tail: "take j (preamble_bits postamble_flags) = take j (butlast flag_bits)"
    using assms(2) by simp
  have split: "take (8 * preamble_flags + length (hdlc_frame p) + j) (packet_bits p) =
      ?pre @ hdlc_frame p @ take j (butlast flag_bits)"
    by (simp add: packet_bits_def tail)
  let ?s = "fst (transduce deframe_step hdlc_rx_new ?pre)"
  let ?s1 = "fst (transduce deframe_step ?s (hdlc_frame p))"
  have pre: "at_rest 0 [] ?s" "snd (transduce deframe_step hdlc_rx_new ?pre) = []"
    using after_preamble [of preamble_flags] by (simp_all add: preamble_flags_def)
  from one_frame [OF pre(1), of p] assms(1) have fr: "at_rest 0 [] ?s1"
    "snd (transduce deframe_step ?s (hdlc_frame p)) = [p]" by simp_all
  have "snd (transduce deframe_step ?s1 (take j (butlast flag_bits) @ drop j (butlast flag_bits))) = []"
    unfolding append_take_drop_id by (rule flag_front_quiet [OF fr(1)])
  then have "snd (transduce deframe_step ?s1 (take j (butlast flag_bits))) = []"
    unfolding transduce_append by (simp add: split_beta)
  with pre(2) fr(2) show ?thesis unfolding split
    by (simp add: hdlc_deframe_def transduce_append split_beta)
qed

text \<open>
  C32: an empty assembler, fed the recovered levels of one modulated non-empty packet whose levels,
  flags included, fit its buffer of 4096, yields the packet, once and unaltered, whatever its length modulo 8 and its stuffing.
\<close>

theorem assembler_recovers_packet:
  assumes "p \<noteq> []" and "length (packet_bits p) \<le> max_levels"
    and "afsk1200_modulate (\<lambda>levels. levels) (Packet p) = Ok levels"
  shows "snd (transduce push_level [] levels) = [p]"
proof -
  let ?ls = "nrzi_encode (packet_bits p)"
  let ?F = "8 * preamble_flags + length (hdlc_frame p)"
  define n where "n = 8 * ((?F + 7) div 8)"
  have n: "?F \<le> n" "n < ?F + 8" "n mod 8 = 0" "n > 0"
    unfolding n_def preamble_flags_def by presburger+
  have total: "length ?ls = ?F + 32" by (simp add: packet_bits_def postamble_flags_def)
  have levels: "levels = map (\<lambda>l. l \<noteq> 0) ?ls"
    using assms(3) by (simp add: afsk1200_modulate_def)
  have dec: "hdlc_deframe (nrzi_decode (take k ?ls)) = hdlc_deframe (take k (packet_bits p))" for k
    unfolding nrzi_encode_take by (simp add: nrzi.dec_enc bits01_take)
  have ls01: "bits01 ?ls" by (simp add: nrzi.ok_enc)
  have first: "transduce push_level [] (map (\<lambda>l. l \<noteq> 0) (take (n - 1) ?ls)) = (take (n - 1) ?ls, [])"
  proof (rule assemble_quiet)
    fix k assume "k \<le> n - 1" "k mod 8 = 0"
    with n(3,4) have "k + 8 \<le> n" by presburger
    with n(2) have "k < ?F" by linarith
    then show "hdlc_deframe (nrzi_decode (take k ?ls)) = []" unfolding dec by (rule front_of_packet_quiet)
  qed (use n total assms(2) ls01 in auto)
  have snoc: "take n ?ls = take (n - 1) ?ls @ [?ls ! (n - 1)]"
    using n total take_Suc_conv_app_nth [of "n - 1" ?ls] by simp
  have sym: "(if ?ls ! (n - 1) \<noteq> 0 then 1 else 0) = ?ls ! (n - 1)"
    by (rule bits01_nth [OF ls01]) (use n total in simp)
  have "hdlc_deframe (nrzi_decode (take n ?ls)) = [p]"
    unfolding dec using packet_with_part_flag [OF assms(1), of "n - ?F"] n by simp
  then have at_n: "push_level (take (n - 1) ?ls) (?ls ! (n - 1) \<noteq> 0) = ([], [p])"
    using n total unfolding push_level_def sym snoc [symmetric] Let_def by simp
  have rest: "transduce push_level [] (map (\<lambda>l. l \<noteq> 0) (take (length (drop n ?ls)) (drop n ?ls))) =
      (take (length (drop n ?ls)) (drop n ?ls), [])"
  proof (rule assemble_quiet)
    fix k
    have "length (nrzi_decode (take k (drop n ?ls))) < 39"
      using n total by (simp add: nrzi_decode_def)
    then show "hdlc_deframe (nrzi_decode (take k (drop n ?ls))) = []" by (rule short_stream_quiet)
  next
    show "bits01 (drop n ?ls)" using ls01 by (auto simp: bits01_def dest: in_set_dropD)
  qed (use n total in \<open>auto simp: max_levels_def\<close>)
  have "levels = map (\<lambda>l. l \<noteq> 0) (take n ?ls @ drop n ?ls)"
    by (simp only: levels append_take_drop_id)
  also have "\<dots> = map (\<lambda>l. l \<noteq> 0) (take (n - 1) ?ls) @ [?ls ! (n - 1) \<noteq> 0] @ map (\<lambda>l. l \<noteq> 0) (drop n ?ls)"
    by (simp only: snoc map_append list.map append_assoc)
  finally show ?thesis using first at_n rest
    by (simp only: transduce_append) (simp add: split_beta del: map_append take_append)
qed

lemma stuffed_length: "length (snd (transduce stuff_step os bs)) \<le> 2 * length bs"
proof (induction bs arbitrary: os)
  case (Cons b bs)
  from Cons.IH [of "fst (stuff_step os b)"] show ?case by (auto simp: stuff_step_def split_beta)
qed simp

lemma packet_fits: "length p \<le> 237 \<Longrightarrow> length (packet_bits p) \<le> max_levels"
  using stuffed_length [of 0 "concat (map byte_bits_lsb (with_fcs p))"]
  by (simp add: packet_bits_def hdlc_frame_body hdlc_body_def preamble_flags_def
    postamble_flags_def max_levels_def)

lemma assembler_recovers_packet_witness:
  "snd (transduce push_level [] (map (\<lambda>l. l \<noteq> 0) (nrzi_encode (packet_bits [0x41])))) = [[0x41]]"
  by (rule assembler_recovers_packet) (simp_all add: packet_fits afsk1200_modulate_def)

end
