(* ===== verification/Ax25.thy ===== *)
theory Ax25
  imports Prelude
begin

text \<open>
  AX.25 UI frames (\<open>framing/ax25.rs\<close>): address subfields, the frame encoder and the decoder
  with its early returns. A callsign is a list of bytes (an ASCII \<open>String\<close> of the source);
  decoded characters are 7-bit values, so the bytes are those of the string.
\<close>

unbundle bit_operations_syntax

record ax25_address =
  aa_call :: "u8 list"
  aa_ssid :: u8

text \<open>\<open>to_ascii_uppercase\<close> on one byte.\<close>

definition ascii_upper :: "u8 \<Rightarrow> u8" where
  "ascii_upper c = (if 0x61 \<le> c \<and> c \<le> 0x7A then c - 0x20 else c)"

definition address_new :: "u8 list \<Rightarrow> u8 \<Rightarrow> ax25_address" where
  "address_new call ssid = \<lparr>aa_call = map ascii_upper call, aa_ssid = ssid AND 0x0F\<rparr>"

definition address_encode :: "ax25_address \<Rightarrow> bool \<Rightarrow> bool \<Rightarrow> u8 list" where
  "address_encode a lst has_been_repeated =
     (let bytes = aa_call a;
          chars = map (\<lambda>i. push_bit 1 (if i < length bytes then bytes ! i else 0x20)) [0..<6];
          h = (if has_been_repeated then 0x80 else 0)
      in chars @ [h OR 0x60 OR push_bit 1 (aa_ssid a AND 0x0F) OR (if lst then 1 else 0)])"

text \<open>\<open>char::is_whitespace\<close> on the 7-bit characters that decoding can produce.\<close>

definition is_whitespace :: "u8 \<Rightarrow> bool" where
  "is_whitespace c \<longleftrightarrow> c = 0x20 \<or> (9 \<le> c \<and> c \<le> 13)"

definition trim_end :: "u8 list \<Rightarrow> u8 list" where
  "trim_end s = rev (dropWhile is_whitespace (rev s))"

definition address_decode :: "u8 list \<Rightarrow> ax25_address" where
  "address_decode raw =
     \<lparr>aa_call = trim_end (map (\<lambda>b. drop_bit 1 b) (take 6 raw)),
      aa_ssid = drop_bit 1 (raw ! 6) AND 0x0F\<rparr>"

definition is_last :: "u8 list \<Rightarrow> bool" where
  "is_last raw \<longleftrightarrow> (raw ! 6) AND 1 \<noteq> 0"

record ax25_frame =
  af_dest :: ax25_address
  af_source :: ax25_address
  af_digipeaters :: "ax25_address list"
  af_info :: "u8 list"

definition CONTROL_UI :: u8 where "CONTROL_UI = 0x03"
definition PID_NO_L3 :: u8 where "PID_NO_L3 = 0xF0"

definition ax25_encode :: "ax25_frame \<Rightarrow> u8 list" where
  "ax25_encode f =
     (let n_digi = length (af_digipeaters f);
          src_last = (n_digi = 0)
      in address_encode (af_dest f) False False
         @ address_encode (af_source f) src_last False
         @ concat (map (\<lambda>(i, d). address_encode d (i + 1 = n_digi) False)
             (enumerate 0 (af_digipeaters f)))
         @ [CONTROL_UI, PID_NO_L3] @ af_info f)"

text \<open>
  The address loop. \<open>bytes\<close> is what remains from \<open>pos\<close> on; the fuel is its length, since each
  round consumes seven bytes. \<open>None\<close> is a \<open>return None\<close>.
\<close>

function decode_addrs :: "u8 list \<Rightarrow> ax25_address list \<Rightarrow> (ax25_address list \<times> u8 list) option" where
  "decode_addrs bytes addrs =
     (if length bytes < 7 then None
      else let raw = take 7 bytes;
               addrs1 = addrs @ [address_decode raw];
               rest = drop 7 bytes
           in if is_last raw then Some (addrs1, rest)
              else if length addrs1 > 10 then None
              else decode_addrs rest addrs1)"
  by pat_completeness auto
termination by (relation "measure (\<lambda>(bytes, _). length bytes)") auto

declare decode_addrs.simps [simp del]

definition ax25_decode :: "u8 list \<Rightarrow> ax25_frame option" where
  "ax25_decode bytes =
     (if length bytes < 7 * 2 + 2 then None
      else case decode_addrs bytes [] of None \<Rightarrow> None
        | Some (addrs, rest) \<Rightarrow>
            if length addrs < 2 \<or> length rest < 2 then None
            else if rest ! 0 \<noteq> CONTROL_UI \<or> rest ! 1 \<noteq> PID_NO_L3 then None
            else Some \<lparr>af_dest = addrs ! 0, af_source = addrs ! 1,
                       af_digipeaters = drop 2 addrs, af_info = drop 2 rest\<rparr>)"

section \<open>Addresses\<close>

text \<open>
  What an address must satisfy to survive the wire: at most six 7-bit characters, no trailing
  white space (which is padding on the wire), a 4-bit SSID.
\<close>

definition wf_address :: "ax25_address \<Rightarrow> bool" where
  "wf_address a \<longleftrightarrow> length (aa_call a) \<le> 6 \<and> (\<forall>c\<in>set (aa_call a). c < 0x80) \<and>
     (aa_call a = [] \<or> \<not> is_whitespace (last (aa_call a))) \<and> aa_ssid a < 16"

lemma shift_7bit: "c < 0x80 \<Longrightarrow> drop_bit 1 (push_bit 1 c) = c" for c :: u8
proof -
  assume "c < 0x80"
  then have "unat c < 128" by (simp add: word_less_nat_alt)
  then have "unat (take_bit 7 c) = unat c"
    by (subst unsigned_take_bit_eq) (simp add: take_bit_eq_mod)
  then have c: "take_bit 7 c = c" by (rule unat_inject)
  have "drop_bit 1 (push_bit 1 c) = take_bit 7 c"
    by (rule bit_word_eqI)
      (simp only: bit_drop_bit_eq bit_push_bit_iff bit_take_bit_iff o_apply, auto)
  with c show ?thesis by simp
qed

lemma ssid_byte:
  assumes "s < 16"
  shows "drop_bit 1 (0 OR 0x60 OR push_bit 1 (s AND 0x0F) OR (if lst then 1 else 0)) AND 0x0F = (s :: u8)"
    and "(0 OR 0x60 OR push_bit 1 (s AND 0x0F) OR (if lst then 1 else 0 :: u8)) AND 1 \<noteq> 0 \<longleftrightarrow> lst"
proof -
  from assms have "unat s < 16" by (simp add: word_less_nat_alt)
  then have "unat s \<in> set [0..<16]" by simp
  then have "s \<in> {0, 1, 2, 3, 4, 5, 6, 7, 8, 9, 10, 11, 12, 13, 14, 15}"
    by (auto simp: upt_rec word_unat_eq_iff)
  then show "drop_bit 1 (0 OR 0x60 OR push_bit 1 (s AND 0x0F) OR (if lst then 1 else 0)) AND 0x0F = s"
    and "(0 OR 0x60 OR push_bit 1 (s AND 0x0F) OR (if lst then 1 else 0 :: u8)) AND 1 \<noteq> 0 \<longleftrightarrow> lst"
    by auto
qed

lemma trim_padding:
  assumes "cs = [] \<or> \<not> is_whitespace (last cs)"
  shows "trim_end (cs @ replicate n 0x20) = cs"
proof -
  have "dropWhile is_whitespace (replicate n 0x20 @ rev cs) = dropWhile is_whitespace (rev cs)"
    by (induction n) (simp_all add: is_whitespace_def)
  moreover have "dropWhile is_whitespace (rev cs) = rev cs"
    using assms by (cases cs rule: rev_cases) auto
  ultimately show ?thesis by (simp add: trim_end_def)
qed

lemma length_address_encode [simp]: "length (address_encode a l r) = 7"
  by (simp add: address_encode_def Let_def)

lemma encode_chars:
  "length cs \<le> 6 \<Longrightarrow> map (\<lambda>i. if i < length cs then cs ! i else 0x20) [0..<6] =
    cs @ replicate (6 - length cs) (0x20 :: u8)"
  by (rule nth_equalityI) (auto simp: nth_append)

lemma address_roundtrip:
  assumes "wf_address a"
  shows "address_decode (address_encode a l False) = a" and "is_last (address_encode a l False) = l"
proof -
  from assms have wf: "length (aa_call a) \<le> 6" "aa_ssid a < 16"
    "\<forall>c\<in>set (aa_call a). c < 0x80" "aa_call a = [] \<or> \<not> is_whitespace (last (aa_call a))"
    by (simp_all add: wf_address_def)
  let ?ch = "\<lambda>i. if i < length (aa_call a) then aa_call a ! i else 0x20"
  have ch: "?ch i < 0x80" for i using wf(3) by simp
  have enc: "address_encode a l False = map (\<lambda>i. push_bit 1 (?ch i)) [0..<6] @
      [0 OR 0x60 OR push_bit 1 (aa_ssid a AND 0x0F) OR (if l then 1 else 0)]"
    by (simp only: address_encode_def Let_def if_False)
  have "map (drop_bit 1) (map (\<lambda>i. push_bit 1 (?ch i)) [0..<6]) = map ?ch [0..<6]"
    by (simp only: map_map o_def shift_7bit [OF ch])
  also have "\<dots> = aa_call a @ replicate (6 - length (aa_call a)) 0x20"
    by (rule encode_chars [OF wf(1)])
  finally have "trim_end (map (drop_bit 1) (map (\<lambda>i. push_bit 1 (?ch i)) [0..<6])) = aa_call a"
    by (simp only: trim_padding [OF wf(4)])
  moreover have "take 6 (address_encode a l False) = map (\<lambda>i. push_bit 1 (?ch i)) [0..<6]"
    unfolding enc by simp
  moreover have six: "address_encode a l False ! 6 =
      0 OR 0x60 OR push_bit 1 (aa_ssid a AND 0x0F) OR (if l then 1 else 0)"
    unfolding enc by (simp add: nth_append)
  ultimately show "address_decode (address_encode a l False) = a"
    by (simp only: address_decode_def ssid_byte(1) [OF wf(2)]) simp
  show "is_last (address_encode a l False) = l"
    by (simp only: is_last_def six ssid_byte(2) [OF wf(2)])
qed

section \<open>The address field\<close>

text \<open>Address subfields in a row, the extension bit set on the last one only.\<close>

fun enc_addrs :: "ax25_address list \<Rightarrow> u8 list" where
  "enc_addrs [] = []"
| "enc_addrs (a # as) = address_encode a (as = []) False @ enc_addrs as"

lemma enc_digis:
  "concat (map (\<lambda>(i, d). address_encode d (i + 1 = k + length ds) False) (enumerate k ds)) =
    enc_addrs ds"
proof (induction ds arbitrary: k)
  case (Cons d ds)
  have "(k + 1 = k + length (d # ds)) = (ds = [])" by simp
  with Cons.IH [of "Suc k"] show ?case by simp
qed simp

lemma encode_addrs:
  "ax25_encode f = enc_addrs (af_dest f # af_source f # af_digipeaters f) @
     [CONTROL_UI, PID_NO_L3] @ af_info f"
  using enc_digis [of 0 "af_digipeaters f"] by (simp add: ax25_encode_def Let_def)

lemma length_enc_addrs: "length (enc_addrs as) = 7 * length as"
  by (induction as) simp_all

lemma decode_one:
  assumes "wf_address a"
  shows "decode_addrs (address_encode a l False @ bytes) acc =
    (if l then Some (acc @ [a], bytes)
     else if length acc \<ge> 10 then None else decode_addrs bytes (acc @ [a]))"
  by (subst decode_addrs.simps) (auto simp: Let_def address_roundtrip [OF assms])

lemma decode_enc_addrs:
  assumes "as \<noteq> []" and "\<forall>a\<in>set as. wf_address a"
  shows "decode_addrs (enc_addrs as @ rest) acc =
    (if length acc + length as \<le> 11 \<or> length as = 1 then Some (acc @ as, rest) else None)"
  using assms
proof (induction as arbitrary: acc)
  case (Cons a as)
  show ?case
  proof (cases "as = []")
    case True
    with Cons.prems show ?thesis by (simp add: decode_one)
  next
    case False
    then have "length as \<ge> 1" by (cases as) auto
    with False Cons.prems Cons.IH [of "acc @ [a]"] show ?thesis
      by (auto simp: decode_one)
  qed
qed simp

text \<open>
  C37: a frame of well-formed addresses decodes to itself when it has at most nine digipeaters
  (dest and source make it eleven addresses, where the decoder's guard stands) and is refused
  when it has more.
\<close>

theorem ax25_roundtrip:
  assumes "wf_address (af_dest f)" and "wf_address (af_source f)"
    and "\<forall>d\<in>set (af_digipeaters f). wf_address d"
  shows "ax25_decode (ax25_encode f) = (if length (af_digipeaters f) \<le> 9 then Some f else None)"
proof -
  let ?as = "af_dest f # af_source f # af_digipeaters f"
  let ?rest = "[CONTROL_UI, PID_NO_L3] @ af_info f"
  from assms have "decode_addrs (enc_addrs ?as @ ?rest) [] =
      (if length (af_digipeaters f) \<le> 9 then Some (?as, ?rest) else None)"
    by (subst decode_enc_addrs) auto
  moreover have "length (enc_addrs ?as @ ?rest) \<ge> 7 * 2 + 2" by (simp add: length_enc_addrs)
  ultimately show ?thesis unfolding encode_addrs
    by (simp add: ax25_decode_def del: enc_addrs.simps)
qed

lemma ax25_roundtrip_witness:
  "let f = \<lparr>af_dest = address_new [0x41, 0x50, 0x52, 0x53] 0, af_source = address_new [0x4E, 0x30] 9,
       af_digipeaters = [], af_info = [0x21]\<rparr>
   in ax25_decode (ax25_encode f) = (if length (af_digipeaters f) \<le> 9 then Some f else None)"
  unfolding Let_def
  by (rule ax25_roundtrip) (simp_all add: wf_address_def address_new_def ascii_upper_def is_whitespace_def)

section \<open>What any received bytes can decode to\<close>

lemma trim_end_subset: "set (trim_end s) \<subseteq> set s" "length (trim_end s) \<le> length s"
  by (auto simp: trim_end_def dest: set_dropWhileD)
    (metis length_dropWhile_le length_rev)

lemma trim_end_last: "trim_end s = [] \<or> \<not> is_whitespace (last (trim_end s))"
proof (cases "dropWhile is_whitespace (rev s)")
  case (Cons c cs)
  then have "\<not> is_whitespace c" by (metis hd_dropWhile list.discI list.sel(1))
  with Cons show ?thesis by (simp add: trim_end_def)
qed (simp add: trim_end_def)

lemma drop_bit_7bit: "drop_bit 1 (b :: u8) < 0x80"
proof -
  have "unat (drop_bit 1 b) = unat b div 2"
    by (subst unsigned_drop_bit_eq) (simp add: drop_bit_eq_div take_bit_eq_mod)
  also have "\<dots> < 128" using unat_u8 [of b] by linarith
  finally show ?thesis by (simp add: word_less_nat_alt)
qed

lemma and_0x0F_less: "(b AND 0x0F :: u8) < 16"
proof -
  have "b AND 0x0F \<le> (0x0F :: u8)" by (rule word_and_le1)
  then show ?thesis by (simp add: word_le_nat_alt word_less_nat_alt)
qed

lemma address_decode_wf: "wf_address (address_decode raw)"
proof -
  let ?s = "map (\<lambda>b. drop_bit 1 b) (take 6 raw)"
  have "c < 0x80" if "c \<in> set (trim_end ?s)" for c
  proof -
    from that trim_end_subset(1) [of ?s] obtain b where "c = drop_bit 1 b" by auto
    then show ?thesis by (simp only: drop_bit_7bit)
  qed
  moreover have "length (trim_end ?s) \<le> 6"
    using trim_end_subset(2) [of ?s] by simp
  ultimately show ?thesis
    unfolding wf_address_def address_decode_def using trim_end_last [of ?s] and_0x0F_less by auto
qed

lemma decode_addrs_wf:
  "decode_addrs bytes acc = Some (as, rest) \<Longrightarrow> \<forall>a\<in>set acc. wf_address a \<Longrightarrow> length acc \<le> 10 \<Longrightarrow>
    (\<forall>a\<in>set as. wf_address a) \<and> length as \<le> 11"
proof (induction bytes acc rule: decode_addrs.induct)
  case (1 bytes acc)
  from "1.prems"(1) show ?case
    by (subst (asm) decode_addrs.simps)
      (use "1.prems"(2,3) "1.IH" in \<open>auto simp: Let_def address_decode_wf split: if_splits\<close>)
qed

text \<open>
  whatever bytes arrive, a decoded frame is well formed (calls of at most six characters
  without trailing white space, 4-bit SSIDs, at most nine digipeaters), so re-encoding it and
  decoding again reproduces it.
\<close>

theorem ax25_decode_canonical:
  assumes "ax25_decode bytes = Some f"
  shows "length (af_digipeaters f) \<le> 9 \<and> wf_address (af_dest f) \<and> wf_address (af_source f) \<and>
    (\<forall>d\<in>set (af_digipeaters f). wf_address d) \<and> ax25_decode (ax25_encode f) = Some f"
proof -
  from assms obtain addrs rest where d: "decode_addrs bytes [] = Some (addrs, rest)"
    "2 \<le> length addrs" "af_dest f = addrs ! 0" "af_source f = addrs ! 1" "af_digipeaters f = drop 2 addrs"
    by (auto simp: ax25_decode_def split: if_splits option.splits)
  from decode_addrs_wf [OF d(1)] have wf: "\<forall>a\<in>set addrs. wf_address a" "length addrs \<le> 11" by auto
  from d(2) have "0 < length addrs" "1 < length addrs" by linarith+
  with wf(1) have "wf_address (addrs ! 0)" "wf_address (addrs ! 1)" by (blast intro: nth_mem)+
  with wf d(3-5)
  have "wf_address (af_dest f)" "wf_address (af_source f)"
    "\<forall>x\<in>set (af_digipeaters f). wf_address x" "length (af_digipeaters f) \<le> 9"
    by (auto dest: in_set_dropD)
  with ax25_roundtrip [of f] show ?thesis by simp
qed

lemma ax25_decode_canonical_witness:
  "let bytes = [0x82, 0x40, 0x40, 0x40, 0x40, 0x40, 0x60, 0x84, 0x40, 0x40, 0x40, 0x40, 0x40, 0x61, 0x03, 0xF0];
       a = \<lparr>aa_call = [0x41], aa_ssid = 0\<rparr>; b = \<lparr>aa_call = [0x42], aa_ssid = 0\<rparr>;
       f = \<lparr>af_dest = a, af_source = b, af_digipeaters = [], af_info = []\<rparr>
   in length (af_digipeaters f) \<le> 9 \<and> wf_address (af_dest f) \<and> wf_address (af_source f) \<and>
    (\<forall>d\<in>set (af_digipeaters f). wf_address d) \<and> ax25_decode (ax25_encode f) = Some f"
  unfolding Let_def
  by (rule ax25_decode_canonical [where bytes = "[0x82, 0x40, 0x40, 0x40, 0x40, 0x40, 0x60,
      0x84, 0x40, 0x40, 0x40, 0x40, 0x40, 0x61, 0x03, 0xF0]"])
    (simp add: ax25_decode_def decode_addrs.simps Let_def is_last_def address_decode_def
      trim_end_def is_whitespace_def CONTROL_UI_def PID_NO_L3_def)

end
