(* ===== verification/Kiss.thy ===== *)
theory Kiss
  imports Prelude
begin

text \<open>
  KISS framing (\<open>kiss/codec.rs\<close>): the escaping encoder and the streaming decoder, whose state
  lives across \<open>push\<close> calls. The decoder is a step function, so that feeding a stream in any
  chunks is the same as feeding it whole.
\<close>

unbundle bit_operations_syntax

definition FEND :: u8 where "FEND = 0xC0"
definition FESC :: u8 where "FESC = 0xDB"
definition TFEND :: u8 where "TFEND = 0xDC"
definition TFESC :: u8 where "TFESC = 0xDD"
definition CMD_DATA :: u8 where "CMD_DATA = 0"

lemmas kiss_consts = FEND_def FESC_def TFEND_def TFESC_def CMD_DATA_def

definition kiss_escape :: "u8 \<Rightarrow> u8 list" where
  "kiss_escape b = (if b = FEND then [FESC, TFEND] else if b = FESC then [FESC, TFESC] else [b])"

definition encode_data_frame :: "u8 list \<Rightarrow> u8 list" where
  "encode_data_frame payload = [FEND, CMD_DATA] @ concat (map kiss_escape payload) @ [FEND]"

record kiss_frame =
  kf_port :: u8
  kf_cmd :: u8
  kf_data :: "u8 list"

definition kiss_is_data :: "kiss_frame \<Rightarrow> bool" where
  "kiss_is_data f \<longleftrightarrow> kf_cmd f = 0"

record kiss_decoder =
  kd_buf :: "u8 list"
  kd_in_frame :: bool
  kd_escaped :: bool

definition kiss_new :: kiss_decoder where
  "kiss_new = \<lparr>kd_buf = [], kd_in_frame = False, kd_escaped = False\<rparr>"

text \<open>\<open>None\<close> is the \<open>?\<close> on an empty buffer.\<close>

definition take_frame :: "kiss_decoder \<Rightarrow> kiss_frame option" where
  "take_frame d = (case kd_buf d of [] \<Rightarrow> None
     | cmd_byte # data \<Rightarrow>
         Some \<lparr>kf_port = drop_bit 4 cmd_byte, kf_cmd = cmd_byte AND 0x0F, kf_data = data\<rparr>)"

definition unescape :: "u8 \<Rightarrow> u8" where
  "unescape b = (if b = TFEND then FEND else if b = TFESC then FESC else b)"

definition kiss_step :: "kiss_decoder \<Rightarrow> u8 \<Rightarrow> kiss_decoder \<times> kiss_frame list" where
  "kiss_step d b =
     (if b = FEND then
        (d\<lparr>kd_buf := [], kd_escaped := False, kd_in_frame := True\<rparr>,
         if kd_in_frame d \<and> kd_buf d \<noteq> []
         then (case take_frame d of Some f \<Rightarrow> [f] | None \<Rightarrow> []) else [])
      else if b = FESC \<and> kd_in_frame d then (d\<lparr>kd_escaped := True\<rparr>, [])
      else if kd_in_frame d then
        (if kd_escaped d then d\<lparr>kd_escaped := False, kd_buf := kd_buf d @ [unescape b]\<rparr>
         else d\<lparr>kd_buf := kd_buf d @ [b]\<rparr>, [])
      else (d, []))"

definition kiss_push :: "kiss_decoder \<Rightarrow> u8 list \<Rightarrow> kiss_decoder \<times> kiss_frame list" where
  "kiss_push = transduce kiss_step"

section \<open>Round trip\<close>

lemma kiss_distinct [simp]:
  "FESC \<noteq> FEND" "TFEND \<noteq> FEND" "TFESC \<noteq> FEND" "TFEND \<noteq> FESC" "TFESC \<noteq> FESC" "CMD_DATA \<noteq> FEND"
  "CMD_DATA \<noteq> FESC" "TFEND \<noteq> TFESC"
  by (simp_all add: kiss_consts)

lemma unescape_simps [simp]: "unescape TFEND = FEND" "unescape TFESC = FESC"
  by (simp_all add: unescape_def kiss_consts)

text \<open>Inside a frame, with nothing pending, an escaped payload is appended verbatim.\<close>

lemma push_escaped:
  "kd_in_frame d \<Longrightarrow> \<not> kd_escaped d \<Longrightarrow>
    kiss_push d (concat (map kiss_escape payload)) = (d\<lparr>kd_buf := kd_buf d @ payload\<rparr>, [])"
proof (induction payload arbitrary: d)
  case (Cons b payload)
  have "kiss_push d (kiss_escape b) = (d\<lparr>kd_buf := kd_buf d @ [b]\<rparr>, [])"
    using Cons.prems by (auto simp: kiss_push_def kiss_escape_def kiss_step_def)
  with Cons.IH [of "d\<lparr>kd_buf := kd_buf d @ [b]\<rparr>"] Cons.prems show ?case
    by (simp add: kiss_push_def transduce_append)
qed (simp add: kiss_push_def)

text \<open>A \<open>FEND\<close> brings any decoder to the start of a frame.\<close>

definition kiss_ready :: "kiss_decoder \<Rightarrow> bool" where
  "kiss_ready d \<longleftrightarrow> kd_in_frame d \<and> \<not> kd_escaped d \<and> kd_buf d = []"

lemma fend_ready: "kiss_ready (fst (kiss_step d FEND))"
  by (simp add: kiss_step_def kiss_ready_def)

definition data_frame :: "u8 list \<Rightarrow> kiss_frame" where
  "data_frame payload = \<lparr>kf_port = 0, kf_cmd = 0, kf_data = payload\<rparr>"

lemma push_frame:
  assumes "kiss_ready d"
  shows "kiss_ready (fst (kiss_push d (encode_data_frame payload))) \<and>
    snd (kiss_push d (encode_data_frame payload)) = [data_frame payload]"
proof -
  let ?d1 = "fst (kiss_step d FEND)"
  let ?d2 = "fst (kiss_step ?d1 CMD_DATA)"
  have d1: "kiss_ready ?d1" by (rule fend_ready)
  then have d2: "kd_in_frame ?d2" "\<not> kd_escaped ?d2" "kd_buf ?d2 = [CMD_DATA]"
    "snd (kiss_step ?d1 CMD_DATA) = []"
    by (simp_all add: kiss_step_def kiss_ready_def)
  from assms have quiet: "snd (kiss_step d FEND) = []" by (simp add: kiss_step_def kiss_ready_def)
  let ?d3 = "?d2\<lparr>kd_buf := CMD_DATA # payload\<rparr>"
  have close: "snd (kiss_step ?d3 FEND) = [data_frame payload]" "kiss_ready (fst (kiss_step ?d3 FEND))"
    using d2(1) by (simp_all add: kiss_step_def take_frame_def data_frame_def CMD_DATA_def kiss_ready_def)
  from push_escaped [OF d2(1,2), of payload] d2(3)
  have body: "transduce kiss_step ?d2 (concat (map kiss_escape payload)) = (?d3, [])"
    by (simp add: kiss_push_def)
  show ?thesis using quiet d2(4) close body
    by (simp add: kiss_push_def encode_data_frame_def transduce_append split_beta)
qed

lemma push_frames:
  "kiss_ready d \<Longrightarrow>
    snd (kiss_push d (concat (map encode_data_frame payloads))) = map data_frame payloads"
proof (induction payloads arbitrary: d)
  case (Cons p ps)
  from push_frame [OF Cons.prems, of p] Cons.IH [of "fst (kiss_push d (encode_data_frame p))"]
  show ?case by (simp add: kiss_push_def transduce_append split_beta)
qed (simp add: kiss_push_def)

text \<open>Pushing chunk after chunk and collecting what each call returns.\<close>

definition push_chunks :: "kiss_decoder \<Rightarrow> u8 list list \<Rightarrow> kiss_frame list" where
  "push_chunks d chunks = concat (snd (map_state kiss_push d chunks))"

lemma push_chunks_whole: "push_chunks d chunks = snd (kiss_push d (concat chunks))"
proof (induction chunks arbitrary: d)
  case (Cons c cs)
  from Cons.IH [of "fst (kiss_push d c)"] show ?case
    by (simp add: push_chunks_def kiss_push_def transduce_append split_beta)
qed (simp add: push_chunks_def kiss_push_def)

text \<open>
  C38: behind any bytes and one \<open>FEND\<close>, and however the byte stream is cut into chunks, the
  decoder yields every payload of a stream of data frames, on port 0, unaltered and in order,
  the empty payloads included.
\<close>

theorem kiss_stream_recovered:
  assumes "concat chunks = noise @ [FEND] @ concat (map encode_data_frame payloads)"
  shows "push_chunks kiss_new chunks =
    snd (kiss_push kiss_new (noise @ [FEND])) @ map data_frame payloads"
proof -
  have "kiss_ready (fst (kiss_push kiss_new (noise @ [FEND])))"
    by (simp add: kiss_push_def transduce_append split_beta fend_ready)
  from push_frames [OF this, of payloads] show ?thesis
    unfolding push_chunks_whole assms append_assoc [symmetric]
    by (simp add: kiss_push_def transduce_append split_beta)
qed

lemma kiss_stream_recovered_witness:
  "push_chunks kiss_new [[0x11, 0xC0, 0xC0], [0, 0xDB], [0xDC, 0xC0]] =
    snd (kiss_push kiss_new ([0x11] @ [FEND])) @ map data_frame [[0xC0]]"
  by (rule kiss_stream_recovered)
    (simp add: encode_data_frame_def kiss_escape_def kiss_consts)

text \<open>No delimiter survives escaping.\<close>

lemma escaped_no_fend: "FEND \<notin> set (concat (map kiss_escape payload))"
  by (induction payload) (simp_all add: kiss_escape_def kiss_consts)

end
