(* ===== verification/Persist.thy ===== *)
theory Persist
  imports PttDriver
begin

text \<open>
  Channel configurations (\<open>supervisor/channel.rs\<close>) and their SQLite store
  (\<open>persist/mod.rs\<close>). The table is a list of rows ordered by the primary key; a row has the
  columns of the schema, integers being SQLite's. A statement that fails (full disk, locked
  file) is an argument of the operation, since SQLite then leaves the table as it was.
\<close>

section \<open>Channel configuration\<close>

record channel_config =
  cc_id :: channel_id
  cc_name :: string
  cc_mode :: string
  cc_device_id :: device_id
  cc_sample_rate :: u32
  cc_fanout :: u32
  cc_tx_device_id :: device_id
  cc_tx_sample_rate :: u32
  cc_ptt :: "ptt_config option"
  cc_rsid_tx :: bool
  cc_rsid_rx :: bool

record channel_state =
  cs_config :: channel_config
  cs_running :: bool

definition channel_state_new :: "channel_config \<Rightarrow> channel_state" where
  "channel_state_new config = \<lparr>cs_config = config, cs_running = True\<rparr>"

section \<open>The PTT columns\<close>

text \<open>\<open>(method, device_id, node, pin, invert, tx_delay_ms, tx_tail_ms)\<close>.\<close>

type_synonym ptt_columns = "string \<times> string \<times> string \<times> int \<times> int \<times> int \<times> int"

definition method_columns :: "ptt_method \<Rightarrow> string \<times> string \<times> int" where
  "method_columns mth = (case mth of
       MNone \<Rightarrow> (''none'', [], 0)
     | MVox \<Rightarrow> (''vox'', [], 0)
     | MSerialRts node \<Rightarrow> (''serial_rts'', node, 0)
     | MSerialDtr node \<Rightarrow> (''serial_dtr'', node, 0)
     | MCm108 node pin \<Rightarrow> (''cm108'', node, uint pin)
     | MGpio chip line \<Rightarrow> (''gpio'', chip, uint line))"

definition encode_ptt :: "ptt_config option \<Rightarrow> ptt_columns" where
  "encode_ptt ptt = (case ptt of
       None \<Rightarrow> ([], [], [], 0, 0, 0, 0)
     | Some p \<Rightarrow>
         (let dev = to_canonical_string (ptt_device_id p);
              (mth, node, pin) = method_columns (ptt_method p)
          in (mth, dev, node, pin, of_bool (ptt_invert p), uint (ptt_tx_delay_ms p), uint (ptt_tx_tail_ms p))))"

definition decode_method :: "string \<Rightarrow> string \<Rightarrow> int \<Rightarrow> ptt_method option" where
  "decode_method mth node pin =
     (if mth = ''none'' then Some MNone
      else if mth = ''vox'' then Some MVox
      else if mth = ''serial_rts'' then Some (MSerialRts node)
      else if mth = ''serial_dtr'' then Some (MSerialDtr node)
      else if mth = ''cm108'' then Some (MCm108 node (word_of_int pin))
      else if mth = ''gpio'' then Some (MGpio node (word_of_int pin))
      else None)"

definition parse_or_placeholder :: "string \<Rightarrow> device_id" where
  "parse_or_placeholder s = (case parse_device_id s of Some d \<Rightarrow> d | None \<Rightarrow> placeholder)"

definition decode_ptt :: "ptt_columns \<Rightarrow> ptt_config option" where
  "decode_ptt cols = (case cols of (mth, dev, node, pin, inverted, tx_delay, tx_tail) \<Rightarrow>
     if mth = [] then None
     else (case decode_method mth node pin of
         None \<Rightarrow> None
       | Some m \<Rightarrow> Some \<lparr>ptt_device_id = parse_or_placeholder dev, ptt_method = m,
           ptt_invert = (inverted \<noteq> 0), ptt_tx_delay_ms = word_of_int (max tx_delay 0),
           ptt_tx_tail_ms = word_of_int (max tx_tail 0)\<rparr>))"

section \<open>Rows\<close>

record channel_row =
  row_id :: int
  row_name :: string
  row_mode :: string
  row_device_id :: string
  row_sample_rate :: int
  row_fanout :: int
  row_ptt :: ptt_columns
  row_tx_device_id :: string
  row_tx_sample_rate :: int
  row_rsid_tx :: int
  row_rsid_rx :: int

definition row_of :: "channel_config \<Rightarrow> channel_row" where
  "row_of cfg =
     \<lparr>row_id = uint (cc_id cfg), row_name = cc_name cfg, row_mode = cc_mode cfg,
      row_device_id = to_canonical_string (cc_device_id cfg), row_sample_rate = uint (cc_sample_rate cfg),
      row_fanout = uint (cc_fanout cfg), row_ptt = encode_ptt (cc_ptt cfg),
      row_tx_device_id = to_canonical_string (cc_tx_device_id cfg),
      row_tx_sample_rate = uint (cc_tx_sample_rate cfg),
      row_rsid_tx = of_bool (cc_rsid_tx cfg), row_rsid_rx = of_bool (cc_rsid_rx cfg)\<rparr>"

text \<open>Reading an \<open>INTEGER\<close> as a \<open>u32\<close> fails when it does not fit.\<close>

definition get_u32 :: "int \<Rightarrow> (u32, string) result" where
  "get_u32 i = (if 0 \<le> i \<and> i < 2 ^ 32 then Ok (word_of_int i) else Err ''integer out of range'')"

definition bind_ok :: "('a, 'e) result \<Rightarrow> ('a \<Rightarrow> ('b, 'e) result) \<Rightarrow> ('b, 'e) result" where
  "bind_ok r f = (case r of Inl e \<Rightarrow> Err e | Inr x \<Rightarrow> f x)"

definition config_of :: "channel_row \<Rightarrow> (channel_config, string) result" where
  "config_of row =
     (let capture_dev = parse_or_placeholder (row_device_id row);
          tx_dev = (if row_tx_device_id row = [] then capture_dev
                    else parse_or_placeholder (row_tx_device_id row))
      in bind_ok (get_u32 (row_id row)) (\<lambda>i.
         bind_ok (get_u32 (row_sample_rate row)) (\<lambda>rate.
         bind_ok (get_u32 (row_fanout row)) (\<lambda>fanout.
         bind_ok (get_u32 (row_tx_sample_rate row)) (\<lambda>tx_rate.
         Ok \<lparr>cc_id = i, cc_name = row_name row, cc_mode = row_mode row, cc_device_id = capture_dev,
             cc_sample_rate = rate, cc_fanout = fanout, cc_tx_device_id = tx_dev,
             cc_tx_sample_rate = tx_rate, cc_ptt = decode_ptt (row_ptt row),
             cc_rsid_tx = (row_rsid_tx row \<noteq> 0), cc_rsid_rx = (row_rsid_rx row \<noteq> 0)\<rparr>)))))"

section \<open>The store\<close>

type_synonym store = "(int \<times> channel_row) list"

definition store_new :: store where "store_new = []"

text \<open>\<open>failure\<close> is the error of the statement, if it fails.\<close>

definition upsert_channel :: "string option \<Rightarrow> store \<Rightarrow> channel_config \<Rightarrow> store \<times> (unit, string) result" where
  "upsert_channel failure st cfg = (case failure of
       Some e \<Rightarrow> (st, Err e)
     | None \<Rightarrow> (bt_insert (uint (cc_id cfg)) (row_of cfg) st, Ok ()))"

fun collect_rows :: "channel_row list \<Rightarrow> (channel_config list, string) result" where
  "collect_rows [] = Ok []"
| "collect_rows (r # rs) = bind_ok (config_of r) (\<lambda>c. bind_ok (collect_rows rs) (\<lambda>cs. Ok (c # cs)))"

definition load_channels :: "store \<Rightarrow> (channel_config list, string) result" where
  "load_channels st = collect_rows (map snd st)"

section \<open>Round trips\<close>

lemma parse_or_placeholder_canonical [simp]: "parse_or_placeholder (to_canonical_string d) = d"
  by (simp add: parse_or_placeholder_def parse_canonical)

lemma ptt_roundtrip: "decode_ptt (encode_ptt ptt) = ptt"
proof (cases ptt)
  case (Some p)
  then show ?thesis
    by (cases "ptt_method p")
      (simp_all add: encode_ptt_def decode_ptt_def method_columns_def decode_method_def max_absorb1)
qed (simp add: encode_ptt_def decode_ptt_def)

lemma get_u32_uint [simp]: "get_u32 (uint w) = Ok w"
  using uint_lt2p [of w] by (simp add: get_u32_def)

lemma canonical_not_empty: "to_canonical_string d \<noteq> []"
proof (cases d)
  case (Rtl k)
  then show ?thesis by (cases k) simp_all
qed simp_all

lemma config_roundtrip: "config_of (row_of cfg) = Ok cfg"
  by (simp add: config_of_def row_of_def bind_ok_def Let_def canonical_not_empty ptt_roundtrip)

text \<open>A store whose rows all come from configurations, one per primary key, in key order.\<close>

definition store_holds :: "store \<Rightarrow> (channel_id \<times> channel_config) list \<Rightarrow> bool" where
  "store_holds st cfgs \<longleftrightarrow> bt_ok cfgs \<and> (\<forall>(i, c)\<in>set cfgs. cc_id c = i) \<and>
     st = map (\<lambda>(i, c). (uint i, row_of c)) cfgs"

lemma store_holds_new [wf_intros]: "store_holds store_new []"
  by (simp add: store_holds_def store_new_def wf_intros)

lemma bt_insert_map_uint:
  "bt_insert (uint (i :: u32)) (f v) (map (\<lambda>(i, c). (uint i, f c)) t) =
    map (\<lambda>(i, c). (uint i, f c)) (bt_insert i v t)"
  by (induction i v t rule: bt_insert.induct) (auto simp: word_less_def word_uint_eq_iff)

lemma store_holds_upsert:
  assumes "store_holds st cfgs" and "upsert_channel None st cfg = (st', r)"
  shows "store_holds st' (bt_insert (cc_id cfg) cfg cfgs) \<and> r = Ok ()"
proof -
  have "set (bt_insert i c t) \<subseteq> insert (i, c) (set t)" for i :: channel_id and c :: channel_config and t
    by (induction i c t rule: bt_insert.induct) auto
  with assms show ?thesis
    using bt_insert_map_uint [of "cc_id cfg" row_of cfg cfgs]
    by (fastforce simp: store_holds_def upsert_channel_def intro: wf_intros)
qed

lemma load_of_held:
  assumes "store_holds st cfgs"
  shows "load_channels st = Ok (map snd cfgs)"
proof -
  have "collect_rows (map (\<lambda>(i, c). row_of c) cs) = Ok (map snd cs)" for cs :: "(channel_id \<times> channel_config) list"
    by (induction cs) (auto simp: config_roundtrip bind_ok_def)
  moreover have "map snd st = map (\<lambda>(i, c). row_of c) cfgs"
    using assms by (auto simp: store_holds_def)
  ultimately show ?thesis by (simp add: load_channels_def)
qed

lemma upserts_hold:
  "store_holds st cfgs0 \<Longrightarrow>
    store_holds (foldl (\<lambda>t c. fst (upsert_channel None t c)) st cfgs)
      (foldl (\<lambda>m c. bt_insert (cc_id c) c m) cfgs0 cfgs)"
proof (induction cfgs arbitrary: st cfgs0)
  case (Cons c cfgs)
  from store_holds_upsert [OF Cons.prems, of c "fst (upsert_channel None st c)" "snd (upsert_channel None st c)"]
    Cons.IH show ?case by simp
qed simp

text \<open>
  C33: whatever configurations are written, in whatever order and however often, loading the
  store yields every channel once, in the order of the ids, with all the fields of the last
  write: device identities, PTT binding, rates and flags.
\<close>

theorem store_roundtrip:
  "\<exists>loaded. load_channels (foldl (\<lambda>t c. fst (upsert_channel None t c)) store_new cfgs) = Ok loaded \<and>
     sorted_wrt (<) (map cc_id loaded) \<and>
     map_of (map (\<lambda>c. (cc_id c, c)) loaded) = map_of (rev (map (\<lambda>c. (cc_id c, c)) cfgs))"
proof -
  let ?held = "foldl (\<lambda>m c. bt_insert (cc_id c) c m) [] cfgs"
  from upserts_hold [OF store_holds_new, of cfgs]
  have held: "store_holds (foldl (\<lambda>t c. fst (upsert_channel None t c)) store_new cfgs) ?held" .
  then have ok: "bt_ok ?held" and own: "\<forall>(i, c)\<in>set ?held. cc_id c = i"
    by (simp_all add: store_holds_def)
  from own have ids: "map (\<lambda>c. (cc_id c, c)) (map snd ?held) = ?held"
    unfolding map_map by (intro map_idI) auto
  have "map_of (foldl (\<lambda>m c. bt_insert (cc_id c) c m) t cfgs) =
      map_of t ++ map_of (rev (map (\<lambda>c. (cc_id c, c)) cfgs))" for t
    by (induction cfgs arbitrary: t) (simp_all add: map_add_def fun_eq_iff split: option.splits)
  from this [of "[]"] have "map_of ?held = map_of (rev (map (\<lambda>c. (cc_id c, c)) cfgs))" by simp
  moreover have keys: "map cc_id (map snd ?held) = map fst ?held"
    using own unfolding map_map by (intro map_cong) auto
  have "sorted_wrt (<) (map cc_id (map snd ?held))" using ok unfolding keys bt_ok_def .
  ultimately show ?thesis using load_of_held [OF held] ids by auto
qed

end
