(* ===== verification/Devices.thy ===== *)
theory Devices
  imports DeviceIds
begin

text \<open>
  The device layer of the daemon: descriptors and RTL-SDR discovery
  (\<open>device/enumerate.rs\<close>), the cache that resolves durable identities (\<open>device/cache.rs\<close>) and
  hotplug detection by diffing enumerations (\<open>device/hotplug.rs\<close>). An enumeration is the list
  of descriptors a scan returned; the audio and USB libraries behind it are not modelled.
\<close>

section \<open>Descriptors and the RTL-SDR scan\<close>

record device_descriptor =
  dd_id :: device_id
  dd_label :: string
  dd_has_capture :: bool
  dd_has_playback :: bool
  dd_needs_setup :: bool

record usb_dev =
  ud_vid :: u16
  ud_pid :: u16
  ud_serial :: "string option"
  ud_bus :: u8
  ud_ports :: string
  ud_product :: string
  ud_claimable :: bool

definition rtl_usb_ids :: "(u16 \<times> u16) list" where
  "rtl_usb_ids =
    [(0x0BDA, 0x2832), (0x0BDA, 0x2838), (0x0413, 0x6680), (0x0413, 0x6F0F),
     (0x0458, 0x707F), (0x0CCD, 0x00A9), (0x0CCD, 0x00B3), (0x0CCD, 0x00B4),
     (0x0CCD, 0x00B5), (0x0CCD, 0x00B7), (0x0CCD, 0x00B8), (0x0CCD, 0x00B9),
     (0x0CCD, 0x00C0), (0x0CCD, 0x00D3), (0x0CCD, 0x00D7), (0x0CCD, 0x00E0),
     (0x1554, 0x5020), (0x15F4, 0x0131), (0x15F4, 0x0133), (0x185B, 0x0620),
     (0x185B, 0x0650), (0x185B, 0x0680), (0x1B80, 0xD393), (0x1B80, 0xD394),
     (0x1B80, 0xD395), (0x1B80, 0xD397), (0x1B80, 0xD398), (0x1B80, 0xD39D),
     (0x1B80, 0xD3A4), (0x1B80, 0xD3A8), (0x1B80, 0xD3AF), (0x1B80, 0xD3B0),
     (0x1D19, 0x1101), (0x1D19, 0x1102), (0x1D19, 0x1103), (0x1D19, 0x1104),
     (0x1F4D, 0xA803), (0x1F4D, 0xB803), (0x1F4D, 0xC803), (0x1F4D, 0xD286),
     (0x1F4D, 0xD803)]"

definition is_rtl :: "u16 \<Rightarrow> u16 \<Rightarrow> bool" where
  "is_rtl vid pid \<longleftrightarrow> (vid, pid) \<in> set rtl_usb_ids"

definition non_empty_serial :: "usb_dev \<Rightarrow> string option" where
  "non_empty_serial d = (case ud_serial d of None \<Rightarrow> None | Some s \<Rightarrow> if s = [] then None else Some s)"

text \<open>\<open>serial_counts[s]\<close>: how many dongles of the scan report the serial \<open>s\<close>.\<close>

definition serial_count :: "usb_dev list \<Rightarrow> string \<Rightarrow> nat" where
  "serial_count rtls s = length (filter (\<lambda>d. non_empty_serial d = Some s) rtls)"

definition rtl_key_of :: "usb_dev list \<Rightarrow> usb_dev \<Rightarrow> rtl_key" where
  "rtl_key_of rtls d = (case non_empty_serial d of
       Some s \<Rightarrow> if serial_count rtls s = 1 then RtlSerial s else RtlTopo (ud_bus d) (ud_ports d)
     | None \<Rightarrow> RtlTopo (ud_bus d) (ud_ports d))"

definition rtl_descriptor :: "usb_dev list \<Rightarrow> usb_dev \<Rightarrow> device_descriptor" where
  "rtl_descriptor rtls d =
     \<lparr>dd_id = Rtl (rtl_key_of rtls d),
      dd_label = (if ud_product d = [] then ''RTL-SDR'' else ud_product d),
      dd_has_capture = True, dd_has_playback = False, dd_needs_setup = \<not> ud_claimable d\<rparr>"

definition scan_rtl :: "usb_dev list \<Rightarrow> device_descriptor list" where
  "scan_rtl listed =
     (let rtls = filter (\<lambda>d. is_rtl (ud_vid d) (ud_pid d)) listed
      in map (rtl_descriptor rtls) rtls)"

section \<open>Device cache\<close>

text \<open>The \<open>HashMap\<close> keyed by identity is kept as an ordered map; \<open>list\<close> sorts by identity anyway.\<close>

type_synonym device_cache = "(device_id \<times> device_descriptor) list"

definition cache_new :: device_cache where "cache_new = []"

definition cache_refresh :: "device_cache \<Rightarrow> device_descriptor list \<Rightarrow> device_cache \<times> device_descriptor list" where
  "cache_refresh cache enumerated =
     (foldl (\<lambda>m d. bt_insert (dd_id d) d m) [] enumerated, enumerated)"

definition cache_resolve :: "device_cache \<Rightarrow> device_id \<Rightarrow> device_descriptor option" where
  "cache_resolve cache i = map_of cache i"

definition cache_is_present :: "device_cache \<Rightarrow> device_id \<Rightarrow> bool" where
  "cache_is_present cache i \<longleftrightarrow> cache_resolve cache i \<noteq> None"

definition cache_list :: "device_cache \<Rightarrow> device_descriptor list" where
  "cache_list cache = map snd cache"

section \<open>Hotplug\<close>

datatype hotplug_event = Arrived device_descriptor | Departed device_id

text \<open>The known set, in the iteration order of its \<open>HashSet\<close>.\<close>

type_synonym hotplug_watcher = "device_id list"

definition watcher_new :: hotplug_watcher where "watcher_new = []"

definition poll :: "hotplug_watcher \<Rightarrow> device_descriptor list \<Rightarrow> hotplug_watcher \<times> hotplug_event list" where
  "poll known now =
     (let now_ids = remdups (map dd_id now);
          arrived = map Arrived (filter (\<lambda>d. dd_id d \<notin> set known) now);
          departed = map Departed (filter (\<lambda>old. old \<notin> set now_ids) known)
      in (now_ids, arrived @ departed))"

section \<open>Properties\<close>

lemma rtl_keys_distinct:
  assumes "distinct (map (\<lambda>d. (ud_bus d, ud_ports d)) rtls)" and "d \<in> set rtls" "d' \<in> set rtls"
    and "rtl_key_of rtls d = rtl_key_of rtls d'"
  shows "d = d'"
proof -
  have inj: "ud_bus d = ud_bus d' \<Longrightarrow> ud_ports d = ud_ports d' \<Longrightarrow> d = d'"
    using assms(1-3) by (auto simp: distinct_map inj_on_def)
  have one: "d = d'" if "non_empty_serial d = Some s" "non_empty_serial d' = Some s" "serial_count rtls s = 1" for s
  proof -
    from that(3) obtain x where x: "filter (\<lambda>d. non_empty_serial d = Some s) rtls = [x]"
      unfolding serial_count_def by (auto simp: length_Suc_conv)
    have "{d, d'} \<subseteq> set (filter (\<lambda>d. non_empty_serial d = Some s) rtls)"
      using that(1,2) assms(2,3) by simp
    with x show ?thesis by simp
  qed
  from assms(4) show ?thesis unfolding rtl_key_of_def
    by (auto split: option.splits if_splits intro: inj one)
qed

text \<open>
  a scan gives every RTL dongle an identity of its own, whatever serials the dongles
  report, as long as no two sit in the same physical port.
\<close>

theorem scan_ids_distinct:
  assumes "distinct (map (\<lambda>d. (ud_bus d, ud_ports d)) (filter (\<lambda>d. is_rtl (ud_vid d) (ud_pid d)) listed))"
  shows "distinct (map dd_id (scan_rtl listed))"
proof -
  let ?rtls = "filter (\<lambda>d. is_rtl (ud_vid d) (ud_pid d)) listed"
  have "distinct ?rtls" using assms by (simp only: distinct_map)
  moreover have "inj_on (rtl_key_of ?rtls) (set ?rtls)"
    by (rule inj_onI) (rule rtl_keys_distinct [OF assms])
  ultimately have "distinct (map (rtl_key_of ?rtls) ?rtls)" by (simp only: distinct_map)
  then show ?thesis
    by (simp add: scan_rtl_def Let_def rtl_descriptor_def distinct_map inj_on_def)
qed

lemma scan_ids_distinct_witness:
  "let clone = \<lambda>port. \<lparr>ud_vid = 0x0BDA, ud_pid = 0x2838, ud_serial = Some ''00000001'', ud_bus = 1,
       ud_ports = port, ud_product = [], ud_claimable = True\<rparr>
   in distinct (map dd_id (scan_rtl [clone ''4.1'', clone ''4.2'']))"
  unfolding Let_def by (rule scan_ids_distinct) simp

text \<open>Events applied to a set of present identities.\<close>

fun apply_event :: "device_id set \<Rightarrow> hotplug_event \<Rightarrow> device_id set" where
  "apply_event present (Arrived d) = insert (dd_id d) present"
| "apply_event present (Departed i) = present - {i}"

lemma apply_arrivals:
  "foldl apply_event present (map Arrived ds) = present \<union> dd_id ` set ds"
  by (induction ds arbitrary: present) auto

lemma apply_departures:
  "foldl apply_event present (map Departed is) = present - set is"
  by (induction "is" arbitrary: present) auto

lemma poll_tracks:
  "foldl apply_event (set known) (snd (poll known now)) = dd_id ` set now \<and>
    set (fst (poll known now)) = dd_id ` set now"
  by (auto simp: poll_def Let_def apply_arrivals apply_departures)

lemma poll_events:
  "Arrived d \<in> set (snd (poll known now)) \<longleftrightarrow> d \<in> set now \<and> dd_id d \<notin> set known"
  "Departed i \<in> set (snd (poll known now)) \<longleftrightarrow> i \<in> set known \<and> i \<notin> dd_id ` set now"
  by (auto simp: poll_def Let_def)

text \<open>
  over any sequence of enumerations the events of the watcher, replayed in order, yield
  exactly the devices of the last one; each poll announces an arrival only for a device the
  previous one lacked, and a departure only for one it had.
\<close>

theorem hotplug_replays_presence:
  "foldl apply_event {} (concat (snd (map_state poll watcher_new (snapshots @ [now])))) = dd_id ` set now \<and>
   (\<forall>d. Arrived d \<in> set (snd (poll known now)) \<longleftrightarrow> d \<in> set now \<and> dd_id d \<notin> set known) \<and>
   (\<forall>i. Departed i \<in> set (snd (poll known now)) \<longleftrightarrow> i \<in> set known \<and> i \<notin> dd_id ` set now)"
proof -
  have run: "foldl apply_event (set known0) (concat (snd (map_state poll known0 ss))) =
      set (fst (map_state poll known0 ss))" for known0 ss
  proof (induction ss arbitrary: known0)
    case (Cons s ss)
    have "foldl apply_event (set known0) (snd (poll known0 s)) = set (fst (poll known0 s))"
      using poll_tracks [of known0 s] by simp
    with Cons.IH [of "fst (poll known0 s)"] show ?case by (simp add: split_beta)
  qed simp
  have "set (fst (map_state poll watcher_new (snapshots @ [now]))) = dd_id ` set now"
    using poll_tracks by (simp add: map_state_append split_beta)
  with run [of watcher_new "snapshots @ [now]"] show ?thesis
    by (simp add: watcher_new_def poll_events)
qed

lemma cache_refresh_ok [wf_intros]: "bt_ok (fst (cache_refresh cache ds))"
proof -
  have "bt_ok m \<Longrightarrow> bt_ok (foldl (\<lambda>m d. bt_insert (dd_id d) d m) m ds)" for m
    by (induction ds arbitrary: m) (auto intro: wf_intros)
  then show ?thesis by (simp add: cache_refresh_def wf_intros)
qed

lemma map_of_refresh:
  "map_of (foldl (\<lambda>m d. bt_insert (dd_id d) d m) m ds) =
    map_of m ++ map_of (map (\<lambda>d. (dd_id d, d)) (rev ds))"
proof (induction ds rule: rev_induct)
  case (snoc d ds)
  then show ?case by (simp add: map_add_def fun_eq_iff)
qed simp

text \<open>What the cache resolves after a refresh: the enumerated devices, under their own identity.\<close>

lemma cache_resolve_refresh:
  "cache_resolve (fst (cache_refresh cache ds)) i = map_of (map (\<lambda>d. (dd_id d, d)) (rev ds)) i"
  by (simp add: cache_resolve_def cache_refresh_def map_of_refresh)

lemma cache_resolve_sound:
  "cache_resolve (fst (cache_refresh cache ds)) i = Some d \<Longrightarrow> d \<in> set ds \<and> dd_id d = i"
  unfolding cache_resolve_refresh by (auto dest: map_of_SomeD)

lemma cache_present_iff:
  "cache_is_present (fst (cache_refresh cache ds)) i \<longleftrightarrow> i \<in> dd_id ` set ds"
  unfolding cache_is_present_def cache_resolve_refresh
  by (auto simp: map_of_eq_None_iff image_image)

end
