(* ===== verification/Modes.thy ===== *)
theory Modes
  imports RustText
begin

text \<open>
  Mode configurations (\<open>mode/mod.rs\<close>): the parametric \<open>ModeConfig\<close>, its parser from the
  persisted mode string and its canonical string. A submode enumeration of the DSP crate is
  represented by the labels of its variants, which is what the configuration stores. Strings are
  ASCII. \<open>f32\<close> values have a type of their own; their literals, \<open>parse\<close>, \<open>Display\<close> and the
  comparisons of \<open>rsid_key\<close> are the fields of \<open>f32_text\<close>.
\<close>

record 'f f32_text =
  f32_parse :: "string \<Rightarrow> 'f option"
  f32_show :: "'f \<Rightarrow> string"
  f32_lit :: "string \<Rightarrow> 'f"
  f32_near :: "'f \<Rightarrow> 'f \<Rightarrow> string \<Rightarrow> bool"

section \<open>Submode labels of the DSP crate\<close>

definition dominoex_from_label :: "string \<Rightarrow> string option" where
  "dominoex_from_label s = (if s \<in> set
    [''dominoexmicro'', ''dominoex4'', ''dominoex5'', ''dominoex8'', ''dominoex11'',
     ''dominoex16'', ''dominoex22'', ''dominoex44'', ''dominoex88'']
    then Some s else None)"

definition thor_from_label :: "string \<Rightarrow> string option" where
  "thor_from_label s = (if s \<in> set
    [''thormicro'', ''thor4'', ''thor5'', ''thor8'', ''thor11'', ''thor16'', ''thor22'',
     ''thor25x4'', ''thor50x1'', ''thor50x2'', ''thor100'']
    then Some s else None)"

definition hell_from_label :: "string \<Rightarrow> string option" where
  "hell_from_label s = (if s \<in> set
    [''feldhell'', ''slowhell'', ''hellx5'', ''hellx9'', ''hell80'']
    then Some s else None)"

definition throb_from_label :: "string \<Rightarrow> string option" where
  "throb_from_label s = (if s \<in> set
    [''throb1'', ''throb2'', ''throb4'', ''throbx1'', ''throbx2'', ''throbx4'']
    then Some s else None)"

definition mfsk_from_label :: "string \<Rightarrow> string option" where
  "mfsk_from_label s = (if s \<in> set
    [''mfsk4'', ''mfsk8'', ''mfsk11'', ''mfsk16'', ''mfsk22'', ''mfsk31'', ''mfsk32'',
     ''mfsk64'', ''mfsk128'', ''mfsk64l'', ''mfsk128l'']
    then Some s else None)"

definition mt63_from_label :: "string \<Rightarrow> string option" where
  "mt63_from_label s = (if s \<in> set
    [''mt63_500s'', ''mt63_500l'', ''mt63_1000s'', ''mt63_1000l'', ''mt63_2000s'',
     ''mt63_2000l'']
    then Some s else None)"

definition navtex_from_label :: "string \<Rightarrow> string option" where
  "navtex_from_label s = (if s \<in> set
    [''navtex'', ''sitorb'']
    then Some s else None)"

definition wefax_from_label :: "string \<Rightarrow> string option" where
  "wefax_from_label s = (if s \<in> set
    [''wefax576'', ''wefax288'']
    then Some s else None)"

definition psk_from_label :: "string \<Rightarrow> string option" where
  "psk_from_label s = (if s \<in> set
    [''psk31'', ''psk63'', ''psk125'', ''psk250'', ''psk500'', ''psk1000'', ''qpsk31'',
     ''qpsk63'', ''qpsk125'', ''qpsk250'', ''qpsk500'', ''psk63f'', ''psk125r'', ''psk250r'',
     ''psk500r'', ''psk1000r'', ''psk63rc4'', ''psk63rc5'', ''psk63rc10'', ''psk63rc20'',
     ''psk63rc32'', ''psk125rc4'', ''psk125rc5'', ''psk125rc10'', ''psk125rc12'',
     ''psk125rc16'', ''psk250rc2'', ''psk250rc3'', ''psk250rc5'', ''psk250rc6'',
     ''psk250rc7'', ''psk500rc2'', ''psk500rc3'', ''psk500rc4'', ''psk125c12'', ''psk250c6'',
     ''psk500c2'', ''psk500c4'', ''psk1000c2'']
    then Some s else None)"

definition sstv_from_label :: "string \<Rightarrow> string option" where
  "sstv_from_label s = (if s \<in> set
    [''robot36'', ''robot72'', ''robot24'', ''bw8'', ''bw12'', ''avt90'', ''scottie1'',
     ''scottie2'', ''scottiedx'', ''martin1'', ''martin2'', ''sc2-180'', ''sc2-120'',
     ''sc2-60'', ''pd50'', ''pd90'', ''pd120'', ''pd160'', ''pd180'', ''pd240'', ''pd290'',
     ''p3'', ''p5'', ''p7'', ''mr73'', ''mr90'', ''mr115'', ''mr140'', ''mr175'', ''ml180'',
     ''ml240'', ''ml280'', ''ml320'', ''mp73'', ''mp115'', ''mp140'', ''mp175'', ''mp73-n'',
     ''mp110-n'', ''mp140-n'', ''mc110-n'', ''mc140-n'', ''mc180-n'']
    then Some s else None)"

definition jt4_from_label :: "string \<Rightarrow> string option" where
  "jt4_from_label s = (if s \<in> set [''jt4a'', ''jt4b'', ''jt4c'', ''jt4d'', ''jt4e'', ''jt4f'', ''jt4g'']
    then Some s else None)"

text \<open>Two families accept an alias; the result is the label of the variant.\<close>

definition ifkp_from_label :: "string \<Rightarrow> string option" where
  "ifkp_from_label s =
     (if s = ''ifkp'' \<or> s = ''ifkp-normal'' then Some ''ifkp''
      else if s = ''ifkp-slow'' \<or> s = ''ifkp-fast'' then Some s else None)"

definition fsq_from_label :: "string \<Rightarrow> string option" where
  "fsq_from_label s =
     (if s = ''fsq'' \<or> s = ''fsq-3'' then Some ''fsq-3''
      else if s = ''fsq-1.5'' \<or> s = ''fsq-2'' \<or> s = ''fsq-4.5'' \<or> s = ''fsq-6'' then Some s
      else None)"

definition contestia_all :: "(u16 \<times> u16) list" where
  "contestia_all =
    [(4, 125), (4, 250), (4, 500), (4, 1000), (4, 2000),
     (8, 125), (8, 250), (8, 500), (8, 1000), (8, 2000),
     (16, 250), (16, 500), (16, 1000), (16, 2000), (32, 1000),
     (32, 2000), (64, 500), (64, 1000), (64, 2000)]"

text \<open>\<open>str::parse::<u16>\<close>.\<close>

definition parse_u16 :: "string \<Rightarrow> u16 option" where
  "parse_u16 s = map_option of_nat (from_str_radix 10 65535 s)"

definition strip_prefix :: "string \<Rightarrow> string \<Rightarrow> string option" where
  "strip_prefix p s = (if take (length p) s = p then Some (drop (length p) s) else None)"

definition contestia_from_label :: "string \<Rightarrow> (u16 \<times> u16) option" where
  "contestia_from_label s =
     (case strip_prefix ''contestia'' s of None \<Rightarrow> None
      | Some rest \<Rightarrow> (case split_once (CHR ''_'') rest of None \<Rightarrow> None
        | Some (t, b) \<Rightarrow> (case parse_u16 t of None \<Rightarrow> None
          | Some tones \<Rightarrow> (case parse_u16 b of None \<Rightarrow> None
            | Some bw \<Rightarrow> if (tones, bw) \<in> set contestia_all then Some (tones, bw) else None))))"

section \<open>Configurations\<close>

datatype 'f mode_config =
    NoMode
  | Afsk1200 bool
  | Ft8
  | Cw u16 'f
  | Rtty 'f 'f 'f bool
  | Psk string 'f
  | DominoEx string 'f
  | Thor string 'f
  | Ifkp string 'f
  | Fsq string 'f string bool
  | Hell string 'f
  | Sstv string
  | Throb string 'f
  | Ft4
  | Jt65
  | Jt9
  | Wspr
  | Mfsk string 'f
  | Contestia u16 u16
  | Mt63 string 'f
  | Navtex string 'f
  | Wefax string 'f
  | Olivia u16 u16
  | Fst4 u16
  | Js8 string
  | Jt4 string
  | Msk144 'f
  | Adsb

section \<open>Parameter tails\<close>

text \<open>The \<open>HashMap\<close> of the entries, of which the last one for a key counts.\<close>

definition parse_params :: "string option \<Rightarrow> (string \<rightharpoonup> string)" where
  "parse_params tail =
     map_of (rev (map (\<lambda>(k, v). (trim k, trim v))
       (List.map_filter (split_once (CHR ''='')) (split_all (CHR '','') (case tail of None \<Rightarrow> [] | Some t \<Rightarrow> t)))))"

definition param_f :: "'f f32_text \<Rightarrow> (string \<rightharpoonup> string) \<Rightarrow> string \<Rightarrow> string \<Rightarrow> 'f" where
  "param_f F kv k d = (case kv k of None \<Rightarrow> f32_lit F d
     | Some v \<Rightarrow> (case f32_parse F v of None \<Rightarrow> f32_lit F d | Some x \<Rightarrow> x))"

definition param_u :: "(string \<rightharpoonup> string) \<Rightarrow> string \<Rightarrow> u16 \<Rightarrow> u16" where
  "param_u kv k d = (case kv k of None \<Rightarrow> d
     | Some v \<Rightarrow> (case parse_u16 v of None \<Rightarrow> d | Some x \<Rightarrow> x))"

definition param_b :: "(string \<rightharpoonup> string) \<Rightarrow> string \<Rightarrow> bool" where
  "param_b kv k = (case kv k of None \<Rightarrow> False | Some v \<Rightarrow> v = ''1'' \<or> v = ''true'')"

section \<open>Parser\<close>

definition parse_mode :: "'f f32_text \<Rightarrow> string \<Rightarrow> (string \<rightharpoonup> string) \<Rightarrow> 'f mode_config option" where
  "parse_mode F mode kv =
    (if mode = ''none'' \<or> mode = [] then Some NoMode
     else if mode = ''afsk1200'' then Some (Afsk1200 True)
     else if mode = ''ft8'' then Some Ft8
     else if mode = ''cw'' then Some (Cw (param_u kv ''wpm'' 20) (param_f F kv ''tone'' ''700.0''))
     else if mode = ''rtty'' then
       Some (Rtty (param_f F kv ''baud'' ''45.45'') (param_f F kv ''shift'' ''170.0'')
         (param_f F kv ''center'' ''2210.0'') (param_b kv ''reverse''))
     else if dominoex_from_label mode \<noteq> None then Some (DominoEx mode (param_f F kv ''center'' ''1500.0''))
     else if thor_from_label mode \<noteq> None then Some (Thor mode (param_f F kv ''center'' ''1500.0''))
     else if ifkp_from_label mode \<noteq> None then Some (Ifkp mode (param_f F kv ''center'' ''1500.0''))
     else if fsq_from_label mode \<noteq> None then
       Some (Fsq mode (param_f F kv ''center'' ''1500.0'')
         (case kv ''mycall'' of None \<Rightarrow> [] | Some s \<Rightarrow> s) (param_b kv ''directed''))
     else if hell_from_label mode \<noteq> None then Some (Hell mode (param_f F kv ''center'' ''1500.0''))
     else if sstv_from_label mode \<noteq> None then Some (Sstv mode)
     else if throb_from_label mode \<noteq> None then Some (Throb mode (param_f F kv ''center'' ''1500.0''))
     else if mfsk_from_label mode \<noteq> None then Some (Mfsk mode (param_f F kv ''center'' ''1500.0''))
     else if mt63_from_label mode \<noteq> None then Some (Mt63 mode (param_f F kv ''center'' ''1500.0''))
     else if navtex_from_label mode \<noteq> None then Some (Navtex mode (param_f F kv ''center'' ''1000.0''))
     else if wefax_from_label mode \<noteq> None then Some (Wefax mode (param_f F kv ''center'' ''1900.0''))
     else if contestia_from_label mode \<noteq> None then
       (case contestia_from_label mode of None \<Rightarrow> None | Some (tones, bw) \<Rightarrow> Some (Contestia tones bw))
     else if psk_from_label mode \<noteq> None then
       Some (Psk mode (param_f F kv ''center'' (if mode = ''psk31'' then ''1000.0'' else ''1500.0'')))
     else if mode = ''ft4'' then Some Ft4
     else if mode = ''jt65'' then Some Jt65
     else if mode = ''jt9'' then Some Jt9
     else if mode = ''wspr'' then Some Wspr
     else if mode = ''fst4'' then Some (Fst4 (param_u kv ''tr'' 15))
     else if mode = ''js8'' then
       Some (Js8 (let s = (case kv ''sub'' of None \<Rightarrow> ''normal'' | Some s \<Rightarrow> s)
         in if s = ''normal'' \<or> s = ''fast'' \<or> s = ''turbo'' \<or> s = ''slow'' then s else ''normal''))
     else if mode = ''msk144'' then Some (Msk144 (param_f F kv ''freq'' ''1500.0''))
     else if mode = ''adsb'' then Some Adsb
     else if jt4_from_label mode \<noteq> None then Some (Jt4 mode)
     else if mode = ''olivia'' then Some (Olivia (param_u kv ''tones'' 32) (param_u kv ''bw'' 1000))
     else None)"

definition mode_parse :: "'f f32_text \<Rightarrow> string \<Rightarrow> 'f mode_config option" where
  "mode_parse F s = (case split_once (CHR '':'') s of
       Some (m, t) \<Rightarrow> parse_mode F m (parse_params (Some t))
     | None \<Rightarrow> parse_mode F s (parse_params None))"

section \<open>Labels and canonical strings\<close>

definition label_or :: "string option \<Rightarrow> string \<Rightarrow> string" where
  "label_or o' d = (case o' of None \<Rightarrow> d | Some l \<Rightarrow> l)"

fun mode_label :: "'f mode_config \<Rightarrow> string" where
  "mode_label NoMode = ''none''"
| "mode_label (Afsk1200 _) = ''afsk1200''"
| "mode_label Ft8 = ''ft8''"
| "mode_label (Cw _ _) = ''cw''"
| "mode_label (Rtty _ _ _ _) = ''rtty''"
| "mode_label (Psk s _) = label_or (psk_from_label s) ''psk''"
| "mode_label (DominoEx s _) = label_or (dominoex_from_label s) ''dominoex''"
| "mode_label (Thor s _) = label_or (thor_from_label s) ''thor''"
| "mode_label (Ifkp s _) = label_or (ifkp_from_label s) ''ifkp''"
| "mode_label (Fsq s _ _ _) = label_or (fsq_from_label s) ''fsq''"
| "mode_label (Hell s _) = label_or (hell_from_label s) ''hell''"
| "mode_label (Sstv s) = label_or (sstv_from_label s) ''sstv''"
| "mode_label (Throb s _) = label_or (throb_from_label s) ''throb''"
| "mode_label (Mfsk s _) = label_or (mfsk_from_label s) ''mfsk''"
| "mode_label (Mt63 s _) = label_or (mt63_from_label s) ''mt63''"
| "mode_label (Navtex s _) = label_or (navtex_from_label s) ''navtex''"
| "mode_label (Wefax s _) = label_or (wefax_from_label s) ''wefax''"
| "mode_label (Contestia _ _) = ''contestia''"
| "mode_label Ft4 = ''ft4''"
| "mode_label Jt65 = ''jt65''"
| "mode_label Jt9 = ''jt9''"
| "mode_label Wspr = ''wspr''"
| "mode_label (Fst4 _) = ''fst4''"
| "mode_label (Js8 _) = ''js8''"
| "mode_label (Jt4 s) = label_or (jt4_from_label s) ''jt4a''"
| "mode_label (Msk144 _) = ''msk144''"
| "mode_label (Olivia _ _) = ''olivia''"
| "mode_label Adsb = ''adsb''"

abbreviation show_u16 :: "u16 \<Rightarrow> string" where "show_u16 w \<equiv> show_dec (unat w)"

definition show_bool :: "bool \<Rightarrow> string" where
  "show_bool b = (if b then ''true'' else ''false'')"

definition to_mode_string :: "'f f32_text \<Rightarrow> 'f mode_config \<Rightarrow> string" where
  "to_mode_string F c = (case c of
       Cw wpm tone \<Rightarrow> ''cw:wpm='' @ show_u16 wpm @ '',tone='' @ f32_show F tone
     | Rtty baud shift center reverse \<Rightarrow>
         ''rtty:baud='' @ f32_show F baud @ '',shift='' @ f32_show F shift @ '',center='' @ f32_show F center
         @ '',reverse='' @ show_bool reverse
     | Psk s center \<Rightarrow> s @ '':center='' @ f32_show F center
     | DominoEx s center \<Rightarrow> s @ '':center='' @ f32_show F center
     | Thor s center \<Rightarrow> s @ '':center='' @ f32_show F center
     | Ifkp s center \<Rightarrow> s @ '':center='' @ f32_show F center
     | Fsq s center mycall directed \<Rightarrow>
         s @ '':center='' @ f32_show F center @ '',mycall='' @ mycall @ '',directed='' @ show_bool directed
     | Hell s center \<Rightarrow> s @ '':center='' @ f32_show F center
     | Sstv s \<Rightarrow> s
     | Throb s center \<Rightarrow> s @ '':center='' @ f32_show F center
     | Mfsk s center \<Rightarrow> s @ '':center='' @ f32_show F center
     | Mt63 s center \<Rightarrow> s @ '':center='' @ f32_show F center
     | Navtex s center \<Rightarrow> s @ '':center='' @ f32_show F center
     | Wefax s center \<Rightarrow> s @ '':center='' @ f32_show F center
     | Contestia tones bw \<Rightarrow> ''contestia'' @ show_u16 tones @ ''_'' @ show_u16 bw
     | Fst4 tr \<Rightarrow> ''fst4:tr='' @ show_u16 tr
     | Js8 s \<Rightarrow> ''js8:sub='' @ s
     | Jt4 s \<Rightarrow> s
     | Msk144 freq \<Rightarrow> ''msk144:freq='' @ f32_show F freq
     | Olivia tones bw \<Rightarrow> ''olivia:tones='' @ show_u16 tones @ '',bw='' @ show_u16 bw
     | _ \<Rightarrow> mode_label c)"

section \<open>RSID keys\<close>

text \<open>\<open>f32_near F x l d\<close> is \<open>(x - l).abs() < d\<close>.\<close>

definition rsid_key :: "'f f32_text \<Rightarrow> 'f mode_config \<Rightarrow> string option" where
  "rsid_key F c = (case c of
       Psk s _ \<Rightarrow> Some s | DominoEx s _ \<Rightarrow> Some s | Thor s _ \<Rightarrow> Some s
     | Hell s _ \<Rightarrow> Some s | Mfsk s _ \<Rightarrow> Some s | Mt63 s _ \<Rightarrow> Some s
     | Cw _ _ \<Rightarrow> Some ''cw''
     | Jt65 \<Rightarrow> Some ''jt65''
     | Contestia tones bw \<Rightarrow> Some (''contestia'' @ show_u16 tones @ ''_'' @ show_u16 bw)
     | Olivia tones bw \<Rightarrow> Some (''olivia:tones='' @ show_u16 tones @ '',bw='' @ show_u16 bw)
     | Rtty baud _ _ _ \<Rightarrow>
         if f32_near F baud (f32_lit F ''50.0'') ''0.5'' then Some ''rtty:baud=50,shift=170''
         else if f32_near F baud (f32_lit F ''75.0'') ''0.5'' then Some ''rtty:baud=75,shift=850''
         else if f32_near F baud (f32_lit F ''45.45'') ''1.0'' then Some ''rtty''
         else None
     | _ \<Rightarrow> None)"

definition rsid_tx_key :: "'f f32_text \<Rightarrow> 'f mode_config \<Rightarrow> string option" where
  "rsid_tx_key F c = (case c of Cw _ _ \<Rightarrow> None | Jt65 \<Rightarrow> None | _ \<Rightarrow> rsid_key F c)"

definition rsid_center_hz :: "'f f32_text \<Rightarrow> 'f mode_config \<Rightarrow> 'f" where
  "rsid_center_hz F c = (case c of
       Psk _ f \<Rightarrow> f | DominoEx _ f \<Rightarrow> f | Thor _ f \<Rightarrow> f | Hell _ f \<Rightarrow> f | Mfsk _ f \<Rightarrow> f
     | Mt63 _ f \<Rightarrow> f | Rtty _ _ f _ \<Rightarrow> f | Cw _ tone \<Rightarrow> tone
     | _ \<Rightarrow> f32_lit F ''1500.0'')"

section \<open>Parameter tails round-trip\<close>

lemma parse_params_None: "parse_params None = Map.empty"
  by (simp add: parse_params_def List.map_filter_simps)

text \<open>A value that survives splitting at commas and trimming.\<close>

definition clean_val :: "string \<Rightarrow> bool" where
  "clean_val v \<longleftrightarrow> CHR '','' \<notin> set v \<and> trim v = v"

definition clean_key :: "string \<Rightarrow> bool" where
  "clean_key k \<longleftrightarrow> CHR '','' \<notin> set k \<and> CHR ''='' \<notin> set k \<and> trim k = k"

fun tail_of :: "(string \<times> string) list \<Rightarrow> string" where
  "tail_of [] = []"
| "tail_of [(k, v)] = k @ ''='' @ v"
| "tail_of ((k, v) # kvs) = k @ ''='' @ v @ '','' @ tail_of kvs"

lemma entries_of_tail:
  "kvs \<noteq> [] \<Longrightarrow> \<forall>(k, v)\<in>set kvs. clean_key k \<and> clean_val v \<Longrightarrow>
    split_all (CHR '','') (tail_of kvs) = map (\<lambda>(k, v). k @ ''='' @ v) kvs"
proof (induction kvs rule: tail_of.induct)
  case (3 k v kv kvs)
  from "3.prems"(2) have ck: "clean_key k" and cv: "clean_val v"
    and rest: "\<forall>(k, v)\<in>set (kv # kvs). clean_key k \<and> clean_val v" by auto
  have "split_all (CHR '','') ((k @ ''='' @ v) @ CHR '','' # tail_of (kv # kvs)) =
      (k @ ''='' @ v) # split_all (CHR '','') (tail_of (kv # kvs))"
    by (rule split_all_append) (use ck cv in \<open>auto simp: clean_key_def clean_val_def\<close>)
  with "3.IH" [OF _ rest] show ?case by simp
qed (auto simp: clean_key_def clean_val_def split_all_single)

lemma parse_params_tail:
  assumes "kvs \<noteq> []" and clean: "\<forall>(k, v)\<in>set kvs. clean_key k \<and> clean_val v"
  shows "parse_params (Some (tail_of kvs)) = map_of (rev kvs)"
proof -
  have "map (\<lambda>(k, v). (trim k, trim v)) (List.map_filter (split_once (CHR ''='')) (map (\<lambda>(k, v). k @ ''='' @ v) l)) = l"
    if "\<forall>(k, v)\<in>set l. clean_key k \<and> clean_val v" for l
    using that by (induction l)
      (auto simp: List.map_filter_simps split_once_append clean_key_def clean_val_def)
  from this [OF clean] show ?thesis
    by (simp add: parse_params_def entries_of_tail [OF assms])
qed

lemma mode_parse_tail:
  assumes "CHR '':'' \<notin> set m" "kvs \<noteq> []" "\<forall>(k, v)\<in>set kvs. clean_key k \<and> clean_val v"
  shows "mode_parse F (m @ CHR '':'' # tail_of kvs) = parse_mode F m (map_of (rev kvs))"
  using assms by (simp add: mode_parse_def split_once_append parse_params_tail)

lemma mode_parse_bare: "CHR '':'' \<notin> set m \<Longrightarrow> mode_parse F m = parse_mode F m (parse_params None)"
proof -
  assume "CHR '':'' \<notin> set m"
  then have "split_once (CHR '':'') m = None" by (simp only: split_once_None not_False_eq_True)
  then show ?thesis by (simp add: mode_parse_def)
qed

lemma parse_params_clean:
  assumes "parse_params tail k = Some v"
  shows "clean_val v"
proof -
  from assms have "(k, v) \<in> set (rev (map (\<lambda>(k, v). (trim k, trim v))
      (List.map_filter (split_once (CHR ''=''))
        (split_all (CHR '','') (case tail of None \<Rightarrow> [] | Some t \<Rightarrow> t)))))"
    unfolding parse_params_def by (rule map_of_SomeD)
  then obtain w k0 v0 where w: "w \<in> set (split_all (CHR '','') (case tail of None \<Rightarrow> [] | Some t \<Rightarrow> t))"
    "split_once (CHR ''='') w = Some (k0, v0)" "v = trim v0"
    by (auto simp: List.map_filter_def)
  from split_all_pieces [OF w(1)] split_once_Some [OF w(2)] have "CHR '','' \<notin> set v0" by auto
  with w(3) trim_subset [of v0] show ?thesis by (auto simp: clean_val_def)
qed

section \<open>The canonical string round-trips\<close>

text \<open>The name before the colon, and the parameters after it.\<close>

fun mode_name :: "'f mode_config \<Rightarrow> string" where
  "mode_name (Psk s _) = s"
| "mode_name (DominoEx s _) = s"
| "mode_name (Thor s _) = s"
| "mode_name (Ifkp s _) = s"
| "mode_name (Fsq s _ _ _) = s"
| "mode_name (Hell s _) = s"
| "mode_name (Sstv s) = s"
| "mode_name (Throb s _) = s"
| "mode_name (Mfsk s _) = s"
| "mode_name (Mt63 s _) = s"
| "mode_name (Navtex s _) = s"
| "mode_name (Wefax s _) = s"
| "mode_name (Jt4 s) = s"
| "mode_name (Contestia tones bw) = ''contestia'' @ show_u16 tones @ ''_'' @ show_u16 bw"
| "mode_name c = mode_label c"

definition center_param :: "'f f32_text \<Rightarrow> 'f \<Rightarrow> (string \<times> string) list" where
  "center_param F x = [(''center'', f32_show F x)]"

fun mode_params :: "'f f32_text \<Rightarrow> 'f mode_config \<Rightarrow> (string \<times> string) list" where
  "mode_params F (Cw wpm tone) = [(''wpm'', show_u16 wpm), (''tone'', f32_show F tone)]"
| "mode_params F (Rtty baud shift center reverse) =
     [(''baud'', f32_show F baud), (''shift'', f32_show F shift), (''center'', f32_show F center),
      (''reverse'', show_bool reverse)]"
| "mode_params F (Psk _ x) = center_param F x"
| "mode_params F (DominoEx _ x) = center_param F x"
| "mode_params F (Thor _ x) = center_param F x"
| "mode_params F (Ifkp _ x) = center_param F x"
| "mode_params F (Fsq _ x mycall directed) =
     center_param F x @ [(''mycall'', mycall), (''directed'', show_bool directed)]"
| "mode_params F (Hell _ x) = center_param F x"
| "mode_params F (Throb _ x) = center_param F x"
| "mode_params F (Mfsk _ x) = center_param F x"
| "mode_params F (Mt63 _ x) = center_param F x"
| "mode_params F (Navtex _ x) = center_param F x"
| "mode_params F (Wefax _ x) = center_param F x"
| "mode_params F (Fst4 tr) = [(''tr'', show_u16 tr)]"
| "mode_params F (Js8 s) = [(''sub'', s)]"
| "mode_params F (Msk144 x) = [(''freq'', f32_show F x)]"
| "mode_params F (Olivia tones bw) = [(''tones'', show_u16 tones), (''bw'', show_u16 bw)]"
| "mode_params F _ = []"

lemma to_mode_string_alt:
  "to_mode_string F c = mode_name c @ (if mode_params F c = [] then [] else CHR '':'' # tail_of (mode_params F c))"
  by (cases c) (simp_all add: to_mode_string_def center_param_def)

text \<open>The floating-point values of a configuration, and what their text must satisfy.\<close>

fun mode_floats :: "'f mode_config \<Rightarrow> 'f set" where
  "mode_floats (Cw _ x) = {x}"
| "mode_floats (Rtty x y z _) = {x, y, z}"
| "mode_floats (Psk _ x) = {x}"
| "mode_floats (DominoEx _ x) = {x}"
| "mode_floats (Thor _ x) = {x}"
| "mode_floats (Ifkp _ x) = {x}"
| "mode_floats (Fsq _ x _ _) = {x}"
| "mode_floats (Hell _ x) = {x}"
| "mode_floats (Throb _ x) = {x}"
| "mode_floats (Mfsk _ x) = {x}"
| "mode_floats (Mt63 _ x) = {x}"
| "mode_floats (Navtex _ x) = {x}"
| "mode_floats (Wefax _ x) = {x}"
| "mode_floats (Msk144 x) = {x}"
| "mode_floats _ = {}"

definition f32_roundtrips :: "'f f32_text \<Rightarrow> 'f \<Rightarrow> bool" where
  "f32_roundtrips F x \<longleftrightarrow> f32_parse F (f32_show F x) = Some x \<and> clean_val (f32_show F x)"

lemma mode_u16_show [simp]: "parse_u16 (show_u16 w) = Some w"
  using from_str_show_dec [of "unat w" 65535] by (simp add: parse_u16_def less_Suc_eq_le [symmetric])

lemma param_b_show [simp]:
  "kv k = Some (show_bool b) \<Longrightarrow> param_b kv k = b"
  by (simp add: param_b_def show_bool_def)

lemma param_f_show [simp]:
  "kv k = Some (f32_show F x) \<Longrightarrow> f32_roundtrips F x \<Longrightarrow> param_f F kv k d = x"
  by (simp add: param_f_def f32_roundtrips_def)

lemma param_u_show [simp]:
  "kv k = Some (show_u16 w) \<Longrightarrow> param_u kv k d = w"
  by (simp add: param_u_def)

lemma if_SomeE:
  assumes "Some c = (if P then x else y)"
  obtains "P" "Some c = x" | "\<not> P" "Some c = y"
  using assms by (auto split: if_splits)

lemma parse_mode_again:
  assumes "parse_mode F m kv = Some c" and fl: "\<forall>x\<in>mode_floats c. f32_roundtrips F x"
    and ct: "\<And>t b. c \<noteq> Contestia t b"
  shows "(mode_name c = m \<or> (m = [] \<and> c = NoMode)) \<and> parse_mode F m (map_of (rev (mode_params F c))) = Some c"
proof -
  note [simp] = parse_mode_def center_param_def
  show ?thesis
    using assms(1) [symmetric] fl ct unfolding parse_mode_def [of F m kv]
    by (elim if_SomeE) (simp_all add: Let_def split: option.splits if_splits, auto)
qed

text \<open>What the parser guarantees of the fields it takes from the text.\<close>

definition parsed_fields :: "(string \<rightharpoonup> string) \<Rightarrow> 'f mode_config \<Rightarrow> bool" where
  "parsed_fields kv c = (case c of
       Fsq _ _ mycall _ \<Rightarrow> mycall = [] \<or> kv ''mycall'' = Some mycall
     | Js8 s \<Rightarrow> s \<in> {''normal'', ''fast'', ''turbo'', ''slow''}
     | Contestia tones bw \<Rightarrow> (tones, bw) \<in> set contestia_all
     | _ \<Rightarrow> True)"

lemma parsed_fields_simps [simp]:
  "parsed_fields kv (Js8 s) = (s \<in> {''normal'', ''fast'', ''turbo'', ''slow''})"
  "parsed_fields kv (Contestia tones bw) = ((tones, bw) \<in> set contestia_all)"
  by (simp_all add: parsed_fields_def)

lemma contestia_from_label_in: "contestia_from_label m = Some p \<Longrightarrow> p \<in> set contestia_all"
  by (auto simp: contestia_from_label_def split: option.splits prod.splits if_splits)

lemma parse_mode_fields: "parse_mode F m kv = Some c \<Longrightarrow> parsed_fields kv c"
proof -
  assume "parse_mode F m kv = Some c"
  then have "Some c = parse_mode F m kv" by simp
  then show ?thesis
    unfolding parse_mode_def
    by (elim if_SomeE)
      (simp_all add: Let_def parsed_fields_def contestia_from_label_in split: option.splits if_splits prod.splits)
qed

lemmas from_label_defs = dominoex_from_label_def thor_from_label_def ifkp_from_label_def
  fsq_from_label_def hell_from_label_def sstv_from_label_def throb_from_label_def
  mfsk_from_label_def mt63_from_label_def navtex_from_label_def wefax_from_label_def
  psk_from_label_def jt4_from_label_def

lemma show_dec_notin: "(\<And>d. d < 36 \<Longrightarrow> digit_char d \<noteq> c) \<Longrightarrow> c \<notin> set (show_dec n)"
  by (rule show_radix_notin) simp_all

lemma digit_char_range:
  assumes "d < 36"
  shows "of_char (digit_char d) \<in> {48 .. 57} \<union> {97 .. 122 :: nat}"
  using assms by (auto simp: of_char_digit_char)

lemma digit_char_not: "d < 36 \<Longrightarrow> of_char c \<notin> {48 .. 57} \<union> {97 .. 122 :: nat} \<Longrightarrow> digit_char d \<noteq> c"
  using digit_char_range by blast

lemma show_u16_clean [simp]: "clean_val (show_u16 w)"
proof -
  have "\<not> ascii_space x" if "x \<in> set (show_u16 w)" for x
  proof
    assume "ascii_space x"
    then have "x \<notin> set (show_u16 w)"
      by (intro show_dec_notin digit_char_not) (auto simp: ascii_space_def Let_def)
    with that show False by simp
  qed
  then have "trim (show_u16 w) = show_u16 w" by (intro trim_fix) simp
  moreover have "CHR '','' \<notin> set (show_u16 w)"
    by (intro show_dec_notin digit_char_not) auto
  ultimately show ?thesis by (simp add: clean_val_def)
qed

text \<open>The canonical Contestia labels fall through every earlier test of the parser.\<close>

lemma contestia_label:
  assumes "(tones, bw) \<in> set contestia_all"
  shows "contestia_from_label (''contestia'' @ show_u16 tones @ ''_'' @ show_u16 bw) = Some (tones, bw)"
proof -
  have "CHR ''_'' \<notin> set (show_u16 tones)"
    by (intro show_dec_notin digit_char_not) auto
  then show ?thesis using assms split_once_append [of "CHR ''_''" "show_u16 tones" "show_u16 bw"]
    by (simp add: contestia_from_label_def strip_prefix_def)
qed

lemma contestia_canonical:
  assumes "(tones, bw) \<in> set contestia_all"
  shows "mode_parse F (to_mode_string F (Contestia tones bw)) = Some (Contestia tones bw)"
proof -
  have "CHR '':'' \<notin> set (''contestia'' @ show_u16 tones @ ''_'' @ show_u16 bw)"
    using show_dec_no_colon by simp
  then show ?thesis using contestia_label [OF assms]
    by (simp add: to_mode_string_def mode_parse_bare parse_mode_def from_label_defs)
qed


lemma clean_keys [simp]:
  "clean_key ''wpm''" "clean_key ''tone''" "clean_key ''baud''" "clean_key ''shift''"
  "clean_key ''center''" "clean_key ''reverse''" "clean_key ''mycall''" "clean_key ''directed''"
  "clean_key ''tr''" "clean_key ''sub''" "clean_key ''freq''" "clean_key ''tones''" "clean_key ''bw''"
  by (simp_all add: clean_key_def trim_fix ascii_space_def)

lemma clean_words [simp]:
  "clean_val []" "clean_val ''normal''" "clean_val ''fast''" "clean_val ''turbo''" "clean_val ''slow''"
  "clean_val (show_bool b)"
  by (simp_all add: clean_val_def trim_fix ascii_space_def show_bool_def)

lemma mode_params_clean:
  assumes "parsed_fields kv c" "\<And>k v. kv k = Some v \<Longrightarrow> clean_val v"
    and "\<forall>x\<in>mode_floats c. f32_roundtrips F x"
  shows "\<forall>(k, v)\<in>set (mode_params F c). clean_key k \<and> clean_val v"
  using assms
  by (cases c) (auto simp: center_param_def f32_roundtrips_def parsed_fields_def)

lemma mode_parse_split:
  assumes "mode_parse F s = Some c"
  obtains m kv where "parse_mode F m kv = Some c" "CHR '':'' \<notin> set m"
    "\<And>k v. kv k = Some v \<Longrightarrow> clean_val v"
proof (cases "split_once (CHR '':'') s")
  case None
  then have "CHR '':'' \<notin> set s" by (simp add: split_once_None)
  with assms None show ?thesis
    by (intro that [of s "parse_params None"]) (auto simp: mode_parse_def dest: parse_params_clean)
next
  case (Some mt)
  obtain m t where mt: "mt = (m, t)" by fastforce
  with Some have "CHR '':'' \<notin> set m" by (auto dest: split_once_Some)
  with assms Some mt show ?thesis
    by (intro that [of m "parse_params (Some t)"]) (auto simp: mode_parse_def dest: parse_params_clean)
qed

text \<open>
  C39: A mode string that parses can be replaced by the canonical string of its configuration:
  parsing that gives the same configuration, for every mode and whatever unknown, repeated, badly
  formed or padded parameters the first string had, if the text of each of its floating-point
  values reads back.\<close>

theorem mode_string_roundtrip:
  assumes parsed: "mode_parse F s = Some c" and fl: "\<forall>x\<in>mode_floats c. f32_roundtrips F x"
  shows "mode_parse F (to_mode_string F c) = Some c"
proof -
  obtain m kv where m: "parse_mode F m kv = Some c" "CHR '':'' \<notin> set m"
    and kv: "\<And>k v. kv k = Some v \<Longrightarrow> clean_val v" using mode_parse_split [OF parsed] by blast
  note fields = parse_mode_fields [OF m(1)]
  have clean: "\<forall>(k, v)\<in>set (mode_params F c). clean_key k \<and> clean_val v"
    by (rule mode_params_clean [OF fields kv fl])
  show ?thesis
  proof (cases "\<exists>t b. c = Contestia t b")
    case True
    with fields show ?thesis by (auto simp: contestia_canonical)
  next
    case False
    from parse_mode_again [OF m(1) fl] False
    have again: "mode_name c = m \<or> (m = [] \<and> c = NoMode)" "parse_mode F m (map_of (rev (mode_params F c))) = Some c"
      by auto
    from again(1) show ?thesis
    proof
      assume m': "mode_name c = m"
      show ?thesis
      proof (cases "mode_params F c = []")
        case True
        with again m' m(2) show ?thesis by (simp add: to_mode_string_alt mode_parse_bare parse_params_None)
      next
        case False
        with again m' m(2) clean show ?thesis
          by (simp add: to_mode_string_alt mode_parse_tail)
      qed
    next
      assume "m = [] \<and> c = NoMode"
      then show ?thesis by (simp add: to_mode_string_def mode_parse_bare parse_mode_def)
    qed
  qed
qed

text \<open>A text form of floating-point values that reads back: the literal itself.\<close>

definition literal_text :: "string f32_text" where
  "literal_text = \<lparr>f32_parse = (\<lambda>s. if clean_val s then Some s else None), f32_show = (\<lambda>s. s),
     f32_lit = (\<lambda>s. s), f32_near = (\<lambda>x y d. x = y)\<rparr>"

theorem mode_string_roundtrip_witness:
  "mode_parse literal_text (to_mode_string literal_text (Cw 30 ''700.0'')) = Some (Cw 30 ''700.0'')"
proof (rule mode_string_roundtrip [where s = "''cw:foo, wpm=9 ,wpm= 30''"])
  have "split_all (CHR '','') ''foo, wpm=9 ,wpm= 30'' = [''foo'', '' wpm=9 '', ''wpm= 30'']" by simp
  then show "mode_parse literal_text ''cw:foo, wpm=9 ,wpm= 30'' = Some (Cw 30 ''700.0'')"
    by (simp add: mode_parse_def parse_mode_def parse_params_def List.map_filter_simps
        trim_def ascii_space_def Let_def param_u_def param_f_def literal_text_def parse_u16_def from_str_radix_def to_digit_def)
  show "\<forall>x\<in>mode_floats (Cw 30 ''700.0''). f32_roundtrips literal_text x"
    by (simp add: f32_roundtrips_def literal_text_def clean_val_def trim_fix ascii_space_def)
qed

end
