(* ===== verification/Supervisor.thy ===== *)
theory Supervisor
  imports Persist Devices Interlock Modes
begin

text \<open>
  \<open>supervisor/mod.rs\<close>: the owner of the live channels, the device cache, the registry of PTT
  ports and the store. \<open>F\<close> is the text form of floating-point values that \<open>ModeConfig::parse\<close>
  uses; \<open>failure\<close> is the error of the SQLite statement an operation issues, if it fails.
\<close>

definition max_sample_rate :: u32 where "max_sample_rate = 48000"

type_synonym channel_table = "(channel_id \<times> channel_state) list"

record supervisor =
  su_channels :: channel_table
  su_devices :: device_cache
  su_ptt :: port_registry
  su_interlock :: interlock
  su_store :: store

section \<open>Operations\<close>

definition coerce_mode :: "'f f32_text \<Rightarrow> channel_config \<Rightarrow> channel_config" where
  "coerce_mode F cfg = (if mode_parse F (cc_mode cfg) = None then cfg\<lparr>cc_mode := ''none''\<rparr> else cfg)"

definition supervisor_new :: "'f f32_text \<Rightarrow> store \<Rightarrow> (supervisor, string) result" where
  "supervisor_new F st = bind_ok (load_channels st) (\<lambda>cfgs.
     Ok \<lparr>su_channels = foldl (\<lambda>t cfg. bt_insert (cc_id cfg) (channel_state_new (coerce_mode F cfg)) t) [] cfgs,
         su_devices = cache_new, su_ptt = registry_new, su_interlock = interlock_new, su_store = st\<rparr>)"

definition get_channel :: "supervisor \<Rightarrow> channel_id \<Rightarrow> channel_state option" where
  "get_channel sv i = map_of (su_channels sv) i"

definition new_config :: "channel_id \<Rightarrow> string \<Rightarrow> string \<Rightarrow> bool \<Rightarrow> bool \<Rightarrow> channel_config" where
  "new_config i name mode rsid_tx rsid_rx =
     \<lparr>cc_id = i, cc_name = name, cc_mode = mode, cc_device_id = placeholder,
      cc_sample_rate = max_sample_rate, cc_fanout = 1, cc_tx_device_id = placeholder,
      cc_tx_sample_rate = 0, cc_ptt = None, cc_rsid_tx = rsid_tx, cc_rsid_rx = rsid_rx\<rparr>"

definition put_config :: "channel_table \<Rightarrow> channel_id \<Rightarrow> channel_config \<Rightarrow> channel_table" where
  "put_config t i cfg = (case map_of t i of
       Some s \<Rightarrow> bt_insert i (s\<lparr>cs_config := cfg\<rparr>) t
     | None \<Rightarrow> bt_insert i (channel_state_new cfg) t)"

definition configure_channel :: "string option \<Rightarrow> supervisor \<Rightarrow> channel_id \<Rightarrow> string \<Rightarrow> string \<Rightarrow> bool \<Rightarrow> bool \<Rightarrow>
    supervisor \<times> (unit, string) result" where
  "configure_channel failure sv i name mode rsid_tx rsid_rx =
     (let cfg = (case get_channel sv i of
            Some state \<Rightarrow> (cs_config state)\<lparr>cc_name := name, cc_mode := mode, cc_rsid_tx := rsid_tx,
              cc_rsid_rx := rsid_rx\<rparr>
          | None \<Rightarrow> new_config i name mode rsid_tx rsid_rx)
      in case upsert_channel failure (su_store sv) cfg of
           (st, Inl e) \<Rightarrow> (sv\<lparr>su_store := st\<rparr>, Err e)
         | (st, Inr _) \<Rightarrow> (sv\<lparr>su_channels := put_config (su_channels sv) i cfg, su_store := st\<rparr>, Ok ()))"

text \<open>Both bindings change the live configuration first and persist it afterwards.\<close>

definition rebind :: "string option \<Rightarrow> supervisor \<Rightarrow> channel_id \<Rightarrow> (channel_config \<Rightarrow> channel_config) \<Rightarrow>
    supervisor \<times> (unit, string) result" where
  "rebind failure sv i change = (case get_channel sv i of
       None \<Rightarrow> (sv, Ok ())
     | Some state \<Rightarrow>
         (let cfg = change (cs_config state);
              sv' = sv\<lparr>su_channels := bt_insert i (state\<lparr>cs_config := cfg\<rparr>) (su_channels sv)\<rparr>
          in case upsert_channel failure (su_store sv') cfg of (st, r) \<Rightarrow> (sv'\<lparr>su_store := st\<rparr>, r)))"

definition configure_audio :: "string option \<Rightarrow> supervisor \<Rightarrow> channel_id \<Rightarrow> device_id \<Rightarrow> u32 \<Rightarrow> u32 \<Rightarrow>
    device_id \<Rightarrow> u32 \<Rightarrow> supervisor \<times> (unit, string) result" where
  "configure_audio failure sv i device rate fanout tx_device tx_rate = rebind failure sv i
     (\<lambda>cfg. cfg\<lparr>cc_device_id := device,
        cc_sample_rate := (if rate = 0 then max_sample_rate else rate), cc_fanout := fanout,
        cc_tx_device_id := tx_device, cc_tx_sample_rate := tx_rate\<rparr>)"

definition configure_ptt :: "string option \<Rightarrow> supervisor \<Rightarrow> channel_id \<Rightarrow> ptt_config \<Rightarrow>
    supervisor \<times> (unit, string) result" where
  "configure_ptt failure sv i ptt = rebind failure sv i (\<lambda>cfg. cfg\<lparr>cc_ptt := Some ptt\<rparr>)"

definition has_channel :: "supervisor \<Rightarrow> channel_id \<Rightarrow> bool" where
  "has_channel sv i \<longleftrightarrow> get_channel sv i \<noteq> None"

definition channel_mode :: "'f f32_text \<Rightarrow> supervisor \<Rightarrow> channel_id \<Rightarrow> 'f mode_config" where
  "channel_mode F sv i = (case get_channel sv i of None \<Rightarrow> NoMode
     | Some s \<Rightarrow> (case mode_parse F (cc_mode (cs_config s)) of None \<Rightarrow> NoMode | Some m \<Rightarrow> m))"

definition channel_rsid :: "supervisor \<Rightarrow> channel_id \<Rightarrow> bool \<times> bool" where
  "channel_rsid sv i = (case get_channel sv i of None \<Rightarrow> (False, False)
     | Some s \<Rightarrow> (cc_rsid_tx (cs_config s), cc_rsid_rx (cs_config s)))"

definition channel_ptt_timing :: "supervisor \<Rightarrow> channel_id \<Rightarrow> u32 \<times> u32" where
  "channel_ptt_timing sv i = (case get_channel sv i of None \<Rightarrow> (0, 0)
     | Some s \<Rightarrow> (case cc_ptt (cs_config s) of None \<Rightarrow> (0, 0)
         | Some p \<Rightarrow> (ptt_tx_delay_ms p, ptt_tx_tail_ms p)))"

definition snapshot :: "supervisor \<Rightarrow> channel_config list \<times> bool list" where
  "snapshot sv = (map (cs_config \<circ> snd) (su_channels sv), map (cs_running \<circ> snd) (su_channels sv))"

section \<open>The store mirrors the channels\<close>

definition configs :: "channel_table \<Rightarrow> (channel_id \<times> channel_config) list" where
  "configs t = map (\<lambda>(i, s). (i, cs_config s)) t"

definition mirrored :: "supervisor \<Rightarrow> bool" where
  "mirrored sv \<longleftrightarrow> store_holds (su_store sv) (configs (su_channels sv)) \<and>
     (\<forall>(i, s)\<in>set (su_channels sv). cs_running s)"

lemma configs_insert [simp]: "configs (bt_insert i s t) = bt_insert i (cs_config s) (configs t)"
  by (induction i s t rule: bt_insert.induct) (auto simp: configs_def)

lemma set_bt_insert_subset: "set (bt_insert k v t) \<subseteq> insert (k, v) (set t)"
  by (induction k v t rule: bt_insert.induct) auto

lemma mirrored_insert:
  assumes "mirrored sv" "cs_config s = cfg" "cc_id cfg = i" "cs_running s"
  shows "mirrored (sv\<lparr>su_channels := bt_insert i s (su_channels sv),
    su_store := fst (upsert_channel None (su_store sv) cfg)\<rparr>)"
proof -
  from assms(1) have held: "store_holds (su_store sv) (configs (su_channels sv))"
    and run: "\<forall>(i, s)\<in>set (su_channels sv). cs_running s" by (simp_all add: mirrored_def)
  from store_holds_upsert [OF held, of cfg "fst (upsert_channel None (su_store sv) cfg)"
      "snd (upsert_channel None (su_store sv) cfg)"] assms(2,3)
  have "store_holds (fst (upsert_channel None (su_store sv) cfg)) (configs (bt_insert i s (su_channels sv)))"
    by simp
  moreover have "\<forall>(i, s)\<in>set (bt_insert i s (su_channels sv)). cs_running s"
    using run assms(4) set_bt_insert_subset [of i s "su_channels sv"] by auto
  ultimately show ?thesis by (simp add: mirrored_def)
qed

lemma mirrored_new [wf_intros]:
  "mirrored \<lparr>su_channels = [], su_devices = d, su_ptt = p, su_interlock = l, su_store = store_new\<rparr>"
  using store_holds_new by (simp add: mirrored_def configs_def)

lemma mirrored_other [simp]:
  "mirrored (sv\<lparr>su_devices := d\<rparr>) = mirrored sv"
  "mirrored (sv\<lparr>su_ptt := p\<rparr>) = mirrored sv"
  "mirrored (sv\<lparr>su_interlock := l\<rparr>) = mirrored sv"
  by (simp_all add: mirrored_def)

lemma mirrored_id:
  assumes "mirrored sv" "get_channel sv i = Some s"
  shows "cc_id (cs_config s) = i" "cs_running s"
proof -
  from assms(2) have "(i, s) \<in> set (su_channels sv)" by (simp add: get_channel_def map_of_SomeD)
  with assms(1) show "cc_id (cs_config s) = i" "cs_running s"
    by (auto simp: mirrored_def store_holds_def configs_def)
qed

lemma configure_channel_mirrored:
  assumes "mirrored sv"
  shows "mirrored (fst (configure_channel failure sv i name mode rsid_tx rsid_rx))"
proof (cases failure)
  case (Some e)
  with assms show ?thesis by (simp add: configure_channel_def upsert_channel_def Let_def mirrored_def)
next
  case None
  let ?cfg = "case get_channel sv i of
      Some state \<Rightarrow> (cs_config state)\<lparr>cc_name := name, cc_mode := mode, cc_rsid_tx := rsid_tx, cc_rsid_rx := rsid_rx\<rparr>
    | None \<Rightarrow> new_config i name mode rsid_tx rsid_rx"
  let ?s = "case get_channel sv i of Some s \<Rightarrow> s\<lparr>cs_config := ?cfg\<rparr> | None \<Rightarrow> channel_state_new ?cfg"
  have "put_config (su_channels sv) i ?cfg = bt_insert i ?s (su_channels sv)"
    by (simp add: put_config_def get_channel_def split: option.splits)
  moreover have "mirrored (sv\<lparr>su_channels := bt_insert i ?s (su_channels sv),
      su_store := fst (upsert_channel None (su_store sv) ?cfg)\<rparr>)"
    by (rule mirrored_insert [OF assms])
      (auto simp: new_config_def channel_state_new_def mirrored_id [OF assms] split: option.splits)
  ultimately show ?thesis using None
    by (simp add: configure_channel_def Let_def upsert_channel_def)
qed

lemma rebind_mirrored:
  assumes "mirrored sv" "\<And>cfg. cc_id (change cfg) = cc_id cfg"
  shows "mirrored (fst (rebind None sv i change))"
proof (cases "get_channel sv i")
  case None
  with assms show ?thesis by (simp add: rebind_def)
next
  case (Some s)
  from mirrored_id [OF assms(1) Some]
  have "mirrored (sv\<lparr>su_channels := bt_insert i (s\<lparr>cs_config := change (cs_config s)\<rparr>) (su_channels sv),
      su_store := fst (upsert_channel None (su_store sv) (change (cs_config s)))\<rparr>)"
    by (intro mirrored_insert [OF assms(1)]) (auto simp: assms(2))
  with Some show ?thesis by (simp add: rebind_def Let_def upsert_channel_def)
qed


section \<open>Sequences of operations\<close>

datatype sup_op =
    OpChannel channel_id string string bool bool
  | OpAudio channel_id device_id u32 u32 device_id u32
  | OpPtt channel_id ptt_config

fun run_op :: "string option \<Rightarrow> sup_op \<Rightarrow> supervisor \<Rightarrow> supervisor \<times> (unit, string) result" where
  "run_op failure (OpChannel i name mode rsid_tx rsid_rx) sv = configure_channel failure sv i name mode rsid_tx rsid_rx"
| "run_op failure (OpAudio i device rate fanout tx_device tx_rate) sv =
     configure_audio failure sv i device rate fanout tx_device tx_rate"
| "run_op failure (OpPtt i ptt) sv = configure_ptt failure sv i ptt"

definition run_ops :: "(string option \<times> sup_op) list \<Rightarrow> supervisor \<Rightarrow> supervisor" where
  "run_ops ops sv = foldl (\<lambda>s (failure, op). fst (run_op failure op s)) sv ops"

text \<open>
  The core refuses a \<open>ConfigureChannel\<close> whose mode does not parse; the writes of the two
  binding operations are assumed to succeed.
\<close>

fun op_admissible :: "'f f32_text \<Rightarrow> string option \<times> sup_op \<Rightarrow> bool" where
  "op_admissible F (failure, OpChannel i name mode rsid_tx rsid_rx) \<longleftrightarrow> mode_parse F mode \<noteq> None"
| "op_admissible F (failure, _) \<longleftrightarrow> failure = None"

definition modes_parse :: "'f f32_text \<Rightarrow> supervisor \<Rightarrow> bool" where
  "modes_parse F sv \<longleftrightarrow> (\<forall>(i, s)\<in>set (su_channels sv). mode_parse F (cc_mode (cs_config s)) \<noteq> None)"

lemma modes_parse_insert:
  "modes_parse F sv \<Longrightarrow> mode_parse F (cc_mode (cs_config s)) \<noteq> None \<Longrightarrow>
    modes_parse F (sv\<lparr>su_channels := bt_insert i s (su_channels sv), su_store := st\<rparr>)"
  using set_bt_insert_subset [of i s "su_channels sv"] by (fastforce simp: modes_parse_def)

lemma modes_parse_get: "modes_parse F sv \<Longrightarrow> get_channel sv i = Some s \<Longrightarrow> mode_parse F (cc_mode (cs_config s)) \<noteq> None"
  by (auto simp: modes_parse_def get_channel_def dest!: map_of_SomeD)

lemma rebind_modes_parse:
  assumes "modes_parse F sv" "\<And>cfg. cc_mode (change cfg) = cc_mode cfg"
  shows "modes_parse F (fst (rebind failure sv i change))"
proof (cases "get_channel sv i")
  case None
  with assms show ?thesis by (simp add: rebind_def)
next
  case (Some s)
  have "modes_parse F (sv\<lparr>su_channels := bt_insert i (s\<lparr>cs_config := change (cs_config s)\<rparr>) (su_channels sv),
      su_store := fst (upsert_channel failure (su_store sv) (change (cs_config s)))\<rparr>)"
    by (rule modes_parse_insert [OF assms(1)]) (simp add: assms(2) modes_parse_get [OF assms(1) Some, simplified])
  with Some show ?thesis by (simp add: rebind_def Let_def split_beta)
qed

lemma configure_channel_modes_parse:
  assumes "modes_parse F sv" "mode_parse F mode \<noteq> None"
  shows "modes_parse F (fst (configure_channel failure sv i name mode rsid_tx rsid_rx))"
proof (cases failure)
  case (Some e)
  with assms show ?thesis by (simp add: configure_channel_def upsert_channel_def Let_def modes_parse_def)
next
  case None
  with assms modes_parse_insert [OF assms(1)] show ?thesis
    by (auto simp: configure_channel_def upsert_channel_def Let_def put_config_def get_channel_def
        new_config_def channel_state_new_def split: option.splits)
qed

lemma run_op_invariant:
  assumes "mirrored sv" "modes_parse F sv" "op_admissible F (failure, op)"
  shows "mirrored (fst (run_op failure op sv)) \<and> modes_parse F (fst (run_op failure op sv))"
  using assms
  by (cases op) (auto simp: configure_channel_mirrored configure_channel_modes_parse
      configure_audio_def configure_ptt_def intro!: rebind_mirrored rebind_modes_parse)

lemma run_ops_invariant:
  "mirrored sv \<Longrightarrow> modes_parse F sv \<Longrightarrow> \<forall>o'\<in>set ops. op_admissible F o' \<Longrightarrow>
    mirrored (run_ops ops sv) \<and> modes_parse F (run_ops ops sv)"
proof (induction ops arbitrary: sv)
  case (Cons o' ops)
  obtain failure op where o': "o' = (failure, op)" by fastforce
  with run_op_invariant [of sv F failure op] Cons show ?case by (simp add: run_ops_def)
qed (simp add: run_ops_def)

lemma rebuild_channels:
  assumes "bt_ok (configs t)" "\<forall>(i, s)\<in>set t. cs_running s \<and> cc_id (cs_config s) = i \<and>
      mode_parse F (cc_mode (cs_config s)) \<noteq> None"
  shows "foldl (\<lambda>t cfg. bt_insert (cc_id cfg) (channel_state_new (coerce_mode F cfg)) t) [] (map snd (configs t)) = t"
proof -
  let ?step = "\<lambda>t cfg. bt_insert (cc_id cfg) (channel_state_new (coerce_mode F cfg)) t"
  have entry: "?step m (cs_config s) = bt_insert i s m" if "(i, s) \<in> set t" for i s m
  proof -
    from that assms(2) have s: "cs_running s" "cc_id (cs_config s) = i" "mode_parse F (cc_mode (cs_config s)) \<noteq> None"
      by auto
    then show ?thesis
      by (cases s) (auto simp: channel_state_new_def coerce_mode_def)
  qed
  have fold: "foldl ?step m (map snd (configs u)) = foldl (\<lambda>m (i, s). bt_insert i s m) m u" if "set u \<subseteq> set t" for u m
    using that by (induction u arbitrary: m) (auto simp: configs_def entry)
  have ok: "bt_ok t" using assms(1) by (simp add: bt_ok_def configs_def comp_def case_prod_unfold)
  have keep: "bt_ok m \<Longrightarrow> bt_ok (foldl (\<lambda>m (i, s). bt_insert i s m) m u) \<and>
      map_of (foldl (\<lambda>m (i, s). bt_insert i s m) m u) = map_of m ++ map_of (rev u)"
    for m and u :: channel_table
  proof (induction u arbitrary: m)
    case (Cons x u)
    obtain i s where x: "x = (i, s)" by fastforce
    from Cons.IH [OF bt_ok_insert [OF Cons.prems]] show ?case
      by (simp add: x map_add_upd map_add_def fun_eq_iff split: option.splits)
  qed simp
  have rev_t: "map_of (rev t) = map_of t"
    using bt_ok_distinct [OF ok] by (simp add: map_of_inject_set rev_map [symmetric])
  from keep [OF bt_ok_Nil, of t] have "foldl (\<lambda>m (i, s). bt_insert i s m) [] t = t"
    by (intro bt_ext ok) (simp_all add: rev_t)
  with fold [of t "[]"] show ?thesis by simp
qed

text \<open>
  C34: After any sequence of configurations, starting from an empty store, a restart finds the
  channels as they were: the supervisor built from the store has the same channel table, as long
  as the writes of the audio and PTT bindings succeeded (writes of \<open>ConfigureChannel\<close> may fail)
  and modes were checked before they were configured.\<close>

theorem restart_restores_channels:
  assumes start: "supervisor_new F store_new = Ok sv0" and ops: "\<forall>o'\<in>set ops. op_admissible F o'"
  shows "\<exists>sv'. supervisor_new F (su_store (run_ops ops sv0)) = Ok sv' \<and>
    su_channels sv' = su_channels (run_ops ops sv0)"
proof -
  let ?sv = "run_ops ops sv0"
  from start have sv0: "sv0 = \<lparr>su_channels = [], su_devices = cache_new, su_ptt = registry_new,
      su_interlock = interlock_new, su_store = store_new\<rparr>"
    by (simp add: supervisor_new_def load_channels_def store_new_def bind_ok_def)
  have "mirrored sv0" "modes_parse F sv0" by (simp_all add: sv0 mirrored_new modes_parse_def)
  from run_ops_invariant [OF this ops] have mir: "mirrored ?sv" and modes: "modes_parse F ?sv" by simp_all
  then have held: "store_holds (su_store ?sv) (configs (su_channels ?sv))"
    and run: "\<forall>(i, s)\<in>set (su_channels ?sv). cs_running s" by (simp_all add: mirrored_def)
  have "foldl (\<lambda>t cfg. bt_insert (cc_id cfg) (channel_state_new (coerce_mode F cfg)) t) []
      (map snd (configs (su_channels ?sv))) = su_channels ?sv"
    by (rule rebuild_channels) (use held run modes in \<open>fastforce simp: store_holds_def configs_def modes_parse_def\<close>)+
  then show ?thesis by (simp add: supervisor_new_def load_of_held [OF held] bind_ok_def)
qed

theorem restart_restores_channels_witness:
  "\<exists>sv'. supervisor_new literal_text (su_store (run_ops
      [(None, OpChannel 3 ''vfo'' ''ft8'' True False), (Some ''full'', OpChannel 4 ''b'' ''jt9'' True True),
       (None, OpAudio 3 placeholder 0 1 placeholder 0)]
      \<lparr>su_channels = [], su_devices = cache_new, su_ptt = registry_new, su_interlock = interlock_new,
       su_store = store_new\<rparr>)) = Ok sv' \<and>
    su_channels sv' = su_channels (run_ops
      [(None, OpChannel 3 ''vfo'' ''ft8'' True False), (Some ''full'', OpChannel 4 ''b'' ''jt9'' True True),
       (None, OpAudio 3 placeholder 0 1 placeholder 0)]
      \<lparr>su_channels = [], su_devices = cache_new, su_ptt = registry_new, su_interlock = interlock_new,
       su_store = store_new\<rparr>)"
proof (rule restart_restores_channels)
  show "supervisor_new literal_text store_new = Ok \<lparr>su_channels = [], su_devices = cache_new,
      su_ptt = registry_new, su_interlock = interlock_new, su_store = store_new\<rparr>"
    by (simp add: supervisor_new_def load_channels_def store_new_def bind_ok_def)
  show "\<forall>o'\<in>set [(None, OpChannel 3 ''vfo'' ''ft8'' True False), (Some ''full'', OpChannel 4 ''b'' ''jt9'' True True),
       (None, OpAudio 3 placeholder 0 1 placeholder 0)]. op_admissible literal_text o'"
    by (simp add: mode_parse_def parse_mode_def from_label_defs contestia_from_label_def strip_prefix_def)
qed

text \<open>
  A write error does not undo a binding. When the store fails, \<open>configure_channel\<close> changes
  nothing, but \<open>configure_audio\<close> reports the error with the new binding already live: the channel
  table differs from what a restart reads back.\<close>

theorem failed_binding_stays_live:
  "fst (configure_channel (Some e) sv i name mode rsid_tx rsid_rx) = sv \<and>
   (\<exists>sv1 r sv'. configure_audio (Some e) (run_ops [(None, OpChannel 7 ''vfo'' ''ft8'' True False)]
        \<lparr>su_channels = [], su_devices = cache_new, su_ptt = registry_new, su_interlock = interlock_new,
         su_store = store_new\<rparr>) 7 (RtlTcp ''sdr'' 1234) 0 1 placeholder 0 = (sv1, r) \<and>
      r = Err e \<and> supervisor_new literal_text (su_store sv1) = Ok sv' \<and>
      (case get_channel sv1 7 of Some s \<Rightarrow> cc_device_id (cs_config s) = RtlTcp ''sdr'' 1234 | None \<Rightarrow> False) \<and>
      (case get_channel sv' 7 of Some s \<Rightarrow> cc_device_id (cs_config s) = placeholder | None \<Rightarrow> False))"
proof
  show "fst (configure_channel (Some e) sv i name mode rsid_tx rsid_rx) = sv"
    by (simp add: configure_channel_def upsert_channel_def Let_def)
next
  have "mode_parse literal_text ''ft8'' = Some Ft8"
    by (simp add: mode_parse_def parse_mode_def)
  then show "\<exists>sv1 r sv'. configure_audio (Some e) (run_ops [(None, OpChannel 7 ''vfo'' ''ft8'' True False)]
        \<lparr>su_channels = [], su_devices = cache_new, su_ptt = registry_new, su_interlock = interlock_new,
         su_store = store_new\<rparr>) 7 (RtlTcp ''sdr'' 1234) 0 1 placeholder 0 = (sv1, r) \<and>
      r = Err e \<and> supervisor_new literal_text (su_store sv1) = Ok sv' \<and>
      (case get_channel sv1 7 of Some s \<Rightarrow> cc_device_id (cs_config s) = RtlTcp ''sdr'' 1234 | None \<Rightarrow> False) \<and>
      (case get_channel sv' 7 of Some s \<Rightarrow> cc_device_id (cs_config s) = placeholder | None \<Rightarrow> False)"
    by (simp add: configure_audio_def run_ops_def configure_channel_def rebind_def get_channel_def
        upsert_channel_def put_config_def new_config_def channel_state_new_def store_new_def Let_def
        supervisor_new_def load_channels_def config_roundtrip bind_ok_def coerce_mode_def)
qed

end
