(* ===== verification/Registry.thy ===== *)
theory Registry
  imports Modes
begin

text \<open>
  \<open>mode/registry.rs\<close>: which demodulator and which modulator serve a mode configuration. The
  signal processing objects themselves are not modelled: a demodulator is its class, streaming
  or windowed, a modulator the configuration it is built from. \<open>Option::expect\<close> is modelled as
  \<open>None\<close> for the panic. Also the block sizes of \<open>modes/olivia.rs\<close>, which depend on the same
  configuration.
\<close>

datatype demod_kind = DkNone | DkStreaming | DkWindowed

definition expect :: "'a option \<Rightarrow> 'b \<Rightarrow> 'b option" where
  "expect o' r = map_option (\<lambda>_. r) o'"

definition demod_kind_of :: "'f mode_config \<Rightarrow> demod_kind option" where
  "demod_kind_of c = (case c of
       NoMode \<Rightarrow> Some DkNone
     | Psk s _ \<Rightarrow> expect (psk_from_label s) DkStreaming
     | DominoEx s _ \<Rightarrow> expect (dominoex_from_label s) DkStreaming
     | Thor s _ \<Rightarrow> expect (thor_from_label s) DkStreaming
     | Ifkp s _ \<Rightarrow> expect (ifkp_from_label s) DkStreaming
     | Fsq s _ _ _ \<Rightarrow> expect (fsq_from_label s) DkStreaming
     | Hell s _ \<Rightarrow> expect (hell_from_label s) DkStreaming
     | Sstv s \<Rightarrow> expect (sstv_from_label s) DkStreaming
     | Throb s _ \<Rightarrow> expect (throb_from_label s) DkStreaming
     | Mfsk s _ \<Rightarrow> expect (mfsk_from_label s) DkStreaming
     | Mt63 s _ \<Rightarrow> expect (mt63_from_label s) DkStreaming
     | Navtex s _ \<Rightarrow> expect (navtex_from_label s) DkStreaming
     | Wefax s _ \<Rightarrow> expect (wefax_from_label s) DkStreaming
     | Jt4 s \<Rightarrow> expect (jt4_from_label s) DkWindowed
     | Ft8 \<Rightarrow> Some DkWindowed
     | Ft4 \<Rightarrow> Some DkWindowed
     | Jt65 \<Rightarrow> Some DkWindowed
     | Jt9 \<Rightarrow> Some DkWindowed
     | Wspr \<Rightarrow> Some DkWindowed
     | Fst4 _ \<Rightarrow> Some DkWindowed
     | Js8 _ \<Rightarrow> Some DkWindowed
     | Afsk1200 _ \<Rightarrow> Some DkStreaming
     | Cw _ _ \<Rightarrow> Some DkStreaming
     | Rtty _ _ _ _ \<Rightarrow> Some DkStreaming
     | Contestia _ _ \<Rightarrow> Some DkStreaming
     | Msk144 _ \<Rightarrow> Some DkStreaming
     | Olivia _ _ \<Rightarrow> Some DkStreaming
     | Adsb \<Rightarrow> Some DkStreaming)"

datatype 'f modulator = NullModulator | ModulatorFor "'f mode_config"

text \<open>The outer option is the panic, the inner one \<open>build_modulator\<close>'s own result.\<close>

definition build_modulator :: "'f mode_config \<Rightarrow> 'f modulator option option" where
  "build_modulator c = (case c of
       NoMode \<Rightarrow> Some (Some NullModulator)
     | Psk s _ \<Rightarrow> expect (psk_from_label s) (Some (ModulatorFor c))
     | DominoEx s _ \<Rightarrow> expect (dominoex_from_label s) (Some (ModulatorFor c))
     | Thor s _ \<Rightarrow> expect (thor_from_label s) (Some (ModulatorFor c))
     | Ifkp s _ \<Rightarrow> expect (ifkp_from_label s) (Some (ModulatorFor c))
     | Fsq s _ _ _ \<Rightarrow> expect (fsq_from_label s) (Some (ModulatorFor c))
     | Hell s _ \<Rightarrow> expect (hell_from_label s) (Some (ModulatorFor c))
     | Sstv s \<Rightarrow> expect (sstv_from_label s) (Some (ModulatorFor c))
     | Throb s _ \<Rightarrow> expect (throb_from_label s) (Some (ModulatorFor c))
     | Mfsk s _ \<Rightarrow> expect (mfsk_from_label s) (Some (ModulatorFor c))
     | Mt63 s _ \<Rightarrow> expect (mt63_from_label s) (Some (ModulatorFor c))
     | Navtex s _ \<Rightarrow> expect (navtex_from_label s) (Some (ModulatorFor c))
     | Wefax s _ \<Rightarrow> expect (wefax_from_label s) (Some (ModulatorFor c))
     | Jt4 s \<Rightarrow> expect (jt4_from_label s) (Some (ModulatorFor c))
     | _ \<Rightarrow> Some (Some (ModulatorFor c)))"

text \<open>
  \<open>tx_slot_s\<close> is \<open>Some\<close> when the modulator's shape is windowed; the shape is the one the mode
  declares for both directions.
\<close>

definition tx_slotted :: "'f mode_config \<Rightarrow> bool option" where
  "tx_slotted c = (case build_modulator c of None \<Rightarrow> None
     | Some None \<Rightarrow> Some False
     | Some (Some NullModulator) \<Rightarrow> Some False
     | Some (Some (ModulatorFor c')) \<Rightarrow> Some (case c' of
           Ft8 \<Rightarrow> True | Ft4 \<Rightarrow> True | Jt65 \<Rightarrow> True | Jt9 \<Rightarrow> True | Wspr \<Rightarrow> True | Fst4 _ \<Rightarrow> True
         | Js8 _ \<Rightarrow> True | Jt4 _ \<Rightarrow> True | _ \<Rightarrow> False))"

text \<open>\<open>u32::trailing_zeros\<close> of the tone count, and the symbols of a 64-chip block; division by zero panics.\<close>

definition chips_per_symbol :: "u32 \<Rightarrow> nat" where
  "chips_per_symbol tones = length (takeWhile (\<lambda>n. \<not> bit tones n) [0..<32])"

definition symbols_per_char :: "u32 \<Rightarrow> nat option" where
  "symbols_per_char tones = (let c = chips_per_symbol tones in
     if c = 0 then None else Some ((64 + c - 1) div c))"

section \<open>Properties\<close>

lemma served_parsed:
  assumes "Some c = parse_mode F m kv"
  shows "(demod_kind_of c = Some DkNone \<longleftrightarrow> c = NoMode) \<and> demod_kind_of c \<noteq> None \<and>
    (\<exists>md. build_modulator c = Some (Some md)) \<and>
    tx_slotted c = Some (demod_kind_of c = Some DkWindowed)"
  using assms unfolding parse_mode_def
  by (elim if_SomeE)
    (simp_all add: demod_kind_of_def build_modulator_def tx_slotted_def expect_def Let_def
      split: option.splits if_splits prod.splits)

text \<open>
  No \<open>expect\<close> of the registry can panic on a configuration that parsed: it has a demodulator
  class, which is \<open>None\<close> only for the inert mode, and a modulator; it transmits on a slot grid
  exactly when it is decoded in windows.\<close>

theorem parsed_modes_are_served:
  assumes "mode_parse F s = Some c"
  shows "(demod_kind_of c = Some DkNone \<longleftrightarrow> c = NoMode) \<and> demod_kind_of c \<noteq> None \<and>
    (\<exists>md. build_modulator c = Some (Some md)) \<and>
    tx_slotted c = Some (demod_kind_of c = Some DkWindowed)"
  using mode_parse_split [OF assms] served_parsed by metis

theorem parsed_modes_are_served_witness:
  "demod_kind_of (Jt4 ''jt4b'' :: string mode_config) \<noteq> None"
  using parsed_modes_are_served [of literal_text "''jt4b''" "Jt4 ''jt4b''"]
  by (simp add: mode_parse_def parse_mode_def from_label_defs contestia_from_label_def strip_prefix_def)

lemma chips_odd: "chips_per_symbol tones = 0 \<longleftrightarrow> odd tones"
proof -
  have "[0..<32] = 0 # [1..<32 :: nat]" by (simp add: upt_rec)
  then show ?thesis by (simp add: chips_per_symbol_def bit_0)
qed

text \<open>
  The parser accepts any tone count for Olivia. For exactly the odd ones a symbol carries no
  chip: the transmitter splits its chips into chunks of that size and the receiver divides the
  block length by it, and both panic.\<close>

theorem odd_olivia_tones_panic:
  "mode_parse F ''olivia:tones=31,bw=1000'' = Some (Olivia 31 1000) \<and>
   (chips_per_symbol (ucast tones) = 0 \<longleftrightarrow> odd (tones :: u16)) \<and>
   (symbols_per_char (ucast tones) = None \<longleftrightarrow> odd tones)"
proof (intro conjI)
  have "split_all (CHR '','') ''tones=31,bw=1000'' = [''tones=31'', ''bw=1000'']" by simp
  then show "mode_parse F ''olivia:tones=31,bw=1000'' = Some (Olivia 31 1000)"
    by (simp add: mode_parse_def parse_mode_def from_label_defs contestia_from_label_def strip_prefix_def
        parse_params_def List.map_filter_simps trim_fix ascii_space_def param_u_def parse_u16_def
        from_str_radix_def to_digit_def)
  have "odd (ucast tones :: u32) \<longleftrightarrow> odd tones"
    unfolding bit_0 [symmetric] by (simp add: bit_ucast_iff)
  then show "chips_per_symbol (ucast tones) = 0 \<longleftrightarrow> odd tones" by (simp add: chips_odd)
  then show "symbols_per_char (ucast tones) = None \<longleftrightarrow> odd tones"
    by (simp add: symbols_per_char_def Let_def)
qed

end
