(* ===== verification/CoreTypes.thy ===== *)
theory CoreTypes
  imports PttDriver
begin

text \<open>The error types of the core: \<open>audio/mod.rs\<close> and \<open>core/error.rs\<close>.\<close>

datatype audio_error =
    DeviceNotFound string
  | NoUsableFormat string
  | RateTooHigh u32 u32
  | AudioIo string
  | AudioUnsupported
  | UsbClaim string string
  | UsbTransfer string
  | UsbLost string
  | UnsupportedSampleRate u32
  | UnsupportedTuner
  | TunerFreqRange u32

datatype core_error =
    UnknownChannel channel_id
  | UnknownMode string
  | PictureError string
  | PersistError string
  | AudioFault audio_error
  | PttFault ptt_error
  | Unimplemented string
  | SdrRequired channel_id
  | InvalidArgument string
  | CoreClosed

end
