(* ===== verification/Sdr.thy ===== *)
theory Sdr
  imports Complex_Main Registry Events CoreTypes
begin

text \<open>
  The SDR control cell (\<open>audio/sdr/mod.rs\<close>) and the operations of the core on it
  (\<open>core/mod.rs\<close>). The cell is one record; the handles that share it are the channel id under
  which the core keeps it. Frequencies and gains are values of a type \<open>'n\<close> whose arithmetic is
  the record \<open>hz_math\<close>: the operations and comparisons of \<open>f64\<close>/\<open>f32\<close> that the code uses.
\<close>

record 'n hz_math =
  hz_lit :: "string \<Rightarrow> 'n"
  hz_of_u32 :: "u32 \<Rightarrow> 'n"
  hz_sub :: "'n \<Rightarrow> 'n \<Rightarrow> 'n"
  hz_add :: "'n \<Rightarrow> 'n \<Rightarrow> 'n"
  hz_mul :: "'n \<Rightarrow> 'n \<Rightarrow> 'n"
  hz_abs :: "'n \<Rightarrow> 'n"
  hz_le :: "'n \<Rightarrow> 'n \<Rightarrow> bool"
  hz_less :: "'n \<Rightarrow> 'n \<Rightarrow> bool"
  hz_max :: "'n \<Rightarrow> 'n \<Rightarrow> 'n"
  hz_f32 :: "'n \<Rightarrow> 'n"
  hz_finite :: "'n \<Rightarrow> bool"

text \<open>Arithmetic on texts, for the worked examples.\<close>

definition demo_hz :: "string hz_math" where
  "demo_hz = \<lparr>hz_lit = (\<lambda>s. s), hz_of_u32 = (\<lambda>_. ''0.0''), hz_sub = (\<lambda>a b. a), hz_add = (\<lambda>a b. a),
     hz_mul = (\<lambda>a b. a), hz_abs = (\<lambda>a. a), hz_le = (\<lambda>a b. True), hz_less = (\<lambda>a b. False), hz_max = (\<lambda>a b. a),
     hz_f32 = (\<lambda>a. a), hz_finite = (\<lambda>_. True)\<rparr>"

section \<open>Tuner tables\<close>

definition tuner_name :: "u32 \<Rightarrow> string" where
  "tuner_name t =
     (if t = 1 then ''E4000'' else if t = 2 then ''FC0012'' else if t = 3 then ''FC0013''
      else if t = 4 then ''FC2580'' else if t = 5 then ''R820T'' else if t = 6 then ''R828D''
      else ''unknown'')"

definition tuner_freq_range :: "'n hz_math \<Rightarrow> u32 \<Rightarrow> 'n \<times> 'n" where
  "tuner_freq_range H t =
     (if t = 1 then (hz_lit H ''52000000.0'', hz_lit H ''2200000000.0'')
      else if t = 2 \<or> t = 3 then (hz_lit H ''22000000.0'', hz_lit H ''1100000000.0'')
      else if t = 4 then (hz_lit H ''146000000.0'', hz_lit H ''924000000.0'')
      else if t = 5 \<or> t = 6 then (hz_lit H ''24000000.0'', hz_lit H ''1766000000.0'')
      else (hz_lit H ''24000000.0'', hz_lit H ''1766000000.0''))"

definition tuner_gains_db :: "'n hz_math \<Rightarrow> u32 \<Rightarrow> 'n list" where
  "tuner_gains_db H t = map (hz_lit H)
     (if t = 5 \<or> t = 6 then
        [''0.0'', ''0.9'', ''1.4'', ''2.7'', ''3.7'', ''7.7'', ''8.7'', ''12.5'', ''14.4'', ''15.7'',
         ''16.6'', ''19.7'', ''20.7'', ''22.9'', ''25.4'', ''28.0'', ''29.7'', ''32.8'', ''33.8'',
         ''36.4'', ''37.2'', ''38.6'', ''40.2'', ''42.1'', ''43.4'', ''43.9'', ''44.5'', ''48.0'', ''49.6'']
      else if t = 1 then
        [''-1.0'', ''1.5'', ''4.0'', ''6.5'', ''9.0'', ''11.5'', ''14.0'', ''16.5'', ''19.0'', ''21.5'',
         ''24.0'', ''29.0'', ''34.0'', ''42.0'']
      else [''0.0'', ''5.0'', ''10.0'', ''15.0'', ''20.0'', ''25.0''])"

definition default_capture_rate :: u32 where "default_capture_rate = 240000"

definition supported_sample_rates :: "u32 list" where
  "supported_sample_rates =
     [default_capture_rate, 250000, 1024000, 1536000, 1792000, 1920000, 2048000, 2160000, 2400000,
      2560000, 2880000, 3200000]"

definition bias_tee_supported :: "u32 \<Rightarrow> bool" where
  "bias_tee_supported t \<longleftrightarrow> t = 5 \<or> t = 6"

definition direct_sampling_supported :: "u32 \<Rightarrow> bool" where
  "direct_sampling_supported t = True"

definition direct_sampling_q_branch :: u32 where "direct_sampling_q_branch = 2"

text \<open>\<open>min_by\<close> keeps the first of several equally near entries.\<close>

fun nearest :: "'n hz_math \<Rightarrow> 'n \<Rightarrow> 'n list \<Rightarrow> 'n \<Rightarrow> 'n" where
  "nearest H want [] best = best"
| "nearest H want (g # gs) best =
     nearest H want gs (if hz_less H (hz_abs H (hz_sub H g want)) (hz_abs H (hz_sub H best want)) then g else best)"

definition snap_gain :: "'n hz_math \<Rightarrow> 'n list \<Rightarrow> 'n \<Rightarrow> 'n" where
  "snap_gain H table want = (case table of [] \<Rightarrow> want | g # gs \<Rightarrow> nearest H want gs g)"

section \<open>Tune planning\<close>

definition plan_tune :: "'n hz_math \<Rightarrow> 'n \<Rightarrow> u32 \<Rightarrow> 'n \<Rightarrow> 'n \<times> 'n" where
  "plan_tune H center capture_rate target =
     (let rate = hz_of_u32 H capture_rate; max_offset = hz_mul H rate (hz_lit H ''0.4'')
      in if center \<noteq> hz_lit H ''0.0'' \<and> hz_le H (hz_abs H (hz_sub H target center)) max_offset
         then (center, hz_f32 H (hz_sub H target center))
         else (let offset = hz_mul H rate (hz_lit H ''0.25'')
               in (hz_sub H target offset, hz_f32 H offset)))"

section \<open>The control cell\<close>

datatype demod_mode = Nbfm | Am | Wfm | DemodUsb | DemodLsb | RawMag

definition demod_from_u8 :: "u8 \<Rightarrow> demod_mode" where
  "demod_from_u8 v =
     (if v = 1 then Am else if v = 2 then Wfm else if v = 3 then DemodUsb else if v = 4 then DemodLsb
      else if v = 5 then RawMag else Nbfm)"

fun demod_u8 :: "demod_mode \<Rightarrow> u8" where
  "demod_u8 Nbfm = 0" | "demod_u8 Am = 1" | "demod_u8 Wfm = 2" | "demod_u8 DemodUsb = 3"
| "demod_u8 DemodLsb = 4" | "demod_u8 RawMag = 5"

record 'n tuner_caps =
  tc_tuner :: string
  tc_freq_min :: 'n
  tc_freq_max :: 'n
  tc_sample_rates :: "u32 list"
  tc_gains_db :: "'n list"
  tc_bias_tee :: bool
  tc_direct_sampling :: bool

record 'n sdr_control =
  sc_generation :: u64
  sc_center :: 'n
  sc_offset :: 'n
  sc_gain_auto :: bool
  sc_gain_db :: 'n
  sc_squelch_db :: 'n
  sc_ppm :: i32
  sc_bias_tee :: bool
  sc_direct_sampling :: u32
  sc_demod_mode :: u8
  sc_capture_rate :: u32
  sc_caps :: "'n tuner_caps option"

definition sdr_default :: "'n hz_math \<Rightarrow> 'n sdr_control" where
  "sdr_default H =
     \<lparr>sc_generation = 0, sc_center = hz_lit H ''0.0'', sc_offset = hz_lit H ''0.0'', sc_gain_auto = True,
      sc_gain_db = hz_lit H ''0.0'', sc_squelch_db = hz_lit H ''-200.0'', sc_ppm = 0,
      sc_bias_tee = False, sc_direct_sampling = 0, sc_demod_mode = demod_u8 Nbfm,
      sc_capture_rate = default_capture_rate, sc_caps = None\<rparr>"

definition bump :: "'n sdr_control \<Rightarrow> 'n sdr_control" where
  "bump c = c\<lparr>sc_generation := sc_generation c + 1\<rparr>"

definition set_center :: "'n \<Rightarrow> 'n sdr_control \<Rightarrow> 'n sdr_control" where
  "set_center hz c = bump (c\<lparr>sc_center := hz\<rparr>)"

definition set_offset :: "'n \<Rightarrow> 'n sdr_control \<Rightarrow> 'n sdr_control" where
  "set_offset hz c = bump (c\<lparr>sc_offset := hz\<rparr>)"

definition set_gain :: "bool \<Rightarrow> 'n \<Rightarrow> 'n sdr_control \<Rightarrow> 'n sdr_control" where
  "set_gain auto db c = bump (c\<lparr>sc_gain_auto := auto, sc_gain_db := db\<rparr>)"

definition set_squelch :: "'n \<Rightarrow> 'n sdr_control \<Rightarrow> 'n sdr_control" where
  "set_squelch db c = bump (c\<lparr>sc_squelch_db := db\<rparr>)"

definition set_ppm :: "i32 \<Rightarrow> 'n sdr_control \<Rightarrow> 'n sdr_control" where
  "set_ppm ppm c = bump (c\<lparr>sc_ppm := ppm\<rparr>)"

definition set_bias_tee :: "bool \<Rightarrow> 'n sdr_control \<Rightarrow> 'n sdr_control" where
  "set_bias_tee on c = bump (c\<lparr>sc_bias_tee := on\<rparr>)"

definition set_direct_sampling :: "u32 \<Rightarrow> 'n sdr_control \<Rightarrow> 'n sdr_control" where
  "set_direct_sampling mode c = bump (c\<lparr>sc_direct_sampling := mode\<rparr>)"

definition set_demod_mode :: "demod_mode \<Rightarrow> 'n sdr_control \<Rightarrow> 'n sdr_control" where
  "set_demod_mode mode c = bump (c\<lparr>sc_demod_mode := demod_u8 mode\<rparr>)"

definition set_capture_rate :: "u32 \<Rightarrow> 'n sdr_control \<Rightarrow> 'n sdr_control" where
  "set_capture_rate rate c = bump (c\<lparr>sc_capture_rate := rate\<rparr>)"

definition sdr_demod :: "'n sdr_control \<Rightarrow> demod_mode" where
  "sdr_demod c = demod_from_u8 (sc_demod_mode c)"

lemmas sdr_setter_defs = bump_def set_center_def set_offset_def set_gain_def set_squelch_def
  set_ppm_def set_bias_tee_def set_direct_sampling_def set_demod_mode_def set_capture_rate_def

lemma demod_from_to [simp]: "demod_from_u8 (demod_u8 m) = m"
  by (cases m) (simp_all add: demod_from_u8_def)

section \<open>Handlers\<close>

type_synonym 'n sdr_controls = "channel_id \<rightharpoonup> 'n sdr_control"

definition sdr_state :: "'n hz_math \<Rightarrow> channel_id \<Rightarrow> 'n sdr_control \<Rightarrow> 'n telemetry" where
  "sdr_state H ch c = SdrState ch (sc_center c) (sc_offset c) (hz_add H (sc_center c) (sc_offset c))
     (sc_gain_auto c) (sc_gain_db c) (demod_u8 (sdr_demod c)) (sc_squelch_db c)"

definition set_sdr_tune :: "'n hz_math \<Rightarrow> 'n sdr_controls \<Rightarrow> channel_id \<Rightarrow> 'n \<Rightarrow>
    'n sdr_controls \<times> 'n telemetry list \<times> ('n \<times> 'n \<times> 'n, core_error) result" where
  "set_sdr_tune H cs ch freq = (case cs ch of
       None \<Rightarrow> (cs, [], Err (SdrRequired ch))
     | Some c \<Rightarrow>
         (let (center, offset) = plan_tune H (sc_center c) (sc_capture_rate c) freq;
              c' = set_offset offset (set_center center c)
          in (cs(ch \<mapsto> c'), [sdr_state H ch c'], Ok (hz_add H center offset, center, offset))))"

definition set_sdr_gain :: "'n hz_math \<Rightarrow> 'n sdr_controls \<Rightarrow> channel_id \<Rightarrow> bool \<Rightarrow> 'n \<Rightarrow>
    'n sdr_controls \<times> 'n telemetry list \<times> ('n, core_error) result" where
  "set_sdr_gain H cs ch auto gain = (case cs ch of
       None \<Rightarrow> (cs, [], Err (SdrRequired ch))
     | Some c \<Rightarrow>
         (let (c', applied) =
                (if auto then (set_gain True (hz_lit H ''0.0'') c, hz_lit H ''0.0'')
                 else (let snapped = (case sc_caps c of Some caps \<Rightarrow> snap_gain H (tc_gains_db caps) gain
                                      | None \<Rightarrow> gain)
                       in (set_gain False snapped c, snapped)))
          in (cs(ch \<mapsto> c'), [sdr_state H ch c'], Ok applied)))"

definition configure_sdr :: "'n hz_math \<Rightarrow> 'n sdr_controls \<Rightarrow> channel_id \<Rightarrow> u32 \<Rightarrow> u8 \<Rightarrow> 'n \<Rightarrow> i32 \<Rightarrow>
    bool \<Rightarrow> bool \<Rightarrow> 'n sdr_controls \<times> 'n telemetry list \<times> (u32, core_error) result" where
  "configure_sdr H cs ch rate mode squelch ppm tee direct = (case cs ch of
       None \<Rightarrow> (cs, [], Err (SdrRequired ch))
     | Some c \<Rightarrow>
         if rate \<noteq> 0 \<and> rate \<notin> set supported_sample_rates then (cs, [], Err (InvalidArgument (''unsupported capture rate '' @ show_dec (unat rate) @ '' Hz'')))
         else
           (let c1 = (if rate = 0 then c else set_capture_rate rate c);
                actual = (if rate = 0 then sc_capture_rate c else rate);
                c' = set_direct_sampling (if direct then direct_sampling_q_branch else 0)
                  (set_bias_tee tee (set_ppm ppm (set_squelch squelch (set_demod_mode (demod_from_u8 mode) c1))))
            in (cs(ch \<mapsto> c'), [sdr_state H ch c'], Ok actual)))"

definition get_sdr_caps :: "'n hz_math \<Rightarrow> 'n sdr_controls \<Rightarrow> channel_id \<Rightarrow> ('n tuner_caps, core_error) result" where
  "get_sdr_caps H cs ch = (case cs ch of
       None \<Rightarrow> Err (SdrRequired ch)
     | Some c \<Rightarrow>
         (let caps = (case sc_caps c of Some caps \<Rightarrow> caps
                | None \<Rightarrow> \<lparr>tc_tuner = ''unknown'', tc_freq_min = hz_lit H ''0.0'', tc_freq_max = hz_lit H ''0.0'',
                    tc_sample_rates = supported_sample_rates, tc_gains_db = [], tc_bias_tee = False,
                    tc_direct_sampling = False\<rparr>)
          in Ok (if sc_direct_sampling c \<noteq> 0
                 then caps\<lparr>tc_freq_min := hz_lit H ''0.0'',
                   tc_freq_max := hz_max H (tc_freq_max caps) (hz_lit H ''28800000.0'')\<rparr>
                 else caps)))"

text \<open>\<open>couple_sdr_mode_to_channel\<close>, before a capture opens.\<close>

definition couple_sdr_mode :: "'n hz_math \<Rightarrow> 'n mode_config \<Rightarrow> 'n sdr_control \<Rightarrow> 'n sdr_control" where
  "couple_sdr_mode H mode c = (case mode of
       Adsb \<Rightarrow>
         (let (center, offset) = plan_tune H (hz_lit H ''0.0'') 2400000 (hz_lit H ''1090000000.0'')
          in set_offset offset (set_center center (set_demod_mode RawMag c)))
     | _ \<Rightarrow> if sdr_demod c = RawMag then set_demod_mode Nbfm c else c)"

section \<open>Lemmas\<close>

text \<open>In exact arithmetic the split adds up to the target, up to the rounding to \<open>f32\<close>.\<close>

definition exact_math :: "(string \<Rightarrow> rat) \<Rightarrow> (rat \<Rightarrow> rat) \<Rightarrow> rat hz_math" where
  "exact_math lit f32 = \<lparr>hz_lit = lit, hz_of_u32 = (\<lambda>w. of_nat (unat w)), hz_sub = (-), hz_add = (+),
     hz_mul = (*), hz_abs = abs, hz_le = (\<le>), hz_less = (<), hz_max = max, hz_f32 = f32, hz_finite = (\<lambda>_. True)\<rparr>"

lemma plan_tune_sums:
  assumes "plan_tune (exact_math lit f32) center rate target = (c, off)"
  shows "\<exists>exact. c + exact = target \<and> off = f32 exact \<and>
    (c = center \<and> \<bar>exact\<bar> \<le> of_nat (unat rate) * lit ''0.4'' \<or> exact = of_nat (unat rate) * lit ''0.25'')"
  using assms
  by (intro exI [of _ "target - c"]) (auto simp: plan_tune_def exact_math_def Let_def split: if_splits)

lemma sdr_demod_set [simp]:
  "sdr_demod (set_demod_mode m c) = m" "sdr_demod (set_offset x c) = sdr_demod c"
  "sdr_demod (set_center x c) = sdr_demod c" "sdr_demod (set_squelch x c) = sdr_demod c"
  "sdr_demod (set_ppm p c) = sdr_demod c" "sdr_demod (set_bias_tee b c) = sdr_demod c"
  "sdr_demod (set_direct_sampling d c) = sdr_demod c"
  "sc_ppm (set_ppm p c) = p" "sc_ppm (set_bias_tee b c) = sc_ppm c"
  "sc_ppm (set_direct_sampling d c) = sc_ppm c"
  by (simp_all add: sdr_demod_def sdr_setter_defs)

lemma nearest_min:
  "nearest (exact_math lit f32) want gs best \<in> insert best (set gs) \<and>
    (\<forall>g\<in>insert best (set gs). \<bar>nearest (exact_math lit f32) want gs best - want\<bar> \<le> \<bar>g - want\<bar>)"
proof (induction gs arbitrary: best)
  case (Cons g gs)
  show ?case using Cons [of g] Cons [of best]
    by (auto simp: exact_math_def)
qed simp

text \<open>
  Before a capture opens, coupling puts the control cell on the raw magnitude path exactly
  for ADS-B, whatever was configured before. While the channel runs, though, any accepted
  \<open>ConfigureSdr\<close> replaces that path by the audio demodulator it names, and no code of the API
  names the raw one: changing the ppm correction of an ADS-B channel stops its decoding.\<close>

theorem configure_sdr_uncouples_adsb:
  "(sdr_demod (couple_sdr_mode H mode c) = RawMag \<longleftrightarrow> mode = Adsb) \<and>
   (cs ch = Some c' \<and> demod < 5 \<longrightarrow>
     (case configure_sdr H cs ch rate demod squelch ppm tee direct of
        (cs', _, Inl _) \<Rightarrow> cs' = cs \<and> rate \<notin> set supported_sample_rates
      | (cs', _, Inr _) \<Rightarrow> (\<exists>c1. cs' ch = Some c1 \<and> sdr_demod c1 \<noteq> RawMag \<and> sc_ppm c1 = ppm)))"
proof (intro conjI impI)
  show "sdr_demod (couple_sdr_mode H mode c) = RawMag \<longleftrightarrow> mode = Adsb"
    by (cases mode) (simp_all add: couple_sdr_mode_def split_beta)
next
  assume asm: "cs ch = Some c' \<and> demod < 5"
  then have "demod_from_u8 demod \<noteq> RawMag" by (auto simp: demod_from_u8_def)
  with asm show "case configure_sdr H cs ch rate demod squelch ppm tee direct of
        (cs', _, Inl _) \<Rightarrow> cs' = cs \<and> rate \<notin> set supported_sample_rates
      | (cs', _, Inr _) \<Rightarrow> (\<exists>c1. cs' ch = Some c1 \<and> sdr_demod c1 \<noteq> RawMag \<and> sc_ppm c1 = ppm)"
    by (auto simp: configure_sdr_def Let_def)
qed

theorem configure_sdr_uncouples_adsb_witness:
  "\<exists>cs' evs. configure_sdr (exact_math (\<lambda>_. 0) (\<lambda>x. x))
      [2 \<mapsto> couple_sdr_mode (exact_math (\<lambda>_. 0) (\<lambda>x. x)) Adsb (sdr_default (exact_math (\<lambda>_. 0) (\<lambda>x. x)))]
      2 0 0 0 5 False False = (cs', evs, Inr 240000) \<and> (\<exists>c1. cs' 2 = Some c1 \<and> sdr_demod c1 \<noteq> RawMag \<and> sc_ppm c1 = 5)"
proof -
  let ?H = "exact_math (\<lambda>_. 0) (\<lambda>x. x)"
  let ?c = "couple_sdr_mode ?H Adsb (sdr_default ?H)"
  obtain cs' evs r where r: "configure_sdr ?H [2 \<mapsto> ?c] 2 0 0 0 5 False False = (cs', evs, r)"
    by (metis prod_cases3)
  have "sc_capture_rate ?c = 240000"
    by (simp add: couple_sdr_mode_def split_beta sdr_setter_defs sdr_default_def default_capture_rate_def)
  with r have "r = Inr 240000" by (auto simp: configure_sdr_def Let_def)
  with r configure_sdr_uncouples_adsb [where H = ?H and mode = Adsb and c = ?c and cs = "[2 \<mapsto> ?c]"
      and ch = 2 and c' = ?c and demod = 0 and rate = 0 and squelch = 0 and ppm = 5 and tee = False and direct = False]
  show ?thesis by auto
qed

end
