(* ===== verification/Core.thy ===== *)
theory Core
  imports Supervisor Sdr TxWorker Afsk1200
begin

text \<open>
  The command loop of the core (\<open>core/mod.rs\<close>): the live bindings of each channel and the
  handlers that change them. Devices, drivers and backends are injected, so a command comes with
  an environment that says how they answer it. A transmit worker is its configuration and its
  queue; what its thread does with a job is \<open>run_job\<close> of the theory \<open>TxWorker\<close>.
\<close>

section \<open>State\<close>

record 'c capture =
  cap_rx :: 'c
  cap_rate :: u32

record 'n audio_binding =
  ab_rx_dev :: device_id
  ab_tx_dev :: device_id
  ab_tx_rate :: u32
  ab_rx_req_rate :: u32
  ab_rx_rate :: u32
  ab_rx_mode :: "'n mode_config"

record ('c, 'n) rx_worker =
  rw_rig :: device_id
  rw_capture :: "'c capture"
  rw_mode :: "'n mode_config"
  rw_windowed :: bool
  rw_rsid :: bool

type_synonym ('d, 'n, 's) tx_handle =
  "('d, 'n modulator, 'n) tx_worker \<times> (frame_payload, 's) tx_job list"

record 'n spectrum_cfg =
  sp_bin_count :: u32
  sp_fft_size :: u32
  sp_rate_hz :: u32
  sp_freq_lo :: 'n
  sp_freq_hi :: 'n

type_synonym 'n spectrum_control = "u64 \<times> 'n spectrum_cfg option"

text \<open>\<open>lv_metrics\<close> is the set of channels that have an accumulator.\<close>

record ('c, 'd, 'n, 's) live_bindings =
  lv_sinks :: "channel_id \<rightharpoonup> sink \<times> u32"
  lv_captures :: "channel_id \<rightharpoonup> 'c capture"
  lv_audio :: "channel_id \<rightharpoonup> 'n audio_binding"
  lv_drivers :: "channel_id \<rightharpoonup> 'd"
  lv_ptt_dev :: "channel_id \<rightharpoonup> device_id"
  lv_rx_workers :: "channel_id \<rightharpoonup> ('c, 'n) rx_worker"
  lv_tx_workers :: "channel_id \<rightharpoonup> ('d, 'n, 's) tx_handle"
  lv_metrics :: "channel_id set"
  lv_gains :: "channel_id \<rightharpoonup> 'n \<times> 'n"
  lv_spectra :: "channel_id \<rightharpoonup> 'n spectrum_control"
  lv_sdr :: "'n sdr_controls"
  lv_registered :: "device_descriptor list"

definition live_empty :: "device_descriptor list \<Rightarrow> ('c, 'd, 'n, 's) live_bindings" where
  "live_empty registered =
     \<lparr>lv_sinks = Map.empty, lv_captures = Map.empty, lv_audio = Map.empty, lv_drivers = Map.empty,
      lv_ptt_dev = Map.empty, lv_rx_workers = Map.empty, lv_tx_workers = Map.empty, lv_metrics = {},
      lv_gains = Map.empty, lv_spectra = Map.empty, lv_sdr = Map.empty, lv_registered = registered\<rparr>"

record ('c, 'd, 'n, 's) core =
  co_sup :: supervisor
  co_lease :: lease_registry
  co_live :: "('c, 'd, 'n, 's) live_bindings"
  co_next_tx :: u64
  co_watcher :: hotplug_watcher

text \<open>
  What a command meets outside the core: the store's failure, the devices found by a scan (or its
  panic), the answers of audio backends and PTT drivers, whether a worker's thread still runs
  (\<open>ce_rx_running\<close>, \<open>ce_tx_open\<close>), the observations of an inline transmission, and the
  floating-point code of the picture modulator and the spectrum planner.
\<close>

record ('c, 'd, 'n, 's, 'p) core_env =
  ce_text :: "'n f32_text"
  ce_hz :: "'n hz_math"
  ce_store :: "string option"
  ce_enumerate :: "device_descriptor list"
  ce_open_capture :: "device_descriptor \<Rightarrow> u32 \<Rightarrow> ('c capture, audio_error) result"
  ce_open_playback :: "device_descriptor \<Rightarrow> u32 \<Rightarrow> (sink \<times> u32, audio_error) result"
  ce_open_driver :: "ptt_config \<Rightarrow> ('d, ptt_error) result"
  ce_key :: "'d \<Rightarrow> 'd \<times> ptt_reply"
  ce_unkey :: "'d \<Rightarrow> 'd \<times> ptt_reply"
  ce_rx_running :: "channel_id \<Rightarrow> bool"
  ce_cycle :: cycle_env
  ce_lossy_text :: "u8 list \<Rightarrow> string"
  ce_tx_open :: "channel_id \<Rightarrow> bool"
  ce_picture :: "'n mode_config \<Rightarrow> 'p \<Rightarrow> ('s list \<times> u32, string) result"
  ce_native_rate :: "'n mode_config \<Rightarrow> u32"
  ce_spectrum :: "u32 \<Rightarrow> 'n spectrum_cfg \<Rightarrow> u32 \<times> u32 \<times> u32 \<times> 'n \<times> 'n"
  ce_scan_panics :: bool

section \<open>Binding audio\<close>

definition resolve_device :: "supervisor \<Rightarrow> device_id \<Rightarrow> (device_descriptor, core_error) result" where
  "resolve_device sv dev = (case dev of
       RtlTcp host port \<Rightarrow> Ok \<lparr>dd_id = dev,
         dd_label = ''rtl_tcp '' @ host @ '':'' @ show_dec (unat port),
         dd_has_capture = True, dd_has_playback = False, dd_needs_setup = False\<rparr>
     | _ \<Rightarrow> (case cache_resolve (su_devices sv) dev of Some d \<Rightarrow> Ok d
         | None \<Rightarrow> Err (AudioFault (DeviceNotFound (to_canonical_string dev)))))"

definition sdr_cell :: "'n hz_math \<Rightarrow> 'n sdr_controls \<Rightarrow> channel_id \<Rightarrow> 'n sdr_control" where
  "sdr_cell H cs i = (case cs i of Some c \<Rightarrow> c | None \<Rightarrow> sdr_default H)"

definition bind_capture :: "('c, 'd, 'n, 's, 'p) core_env \<Rightarrow> supervisor \<Rightarrow> channel_id \<Rightarrow> device_id \<Rightarrow> u32 \<Rightarrow>
    'n mode_config \<Rightarrow> ('c, 'd, 'n, 's) live_bindings \<Rightarrow>
    ('c, 'd, 'n, 's) live_bindings \<times> (u32, core_error) result" where
  "bind_capture env sv i dev rate mode lv = (case resolve_device sv dev of
       Inl e \<Rightarrow> (lv, Err e)
     | Inr desc \<Rightarrow>
         (let lv1 = (if is_sdr dev
                then lv\<lparr>lv_sdr := (lv_sdr lv)(i \<mapsto> couple_sdr_mode (ce_hz env) mode (sdr_cell (ce_hz env) (lv_sdr lv) i))\<rparr>
                else lv\<lparr>lv_sdr := (lv_sdr lv)(i := None)\<rparr>)
          in case ce_open_capture env desc rate of
               Inl e \<Rightarrow> (lv1, Err (AudioFault e))
             | Inr cap \<Rightarrow> (lv1\<lparr>lv_captures := (lv_captures lv1)(i \<mapsto> cap)\<rparr>, Ok (cap_rate cap))))"

definition bind_playback :: "('c, 'd, 'n, 's, 'p) core_env \<Rightarrow> supervisor \<Rightarrow> channel_id \<Rightarrow> device_id \<Rightarrow> u32 \<Rightarrow>
    ('c, 'd, 'n, 's) live_bindings \<Rightarrow> ('c, 'd, 'n, 's) live_bindings \<times> (u32, core_error) result" where
  "bind_playback env sv i dev rate lv = (case resolve_device sv dev of
       Inl e \<Rightarrow> (lv, Err e)
     | Inr desc \<Rightarrow> (case ce_open_playback env desc rate of
         Inr (s, actual) \<Rightarrow> (lv\<lparr>lv_sinks := (lv_sinks lv)(i \<mapsto> (s, actual))\<rparr>, Ok actual)
       | Inl (NoUsableFormat _) \<Rightarrow> (lv\<lparr>lv_sinks := (lv_sinks lv)(i := None)\<rparr>, Ok 0)
       | Inl AudioUnsupported \<Rightarrow> (lv\<lparr>lv_sinks := (lv_sinks lv)(i := None)\<rparr>, Ok 0)
       | Inl e \<Rightarrow> (lv, Err (AudioFault e))))"

definition reuse_capture :: "('c, 'd, 'n, 's, 'p) core_env \<Rightarrow> channel_id \<Rightarrow> device_id \<Rightarrow> u32 \<Rightarrow> 'n mode_config \<Rightarrow>
    ('c, 'd, 'n, 's) live_bindings \<Rightarrow> 'n audio_binding option" where
  "reuse_capture env i dev rate mode lv =
     (if (lv_rx_workers lv i \<noteq> None \<and> ce_rx_running env i) \<or> lv_captures lv i \<noteq> None
      then (case lv_audio lv i of None \<Rightarrow> None
        | Some b \<Rightarrow> if ab_rx_dev b = dev \<and> ab_rx_req_rate b = rate \<and> ab_rx_mode b = mode then Some b else None)
      else None)"

definition finish_bind :: "'n hz_math \<Rightarrow> channel_id \<Rightarrow> bool \<Rightarrow> 'n audio_binding \<Rightarrow>
    ('c, 'd, 'n, 's) live_bindings \<Rightarrow> ('c, 'd, 'n, 's) live_bindings" where
  "finish_bind H i reused b lv = lv
     \<lparr>lv_audio := (lv_audio lv)(i \<mapsto> b),
      lv_gains := (lv_gains lv)(i \<mapsto> (case lv_gains lv i of Some g \<Rightarrow> g | None \<Rightarrow> (hz_lit H ''1.0'', hz_lit H ''1.0''))),
      lv_rx_workers := (if reused then lv_rx_workers lv else (lv_rx_workers lv)(i := None)),
      lv_tx_workers := (lv_tx_workers lv)(i := None)\<rparr>"

text \<open>The part after the new binding is persisted and the device cache refreshed.\<close>

definition bind_devices :: "('c, 'd, 'n, 's, 'p) core_env \<Rightarrow> supervisor \<Rightarrow> channel_id \<Rightarrow> device_id \<Rightarrow> u32 \<Rightarrow>
    device_id \<Rightarrow> u32 \<Rightarrow> ('c, 'd, 'n, 's) live_bindings \<Rightarrow>
    ('c, 'd, 'n, 's) live_bindings \<times> (u32 \<times> u32, core_error) result" where
  "bind_devices env sv i dev rate tx_dev tx_req lv =
     (let mode = channel_mode (ce_text env) sv i;
          reused = reuse_capture env i dev rate mode lv
      in case (case reused of Some b \<Rightarrow> (lv, Ok (ab_rx_rate b))
               | None \<Rightarrow> bind_capture env sv i dev rate mode lv) of
           (lv1, Inl e) \<Rightarrow> (lv1, Err e)
         | (lv1, Inr rx_rate) \<Rightarrow>
             (case bind_playback env sv i tx_dev tx_req lv1 of
                (lv2, Inl e) \<Rightarrow> (lv2, Err e)
              | (lv2, Inr tx_rate) \<Rightarrow>
                  (finish_bind (ce_hz env) i (reused \<noteq> None)
                     \<lparr>ab_rx_dev = dev, ab_tx_dev = tx_dev, ab_tx_rate = tx_rate,
                      ab_rx_req_rate = rate, ab_rx_rate = rx_rate, ab_rx_mode = mode\<rparr> lv2,
                   Ok (rx_rate, tx_rate))))"

definition core_configure_audio :: "('c, 'd, 'n, 's, 'p) core_env \<Rightarrow> ('c, 'd, 'n, 's) core \<Rightarrow> channel_id \<Rightarrow>
    device_id \<Rightarrow> u32 \<Rightarrow> u32 \<Rightarrow> device_id \<Rightarrow> u32 \<Rightarrow>
    ('c, 'd, 'n, 's) core \<times> (u32 \<times> u32, core_error) result" where
  "core_configure_audio env co i dev rate0 fanout tx_dev tx_rate0 =
     (if \<not> has_channel (co_sup co) i then (co, Err (UnknownChannel i))
      else
        (let rate = (if rate0 = 0 then max_sample_rate else rate0);
             tx_req = (if tx_rate0 = 0 then rate else tx_rate0)
         in case configure_audio (ce_store env) (co_sup co) i dev rate fanout tx_dev tx_rate0 of
              (sv1, Inl e) \<Rightarrow> (co\<lparr>co_sup := sv1\<rparr>, Err (PersistError e))
            | (sv1, Inr _) \<Rightarrow>
                (let sv = sv1\<lparr>su_devices := fst (cache_refresh (su_devices sv1) (ce_enumerate env))\<rparr>;
                     (lv, r) = bind_devices env sv i dev rate tx_dev tx_req (co_live co)
                 in (co\<lparr>co_sup := sv, co_live := lv\<rparr>, r))))"

section \<open>Binding PTT\<close>

definition core_configure_ptt :: "('c, 'd, 'n, 's, 'p) core_env \<Rightarrow> ('c, 'd, 'n, 's) core \<Rightarrow> channel_id \<Rightarrow>
    ptt_config \<Rightarrow> ('c, 'd, 'n, 's) core \<times> (unit, core_error) result" where
  "core_configure_ptt env co i ptt =
     (if \<not> has_channel (co_sup co) i then (co, Err (UnknownChannel i))
      else case configure_ptt (ce_store env) (co_sup co) i ptt of
             (sv1, Inl e) \<Rightarrow> (co\<lparr>co_sup := sv1\<rparr>, Err (PersistError e))
           | (sv1, Inr _) \<Rightarrow>
               (case build_driver (ce_open_driver env) (su_ptt sv1) ptt of
                  (reg, Inl e) \<Rightarrow> (co\<lparr>co_sup := sv1\<lparr>su_ptt := reg\<rparr>\<rparr>, Err (PttFault e))
                | (reg, Inr d) \<Rightarrow>
                    (co\<lparr>co_sup := sv1\<lparr>su_ptt := reg\<rparr>,
                        co_live := (co_live co)\<lparr>lv_drivers := (lv_drivers (co_live co))(i \<mapsto> d),
                          lv_ptt_dev := (lv_ptt_dev (co_live co))(i \<mapsto> ptt_device_id ptt)\<rparr>\<rparr>,
                     Ok ())))"

section \<open>Workers\<close>

text \<open>The two halves of \<open>try_spawn_workers\<close>; \<open>None\<close> is a panic of the registry.\<close>

definition spawn_rx :: "('c, 'd, 'n, 's, 'p) core_env \<Rightarrow> supervisor \<Rightarrow> channel_id \<Rightarrow>
    ('c, 'd, 'n, 's) live_bindings \<Rightarrow> ('c, 'd, 'n, 's) live_bindings option" where
  "spawn_rx env sv i lv =
     (if lv_rx_workers lv i \<noteq> None then Some lv
      else case (lv_audio lv i, lv_captures lv i) of
             (Some b, Some cap) \<Rightarrow>
               (let mode = channel_mode (ce_text env) sv i;
                    lv1 = lv\<lparr>lv_metrics := insert i (lv_metrics lv)\<rparr>
                in case demod_kind_of mode of
                     None \<Rightarrow> None
                   | Some DkNone \<Rightarrow> Some lv1
                   | Some k \<Rightarrow> Some (lv1\<lparr>lv_captures := (lv_captures lv1)(i := None),
                       lv_rx_workers := (lv_rx_workers lv1)(i \<mapsto> \<lparr>rw_rig = ab_rx_dev b, rw_capture = cap,
                         rw_mode = mode, rw_windowed = (k = DkWindowed), rw_rsid = snd (channel_rsid sv i)\<rparr>)\<rparr>))
           | (None, Some cap) \<Rightarrow> Some (lv\<lparr>lv_captures := (lv_captures lv)(i := None)\<rparr>)
           | _ \<Rightarrow> Some lv)"

definition millis :: "u32 \<Rightarrow> nat" where
  "millis ms = unat ms * 1000000"

definition tx_rsid :: "'n f32_text \<Rightarrow> bool \<Rightarrow> 'n mode_config \<Rightarrow> (string \<times> 'n) option" where
  "tx_rsid F enabled mode = (if enabled
     then map_option (\<lambda>k. (k, rsid_center_hz F mode)) (rsid_tx_key F mode) else None)"

definition spawn_tx :: "('c, 'd, 'n, 's, 'p) core_env \<Rightarrow> supervisor \<Rightarrow> channel_id \<Rightarrow>
    ('c, 'd, 'n, 's) live_bindings \<Rightarrow> ('c, 'd, 'n, 's) live_bindings option" where
  "spawn_tx env sv i lv =
     (let mode = channel_mode (ce_text env) sv i in
      if lv_tx_workers lv i \<noteq> None \<or> mode = NoMode then Some lv
      else case (lv_sinks lv i, lv_drivers lv i, lv_audio lv i) of
             (Some (s, _), Some d, Some b) \<Rightarrow>
               (case (build_modulator mode, tx_slotted mode) of
                  (Some (Some md), Some slotted) \<Rightarrow>
                    (let (delay, tail) = channel_ptt_timing sv i;
                         w = \<lparr>w_channel = i, w_rig = ab_tx_dev b, w_rate = ab_tx_rate b, w_mod = md,
                           w_sink = s, w_driver = d,
                           w_rsid = tx_rsid (ce_text env) (fst (channel_rsid sv i)) mode,
                           w_slotted = slotted, w_tx_delay = millis delay, w_tx_tail = millis tail\<rparr>
                     in Some (lv\<lparr>lv_sinks := (lv_sinks lv)(i := None), lv_drivers := (lv_drivers lv)(i := None),
                          lv_tx_workers := (lv_tx_workers lv)(i \<mapsto> (w, []))\<rparr>))
                | (Some None, _) \<Rightarrow> Some lv
                | _ \<Rightarrow> None)
           | _ \<Rightarrow> Some lv)"

definition default_cells :: "'n hz_math \<Rightarrow> channel_id \<Rightarrow> ('c, 'd, 'n, 's) live_bindings \<Rightarrow>
    ('c, 'd, 'n, 's) live_bindings" where
  "default_cells H i lv = lv
     \<lparr>lv_gains := (lv_gains lv)(i \<mapsto> (case lv_gains lv i of Some g \<Rightarrow> g | None \<Rightarrow> (hz_lit H ''1.0'', hz_lit H ''1.0''))),
      lv_spectra := (if (case lv_audio lv i of Some b \<Rightarrow> is_sdr (ab_rx_dev b) | None \<Rightarrow> False) then lv_spectra lv
        else (lv_spectra lv)(i \<mapsto> (case lv_spectra lv i of Some c \<Rightarrow> c | None \<Rightarrow> (0, None))))\<rparr>"

definition try_spawn_workers :: "('c, 'd, 'n, 's, 'p) core_env \<Rightarrow> supervisor \<Rightarrow> channel_id \<Rightarrow>
    ('c, 'd, 'n, 's) live_bindings \<Rightarrow> ('c, 'd, 'n, 's) live_bindings option" where
  "try_spawn_workers env sv i lv =
     (case spawn_rx env sv i (default_cells (ce_hz env) i lv) of None \<Rightarrow> None
      | Some lv1 \<Rightarrow> spawn_tx env sv i lv1)"

text \<open>The handlers of the two binding commands.\<close>

definition respawn :: "('c, 'd, 'n, 's, 'p) core_env \<Rightarrow> channel_id \<Rightarrow> ('c, 'd, 'n, 's) core \<Rightarrow>
    ('c, 'd, 'n, 's) core" where
  "respawn env i co = (case try_spawn_workers env (co_sup co) i (co_live co) of
       None \<Rightarrow> co | Some lv \<Rightarrow> co\<lparr>co_live := lv\<rparr>)"

definition handle_configure_audio :: "('c, 'd, 'n, 's, 'p) core_env \<Rightarrow> ('c, 'd, 'n, 's) core \<Rightarrow> channel_id \<Rightarrow>
    device_id \<Rightarrow> u32 \<Rightarrow> u32 \<Rightarrow> device_id \<Rightarrow> u32 \<Rightarrow>
    ('c, 'd, 'n, 's) core \<times> (u32 \<times> u32, core_error) result" where
  "handle_configure_audio env co i dev rate fanout tx_dev tx_rate =
     (case core_configure_audio env co i dev rate fanout tx_dev tx_rate of
        (co1, Inl e) \<Rightarrow> (co1, Err e)
      | (co1, Inr ok) \<Rightarrow> (respawn env i co1, Ok ok))"

definition handle_configure_ptt :: "('c, 'd, 'n, 's, 'p) core_env \<Rightarrow> ('c, 'd, 'n, 's) core \<Rightarrow> channel_id \<Rightarrow>
    ptt_config \<Rightarrow> ('c, 'd, 'n, 's) core \<times> (unit, core_error) result" where
  "handle_configure_ptt env co i ptt =
     (case core_configure_ptt env co i ptt of
        (co1, Inl e) \<Rightarrow> (co1, Err e)
      | (co1, Inr ok) \<Rightarrow> (respawn env i co1, Ok ok))"

end
