(* ===== verification/Udev.thy ===== *)
theory Udev
  imports DeviceIds
begin

text \<open>
  \<open>ptt/udev.rs\<close>: the udev rule suggested for a PTT device. Rule text is ASCII; a double quote is
  \<open>CHR 0x22\<close> and a line feed \<open>CHR 0x0A\<close>.
\<close>

abbreviation dq :: string where "dq \<equiv> [CHR 0x22]"

definition quoted :: "string \<Rightarrow> string" where
  "quoted s = dq @ s @ dq"

definition udev_matchers :: "device_id \<Rightarrow> (string \<times> string) option" where
  "udev_matchers i = (case i of
       Usb vid pid serial \<Rightarrow>
         Some (''ATTRS{idVendor}=='' @ quoted (show_hex04 (unat vid)) @ '', ATTRS{idProduct}=='' @ quoted (show_hex04 (unat pid))
               @ (if serial = [] then [] else '', ATTRS{serial}=='' @ quoted serial),
             ''usb-'' @ show_hex04 (unat vid) @ ''-'' @ show_hex04 (unat pid))
     | Serial by_id \<Rightarrow> Some (''ENV{ID_SERIAL}=='' @ quoted by_id, ''serial'')
     | Topology bus ports \<Rightarrow>
         Some (''KERNELS=='' @ quoted (show_dec (unat bus) @ ''-'' @ ports),
           ''topo-'' @ show_dec (unat bus) @ ''-'' @ ports)
     | _ \<Rightarrow> None)"

definition udev_rule :: "string \<Rightarrow> string \<Rightarrow> string" where
  "udev_rule matchers label =
     ''SUBSYSTEM=='' @ quoted ''tty'' @ '', '' @ matchers @ '', SYMLINK+='' @ quoted (''omnimodem/'' @ label) @ [CHR 0x0A]"

definition udev_instructions :: "string \<Rightarrow> string" where
  "udev_instructions label =
     ''Save as /etc/udev/rules.d/70-omnimodem-'' @ label @ ''.rules, then run:'' @ [CHR 0x0A]
     @ ''  sudo udevadm control --reload-rules && sudo udevadm trigger'' @ [CHR 0x0A]
     @ ''The device will then appear at /dev/omnimodem/'' @ label @ ''.''"

definition suggest :: "device_id \<Rightarrow> (string \<times> string) option" where
  "suggest i = map_option (\<lambda>(matchers, label). (udev_rule matchers label, udev_instructions label)) (udev_matchers i)"

section \<open>Reading a rule\<close>

text \<open>
  The assignments and matches of a rule line: fields separated by commas outside double quotes,
  which is how udev reads a line. \<open>q\<close> tells whether the text so far is inside quotes.
\<close>

fun rule_fields :: "bool \<Rightarrow> string \<Rightarrow> string list" where
  "rule_fields q [] = [[]]"
| "rule_fields q (c # cs) =
     (if c = CHR '','' \<and> \<not> q then [] # rule_fields q cs
      else (case rule_fields (if c = CHR 0x22 then \<not> q else q) cs of
              [] \<Rightarrow> [[c]] | w # ws \<Rightarrow> (c # w) # ws))"

lemma rule_fields_not_Nil: "rule_fields q s \<noteq> []"
  by (cases s) (auto split: list.splits)

fun glue :: "string \<Rightarrow> string list \<Rightarrow> string list" where
  "glue s [] = [s]"
| "glue s (w # ws) = (s @ w) # ws"

lemma glue_glue [simp]: "glue a (glue b ws) = glue (a @ b) ws"
  by (cases ws) simp_all

text \<open>A quoted text without quotes of its own stays within its field.\<close>

lemma rule_fields_inside: "CHR 0x22 \<notin> set s \<Longrightarrow> rule_fields True (s @ CHR 0x22 # t) = glue (s @ dq) (rule_fields False t)"
proof (induction s)
  case Nil
  then show ?case by (cases "rule_fields False t") (simp_all add: rule_fields_not_Nil)
next
  case (Cons c s)
  then show ?case by (cases "rule_fields False t") (auto simp: rule_fields_not_Nil)
qed

lemma rule_fields_quoted:
  "CHR 0x22 \<notin> set s \<Longrightarrow> rule_fields False (quoted s @ t) = glue (quoted s) (rule_fields False t)"
  using rule_fields_inside [of s t] rule_fields_not_Nil [of False t]
  by (cases "rule_fields False t") (simp_all add: quoted_def)

lemma rule_fields_plain:
  "CHR '','' \<notin> set s \<Longrightarrow> CHR 0x22 \<notin> set s \<Longrightarrow> rule_fields False (s @ t) = glue s (rule_fields False t)"
proof (induction s)
  case Nil
  then show ?case by (cases "rule_fields False t") (simp_all add: rule_fields_not_Nil)
next
  case (Cons c s)
  then show ?case by (cases "rule_fields False t") (auto simp: rule_fields_not_Nil)
qed


section \<open>Properties\<close>

lemma quoted_plain: "glue (quoted s) [t] = [quoted s @ t]"
  by simp

text \<open>
  The rule suggested for a USB device whose serial number has no double quote consists of the
  intended matches and the one link. The serial is not escaped, though: a device that reports a
  quote in it adds fields of its own to the rule, for instance a program for udev to run.\<close>

theorem udev_rule_trusts_serial:
  "(CHR 0x22 \<notin> set serial \<and> serial \<noteq> [] \<longrightarrow>
     (\<exists>rule text. suggest (Usb vid pid serial) = Some (rule, text) \<and>
       rule_fields False rule =
         [''SUBSYSTEM=='' @ quoted ''tty'',
          '' ATTRS{idVendor}=='' @ quoted (show_hex04 (unat vid)),
          '' ATTRS{idProduct}=='' @ quoted (show_hex04 (unat pid)),
          '' ATTRS{serial}=='' @ quoted serial,
          '' SYMLINK+='' @ quoted (''omnimodem/usb-'' @ show_hex04 (unat vid) @ ''-'' @ show_hex04 (unat pid)) @ [CHR 0x0A]])) \<and>
   (\<exists>rule text. suggest (Usb vid pid (''x'' @ dq @ '', RUN+='' @ dq @ ''/tmp/x'')) = Some (rule, text) \<and>
      '' RUN+='' @ quoted ''/tmp/x'' \<in> set (rule_fields False rule))"
proof -
  have hex: "CHR 0x22 \<notin> set (show_hex04 n)" for n
  proof -
    have "CHR 0x22 \<notin> set (show_radix 16 n)" by (rule show_radix_notin) (simp_all add: digit_char_neq)
    then show ?thesis by (simp add: show_hex04_def pad0_def)
  qed
  let ?sym = "quoted (''omnimodem/usb-'' @ show_hex04 (unat vid) @ ''-'' @ show_hex04 (unat pid))"
  have link: "rule_fields False (?sym @ [CHR 0x0A]) = [?sym @ [CHR 0x0A]]"
    by (subst rule_fields_quoted) (simp_all add: hex)
  have rule: "\<exists>text. suggest (Usb vid pid sn) = Some (''SUBSYSTEM=='' @ quoted ''tty'' @ '', ATTRS{idVendor}==''
      @ quoted (show_hex04 (unat vid)) @ '', ATTRS{idProduct}=='' @ quoted (show_hex04 (unat pid))
      @ '', ATTRS{serial}=='' @ quoted sn @ '', SYMLINK+='' @ ?sym @ [CHR 0x0A], text)" if "sn \<noteq> []" for sn
    using that by (simp add: suggest_def udev_matchers_def udev_rule_def)
  have plain: "rule_fields False (''SUBSYSTEM=='' @ quoted ''tty'' @ '', ATTRS{idVendor}==''
      @ quoted (show_hex04 (unat vid)) @ '', ATTRS{idProduct}=='' @ quoted (show_hex04 (unat pid))
      @ '', ATTRS{serial}=='' @ quoted sn @ '', SYMLINK+='' @ ?sym @ [CHR 0x0A]) =
      [''SUBSYSTEM=='' @ quoted ''tty'', '' ATTRS{idVendor}=='' @ quoted (show_hex04 (unat vid)),
       '' ATTRS{idProduct}=='' @ quoted (show_hex04 (unat pid)), '' ATTRS{serial}=='' @ quoted sn,
       '' SYMLINK+='' @ ?sym @ [CHR 0x0A]]" if "CHR 0x22 \<notin> set sn" for sn
    using that by (simp add: rule_fields_quoted link hex)
  let ?evil = "''x'' @ dq @ '', RUN+='' @ dq @ ''/tmp/x''"
  have "quoted ?evil = quoted ''x'' @ '', RUN+='' @ quoted ''/tmp/x''" by (simp add: quoted_def)
  then have evil: "'' RUN+='' @ quoted ''/tmp/x'' \<in> set (rule_fields False (''SUBSYSTEM=='' @ quoted ''tty'' @ '', ATTRS{idVendor}==''
      @ quoted (show_hex04 (unat vid)) @ '', ATTRS{idProduct}=='' @ quoted (show_hex04 (unat pid))
      @ '', ATTRS{serial}=='' @ quoted ?evil @ '', SYMLINK+='' @ ?sym @ [CHR 0x0A]))"
    by (simp only: append_assoc) (simp add: rule_fields_quoted link hex)
  from rule [of ?evil] evil rule [of serial] plain [of serial] show ?thesis by fastforce
qed

theorem udev_rule_trusts_serial_witness:
  "\<exists>rule text. suggest (Usb 0x0D8C 0x013C ''A1B2'') = Some (rule, text) \<and> length (rule_fields False rule) = 5"
  using udev_rule_trusts_serial [where serial = "''A1B2''" and vid = "0x0D8C" and pid = "0x013C"] by auto

end
