(* ===== verification/Commands.thy ===== *)
theory Commands
  imports Core Udev
begin

text \<open>
  The rest of the core's loop (\<open>core/mod.rs\<close>, \<open>core/command.rs\<close>): keying, transmission, leases,
  hotplug, start-up, and the dispatch of a command. Telemetry is the list of events in the order
  they are sent.
\<close>

section \<open>Keying and transmission\<close>

definition evict_on_gone :: "('c, 'd, 'n, 's) core \<Rightarrow> channel_id \<Rightarrow> ptt_error \<Rightarrow> ('c, 'd, 'n, 's) core" where
  "evict_on_gone co i e = (case e of
       DeviceGone _ \<Rightarrow>
         (let lv = co_live co;
              lv1 = lv\<lparr>lv_drivers := (lv_drivers lv)(i := None), lv_tx_workers := (lv_tx_workers lv)(i := None),
                lv_ptt_dev := (lv_ptt_dev lv)(i := None)\<rparr>
          in co\<lparr>co_live := lv1, co_sup := (case lv_ptt_dev lv i of None \<Rightarrow> co_sup co
               | Some d \<Rightarrow> (co_sup co)\<lparr>su_ptt := evict (su_ptt (co_sup co)) d\<rparr>)\<rparr>)
     | _ \<Rightarrow> co)"

definition on_rig :: "(interlock \<Rightarrow> device_id \<Rightarrow> interlock) \<Rightarrow> device_id option \<Rightarrow> ('c, 'd, 'n, 's) core \<Rightarrow>
    ('c, 'd, 'n, 's) core" where
  "on_rig f rig co = (case rig of None \<Rightarrow> co
     | Some r \<Rightarrow> co\<lparr>co_sup := (co_sup co)\<lparr>su_interlock := f (su_interlock (co_sup co)) r\<rparr>\<rparr>)"

definition put_driver :: "channel_id \<Rightarrow> 'd \<Rightarrow> ('c, 'd, 'n, 's) core \<Rightarrow> ('c, 'd, 'n, 's) core" where
  "put_driver i d co = co\<lparr>co_live := (co_live co)\<lparr>lv_drivers := (lv_drivers (co_live co))(i \<mapsto> d)\<rparr>\<rparr>"

text \<open>The message holds an em dash, in UTF-8.\<close>

definition manual_key_refused :: string where
  "manual_key_refused = ''channel is in a mode; the TX worker keys PTT during transmit '' @
     [CHR 0xE2, CHR 0x80, CHR 0x94] @ '' use Transmit, not manual key''"

definition tx_rig :: "('c, 'd, 'n, 's) live_bindings \<Rightarrow> channel_id \<Rightarrow> device_id option" where
  "tx_rig lv i = (case lv_audio lv i of Some b \<Rightarrow> Some (ab_tx_dev b) | None \<Rightarrow> lv_ptt_dev lv i)"

definition key_ptt :: "('c, 'd, 'n, 's, 'p) core_env \<Rightarrow> ('c, 'd, 'n, 's) core \<Rightarrow> channel_id \<Rightarrow> bool \<Rightarrow>
    ('c, 'd, 'n, 's) core \<times> 'n telemetry list \<times> (unit, core_error) result" where
  "key_ptt env co i keyed =
     (let rig = tx_rig (co_live co) i in
      if lv_tx_workers (co_live co) i \<noteq> None then (co, [], Err (PttFault (ConfigError manual_key_refused)))
      else case lv_drivers (co_live co) i of
          None \<Rightarrow> (co, [], Err (PttFault (ConfigError ''channel has no PTT configured'')))
        | Some d \<Rightarrow>
            (if keyed then
               (case ce_key env d of
                  (d', Inr _) \<Rightarrow> (on_rig begin_tx rig (put_driver i d' co), [PttKeyed i True], Ok ())
                | (d', Inl e) \<Rightarrow> (evict_on_gone (on_rig end_tx rig (on_rig begin_tx rig (put_driver i d' co))) i e,
                    [], Err (PttFault e)))
             else
               (case ce_unkey env d of
                  (d', Inr _) \<Rightarrow> (on_rig end_tx rig (put_driver i d' co), [PttKeyed i False], Ok ())
                | (d', Inl e) \<Rightarrow> (evict_on_gone (on_rig end_tx rig (put_driver i d' co)) i e, [], Err (PttFault e)))))"

text \<open>\<open>chunks_exact(2)\<close> and \<open>i16::from_le_bytes\<close>.\<close>

fun pcm16_le :: "u8 list \<Rightarrow> int list" where
  "pcm16_le (a # b # bs) = sint (word_cat b a :: 16 word) # pcm16_le bs"
| "pcm16_le _ = []"

definition payload_to_frame :: "(u8 list \<Rightarrow> string) \<Rightarrow> 'n mode_config \<Rightarrow> u8 list \<Rightarrow> frame_payload" where
  "payload_to_frame lossy mode payload = (case mode of Afsk1200 _ \<Rightarrow> Packet payload | _ \<Rightarrow> Text (lossy payload))"

definition enqueue_job :: "bool \<Rightarrow> channel_id \<Rightarrow> ('d, 'n, 's) tx_handle \<Rightarrow> (frame_payload, 's) tx_job \<Rightarrow>
    ('c, 'd, 'n, 's) core \<Rightarrow> ('c, 'd, 'n, 's) core \<times> (transmit_id, core_error) result" where
  "enqueue_job opn i h job co =
     (case enqueue opn (snd h) job of
        (q, Inr _) \<Rightarrow> (co\<lparr>co_live := (co_live co)\<lparr>lv_tx_workers := (lv_tx_workers (co_live co))(i \<mapsto> (fst h, q))\<rparr>\<rparr>,
            Ok (job_id job))
      | (q, Inl _) \<Rightarrow> (co, Err (PttFault (ConfigError ''tx queue full''))))"

text \<open>The outer option is \<open>None\<close> while the waits of an inline cycle have not ended.\<close>

definition transmit :: "('c, 'd, 'n, 's, 'p) core_env \<Rightarrow> ('c, 'd, 'n, 's) core \<Rightarrow> channel_id \<Rightarrow> u8 list \<Rightarrow>
    transmit_id \<Rightarrow> (('c, 'd, 'n, 's) core \<times> 'n telemetry list \<times> (transmit_id, core_error) result) option" where
  "transmit env co i payload t =
     (let lv = co_live co in case lv_tx_workers lv i of
        Some h \<Rightarrow>
          (let frame = payload_to_frame (ce_lossy_text env) (channel_mode (ce_text env) (co_sup co) i) payload;
               (co1, r) = enqueue_job (ce_tx_open env i) i h \<lparr>job_frame = frame, job_id = t, job_prebuilt = None\<rparr> co
           in Some (co1, [], r))
      | None \<Rightarrow>
          (case (lv_sinks lv i, lv_audio lv i, lv_drivers lv i) of
             (Some (s, srate), Some b, Some d) \<Rightarrow>
               (let (delay, tail) = channel_ptt_timing (co_sup co) i; rig = ab_tx_dev b in
                case drive_tx_cycle (ce_key env) (ce_unkey env) (pcm16_le payload) (ab_tx_rate b)
                    (millis delay) (millis tail) (ce_cycle env) d s of
                  None \<Rightarrow> None
                | Some (d', s', out) \<Rightarrow>
                    (let co1 = on_rig end_tx (Some rig) (on_rig begin_tx (Some rig) (put_driver i d' co));
                         co2 = co1\<lparr>co_live := (co_live co1)\<lparr>lv_sinks := (lv_sinks lv)(i \<mapsto> (s', srate))\<rparr>\<rparr>;
                         evs = [TransmitStarted i t, PttKeyed i True, PttKeyed i False, TransmitComplete i t]
                     in Some (case out of
                          KeyFailed e \<Rightarrow> (evict_on_gone co2 i e, evs, Err (PttFault e))
                        | SubmitFailed e \<Rightarrow> (evict_on_gone co2 i e, evs, Err (PttFault e))
                        | UnkeyFailed e \<Rightarrow> (evict_on_gone co2 i e, evs, Err (PttFault e))
                        | _ \<Rightarrow> (co2, evs, Ok t))))
           | _ \<Rightarrow> Some (co, [TransmitStarted i t, TransmitComplete i t], Ok t)))"

definition transmit_image :: "('c, 'd, 'n, 's, 'p) core_env \<Rightarrow> ('c, 'd, 'n, 's) core \<Rightarrow> channel_id \<Rightarrow> 'p \<Rightarrow> transmit_id \<Rightarrow>
    ('c, 'd, 'n, 's) core \<times> (transmit_id, core_error) result" where
  "transmit_image env co i picture t = (case lv_tx_workers (co_live co) i of
       None \<Rightarrow> (co, Err (PictureError ''channel has no active transmit worker''))
     | Some h \<Rightarrow> (case ce_picture env (channel_mode (ce_text env) (co_sup co) i) picture of
         Inl e \<Rightarrow> (co, Err (PictureError e))
       | Inr (audio, rate) \<Rightarrow>
           enqueue_job (ce_tx_open env i) i h \<lparr>job_frame = Text [], job_id = t, job_prebuilt = Some (audio, rate)\<rparr> co))"

section \<open>Hotplug\<close>

definition drop_audio :: "channel_id \<Rightarrow> ('c, 'd, 'n, 's) live_bindings \<Rightarrow> ('c, 'd, 'n, 's) live_bindings" where
  "drop_audio i lv = lv
     \<lparr>lv_sinks := (lv_sinks lv)(i := None), lv_captures := (lv_captures lv)(i := None),
      lv_audio := (lv_audio lv)(i := None), lv_rx_workers := (lv_rx_workers lv)(i := None),
      lv_tx_workers := (lv_tx_workers lv)(i := None), lv_metrics := lv_metrics lv - {i},
      lv_spectra := (lv_spectra lv)(i := None), lv_sdr := (lv_sdr lv)(i := None)\<rparr>"

definition drop_ptt :: "channel_id \<Rightarrow> ('c, 'd, 'n, 's) live_bindings \<Rightarrow> ('c, 'd, 'n, 's) live_bindings" where
  "drop_ptt i lv = lv\<lparr>lv_drivers := (lv_drivers lv)(i := None), lv_ptt_dev := (lv_ptt_dev lv)(i := None),
     lv_tx_workers := (lv_tx_workers lv)(i := None)\<rparr>"

text \<open>\<open>chans\<close> lists the channel ids of the maps, in the iteration order of the hash maps.\<close>

definition on_departed :: "channel_id list \<Rightarrow> device_id \<Rightarrow> ('c, 'd, 'n, 's) core \<Rightarrow> ('c, 'd, 'n, 's) core" where
  "on_departed chans d co =
     (let lv = co_live co;
          bound = filter (\<lambda>i. case lv_audio lv i of Some b \<Rightarrow> ab_rx_dev b = d \<or> ab_tx_dev b = d | None \<Rightarrow> False) chans;
          lv1 = fold drop_audio bound lv;
          keyed = filter (\<lambda>i. lv_ptt_dev lv1 i = Some d) chans
      in co\<lparr>co_sup := (co_sup co)\<lparr>su_ptt := evict (su_ptt (co_sup co)) d\<rparr>,
            co_lease := fold (\<lambda>i m. release_all m i) bound (co_lease co),
            co_live := fold drop_ptt keyed lv1\<rparr>)"

fun on_hotplug :: "channel_id list \<Rightarrow> hotplug_event \<Rightarrow> ('c, 'd, 'n, 's) core \<Rightarrow>
    ('c, 'd, 'n, 's) core \<times> 'n telemetry list" where
  "on_hotplug chans (Arrived desc) co = (co, [DeviceArrived (dd_id desc) (dd_label desc)])"
| "on_hotplug chans (Departed d) co = (on_departed chans d co, [DeviceDeparted d])"

definition poll_hotplug :: "channel_id list \<Rightarrow> ('c, 'd, 'n, 's, 'p) core_env \<Rightarrow> ('c, 'd, 'n, 's) core \<Rightarrow>
    ('c, 'd, 'n, 's) core \<times> 'n telemetry list" where
  "poll_hotplug chans env co =
     (let (w, evs) = poll (co_watcher co) (ce_enumerate env)
      in foldl (\<lambda>(c, out) ev. let (c', o') = on_hotplug chans ev c in (c', out @ o')) (co\<lparr>co_watcher := w\<rparr>, []) evs)"

section \<open>Start-up\<close>

text \<open>A failed audio restore skips the channel; a failed PTT restore still spawns its workers.\<close>

definition restore_channel :: "('c, 'd, 'n, 's, 'p) core_env \<Rightarrow> channel_config \<Rightarrow> ('c, 'd, 'n, 's) core \<Rightarrow>
    ('c, 'd, 'n, 's) core" where
  "restore_channel env cfg co =
     (if cc_device_id cfg = placeholder then co
      else case core_configure_audio env co (cc_id cfg) (cc_device_id cfg) (cc_sample_rate cfg) (cc_fanout cfg)
          (cc_tx_device_id cfg) (cc_tx_sample_rate cfg) of
        (co1, Inl e) \<Rightarrow> co1
      | (co1, Inr _) \<Rightarrow> respawn env (cc_id cfg)
          (case cc_ptt cfg of None \<Rightarrow> co1 | Some ptt \<Rightarrow> fst (core_configure_ptt env co1 (cc_id cfg) ptt)))"

definition core_start :: "('c, 'd, 'n, 's, 'p) core_env \<Rightarrow> supervisor \<Rightarrow> device_descriptor list \<Rightarrow>
    ('c, 'd, 'n, 's) core" where
  "core_start env sv registered =
     foldl (\<lambda>co cfg. restore_channel env cfg co)
       \<lparr>co_sup = sv, co_lease = lease_new, co_live = live_empty registered, co_next_tx = 1, co_watcher = watcher_new\<rparr>
       (fst (snapshot sv))"


section \<open>Commands\<close>

datatype ('n, 'p) command =
    CmdConfigureChannel channel_id string string bool bool
  | CmdConfigureAudio channel_id device_id u32 u32 device_id u32
  | CmdConfigurePtt channel_id ptt_config
  | CmdKeyPtt channel_id bool
  | CmdTransmit channel_id "u8 list"
  | CmdTransmitImage channel_id 'p
  | CmdListDevices
  | CmdSuggestUdevRule device_id
  | CmdGetState
  | CmdGetMetrics "channel_id option"
  | CmdAcquireTxLease channel_id
  | CmdReleaseTxLease channel_id
  | CmdSetAudioGain channel_id 'n 'n
  | CmdConfigureSpectrum channel_id bool "'n spectrum_cfg"
  | CmdSetSdrTune channel_id 'n
  | CmdSetSdrGain channel_id bool 'n
  | CmdConfigureSdr channel_id u32 u8 'n i32 bool bool
  | CmdGetSdrCaps channel_id
  | CmdShutdown

datatype 'n reply =
    RepUnit "(unit, core_error) result"
  | RepAudio "(u32 \<times> u32, core_error) result"
  | RepTransmit "(transmit_id, core_error) result"
  | RepDevices "device_descriptor list"
  | RepRule "(string \<times> string, core_error) result"
  | RepState "channel_config list \<times> bool list"
  | RepMetrics "channel_id set"
  | RepLease "(bool \<times> channel_id option, core_error) result"
  | RepSpectrum "(u32 \<times> u32 \<times> u32 \<times> 'n \<times> 'n, core_error) result"
  | RepTune "('n \<times> 'n \<times> 'n, core_error) result"
  | RepGain "('n, core_error) result"
  | RepRate "(u32, core_error) result"
  | RepCaps "('n tuner_caps, core_error) result"
  | RepNone

definition core_configure_channel :: "('c, 'd, 'n, 's, 'p) core_env \<Rightarrow> ('c, 'd, 'n, 's) core \<Rightarrow> channel_id \<Rightarrow>
    string \<Rightarrow> string \<Rightarrow> bool \<Rightarrow> bool \<Rightarrow> ('c, 'd, 'n, 's) core \<times> 'n telemetry list \<times> (unit, core_error) result" where
  "core_configure_channel env co i name mode rsid_tx rsid_rx =
     (if mode_parse (ce_text env) mode = None then (co, [], Err (UnknownMode mode))
      else case configure_channel (ce_store env) (co_sup co) i name mode rsid_tx rsid_rx of
             (sv, Inl e) \<Rightarrow> (co\<lparr>co_sup := sv\<rparr>, [], Err (PersistError e))
           | (sv, Inr _) \<Rightarrow> (co\<lparr>co_sup := sv\<rparr>, [ChannelConfigured i], Ok ()))"

text \<open>A scan that panics leaves the cache as it was and yields only the registered devices.\<close>

definition list_devices :: "('c, 'd, 'n, 's, 'p) core_env \<Rightarrow> ('c, 'd, 'n, 's) core \<Rightarrow>
    ('c, 'd, 'n, 's) core \<times> device_descriptor list" where
  "list_devices env co =
     (let (cache, found) = (if ce_scan_panics env then (su_devices (co_sup co), [])
            else cache_refresh (su_devices (co_sup co)) (ce_enumerate env))
      in (co\<lparr>co_sup := (co_sup co)\<lparr>su_devices := cache\<rparr>\<rparr>,
          foldl (\<lambda>ds reg. if \<exists>d\<in>set ds. dd_id d = dd_id reg then ds else ds @ [reg]) found
            (lv_registered (co_live co))))"

definition acquire_tx_lease :: "('c, 'd, 'n, 's) core \<Rightarrow> channel_id \<Rightarrow>
    ('c, 'd, 'n, 's) core \<times> (bool \<times> channel_id option, core_error) result" where
  "acquire_tx_lease co i = (case lv_audio (co_live co) i of
       None \<Rightarrow> (co, Err (UnknownChannel i))
     | Some b \<Rightarrow> (case acquire (co_lease co) (ab_tx_dev b) i of
         (m, Inr _) \<Rightarrow> (co\<lparr>co_lease := m\<rparr>, Ok (True, Some i))
       | (m, Inl (HeldBy h)) \<Rightarrow> (co\<lparr>co_lease := m\<rparr>, Ok (False, Some h))))"

definition release_tx_lease :: "('c, 'd, 'n, 's) core \<Rightarrow> channel_id \<Rightarrow>
    ('c, 'd, 'n, 's) core \<times> (unit, core_error) result" where
  "release_tx_lease co i = (case lv_audio (co_live co) i of
       None \<Rightarrow> (co, Err (UnknownChannel i))
     | Some b \<Rightarrow> (co\<lparr>co_lease := release (co_lease co) (ab_tx_dev b) i\<rparr>, Ok ()))"

text \<open>\<open>core/gain.rs\<close>: the gains a client may set.\<close>

definition sanitize :: "'n hz_math \<Rightarrow> 'n \<Rightarrow> 'n" where
  "sanitize H g = (if hz_finite H g
     then if hz_less H g (hz_lit H ''0.0'') then hz_lit H ''0.0''
       else if hz_less H (hz_lit H ''16.0'') g then hz_lit H ''16.0'' else g
     else hz_lit H ''1.0'')"

definition set_audio_gain :: "('c, 'd, 'n, 's, 'p) core_env \<Rightarrow> ('c, 'd, 'n, 's) core \<Rightarrow> channel_id \<Rightarrow> 'n \<Rightarrow> 'n \<Rightarrow>
    ('c, 'd, 'n, 's) core \<times> (unit, core_error) result" where
  "set_audio_gain env co i rx tx =
     (if has_channel (co_sup co) i
      then (co\<lparr>co_live := (co_live co)\<lparr>lv_gains := (lv_gains (co_live co))(i \<mapsto> (sanitize (ce_hz env) rx, sanitize (ce_hz env) tx))\<rparr>\<rparr>, Ok ())
      else (co, Err (UnknownChannel i)))"

definition put_spectrum :: "channel_id \<Rightarrow> 'n spectrum_control \<Rightarrow> ('c, 'd, 'n, 's) core \<Rightarrow> ('c, 'd, 'n, 's) core" where
  "put_spectrum i c co = co\<lparr>co_live := (co_live co)\<lparr>lv_spectra := (lv_spectra (co_live co))(i \<mapsto> c)\<rparr>\<rparr>"

definition configure_spectrum :: "('c, 'd, 'n, 's, 'p) core_env \<Rightarrow> ('c, 'd, 'n, 's) core \<Rightarrow> channel_id \<Rightarrow> bool \<Rightarrow>
    'n spectrum_cfg \<Rightarrow> ('c, 'd, 'n, 's) core \<times> (u32 \<times> u32 \<times> u32 \<times> 'n \<times> 'n, core_error) result" where
  "configure_spectrum env co i enable cfg =
     (if \<not> has_channel (co_sup co) i then (co, Err (UnknownChannel i))
      else
        (let (gen, cur) = (case lv_spectra (co_live co) i of Some c \<Rightarrow> c | None \<Rightarrow> (0, None));
             mode = channel_mode (ce_text env) (co_sup co) i; z = hz_lit (ce_hz env) ''0.0''
         in if \<not> enable then (put_spectrum i (gen + 1, None) co, Ok (0, 0, 0, z, z))
            else if mode = NoMode
            then (put_spectrum i (gen, cur) co, Err (UnknownMode ''channel has no RX mode to tap a spectrum from''))
            else (put_spectrum i (gen + 1, Some cfg) co, Ok (ce_spectrum env (ce_native_rate env mode) cfg))))"

definition with_sdr :: "('n sdr_controls \<Rightarrow> 'n sdr_controls \<times> 'n telemetry list \<times> 'r) \<Rightarrow> ('r \<Rightarrow> 'n reply) \<Rightarrow>
    ('c, 'd, 'n, 's) core \<Rightarrow> (('c, 'd, 'n, 's) core \<times> 'n telemetry list \<times> 'n reply) option" where
  "with_sdr f rep co =
     (let (cs, evs, r) = f (lv_sdr (co_live co)) in Some (co\<lparr>co_live := (co_live co)\<lparr>lv_sdr := cs\<rparr>\<rparr>, evs, rep r))"

text \<open>The next transmit id, taken whenever the channel exists.\<close>

definition take_tx_id :: "('c, 'd, 'n, 's) core \<Rightarrow> transmit_id \<times> ('c, 'd, 'n, 's) core" where
  "take_tx_id co = (co_next_tx co, co\<lparr>co_next_tx := co_next_tx co + 1\<rparr>)"

fun handle_command :: "('c, 'd, 'n, 's, 'p) core_env \<Rightarrow> ('n, 'p) command \<Rightarrow> ('c, 'd, 'n, 's) core \<Rightarrow>
    (('c, 'd, 'n, 's) core \<times> 'n telemetry list \<times> 'n reply) option" where
  "handle_command env (CmdConfigureChannel i name mode rsid_tx rsid_rx) co =
     (let (co1, evs, r) = core_configure_channel env co i name mode rsid_tx rsid_rx in Some (co1, evs, RepUnit r))"
| "handle_command env (CmdConfigureAudio i dev rate fanout tx_dev tx_rate) co =
     (let (co1, r) = handle_configure_audio env co i dev rate fanout tx_dev tx_rate in Some (co1, [], RepAudio r))"
| "handle_command env (CmdConfigurePtt i ptt) co =
     (let (co1, r) = handle_configure_ptt env co i ptt in Some (co1, [], RepUnit r))"
| "handle_command env (CmdKeyPtt i keyed) co =
     (let (co1, evs, r) = key_ptt env co i keyed in Some (co1, evs, RepUnit r))"
| "handle_command env (CmdTransmit i payload) co =
     (if \<not> has_channel (co_sup co) i then Some (co, [], RepTransmit (Err (UnknownChannel i)))
      else let (t, co1) = take_tx_id co
        in map_option (\<lambda>(co2, evs, r). (co2, evs, RepTransmit r)) (transmit env co1 i payload t))"
| "handle_command env (CmdTransmitImage i picture) co =
     (if \<not> has_channel (co_sup co) i then Some (co, [], RepTransmit (Err (UnknownChannel i)))
      else let (t, co1) = take_tx_id co; (co2, r) = transmit_image env co1 i picture t
        in Some (co2, [], RepTransmit r))"
| "handle_command env CmdListDevices co = (let (co1, ds) = list_devices env co in Some (co1, [], RepDevices ds))"
| "handle_command env (CmdSuggestUdevRule d) co = Some (co, [], RepRule (case suggest d of
       Some r \<Rightarrow> Ok r
     | None \<Rightarrow> Err (PttFault (ConfigError (''no udev rule applies to '' @ to_canonical_string d)))))"
| "handle_command env CmdGetState co = Some (co, [], RepState (snapshot (co_sup co)))"
| "handle_command env (CmdGetMetrics want) co = Some (co, [], RepMetrics
     (case want of None \<Rightarrow> lv_metrics (co_live co) | Some i \<Rightarrow> lv_metrics (co_live co) \<inter> {i}))"
| "handle_command env (CmdAcquireTxLease i) co = (let (co1, r) = acquire_tx_lease co i in Some (co1, [], RepLease r))"
| "handle_command env (CmdReleaseTxLease i) co = (let (co1, r) = release_tx_lease co i in Some (co1, [], RepUnit r))"
| "handle_command env (CmdSetAudioGain i rx tx) co = (let (co1, r) = set_audio_gain env co i rx tx in Some (co1, [], RepUnit r))"
| "handle_command env (CmdConfigureSpectrum i enable cfg) co =
     (let (co1, r) = configure_spectrum env co i enable cfg in Some (co1, [], RepSpectrum r))"
| "handle_command env (CmdSetSdrTune i freq) co = with_sdr (\<lambda>cs. set_sdr_tune (ce_hz env) cs i freq) RepTune co"
| "handle_command env (CmdSetSdrGain i auto gain) co = with_sdr (\<lambda>cs. set_sdr_gain (ce_hz env) cs i auto gain) RepGain co"
| "handle_command env (CmdConfigureSdr i rate demod squelch ppm tee direct) co =
     with_sdr (\<lambda>cs. configure_sdr (ce_hz env) cs i rate demod squelch ppm tee direct) RepRate co"
| "handle_command env (CmdGetSdrCaps i) co =
     Some (co, [], RepCaps (get_sdr_caps (ce_hz env) (lv_sdr (co_live co)) i))"
| "handle_command env CmdShutdown co = Some (co, [], RepNone)"

end
