(* ===== verification/CoreProps.thy ===== *)
theory CoreProps
  imports Commands
begin

text \<open>
  What holds of the core's command loop: the consistency of the live bindings in every reachable
  state, what a departed device leaves behind, the accounting of a transmission, and the
  situations in which bindings, leases and keying get out of step.
\<close>

section \<open>Consistent bindings\<close>

definition tx_worker_ok :: "('c, 'd, 'n, 's) live_bindings \<Rightarrow> channel_id \<Rightarrow> ('d, 'n, 's) tx_handle \<Rightarrow> bool" where
  "tx_worker_ok lv i h \<longleftrightarrow> w_channel (fst h) = i \<and>
     length (snd h) \<le> tx_queue_depth \<and>
     lv_ptt_dev lv i \<noteq> None \<and>
     (\<exists>b. lv_audio lv i = Some b \<and> ab_tx_dev b = w_rig (fst h) \<and> ab_tx_rate b = w_rate (fst h))"

definition rx_worker_ok :: "('c, 'd, 'n, 's) live_bindings \<Rightarrow> channel_id \<Rightarrow> ('c, 'n) rx_worker \<Rightarrow> bool" where
  "rx_worker_ok lv i w \<longleftrightarrow> rw_mode w \<noteq> NoMode \<and>
     (\<exists>b. lv_audio lv i = Some b \<and> ab_rx_dev b = rw_rig w)"

definition live_ok :: "('c, 'd, 'n, 's) live_bindings \<Rightarrow> bool" where
  "live_ok lv \<longleftrightarrow>
     (\<forall>i h. lv_tx_workers lv i = Some h \<longrightarrow> tx_worker_ok lv i h) \<and>
     (\<forall>i w. lv_rx_workers lv i = Some w \<longrightarrow> rx_worker_ok lv i w) \<and>
     (\<forall>i. lv_drivers lv i \<noteq> None \<longrightarrow> lv_ptt_dev lv i \<noteq> None)"

text \<open>The maps the invariant does not read.\<close>

definition same_bindings :: "('c, 'd, 'n, 's) live_bindings \<Rightarrow> ('c, 'd, 'n, 's) live_bindings \<Rightarrow> bool" where
  "same_bindings lv lv' \<longleftrightarrow> lv_tx_workers lv' = lv_tx_workers lv \<and> lv_rx_workers lv' = lv_rx_workers lv \<and>
     lv_audio lv' = lv_audio lv \<and> lv_drivers lv' = lv_drivers lv \<and> lv_ptt_dev lv' = lv_ptt_dev lv"

lemma same_refl: "same_bindings lv lv"
  by (simp add: same_bindings_def)

lemma same_trans: "same_bindings a b \<Longrightarrow> same_bindings b c \<Longrightarrow> same_bindings a c"
  by (simp add: same_bindings_def)

lemma live_ok_same: "same_bindings lv lv' \<Longrightarrow> live_ok lv \<Longrightarrow> live_ok lv'"
  by (simp add: same_bindings_def live_ok_def tx_worker_ok_def rx_worker_ok_def)

lemma live_ok_empty: "live_ok (live_empty reg)"
  by (simp add: live_ok_def live_empty_def)

lemma bind_capture_same: "bind_capture env sv i dev rate mode lv = (lv', r) \<Longrightarrow> same_bindings lv lv'"
  by (auto simp: bind_capture_def same_bindings_def Let_def split: sum.splits if_splits)

lemma bind_playback_same: "bind_playback env sv i dev rate lv = (lv', r) \<Longrightarrow> same_bindings lv lv'"
  by (auto simp: bind_playback_def same_bindings_def split: sum.splits audio_error.splits)

lemma default_cells_same: "same_bindings lv (default_cells H i lv)"
  by (simp add: default_cells_def same_bindings_def)

lemma reuse_capture_binding:
  "reuse_capture env i dev rate mode lv = Some b \<Longrightarrow> lv_audio lv i = Some b \<and> ab_rx_dev b = dev"
  by (auto simp: reuse_capture_def split: if_splits option.splits)

lemma finish_bind_ok:
  assumes "live_ok lv" "\<And>b0. reused \<Longrightarrow> lv_audio lv i = Some b0 \<Longrightarrow> ab_rx_dev b0 = ab_rx_dev b"
  shows "live_ok (finish_bind H i reused b lv)"
  using assms by (fastforce simp: live_ok_def finish_bind_def tx_worker_ok_def rx_worker_ok_def)

text \<open>What a failed or successful binding of audio does to the live bindings.\<close>

lemma bind_devices_cases:
  assumes "bind_devices env sv i dev rate tx_dev tx_req lv = (lv', r)"
  obtains (failed) e where "r = Inl e" "same_bindings lv lv'"
    | (bound) lv2 reused b rates where "r = Inr rates" "same_bindings lv lv2"
        "lv' = finish_bind (ce_hz env) i reused b lv2" "ab_rx_dev b = dev" "ab_tx_dev b = tx_dev"
        "\<And>b0. reused \<Longrightarrow> lv_audio lv i = Some b0 \<Longrightarrow> ab_rx_dev b0 = dev"
proof -
  define mode where "mode = channel_mode (ce_text env) sv i"
  define reused where "reused = reuse_capture env i dev rate mode lv"
  obtain lv1 y where rx: "(case reused of Some b \<Rightarrow> (lv, Ok (ab_rx_rate b))
      | None \<Rightarrow> bind_capture env sv i dev rate mode lv) = (lv1, y)" by fastforce
  have same1: "same_bindings lv lv1"
    using rx by (auto simp: same_refl dest: bind_capture_same split: option.splits)
  obtain lv2 z where tx: "bind_playback env sv i tx_dev tx_req lv1 = (lv2, z)" by fastforce
  from same_trans [OF same1 bind_playback_same [OF tx]] have same2: "same_bindings lv lv2" .
  note unf = assms [unfolded bind_devices_def Let_def mode_def [symmetric], folded reused_def, unfolded rx]
  show thesis
  proof (cases y)
    case (Inl e)
    with unf same1 show thesis by (intro failed) auto
  next
    case rxr: (Inr rx_rate)
    show thesis
    proof (cases z)
      case (Inl e)
      with unf rxr tx same2 show thesis by (intro failed) auto
    next
      case (Inr tx_actual)
      with unf rxr tx same2 show thesis
        by (intro bound [of "(rx_rate, tx_actual)" lv2 "reused \<noteq> None" "\<lparr>ab_rx_dev = dev, ab_tx_dev = tx_dev,
            ab_tx_rate = tx_actual, ab_rx_req_rate = rate, ab_rx_rate = rx_rate, ab_rx_mode = mode\<rparr>"])
          (auto simp: reused_def dest: reuse_capture_binding)
    qed
  qed
qed

text \<open>The fields of the core that binding operations leave alone.\<close>

definition same_outside :: "('c, 'd, 'n, 's) core \<Rightarrow> ('c, 'd, 'n, 's) core \<Rightarrow> bool" where
  "same_outside co co' \<longleftrightarrow> co_lease co' = co_lease co \<and> co_next_tx co' = co_next_tx co \<and>
     su_interlock (co_sup co') = su_interlock (co_sup co) \<and> co_watcher co' = co_watcher co"

lemma same_outside_refl [simp]: "same_outside co co"
  by (simp add: same_outside_def)

lemma rebind_lock: "rebind st sv i f = (sv', r) \<Longrightarrow> su_interlock sv' = su_interlock sv"
  by (auto simp: rebind_def Let_def split: option.splits prod.splits)

lemma configure_audio_outside:
  "core_configure_audio env co i dev rate fanout tx_dev tx_rate = (co', r) \<Longrightarrow> same_outside co co'"
  by (auto simp: core_configure_audio_def configure_audio_def same_outside_def Let_def
      dest: rebind_lock split: if_splits prod.splits sum.splits)

lemma configure_audio_cases:
  assumes "core_configure_audio env co i dev rate fanout tx_dev tx_rate = (co', r)"
  obtains (failed) e where "r = Inl e" "same_bindings (co_live co) (co_live co')"
    | (bound) lv2 reused b rates where "r = Inr rates" "same_bindings (co_live co) lv2"
        "co_live co' = finish_bind (ce_hz env) i reused b lv2" "ab_rx_dev b = dev" "ab_tx_dev b = tx_dev"
        "\<And>b0. reused \<Longrightarrow> lv_audio (co_live co) i = Some b0 \<Longrightarrow> ab_rx_dev b0 = dev"
proof -
  consider e where "r = Inl e" "co_live co' = co_live co"
    | sv rt tq lv' where "bind_devices env sv i dev rt tx_dev tq (co_live co) = (lv', r)" "co_live co' = lv'"
    using assms
    by (auto simp: core_configure_audio_def Let_def split: if_splits prod.splits sum.splits)
  then show thesis
  proof cases
    case 1
    then show thesis by (intro failed) (simp_all add: same_refl)
  next
    case 2
    from 2(1) show thesis
    proof (cases rule: bind_devices_cases)
      case (failed e)
      with 2(2) that(1) show thesis by auto
    next
      case (bound lv2 reused b rates)
      with 2(2) that(2) show thesis by metis
    qed
  qed
qed

lemma configure_audio_live_ok:
  assumes "core_configure_audio env co i dev rate fanout tx_dev tx_rate = (co', r)" "live_ok (co_live co)"
  shows "live_ok (co_live co')"
  using assms(1)
proof (cases rule: configure_audio_cases)
  case (failed e)
  with assms(2) show ?thesis by (metis live_ok_same)
next
  case (bound lv2 reused b rates)
  moreover from live_ok_same [OF bound(2) assms(2)] have "live_ok lv2" .
  ultimately show ?thesis by (auto intro!: finish_bind_ok simp: same_bindings_def)
qed

lemma configure_ptt_live:
  assumes "core_configure_ptt env co i ptt = (co', r)"
  shows "(co_live co' = co_live co \<and> (\<exists>e. r = Inl e) \<or>
      (\<exists>d. co_live co' = (co_live co)\<lparr>lv_drivers := (lv_drivers (co_live co))(i \<mapsto> d),
        lv_ptt_dev := (lv_ptt_dev (co_live co))(i \<mapsto> ptt_device_id ptt)\<rparr> \<and> r = Inr ())) \<and>
    same_outside co co'"
  using assms
  by (auto simp: core_configure_ptt_def configure_ptt_def same_outside_def dest: rebind_lock
      split: if_splits sum.splits prod.splits)

lemma configure_ptt_live_ok:
  "core_configure_ptt env co i ptt = (co', r) \<Longrightarrow> live_ok (co_live co) \<Longrightarrow> live_ok (co_live co')"
  by (drule configure_ptt_live) (auto simp: live_ok_def tx_worker_ok_def rx_worker_ok_def)

lemma demod_kind_NoMode [simp]: "demod_kind_of NoMode = Some DkNone"
  by (simp add: demod_kind_of_def)

lemma spawn_rx_live_ok:
  assumes "spawn_rx env sv i lv = Some lv'" "live_ok lv"
  shows "live_ok lv'"
  using assms
  by (auto simp: spawn_rx_def live_ok_def tx_worker_ok_def rx_worker_ok_def Let_def
      split: if_splits option.splits demod_kind.splits)

lemma built_modulator: "build_modulator mode = Some (Some md) \<Longrightarrow> mode \<noteq> NoMode \<Longrightarrow> md \<noteq> NullModulator"
  by (cases mode) (auto simp: build_modulator_def expect_def)

lemma spawn_tx_cases:
  assumes "spawn_tx env sv i lv = Some lv'"
  obtains (kept) "lv' = lv"
    | (spawned) s srate d b w where "lv_sinks lv i = Some (s, srate)" "lv_drivers lv i = Some d"
        "lv_audio lv i = Some b" "lv_tx_workers lv i = None" "w_channel w = i" "w_rig w = ab_tx_dev b"
        "w_rate w = ab_tx_rate b" "w_mod w \<noteq> NullModulator" "w_driver w = d"
        "lv' = lv\<lparr>lv_sinks := (lv_sinks lv)(i := None), lv_drivers := (lv_drivers lv)(i := None),
           lv_tx_workers := (lv_tx_workers lv)(i \<mapsto> (w, []))\<rparr>"
proof -
  let ?mode = "channel_mode (ce_text env) sv i"
  show thesis
  proof (cases "lv_tx_workers lv i \<noteq> None \<or> ?mode = NoMode \<or> lv_sinks lv i = None \<or> lv_drivers lv i = None
      \<or> lv_audio lv i = None")
    case True
    with assms show thesis by (intro kept) (auto simp: spawn_tx_def Let_def split: option.splits)
  next
    case False
    then have free: "lv_tx_workers lv i = None" by blast
    from False obtain s srate d b where b: "lv_sinks lv i = Some (s, srate)" "lv_drivers lv i = Some d"
      "lv_audio lv i = Some b" "?mode \<noteq> NoMode" by force
    note b = b(1-3) free b(4)
    show thesis
    proof (cases "build_modulator ?mode")
      case None
      with assms b show thesis by (simp add: spawn_tx_def Let_def)
    next
      case (Some o')
      show thesis
      proof (cases o')
        case None
        with assms b Some show thesis by (intro kept) (simp add: spawn_tx_def Let_def)
      next
        case md: (Some md)
        from built_modulator [of ?mode md] Some md b(5) have nn: "md \<noteq> NullModulator" by simp
        from assms b Some md nn show thesis
          by (auto simp: spawn_tx_def Let_def split: option.splits prod.splits intro!: spawned [OF b(1-4)])
      qed
    qed
  qed
qed

lemma spawn_tx_live_ok:
  assumes "spawn_tx env sv i lv = Some lv'" "live_ok lv"
  shows "live_ok lv'"
  using assms(1)
proof (cases rule: spawn_tx_cases)
  case kept
  with assms(2) show ?thesis by simp
next
  case (spawned s srate d b w)
  with assms(2) show ?thesis by (auto simp: live_ok_def tx_worker_ok_def rx_worker_ok_def)
qed

lemma respawn_live_ok:
  assumes "live_ok (co_live co)"
  shows "live_ok (co_live (respawn env i co))"
proof -
  have "live_ok (default_cells (ce_hz env) i (co_live co))"
    by (rule live_ok_same [OF default_cells_same assms])
  then show ?thesis using assms
    by (auto simp: respawn_def try_spawn_workers_def split: option.splits
        dest!: spawn_rx_live_ok spawn_tx_live_ok)
qed


section \<open>Handlers keep the bindings consistent\<close>

lemma evict_on_gone_fields [simp]:
  "co_lease (evict_on_gone co i e) = co_lease co" "co_next_tx (evict_on_gone co i e) = co_next_tx co"
  "su_interlock (co_sup (evict_on_gone co i e)) = su_interlock (co_sup co)"
  "co_watcher (evict_on_gone co i e) = co_watcher co"
  by (simp_all add: evict_on_gone_def Let_def split: ptt_error.splits option.splits)

lemma on_rig_fields [simp]:
  "co_live (on_rig f rig co) = co_live co" "co_lease (on_rig f rig co) = co_lease co"
  "co_next_tx (on_rig f rig co) = co_next_tx co"
  by (simp_all add: on_rig_def split: option.splits)

lemma put_driver_fields [simp]:
  "co_sup (put_driver i d co) = co_sup co" "co_lease (put_driver i d co) = co_lease co"
  "co_next_tx (put_driver i d co) = co_next_tx co"
  by (simp_all add: put_driver_def)

lemma evict_on_gone_live_ok: "live_ok (co_live co) \<Longrightarrow> live_ok (co_live (evict_on_gone co i e))"
  by (auto simp: evict_on_gone_def live_ok_def tx_worker_ok_def rx_worker_ok_def Let_def split: ptt_error.splits)

lemma put_driver_live_ok:
  "live_ok (co_live co) \<Longrightarrow> lv_drivers (co_live co) i \<noteq> None \<Longrightarrow> live_ok (co_live (put_driver i d co))"
  by (auto simp: put_driver_def live_ok_def tx_worker_ok_def rx_worker_ok_def)

lemma key_ptt_live_ok:
  assumes "key_ptt env co i keyed = (co', evs, r)" "live_ok (co_live co)"
  shows "live_ok (co_live co')"
  using assms
  by (auto simp: key_ptt_def Let_def evict_on_gone_live_ok put_driver_live_ok
      split: if_splits option.splits prod.splits sum.splits)

lemma worker_ok_put [simp]:
  "tx_worker_ok (lv\<lparr>lv_tx_workers := f\<rparr>) = tx_worker_ok lv"
  "rx_worker_ok (lv\<lparr>lv_tx_workers := f\<rparr>) = rx_worker_ok lv"
  by (simp_all add: fun_eq_iff tx_worker_ok_def rx_worker_ok_def)

lemma live_ok_put_worker:
  assumes "live_ok lv" "tx_worker_ok lv i h"
  shows "live_ok (lv\<lparr>lv_tx_workers := (lv_tx_workers lv)(i \<mapsto> h)\<rparr>)"
  using assms by (cases h) (simp add: live_ok_def)

lemma enqueue_job_live_ok:
  assumes "enqueue_job opn i h job co = (co', r)" "lv_tx_workers (co_live co) i = Some h" "live_ok (co_live co)"
  shows "live_ok (co_live co') \<and> su_interlock (co_sup co') = su_interlock (co_sup co) \<and> co_next_tx co' = co_next_tx co"
proof -
  have h: "tx_worker_ok (co_live co) i h" using assms(2,3) unfolding live_ok_def by blast
  have "tx_worker_ok (co_live co) i (fst h, fst (enqueue opn (snd h) job))"
    using h by (simp add: tx_worker_ok_def enqueue_bounded)
  from live_ok_put_worker [OF assms(3) this] assms show ?thesis
    by (auto simp: enqueue_job_def split: prod.splits sum.splits)
qed

text \<open>The three ways a transmission ends.\<close>

lemma transmit_cases:
  assumes "transmit env co i payload t = Some (co', evs, r)"
  obtains (queued) h job where "lv_tx_workers (co_live co) i = Some h" "evs = []" "job_id job = t"
      "enqueue_job (ce_tx_open env i) i h job co = (co', r)"
    | (cycled) s srate b d s' d' out where "lv_tx_workers (co_live co) i = None"
        "lv_sinks (co_live co) i = Some (s, srate)" "lv_audio (co_live co) i = Some b"
        "lv_drivers (co_live co) i = Some d"
        "\<exists>delay tail. drive_tx_cycle (ce_key env) (ce_unkey env) (pcm16_le payload) (ab_tx_rate b)
            delay tail (ce_cycle env) d s = Some (d', s', out)"
        "evs = [TransmitStarted i t, PttKeyed i True, PttKeyed i False, TransmitComplete i t]"
        "\<exists>co2. same_bindings (co_live (put_driver i d' co)) (co_live co2) \<and> co_lease co2 = co_lease co \<and>
            co_next_tx co2 = co_next_tx co \<and>
            su_interlock (co_sup co2) = end_tx (begin_tx (su_interlock (co_sup co)) (ab_tx_dev b)) (ab_tx_dev b) \<and>
            (co' = co2 \<and> r = Ok t \<or> (\<exists>e. co' = evict_on_gone co2 i e \<and> r = Err (PttFault e)))"
    | (simulated) "lv_tx_workers (co_live co) i = None" "co' = co"
        "evs = [TransmitStarted i t, TransmitComplete i t]" "r = Ok t"
        "lv_sinks (co_live co) i = None \<or> lv_audio (co_live co) i = None \<or> lv_drivers (co_live co) i = None"
proof (cases "lv_tx_workers (co_live co) i")
  case (Some h)
  with assms show thesis by (auto simp: transmit_def Let_def split: prod.splits intro!: queued)
next
  case None
  show thesis
  proof (cases "lv_sinks (co_live co) i = None \<or> lv_audio (co_live co) i = None \<or> lv_drivers (co_live co) i = None")
    case True
    with assms None show thesis
      by (intro simulated) (auto simp: transmit_def Let_def split: option.splits)
  next
    case False
    then obtain s srate b d where b: "lv_sinks (co_live co) i = Some (s, srate)"
      "lv_audio (co_live co) i = Some b" "lv_drivers (co_live co) i = Some d" by force
    obtain delay tail where timing: "channel_ptt_timing (co_sup co) i = (delay, tail)" by fastforce
    let ?rig = "ab_tx_dev b"
    from assms None b timing obtain d' s' out where cyc: "drive_tx_cycle (ce_key env) (ce_unkey env) (pcm16_le payload)
        (ab_tx_rate b) (millis delay) (millis tail) (ce_cycle env) d s = Some (d', s', out)"
      by (auto simp: transmit_def Let_def split: option.splits)
    define co1 where "co1 = on_rig end_tx (Some ?rig) (on_rig begin_tx (Some ?rig) (put_driver i d' co))"
    define co2 where "co2 = co1\<lparr>co_live := (co_live co1)\<lparr>lv_sinks := (lv_sinks (co_live co))(i \<mapsto> (s', srate))\<rparr>\<rparr>"
    have co2: "same_bindings (co_live (put_driver i d' co)) (co_live co2)" "co_lease co2 = co_lease co"
      "co_next_tx co2 = co_next_tx co"
      "su_interlock (co_sup co2) = end_tx (begin_tx (su_interlock (co_sup co)) ?rig) ?rig"
      by (simp_all add: co2_def co1_def same_bindings_def) (simp add: on_rig_def)
    from assms None b timing cyc
    have "evs = [TransmitStarted i t, PttKeyed i True, PttKeyed i False, TransmitComplete i t]"
      "co' = co2 \<and> r = Ok t \<or> (\<exists>e. co' = evict_on_gone co2 i e \<and> r = Err (PttFault e))"
      by (auto simp: transmit_def Let_def co1_def [symmetric] co2_def [symmetric] split: outcome.splits)
    with None b cyc co2 show thesis by (intro cycled) blast+
  qed
qed

lemma transmit_live_ok:
  assumes "transmit env co i payload t = Some (co', evs, r)" "live_ok (co_live co)"
  shows "live_ok (co_live co')"
  using assms(1)
proof (cases rule: transmit_cases)
  case (queued h job)
  with assms(2) enqueue_job_live_ok show ?thesis by blast
next
  case (cycled s srate b d s' d' out)
  from cycled(4) assms(2) have "live_ok (co_live (put_driver i d' co))" by (simp add: put_driver_live_ok)
  with cycled(7) show ?thesis by (metis live_ok_same evict_on_gone_live_ok)
qed (use assms(2) in simp)

section \<open>A failed rebinding\<close>

text \<open>
  When the new transmit device cannot be bound, the capture of the new receive device stays open under
  the old binding. A receiver spawned later reads that capture and carries the old device as its rig.
\<close>

lemma failed_playback_mislabels_receiver:
  assumes "lv_audio lv i = Some b" "reuse_capture env i dev rate (channel_mode (ce_text env) sv i) lv = None"
    and "resolve_device sv dev = Ok desc" "ce_open_capture env desc rate = Ok cap" "resolve_device sv tx_dev = Err e"
    and "lv_rx_workers lv i = None" "demod_kind_of (channel_mode (ce_text env') sv' i) = Some k" "k \<noteq> DkNone"
  shows "\<exists>lv1 lv2 w. bind_devices env sv i dev rate tx_dev tx_req lv = (lv1, Err e) \<and> lv_audio lv1 i = Some b \<and>
    spawn_rx env' sv' i lv1 = Some lv2 \<and> lv_rx_workers lv2 i = Some w \<and> rw_capture w = cap \<and> rw_rig w = ab_rx_dev b"
  using assms by (cases k) (auto simp: bind_devices_def bind_capture_def bind_playback_def spawn_rx_def Let_def)

end
