(* ===== verification/CoreDemo.thy ===== *)
theory CoreDemo
  imports Commands
begin

text \<open>
  A small installation on which the theorems about the core are evaluated: no floating-point
  arithmetic, one sound card, the test double as PTT driver.
\<close>

definition demo_card :: device_id where "demo_card = AlsaCard ''PCH''"

definition demo_sink :: sink where
  "demo_sink = \<lparr>submitted = 0, drained = 0, send_ok = True, sent = []\<rparr>"

definition demo_cycle :: cycle_env where
  "demo_cycle = \<lparr>lead_c0 = False, lead_t0 = 0, lead_obs = [], drain_t0 = 0, drain_obs = [], tail_c0 = False,
     tail_t0 = 0, tail_obs = []\<rparr>"

definition demo_core_env :: "(unit, mock_ptt, string, int, unit) core_env" where
  "demo_core_env = \<lparr>ce_text = literal_text, ce_hz = demo_hz, ce_store = None,
     ce_enumerate = [\<lparr>dd_id = demo_card, dd_label = ''PCH'', dd_has_capture = True, dd_has_playback = True,
       dd_needs_setup = False\<rparr>],
     ce_open_capture = (\<lambda>_ rate. Ok \<lparr>cap_rx = (), cap_rate = rate\<rparr>),
     ce_open_playback = (\<lambda>_ rate. Ok (demo_sink, rate)), ce_open_driver = (\<lambda>_. Ok mock_new),
     ce_key = mock_key, ce_unkey = mock_unkey, ce_rx_running = (\<lambda>_. True), ce_cycle = demo_cycle,
     ce_lossy_text = (\<lambda>bs. map (\<lambda>b. char_of (unat b)) bs), ce_tx_open = (\<lambda>_. True),
     ce_picture = (\<lambda>_ _. Err ''no picture''), ce_native_rate = (\<lambda>_. 12000),
     ce_spectrum = (\<lambda>_ _. (0, 0, 0, ''0.0'', ''0.0'')), ce_scan_panics = False\<rparr>"

definition demo_supervisor :: supervisor where
  "demo_supervisor = \<lparr>su_channels = [], su_devices = cache_new, su_ptt = registry_new,
     su_interlock = interlock_new, su_store = store_new\<rparr>"

definition demo_core :: "(unit, mock_ptt, string, int) core" where
  "demo_core = core_start demo_core_env demo_supervisor []"

text \<open>A channel without a mode: transmission on it is simulated.\<close>

definition demo_channel :: "(string, unit) command" where
  "demo_channel = CmdConfigureChannel 1 ''vfo'' ''none'' False False"

lemma demo_core_fields [simp]:
  "co_live demo_core = live_empty []" "co_lease demo_core = lease_new" "co_next_tx demo_core = 1"
  "co_sup demo_core = demo_supervisor"
  by (simp_all add: demo_core_def core_start_def demo_supervisor_def snapshot_def)

lemma demo_configured:
  obtains sv where "handle_command demo_core_env demo_channel demo_core =
      Some (demo_core\<lparr>co_sup := sv\<rparr>, [ChannelConfigured 1], RepUnit (Ok ()))"
    "has_channel sv 1"
proof -
  let ?sv = "fst (configure_channel None demo_supervisor 1 ''vfo'' ''none'' False False)"
  have "snd (configure_channel None demo_supervisor 1 ''vfo'' ''none'' False False) = Ok ()"
    "has_channel ?sv 1"
    by (simp_all add: configure_channel_def demo_supervisor_def get_channel_def upsert_channel_def store_new_def
        has_channel_def put_config_def new_config_def channel_state_new_def Let_def)
  moreover have "mode_parse literal_text ''none'' \<noteq> None"
    by (simp add: mode_parse_def parse_mode_def)
  ultimately show thesis
    by (intro that [of ?sv]) (simp_all add: demo_channel_def core_configure_channel_def demo_core_env_def
      split_beta)
qed

end
