(* ===== verification/CoreRun.thy ===== *)
theory CoreRun
  imports CoreProps CoreDemo
begin

text \<open>
  Runs of the daemon: commands, hotplug ticks and the transmit workers' jobs in any order, each
  with an environment of its own. The invariants of the components meet here: the bindings of the
  core, the queue of a worker, the interlock and the leases.
\<close>

section \<open>A departed device\<close>

definition bound_to :: "device_id \<Rightarrow> ('c, 'd, 'n, 's) live_bindings \<Rightarrow> channel_id \<Rightarrow> bool" where
  "bound_to d lv i \<longleftrightarrow> (case lv_audio lv i of Some b \<Rightarrow> ab_rx_dev b = d \<or> ab_tx_dev b = d | None \<Rightarrow> False)"

lemma fold_drop_audio:
  "lv_audio (fold drop_audio is lv) = remove_keys is (lv_audio lv) \<and>
   lv_captures (fold drop_audio is lv) = remove_keys is (lv_captures lv) \<and>
   lv_sinks (fold drop_audio is lv) = remove_keys is (lv_sinks lv) \<and>
   lv_rx_workers (fold drop_audio is lv) = remove_keys is (lv_rx_workers lv) \<and>
   lv_tx_workers (fold drop_audio is lv) = remove_keys is (lv_tx_workers lv) \<and>
   lv_spectra (fold drop_audio is lv) = remove_keys is (lv_spectra lv) \<and>
   lv_sdr (fold drop_audio is lv) = remove_keys is (lv_sdr lv) \<and>
   lv_metrics (fold drop_audio is lv) = lv_metrics lv - set is \<and> lv_gains (fold drop_audio is lv) = lv_gains lv \<and>
   lv_drivers (fold drop_audio is lv) = lv_drivers lv \<and> lv_ptt_dev (fold drop_audio is lv) = lv_ptt_dev lv"
  by (induction "is" arbitrary: lv) (auto simp: drop_audio_def remove_keys_def fun_eq_iff)

lemma fold_drop_ptt:
  "lv_audio (fold drop_ptt is lv) = lv_audio lv \<and> lv_captures (fold drop_ptt is lv) = lv_captures lv \<and>
   lv_sinks (fold drop_ptt is lv) = lv_sinks lv \<and> lv_rx_workers (fold drop_ptt is lv) = lv_rx_workers lv \<and>
   lv_tx_workers (fold drop_ptt is lv) = remove_keys is (lv_tx_workers lv) \<and>
   lv_spectra (fold drop_ptt is lv) = lv_spectra lv \<and> lv_sdr (fold drop_ptt is lv) = lv_sdr lv \<and>
   lv_metrics (fold drop_ptt is lv) = lv_metrics lv \<and> lv_gains (fold drop_ptt is lv) = lv_gains lv \<and>
   lv_drivers (fold drop_ptt is lv) = remove_keys is (lv_drivers lv) \<and>
   lv_ptt_dev (fold drop_ptt is lv) = remove_keys is (lv_ptt_dev lv)"
  by (induction "is" arbitrary: lv) (auto simp: drop_ptt_def remove_keys_def fun_eq_iff)

lemma retain_retain: "retain_vals p (retain_vals q m) = retain_vals (\<lambda>h. q h \<and> p h) m"
  by (auto simp: retain_vals_def fun_eq_iff split: option.splits)

lemma fold_release: "fold (\<lambda>i m. release_all m i) is m = retain_vals (\<lambda>h. h \<notin> set is) m"
proof (induction "is" arbitrary: m)
  case Nil
  show ?case by (simp add: retain_vals_def fun_eq_iff split: option.splits)
next
  case (Cons i "is")
  have "fold (\<lambda>i m. release_all m i) (i # is) m = retain_vals (\<lambda>h. h \<notin> set is) (release_all m i)"
    by (simp add: Cons.IH)
  also have "\<dots> = retain_vals (\<lambda>h. h \<notin> set (i # is)) m"
    by (simp add: release_all_def retain_retain)
  finally show ?case .
qed

text \<open>The state after a departure, field by field.\<close>

lemma on_departed_fields:
  fixes co :: "('c, 'd, 'n, 's) core"
  defines "bs \<equiv> \<lambda>chans d. filter (bound_to d (co_live co)) chans"
    and "ks \<equiv> \<lambda>chans d. filter (\<lambda>i. lv_ptt_dev (co_live co) i = Some d) chans"
  shows "lv_audio (co_live (on_departed chans d co)) = remove_keys (bs chans d) (lv_audio (co_live co))"
    "lv_rx_workers (co_live (on_departed chans d co)) = remove_keys (bs chans d) (lv_rx_workers (co_live co))"
    "lv_tx_workers (co_live (on_departed chans d co)) =
       remove_keys (ks chans d) (remove_keys (bs chans d) (lv_tx_workers (co_live co)))"
    "lv_drivers (co_live (on_departed chans d co)) = remove_keys (ks chans d) (lv_drivers (co_live co))"
    "lv_ptt_dev (co_live (on_departed chans d co)) = remove_keys (ks chans d) (lv_ptt_dev (co_live co))"
    "lv_captures (co_live (on_departed chans d co)) = remove_keys (bs chans d) (lv_captures (co_live co))"
    "lv_sinks (co_live (on_departed chans d co)) = remove_keys (bs chans d) (lv_sinks (co_live co))"
    "lv_spectra (co_live (on_departed chans d co)) = remove_keys (bs chans d) (lv_spectra (co_live co))"
    "lv_sdr (co_live (on_departed chans d co)) = remove_keys (bs chans d) (lv_sdr (co_live co))"
    "lv_metrics (co_live (on_departed chans d co)) = lv_metrics (co_live co) - set (bs chans d)"
    "lv_gains (co_live (on_departed chans d co)) = lv_gains (co_live co)"
    "co_lease (on_departed chans d co) = retain_vals (\<lambda>h. h \<notin> set (bs chans d)) (co_lease co)"
    "co_sup (on_departed chans d co) = (co_sup co)\<lparr>su_ptt := evict (su_ptt (co_sup co)) d\<rparr>"
    "co_next_tx (on_departed chans d co) = co_next_tx co"
  by (simp_all add: bs_def ks_def on_departed_def Let_def fold_drop_audio fold_drop_ptt fold_release
      bound_to_def [abs_def])

text \<open>The same for one channel: what it loses and what it keeps.\<close>

definition audio_cleared :: "('c, 'd, 'n, 's) live_bindings \<Rightarrow> channel_id \<Rightarrow> bool" where
  "audio_cleared lv i \<longleftrightarrow> lv_sinks lv i = None \<and> lv_captures lv i = None \<and> lv_rx_workers lv i = None \<and>
     lv_spectra lv i = None \<and> lv_sdr lv i = None \<and> i \<notin> lv_metrics lv"

definition audio_kept :: "('c, 'd, 'n, 's) live_bindings \<Rightarrow> ('c, 'd, 'n, 's) live_bindings \<Rightarrow> channel_id \<Rightarrow> bool" where
  "audio_kept lv lv' i \<longleftrightarrow> lv_audio lv' i = lv_audio lv i \<and> lv_sinks lv' i = lv_sinks lv i \<and>
     lv_captures lv' i = lv_captures lv i \<and> lv_rx_workers lv' i = lv_rx_workers lv i \<and>
     lv_spectra lv' i = lv_spectra lv i \<and> lv_sdr lv' i = lv_sdr lv i \<and> (i \<in> lv_metrics lv' \<longleftrightarrow> i \<in> lv_metrics lv)"

lemma on_departed_entries:
  fixes co :: "('c, 'd, 'n, 's) core"
  assumes "\<And>i. bound_to d (co_live co) i \<Longrightarrow> i \<in> set chans" "\<And>i. lv_ptt_dev (co_live co) i = Some d \<Longrightarrow> i \<in> set chans"
  defines "co' \<equiv> on_departed chans d co"
  shows "bound_to d (co_live co) i \<Longrightarrow> lv_audio (co_live co') i = None"
    "bound_to d (co_live co) i \<Longrightarrow> audio_cleared (co_live co') i"
    "bound_to d (co_live co) i \<or> lv_ptt_dev (co_live co) i = Some d \<Longrightarrow> lv_tx_workers (co_live co') i = None"
    "bound_to d (co_live co) i \<Longrightarrow> holder (co_lease co') rig \<noteq> Some i"
    "\<not> bound_to d (co_live co) i \<Longrightarrow> audio_kept (co_live co) (co_live co') i"
    "\<not> bound_to d (co_live co) i \<Longrightarrow> holder (co_lease co) rig = Some i \<Longrightarrow> holder (co_lease co') rig = Some i"
    "lv_ptt_dev (co_live co) i = Some d \<Longrightarrow> lv_drivers (co_live co') i = None"
    "lv_ptt_dev (co_live co') i \<noteq> Some d"
    "lv_ptt_dev (co_live co) i \<noteq> Some d \<Longrightarrow>
       lv_ptt_dev (co_live co') i = lv_ptt_dev (co_live co) i \<and> lv_drivers (co_live co') i = lv_drivers (co_live co) i"
    "\<not> bound_to d (co_live co) i \<Longrightarrow> lv_ptt_dev (co_live co) i \<noteq> Some d \<Longrightarrow>
       lv_tx_workers (co_live co') i = lv_tx_workers (co_live co) i"
  using assms(1,2) [of i]
  by (auto simp: co'_def on_departed_fields audio_cleared_def audio_kept_def remove_keys_def holder_def retain_vals_def
      split: option.splits if_splits)

lemma on_departed_live_ok: "live_ok (co_live co) \<Longrightarrow> live_ok (co_live (on_departed chans d co))"
  by (auto simp: live_ok_def tx_worker_ok_def rx_worker_ok_def on_departed_fields remove_keys_def
      split: if_splits)

lemma on_hotplug_live_ok: "on_hotplug chans ev co = (co', evs) \<Longrightarrow> live_ok (co_live co) \<Longrightarrow> live_ok (co_live co')"
  by (cases ev) (auto simp: on_departed_live_ok)

lemma on_hotplug_sup:
  "on_hotplug chans ev co = (co', evs) \<Longrightarrow> su_interlock (co_sup co') = su_interlock (co_sup co) \<and>
    co_next_tx co' = co_next_tx co"
  by (cases ev) (auto simp: on_departed_fields)

text \<open>Handling a list of events preserves what each event preserves.\<close>

lemma hotplug_fold_invariant:
  assumes "\<And>co ev co' evs. on_hotplug chans ev co = (co', evs) \<Longrightarrow> P co \<Longrightarrow> P co'" "P co"
  shows "P (fst (foldl (\<lambda>(c, out) ev. let (c', o') = on_hotplug chans ev c in (c', out @ o')) (co, out) evs))"
  using assms(2)
proof (induction evs arbitrary: co out)
  case (Cons ev evs)
  obtain c' o' where h: "on_hotplug chans ev co = (c', o')" by fastforce
  from Cons.IH [OF assms(1) [OF h Cons.prems]] h show ?case by simp
qed simp

lemma poll_hotplug_invariant:
  assumes "\<And>co ev co' evs. on_hotplug chans ev co = (co', evs) \<Longrightarrow> P co \<Longrightarrow> P co'"
    and "poll_hotplug chans env co = (co', evs)" "P (co\<lparr>co_watcher := fst (poll (co_watcher co) (ce_enumerate env))\<rparr>)"
  shows "P co'"
proof -
  from hotplug_fold_invariant [of chans P "co\<lparr>co_watcher := fst (poll (co_watcher co) (ce_enumerate env))\<rparr>" "[]"
      "snd (poll (co_watcher co) (ce_enumerate env))"] assms
  show ?thesis by (simp add: poll_hotplug_def split_beta)
qed

section \<open>Steps and runs\<close>

datatype ('c, 'd, 'n, 's, 'p) core_input =
    OnCommand "('c, 'd, 'n, 's, 'p) core_env" "('n, 'p) command"
  | OnTick "channel_id list" "('c, 'd, 'n, 's, 'p) core_env"
  | OnJob channel_id "('n modulator, frame_payload, 's, 'n) tx_dsp" "'d \<Rightarrow> 'd \<times> ptt_reply"
      "'d \<Rightarrow> 'd \<times> ptt_reply" job_env

text \<open>A worker whose thread ends keeps its handle in the core, but the jobs still queued are lost.\<close>

definition worker_done :: "channel_id \<Rightarrow> ('d, 'n, 's) tx_handle \<Rightarrow> interlock \<Rightarrow> ('c, 'd, 'n, 's) core \<Rightarrow>
    ('c, 'd, 'n, 's) core" where
  "worker_done i h il co = co\<lparr>co_sup := (co_sup co)\<lparr>su_interlock := il\<rparr>,
     co_live := (co_live co)\<lparr>lv_tx_workers := (lv_tx_workers (co_live co))(i \<mapsto> h)\<rparr>\<rparr>"

inductive core_step :: "('c, 'd, 'n, 's, 'p) core_input \<Rightarrow> ('c, 'd, 'n, 's) core \<Rightarrow> 'n telemetry list \<Rightarrow>
    ('c, 'd, 'n, 's) core \<Rightarrow> bool" where
  command: "handle_command env cmd co = Some (co', evs, rep) \<Longrightarrow> core_step (OnCommand env cmd) co evs co'"
| tick: "poll_hotplug chans env co = (co', evs) \<Longrightarrow> core_step (OnTick chans env) co evs co'"
| job: "lv_tx_workers (co_live co) i = Some (w, job # queue) \<Longrightarrow>
    run_job dsp key unkey jenv job w (su_interlock (co_sup co)) = Some (w', il, evs, cont) \<Longrightarrow>
    core_step (OnJob i dsp key unkey jenv) co evs (worker_done i (w', if cont then queue else []) il co)"

inductive core_run :: "('c, 'd, 'n, 's) core \<Rightarrow> ('c, 'd, 'n, 's, 'p) core_input list \<Rightarrow>
    'n telemetry list \<Rightarrow> ('c, 'd, 'n, 's) core \<Rightarrow> bool" for co0 where
  start: "core_run co0 [] [] co0"
| step: "core_run co0 ins evs co \<Longrightarrow> core_step x co evs' co' \<Longrightarrow> core_run co0 (ins @ [x]) (evs @ evs') co'"

section \<open>Every handler preserves the bindings\<close>

lemma with_sdr_live:
  "with_sdr f rep co = Some (co', evs, r) \<Longrightarrow> same_bindings (co_live co) (co_live co') \<and> same_outside co co'"
  by (auto simp: with_sdr_def same_bindings_def same_outside_def split: prod.splits)

lemma configure_channel_sup: "configure_channel st sv i name mode a b = (sv', r) \<Longrightarrow> su_interlock sv' = su_interlock sv"
  by (auto simp: configure_channel_def Let_def split: prod.splits sum.splits)

text \<open>Handlers that touch neither bindings nor interlock nor ids.\<close>

lemma quiet_handlers:
  "core_configure_channel env co i name mode a b = (co', evs, r) \<Longrightarrow>
     co_live co' = co_live co \<and> co_next_tx co' = co_next_tx co \<and> su_interlock (co_sup co') = su_interlock (co_sup co)"
  "list_devices env co = (co', ds) \<Longrightarrow>
     co_live co' = co_live co \<and> co_next_tx co' = co_next_tx co \<and> su_interlock (co_sup co') = su_interlock (co_sup co)"
  "acquire_tx_lease co i = (co', r1) \<Longrightarrow>
     co_live co' = co_live co \<and> co_next_tx co' = co_next_tx co \<and> su_interlock (co_sup co') = su_interlock (co_sup co)"
  "release_tx_lease co i = (co', r2) \<Longrightarrow>
     co_live co' = co_live co \<and> co_next_tx co' = co_next_tx co \<and> su_interlock (co_sup co') = su_interlock (co_sup co)"
  by (auto simp: core_configure_channel_def list_devices_def acquire_tx_lease_def release_tx_lease_def Let_def
      dest: configure_channel_sup split: if_splits prod.splits sum.splits option.splits lease_error.splits)

lemma cell_handlers:
  "set_audio_gain env co i rx tx = (co', r) \<Longrightarrow> same_bindings (co_live co) (co_live co') \<and> same_outside co co'"
  "configure_spectrum env co i en cfg = (co', r') \<Longrightarrow> same_bindings (co_live co) (co_live co') \<and> same_outside co co'"
  by (auto simp: set_audio_gain_def configure_spectrum_def put_spectrum_def same_bindings_def same_outside_def Let_def
      split: if_splits prod.splits option.splits)

lemma transmit_image_live_ok:
  assumes "transmit_image env co i pic t = (co', r)" "live_ok (co_live co)"
  shows "live_ok (co_live co') \<and> su_interlock (co_sup co') = su_interlock (co_sup co) \<and> co_next_tx co' = co_next_tx co"
  using assms by (auto simp: transmit_image_def dest!: enqueue_job_live_ok split: option.splits sum.splits prod.splits)

lemma respawn_outside [simp]: "same_outside co (respawn env i co)"
  by (simp add: respawn_def same_outside_def split: option.splits)

lemma handle_command_live_ok:
  assumes "handle_command env cmd co = Some (co', evs, rep)" "live_ok (co_live co)"
  shows "live_ok (co_live co')"
  using assms
  by (cases cmd)
    (auto simp: handle_configure_audio_def handle_configure_ptt_def take_tx_id_def Let_def
      split: prod.splits if_splits sum.splits
      dest: quiet_handlers cell_handlers [THEN conjunct1] with_sdr_live [THEN conjunct1] live_ok_same key_ptt_live_ok
        transmit_live_ok transmit_image_live_ok configure_audio_live_ok configure_ptt_live_ok
      intro: respawn_live_ok)


lemma run_job_live_ok:
  assumes "lv_tx_workers (co_live co) i = Some (w, job # queue)"
    and "run_job dsp key unkey jenv job w il = Some (w', il', evs, cont)" "live_ok (co_live co)"
  shows "live_ok (co_live (worker_done i (w', if cont then queue else []) il' co))"
proof -
  have "tx_worker_ok (co_live co) i (w, job # queue)" using assms(1,3) unfolding live_ok_def by blast
  with run_job_static [OF assms(2)] have "tx_worker_ok (co_live co) i (w', if cont then queue else [])"
    by (auto simp: tx_worker_ok_def)
  from live_ok_put_worker [OF assms(3) this] show ?thesis by (simp add: worker_done_def)
qed

lemma core_step_live_ok: "core_step x co evs co' \<Longrightarrow> live_ok (co_live co) \<Longrightarrow> live_ok (co_live co')"
proof (induction rule: core_step.induct)
  case (tick chans env co co' evs)
  show ?case
    by (rule poll_hotplug_invariant [where P = "\<lambda>c. live_ok (co_live c)", OF on_hotplug_live_ok tick.hyps])
      (use tick.prems in simp_all)
qed (blast intro: handle_command_live_ok run_job_live_ok)+

lemma restore_channel_live_ok: "live_ok (co_live co) \<Longrightarrow> live_ok (co_live (restore_channel env cfg co))"
  by (auto simp: restore_channel_def split: prod.splits sum.splits option.splits
      dest: configure_audio_live_ok intro!: respawn_live_ok configure_ptt_live_ok [OF surjective_pairing])

lemma core_start_live_ok: "live_ok (co_live (core_start env sv reg))"
proof -
  have "live_ok (co_live (foldl (\<lambda>co cfg. restore_channel env cfg co) co cfgs))"
    if "live_ok (co_live co)" for co :: "('a, 'b, 'c, 'd) core" and cfgs
    using that by (induction cfgs arbitrary: co) (simp_all add: restore_channel_live_ok)
  then show ?thesis by (simp add: core_start_def live_ok_empty)
qed

lemma core_run_live_ok: "core_run co0 ins evs co \<Longrightarrow> live_ok (co_live co0) \<Longrightarrow> live_ok (co_live co)"
  by (induction rule: core_run.induct) (auto intro: core_step_live_ok)

text \<open>A run: configure a channel without a mode, transmit on it.\<close>

definition demo_inputs :: "(unit, mock_ptt, string, int, unit) core_input list" where
  "demo_inputs = [OnCommand demo_core_env demo_channel, OnCommand demo_core_env (CmdTransmit 1 [0, 1])]"

definition demo_events :: "string telemetry list" where
  "demo_events = [ChannelConfigured 1, TransmitStarted 1 1, TransmitComplete 1 1]"

lemma demo_core_run: "\<exists>co. core_run demo_core demo_inputs demo_events co"
proof -
  obtain sv where conf: "handle_command demo_core_env demo_channel demo_core =
      Some (demo_core\<lparr>co_sup := sv\<rparr>, [ChannelConfigured 1], RepUnit (Ok ()))" "has_channel sv 1"
    by (rule demo_configured)
  from conf(2) have "handle_command demo_core_env (CmdTransmit 1 [0, 1]) (demo_core\<lparr>co_sup := sv\<rparr>) =
      Some (demo_core\<lparr>co_sup := sv, co_next_tx := 2\<rparr>, [TransmitStarted 1 1, TransmitComplete 1 1], RepTransmit (Ok 1))"
    by (simp add: take_tx_id_def transmit_def live_empty_def)
  note second = core_step.command [OF this]
  from core_run.step [OF core_run.start core_step.command [OF conf(1)]]
  have "core_run demo_core [OnCommand demo_core_env demo_channel] [ChannelConfigured 1] (demo_core\<lparr>co_sup := sv\<rparr>)"
    by simp
  from core_run.step [OF this second] show ?thesis unfolding demo_inputs_def demo_events_def by auto
qed

text \<open>
  C1: In every state the daemon can reach from a start with any stored channels, by any commands,
  hotplug ticks and jobs, whatever fails on the way: a transmit worker is filed under its own channel,
  queues at most 32 jobs, and carries as its rig and rate (what it mutes, asks the lease for and plays
  at) those of the channel's current audio binding; a receiver has a mode and carries as its rig the
  capture device of that binding; and a channel that has a PTT driver, kept by the core or handed to
  its transmit worker, has a device recorded whose departure drops it. (The rig is a label: the capture
  behind a receiver can be another device's, lemma \<open>failed_playback_mislabels_receiver\<close>.)\<close>

theorem bindings_stay_consistent:
  assumes "core_run (core_start env sv reg) ins evs co"
  shows "(\<forall>i h. lv_tx_workers (co_live co) i = Some h \<longrightarrow> w_channel (fst h) = i \<and> length (snd h) \<le> 32 \<and>
      lv_ptt_dev (co_live co) i \<noteq> None \<and>
      (\<exists>b. lv_audio (co_live co) i = Some b \<and> ab_tx_dev b = w_rig (fst h) \<and> ab_tx_rate b = w_rate (fst h))) \<and>
    (\<forall>i w. lv_rx_workers (co_live co) i = Some w \<longrightarrow> rw_mode w \<noteq> NoMode \<and>
      (\<exists>b. lv_audio (co_live co) i = Some b \<and> ab_rx_dev b = rw_rig w)) \<and>
    (\<forall>i. lv_drivers (co_live co) i \<noteq> None \<longrightarrow> lv_ptt_dev (co_live co) i \<noteq> None)"
proof -
  from core_run_live_ok [OF assms core_start_live_ok] have "live_ok (co_live co)" .
  then show ?thesis
    unfolding live_ok_def tx_worker_ok_def rx_worker_ok_def tx_queue_depth_def by blast
qed

text \<open>A start with one stored channel on the sound card: AFSK, with a driver.\<close>

definition station_config :: channel_config where
  "station_config = \<lparr>cc_id = 1, cc_name = ''vfo'', cc_mode = ''afsk1200'', cc_device_id = demo_card,
     cc_sample_rate = 48000, cc_fanout = 1, cc_tx_device_id = demo_card, cc_tx_sample_rate = 0,
     cc_ptt = Some \<lparr>ptt_device_id = demo_card, ptt_method = MNone, ptt_invert = False,
       ptt_tx_delay_ms = 0, ptt_tx_tail_ms = 0\<rparr>, cc_rsid_tx = False, cc_rsid_rx = False\<rparr>"

definition station :: "(unit, mock_ptt, string, int) core" where
  "station = core_start demo_core_env (demo_supervisor\<lparr>su_channels := [(1, channel_state_new station_config)]\<rparr>) []"

lemma station_mode: "mode_parse literal_text ''afsk1200'' = Some (Afsk1200 True)"
  by (simp add: mode_parse_def parse_mode_def)

lemmas station_unfold = 
  station_def core_start_def restore_channel_def snapshot_def core_configure_audio_def has_channel_def
  get_channel_def configure_audio_def rebind_def demo_core_env_def Let_def channel_state_new_def
  station_config_def demo_supervisor_def upsert_channel_def put_config_def bind_devices_def channel_mode_def
  station_mode reuse_capture_def live_empty_def bind_capture_def resolve_device_def cache_resolve_def
  cache_refresh_def demo_card_def is_sdr_def placeholder_def bind_playback_def finish_bind_def
  core_configure_ptt_def configure_ptt_def build_driver_def respawn_def try_spawn_workers_def spawn_rx_def
  spawn_tx_def default_cells_def channel_ptt_timing_def channel_rsid_def demod_kind_of_def build_modulator_def
  tx_slotted_def

lemma station_workers:
  "lv_tx_workers (co_live station) 1 \<noteq> None" "lv_rx_workers (co_live station) 1 \<noteq> None"
  by (auto simp: station_unfold split: option.splits prod.splits)

theorem bindings_stay_consistent_witness:
  "\<exists>h w. lv_tx_workers (co_live station) 1 = Some h \<and> lv_rx_workers (co_live station) 1 = Some w \<and>
     w_channel (fst h) = 1 \<and> lv_ptt_dev (co_live station) 1 \<noteq> None \<and>
     map_option ab_rx_dev (lv_audio (co_live station) 1) = Some (rw_rig w) \<and>
     map_option ab_tx_dev (lv_audio (co_live station) 1) = Some (w_rig (fst h))"
proof -
  have "core_run station [] [] station" by (rule core_run.start)
  from bindings_stay_consistent [OF this [unfolded station_def], folded station_def] station_workers
  show ?thesis by force
qed


text \<open>Channel 1 on the sound card, with a worker and a lease; channel 2 on another card.\<close>

definition demo_bound :: "(unit, mock_ptt, string, int) core" where
  "demo_bound = demo_core\<lparr>co_lease := [demo_card \<mapsto> 1],
     co_live := (live_empty [])\<lparr>lv_audio := (\<lambda>i. if i = 1 \<or> i = 2 then Some
       \<lparr>ab_rx_dev = if i = 1 then demo_card else placeholder, ab_tx_dev = if i = 1 then demo_card else placeholder,
        ab_tx_rate = 48000, ab_rx_req_rate = 48000, ab_rx_rate = 48000, ab_rx_mode = NoMode\<rparr> else None)\<rparr>\<rparr>"


end
