(* ===== verification/CoreKeying.thy ===== *)
theory CoreKeying
  imports CoreRun
begin

text \<open>
  Keying and leases over runs of the daemon: what a transmission does to the interlock, how the
  core uses the lease registry, and the commands that get keying, leases and bindings out of step.
\<close>

section \<open>The interlock over a run\<close>

fun manual_key :: "('c, 'd, 'n, 's, 'p) core_input \<Rightarrow> bool" where
  "manual_key (OnCommand env (CmdKeyPtt i keyed)) = True"
| "manual_key _ = False"

definition quiet_depths :: "interlock \<Rightarrow> bool" where
  "quiet_depths il \<longleftrightarrow> (\<forall>rig. key_depth il rig < 4294967295)"

lemma bracket_depth: "quiet_depths il \<Longrightarrow> key_depth (end_tx (begin_tx il rig) rig) = key_depth il"
  by (simp add: quiet_depths_def lock.bracket)

lemmas quiet_handler_depth = quiet_handlers [THEN conjunct2, THEN conjunct2]

lemma same_outside_lock: "same_outside co co' \<Longrightarrow> su_interlock (co_sup co') = su_interlock (co_sup co)"
  by (simp add: same_outside_def)

lemma transmit_depth:
  assumes "transmit env co i payload t = Some (co', evs, r)" "quiet_depths (su_interlock (co_sup co))"
  shows "key_depth (su_interlock (co_sup co')) = key_depth (su_interlock (co_sup co))"
  using assms(1)
proof (cases rule: transmit_cases)
  case (queued h job)
  then show ?thesis by (auto simp: enqueue_job_def split: prod.splits sum.splits)
next
  case (cycled s srate b d s' d' out)
  from cycled(7)
  have "su_interlock (co_sup co') = end_tx (begin_tx (su_interlock (co_sup co)) (ab_tx_dev b)) (ab_tx_dev b)"
    by auto
  with assms(2) show ?thesis by (simp add: bracket_depth)
qed simp

lemma transmit_image_lock:
  "transmit_image env co i pic t = (co', r) \<Longrightarrow> su_interlock (co_sup co') = su_interlock (co_sup co)"
  by (auto simp: transmit_image_def enqueue_job_def split: option.splits sum.splits prod.splits)

lemma same_outside_trans: "same_outside a b \<Longrightarrow> same_outside b c \<Longrightarrow> same_outside a c"
  by (simp add: same_outside_def)

lemma handle_configure_outside:
  "handle_configure_audio env co i dev rate fanout tx_dev tx_rate = (co', r) \<Longrightarrow> same_outside co co'"
  "handle_configure_ptt env co i ptt = (co', r') \<Longrightarrow> same_outside co co'"
  by (auto simp: handle_configure_audio_def handle_configure_ptt_def split: prod.splits sum.splits
      dest: configure_audio_outside configure_ptt_live intro: same_outside_trans)

lemma command_depth:
  assumes "handle_command env cmd co = Some (co', evs, rep)" "\<not> manual_key (OnCommand env cmd)"
    and "quiet_depths (su_interlock (co_sup co))"
  shows "key_depth (su_interlock (co_sup co')) = key_depth (su_interlock (co_sup co))"
  using assms
  by (cases cmd)
    (auto simp: take_tx_id_def Let_def split: prod.splits if_splits
      dest: quiet_handler_depth cell_handlers [THEN conjunct2, THEN same_outside_lock]
        with_sdr_live [THEN conjunct2, THEN same_outside_lock] handle_configure_outside [THEN same_outside_lock]
        transmit_image_lock transmit_depth)

lemma step_depth:
  assumes "core_step x co evs co'" "\<not> manual_key x" "quiet_depths (su_interlock (co_sup co))"
  shows "key_depth (su_interlock (co_sup co')) = key_depth (su_interlock (co_sup co))"
  using assms
proof (induction rule: core_step.induct)
  case (command env cmd co co' evs rep)
  then show ?case by (blast intro: command_depth)
next
  case (tick chans env co co' evs)
  have "su_interlock (co_sup co') = su_interlock (co_sup co)"
    by (rule poll_hotplug_invariant [where P = "\<lambda>c. su_interlock (co_sup c) = su_interlock (co_sup co)", OF _ tick.hyps])
      (auto dest: on_hotplug_sup)
  then show ?case by simp
next
  case (job co i w job queue dsp key unkey jenv w' il evs cont)
  from run_job_interlock [OF job.hyps(2)] job.prems(2) show ?case
    by (simp add: worker_done_def quiet_depths_def)
qed

lemma core_start_lock: "su_interlock (co_sup (core_start env sv reg)) = su_interlock sv"
proof -
  have restore: "same_outside co (restore_channel env cfg co)" for co :: "('a, 'b, 'c, 'd) core" and cfg
    by (auto simp: restore_channel_def split: prod.splits sum.splits option.splits
        dest!: configure_audio_outside intro!: same_outside_trans [OF _ respawn_outside]
          same_outside_trans [OF _ configure_ptt_live [OF surjective_pairing, THEN conjunct2]])
  have "same_outside co (foldl (\<lambda>co cfg. restore_channel env cfg co) co cfgs)"
    for co :: "('a, 'b, 'c, 'd) core" and cfgs
  proof (induction cfgs arbitrary: co)
    case (Cons cfg cfgs)
    from same_outside_trans [OF restore Cons.IH] show ?case by simp
  qed simp
  from same_outside_lock [OF this] show ?thesis by (simp add: core_start_def)
qed

section \<open>The lease registry over a run\<close>

text \<open>The operations of the registry a step may cause.\<close>

fun lease_cause :: "('c, 'd, 'n, 's, 'p) core_input \<Rightarrow> 'n telemetry list \<Rightarrow> lease_op \<Rightarrow> bool" where
  "lease_cause x evs (AcquireOp rig c) = (\<exists>env. x = OnCommand env (CmdAcquireTxLease c))"
| "lease_cause x evs (ReleaseOp rig c) = (\<exists>env. x = OnCommand env (CmdReleaseTxLease c))"
| "lease_cause x evs (ReleaseAllOp c) = (\<exists>d. DeviceDeparted d \<in> set evs)"

fun hotplug_note :: "hotplug_event \<Rightarrow> 'n telemetry" where
  "hotplug_note (Arrived desc) = DeviceArrived (dd_id desc) (dd_label desc)"
| "hotplug_note (Departed d) = DeviceDeparted d"

lemma hotplug_foldl:
  "foldl (\<lambda>(c, out) ev. let (c', o') = on_hotplug chans ev c in (c', out @ o')) (co, out) evs =
     (foldl (\<lambda>c ev. fst (on_hotplug chans ev c)) co evs, out @ map hotplug_note evs)"
proof (induction evs arbitrary: co out)
  case (Cons ev evs)
  then show ?case by (cases ev) simp_all
qed simp

lemma lease_run_append: "lease_run m (ops @ ops') = lease_run (lease_run m ops) ops'"
  by (simp add: lease_run_def)

lemma fold_release_all: "fold (\<lambda>i m. release_all m i) is m = lease_run m (map ReleaseAllOp is)"
  by (induction "is" arbitrary: m) (simp_all add: lease_run_def)

lemma hotplug_lease:
  "\<exists>ops. co_lease (foldl (\<lambda>c ev. fst (on_hotplug chans ev c)) co evs) = lease_run (co_lease co) ops \<and>
     (\<forall>op\<in>set ops. (\<exists>c. op = ReleaseAllOp c) \<and> (\<exists>d. Departed d \<in> set evs))"
proof (induction evs arbitrary: co)
  case Nil
  show ?case by (intro exI [of _ "[]"]) (simp add: lease_run_def)
next
  case (Cons ev evs)
  from Cons.IH [of "fst (on_hotplug chans ev co)"] obtain ops
    where ops: "co_lease (foldl (\<lambda>c ev. fst (on_hotplug chans ev c)) (fst (on_hotplug chans ev co)) evs) =
        lease_run (co_lease (fst (on_hotplug chans ev co))) ops"
      "\<forall>op\<in>set ops. (\<exists>c. op = ReleaseAllOp c) \<and> (\<exists>d. Departed d \<in> set evs)" by blast
  show ?case
  proof (cases ev)
    case (Arrived desc)
    with ops show ?thesis by auto
  next
    case (Departed d)
    let ?cs = "filter (bound_to d (co_live co)) chans"
    have "co_lease (on_departed chans d co) = lease_run (co_lease co) (map ReleaseAllOp ?cs)"
      by (simp add: on_departed_def Let_def fold_release_all bound_to_def [abs_def])
    with ops Departed show ?thesis
      by (intro exI [of _ "map ReleaseAllOp ?cs @ ops"]) (auto simp: lease_run_append)
  qed
qed

lemma lease_kept:
  "transmit env co i payload t = Some (co', evs, r) \<Longrightarrow> co_lease co' = co_lease co"
  "transmit_image env co i pic t = (co', r') \<Longrightarrow> co_lease co' = co_lease co"
  "key_ptt env co i keyed = (co', evs, r1) \<Longrightarrow> co_lease co' = co_lease co"
  "core_configure_channel env co i name mode a b = (co', evs, r1) \<Longrightarrow> co_lease co' = co_lease co"
  "list_devices env co = (co', ds) \<Longrightarrow> co_lease co' = co_lease co"
proof -
  assume "transmit env co i payload t = Some (co', evs, r)"
  then show "co_lease co' = co_lease co"
    by (cases rule: transmit_cases) (auto simp: enqueue_job_def split: prod.splits sum.splits)
qed (auto simp: transmit_image_def enqueue_job_def key_ptt_def core_configure_channel_def list_devices_def Let_def
    split: option.splits sum.splits prod.splits if_splits)

lemma lease_commands:
  "acquire_tx_lease co i = (co', r) \<Longrightarrow>
     co_lease co' = lease_run (co_lease co) (case lv_audio (co_live co) i of None \<Rightarrow> [] | Some b \<Rightarrow> [AcquireOp (ab_tx_dev b) i])"
  "release_tx_lease co i = (co', r') \<Longrightarrow>
     co_lease co' = lease_run (co_lease co) (case lv_audio (co_live co) i of None \<Rightarrow> [] | Some b \<Rightarrow> [ReleaseOp (ab_tx_dev b) i])"
  by (auto simp: acquire_tx_lease_def release_tx_lease_def lease_run_def
      split: option.splits prod.splits sum.splits lease_error.splits)

lemma command_lease_kept:
  assumes "handle_command env cmd co = Some (co', evs, rep)"
    and "\<nexists>i. cmd = CmdAcquireTxLease i \<or> cmd = CmdReleaseTxLease i"
  shows "co_lease co' = co_lease co"
proof -
  have outside: "same_outside co co' \<Longrightarrow> co_lease co' = co_lease co" by (simp add: same_outside_def)
  show ?thesis using assms
    by (cases cmd) (auto simp: take_tx_id_def Let_def split: prod.splits if_splits
      dest: lease_kept handle_configure_outside [THEN outside] cell_handlers [THEN conjunct2, THEN outside]
        with_sdr_live [THEN conjunct2, THEN outside])
qed

lemma command_lease:
  assumes "handle_command env cmd co = Some (co', evs, rep)"
  shows "\<exists>ops. co_lease co' = lease_run (co_lease co) ops \<and> (\<forall>op\<in>set ops. lease_cause (OnCommand env cmd) evs op)"
proof -
  consider (acquire) i where "cmd = CmdAcquireTxLease i" | (release) i where "cmd = CmdReleaseTxLease i"
    | (other) "\<nexists>i. cmd = CmdAcquireTxLease i \<or> cmd = CmdReleaseTxLease i" by blast
  then show ?thesis
  proof cases
    case (acquire i)
    with assms obtain r where "acquire_tx_lease co i = (co', r)" by (auto simp: Let_def split: prod.splits)
    from lease_commands(1) [OF this] acquire show ?thesis
      by (intro exI [of _ "case lv_audio (co_live co) i of None \<Rightarrow> [] | Some b \<Rightarrow> [AcquireOp (ab_tx_dev b) i]"])
        (auto split: option.splits)
  next
    case (release i)
    with assms obtain r where "release_tx_lease co i = (co', r)" by (auto simp: Let_def split: prod.splits)
    from lease_commands(2) [OF this] release show ?thesis
      by (intro exI [of _ "case lv_audio (co_live co) i of None \<Rightarrow> [] | Some b \<Rightarrow> [ReleaseOp (ab_tx_dev b) i]"])
        (auto split: option.splits)
  next
    case other
    from command_lease_kept [OF assms other] show ?thesis
      by (intro exI [of _ "[]"]) (simp add: lease_run_def)
  qed
qed

lemma step_lease:
  "core_step x co evs co' \<Longrightarrow> \<exists>ops. co_lease co' = lease_run (co_lease co) ops \<and> (\<forall>op\<in>set ops. lease_cause x evs op)"
proof (induction rule: core_step.induct)
  case (command env cmd co co' evs rep)
  then show ?case by (rule command_lease)
next
  case (tick chans env co co' evs)
  let ?w = "fst (poll (co_watcher co) (ce_enumerate env))" and ?evs = "snd (poll (co_watcher co) (ce_enumerate env))"
  from tick have "evs = map hotplug_note ?evs"
    "co' = foldl (\<lambda>c ev. fst (on_hotplug chans ev c)) (co\<lparr>co_watcher := ?w\<rparr>) ?evs"
    by (auto simp: poll_hotplug_def hotplug_foldl [unfolded Let_def] split: prod.splits)
  with hotplug_lease [of chans "co\<lparr>co_watcher := ?w\<rparr>" ?evs] show ?case
    by (force simp: image_iff)
next
  case (job co i w job queue dsp key unkey jenv w' il evs cont)
  show ?case by (intro exI [of _ "[]"]) (simp add: worker_done_def lease_run_def)
qed

section \<open>Properties\<close>

text \<open>
  C2: Without manual keying, the daemon never leaves a rig muted: in every state between two
  steps, whatever commands, hotplug ticks and jobs came before and however their transmissions
  ended (a failed key, a failed sound card, a failed release, a lost lease), reception is open on
  every rig.\<close>

theorem rx_never_left_muted:
  assumes "core_run (core_start env sv reg) ins evs co" "su_interlock sv = interlock_new"
    and "\<forall>x\<in>set ins. \<not> manual_key x"
  shows "\<not> is_muted (su_interlock (co_sup co)) rig"
proof -
  have "key_depth (su_interlock (co_sup co)) = (\<lambda>_. 0)"
    using assms(1,3)
  proof (induction rule: core_run.induct)
    case start
    show ?case by (simp add: core_start_lock assms(2) fun_eq_iff)
  next
    case (step ins evs co x evs' co')
    then have "key_depth (su_interlock (co_sup co)) = (\<lambda>_. 0)" by simp
    with step_depth [OF step.hyps(2)] step.prems show ?case by (simp add: quiet_depths_def)
  qed
  then show ?thesis by (simp add: is_muted_iff)
qed

theorem rx_never_left_muted_witness:
  "\<exists>co. core_run demo_core demo_inputs demo_events co \<and> \<not> is_muted (su_interlock (co_sup co)) demo_card"
proof -
  from demo_core_run obtain co where run: "core_run demo_core demo_inputs demo_events co" by blast
  have "\<forall>x\<in>set demo_inputs. \<not> manual_key x" by (simp add: demo_inputs_def demo_channel_def)
  from rx_never_left_muted [OF run [unfolded demo_core_def] _ this] run show ?thesis
    by (auto simp: demo_supervisor_def)
qed

text \<open>
  C3: The core refines the lease registry: over any run, the leases are those of a sequence of
  registry operations, in which an acquisition or a release by a channel comes from that
  channel's own command, and a release on behalf of a channel from the departure of a device.\<close>

theorem core_refines_lease_registry:
  assumes "core_run co0 ins evs co"
  shows "\<exists>ops. co_lease co = lease_run (co_lease co0) ops \<and>
    (\<forall>op\<in>set ops. \<exists>x\<in>set ins. lease_cause x evs op)"
  using assms
proof (induction rule: core_run.induct)
  case start
  show ?case by (intro exI [of _ "[]"]) (simp add: lease_run_def)
next
  case (step ins evs co x evs' co')
  from step.IH obtain ops where ops: "co_lease co = lease_run (co_lease co0) ops"
    "\<forall>op\<in>set ops. \<exists>x\<in>set ins. lease_cause x evs op" by blast
  from step_lease [OF step.hyps(2)] obtain ops' where ops': "co_lease co' = lease_run (co_lease co) ops'"
    "\<forall>op\<in>set ops'. lease_cause x evs' op" by blast
  have mono: "lease_cause y evs1 op \<Longrightarrow> set evs1 \<subseteq> set evs2 \<Longrightarrow> lease_cause y evs2 op"
    for y :: "('a, 'b, 'c, 'd, 'e) core_input" and evs1 evs2 op
    by (cases op) auto
  show ?case
  proof (intro exI conjI)
    show "co_lease co' = lease_run (co_lease co0) (ops @ ops')" using ops ops' by (simp add: lease_run_append)
    show "\<forall>op\<in>set (ops @ ops'). \<exists>y\<in>set (ins @ [x]). lease_cause y (evs @ evs') op"
      using ops(2) ops'(2) mono [of _ evs _ "evs @ evs'"] mono [of _ evs' _ "evs @ evs'"] by fastforce
  qed
qed

theorem core_refines_lease_registry_witness:
  "\<exists>co ops. core_run demo_core demo_inputs demo_events co \<and> co_lease co = lease_run lease_new ops"
proof -
  from demo_core_run obtain co where run: "core_run demo_core demo_inputs demo_events co" by blast
  from core_refines_lease_registry [OF run] run show ?thesis by auto
qed

section \<open>What a transmit command promises\<close>

lemma enqueue_job_result:
  assumes "enqueue_job opn i (w, q) job co = (co', r)" "length q \<le> tx_queue_depth"
  shows "(r = Ok (job_id job) \<longleftrightarrow> opn \<and> length q < tx_queue_depth) \<and> (r = Ok (job_id job) \<or> (\<exists>e. r = Err (PttFault e))) \<and>
    (r = Ok (job_id job) \<longrightarrow> lv_tx_workers (co_live co') i = Some (w, q @ [job])) \<and>
    (r \<noteq> Ok (job_id job) \<longrightarrow> co' = co) \<and> co_next_tx co' = co_next_tx co \<and> co_lease co' = co_lease co \<and>
    su_interlock (co_sup co') = su_interlock (co_sup co)"
  using assms
  by (auto simp: enqueue_job_def enqueue_def split: prod.splits sum.splits if_splits)

text \<open>
  C4: A transmit command for an unknown channel changes nothing. Otherwise it takes the next id and
  leaves the leases and the interlock as they were. With a worker, the job joins the end of its
  queue under that id exactly when the worker runs and fewer than 32 jobs wait, and is refused
  with the queue unchanged otherwise. Without one, exactly this id is announced as started and as
  complete, with matching key reports; if nothing was keyed, the command still reports success and
  has changed nothing.\<close>

theorem transmit_accounted:
  assumes "handle_command env (CmdTransmit i payload) co = Some (co', evs, rep)"
    and "quiet_depths (su_interlock (co_sup co))" "live_ok (co_live co)"
  shows "if has_channel (co_sup co) i then
      \<exists>r. rep = RepTransmit r \<and> (r = Ok (co_next_tx co) \<or> (\<exists>e. r = Err (PttFault e))) \<and>
        co_next_tx co' = co_next_tx co + 1 \<and> co_lease co' = co_lease co \<and>
        key_depth (su_interlock (co_sup co')) = key_depth (su_interlock (co_sup co)) \<and>
        (case lv_tx_workers (co_live co) i of
           Some (w, q) \<Rightarrow> evs = [] \<and>
             (if ce_tx_open env i \<and> length q < 32
              then r = Ok (co_next_tx co) \<and>
                (\<exists>job. lv_tx_workers (co_live co') i = Some (w, q @ [job]) \<and> job_id job = co_next_tx co)
              else r \<noteq> Ok (co_next_tx co) \<and> co_live co' = co_live co)
         | None \<Rightarrow> started_ids evs = [co_next_tx co] \<and> completed_ids evs = [co_next_tx co] \<and>
             well_keyed (keyed_events evs) \<and>
             (keyed_events evs = [] \<longrightarrow> r = Ok (co_next_tx co) \<and> co_live co' = co_live co))
    else co' = co \<and> evs = [] \<and> rep = RepTransmit (Err (UnknownChannel i))"
proof (cases "has_channel (co_sup co) i")
  case False
  with assms(1) show ?thesis by simp
next
  case True
  let ?co = "co\<lparr>co_next_tx := co_next_tx co + 1\<rparr>"
  from assms(1) True obtain r where tx: "transmit env ?co i payload (co_next_tx co) = Some (co', evs, r)"
    and rep: "rep = RepTransmit r"
    by (auto simp: take_tx_id_def)
  from transmit_depth [OF tx] assms(2)
  have depth: "key_depth (su_interlock (co_sup co')) = key_depth (su_interlock (co_sup co))" by simp
  from tx show ?thesis
  proof (cases rule: transmit_cases)
    case (queued h job)
    obtain w q where h: "h = (w, q)" by fastforce
    with queued(1) have h': "lv_tx_workers (co_live co) i = Some (w, q)" by simp
    with assms(3) have "tx_worker_ok (co_live co) i (w, q)" unfolding live_ok_def by blast
    then have "length q \<le> tx_queue_depth" by (simp add: tx_worker_ok_def)
    from enqueue_job_result [OF queued(4) [unfolded h] this] queued(2,3) h' True rep depth show ?thesis
      by (auto simp: tx_queue_depth_def)
  next
    case (cycled s srate b d s' d' out)
    from cycled(7) have "co_next_tx co' = co_next_tx co + 1 \<and> co_lease co' = co_lease co \<and>
      (r = Ok (co_next_tx co) \<or> (\<exists>e. r = Err (PttFault e)))" by auto
    with cycled(1,6) True rep depth show ?thesis by simp
  next
    case simulated
    with True rep depth show ?thesis by simp
  qed
qed

text \<open>Channel 1 with a running PSK31 worker and nothing queued.\<close>

definition demo_psk_worker :: "(mock_ptt, string modulator, string) tx_worker" where
  "demo_psk_worker = \<lparr>w_channel = 1, w_rig = demo_card, w_rate = 48000, w_mod = ModulatorFor (Psk ''psk31'' ''1000''),
     w_sink = demo_sink, w_driver = mock_new, w_rsid = None, w_slotted = False, w_tx_delay = 0, w_tx_tail = 0\<rparr>"

definition demo_working :: "supervisor \<Rightarrow> (unit, mock_ptt, string, int) core" where
  "demo_working sv = demo_bound\<lparr>co_sup := sv, co_live := (co_live demo_bound)
     \<lparr>lv_tx_workers := [1 \<mapsto> (demo_psk_worker, [])], lv_ptt_dev := [1 \<mapsto> demo_card]\<rparr>\<rparr>"

theorem transmit_accounted_witness:
  "\<exists>sv co' job. handle_command demo_core_env (CmdTransmit 1 [0x43, 0x51]) (demo_working sv) =
       Some (co', [], RepTransmit (Ok 1)) \<and>
     lv_tx_workers (co_live co') 1 = Some (demo_psk_worker, [job]) \<and> job_id job = 1"
proof -
  obtain sv where sv: "handle_command demo_core_env demo_channel demo_core =
      Some (demo_core\<lparr>co_sup := sv\<rparr>, [ChannelConfigured 1], RepUnit (Ok ()))" "has_channel sv 1"
    by (rule demo_configured)
  let ?sv = "sv\<lparr>su_interlock := interlock_new\<rparr>"
  let ?co = "demo_working ?sv"
  from sv(2) have has: "has_channel (co_sup ?co) 1"
    by (simp add: demo_working_def has_channel_def get_channel_def)
  then have "handle_command demo_core_env (CmdTransmit 1 [0x43, 0x51]) ?co \<noteq> None"
    by (simp add: take_tx_id_def transmit_def demo_working_def Let_def split_beta)
  then obtain co' evs rep where h: "handle_command demo_core_env (CmdTransmit 1 [0x43, 0x51]) ?co = Some (co', evs, rep)"
    by (metis prod_cases3 option.exhaust)
  have depths: "quiet_depths (su_interlock (co_sup ?co))" by (simp add: demo_working_def quiet_depths_def)
  have live: "live_ok (co_live ?co)"
    by (simp add: demo_working_def demo_bound_def live_ok_def tx_worker_ok_def demo_psk_worker_def live_empty_def)
  from transmit_accounted [OF h depths live] has h show ?thesis
    by (auto simp: demo_working_def demo_core_env_def demo_bound_def)
qed

section \<open>Rebinding\<close>

lemma default_cells_maps:
  "lv_audio (default_cells H i lv) = lv_audio lv" "lv_drivers (default_cells H i lv) = lv_drivers lv"
  "lv_tx_workers (default_cells H i lv) = lv_tx_workers lv"
  by (simp_all add: default_cells_def)

lemma spawn_rx_maps:
  "spawn_rx env sv i lv = Some lv' \<Longrightarrow> lv_audio lv' = lv_audio lv \<and> lv_drivers lv' = lv_drivers lv \<and>
     lv_tx_workers lv' = lv_tx_workers lv"
  by (auto simp: spawn_rx_def Let_def split: if_splits option.splits demod_kind.splits)

lemma respawn_audio: "lv_audio (co_live (respawn env i co)) = lv_audio (co_live co)"
  by (auto simp: respawn_def try_spawn_workers_def default_cells_maps split: option.splits
      dest!: spawn_rx_maps elim!: spawn_tx_cases)

text \<open>Without a driver at hand, no transmit worker is spawned.\<close>

lemma respawn_no_driver:
  assumes "lv_drivers (co_live co) i = None"
  shows "lv_drivers (co_live (respawn env i co)) = lv_drivers (co_live co) \<and>
    lv_tx_workers (co_live (respawn env i co)) = lv_tx_workers (co_live co)"
  using assms
  by (auto simp: respawn_def try_spawn_workers_def default_cells_maps split: option.splits
      dest!: spawn_rx_maps elim!: spawn_tx_cases)

text \<open>A running worker keeps its driver when the channel's PTT is configured anew.\<close>

lemma configure_ptt_keeps_worker:
  assumes "handle_configure_ptt env co i ptt = (co', r)" "lv_tx_workers (co_live co) i = Some h"
  shows "lv_tx_workers (co_live co') i = Some h"
  using assms
  by (auto simp: handle_configure_ptt_def respawn_def try_spawn_workers_def default_cells_maps
      split: prod.splits sum.splits option.splits dest!: configure_ptt_live spawn_rx_maps elim!: spawn_tx_cases)

lemma rebound:
  assumes "handle_configure_audio env co i dev rate fanout tx_dev tx_rate = (co', Ok rates)"
  obtains b where "lv_audio (co_live co') i = Some b" "ab_tx_dev b = tx_dev" "ab_rx_dev b = dev"
    "lv_drivers (co_live co) i = None \<Longrightarrow> lv_drivers (co_live co') i = None \<and> lv_tx_workers (co_live co') i = None"
proof -
  from assms obtain co1 where co1: "core_configure_audio env co i dev rate fanout tx_dev tx_rate = (co1, Ok rates)"
    "co' = respawn env i co1"
    by (auto simp: handle_configure_audio_def split: prod.splits sum.splits)
  from co1(1) show thesis
  proof (cases rule: configure_audio_cases)
    case (bound lv2 reused b rates)
    then have "lv_audio (co_live co1) i = Some b" "lv_drivers (co_live co1) = lv_drivers (co_live co)"
      "lv_tx_workers (co_live co1) i = None"
      by (simp_all add: finish_bind_def same_bindings_def)
    with bound(4,5) co1(2) respawn_no_driver [of co1 i env] show thesis
      by (intro that [of b]) (simp_all add: respawn_audio)
  qed simp
qed

text \<open>
  Binding the audio of a channel again drops its transmit worker, and with it the PTT driver
  the worker owned; nothing puts a driver back. Until PTT is configured again the channel has no
  worker, and a transmit command on it succeeds and is announced as started and complete although
  nothing is keyed or played.\<close>

theorem rebind_disables_transmit:
  assumes "handle_configure_audio env co i dev rate fanout tx_dev tx_rate = (co', Ok rates)"
    and "lv_drivers (co_live co) i = None"
  shows "lv_tx_workers (co_live co') i = None \<and>
    transmit env' co' i payload t = Some (co', [TransmitStarted i t, TransmitComplete i t], Ok t)"
proof -
  from rebound [OF assms(1)] assms(2)
  have gone: "lv_drivers (co_live co') i = None" "lv_tx_workers (co_live co') i = None" by blast+
  then show ?thesis by (auto simp: transmit_def Let_def split: option.splits)
qed

text \<open>
  A lease outlives the binding it was taken for. After the holder's playback device changes,
  its release command succeeds without releasing anything: the old rig stays leased to a channel
  that no longer transmits on it, and every other channel bound to that rig is refused.\<close>

theorem rebind_strands_lease:
  assumes "handle_configure_audio env co i dev rate fanout tx_dev tx_rate = (co1, Ok rates)"
    and "holder (co_lease co) rig = Some i" "tx_dev \<noteq> rig"
    and "release_tx_lease co1 i = (co2, r)"
    and "j \<noteq> i" "lv_audio (co_live co) j = Some bj" "ab_tx_dev bj = rig"
  shows "r = Ok () \<and> holder (co_lease co2) rig = Some i \<and>
    (lv_audio (co_live co2) j = Some bj \<longrightarrow> acquire_tx_lease co2 j = (co2, Ok (False, Some i)))"
proof -
  from rebound [OF assms(1)] obtain b where b: "lv_audio (co_live co1) i = Some b" "ab_tx_dev b = tx_dev" by blast
  from handle_configure_outside(1) [OF assms(1)] have lease: "co_lease co1 = co_lease co"
    by (simp add: same_outside_def)
  from assms(4) b have r: "r = Ok ()" and co2: "co2 = co1\<lparr>co_lease := release (co_lease co) tx_dev i\<rparr>"
    by (auto simp: release_tx_lease_def lease)
  from assms(2,3) co2 have held: "holder (co_lease co2) rig = Some i"
    by (auto simp: holder_def release_def)
  then have "acquire (co_lease co2) rig j = (co_lease co2, Err (HeldBy i))"
    using assms(5) by (simp add: acquire_def holder_def)
  with r held assms(7) show ?thesis by (simp add: acquire_tx_lease_def)
qed

lemma tx_rig_driver [simp]: "tx_rig (lv\<lparr>lv_drivers := f\<rparr>) i = tx_rig lv i"
  by (cases "lv_audio lv i") (simp_all add: tx_rig_def)

text \<open>
  Manual keying counts commands, not the state of the line. Keying a channel twice and
  unkeying it once, all accepted, ends with the transmitter released and reported as unkeyed, but
  with reception on its rig muted; it stays muted until a second, redundant unkey.\<close>

theorem manual_keying_miscounts:
  assumes "lv_tx_workers (co_live co) i = None" "lv_drivers (co_live co) i = Some d"
    and "tx_rig (co_live co) i = Some rig" "key_depth (su_interlock (co_sup co)) rig = 0"
    and "\<forall>d. snd (ce_key env d) = Ok () \<and> snd (ce_unkey env d) = Ok ()"
    and "key_ptt env co i True = (co1, evs1, r1)" "key_ptt env co1 i True = (co2, evs2, r2)"
    and "key_ptt env co2 i False = (co3, evs3, r3)" "key_ptt env co3 i False = (co4, evs4, r4)"
  shows "r1 = Ok () \<and> r2 = Ok () \<and> r3 = Ok () \<and> evs1 @ evs2 @ evs3 = [PttKeyed i True, PttKeyed i True, PttKeyed i False] \<and>
    is_muted (su_interlock (co_sup co3)) rig \<and> \<not> is_muted (su_interlock (co_sup co4)) rig"
proof -
  have key: "key_ptt env c i True = (put_driver i (fst (ce_key env e)) c
      \<lparr>co_sup := (co_sup c)\<lparr>su_interlock := begin_tx (su_interlock (co_sup c)) rig\<rparr>\<rparr>, [PttKeyed i True], Ok ())"
    and unkey: "key_ptt env c i False = (put_driver i (fst (ce_unkey env e)) c
      \<lparr>co_sup := (co_sup c)\<lparr>su_interlock := end_tx (su_interlock (co_sup c)) rig\<rparr>\<rparr>, [PttKeyed i False], Ok ())"
    if "lv_tx_workers (co_live c) i = None" "lv_drivers (co_live c) i = Some e" "tx_rig (co_live c) i = Some rig" for c e
    using that assms(5) [THEN spec, of e] by (auto simp: key_ptt_def Let_def on_rig_def put_driver_def split: prod.splits sum.splits)
  note put = put_driver_def
  have d1: "key_depth (begin_tx il rig) = (key_depth il)(rig := Suc (key_depth il rig))"
    if "key_depth il rig < 4294967295" for il using lock.depth_up that by simp
  from key [OF assms(1-3)] assms(6) have 1: "r1 = Ok ()" "evs1 = [PttKeyed i True]"
    "co1 = put_driver i (fst (ce_key env d)) co\<lparr>co_sup := (co_sup co)\<lparr>su_interlock := begin_tx (su_interlock (co_sup co)) rig\<rparr>\<rparr>"
    by simp_all
  have l1: "lv_tx_workers (co_live co1) i = None" "lv_drivers (co_live co1) i = Some (fst (ce_key env d))"
    "tx_rig (co_live co1) i = Some rig" using assms(1,3) by (simp_all add: 1 put)
  from key [OF l1] assms(7) have 2: "r2 = Ok ()" "evs2 = [PttKeyed i True]"
    "co2 = put_driver i (fst (ce_key env (fst (ce_key env d)))) co1
       \<lparr>co_sup := (co_sup co1)\<lparr>su_interlock := begin_tx (su_interlock (co_sup co1)) rig\<rparr>\<rparr>" by simp_all
  have l2: "lv_tx_workers (co_live co2) i = None"
    "lv_drivers (co_live co2) i = Some (fst (ce_key env (fst (ce_key env d))))"
    "tx_rig (co_live co2) i = Some rig" using l1 by (simp_all add: 2 put)
  from unkey [OF l2] assms(8) have 3: "r3 = Ok ()" "evs3 = [PttKeyed i False]"
    "co3 = put_driver i (fst (ce_unkey env (fst (ce_key env (fst (ce_key env d)))))) co2
       \<lparr>co_sup := (co_sup co2)\<lparr>su_interlock := end_tx (su_interlock (co_sup co2)) rig\<rparr>\<rparr>" by simp_all
  have l3: "lv_tx_workers (co_live co3) i = None"
    "lv_drivers (co_live co3) i = Some (fst (ce_unkey env (fst (ce_key env (fst (ce_key env d))))))"
    "tx_rig (co_live co3) i = Some rig" using l2 by (simp_all add: 3 put)
  from unkey [OF l3] assms(9) have 4: "su_interlock (co_sup co4) = end_tx (su_interlock (co_sup co3)) rig"
    by (simp add: put)
  have "key_depth (su_interlock (co_sup co3)) rig = 1" "key_depth (su_interlock (co_sup co4)) rig = 0"
    using assms(4) by (simp_all add: 1 2 3 4 d1 lock.depth_down put)
  with 1 2 3 show ?thesis by (simp add: is_muted_iff)
qed

end
