(* ===== verification/Frames.thy ===== *)
theory Frames
  imports Afsk1200
begin

text \<open>
  What every mode shares: decoded frames with their metadata (\<open>types.rs\<close>), the capability descriptor
  and the errors of a modulator (\<open>mode.rs\<close>).
\<close>

record 'n frame_meta =
  fm_snr :: "'n option"
  fm_freq_offset :: "'n option"
  fm_time_offset :: "'n option"
  fm_decoder :: "string option"
  fm_sample_offset :: u64
  fm_crc_ok :: bool
  fm_confidence :: "'n option"

record 'n frame =
  fr_payload :: frame_payload
  fr_meta :: "'n frame_meta"

definition frame_meta_default :: "'n frame_meta" where
  "frame_meta_default = \<lparr>fm_snr = None, fm_freq_offset = None, fm_time_offset = None, fm_decoder = None,
     fm_sample_offset = 0, fm_crc_ok = False, fm_confidence = None\<rparr>"

definition frame_packet :: "u8 list \<Rightarrow> 'n frame" where
  "frame_packet bytes = \<lparr>fr_payload = Packet bytes, fr_meta = frame_meta_default\<rparr>"

definition frame_text :: "string \<Rightarrow> 'n frame" where
  "frame_text s = \<lparr>fr_payload = Text s, fr_meta = frame_meta_default\<rparr>"

section \<open>Modes\<close>

datatype duplex = Half | Full

datatype 'n demod_shape = Streaming | Windowed 'n 'n

record 'n mode_caps =
  mc_native_rate :: u32
  mc_bandwidth :: 'n
  mc_tx :: bool
  mc_duplex :: duplex
  mc_shape :: "'n demod_shape"

datatype mod_error = UnsupportedPayload string | TooLong string | EncodeFailed string

end
