(* ===== verification/RxWorker.thy ===== *)
theory RxWorker
  imports Core Frames
begin

text \<open>
  The receive worker of a channel (\<open>core/rx_worker.rs\<close>) and the accumulator it writes
  (\<open>metrics/mod.rs\<close>). The signal processing of the DSP crate (resampler, demodulator, RSID
  detector, spectrum tap, aircraft tracker) is floating-point code and enters as the fields of a
  record of state transformers; the loop that drives them is here. A run is the list of the
  iterations of its loop, each with what the worker reads in it.
\<close>

section \<open>Metrics\<close>

record 'n channel_metrics =
  cm_good :: u64
  cm_bad :: u64
  cm_tx :: u64
  cm_snr :: 'n
  cm_dbfs :: 'n
  cm_afc :: 'n
  cm_dcd :: bool
  cm_ptt_keyed :: bool
  cm_overruns :: u64
  cm_underruns :: u64
  cm_clips :: u64
  cm_decoder :: "string option"

definition metrics_new :: "'n \<Rightarrow> 'n channel_metrics" where
  "metrics_new z = \<lparr>cm_good = 0, cm_bad = 0, cm_tx = 0, cm_snr = z, cm_dbfs = z, cm_afc = z, cm_dcd = False,
     cm_ptt_keyed = False, cm_overruns = 0, cm_underruns = 0, cm_clips = 0, cm_decoder = None\<rparr>"

definition record_frame :: "bool \<Rightarrow> string option \<Rightarrow> 'n channel_metrics \<Rightarrow> 'n channel_metrics" where
  "record_frame crc_ok decoder m =
     (let m1 = (if crc_ok then m\<lparr>cm_good := cm_good m + 1\<rparr> else m\<lparr>cm_bad := cm_bad m + 1\<rparr>)
      in case decoder of None \<Rightarrow> m1 | Some d \<Rightarrow> m1\<lparr>cm_decoder := Some d\<rparr>)"

definition record_decode :: "'n frame \<Rightarrow> 'n channel_metrics \<Rightarrow> 'n channel_metrics" where
  "record_decode f m =
     (let m1 = record_frame (fm_crc_ok (fr_meta f)) (fm_decoder (fr_meta f)) m;
          m2 = (case fm_snr (fr_meta f) of None \<Rightarrow> m1 | Some s \<Rightarrow> m1\<lparr>cm_snr := s\<rparr>)
      in case fm_freq_offset (fr_meta f) of None \<Rightarrow> m2 | Some off \<Rightarrow> m2\<lparr>cm_afc := off\<rparr>)"

text \<open>The metrics and frame events; \<open>debug_assert\<close> does not fire in a release build.\<close>

definition emit_metrics :: "channel_id \<Rightarrow> 'n channel_metrics \<Rightarrow> 'n telemetry" where
  "emit_metrics ch m = ChannelMetricsEvent ch (cm_good m) (cm_bad m) (cm_snr m) (cm_dbfs m) (cm_afc m) (cm_dcd m) (cm_decoder m)"

fun frame_bytes :: "frame_payload \<Rightarrow> u8 list" where
  "frame_bytes (Packet b) = b"
| "frame_bytes (Vocoder b) = b"
| "frame_bytes (Text t) = map (\<lambda>c. of_nat (of_char c)) t"
| "frame_bytes (Message77 m) = m"
| "frame_bytes (Image _ _ _) = []"

definition emit_frame :: "channel_id \<Rightarrow> frame_payload \<Rightarrow> frame_event" where
  "emit_frame ch p = (case p of
       Image width channels pixels \<Rightarrow>
         RxFrame ch [] (Some \<lparr>img_width = width, img_channels = channels, img_pixels = pixels\<rparr>) 0
     | other \<Rightarrow> RxFrame ch (frame_bytes other) None 0)"

record 'n rsid_detection =
  rsd_tag :: string
  rsd_mode :: "string option"
  rsd_freq_hz :: 'n
  rsd_extended :: bool

definition emit_rsid :: "channel_id \<Rightarrow> 'n rsid_detection \<Rightarrow> 'n telemetry" where
  "emit_rsid ch det = RsidDetected ch (rsd_tag det) (case rsd_mode det of None \<Rightarrow> [] | Some m \<Rightarrow> m)
     (rsd_freq_hz det) (rsd_extended det)"

section \<open>What the worker drives and reads\<close>

text \<open>\<open>'s\<close> samples, \<open>'r\<close> resampler, \<open>'m\<close> demodulator, \<open>'d\<close> RSID detector, \<open>'t\<close> spectrum tap, \<open>'a\<close> aircraft reporter.\<close>

record ('s, 'r, 'm, 'd, 't, 'a, 'n) rx_dsp =
  rd_to_f32 :: "int \<Rightarrow> 's"
  rd_resample :: "'r \<Rightarrow> 's list \<Rightarrow> 'r \<times> 's list"
  rd_scale :: "'n \<Rightarrow> 's \<Rightarrow> 's"
  rd_one :: 'n
  rd_zero :: 's
  rd_feed :: "'m \<Rightarrow> 's list \<Rightarrow> 'm \<times> 'n frame list"
  rd_flush :: "'m \<Rightarrow> 'm \<times> 'n frame list"
  rd_window :: "'m \<Rightarrow> 's list \<Rightarrow> 'm \<times> 'n frame list"
  rd_rsid :: "'d \<Rightarrow> 's list \<Rightarrow> 'd \<times> 'n rsid_detection list"
  rd_tap_build :: "'n spectrum_cfg \<Rightarrow> 't"
  rd_tap :: "'t \<Rightarrow> 's list \<Rightarrow> 't \<times> 'n telemetry list"
  rd_report :: "'a \<Rightarrow> u8 list \<Rightarrow> u64 \<Rightarrow> 'a \<times> 'n telemetry option"
  rd_prune :: "'a \<Rightarrow> u64 \<Rightarrow> 'a"

text \<open>
  One iteration: the run flag, the elapsed time if contacts are aged out, and what the queue
  yields: a chunk with the interlock, the gain and the spectrum control at that moment (and the
  clock at each packet), nothing, or the end of the capture.
\<close>

record 'n chunk_obs =
  ob_samples :: "int list"
  ob_muted :: bool
  ob_gain :: 'n
  ob_spectrum :: "'n spectrum_control"
  ob_clock :: "nat \<Rightarrow> u64"

datatype 'n rx_recv = GotChunk "'n chunk_obs" | NoChunk | CaptureEnded

record 'n rx_tick =
  tk_running :: bool
  tk_prune :: "u64 option"
  tk_recv :: "'n rx_recv"

record ('s, 'r, 'm, 'd, 't, 'a, 'n) rx_state =
  rx_resampler :: "'r option"
  rx_demod :: 'm
  rx_rsid :: "'d option"
  rx_tap :: "'t option"
  rx_tap_gen :: u64
  rx_reporter :: "'a option"
  rx_metrics :: "'n channel_metrics"
  rx_buf :: "'s list"
  rx_muted_window :: bool

type_synonym 'n rx_output = "frame_event list \<times> 'n telemetry list"

section \<open>Processing a chunk\<close>

text \<open>Resampling and gain: the samples the demodulator sees.\<close>

definition rx_samples :: "('s, 'r, 'm, 'd, 't, 'a, 'n) rx_dsp \<Rightarrow> 'r option \<Rightarrow> 'n chunk_obs \<Rightarrow> 'r option \<times> 's list" where
  "rx_samples dsp rs ob =
     (let raw = map (rd_to_f32 dsp) (ob_samples ob);
          (rs', xs) = (case rs of None \<Rightarrow> (None, raw) | Some r \<Rightarrow> (case rd_resample dsp r raw of (r', ys) \<Rightarrow> (Some r', ys)))
      in (rs', if ob_gain ob \<noteq> rd_one dsp then map (rd_scale dsp (ob_gain ob)) xs else xs))"

definition sync_tap :: "('n spectrum_cfg \<Rightarrow> 't) \<Rightarrow> 'n spectrum_control \<Rightarrow> 't option \<Rightarrow> u64 \<Rightarrow> 't option \<times> u64" where
  "sync_tap build control tap seen =
     (if fst control = seen then (tap, seen) else (map_option build (snd control), fst control))"

text \<open>Spectrum tap and RSID detector, which see the samples of a chunk that is not muted.\<close>

definition side_taps :: "('s, 'r, 'm, 'd, 't, 'a, 'n) rx_dsp \<Rightarrow> channel_id \<Rightarrow> bool \<Rightarrow> 's list \<Rightarrow> 'n spectrum_control \<Rightarrow>
    ('s, 'r, 'm, 'd, 't, 'a, 'n) rx_state \<Rightarrow> ('s, 'r, 'm, 'd, 't, 'a, 'n) rx_state \<times> 'n telemetry list" where
  "side_taps dsp ch muted xs control st =
     (let (tap, gen) = sync_tap (rd_tap_build dsp) control (rx_tap st) (rx_tap_gen st);
          (tap', spec) = (case tap of Some t \<Rightarrow>
              if muted then (Some t, []) else (case rd_tap dsp t xs of (t', es) \<Rightarrow> (Some t', es)) | None \<Rightarrow> (None, []));
          (det, ids) = (case rx_rsid st of Some d \<Rightarrow>
              if muted then (Some d, []) else (case rd_rsid dsp d xs of (d', ds) \<Rightarrow> (Some d', ds)) | None \<Rightarrow> (None, []))
      in (st\<lparr>rx_tap := tap', rx_tap_gen := gen, rx_rsid := det\<rparr>, spec @ map (emit_rsid ch) ids))"

text \<open>One decoded frame of the streaming worker: count it, emit it, report the aircraft.\<close>

definition stream_frame :: "('s, 'r, 'm, 'd, 't, 'a, 'n) rx_dsp \<Rightarrow> channel_id \<Rightarrow> u64 \<Rightarrow> 'n frame \<Rightarrow>
    ('s, 'r, 'm, 'd, 't, 'a, 'n) rx_state \<Rightarrow> ('s, 'r, 'm, 'd, 't, 'a, 'n) rx_state \<times> 'n rx_output" where
  "stream_frame dsp ch now f st =
     (let st1 = st\<lparr>rx_metrics := record_decode f (rx_metrics st)\<rparr>; out = [emit_frame ch (fr_payload f)]
      in case (rx_reporter st, fr_payload f) of
           (Some rep, Packet bytes) \<Rightarrow>
             (case rd_report dsp rep bytes now of (rep', ev) \<Rightarrow>
                (st1\<lparr>rx_reporter := Some rep'\<rparr>, out, case ev of None \<Rightarrow> [] | Some e \<Rightarrow> [e]))
         | _ \<Rightarrow> (st1, out, []))"

fun stream_frames :: "('s, 'r, 'm, 'd, 't, 'a, 'n) rx_dsp \<Rightarrow> channel_id \<Rightarrow> (nat \<Rightarrow> u64) \<Rightarrow> nat \<Rightarrow> 'n frame list \<Rightarrow>
    ('s, 'r, 'm, 'd, 't, 'a, 'n) rx_state \<Rightarrow> ('s, 'r, 'm, 'd, 't, 'a, 'n) rx_state \<times> 'n rx_output" where
  "stream_frames dsp ch clock k [] st = (st, [], [])"
| "stream_frames dsp ch clock k (f # fs) st =
     (let (st1, fe, te) = stream_frame dsp ch (clock k) f st; (st2, fe', te') = stream_frames dsp ch clock (Suc k) fs st1
      in (st2, fe @ fe', te @ te'))"

definition stream_chunk :: "('s, 'r, 'm, 'd, 't, 'a, 'n) rx_dsp \<Rightarrow> channel_id \<Rightarrow> 'n chunk_obs \<Rightarrow>
    ('s, 'r, 'm, 'd, 't, 'a, 'n) rx_state \<Rightarrow> ('s, 'r, 'm, 'd, 't, 'a, 'n) rx_state \<times> 'n rx_output" where
  "stream_chunk dsp ch ob st =
     (if ob_muted ob then (st, [], [])
      else
        (let (rs, xs) = rx_samples dsp (rx_resampler st) ob;
             (st1, side) = side_taps dsp ch False xs (ob_spectrum ob) (st\<lparr>rx_resampler := rs\<rparr>);
             (dm, fs) = rd_feed dsp (rx_demod st1) xs;
             (st2, fe, te) = stream_frames dsp ch (ob_clock ob) 0 fs (st1\<lparr>rx_demod := dm\<rparr>)
         in (st2, fe, side @ te @ (if fs = [] then [] else [emit_metrics ch (rx_metrics st2)]))))"

text \<open>Frames of a window, and of the final flush: counted and emitted, not reported.\<close>

fun plain_frames :: "channel_id \<Rightarrow> 'n frame list \<Rightarrow> 'n channel_metrics \<Rightarrow> 'n channel_metrics \<times> frame_event list" where
  "plain_frames ch [] m = (m, [])"
| "plain_frames ch (f # fs) m = (case plain_frames ch fs (record_decode f m) of (m', es) \<Rightarrow> (m', emit_frame ch (fr_payload f) # es))"

definition emit_plain :: "channel_id \<Rightarrow> 'm \<times> 'n frame list \<Rightarrow> ('s, 'r, 'm, 'd, 't, 'a, 'n) rx_state \<Rightarrow>
    ('s, 'r, 'm, 'd, 't, 'a, 'n) rx_state \<times> 'n rx_output" where
  "emit_plain ch decoded st =
     (case decoded of (dm, fs) \<Rightarrow> (case plain_frames ch fs (rx_metrics st) of (m, es) \<Rightarrow>
        (st\<lparr>rx_demod := dm, rx_metrics := m\<rparr>, es, if fs = [] then [] else [emit_metrics ch m])))"

section \<open>The streaming worker\<close>

definition prune_tick :: "('s, 'r, 'm, 'd, 't, 'a, 'n) rx_dsp \<Rightarrow> 'n rx_tick \<Rightarrow> ('s, 'r, 'm, 'd, 't, 'a, 'n) rx_state \<Rightarrow>
    ('s, 'r, 'm, 'd, 't, 'a, 'n) rx_state" where
  "prune_tick dsp tk st = (case (rx_reporter st, tk_prune tk) of
       (Some rep, Some now) \<Rightarrow> st\<lparr>rx_reporter := Some (rd_prune dsp rep now)\<rparr> | _ \<Rightarrow> st)"

text \<open>The last component: the loop has ended, and the rest of the decode was flushed.\<close>

fun rx_streaming :: "('s, 'r, 'm, 'd, 't, 'a, 'n) rx_dsp \<Rightarrow> channel_id \<Rightarrow> 'n rx_tick list \<Rightarrow>
    ('s, 'r, 'm, 'd, 't, 'a, 'n) rx_state \<Rightarrow> ('s, 'r, 'm, 'd, 't, 'a, 'n) rx_state \<times> frame_event list \<times> 'n telemetry list \<times> bool" where
  "rx_streaming dsp ch [] st = (st, [], [], False)"
| "rx_streaming dsp ch (tk # tks) st =
     (let finish = (\<lambda>s. case emit_plain ch (rd_flush dsp (rx_demod s)) s of (s', fe, te) \<Rightarrow> (s', fe, te, True))
      in if \<not> tk_running tk then finish st
         else let st0 = prune_tick dsp tk st in case tk_recv tk of
             CaptureEnded \<Rightarrow> finish st0
           | NoChunk \<Rightarrow> rx_streaming dsp ch tks st0
           | GotChunk ob \<Rightarrow>
               (let (st1, fe, te) = stream_chunk dsp ch ob st0; (st2, fe', te', e) = rx_streaming dsp ch tks st1
                in (st2, fe @ fe', te @ te', e)))"

section \<open>The windowed worker\<close>

text \<open>\<open>None\<close>: a window of no samples never ends the inner loop.\<close>

function drain_windows :: "('s, 'r, 'm, 'd, 't, 'a, 'n) rx_dsp \<Rightarrow> channel_id \<Rightarrow> nat \<Rightarrow> ('s, 'r, 'm, 'd, 't, 'a, 'n) rx_state \<Rightarrow>
    (('s, 'r, 'm, 'd, 't, 'a, 'n) rx_state \<times> 'n rx_output) option" where
  "drain_windows dsp ch W st =
     (if W = 0 then None
      else if length (rx_buf st) < W then Some (st, [], [])
      else
        (let st0 = st\<lparr>rx_buf := drop W (rx_buf st), rx_muted_window := False\<rparr>;
             (st1, fe, te) = (if rx_muted_window st then (st0, [], [])
               else emit_plain ch (rd_window dsp (rx_demod st) (take W (rx_buf st))) st0)
         in map_option (\<lambda>(st2, fe', te'). (st2, fe @ fe', te @ te')) (drain_windows dsp ch W st1)))"
  by pat_completeness auto
termination
  by (relation "measure (\<lambda>(dsp, ch, W, st). length (rx_buf st))")
    (auto simp: emit_plain_def split: if_splits prod.splits)

declare drain_windows.simps [simp del]

definition window_chunk :: "('s, 'r, 'm, 'd, 't, 'a, 'n) rx_dsp \<Rightarrow> channel_id \<Rightarrow> nat \<Rightarrow> 'n chunk_obs \<Rightarrow>
    ('s, 'r, 'm, 'd, 't, 'a, 'n) rx_state \<Rightarrow> (('s, 'r, 'm, 'd, 't, 'a, 'n) rx_state \<times> 'n rx_output) option" where
  "window_chunk dsp ch W ob st =
     (let (rs, xs) = rx_samples dsp (rx_resampler st) ob;
          (st1, side) = side_taps dsp ch (ob_muted ob) xs (ob_spectrum ob)
            (st\<lparr>rx_resampler := rs, rx_muted_window := rx_muted_window st \<or> ob_muted ob\<rparr>)
      in map_option (\<lambda>(st2, fe, te). (st2, fe, side @ te))
           (drain_windows dsp ch W (st1\<lparr>rx_buf := rx_buf st1 @ xs\<rparr>)))"

text \<open>A trailing part of a window is padded and decoded when the capture ends by itself.\<close>

definition finish_window :: "('s, 'r, 'm, 'd, 't, 'a, 'n) rx_dsp \<Rightarrow> channel_id \<Rightarrow> nat \<Rightarrow>
    ('s, 'r, 'm, 'd, 't, 'a, 'n) rx_state \<Rightarrow> ('s, 'r, 'm, 'd, 't, 'a, 'n) rx_state \<times> 'n rx_output" where
  "finish_window dsp ch W st =
     (if rx_buf st \<noteq> [] \<and> \<not> rx_muted_window st
      then let buf = take W (rx_buf st @ replicate (W - length (rx_buf st)) (rd_zero dsp))
        in emit_plain ch (rd_window dsp (rx_demod st) buf) (st\<lparr>rx_buf := buf\<rparr>)
      else (st, [], []))"

fun rx_windowed :: "('s, 'r, 'm, 'd, 't, 'a, 'n) rx_dsp \<Rightarrow> channel_id \<Rightarrow> nat \<Rightarrow> 'n rx_tick list \<Rightarrow>
    ('s, 'r, 'm, 'd, 't, 'a, 'n) rx_state \<Rightarrow>
    (('s, 'r, 'm, 'd, 't, 'a, 'n) rx_state \<times> frame_event list \<times> 'n telemetry list \<times> bool) option" where
  "rx_windowed dsp ch W [] st = Some (st, [], [], False)"
| "rx_windowed dsp ch W (tk # tks) st =
     (if \<not> tk_running tk then Some (st, [], [], True)
      else case tk_recv tk of
          CaptureEnded \<Rightarrow> (case finish_window dsp ch W st of (st', fe, te) \<Rightarrow> Some (st', fe, te, True))
        | NoChunk \<Rightarrow> rx_windowed dsp ch W tks st
        | GotChunk ob \<Rightarrow> (case window_chunk dsp ch W ob st of None \<Rightarrow> None
            | Some (st1, fe, te) \<Rightarrow>
                map_option (\<lambda>(st2, fe', te', e). (st2, fe @ fe', te @ te', e)) (rx_windowed dsp ch W tks st1)))"

end
