(* ===== verification/RxProps.thy ===== *)
theory RxProps
  imports RxWorker
begin

text \<open>
  What the receive worker does over its life: the streaming worker reports each frame of what it
  heard once, and the windowed worker cuts the stream into windows and decodes exactly those in
  which no muted chunk began.
\<close>

section \<open>Streaming\<close>

text \<open>The chunks the demodulator hears, and whether the loop has ended.\<close>

fun heard :: "'n rx_tick list \<Rightarrow> 'n chunk_obs list \<times> bool" where
  "heard [] = ([], False)"
| "heard (tk # tks) =
     (if \<not> tk_running tk then ([], True)
      else case tk_recv tk of CaptureEnded \<Rightarrow> ([], True) | NoChunk \<Rightarrow> heard tks
        | GotChunk ob \<Rightarrow> (case heard tks of (obs, e) \<Rightarrow> (if ob_muted ob then obs else ob # obs, e)))"

text \<open>The demodulator alone, run over them.\<close>

fun decode_heard :: "('s, 'r, 'm, 'd, 't, 'a, 'n) rx_dsp \<Rightarrow> 'r option \<Rightarrow> 'm \<Rightarrow> 'n chunk_obs list \<Rightarrow> 'm \<times> 'n frame list" where
  "decode_heard dsp rs m [] = (m, [])"
| "decode_heard dsp rs m (ob # obs) =
     (let (rs', xs) = rx_samples dsp rs ob; (m', fs) = rd_feed dsp m xs; (m'', fs') = decode_heard dsp rs' m' obs
      in (m'', fs @ fs'))"

definition crc_ok_frames :: "bool \<Rightarrow> 'n frame list \<Rightarrow> nat" where
  "crc_ok_frames ok fs = length (filter (\<lambda>f. fm_crc_ok (fr_meta f) = ok) fs)"

definition counted :: "'n channel_metrics \<Rightarrow> 'n frame list \<Rightarrow> 'n channel_metrics \<Rightarrow> bool" where
  "counted m fs m' \<longleftrightarrow> cm_good m' = cm_good m + of_nat (crc_ok_frames True fs) \<and>
     cm_bad m' = cm_bad m + of_nat (crc_ok_frames False fs)"

lemma counted_append: "counted m fs m1 \<Longrightarrow> counted m1 fs' m2 \<Longrightarrow> counted m (fs @ fs') m2"
  by (simp add: counted_def crc_ok_frames_def)

lemma counted_Nil [simp]: "counted m [] m"
  by (simp add: counted_def crc_ok_frames_def)

lemma counted_one: "counted m [f] (record_decode f m)"
  by (simp add: counted_def crc_ok_frames_def record_decode_def record_frame_def Let_def split: option.splits)

lemma counted_step: "counted (record_decode f m) fs m' \<Longrightarrow> counted m (f # fs) m'"
  using counted_append [OF counted_one] by simp

lemma plain_frames_result:
  "plain_frames ch fs m = (m', es) \<Longrightarrow> counted m fs m' \<and> es = map (emit_frame ch \<circ> fr_payload) fs"
proof (induction fs arbitrary: m m' es)
  case (Cons f fs)
  then show ?case by (auto split: prod.splits intro: counted_step)
qed simp

lemma stream_frame_result:
  "stream_frame dsp ch now f st = (st', fe, te) \<Longrightarrow> rx_metrics st' = record_decode f (rx_metrics st) \<and>
     fe = [emit_frame ch (fr_payload f)] \<and> rx_demod st' = rx_demod st \<and> rx_resampler st' = rx_resampler st"
  by (auto simp: stream_frame_def Let_def split: option.splits frame_payload.splits prod.splits)

lemma stream_frames_result:
  "stream_frames dsp ch clock k fs st = (st', fe, te) \<Longrightarrow> counted (rx_metrics st) fs (rx_metrics st') \<and>
     fe = map (emit_frame ch \<circ> fr_payload) fs \<and> rx_demod st' = rx_demod st \<and> rx_resampler st' = rx_resampler st"
proof (induction fs arbitrary: k st fe te)
  case (Cons f fs)
  obtain st1 fe1 te1 where one: "stream_frame dsp ch (clock k) f st = (st1, fe1, te1)" by (metis prod_cases3)
  obtain fe2 te2 where rest: "stream_frames dsp ch clock (Suc k) fs st1 = (st', fe2, te2)" "fe = fe1 @ fe2"
    using Cons.prems one by (auto simp: Let_def split: prod.splits)
  from stream_frame_result [OF one] Cons.IH [OF rest(1)] rest(2) show ?case
    by (auto intro: counted_step)
qed simp

lemma side_taps_result:
  "side_taps dsp ch mu xs c st = (st', es) \<Longrightarrow> rx_metrics st' = rx_metrics st \<and> rx_demod st' = rx_demod st \<and>
     rx_resampler st' = rx_resampler st \<and> rx_buf st' = rx_buf st \<and> rx_muted_window st' = rx_muted_window st"
  by (auto simp: side_taps_def Let_def split: prod.splits)

lemma stream_chunk_result:
  assumes "stream_chunk dsp ch ob st = (st', fe, te)" "\<not> ob_muted ob"
    and "rx_samples dsp (rx_resampler st) ob = (rs, xs)" "rd_feed dsp (rx_demod st) xs = (m, fs)"
  shows "counted (rx_metrics st) fs (rx_metrics st') \<and> fe = map (emit_frame ch \<circ> fr_payload) fs \<and>
    rx_demod st' = m \<and> rx_resampler st' = rs"
proof -
  obtain st1 side where side: "side_taps dsp ch False xs (ob_spectrum ob) (st\<lparr>rx_resampler := rs\<rparr>) = (st1, side)"
    by fastforce
  from side_taps_result [OF side] have st1: "rx_metrics st1 = rx_metrics st" "rx_demod st1 = rx_demod st"
    "rx_resampler st1 = rs" by simp_all
  obtain st2 fe2 te2 where fr: "stream_frames dsp ch (ob_clock ob) 0 fs (st1\<lparr>rx_demod := m\<rparr>) = (st2, fe2, te2)"
    by (metis prod_cases3)
  from assms side st1 fr have "st' = st2" "fe = fe2" by (auto simp: stream_chunk_def Let_def)
  with stream_frames_result [OF fr] st1 show ?thesis by simp
qed

lemma emit_plain_result:
  "emit_plain ch (m, fs) st = (st', fe, te) \<Longrightarrow> counted (rx_metrics st) fs (rx_metrics st') \<and>
     fe = map (emit_frame ch \<circ> fr_payload) fs \<and> rx_demod st' = m \<and> rx_resampler st' = rx_resampler st \<and>
     rx_buf st' = rx_buf st \<and> rx_muted_window st' = rx_muted_window st"
  by (auto simp: emit_plain_def dest: plain_frames_result split: prod.splits)

lemma prune_tick_result [simp]:
  "rx_metrics (prune_tick dsp tk st) = rx_metrics st" "rx_demod (prune_tick dsp tk st) = rx_demod st"
  "rx_resampler (prune_tick dsp tk st) = rx_resampler st"
  by (simp_all add: prune_tick_def split: option.splits)

text \<open>
  C5: A streaming worker reports exactly what its demodulator finds in what it hears. It hears the
  chunks that arrive while its rig is not muted, in order, until it is stopped or the capture
  ends; each frame found in them, and each one the final flush yields, is sent once and in order
  and counted once, as good or bad by its checksum. Gain apart, no other feature of the
  worker (waterfall, RSID, aircraft reports, metrics) has an influence on that.\<close>

theorem streaming_reports_every_frame:
  "case rx_streaming dsp ch tks st of (st', fe, te, ended) \<Rightarrow>
     (case decode_heard dsp (rx_resampler st) (rx_demod st) (fst (heard tks)) of (m, fs) \<Rightarrow>
        let all = fs @ (if snd (heard tks) then snd (rd_flush dsp m) else []) in
        ended = snd (heard tks) \<and> fe = map (emit_frame ch \<circ> fr_payload) all \<and>
        counted (rx_metrics st) all (rx_metrics st'))"
proof (induction tks arbitrary: st)
  case (Cons tk tks)
  let ?st = "prune_tick dsp tk st"
  have flush: "case emit_plain ch (rd_flush dsp (rx_demod s)) s of (s', fe, te) \<Rightarrow>
      fe = map (emit_frame ch \<circ> fr_payload) (snd (rd_flush dsp (rx_demod s))) \<and>
      counted (rx_metrics s) (snd (rd_flush dsp (rx_demod s))) (rx_metrics s')" for s
    by (cases "rd_flush dsp (rx_demod s)") (auto dest: emit_plain_result split: prod.splits)
  show ?case
  proof (cases "tk_running tk")
    case False
    with flush [of st] show ?thesis by (simp add: Let_def split: prod.splits)
  next
    case True
    show ?thesis
    proof (cases "tk_recv tk")
      case CaptureEnded
      with True flush [of ?st] show ?thesis by (simp add: Let_def split: prod.splits)
    next
      case NoChunk
      with True Cons.IH [of ?st] show ?thesis by (simp add: Let_def)
    next
      case (GotChunk ob)
      show ?thesis
      proof (cases "ob_muted ob")
        case muted: True
        with True GotChunk Cons.IH [of ?st] show ?thesis
          by (simp add: stream_chunk_def Let_def split: prod.splits)
      next
        case False
        obtain rs xs where xs: "rx_samples dsp (rx_resampler ?st) ob = (rs, xs)" by fastforce
        obtain m fs where fs: "rd_feed dsp (rx_demod ?st) xs = (m, fs)" by fastforce
        obtain st1 fe te where chunk: "stream_chunk dsp ch ob ?st = (st1, fe, te)" by (metis prod_cases3)
        from stream_chunk_result [OF chunk False xs fs] True GotChunk False xs fs chunk Cons.IH [of st1]
        show ?thesis
          by (auto simp: Let_def split: prod.splits intro: counted_append)
      qed
    qed
  qed
qed simp

section \<open>Windows\<close>

definition block :: "nat \<Rightarrow> 's list \<Rightarrow> nat \<Rightarrow> 's list" where
  "block W S k = take W (drop (k * W) S)"

text \<open>The windows of a buffer; the flag drops the first.\<close>

definition open_windows :: "nat \<Rightarrow> bool \<Rightarrow> 's list \<Rightarrow> 's list list" where
  "open_windows W muted b = map (block W b) (filter (\<lambda>k. \<not> (muted \<and> k = 0)) [0..<length b div W])"

fun decode_windows :: "('s, 'r, 'm, 'd, 't, 'a, 'n) rx_dsp \<Rightarrow> 'm \<Rightarrow> 's list list \<Rightarrow> 'm \<times> 'n frame list" where
  "decode_windows dsp m [] = (m, [])"
| "decode_windows dsp m (w # ws) =
     (let (m', fs) = rd_window dsp m w; (m'', fs') = decode_windows dsp m' ws in (m'', fs @ fs'))"

lemma decode_windows_append:
  "decode_windows dsp m (ws @ ws') =
     (case decode_windows dsp m ws of (m1, fs) \<Rightarrow> case decode_windows dsp m1 ws' of (m2, fs') \<Rightarrow> (m2, fs @ fs'))"
  by (induction ws arbitrary: m) (auto simp: Let_def split: prod.splits)

lemma block_drop: "0 < W \<Longrightarrow> block W (drop (n * W) S) k = block W S (n + k)"
  by (simp add: block_def algebra_simps)

lemma upt_div_step:
  assumes "0 < W" "W \<le> n"
  shows "[0..<n div W] = 0 # map Suc [0..<(n - W) div W]"
proof -
  from assms have "n div W = Suc ((n - W) div W)" by (simp add: div_if)
  then show ?thesis by (simp add: upt_conv_Cons map_Suc_upt del: upt_Suc)
qed

lemma open_windows_step:
  assumes "0 < W" "W \<le> length b"
  shows "open_windows W muted b = (if muted then [] else [take W b]) @ open_windows W False (drop W b)"
  using block_drop [OF assms(1), of 1 b]
  by (simp add: open_windows_def upt_div_step [OF assms] filter_map comp_def block_def)

lemma drain_windows_result:
  assumes "0 < W"
  shows "\<exists>st' fe te. drain_windows dsp ch W st = Some (st', fe, te) \<and>
    (case decode_windows dsp (rx_demod st) (open_windows W (rx_muted_window st) (rx_buf st)) of (m, fs) \<Rightarrow>
      rx_demod st' = m \<and> fe = map (emit_frame ch \<circ> fr_payload) fs \<and> counted (rx_metrics st) fs (rx_metrics st')) \<and>
    rx_buf st' = drop (length (rx_buf st) div W * W) (rx_buf st) \<and>
    rx_muted_window st' = (length (rx_buf st) < W \<and> rx_muted_window st) \<and> rx_resampler st' = rx_resampler st"
  using assms
proof (induction dsp ch W st rule: drain_windows.induct)
  case (1 dsp ch W st)
  show ?case
  proof (cases "length (rx_buf st) < W")
    case True
    with 1(2) show ?thesis by (simp add: drain_windows.simps [of dsp ch W st] open_windows_def)
  next
    case False
    then have le: "W \<le> length (rx_buf st)" by simp
    let ?st0 = "st\<lparr>rx_buf := drop W (rx_buf st), rx_muted_window := False\<rparr>"
    let ?one = "if rx_muted_window st then (?st0, [], [])
        else emit_plain ch (rd_window dsp (rx_demod st) (take W (rx_buf st))) ?st0"
    obtain st1 fe te where one: "?one = (st1, fe, te)" by (metis prod_cases3)
    obtain m fs where fs: "decode_windows dsp (rx_demod st) (if rx_muted_window st then [] else [take W (rx_buf st)]) = (m, fs)"
      by fastforce
    have st1: "rx_demod st1 = m" "fe = map (emit_frame ch \<circ> fr_payload) fs" "counted (rx_metrics st) fs (rx_metrics st1)"
      "rx_buf st1 = drop W (rx_buf st)" "\<not> rx_muted_window st1" "rx_resampler st1 = rx_resampler st"
      using one fs by (auto simp: Let_def split: if_splits prod.splits dest!: emit_plain_result)
    from 1(1) [OF _ _ refl one [symmetric] refl refl] 1(2) False obtain st2 fe2 te2
      where rest: "drain_windows dsp ch W st1 = Some (st2, fe2, te2)"
        "case decode_windows dsp m (open_windows W False (drop W (rx_buf st))) of (m', fs') \<Rightarrow>
          rx_demod st2 = m' \<and> fe2 = map (emit_frame ch \<circ> fr_payload) fs' \<and> counted (rx_metrics st1) fs' (rx_metrics st2)"
        "rx_buf st2 = drop (length (drop W (rx_buf st)) div W * W) (drop W (rx_buf st))"
        "\<not> rx_muted_window st2" "rx_resampler st2 = rx_resampler st"
      using st1 by auto
    have "drain_windows dsp ch W st = Some (st2, fe @ fe2, te @ te2)"
      using 1(2) False one rest(1) by (simp add: drain_windows.simps [of dsp ch W st] Let_def)
    moreover have "length (rx_buf st) div W * W = (length (rx_buf st) - W) div W * W + W"
      using 1(2) le by (simp add: div_if)
    ultimately show ?thesis using rest st1 fs False
      by (auto simp: open_windows_step [OF 1(2) le] decode_windows_append split: prod.splits intro: counted_append)
  qed
qed

text \<open>The chunks of a run with their samples, and how it ended, if it did.\<close>

datatype rx_end = StillRunning | WasStopped | RanOut

fun received :: "('s, 'r, 'm, 'd, 't, 'a, 'n) rx_dsp \<Rightarrow> 'r option \<Rightarrow> 'n rx_tick list \<Rightarrow> (bool \<times> 's list) list \<times> rx_end" where
  "received dsp rs [] = ([], StillRunning)"
| "received dsp rs (tk # tks) =
     (if \<not> tk_running tk then ([], WasStopped)
      else case tk_recv tk of CaptureEnded \<Rightarrow> ([], RanOut) | NoChunk \<Rightarrow> received dsp rs tks
        | GotChunk ob \<Rightarrow> (let (rs', xs) = rx_samples dsp rs ob; (cs, e) = received dsp rs' tks
            in ((ob_muted ob, xs) # cs, e)))"

definition stream_of :: "(bool \<times> 's list) list \<Rightarrow> 's list" where
  "stream_of cs = concat (map snd cs)"

text \<open>Where in the stream the muted chunks begin.\<close>

fun muted_starts :: "nat \<Rightarrow> (bool \<times> 's list) list \<Rightarrow> nat list" where
  "muted_starts k [] = []"
| "muted_starts k ((muted, xs) # cs) = (if muted then [k] else []) @ muted_starts (k + length xs) cs"

definition spoiled :: "nat \<Rightarrow> (bool \<times> 's list) list \<Rightarrow> nat \<Rightarrow> bool" where
  "spoiled W cs k \<longleftrightarrow> (\<exists>p\<in>set (muted_starts 0 cs). p div W = k)"

definition clean_windows :: "nat \<Rightarrow> (bool \<times> 's list) list \<Rightarrow> 's list list" where
  "clean_windows W cs = map (block W (stream_of cs))
     (filter (\<lambda>k. \<not> spoiled W cs k) [0..<length (stream_of cs) div W])"

definition last_window :: "nat \<Rightarrow> 's \<Rightarrow> (bool \<times> 's list) list \<Rightarrow> 's list list" where
  "last_window W z cs =
     (let S = stream_of cs; n = length S div W; rest = drop (n * W) S
      in if rest \<noteq> [] \<and> \<not> spoiled W cs n then [rest @ replicate (W - length rest) z] else [])"

text \<open>The same from the middle of a window: \<open>b\<close> is buffered, the flag says whether it is spoiled.\<close>

definition marks :: "bool \<Rightarrow> 's list \<Rightarrow> (bool \<times> 's list) list \<Rightarrow> nat set" where
  "marks muted b cs = (if muted then {0} else {}) \<union> set (muted_starts (length b) cs)"

definition windows_from :: "nat \<Rightarrow> bool \<Rightarrow> 's list \<Rightarrow> (bool \<times> 's list) list \<Rightarrow> 's list list" where
  "windows_from W muted b cs = map (block W (b @ stream_of cs))
     (filter (\<lambda>k. \<forall>p\<in>marks muted b cs. p div W \<noteq> k) [0..<length (b @ stream_of cs) div W])"

definition spoiled_end :: "nat \<Rightarrow> bool \<Rightarrow> 's list \<Rightarrow> (bool \<times> 's list) list \<Rightarrow> bool" where
  "spoiled_end W muted b cs \<longleftrightarrow> (\<exists>p\<in>marks muted b cs. p div W = length (b @ stream_of cs) div W)"

lemma muted_starts_shift: "muted_starts (k + d) cs = map (\<lambda>p. p + d) (muted_starts k cs)"
proof (induction cs arbitrary: k)
  case (Cons c cs)
  obtain mu xs where c: "c = (mu, xs)" by fastforce
  have "muted_starts (k + d + length xs) cs = map (\<lambda>p. p + d) (muted_starts (k + length xs) cs)"
    using Cons [of "k + length xs"] by (simp add: add.commute add.left_commute)
  with c show ?case by simp
qed simp

lemma stream_of_Cons [simp]: "stream_of ((mu, xs) # cs) = xs @ stream_of cs"
  by (simp add: stream_of_def)

text \<open>One chunk: the windows it completes, then the rest from what is left in the buffer.\<close>

definition left_over :: "nat \<Rightarrow> 's list \<Rightarrow> 's list" where
  "left_over W b = drop (length b div W * W) b"

lemma length_left_over: "length b = length (left_over W b) + length b div W * W"
  using div_times_less_eq_dividend [of "length b" W] by (simp add: left_over_def)

lemma left_over_short: "0 < W \<Longrightarrow> length (left_over W b) < W"
  using length_left_over [of b W] mod_less_divisor [of W "length b"]
  by (simp add: left_over_def modulo_nat_def)

lemma chunk_starts:
  "set (muted_starts (length b) ((mu, xs) # cs)) = (if mu then {length b} else {}) \<union>
     (\<lambda>p. p + length (b @ xs) div W * W) ` set (muted_starts (length (left_over W (b @ xs))) cs)"
proof -
  have "muted_starts (length b + length xs) cs =
      map (\<lambda>p. p + length (b @ xs) div W * W) (muted_starts (length (left_over W (b @ xs))) cs)"
    by (metis length_left_over length_append muted_starts_shift)
  then show ?thesis by simp
qed

lemma chunk_marks:
  fixes W :: nat and b xs :: "'s list" and mu muted :: bool
  assumes "0 < W" "length b < W"
  defines "n \<equiv> length (b @ xs) div W" and "b' \<equiv> left_over W (b @ xs)"
    and "muted' \<equiv> length (b @ xs) < W \<and> (muted \<or> mu)"
  shows "k < n \<Longrightarrow> (\<exists>p\<in>marks muted b ((mu, xs) # cs). p div W = k) \<longleftrightarrow> (muted \<or> mu) \<and> k = 0"
    and "(\<exists>p\<in>marks muted b ((mu, xs) # cs). p div W = n + k) \<longleftrightarrow> (\<exists>p\<in>marks muted' b' cs. p div W = k)"
proof -
  have b0: "length b div W = 0" using assms(2) by simp
  have z: "(p + n * W) div W = n + p div W" for p using assms(1) by simp
  have small: "length b + length xs < W \<longleftrightarrow> n = 0" using assms(1) by (simp add: n_def div_eq_0_iff)
  note starts = chunk_starts [of b mu xs cs W, folded n_def b'_def]
  show "k < n \<Longrightarrow> (\<exists>p\<in>marks muted b ((mu, xs) # cs). p div W = k) \<longleftrightarrow> (muted \<or> mu) \<and> k = 0"
    unfolding marks_def starts using b0 z by (auto split: if_splits)
  show "(\<exists>p\<in>marks muted b ((mu, xs) # cs). p div W = n + k) \<longleftrightarrow> (\<exists>p\<in>marks muted' b' cs. p div W = k)"
    unfolding marks_def starts using b0 z small by (auto simp: muted'_def split: if_splits)
qed

lemma chunk_length:
  assumes "0 < W"
  shows "length (b @ stream_of ((mu, xs) # cs)) div W =
    length (b @ xs) div W + length (left_over W (b @ xs) @ stream_of cs) div W"
proof -
  have "length (b @ stream_of ((mu, xs) # cs)) =
      length (left_over W (b @ xs) @ stream_of cs) + length (b @ xs) div W * W"
    using length_left_over [of "b @ xs" W] by simp
  moreover have "(x + k * W) div W = k + x div W" for x k using assms by simp
  ultimately show ?thesis by (simp only:)
qed

lemma block_append: "(k + 1) * W \<le> length xs \<Longrightarrow> block W (xs @ ys) k = block W xs k"
  by (simp add: block_def)

lemma chunk_windows:
  fixes W :: nat and b xs :: "'s list" and mu muted :: bool
  assumes W: "0 < W" "length b < W"
  defines "n \<equiv> length (b @ xs) div W" and "b' \<equiv> left_over W (b @ xs)"
    and "muted' \<equiv> length (b @ xs) < W \<and> (muted \<or> mu)"
  shows "windows_from W muted b ((mu, xs) # cs) =
    open_windows W (muted \<or> mu) (b @ xs) @ windows_from W muted' b' cs"
proof -
  let ?S = "(b @ xs) @ stream_of cs"
  let ?ok = "\<lambda>k. \<forall>p\<in>marks muted b ((mu, xs) # cs). p div W \<noteq> k"
  note marks = chunk_marks [OF W, where xs = xs and muted = muted and mu = mu and cs = cs, folded n_def b'_def muted'_def]
  have cut: "[0..<n + j] = [0..<n] @ map (\<lambda>k. n + k) [0..<j]" for j
    by (induction j) (simp_all add: add.commute)
  have later: "drop (n * W) ?S = b' @ stream_of cs"
    using div_times_less_eq_dividend [of "length (b @ xs)" W] by (simp add: b'_def left_over_def n_def)
  have early: "block W ?S k = block W (b @ xs) k" if "k < n" for k
  proof (rule block_append)
    have "(k + 1) * W \<le> n * W" using that by (intro mult_le_mono1) simp
    also have "\<dots> \<le> length (b @ xs)" by (simp add: n_def)
    finally show "(k + 1) * W \<le> length (b @ xs)" .
  qed
  have "map (block W ?S) (filter ?ok [0..<n]) = open_windows W (muted \<or> mu) (b @ xs)"
    unfolding open_windows_def n_def [symmetric]
  proof (intro map_cong filter_cong refl)
    fix k assume "k \<in> set [0..<n]"
    then have "k < n" by simp
    from marks(1) [OF this] show "?ok k \<longleftrightarrow> \<not> ((muted \<or> mu) \<and> k = 0)" by blast
  qed (use early in simp)
  moreover have "map (block W ?S) (filter ?ok (map (\<lambda>k. n + k) [0..<length (b' @ stream_of cs) div W])) =
      windows_from W muted' b' cs"
  proof -
    have "?ok (n + k) \<longleftrightarrow> (\<forall>p\<in>marks muted' b' cs. p div W \<noteq> k)" for k using marks(2) [of k] by blast
    moreover have "block W ?S (n + k) = block W (b' @ stream_of cs) k" for k
      using block_drop [OF W(1), of n ?S k] later by simp
    ultimately show ?thesis by (simp add: windows_from_def filter_map comp_def del: append_assoc)
  qed
  moreover have "length (b @ stream_of ((mu, xs) # cs)) div W = n + length (b' @ stream_of cs) div W"
    unfolding n_def b'_def by (rule chunk_length [OF W(1)])
  ultimately show ?thesis
    unfolding windows_from_def [of W muted b] by (simp add: cut del: append_assoc) (simp add: append_assoc)
qed

lemma chunk_spoiled:
  assumes "0 < W" "length b < W"
  shows "spoiled_end W muted b ((mu, xs) # cs) \<longleftrightarrow>
    spoiled_end W (length (b @ xs) < W \<and> (muted \<or> mu)) (left_over W (b @ xs)) cs"
  unfolding spoiled_end_def chunk_length [OF assms(1)] by (rule chunk_marks(2) [OF assms])

text \<open>The worker does this, chunk by chunk.\<close>

lemma window_chunk_result:
  assumes "0 < W" "rx_samples dsp (rx_resampler st) ob = (rs, xs)"
  shows "\<exists>st' fe te. window_chunk dsp ch W ob st = Some (st', fe, te) \<and>
    (case decode_windows dsp (rx_demod st) (open_windows W (rx_muted_window st \<or> ob_muted ob) (rx_buf st @ xs)) of (m, fs) \<Rightarrow>
      rx_demod st' = m \<and> fe = map (emit_frame ch \<circ> fr_payload) fs \<and> counted (rx_metrics st) fs (rx_metrics st')) \<and>
    rx_buf st' = left_over W (rx_buf st @ xs) \<and>
    rx_muted_window st' = (length (rx_buf st @ xs) < W \<and> (rx_muted_window st \<or> ob_muted ob)) \<and> rx_resampler st' = rs"
proof -
  let ?st = "st\<lparr>rx_resampler := rs, rx_muted_window := rx_muted_window st \<or> ob_muted ob\<rparr>"
  obtain st1 side where side: "side_taps dsp ch (ob_muted ob) xs (ob_spectrum ob) ?st = (st1, side)" by fastforce
  from side_taps_result [OF side] have st1: "rx_metrics st1 = rx_metrics st" "rx_demod st1 = rx_demod st"
    "rx_resampler st1 = rs" "rx_buf st1 = rx_buf st" "rx_muted_window st1 = (rx_muted_window st \<or> ob_muted ob)"
    by simp_all
  let ?in = "st1\<lparr>rx_buf := rx_buf st1 @ xs\<rparr>"
  have "\<exists>st' fe te. drain_windows dsp ch W ?in = Some (st', fe, te) \<and>
      (case decode_windows dsp (rx_demod st) (open_windows W (rx_muted_window st \<or> ob_muted ob) (rx_buf st @ xs)) of (m, fs) \<Rightarrow>
        rx_demod st' = m \<and> fe = map (emit_frame ch \<circ> fr_payload) fs \<and> counted (rx_metrics st) fs (rx_metrics st')) \<and>
      rx_buf st' = left_over W (rx_buf st @ xs) \<and>
      rx_muted_window st' = (length (rx_buf st @ xs) < W \<and> (rx_muted_window st \<or> ob_muted ob)) \<and> rx_resampler st' = rs"
    using drain_windows_result [OF assms(1), of dsp ch ?in, folded left_over_def] st1 by simp
  then obtain st2 fe te where out: "drain_windows dsp ch W ?in = Some (st2, fe, te) \<and>
      (case decode_windows dsp (rx_demod st) (open_windows W (rx_muted_window st \<or> ob_muted ob) (rx_buf st @ xs)) of (m, fs) \<Rightarrow>
        rx_demod st2 = m \<and> fe = map (emit_frame ch \<circ> fr_payload) fs \<and> counted (rx_metrics st) fs (rx_metrics st2)) \<and>
      rx_buf st2 = left_over W (rx_buf st @ xs) \<and>
      rx_muted_window st2 = (length (rx_buf st @ xs) < W \<and> (rx_muted_window st \<or> ob_muted ob)) \<and> rx_resampler st2 = rs"
    by (elim exE) (rule that)
  from out assms(2) side have "window_chunk dsp ch W ob st = Some (st2, fe, side @ te)"
    by (simp add: window_chunk_def Let_def)
  with out show ?thesis by (intro exI conjI) (assumption | elim conjE)+
qed

definition rest_from :: "nat \<Rightarrow> 's \<Rightarrow> bool \<Rightarrow> 's list \<Rightarrow> (bool \<times> 's list) list \<Rightarrow> 's list list" where
  "rest_from W z muted b cs =
     (let rest = left_over W (b @ stream_of cs)
      in if rest \<noteq> [] \<and> \<not> spoiled_end W muted b cs then [rest @ replicate (W - length rest) z] else [])"

lemma drop_blocks: "length P = n * W \<Longrightarrow> drop ((n + j) * W) (P @ Q) = drop (j * W) Q"
  by (simp add: algebra_simps)

lemma left_over_chunk:
  assumes "0 < W"
  shows "left_over W (b @ stream_of ((mu, xs) # cs)) = left_over W (left_over W (b @ xs) @ stream_of cs)"
proof -
  let ?n = "length (b @ xs) div W" and ?P = "take (length (b @ xs) div W * W) (b @ xs)"
  have cut: "b @ stream_of ((mu, xs) # cs) = ?P @ left_over W (b @ xs) @ stream_of cs"
    by (simp only: left_over_def append_assoc [symmetric] append_take_drop_id) (simp add: stream_of_def)
  have "length ?P = ?n * W"
    by (simp only: length_take min_absorb2 [OF div_times_less_eq_dividend])
  from drop_blocks [OF this, of _ "left_over W (b @ xs) @ stream_of cs"] show ?thesis
    unfolding left_over_def [of W "b @ stream_of ((mu, xs) # cs)"] left_over_def [of W "left_over W (b @ xs) @ stream_of cs"]
    by (simp only: chunk_length [OF assms] cut [symmetric])
qed

lemma finish_window_result:
  assumes "0 < W" "length (rx_buf st) < W" "finish_window dsp ch W st = (st', fe, te)"
  shows "case decode_windows dsp (rx_demod st)
      (if rx_buf st \<noteq> [] \<and> \<not> rx_muted_window st then [rx_buf st @ replicate (W - length (rx_buf st)) (rd_zero dsp)] else []) of (m, fs) \<Rightarrow>
    fe = map (emit_frame ch \<circ> fr_payload) fs \<and> counted (rx_metrics st) fs (rx_metrics st')"
  using assms
  by (auto simp: finish_window_def Let_def split: if_splits prod.splits dest!: emit_plain_result)

lemma open_windows_short: "length b < W \<Longrightarrow> windows_from W muted b [] = [] \<and> left_over W b = b"
  by (simp add: windows_from_def stream_of_def left_over_def)

lemma spoiled_end_short: "length b < W \<Longrightarrow> spoiled_end W muted b [] = muted"
  by (simp add: spoiled_end_def marks_def stream_of_def)

lemma rx_windowed_result:
  assumes "0 < W" "length (rx_buf st) < W" "received dsp (rx_resampler st) tks = (cs, e)"
  shows "\<exists>st' fe te. rx_windowed dsp ch W tks st = Some (st', fe, te, e \<noteq> StillRunning) \<and>
    (case decode_windows dsp (rx_demod st) (windows_from W (rx_muted_window st) (rx_buf st) cs @
        (if e = RanOut then rest_from W (rd_zero dsp) (rx_muted_window st) (rx_buf st) cs else [])) of (m, fs) \<Rightarrow>
      fe = map (emit_frame ch \<circ> fr_payload) fs \<and> counted (rx_metrics st) fs (rx_metrics st'))"
  using assms(2,3)
proof (induction tks arbitrary: st cs)
  case Nil
  then show ?case by (simp add: open_windows_short)
next
  case (Cons tk tks)
  show ?case
  proof (cases "tk_running tk")
    case False
    with Cons.prems show ?thesis by (auto simp: open_windows_short)
  next
    case True
    show ?thesis
    proof (cases "tk_recv tk")
      case NoChunk
      with True Cons show ?thesis by simp
    next
      case CaptureEnded
      obtain st' fe te where fin: "finish_window dsp ch W st = (st', fe, te)" by (metis prod_cases3)
      from CaptureEnded True Cons.prems have cs: "cs = []" "e = RanOut" by auto
      from finish_window_result [OF assms(1) Cons.prems(1) fin] CaptureEnded True fin Cons.prems(1)
      show ?thesis
        by (auto simp: cs rest_from_def open_windows_short spoiled_end_short stream_of_def Let_def
            split: prod.splits if_splits)
    next
      case (GotChunk ob)
      obtain rs xs where xs: "rx_samples dsp (rx_resampler st) ob = (rs, xs)" by fastforce
      from GotChunk True xs Cons.prems(2) obtain cs' where cs: "received dsp rs tks = (cs', e)" "cs = (ob_muted ob, xs) # cs'"
        by (auto simp: Let_def split: prod.splits)
      let ?mu = "rx_muted_window st \<or> ob_muted ob"
      obtain m1 fs1 where d1: "decode_windows dsp (rx_demod st) (open_windows W ?mu (rx_buf st @ xs)) = (m1, fs1)" by fastforce
      from window_chunk_result [OF assms(1) xs, of ch] d1 obtain st1 fe1 te1
        where chunk: "window_chunk dsp ch W ob st = Some (st1, fe1, te1)" "rx_demod st1 = m1"
          "fe1 = map (emit_frame ch \<circ> fr_payload) fs1" "counted (rx_metrics st) fs1 (rx_metrics st1)"
          "rx_buf st1 = left_over W (rx_buf st @ xs)"
          "rx_muted_window st1 = (length (rx_buf st @ xs) < W \<and> ?mu)" "rx_resampler st1 = rs"
        by auto
      have short: "length (rx_buf st1) < W" unfolding chunk(5) by (rule left_over_short [OF assms(1)])
      from Cons.IH [OF short cs(1) [folded chunk(7)]] obtain st2 fe2 te2
        where rest: "rx_windowed dsp ch W tks st1 = Some (st2, fe2, te2, e \<noteq> StillRunning)"
          "case decode_windows dsp m1 (windows_from W (rx_muted_window st1) (rx_buf st1) cs' @
              (if e = RanOut then rest_from W (rd_zero dsp) (rx_muted_window st1) (rx_buf st1) cs' else [])) of (m, fs) \<Rightarrow>
            fe2 = map (emit_frame ch \<circ> fr_payload) fs \<and> counted (rx_metrics st1) fs (rx_metrics st2)"
        unfolding chunk(2) by (elim exE conjE) (rule that)
      have ws: "windows_from W (rx_muted_window st) (rx_buf st) cs =
          open_windows W ?mu (rx_buf st @ xs) @ windows_from W (rx_muted_window st1) (rx_buf st1) cs'"
        unfolding cs(2) chunk(5,6) by (rule chunk_windows [OF assms(1) Cons.prems(1)])
      have rs: "rest_from W (rd_zero dsp) (rx_muted_window st) (rx_buf st) cs =
          rest_from W (rd_zero dsp) (rx_muted_window st1) (rx_buf st1) cs'"
        unfolding rest_from_def cs(2) chunk(5,6) left_over_chunk [OF assms(1)] chunk_spoiled [OF assms(1) Cons.prems(1)] ..
      have run: "rx_windowed dsp ch W (tk # tks) st = Some (st2, fe1 @ fe2, te1 @ te2, e \<noteq> StillRunning)"
        using True GotChunk chunk(1) rest(1) by simp
      have found: "case decode_windows dsp (rx_demod st) (windows_from W (rx_muted_window st) (rx_buf st) cs @
          (if e = RanOut then rest_from W (rd_zero dsp) (rx_muted_window st) (rx_buf st) cs else [])) of (m, fs) \<Rightarrow>
        fe1 @ fe2 = map (emit_frame ch \<circ> fr_payload) fs \<and> counted (rx_metrics st) fs (rx_metrics st2)"
        unfolding ws rs append_assoc decode_windows_append [of dsp _ "open_windows W ?mu (rx_buf st @ xs)"] d1
        using rest(2) chunk(3,4) by (auto split: prod.splits intro: counted_append)
      show ?thesis by (intro exI) (rule conjI [OF run found])
    qed
  qed
qed

text \<open>
  C6: A windowed worker whose windows have \<open>W > 0\<close> samples cuts what it receives, muted chunks
  included, into consecutive windows from the start of the capture and decodes exactly those
  in which no muted chunk begins, in order and once each, emitting and counting every frame found;
  if the capture ends by itself, the remainder is padded and decoded under the same condition. A
  chunk muted across a boundary thus spoils the window it begins in, not the one it reaches
  into.\<close>

theorem windowed_decodes_clean_windows:
  assumes "0 < W" "rx_buf st = []" "\<not> rx_muted_window st"
  shows "case received dsp (rx_resampler st) tks of (cs, e) \<Rightarrow>
    \<exists>st' fe te. rx_windowed dsp ch W tks st = Some (st', fe, te, e \<noteq> StillRunning) \<and>
    (case decode_windows dsp (rx_demod st)
        (clean_windows W cs @ (if e = RanOut then last_window W (rd_zero dsp) cs else [])) of (m, fs) \<Rightarrow>
      fe = map (emit_frame ch \<circ> fr_payload) fs \<and> counted (rx_metrics st) fs (rx_metrics st'))"
proof -
  obtain cs e where rc: "received dsp (rx_resampler st) tks = (cs, e)" by fastforce
  have st: "rx_muted_window st = False" using assms(3) by simp
  have ws: "windows_from W False [] cs = clean_windows W cs"
    by (simp add: windows_from_def clean_windows_def marks_def spoiled_def)
  have rest: "rest_from W (rd_zero dsp) False [] cs = last_window W (rd_zero dsp) cs"
    by (simp add: rest_from_def last_window_def left_over_def spoiled_end_def marks_def spoiled_def Let_def)
  have "length (rx_buf st) < W" using assms(1,2) by simp
  from rx_windowed_result [OF assms(1) this rc, of ch, unfolded st assms(2) ws rest]
  show ?thesis unfolding rc prod.case .
qed

text \<open>A demodulator that finds the window itself; windows of four samples, a chunk muted across a boundary.\<close>

definition demo_rx_dsp :: "(int, unit, nat, unit, unit, unit, int) rx_dsp" where
  "demo_rx_dsp = \<lparr>rd_to_f32 = (\<lambda>x. x), rd_resample = (\<lambda>r xs. (r, xs)), rd_scale = (*), rd_one = 1, rd_zero = 0,
     rd_feed = (\<lambda>m xs. (m, [])), rd_flush = (\<lambda>m. (m, [])),
     rd_window = (\<lambda>m w. (Suc m, [\<lparr>fr_payload = Packet (map of_int w), fr_meta = \<lparr>fm_snr = None,
       fm_freq_offset = None, fm_time_offset = None, fm_decoder = None, fm_sample_offset = 0, fm_crc_ok = True,
       fm_confidence = None\<rparr>\<rparr>])),
     rd_rsid = (\<lambda>d xs. (d, [])), rd_tap_build = (\<lambda>_. ()), rd_tap = (\<lambda>t xs. (t, [])),
     rd_report = (\<lambda>a b n. (a, None)), rd_prune = (\<lambda>a n. a)\<rparr>"

definition demo_rx_state :: "(int, unit, nat, unit, unit, unit, int) rx_state" where
  "demo_rx_state = \<lparr>rx_resampler = None, rx_demod = 0, rx_rsid = None, rx_tap = None, rx_tap_gen = - 1,
     rx_reporter = None, rx_metrics = metrics_new 0, rx_buf = [], rx_muted_window = False\<rparr>"

definition demo_chunk :: "bool \<Rightarrow> int list \<Rightarrow> int rx_tick" where
  "demo_chunk muted xs = \<lparr>tk_running = True, tk_prune = None, tk_recv = GotChunk
     \<lparr>ob_samples = xs, ob_muted = muted, ob_gain = 1, ob_spectrum = (0, None), ob_clock = (\<lambda>_. 0)\<rparr>\<rparr>"

definition demo_ticks :: "int rx_tick list" where
  "demo_ticks = [demo_chunk False [1, 2, 3], demo_chunk True [4, 5, 6], demo_chunk False [7, 8, 9, 10, 11],
     \<lparr>tk_running = True, tk_prune = None, tk_recv = CaptureEnded\<rparr>]"

theorem windowed_decodes_clean_windows_witness:
  "\<exists>st' te. rx_windowed demo_rx_dsp 1 4 demo_ticks demo_rx_state =
     Some (st', [RxFrame 1 [5, 6, 7, 8] None 0, RxFrame 1 [9, 10, 11, 0] None 0], te, True)"
proof -
  let ?cs = "[(False, [1, 2, 3]), (True, [4, 5, 6]), (False, [7, 8, 9, 10, 11 :: int])]"
  have rc: "received demo_rx_dsp (rx_resampler demo_rx_state) demo_ticks = (?cs, RanOut)"
    by (simp add: demo_ticks_def demo_chunk_def demo_rx_state_def demo_rx_dsp_def rx_samples_def Let_def)
  have S: "stream_of ?cs = [1, 2, 3, 4, 5, 6, 7, 8, 9, 10, 11]" by (simp add: stream_of_def)
  have k: "[0..<2] = [0, 1::nat]" by (simp add: upt_rec)
  have "clean_windows 4 ?cs = [[5, 6, 7, 8]]"
    unfolding clean_windows_def S by (simp add: spoiled_def block_def k)
  moreover have "last_window 4 0 ?cs = [[9, 10, 11, 0]]"
    unfolding last_window_def S Let_def by (simp add: spoiled_def)
  ultimately have dec: "snd (decode_windows demo_rx_dsp (rx_demod demo_rx_state)
      (clean_windows 4 ?cs @ last_window 4 (rd_zero demo_rx_dsp) ?cs)) =
    map (\<lambda>w. \<lparr>fr_payload = Packet (map of_int w), fr_meta = \<lparr>fm_snr = None, fm_freq_offset = None,
      fm_time_offset = None, fm_decoder = None, fm_sample_offset = 0, fm_crc_ok = True, fm_confidence = None\<rparr>\<rparr>)
      [[5, 6, 7, 8], [9, 10, 11, 0]]"
    by (simp add: demo_rx_dsp_def demo_rx_state_def Let_def)
  have "rx_buf demo_rx_state = []" "\<not> rx_muted_window demo_rx_state" by (simp_all add: demo_rx_state_def)
  from windowed_decodes_clean_windows [where W = 4 and dsp = demo_rx_dsp and tks = demo_ticks and ch = 1, OF _ this] rc dec show ?thesis
    by (cases "decode_windows demo_rx_dsp (rx_demod demo_rx_state)
        (clean_windows 4 ?cs @ last_window 4 (rd_zero demo_rx_dsp) ?cs)") (auto simp: emit_frame_def)
qed

end
