(* ===== verification/Floats.thy ===== *)
theory Floats
  imports Complex_Main RustText
begin

text \<open>
  Floating-point arithmetic as the signal-processing code uses it: a record of operations over an
  arbitrary carrier (\<open>f32\<close> and \<open>f64\<close> of the sources), complex samples as pairs, and the ring-buffer
  delay lines of the filters with the law they share.
\<close>

record 'n fmath =
  f_lit :: "string \<Rightarrow> 'n"
  f_nat :: "nat \<Rightarrow> 'n"
  f_add :: "'n \<Rightarrow> 'n \<Rightarrow> 'n"
  f_sub :: "'n \<Rightarrow> 'n \<Rightarrow> 'n"
  f_mul :: "'n \<Rightarrow> 'n \<Rightarrow> 'n"
  f_div :: "'n \<Rightarrow> 'n \<Rightarrow> 'n"
  f_neg :: "'n \<Rightarrow> 'n"
  f_sin :: "'n \<Rightarrow> 'n"
  f_cos :: "'n \<Rightarrow> 'n"
  f_atan2 :: "'n \<Rightarrow> 'n \<Rightarrow> 'n"
  f_sqrt :: "'n \<Rightarrow> 'n"
  f_log10 :: "'n \<Rightarrow> 'n"
  f_hypot :: "'n \<Rightarrow> 'n \<Rightarrow> 'n"
  f_eq :: "'n \<Rightarrow> 'n \<Rightarrow> bool"
  f_lt :: "'n \<Rightarrow> 'n \<Rightarrow> bool"
  f_le :: "'n \<Rightarrow> 'n \<Rightarrow> bool"
  f_finite :: "'n \<Rightarrow> bool"
  f_max :: "'n \<Rightarrow> 'n \<Rightarrow> 'n"
  f_floor :: "'n \<Rightarrow> 'n"
  f_ceil :: "'n \<Rightarrow> 'n"
  f_round :: "'n \<Rightarrow> 'n"
  f_f32 :: "'n \<Rightarrow> 'n"
  f_to_u8 :: "'n \<Rightarrow> u8"
  f_to_i16 :: "'n \<Rightarrow> int"
  f_to_u32 :: "'n \<Rightarrow> u32"
  f_to_usize :: "'n \<Rightarrow> nat"
  f_to_isize :: "'n \<Rightarrow> int"
  f_abs :: "'n \<Rightarrow> 'n"
  f_exp :: "'n \<Rightarrow> 'n"
  f_ln :: "'n \<Rightarrow> 'n"
  f_log2 :: "'n \<Rightarrow> 'n"
  f_powi :: "'n \<Rightarrow> int \<Rightarrow> 'n"

abbreviation f_zero :: "'n fmath \<Rightarrow> 'n" where "f_zero F \<equiv> f_lit F ''0.0''"
abbreviation f_one :: "'n fmath \<Rightarrow> 'n" where "f_one F \<equiv> f_lit F ''1.0''"
abbreviation f_pi :: "'n fmath \<Rightarrow> 'n" where "f_pi F \<equiv> f_lit F ''PI''"
abbreviation f_tau :: "'n fmath \<Rightarrow> 'n" where "f_tau F \<equiv> f_lit F ''TAU''"

text \<open>\<open>iter().sum()\<close> adds from the left, starting with zero.\<close>

definition f_sum :: "'n fmath \<Rightarrow> 'n list \<Rightarrow> 'n" where
  "f_sum F xs = foldl (f_add F) (f_zero F) xs"

text \<open>\<open>clamp\<close> panics (\<open>None\<close>) when the bounds are not in order.\<close>

definition f_clamp :: "'n fmath \<Rightarrow> 'n \<Rightarrow> 'n \<Rightarrow> 'n \<Rightarrow> 'n option" where
  "f_clamp F lo hi x =
     (if f_le F lo hi then let x1 = (if f_lt F x lo then lo else x) in Some (if f_lt F hi x1 then hi else x1) else None)"

text \<open>Exact arithmetic, for the worked examples: rationals with the transcendental functions left out.\<close>

definition rat_lit :: "string \<Rightarrow> rat" where
  "rat_lit s = (if s = ''1.0'' then 1 else if s = ''0.5'' then 1 / 2 else if s = ''2.0'' then 2 else 0)"

text \<open>\<open>as u32\<close> rounds towards zero and saturates.\<close>

definition rat_to_u32 :: "rat \<Rightarrow> u32" where
  "rat_to_u32 x = (if x \<le> 0 then 0 else if 4294967295 \<le> x then - 1 else word_of_int \<lfloor>x\<rfloor>)"

definition rat_math :: "rat fmath" where
  "rat_math = \<lparr>f_lit = rat_lit, f_nat = of_nat, f_add = (+), f_sub = (-), f_mul = (*), f_div = (/), f_neg = uminus,
     f_sin = (\<lambda>_. 0), f_cos = (\<lambda>_. 1), f_atan2 = (\<lambda>_ _. 0), f_sqrt = (\<lambda>x. x), f_log10 = (\<lambda>x. x),
     f_hypot = (\<lambda>x y. x + y), f_eq = (=), f_lt = (<), f_le = (\<le>), f_finite = (\<lambda>_. True), f_max = max,
     f_floor = (\<lambda>x. of_int \<lfloor>x\<rfloor>), f_ceil = (\<lambda>x. of_int \<lceil>x\<rceil>), f_round = (\<lambda>x. of_int \<lfloor>x + 1 / 2\<rfloor>), f_f32 = (\<lambda>x. x),
     f_to_u8 = (\<lambda>x. word_of_int (max 0 (min 255 \<lfloor>x\<rfloor>))), f_to_i16 = (\<lambda>x. max (- 32768) (min 32767 \<lfloor>x\<rfloor>)),
     f_to_u32 = rat_to_u32, f_to_usize = (\<lambda>x. nat \<lfloor>x\<rfloor>), f_to_isize = floor,
     f_abs = abs, f_exp = (\<lambda>x. 1 + x), f_ln = (\<lambda>x. x - 1), f_log2 = (\<lambda>x. x - 1),
     f_powi = (\<lambda>x n. if 0 \<le> n then x ^ nat n else inverse x ^ nat (- n))\<rparr>"

section \<open>Complex samples\<close>

type_synonym 'n cplx = "'n \<times> 'n"

definition c_add :: "'n fmath \<Rightarrow> 'n cplx \<Rightarrow> 'n cplx \<Rightarrow> 'n cplx" where
  "c_add F a b = (f_add F (fst a) (fst b), f_add F (snd a) (snd b))"

definition c_mul :: "'n fmath \<Rightarrow> 'n cplx \<Rightarrow> 'n cplx \<Rightarrow> 'n cplx" where
  "c_mul F a b = (f_sub F (f_mul F (fst a) (fst b)) (f_mul F (snd a) (snd b)),
     f_add F (f_mul F (fst a) (snd b)) (f_mul F (snd a) (fst b)))"

definition c_conj :: "'n fmath \<Rightarrow> 'n cplx \<Rightarrow> 'n cplx" where
  "c_conj F a = (fst a, f_neg F (snd a))"

definition c_norm_sqr :: "'n fmath \<Rightarrow> 'n cplx \<Rightarrow> 'n" where
  "c_norm_sqr F a = f_add F (f_mul F (fst a) (fst a)) (f_mul F (snd a) (snd a))"

definition c_norm :: "'n fmath \<Rightarrow> 'n cplx \<Rightarrow> 'n" where
  "c_norm F a = f_hypot F (fst a) (snd a)"

section \<open>Delay lines\<close>

text \<open>What the filters ask of their history: tap \<open>k\<close> is the sample pushed \<open>k\<close> steps before the last.\<close>

locale delay_line =
  fixes good :: "'h \<Rightarrow> bool" and size :: "'h \<Rightarrow> nat" and push :: "'a \<Rightarrow> 'h \<Rightarrow> 'h" and tap :: "'h \<Rightarrow> nat \<Rightarrow> 'a"
  assumes push_good: "good h \<Longrightarrow> good (push x h)"
    and size_push: "good h \<Longrightarrow> size (push x h) = size h"
    and tap_newest: "good h \<Longrightarrow> tap (push x h) 0 = x"
    and tap_older: "good h \<Longrightarrow> Suc k < size h \<Longrightarrow> tap (push x h) (Suc k) = tap h k"
begin

lemma fold_good: "good h \<Longrightarrow> good (fold push xs h) \<and> size (fold push xs h) = size h"
  by (induction xs arbitrary: h) (simp_all add: push_good size_push)

lemma tap_history:
  assumes "good h" "k < size h"
  shows "tap (fold push xs h) k = (if k < length xs then xs ! (length xs - 1 - k) else tap h (k - length xs))"
  using assms(2)
proof (induction xs arbitrary: k rule: rev_induct)
  case (snoc x xs)
  note h = fold_good [OF assms(1), of xs]
  show ?case
  proof (cases k)
    case 0
    with h tap_newest show ?thesis by (simp add: nth_append)
  next
    case (Suc m)
    with h tap_older [of "fold push xs h" m x] snoc
    show ?thesis by (auto simp: nth_append)
  qed
qed simp

end

text \<open>The ring buffer with a write position, as most filters have it.\<close>

definition ring_push :: "'a \<Rightarrow> 'a list \<times> nat \<Rightarrow> 'a list \<times> nat" where
  "ring_push x r = ((fst r)[snd r := x], (snd r + 1) mod length (fst r))"

definition ring_tap :: "'a list \<times> nat \<Rightarrow> nat \<Rightarrow> 'a" where
  "ring_tap r k = fst r ! ((snd r + length (fst r) - 1 - k) mod length (fst r))"

definition ring_good :: "'a list \<times> nat \<Rightarrow> bool" where
  "ring_good r \<longleftrightarrow> snd r < length (fst r)"

lemma ring_index_newest: "p < n \<Longrightarrow> ((p + 1) mod n + n - 1) mod n = (p :: nat)"
  by (cases "p + 1 = n") auto

lemma ring_index_older:
  assumes "p < n" "Suc k < n"
  shows "((p + 1) mod n + n - 1 - Suc k) mod n = (p + n - 1 - k) mod n" "(p + n - 1 - k) mod n \<noteq> p"
proof -
  show "((p + 1) mod n + n - 1 - Suc k) mod n = (p + n - 1 - k) mod n"
    using assms by (cases "p + 1 = n") (auto simp: mod_if)
  show "(p + n - 1 - k) mod n \<noteq> p"
    using assms by (auto simp: mod_if)
qed

interpretation ring: delay_line ring_good "length \<circ> fst" ring_push ring_tap
proof
  fix h :: "'a list \<times> nat" and x k
  assume good: "ring_good h"
  then show "ring_good (ring_push x h)" "(length \<circ> fst) (ring_push x h) = (length \<circ> fst) h"
    by (simp_all add: ring_good_def ring_push_def mod_less_divisor [OF le_less_trans [OF zero_le]])
  show "ring_tap (ring_push x h) 0 = x"
    using good ring_index_newest [of "snd h" "length (fst h)"]
    by (simp add: ring_tap_def ring_push_def ring_good_def)
  show "ring_tap (ring_push x h) (Suc k) = ring_tap h k" if "Suc k < (length \<circ> fst) h"
    using good that ring_index_older [of "snd h" "length (fst h)" k]
    by (simp add: ring_tap_def ring_push_def ring_good_def)
qed

end
