(* ===== verification/Resample.thy ===== *)
theory Resample
  imports Floats
begin

text \<open>
  The polyphase rational resampler (\<open>frontend/resample.rs\<close>) and the filter design it rests on
  (\<open>design_lowpass\<close> of \<open>frontend/fir.rs\<close>), over arbitrary floating-point arithmetic; the direct form
  it optimises, and their equivalence for every way of cutting the input into blocks.
\<close>

section \<open>Filter design\<close>

definition lowpass_tap :: "'n fmath \<Rightarrow> nat \<Rightarrow> 'n \<Rightarrow> nat \<Rightarrow> 'n" where
  "lowpass_tap F m fc i =
     (let two = f_lit F ''2.0''; n = f_sub F (f_nat F i) (f_div F (f_nat F m) two);
          sinc = (if f_eq F n (f_zero F) then f_mul F two fc
            else f_div F (f_sin F (f_mul F (f_mul F (f_mul F two (f_pi F)) fc) n)) (f_mul F (f_pi F) n));
          w = f_sub F (f_lit F ''0.54'') (f_mul F (f_lit F ''0.46'')
            (f_cos F (f_div F (f_mul F (f_mul F two (f_pi F)) (f_nat F i)) (f_nat F m))))
      in f_mul F sinc w)"

definition design_lowpass :: "'n fmath \<Rightarrow> nat \<Rightarrow> 'n \<Rightarrow> 'n \<Rightarrow> 'n list" where
  "design_lowpass F num_taps cutoff rate =
     (let fc = f_div F cutoff rate; h = map (lowpass_tap F (num_taps - 1) fc) [0..<num_taps]; total = f_sum F h
      in map (\<lambda>x. f_div F x total) h)"

section \<open>The resampler\<close>

record 'n resampler =
  rs_up :: nat
  rs_down :: nat
  rs_phases :: "'n list list"
  rs_taps :: nat
  rs_hist :: "'n list"
  rs_pos :: nat
  rs_phase :: nat
  rs_pass :: bool

fun rust_gcd :: "nat \<Rightarrow> nat \<Rightarrow> nat" where
  "rust_gcd a b = (if b = 0 then a else rust_gcd b (a mod b))"

declare rust_gcd.simps [simp del]

lemma rust_gcd_gcd: "rust_gcd a b = gcd a b"
proof (induction a b rule: rust_gcd.induct)
  case (1 a b)
  then show ?case by (simp add: rust_gcd.simps [of a b] gcd_red_nat [of a b])
qed

text \<open>The taps dealt out to the sub-filters, and the sub-filters brought to one length.\<close>

fun deal :: "nat \<Rightarrow> nat \<Rightarrow> 'n list \<Rightarrow> 'n list list \<Rightarrow> 'n list list" where
  "deal up i [] ps = ps"
| "deal up i (t # ts) ps = deal up (Suc i) ts (ps[i mod up := ps ! (i mod up) @ [t]])"

definition resize :: "nat \<Rightarrow> 'a \<Rightarrow> 'a list \<Rightarrow> 'a list" where
  "resize n x xs = take n xs @ replicate (n - length xs) x"

definition prototype :: "'n fmath \<Rightarrow> nat \<Rightarrow> nat \<Rightarrow> nat \<Rightarrow> 'n list" where
  "prototype F up down taps =
     (let n = up * taps; len = (if even n then n + 1 else n); cutoff = f_div F (f_lit F ''0.5'') (f_nat F (max up down))
      in map (\<lambda>t. f_mul F t (f_nat F up)) (design_lowpass F len cutoff (f_one F)))"

text \<open>\<open>None\<close>: the assertion of \<open>Resampler::new\<close> panics.\<close>

definition resampler_new :: "'n fmath \<Rightarrow> u32 \<Rightarrow> u32 \<Rightarrow> nat \<Rightarrow> 'n resampler option" where
  "resampler_new F in_rate out_rate taps =
     (if \<not> (0 < in_rate \<and> 0 < out_rate \<and> 0 < taps) then None
      else
        (let g = rust_gcd (unat in_rate) (unat out_rate); up = unat out_rate div g; down = unat in_rate div g
         in if up = 1 \<and> down = 1
            then Some \<lparr>rs_up = up, rs_down = down, rs_phases = [], rs_taps = 0, rs_hist = [], rs_pos = 0,
              rs_phase = 0, rs_pass = True\<rparr>
            else
              (let phases = deal up 0 (prototype F up down taps) (replicate up []);
                   n = fold max (map length phases) 0
               in Some \<lparr>rs_up = up, rs_down = down, rs_phases = map (resize n (f_zero F)) phases, rs_taps = n,
                    rs_hist = replicate n (f_zero F), rs_pos = 0, rs_phase = 0, rs_pass = False\<rparr>)))"

definition push_input :: "'n \<Rightarrow> 'n resampler \<Rightarrow> 'n resampler" where
  "push_input x r = r\<lparr>rs_hist := (rs_hist r)[rs_pos r := x], rs_pos := (rs_pos r + 1) mod rs_taps r\<rparr>"

fun convolve :: "'n fmath \<Rightarrow> (nat \<Rightarrow> 'n) \<Rightarrow> nat \<Rightarrow> 'n list \<Rightarrow> 'n \<Rightarrow> 'n" where
  "convolve F x k [] acc = acc"
| "convolve F x k (h # hs) acc = convolve F x (Suc k) hs (f_add F acc (f_mul F h (x k)))"

definition phase_output :: "'n fmath \<Rightarrow> 'n resampler \<Rightarrow> nat \<Rightarrow> 'n" where
  "phase_output F r p = convolve F (\<lambda>k. rs_hist r ! ((rs_pos r + rs_taps r - 1 - k) mod rs_taps r)) 0
     (rs_phases r ! p) (f_zero F)"

text \<open>The outputs due before the next input; a zero stride would never end (\<open>None\<close>).\<close>

function emit_phases :: "'n fmath \<Rightarrow> 'n resampler \<Rightarrow> ('n resampler \<times> 'n list) option" where
  "emit_phases F r =
     (if rs_phase r < rs_up r
      then if rs_down r = 0 then None
        else map_option (map_prod id (Cons (phase_output F r (rs_phase r))))
          (emit_phases F (r\<lparr>rs_phase := rs_phase r + rs_down r\<rparr>))
      else Some (r\<lparr>rs_phase := rs_phase r - rs_up r\<rparr>, []))"
  by pat_completeness auto
termination
  by (relation "measure (\<lambda>(F, r). rs_up r - rs_phase r)") auto

declare emit_phases.simps [simp del]

fun resample_all :: "'n fmath \<Rightarrow> 'n list \<Rightarrow> 'n resampler \<Rightarrow> ('n resampler \<times> 'n list) option" where
  "resample_all F [] r = Some (r, [])"
| "resample_all F (x # xs) r = (case emit_phases F (push_input x r) of
     None \<Rightarrow> None
   | Some (r1, ys) \<Rightarrow> map_option (map_prod id ((@) ys)) (resample_all F xs r1))"

definition resample_block :: "'n fmath \<Rightarrow> 'n list \<Rightarrow> 'n resampler \<Rightarrow> ('n resampler \<times> 'n list) option" where
  "resample_block F xs r = (if rs_pass r then Some (r, xs) else resample_all F xs r)"

text \<open>A stream of blocks, one call of \<open>process\<close> for each.\<close>

fun resample_blocks :: "'n fmath \<Rightarrow> 'n list list \<Rightarrow> 'n resampler \<Rightarrow> ('n resampler \<times> 'n list) option" where
  "resample_blocks F [] r = Some (r, [])"
| "resample_blocks F (b # bs) r = (case resample_block F b r of
     None \<Rightarrow> None
   | Some (r1, ys) \<Rightarrow> map_option (map_prod id ((@) ys)) (resample_blocks F bs r1))"

section \<open>The complex resampler\<close>

record 'n cresampler =
  cr_i :: "'n resampler"
  cr_q :: "'n resampler"

definition cresampler_new :: "'n fmath \<Rightarrow> u32 \<Rightarrow> u32 \<Rightarrow> nat \<Rightarrow> 'n cresampler option" where
  "cresampler_new F in_rate out_rate taps = (case resampler_new F in_rate out_rate taps of
     None \<Rightarrow> None | Some i \<Rightarrow> map_option (\<lambda>q. \<lparr>cr_i = i, cr_q = q\<rparr>) (resampler_new F in_rate out_rate taps))"

definition cresample_block :: "'n fmath \<Rightarrow> 'n cplx list \<Rightarrow> 'n cresampler \<Rightarrow> ('n cresampler \<times> 'n cplx list) option" where
  "cresample_block F zs r = (case resample_block F (map fst zs) (cr_i r) of
     None \<Rightarrow> None
   | Some (i, re) \<Rightarrow> (case resample_block F (map snd zs) (cr_q r) of
       None \<Rightarrow> None
     | Some (q, im) \<Rightarrow> Some (\<lparr>cr_i = i, cr_q = q\<rparr>, zip re im)))"

section \<open>The sub-filters hold the prototype\<close>

lemma length_deal [simp]: "length (deal up i ts ps) = length ps"
  by (induction ts arbitrary: i ps) simp_all

lemma deal_snoc:
  "deal up i (ts @ [t]) ps = (let q = deal up i ts ps; j = (i + length ts) mod up in q[j := q ! j @ [t]])"
  by (induction ts arbitrary: i ps) (simp_all add: Let_def)

text \<open>How many taps sub-filter \<open>p\<close> gets of \<open>n\<close>.\<close>

definition share :: "nat \<Rightarrow> nat \<Rightarrow> nat \<Rightarrow> nat" where
  "share up n p = (n + up - 1 - p) div up"

lemma div_at: "x = r + q * up \<Longrightarrow> r < up \<Longrightarrow> x div up = (q :: nat)"
  by simp

lemma share_Suc:
  assumes "p < up"
  shows "share up (Suc n) p = (if p = n mod up then Suc (share up n p) else share up n p)"
    and "p = n mod up \<Longrightarrow> p + share up n p * up = n"
proof -
  let ?q = "n div up" and ?m = "n mod up"
  have n: "n = ?q * up + ?m" by simp
  have m: "?m < up" using assms by simp
  have at: "share up k p = (if p < k mod up then Suc (k div up) else k div up)" for k
  proof -
    have k: "k = k div up * up + k mod up" by simp
    have le: "k mod up < up" using assms by simp
    show ?thesis
    proof (cases "p < k mod up")
      case True
      then have "k + up - 1 - p = (k mod up - 1 - p) + Suc (k div up) * up"
        using k assms by simp
      moreover have "k mod up - 1 - p < up" using le by simp
      ultimately show ?thesis using True by (simp only: share_def div_at if_True)
    next
      case False
      then have "k + up - 1 - p = (up - 1 - p + k mod up) + k div up * up"
        using k assms by simp
      moreover have "up - 1 - p + k mod up < up" using False assms by simp
      ultimately show ?thesis using False by (simp only: share_def div_at if_False)
    qed
  qed
  show "share up (Suc n) p = (if p = ?m then Suc (share up n p) else share up n p)"
  proof (cases "p = ?m")
    case True
    then show ?thesis using at [of n] at [of "Suc n"] m by (auto simp: mod_Suc div_Suc)
  next
    case False
    then show ?thesis using at [of n] at [of "Suc n"] m assms by (auto simp: mod_Suc div_Suc)
  qed
  show "p + share up n p * up = n" if "p = ?m"
    using at [of n] that n by (metis add.commute nat_less_le)
qed

lemma deal_bank:
  assumes "p < up"
  shows "deal up 0 ts (replicate up []) ! p = map (\<lambda>k. ts ! (p + k * up)) [0..<share up (length ts) p]"
proof (induction ts rule: rev_induct)
  case Nil
  from assms show ?case by (simp add: share_def)
next
  case (snoc t ts)
  let ?n = "length ts"
  have old: "map (\<lambda>k. (ts @ [t]) ! (p + k * up)) [0..<share up ?n p] = map (\<lambda>k. ts ! (p + k * up)) [0..<share up ?n p]"
  proof (rule map_cong [OF refl])
    fix k assume "k \<in> set [0..<share up ?n p]"
    then have "Suc k * up \<le> share up ?n p * up" by (intro mult_le_mono) simp_all
    also have "\<dots> \<le> ?n + up - 1 - p" by (simp add: share_def)
    finally have "p + k * up < ?n" using assms by simp
    then show "(ts @ [t]) ! (p + k * up) = ts ! (p + k * up)" by (simp add: nth_append)
  qed
  show ?case
    using share_Suc [OF assms, of ?n] snoc old assms
    by (auto simp: deal_snoc Let_def nth_append)
qed

lemma share_mono: "p \<le> q \<Longrightarrow> share up n q \<le> share up n p"
  by (simp add: share_def div_le_mono)

lemma fold_max_ge: "(a :: nat) \<le> fold max xs a"
proof (induction xs arbitrary: a)
  case (Cons x xs)
  from Cons [of "max x a"] show ?case by simp
qed simp

lemma fold_max_le: "x \<in> set xs \<Longrightarrow> x \<le> fold max xs (a :: nat)"
proof (induction xs arbitrary: a)
  case (Cons y xs)
  with fold_max_ge [of "max y a" xs] show ?case by auto
qed simp

lemma fold_max_least: "(\<forall>x\<in>set xs. x \<le> b) \<Longrightarrow> a \<le> b \<Longrightarrow> fold max xs a \<le> (b :: nat)"
  by (induction xs arbitrary: a) simp_all

section \<open>Stepping through the outputs\<close>

lemma filter_upt_skip: "i \<le> k \<Longrightarrow> (\<And>p. i \<le> p \<Longrightarrow> p < k \<Longrightarrow> \<not> P p) \<Longrightarrow> filter P [i..<j] = filter P [k..<j]"
proof (cases "k \<le> j")
  case True
  assume "i \<le> k" "\<And>p. i \<le> p \<Longrightarrow> p < k \<Longrightarrow> \<not> P p"
  moreover from True \<open>i \<le> k\<close> have "[i..<j] = [i..<k] @ [k..<j]"
    using upt_add_eq_append [of i k "j - k"] by simp
  ultimately show ?thesis by (auto simp: filter_empty_conv)
qed (auto simp: filter_empty_conv)

lemma next_multiple:
  fixes d a p q :: nat
  assumes "d dvd a + p" "p < q" "q < p + d"
  shows "\<not> d dvd a + q"
proof
  assume "d dvd a + q"
  then have "d dvd (a + q) - (a + p)" using assms(1) by (rule dvd_diff_nat)
  with assms(2,3) show False by (auto dest: dvd_imp_le)
qed

lemma phase_output_phase [simp]: "phase_output F (r\<lparr>rs_phase := q\<rparr>) = phase_output F r"
  by (rule ext) (simp add: phase_output_def)

text \<open>With \<open>a\<close> the up-sampled time of an input, the loop emits at the multiples of the stride.\<close>

lemma emit_phases_result:
  assumes "0 < rs_down r" "rs_down r dvd a + rs_phase r"
  shows "\<exists>q. emit_phases F r = Some (r\<lparr>rs_phase := q\<rparr>,
      map (phase_output F r) (filter (\<lambda>p. rs_down r dvd a + p) [rs_phase r..<rs_up r])) \<and>
    rs_down r dvd a + rs_up r + q \<and> (q < rs_down r \<or> q + rs_up r = rs_phase r)"
  using assms
proof (induction F r rule: emit_phases.induct)
  case (1 F r)
  show ?case
  proof (cases "rs_phase r < rs_up r")
    case True
    let ?r = "r\<lparr>rs_phase := rs_phase r + rs_down r\<rparr>"
    have "rs_down r dvd a + (rs_phase r + rs_down r)" using "1.prems"(2) by (simp add: add.assoc [symmetric])
    with "1.IH" [OF True] "1.prems" obtain q where q:
      "emit_phases F ?r = Some (r\<lparr>rs_phase := q\<rparr>,
        map (phase_output F r) (filter (\<lambda>p. rs_down r dvd a + p) [rs_phase r + rs_down r..<rs_up r]))"
      "rs_down r dvd a + rs_up r + q" "q < rs_down r \<or> q + rs_up r = rs_phase r + rs_down r"
      by fastforce
    have skip: "filter (\<lambda>p. rs_down r dvd a + p) [Suc (rs_phase r)..<rs_up r] =
        filter (\<lambda>p. rs_down r dvd a + p) [rs_phase r + rs_down r..<rs_up r]"
      using "1.prems" by (intro filter_upt_skip next_multiple) auto
    have "q < rs_down r" using q(3) True by auto
    with q skip True "1.prems" show ?thesis
      by (intro exI [of _ q]) (simp add: emit_phases.simps [of F r] upt_conv_Cons)
  next
    case False
    with "1.prems" show ?thesis
      by (intro exI [of _ "rs_phase r - rs_up r"]) (simp add: emit_phases.simps [of F r])
  qed
qed

section \<open>The direct form\<close>

text \<open>
  The output at up-sampled time \<open>t\<close> of the stream with \<open>up - 1\<close> zeros after every sample, filtered by
  the prototype: only every \<open>up\<close>th tap meets a sample.
\<close>

definition interpolated :: "'n fmath \<Rightarrow> nat \<Rightarrow> 'n list \<Rightarrow> nat \<Rightarrow> 'n list \<Rightarrow> nat \<Rightarrow> 'n" where
  "interpolated F up proto n xs t = convolve F (\<lambda>k. if k \<le> t div up then xs ! (t div up - k) else f_zero F) 0
     (map (\<lambda>k. if t mod up + k * up < length proto then proto ! (t mod up + k * up) else f_zero F) [0..<n]) (f_zero F)"

definition decimated :: "nat \<Rightarrow> nat \<Rightarrow> nat list" where
  "decimated down m = filter (\<lambda>t. down dvd t) [0..<m]"

lemma convolve_cong:
  "(\<And>j. k \<le> j \<Longrightarrow> j < k + length hs \<Longrightarrow> x j = y j) \<Longrightarrow> convolve F x k hs acc = convolve F y k hs acc"
proof (induction hs arbitrary: k acc)
  case (Cons h hs)
  have "x k = y k" by (rule Cons.prems) simp_all
  with Cons.IH [of "Suc k"] Cons.prems show ?case by simp
qed simp

text \<open>The states of a resampler made for \<open>up\<close>, \<open>down\<close> and \<open>proto\<close> after the inputs \<open>xs\<close>.\<close>

definition resampling :: "'n fmath \<Rightarrow> nat \<Rightarrow> nat \<Rightarrow> nat \<Rightarrow> 'n list \<Rightarrow> 'n list \<Rightarrow> 'n resampler \<Rightarrow> bool" where
  "resampling F up down n proto xs r \<longleftrightarrow> \<not> rs_pass r \<and> rs_up r = up \<and> rs_down r = down \<and> rs_taps r = n \<and>
     0 < up \<and> 0 < down \<and> 0 < n \<and> length (rs_phases r) = up \<and>
     (\<forall>p<up. rs_phases r ! p = map (\<lambda>k. if p + k * up < length proto then proto ! (p + k * up) else f_zero F) [0..<n]) \<and>
     (rs_hist r, rs_pos r) = fold ring_push xs (replicate n (f_zero F), 0) \<and>
     rs_phase r < down \<and> down dvd length xs * up + rs_phase r"

lemma ring_good_zeros: "0 < n \<Longrightarrow> ring_good (replicate n z, 0)"
  by (simp add: ring_good_def)

lemma resampling_ring:
  assumes "resampling F up down n proto xs r"
  shows "length (rs_hist r) = n" "rs_pos r < n"
proof -
  from assms have ring: "(rs_hist r, rs_pos r) = fold ring_push xs (replicate n (f_zero F), 0)" and n: "0 < n"
    by (simp_all add: resampling_def)
  from ring.fold_good [OF ring_good_zeros [OF n], of xs "f_zero F", folded ring]
  show "length (rs_hist r) = n" "rs_pos r < n"
    by (simp_all add: ring_good_def)
qed

lemma phase_output_direct:
  assumes r: "resampling F up down n proto xs r" and p: "p < up"
  shows "phase_output F (push_input x r) p = interpolated F up proto n (xs @ x # zs) (length xs * up + p)"
proof -
  let ?z = "(replicate n (f_zero F), 0)"
  note len = resampling_ring [OF r]
  from r have n: "0 < n" and ring: "(rs_hist r, rs_pos r) = fold ring_push xs ?z"
    and bank: "rs_phases r ! p = map (\<lambda>k. if p + k * up < length proto then proto ! (p + k * up) else f_zero F) [0..<n]"
    using p by (simp_all add: resampling_def)
  have t: "(length xs * up + p) div up = length xs" "(length xs * up + p) mod up = p"
    using p by simp_all
  have push: "(rs_hist (push_input x r), rs_pos (push_input x r)) = fold ring_push (xs @ [x]) ?z"
    using len r by (simp add: ring [symmetric] push_input_def ring_push_def resampling_def)
  have "rs_hist (push_input x r) ! ((rs_pos (push_input x r) + n - 1 - k) mod n) =
      (if k \<le> length xs then (xs @ x # zs) ! (length xs - k) else f_zero F)" if "k < n" for k
  proof -
    have zero: "ring_tap ?z j = f_zero F" for j
      using n by (simp add: ring_tap_def)
    have "ring_tap (fold ring_push (xs @ [x]) ?z) k =
        (if k < length (xs @ [x]) then (xs @ [x]) ! (length (xs @ [x]) - 1 - k) else ring_tap ?z (k - length (xs @ [x])))"
      using that by (intro ring.tap_history ring_good_zeros [OF n]) simp
    also have "\<dots> = (if k \<le> length xs then (xs @ x # zs) ! (length xs - k) else f_zero F)"
      unfolding zero by (simp add: nth_append)
    finally have "ring_tap (rs_hist (push_input x r), rs_pos (push_input x r)) k = \<dots>"
      unfolding push .
    moreover have "length (rs_hist (push_input x r)) = n" using len by (simp add: push_input_def)
    ultimately show ?thesis by (simp add: ring_tap_def)
  qed
  moreover have "rs_taps (push_input x r) = n" "rs_phases (push_input x r) = rs_phases r"
    using r by (simp_all add: push_input_def resampling_def)
  ultimately show ?thesis
    unfolding phase_output_def interpolated_def t by (simp add: bank) (rule convolve_cong, simp)
qed

lemma filter_shift: "filter P [a..<a + m] = map (\<lambda>p. a + p) (filter (\<lambda>p. P (a + p)) [0..<m])"
proof -
  have "[a..<a + m] = map (\<lambda>p. a + p) [0..<m]" by (induction m) simp_all
  then show ?thesis by (simp add: filter_map comp_def)
qed

lemma resample_step:
  assumes r: "resampling F up down n proto xs r"
  shows "\<exists>r1. emit_phases F (push_input x r) = Some (r1, map (interpolated F up proto n (xs @ x # zs))
      (filter (\<lambda>t. down dvd t) [length xs * up..<length xs * up + up])) \<and>
    resampling F up down n proto (xs @ [x]) r1"
proof -
  let ?a = "length xs * up" and ?r = "push_input x r"
  from r have sizes: "0 < down" "rs_down ?r = down" "rs_up ?r = up" "rs_phase ?r = rs_phase r" "rs_phase r < down"
    and next_out: "down dvd ?a + rs_phase r"
    by (simp_all add: resampling_def push_input_def)
  from emit_phases_result [of ?r ?a F] sizes next_out obtain q where q:
    "emit_phases F ?r = Some (?r\<lparr>rs_phase := q\<rparr>,
       map (phase_output F ?r) (filter (\<lambda>p. down dvd ?a + p) [rs_phase r..<up]))"
    "down dvd ?a + up + q" "q < down \<or> q + up = rs_phase r"
    by auto
  have "filter (\<lambda>p. down dvd ?a + p) [rs_phase r..<up] = filter (\<lambda>p. down dvd ?a + p) [0..<up]"
  proof (rule filter_upt_skip [symmetric])
    fix p assume "p < rs_phase r"
    with sizes(5) next_multiple [of down ?a p "rs_phase r"] next_out show "\<not> down dvd ?a + p" by auto
  qed simp
  then have "map (phase_output F ?r) (filter (\<lambda>p. down dvd ?a + p) [rs_phase r..<up]) =
      map (interpolated F up proto n (xs @ x # zs)) (filter (\<lambda>t. down dvd t) [?a..<?a + up])"
    using phase_output_direct [OF r] by (simp add: filter_shift)
  moreover have "resampling F up down n proto (xs @ [x]) (?r\<lparr>rs_phase := q\<rparr>)"
  proof -
    from r have ring: "fold ring_push xs (replicate n (f_zero F), 0) = (rs_hist r, rs_pos r)"
      by (simp add: resampling_def)
    have "q < down" using q(3) sizes(5) by auto
    then show ?thesis
      using r q(2) resampling_ring [OF r] unfolding resampling_def
      by (simp add: ring push_input_def ring_push_def add.commute)
  qed
  ultimately show ?thesis using q(1) by simp
qed

lemma resample_all_result:
  assumes "resampling F up down n proto ys r"
  shows "\<exists>r'. resample_all F xs r = Some (r', map (interpolated F up proto n (ys @ xs @ zs))
      (filter (\<lambda>t. down dvd t) [length ys * up..<(length ys + length xs) * up])) \<and>
    resampling F up down n proto (ys @ xs) r'"
  using assms
proof (induction xs arbitrary: ys r)
  case (Cons x xs)
  from resample_step [OF Cons.prems, of x "xs @ zs"] obtain r1 where r1:
    "emit_phases F (push_input x r) = Some (r1, map (interpolated F up proto n (ys @ x # xs @ zs))
       (filter (\<lambda>t. down dvd t) [length ys * up..<length ys * up + up]))"
    "resampling F up down n proto (ys @ [x]) r1"
    by blast
  from Cons.IH [OF r1(2)] obtain r' where r':
    "resample_all F xs r1 = Some (r', map (interpolated F up proto n (ys @ x # xs @ zs))
       (filter (\<lambda>t. down dvd t) [length ys * up + up..<(Suc (length ys) + length xs) * up]))"
    "resampling F up down n proto (ys @ x # xs) r'"
    by (auto simp: add.commute)
  have "[length ys * up..<(Suc (length ys) + length xs) * up] =
      [length ys * up..<length ys * up + up] @ [length ys * up + up..<(Suc (length ys) + length xs) * up]"
    using upt_add_eq_append [of "length ys * up" "length ys * up + up" "length xs * up"]
    by (simp add: algebra_simps)
  with r1(1) r' show ?case by simp
qed simp

lemma resample_blocks_result:
  assumes "resampling F up down n proto ys r"
  shows "\<exists>r'. resample_blocks F bs r = Some (r', map (interpolated F up proto n (ys @ concat bs))
      (filter (\<lambda>t. down dvd t) [length ys * up..<(length ys + length (concat bs)) * up])) \<and>
    resampling F up down n proto (ys @ concat bs) r'"
  using assms
proof (induction bs arbitrary: ys r)
  case (Cons b bs)
  from resample_all_result [OF Cons.prems, of b "concat bs"] obtain r1 where r1:
    "resample_all F b r = Some (r1, map (interpolated F up proto n (ys @ b @ concat bs))
       (filter (\<lambda>t. down dvd t) [length ys * up..<(length ys + length b) * up]))"
    "resampling F up down n proto (ys @ b) r1"
    by blast
  from Cons.IH [OF r1(2)] obtain r' where r':
    "resample_blocks F bs r1 = Some (r', map (interpolated F up proto n (ys @ b @ concat bs))
       (filter (\<lambda>t. down dvd t) [(length ys + length b) * up..<(length ys + length b + length (concat bs)) * up]))"
    "resampling F up down n proto (ys @ b @ concat bs) r'"
    by auto
  have "[length ys * up..<(length ys + length b + length (concat bs)) * up] = [length ys * up..<(length ys + length b) * up] @
      [(length ys + length b) * up..<(length ys + length b + length (concat bs)) * up]"
    using upt_add_eq_append [of "length ys * up" "(length ys + length b) * up" "length (concat bs) * up"]
    by (simp add: algebra_simps)
  moreover have "\<not> rs_pass r" using Cons.prems by (simp add: resampling_def)
  ultimately show ?case using r1(1) r' by (simp add: resample_block_def add.assoc)
qed simp

section \<open>A new resampler\<close>

lemma share_iff: "p < up \<Longrightarrow> k < share up n p \<longleftrightarrow> p + k * up < n"
  unfolding share_def less_eq_Suc_le [of k] by (subst less_eq_div_iff_mult_less_eq) auto

lemma resize_bank:
  assumes "p < up" "share up (length ts) p \<le> n"
  shows "resize n z (map (\<lambda>k. ts ! (p + k * up)) [0..<share up (length ts) p]) =
    map (\<lambda>k. if p + k * up < length ts then ts ! (p + k * up) else z) [0..<n]"
proof (rule nth_equalityI)
  let ?c = "share up (length ts) p"
  show "length (resize n z (map (\<lambda>k. ts ! (p + k * up)) [0..<?c])) =
      length (map (\<lambda>k. if p + k * up < length ts then ts ! (p + k * up) else z) [0..<n])"
    using assms(2) by (simp add: resize_def)
  fix k assume "k < length (resize n z (map (\<lambda>k. ts ! (p + k * up)) [0..<?c]))"
  then have "k < n" using assms(2) by (simp add: resize_def)
  moreover note share_iff [OF assms(1), of k "length ts"]
  ultimately show "resize n z (map (\<lambda>k. ts ! (p + k * up)) [0..<?c]) ! k =
      map (\<lambda>k. if p + k * up < length ts then ts ! (p + k * up) else z) [0..<n] ! k"
    using assms(2) by (cases "k < ?c") (simp_all add: resize_def nth_append)
qed

lemma length_prototype: "up * taps \<le> length (prototype F up down taps)"
  by (simp add: prototype_def design_lowpass_def Let_def)

text \<open>The ratio in lowest terms.\<close>

definition up_factor :: "u32 \<Rightarrow> u32 \<Rightarrow> nat" where
  "up_factor in_rate out_rate = unat out_rate div gcd (unat in_rate) (unat out_rate)"

definition down_factor :: "u32 \<Rightarrow> u32 \<Rightarrow> nat" where
  "down_factor in_rate out_rate = unat in_rate div gcd (unat in_rate) (unat out_rate)"

lemma factors:
  assumes "0 < a" "0 < b"
  shows "0 < up_factor a b" "0 < down_factor a b" "up_factor a b = 1 \<and> down_factor a b = 1 \<longleftrightarrow> a = b"
    "up_factor a b * unat a = down_factor a b * unat b"
proof -
  let ?g = "gcd (unat a) (unat b)"
  from assms have pos: "0 < unat a" "0 < unat b" by (simp_all add: unat_gt_0)
  have a: "unat a = down_factor a b * ?g" and b: "unat b = up_factor a b * ?g"
    by (simp_all add: down_factor_def up_factor_def)
  from a pos(1) show down: "0 < down_factor a b" by (cases "down_factor a b = 0") auto
  from b pos(2) show up: "0 < up_factor a b" by (cases "up_factor a b = 0") auto
  show "up_factor a b = 1 \<and> down_factor a b = 1 \<longleftrightarrow> a = b"
  proof
    assume "up_factor a b = 1 \<and> down_factor a b = 1"
    with a b have "unat a = unat b" by simp
    then show "a = b" by (rule unat_inject)
  qed (use assms pos in \<open>simp add: up_factor_def down_factor_def\<close>)
  show "up_factor a b * unat a = down_factor a b * unat b"
    by (metis a b mult.assoc mult.commute)
qed

lemma resampler_new_direct:
  fixes F :: "'n fmath" and a b :: u32 and taps :: nat
  assumes "0 < a" "0 < b" "0 < taps" "a \<noteq> b"
  defines "up \<equiv> up_factor a b" and "down \<equiv> down_factor a b"
  defines "proto \<equiv> prototype F up down taps"
  shows "\<exists>r. resampler_new F a b taps = Some r \<and> resampling F up down (share up (length proto) 0) proto [] r"
proof -
  let ?ps = "deal up 0 proto (replicate up [])" and ?n = "fold max (map length (deal up 0 proto (replicate up []))) 0"
  note f = factors [OF assms(1,2), folded up_def down_def]
  have at: "?ps ! p = map (\<lambda>k. proto ! (p + k * up)) [0..<share up (length proto) p]" if "p < up" for p
    by (rule deal_bank [OF that])
  have le: "share up (length proto) p \<le> ?n" if "p < up" for p
  proof -
    have "length (?ps ! p) \<in> set (map length ?ps)" using that by simp
    from fold_max_le [OF this] at [OF that] show ?thesis by simp
  qed
  have n: "0 < ?n"
  proof -
    have "0 < up * taps" using f(1) assms(3) by simp
    also have "\<dots> \<le> length proto" unfolding proto_def by (rule length_prototype)
    finally have "0 < length proto" .
    then have "0 < share up (length proto) 0" using share_iff [of 0 up 0] f(1) by simp
    with le [OF f(1)] show ?thesis by simp
  qed
  have banks: "map (resize ?n (f_zero F)) ?ps ! p =
      map (\<lambda>k. if p + k * up < length proto then proto ! (p + k * up) else f_zero F) [0..<?n]" if "p < up" for p
    using resize_bank [OF that le [OF that]] at [OF that] that by simp
  have "resampler_new F a b taps = Some \<lparr>rs_up = up, rs_down = down, rs_phases = map (resize ?n (f_zero F)) ?ps,
      rs_taps = ?n, rs_hist = replicate ?n (f_zero F), rs_pos = 0, rs_phase = 0, rs_pass = False\<rparr>"
    using assms(1-4) f(3)
    by (simp add: resampler_new_def rust_gcd_gcd proto_def Let_def up_def down_def up_factor_def down_factor_def)
  moreover have "resampling F up down ?n proto [] \<lparr>rs_up = up, rs_down = down, rs_phases = map (resize ?n (f_zero F)) ?ps,
      rs_taps = ?n, rs_hist = replicate ?n (f_zero F), rs_pos = 0, rs_phase = 0, rs_pass = False\<rparr>"
    using n f(1,2) banks by (simp add: resampling_def)
  moreover have "?n = share up (length proto) 0"
  proof (rule antisym)
    have "length q \<le> share up (length proto) 0" if "q \<in> set ?ps" for q
      using that at share_mono [of 0] by (auto simp: in_set_conv_nth)
    then show "?n \<le> share up (length proto) 0" by (intro fold_max_least) auto
  qed (rule le [OF f(1)])
  ultimately show ?thesis by auto
qed

lemma decimated_length: "0 < d \<Longrightarrow> length (decimated d m) = (m + d - 1) div d"
proof (induction m)
  case (Suc m)
  with share_Suc(1) [of 0 d m] show ?case
    by (auto simp: decimated_def share_def dvd_eq_mod_eq_0 split: if_splits)
qed (simp add: decimated_def)

lemma resample_blocks_pass: "rs_pass r \<Longrightarrow> resample_blocks F bs r = Some (r, concat bs)"
  by (induction bs) (simp_all add: resample_block_def)

text \<open>Ceilings of a ratio do not depend on common factors.\<close>

lemma share_scale: "0 < g \<Longrightarrow> 0 < d \<Longrightarrow> share (d * g) (n * g) 0 = share d n 0"
proof -
  assume "0 < g" "0 < d"
  then have "k < share (d * g) (n * g) 0 \<longleftrightarrow> k < share d n 0" for k
    using share_iff [of 0 "d * g" k "n * g"] share_iff [of 0 d k n] by (simp add: mult.assoc [symmetric])
  then show ?thesis by (metis linorder_neqE_nat less_irrefl)
qed

lemma output_count:
  assumes "0 < a" "0 < b"
  shows "length (decimated (down_factor a b) (n * up_factor a b)) = (n * unat b + unat a - 1) div unat a"
proof -
  let ?g = "gcd (unat a) (unat b)"
  from assms have pos: "0 < unat a" "0 < unat b" by (simp_all add: unat_gt_0)
  have a: "down_factor a b * ?g = unat a" and b: "n * up_factor a b * ?g = n * unat b"
    by (simp_all add: down_factor_def up_factor_def)
  have "share (down_factor a b * ?g) (n * up_factor a b * ?g) 0 = share (down_factor a b) (n * up_factor a b) 0"
    using factors(2) [OF assms] pos by (intro share_scale) simp_all
  then have "share (unat a) (n * unat b) 0 = share (down_factor a b) (n * up_factor a b) 0"
    unfolding a b .
  with decimated_length [OF factors(2) [OF assms], of "n * up_factor a b"] show ?thesis
    by (simp add: share_def)
qed

text \<open>
  C26: The polyphase resampler is the textbook one: for every cutting of the input stream into
  blocks, its output is the stream with zeros stuffed in between the samples, filtered by the whole
  prototype and decimated, of which it computes only the products that matter. \<open>n\<close> input samples at
  \<open>in_rate\<close> give the least number of output samples that reaches \<open>n * out_rate / in_rate\<close>, and equal
  rates pass the stream through. It holds whatever the arithmetic, rounding included, since the
  products are added in the same order.
\<close>

theorem resampler_is_direct_form:
  assumes "0 < in_rate" "0 < out_rate" "0 < taps"
  defines "up \<equiv> up_factor in_rate out_rate" and "down \<equiv> down_factor in_rate out_rate"
  shows "\<exists>r r' ys. resampler_new F in_rate out_rate taps = Some r \<and> resample_blocks F bs r = Some (r', ys) \<and>
    length ys = (length (concat bs) * unat out_rate + unat in_rate - 1) div unat in_rate \<and>
    (let proto = prototype F up down taps in
      ys = (if in_rate = out_rate then concat bs
        else map (interpolated F up proto ((length proto + up - 1) div up) (concat bs)) (decimated down (length (concat bs) * up))))"
proof (cases "in_rate = out_rate")
  case True
  then obtain r where r: "resampler_new F in_rate out_rate taps = Some r" "rs_pass r"
    using assms(1-3) factors(3) [OF assms(1,2)]
    by (auto simp: resampler_new_def rust_gcd_gcd Let_def up_factor_def down_factor_def)
  have "0 < unat in_rate" using assms(1) by (simp add: unat_gt_0)
  then have "length (concat bs) = (length (concat bs) * unat out_rate + unat in_rate - 1) div unat in_rate"
    using True share_scale [of "unat in_rate" 1 "length (concat bs)"] by (simp add: share_def)
  with r(1) resample_blocks_pass [OF r(2)] True show ?thesis by auto
next
  case False
  let ?proto = "prototype F up down taps"
  obtain r where r: "resampler_new F in_rate out_rate taps = Some r"
    "resampling F up down (share up (length ?proto) 0) ?proto [] r"
    using resampler_new_direct [OF assms(1-3) False] unfolding up_def down_def by blast
  from resample_blocks_result [OF r(2), of bs] obtain r' where
    "resample_blocks F bs r = Some (r', map (interpolated F up ?proto (share up (length ?proto) 0) (concat bs))
       (decimated down (length (concat bs) * up)))"
    by (auto simp: decimated_def)
  with r(1) False output_count [OF assms(1,2), of "length (concat bs)", folded up_def down_def] show ?thesis
    by (simp add: share_def Let_def)
qed

theorem resampler_is_direct_form_witness:
  "\<exists>r r' ys. resampler_new rat_math 3 2 1 = Some r \<and> resample_blocks rat_math [[1, 2], [3, 4, 5 :: rat]] r = Some (r', ys) \<and>
    length ys = 4"
  using resampler_is_direct_form [of 3 2 1 rat_math "[[1, 2], [3, 4, 5]]"] by (auto simp: Let_def)

end
