(* ===== verification/SdrDemod.thy ===== *)
theory SdrDemod
  imports Resample
begin

text \<open>
  The software receiver of the DSP crate (\<open>frontend/sdr_demod.rs\<close>) with its parts: oscillator and
  down-converter (\<open>osc.rs\<close>, \<open>nco.rs\<close>), power squelch (\<open>squelch.rs\<close>), detectors (\<open>detector.rs\<close>) and
  the sideband filter. IQ at the capture rate goes in, audio at the channel rate comes out.
\<close>

section \<open>Oscillator and down-converter\<close>

record oscillator =
  os_phase :: u32
  os_step :: u32

definition osc_table :: "'n fmath \<Rightarrow> nat \<Rightarrow> 'n \<times> 'n" where
  "osc_table F i = (let a = f_div F (f_mul F (f_tau F) (f_nat F i)) (f_lit F ''256.0'') in (f_cos F a, f_sin F a))"

definition step_for :: "'n fmath \<Rightarrow> 'n \<Rightarrow> 'n \<Rightarrow> u32" where
  "step_for F freq rate = f_to_u32 F (f_mul F (f_div F freq rate) (f_nat F (2 ^ 32)))"

definition osc_new :: "'n fmath \<Rightarrow> 'n \<Rightarrow> 'n \<Rightarrow> oscillator" where
  "osc_new F freq rate = \<lparr>os_phase = 0, os_step = step_for F freq rate\<rparr>"

definition osc_set_freq :: "'n fmath \<Rightarrow> 'n \<Rightarrow> 'n \<Rightarrow> oscillator \<Rightarrow> oscillator" where
  "osc_set_freq F freq rate o1 = o1\<lparr>os_step := step_for F freq rate\<rparr>"

definition osc_next :: "'n fmath \<Rightarrow> oscillator \<Rightarrow> oscillator \<times> ('n \<times> 'n)" where
  "osc_next F o1 = (o1\<lparr>os_phase := os_phase o1 + os_step o1\<rparr>, osc_table F (unat (drop_bit 24 (os_phase o1))))"

record 'n down_converter =
  dc_osc :: oscillator
  dc_rate :: 'n

definition nco_new :: "'n fmath \<Rightarrow> 'n \<Rightarrow> 'n \<Rightarrow> 'n down_converter" where
  "nco_new F tune rate = \<lparr>dc_osc = osc_new F tune rate, dc_rate = rate\<rparr>"

definition nco_retune :: "'n fmath \<Rightarrow> 'n \<Rightarrow> 'n down_converter \<Rightarrow> 'n down_converter" where
  "nco_retune F tune d = d\<lparr>dc_osc := osc_set_freq F tune (dc_rate d) (dc_osc d)\<rparr>"

definition nco_push :: "'n fmath \<Rightarrow> 'n down_converter \<Rightarrow> 'n \<Rightarrow> 'n down_converter \<times> 'n cplx" where
  "nco_push F d x = (case osc_next F (dc_osc d) of (o1, c, s) \<Rightarrow>
     (d\<lparr>dc_osc := o1\<rparr>, f_mul F x c, f_mul F (f_neg F x) s))"

definition nco_push_cplx :: "'n fmath \<Rightarrow> 'n down_converter \<Rightarrow> 'n cplx \<Rightarrow> 'n down_converter \<times> 'n cplx" where
  "nco_push_cplx F d z = (case osc_next F (dc_osc d) of (o1, c, s) \<Rightarrow>
     (d\<lparr>dc_osc := o1\<rparr>, f_add F (f_mul F (fst z) c) (f_mul F (snd z) s), f_sub F (f_mul F (snd z) c) (f_mul F (fst z) s)))"

section \<open>Squelch\<close>

record 'n squelch =
  sq_open_db :: 'n
  sq_close_db :: 'n
  sq_open :: bool
  sq_alpha :: 'n
  sq_power :: 'n

definition squelch_new :: "'n fmath \<Rightarrow> 'n \<Rightarrow> 'n \<Rightarrow> 'n squelch" where
  "squelch_new F threshold hysteresis = \<lparr>sq_open_db = threshold, sq_close_db = f_sub F threshold hysteresis,
     sq_open = False, sq_alpha = f_lit F ''0.5'', sq_power = f_zero F\<rparr>"

definition squelch_disabled :: "'n fmath \<Rightarrow> 'n squelch" where
  "squelch_disabled F = (squelch_new F (f_lit F ''-200.0'') (f_one F))\<lparr>sq_open := True\<rparr>"

definition squelch_observe :: "'n fmath \<Rightarrow> 'n squelch \<Rightarrow> 'n cplx list \<Rightarrow> 'n squelch \<times> bool" where
  "squelch_observe F s chan =
     (if chan = [] then (s, sq_open s)
      else
        (let inst = f_div F (f_sum F (map (c_norm_sqr F) chan)) (f_nat F (length chan));
             power = f_add F (f_mul F (sq_alpha s) inst) (f_mul F (f_sub F (f_one F) (sq_alpha s)) (sq_power s));
             db = f_mul F (f_lit F ''10.0'') (f_log10 F (f_add F power (f_lit F ''1e-12'')));
             is_open = (if sq_open s then \<not> f_lt F db (sq_close_db s) else f_lt F (sq_open_db s) db)
         in (s\<lparr>sq_power := power, sq_open := is_open\<rparr>, is_open)))"

section \<open>Detectors\<close>

type_synonym 'n discriminator = "'n cplx"

definition disc_new :: "'n fmath \<Rightarrow> 'n discriminator" where
  "disc_new F = (f_zero F, f_zero F)"

definition disc_push :: "'n fmath \<Rightarrow> 'n discriminator \<Rightarrow> 'n cplx \<Rightarrow> 'n discriminator \<times> 'n" where
  "disc_push F prev z = (let d = c_mul F z (c_conj F prev) in (z, f_atan2 F (snd d) (fst d)))"

record 'n dc_block =
  db_r :: 'n
  db_prev_x :: 'n
  db_prev_y :: 'n

definition dc_block_new :: "'n fmath \<Rightarrow> 'n \<Rightarrow> 'n dc_block" where
  "dc_block_new F r = \<lparr>db_r = r, db_prev_x = f_zero F, db_prev_y = f_zero F\<rparr>"

definition dc_block_default :: "'n fmath \<Rightarrow> 'n dc_block" where
  "dc_block_default F = dc_block_new F (f_lit F ''0.995'')"

definition dc_block_push :: "'n fmath \<Rightarrow> 'n dc_block \<Rightarrow> 'n \<Rightarrow> 'n dc_block \<times> 'n" where
  "dc_block_push F d x = (let y = f_add F (f_sub F x (db_prev_x d)) (f_mul F (db_r d) (db_prev_y d))
     in (d\<lparr>db_prev_x := x, db_prev_y := y\<rparr>, y))"

record 'n deemphasis =
  de_alpha :: 'n
  de_y :: 'n

definition deemphasis_new :: "'n fmath \<Rightarrow> 'n \<Rightarrow> 'n \<Rightarrow> 'n deemphasis" where
  "deemphasis_new F tau_us rate = (let dt = f_div F (f_lit F ''1.0e6'') rate
     in \<lparr>de_alpha = f_div F dt (f_add F tau_us dt), de_y = f_zero F\<rparr>)"

definition deemphasis_push :: "'n fmath \<Rightarrow> 'n deemphasis \<Rightarrow> 'n \<Rightarrow> 'n deemphasis \<times> 'n" where
  "deemphasis_push F d x = (let y = f_add F (de_y d) (f_mul F (de_alpha d) (f_sub F x (de_y d))) in (d\<lparr>de_y := y\<rparr>, y))"

section \<open>Sideband filter\<close>

record 'n sideband =
  sb_taps :: "'n cplx list"
  sb_hist :: "'n cplx list"
  sb_pos :: nat

definition ssb_taps :: nat where "ssb_taps = 129"

definition sideband_tap :: "'n fmath \<Rightarrow> 'n \<Rightarrow> 'n \<Rightarrow> nat \<Rightarrow> 'n \<Rightarrow> 'n cplx" where
  "sideband_tap F center rate k h =
     (let ph = f_div F (f_mul F (f_mul F (f_tau F) center) (f_nat F k)) rate in (f_mul F h (f_cos F ph), f_mul F h (f_sin F ph)))"

definition sideband_new :: "'n fmath \<Rightarrow> 'n \<Rightarrow> 'n \<Rightarrow> 'n sideband" where
  "sideband_new F rate sign =
     (let bw = f_lit F ''2800.0''; proto = design_lowpass F ssb_taps (f_div F bw (f_lit F ''2.0'')) rate;
          center = f_div F (f_mul F sign bw) (f_lit F ''2.0'');
          taps = map (\<lambda>(k, h). sideband_tap F center rate k h) (zip [0..<length proto] proto)
      in \<lparr>sb_taps = taps, sb_hist = replicate (length taps) (f_zero F, f_zero F), sb_pos = 0\<rparr>)"

fun c_convolve :: "'n fmath \<Rightarrow> (nat \<Rightarrow> 'n cplx) \<Rightarrow> nat \<Rightarrow> 'n cplx list \<Rightarrow> 'n cplx \<Rightarrow> 'n cplx" where
  "c_convolve F x k [] acc = acc"
| "c_convolve F x k (h # hs) acc = c_convolve F x (Suc k) hs (c_add F acc (c_mul F h (x k)))"

definition sideband_push :: "'n fmath \<Rightarrow> 'n sideband \<Rightarrow> 'n cplx \<Rightarrow> 'n sideband \<times> 'n" where
  "sideband_push F f z =
     (let n = length (sb_taps f); f1 = f\<lparr>sb_hist := (sb_hist f)[sb_pos f := z], sb_pos := (sb_pos f + 1) mod n\<rparr>;
          acc = c_convolve F (\<lambda>k. sb_hist f1 ! ((sb_pos f1 + n - 1 - k) mod n)) 0 (sb_taps f1) (f_zero F, f_zero F)
      in (f1, fst acc))"

section \<open>The receiver\<close>

datatype sdr_kind = KindNbfm | KindAm | KindWfm | KindUsb | KindLsb

datatype 'n backend =
    BackFm "'n discriminator" 'n "'n deemphasis option"
  | BackAm "'n dc_block"
  | BackSsb "'n sideband"

fun backend_push :: "'n fmath \<Rightarrow> 'n backend \<Rightarrow> 'n cplx \<Rightarrow> 'n backend \<times> 'n" where
  "backend_push F (BackFm disc gain deemph) z =
     (case disc_push F disc z of (disc1, x) \<Rightarrow>
        (let a = f_mul F x gain in case deemph of
           Some d \<Rightarrow> (case deemphasis_push F d a of (d1, y) \<Rightarrow> (BackFm disc1 gain (Some d1), y))
         | None \<Rightarrow> (BackFm disc1 gain None, a)))"
| "backend_push F (BackAm dc) z = (case dc_block_push F dc (c_norm F z) of (dc1, y) \<Rightarrow> (BackAm dc1, y))"
| "backend_push F (BackSsb filt) z = (case sideband_push F filt z of (f1, y) \<Rightarrow> (BackSsb f1, y))"

record 'n sdr_rx =
  sx_nco :: "'n down_converter"
  sx_front :: "'n cresampler"
  sx_squelch :: "'n squelch"
  sx_backend :: "'n backend"
  sx_if_rate :: u32
  sx_audio :: "'n resampler option"

text \<open>\<open>None\<close>: the channel rate is zero and the divisions panic.\<close>

definition wfm_if_rate :: "u32 \<Rightarrow> u32 \<Rightarrow> u32 option" where
  "wfm_if_rate capture channel =
     (if channel = 0 then None
      else
        (let want = max ((180000 + unat channel - 1) div unat channel) 1; cap = max (unat (capture div channel)) 1
         in Some (min (channel * of_nat (min want cap)) capture)))"

definition sdr_rx_new :: "'n fmath \<Rightarrow> sdr_kind \<Rightarrow> u32 \<Rightarrow> u32 \<Rightarrow> 'n \<Rightarrow> 'n \<Rightarrow> 'n squelch \<Rightarrow> 'n sdr_rx option" where
  "sdr_rx_new F kind capture channel offset deviation squelch =
     (case (if kind = KindWfm then wfm_if_rate capture channel else Some channel) of None \<Rightarrow> None
      | Some if_rate \<Rightarrow>
        (let r = f_nat F (unat if_rate);
             backend = (case kind of
                 KindNbfm \<Rightarrow> BackFm (disc_new F) (f_div F r (f_mul F (f_tau F) deviation)) None
               | KindWfm \<Rightarrow> BackFm (disc_new F) (f_div F r (f_mul F (f_tau F) (f_lit F ''75000.0''))) None
               | KindAm \<Rightarrow> BackAm (dc_block_default F)
               | KindUsb \<Rightarrow> BackSsb (sideband_new F r (f_one F))
               | KindLsb \<Rightarrow> BackSsb (sideband_new F r (f_lit F ''-1.0'')))
         in case (if if_rate \<noteq> channel then map_option Some (resampler_new F if_rate channel 16) else Some None) of
              None \<Rightarrow> None
            | Some audio \<Rightarrow> (case cresampler_new F capture if_rate 16 of
                None \<Rightarrow> None
              | Some front \<Rightarrow> Some \<lparr>sx_nco = nco_new F offset (f_nat F (unat capture)), sx_front = front,
                  sx_squelch = squelch, sx_backend = backend, sx_if_rate = if_rate, sx_audio = audio\<rparr>)))"

definition with_deemphasis :: "'n fmath \<Rightarrow> 'n \<Rightarrow> 'n sdr_rx \<Rightarrow> 'n sdr_rx" where
  "with_deemphasis F tau_us rx = (case sx_backend rx of
       BackFm disc gain _ \<Rightarrow> rx\<lparr>sx_backend := BackFm disc gain (Some (deemphasis_new F tau_us (f_nat F (unat (sx_if_rate rx)))))\<rparr>
     | _ \<Rightarrow> rx)"

definition sdr_retune :: "'n fmath \<Rightarrow> 'n \<Rightarrow> 'n sdr_rx \<Rightarrow> 'n sdr_rx" where
  "sdr_retune F offset rx = rx\<lparr>sx_nco := nco_retune F offset (sx_nco rx)\<rparr>"

definition sdr_set_squelch :: "'n squelch \<Rightarrow> 'n sdr_rx \<Rightarrow> 'n sdr_rx" where
  "sdr_set_squelch sq rx = rx\<lparr>sx_squelch := sq\<rparr>"

fun run_samples :: "('s \<Rightarrow> 'a \<Rightarrow> 's \<times> 'b) \<Rightarrow> 's \<Rightarrow> 'a list \<Rightarrow> 's \<times> 'b list" where
  "run_samples f s [] = (s, [])"
| "run_samples f s (x # xs) = (case f s x of (s1, y) \<Rightarrow> map_prod id (Cons y) (run_samples f s1 xs))"

definition sdr_push_iq :: "'n fmath \<Rightarrow> 'n cplx list \<Rightarrow> 'n sdr_rx \<Rightarrow> ('n sdr_rx \<times> 'n list) option" where
  "sdr_push_iq F iq rx =
     (case run_samples (nco_push_cplx F) (sx_nco rx) iq of (nco, mixed) \<Rightarrow>
        (case cresample_block F mixed (sx_front rx) of None \<Rightarrow> None
         | Some (front, chan) \<Rightarrow>
           (let (sq, is_open) = squelch_observe F (sx_squelch rx) chan;
                (backend, raw) = run_samples (backend_push F) (sx_backend rx) chan
            in case (case sx_audio rx of None \<Rightarrow> Some (None, raw)
                 | Some d \<Rightarrow> map_option (map_prod Some id) (resample_block F raw d)) of
               None \<Rightarrow> None
             | Some (audio, out) \<Rightarrow> Some (rx\<lparr>sx_nco := nco, sx_front := front, sx_squelch := sq, sx_backend := backend,
                 sx_audio := audio\<rparr>, if is_open then out else map (\<lambda>_. f_zero F) out))))"

section \<open>What a receiver is set to\<close>

text \<open>A receiver with its running state cleared: only what it was built or retuned to is left.\<close>

definition rs_reset :: "'n fmath \<Rightarrow> 'n resampler \<Rightarrow> 'n resampler" where
  "rs_reset F r = r\<lparr>rs_hist := replicate (rs_taps r) (f_zero F), rs_pos := 0, rs_phase := 0\<rparr>"

fun backend_reset :: "'n fmath \<Rightarrow> 'n backend \<Rightarrow> 'n backend" where
  "backend_reset F (BackFm disc gain deemph) = BackFm (disc_new F) gain (map_option (\<lambda>d. d\<lparr>de_y := f_zero F\<rparr>) deemph)"
| "backend_reset F (BackAm dc) = BackAm (dc_block_new F (db_r dc))"
| "backend_reset F (BackSsb f) =
     BackSsb (f\<lparr>sb_hist := replicate (length (sb_taps f)) (f_zero F, f_zero F), sb_pos := 0\<rparr>)"

definition sdr_reset :: "'n fmath \<Rightarrow> 'n sdr_rx \<Rightarrow> 'n sdr_rx" where
  "sdr_reset F rx = rx\<lparr>sx_nco := (sx_nco rx)\<lparr>dc_osc := (dc_osc (sx_nco rx))\<lparr>os_phase := 0\<rparr>\<rparr>,
     sx_front := \<lparr>cr_i = rs_reset F (cr_i (sx_front rx)), cr_q = rs_reset F (cr_q (sx_front rx))\<rparr>,
     sx_squelch := (sx_squelch rx)\<lparr>sq_open := False, sq_power := f_zero F\<rparr>,
     sx_backend := backend_reset F (sx_backend rx), sx_audio := map_option (rs_reset F) (sx_audio rx)\<rparr>"

lemma push_input_reset [simp]: "rs_reset F (push_input x r) = rs_reset F r"
  by (simp add: rs_reset_def push_input_def)

lemma emit_phases_reset: "emit_phases F r = Some (r', ys) \<Longrightarrow> rs_reset F r' = rs_reset F r \<and> rs_pass r' = rs_pass r"
proof (induction F r arbitrary: r' ys rule: emit_phases.induct)
  case (1 F r)
  from "1.prems" "1.IH" show ?case
    by (fastforce simp: emit_phases.simps [of F r] rs_reset_def split: if_splits)
qed

lemma resample_all_reset: "resample_all F xs r = Some (r', ys) \<Longrightarrow> rs_reset F r' = rs_reset F r"
proof (induction xs arbitrary: r ys)
  case (Cons x xs)
  then obtain r1 zs where "emit_phases F (push_input x r) = Some (r1, zs)" "\<exists>ys. resample_all F xs r1 = Some (r', ys)"
    by (auto split: option.splits)
  with Cons.IH [of r1] emit_phases_reset [of F "push_input x r" r1 zs] show ?case by auto
qed simp

lemma resample_block_reset: "resample_block F xs r = Some (r', ys) \<Longrightarrow> rs_reset F r' = rs_reset F r"
  by (auto simp: resample_block_def dest: resample_all_reset split: if_splits)

lemma run_samples_keeps: "(\<And>s x. g (fst (f s x)) = g s) \<Longrightarrow> g (fst (run_samples f s xs)) = g s"
proof (induction xs arbitrary: s)
  case (Cons x xs)
  from Cons.prems have "g (fst (f s x)) = g s" .
  with Cons show ?case by (simp add: split_beta)
qed simp

lemma nco_push_reset:
  "(fst (nco_push_cplx F d z))\<lparr>dc_osc := (dc_osc (fst (nco_push_cplx F d z)))\<lparr>os_phase := 0\<rparr>\<rparr> =
    d\<lparr>dc_osc := (dc_osc d)\<lparr>os_phase := 0\<rparr>\<rparr>"
  by (simp add: nco_push_cplx_def osc_next_def split_beta)

lemma backend_push_reset: "backend_reset F (fst (backend_push F b z)) = backend_reset F b"
proof (cases b)
  case (BackFm disc gain deemph)
  then show ?thesis by (cases deemph) (simp_all add: split_beta deemphasis_push_def Let_def)
next
  case (BackAm dc)
  then show ?thesis by (simp add: split_beta dc_block_push_def dc_block_new_def Let_def)
next
  case (BackSsb f)
  then show ?thesis by (simp add: split_beta sideband_push_def Let_def)
qed

lemma squelch_observe_settings:
  "\<And>z. (fst (squelch_observe F s zs))\<lparr>sq_open := False, sq_power := z\<rparr> = s\<lparr>sq_open := False, sq_power := z\<rparr>"
  by (simp add: squelch_observe_def Let_def)

lemma nco_block_reset:
  "(fst (run_samples (nco_push_cplx F) d zs))\<lparr>dc_osc := (dc_osc (fst (run_samples (nco_push_cplx F) d zs)))\<lparr>os_phase := 0\<rparr>\<rparr> =
    d\<lparr>dc_osc := (dc_osc d)\<lparr>os_phase := 0\<rparr>\<rparr>"
  by (rule run_samples_keeps [of "\<lambda>d. d\<lparr>dc_osc := (dc_osc d)\<lparr>os_phase := 0\<rparr>\<rparr>"]) (rule nco_push_reset)

lemma cresample_block_reset:
  "cresample_block F zs r = Some (r', ys) \<Longrightarrow>
     rs_reset F (cr_i r') = rs_reset F (cr_i r) \<and> rs_reset F (cr_q r') = rs_reset F (cr_q r)"
  using resample_block_reset [of F "map fst zs" "cr_i r"] resample_block_reset [of F "map snd zs" "cr_q r"]
  by (auto simp: cresample_block_def split: option.splits)

text \<open>Receiving changes no setting.\<close>

lemma sdr_push_reset:
  assumes "sdr_push_iq F iq rx = Some (rx', audio)"
  shows "sdr_reset F rx' = sdr_reset F rx"
proof -
  obtain nco mixed where nco: "run_samples (nco_push_cplx F) (sx_nco rx) iq = (nco, mixed)" by fastforce
  obtain front chan where front: "cresample_block F mixed (sx_front rx) = Some (front, chan)"
    using assms nco by (auto simp: sdr_push_iq_def split: option.splits)
  obtain sq is_open where sq: "squelch_observe F (sx_squelch rx) chan = (sq, is_open)" by fastforce
  obtain backend raw where be: "run_samples (backend_push F) (sx_backend rx) chan = (backend, raw)" by fastforce
  obtain audio' where audio': "rx' = rx\<lparr>sx_nco := nco, sx_front := front, sx_squelch := sq, sx_backend := backend, sx_audio := audio'\<rparr>"
    "map_option (rs_reset F) audio' = map_option (rs_reset F) (sx_audio rx)"
    using assms nco front sq be by (auto simp: sdr_push_iq_def dest: resample_block_reset split: option.splits)
  have "nco\<lparr>dc_osc := (dc_osc nco)\<lparr>os_phase := 0\<rparr>\<rparr> = (sx_nco rx)\<lparr>dc_osc := (dc_osc (sx_nco rx))\<lparr>os_phase := 0\<rparr>\<rparr>"
    using nco_block_reset [where F = F and d = "sx_nco rx" and zs = iq] nco by simp
  moreover have "sq\<lparr>sq_open := False, sq_power := f_zero F\<rparr> = (sx_squelch rx)\<lparr>sq_open := False, sq_power := f_zero F\<rparr>"
    using squelch_observe_settings [where F = F and s = "sx_squelch rx" and zs = chan] sq by simp
  moreover have "backend_reset F backend = backend_reset F (sx_backend rx)"
    using run_samples_keeps [of "backend_reset F" "backend_push F", OF backend_push_reset, of "sx_backend rx" chan] be by simp
  ultimately show ?thesis
    using audio' cresample_block_reset [OF front] by (simp add: sdr_reset_def)
qed

lemma retune_reset:
  "sdr_reset F (sdr_set_squelch sq (sdr_retune F off rx)) =
     sdr_set_squelch (sq\<lparr>sq_open := False, sq_power := f_zero F\<rparr>) (sdr_retune F off (sdr_reset F rx))"
  by (simp add: sdr_reset_def sdr_set_squelch_def sdr_retune_def nco_retune_def osc_set_freq_def)

text \<open>Retuning a new receiver is building it with the other offset and squelch.\<close>

lemma retune_new:
  "sdr_rx_new F kind capture channel off' dev sq' =
     map_option (\<lambda>rx. sdr_set_squelch sq' (sdr_retune F off' rx)) (sdr_rx_new F kind capture channel off dev sq)"
  by (auto simp: sdr_rx_new_def Let_def sdr_set_squelch_def sdr_retune_def nco_retune_def nco_new_def osc_new_def
      osc_set_freq_def split: option.splits)

section \<open>A receiver always answers\<close>

definition rs_ready :: "'n fmath \<Rightarrow> 'n resampler \<Rightarrow> bool" where
  "rs_ready F r \<longleftrightarrow> rs_pass r \<or> (\<exists>up down n proto xs. resampling F up down n proto xs r)"

definition sdr_ready :: "'n fmath \<Rightarrow> 'n sdr_rx \<Rightarrow> bool" where
  "sdr_ready F rx \<longleftrightarrow> rs_ready F (cr_i (sx_front rx)) \<and> rs_ready F (cr_q (sx_front rx)) \<and>
     (\<forall>r. sx_audio rx = Some r \<longrightarrow> rs_ready F r)"

lemma resampler_new_ready:
  assumes "0 < a" "0 < b" "0 < taps"
  shows "\<exists>r. resampler_new F a b taps = Some r \<and> rs_ready F r"
proof (cases "a = b")
  case True
  with assms factors(3) [OF assms(1,2)] show ?thesis
    by (simp add: resampler_new_def rust_gcd_gcd Let_def up_factor_def down_factor_def rs_ready_def)
next
  case False
  from resampler_new_direct [OF assms False, of F] show ?thesis by (auto simp: rs_ready_def)
qed

lemma resample_block_ready:
  assumes "rs_ready F r"
  shows "\<exists>r' ys. resample_block F xs r = Some (r', ys) \<and> rs_ready F r'"
proof (cases "rs_pass r")
  case True
  then show ?thesis by (simp add: resample_block_def rs_ready_def)
next
  case False
  with assms obtain up down n proto zs where r: "resampling F up down n proto zs r" by (auto simp: rs_ready_def)
  from resample_all_result [OF r, of xs "[]"] False show ?thesis
    by (auto simp: resample_block_def rs_ready_def)
qed

lemma cresample_block_ready:
  assumes "rs_ready F (cr_i r)" "rs_ready F (cr_q r)"
  shows "\<exists>r' ys. cresample_block F zs r = Some (r', ys) \<and> rs_ready F (cr_i r') \<and> rs_ready F (cr_q r')"
proof -
  from resample_block_ready [OF assms(1)] obtain i re where "resample_block F (map fst zs) (cr_i r) = Some (i, re)" "rs_ready F i"
    by blast
  moreover from resample_block_ready [OF assms(2)] obtain q im where "resample_block F (map snd zs) (cr_q r) = Some (q, im)" "rs_ready F q"
    by blast
  ultimately show ?thesis by (simp add: cresample_block_def)
qed

lemma sdr_push_ready:
  assumes "sdr_ready F rx"
  shows "\<exists>rx' audio. sdr_push_iq F iq rx = Some (rx', audio) \<and> sdr_ready F rx'"
proof -
  obtain nco mixed where nco: "run_samples (nco_push_cplx F) (sx_nco rx) iq = (nco, mixed)" by fastforce
  from assms cresample_block_ready [of F "sx_front rx" mixed] obtain front chan
    where front: "cresample_block F mixed (sx_front rx) = Some (front, chan)" "rs_ready F (cr_i front)" "rs_ready F (cr_q front)"
    by (auto simp: sdr_ready_def)
  show ?thesis
  proof (cases "sx_audio rx")
    case None
    with nco front show ?thesis by (simp add: sdr_push_iq_def sdr_ready_def split_beta Let_def)
  next
    case (Some d)
    with assms have "rs_ready F d" by (simp add: sdr_ready_def)
    from resample_block_ready [OF this, of "snd (run_samples (backend_push F) (sx_backend rx) chan)"] obtain d' out
      where "resample_block F (snd (run_samples (backend_push F) (sx_backend rx) chan)) d = Some (d', out)" "rs_ready F d'"
      by blast
    with nco front Some show ?thesis by (simp add: sdr_push_iq_def sdr_ready_def split_beta Let_def)
  qed
qed

text \<open>The intermediate rate neither wraps around nor vanishes.\<close>

lemma wfm_if_rate_exact:
  assumes "wfm_if_rate capture channel = Some r" "0 < capture"
  shows "0 < r \<and> r \<le> capture \<and> (channel \<le> capture \<longrightarrow> unat channel dvd unat r)"
proof -
  let ?want = "max ((180000 + unat channel - 1) div unat channel) 1" and ?cap = "max (unat (capture div channel)) 1"
  let ?m = "min ?want ?cap"
  from assms have ch: "channel \<noteq> 0" and r: "r = min (channel * of_nat ?m) capture"
    by (auto simp: wfm_if_rate_def Let_def split: if_splits)
  have pos: "0 < unat channel" using ch by (simp add: unat_gt_0)
  have le: "unat channel * ?m \<le> max (unat capture) (unat channel)"
  proof -
    have "unat channel * ?cap = max (unat channel * (unat capture div unat channel)) (unat channel)"
      by (simp add: unat_div max_def)
    also have "\<dots> \<le> max (unat capture) (unat channel)" by (intro max.mono) simp_all
    finally have "unat channel * ?cap \<le> max (unat capture) (unat channel)" .
    moreover have "unat channel * ?m \<le> unat channel * ?cap" by (intro mult_le_mono) simp_all
    ultimately show ?thesis by (rule order_trans [rotated])
  qed
  have m: "?m < 2 ^ 32"
  proof -
    have "?m \<le> unat channel * ?m" using pos by simp
    also have "\<dots> \<le> max (unat capture) (unat channel)" by (rule le)
    also have "\<dots> < 2 ^ 32" using unat_u32 [of capture] unat_u32 [of channel] by simp
    finally show ?thesis .
  qed
  have "unat (channel * of_nat ?m) = unat channel * ?m"
  proof -
    have "max (unat capture) (unat channel) < 2 ^ 32" using unat_u32 [of capture] unat_u32 [of channel] by simp
    with le have "unat channel * ?m < 2 ^ 32" by (rule order.strict_trans1)
    with m show ?thesis by (simp add: unat_word_ariths unat_of_nat)
  qed
  moreover have "0 < unat channel * ?m" using pos by simp
  ultimately have prod: "unat (channel * of_nat ?m) = unat channel * ?m" "0 < channel * of_nat ?m"
    by (simp_all only: word_less_nat_alt unat_0)
  show ?thesis
  proof (intro conjI impI)
    show "0 < r" using r prod assms(2) by (simp add: min_def)
    show "r \<le> capture" using r by simp
    assume "channel \<le> capture"
    then have "unat channel * ?m \<le> unat capture" using le by (simp add: word_le_nat_alt max_def)
    then have "r = channel * of_nat ?m" using r prod(1) by (simp add: min_def word_le_nat_alt)
    with prod(1) show "unat channel dvd unat r" by simp
  qed
qed

lemma sdr_rx_new_ready:
  assumes "0 < capture" "0 < channel"
  shows "\<exists>rx. sdr_rx_new F kind capture channel off dev sq = Some rx \<and> sdr_ready F rx"
proof -
  obtain if_rate where rate: "(if kind = KindWfm then wfm_if_rate capture channel else Some channel) = Some if_rate" "0 < if_rate"
  proof (cases "kind = KindWfm")
    case True
    obtain r where r: "wfm_if_rate capture channel = Some r"
      using assms(2) by (cases "channel = 0") (simp_all add: wfm_if_rate_def Let_def)
    with wfm_if_rate_exact [OF r assms(1)] True show ?thesis by (intro that [of r]) simp_all
  next
    case False
    with assms(2) show ?thesis by (intro that [of channel]) simp_all
  qed
  obtain i where i: "resampler_new F capture if_rate 16 = Some i" "rs_ready F i"
    using resampler_new_ready [OF assms(1) rate(2), of 16 F] by auto
  obtain a where a: "resampler_new F if_rate channel 16 = Some a" "rs_ready F a"
    using resampler_new_ready [OF rate(2) assms(2), of 16 F] by auto
  show ?thesis
    unfolding sdr_rx_new_def rate(1) using i a by (cases "if_rate = channel") (simp_all add: cresampler_new_def sdr_ready_def Let_def)
qed

section \<open>Offsets below the center\<close>

text \<open>The phase step of a frequency that is not positive.\<close>

lemma step_for_nonpositive:
  assumes "\<And>x y. \<not> f_lt F (f_zero F) x \<Longrightarrow> f_lt F (f_zero F) y \<Longrightarrow> \<not> f_lt F (f_zero F) (f_div F x y)"
    and "\<And>x. \<not> f_lt F (f_zero F) x \<Longrightarrow> \<not> f_lt F (f_zero F) (f_mul F x (f_nat F (2 ^ 32)))"
    and "\<And>x. \<not> f_lt F (f_zero F) x \<Longrightarrow> f_to_u32 F x = 0"
    and "\<not> f_lt F (f_zero F) freq" "f_lt F (f_zero F) rate"
  shows "step_for F freq rate = 0"
  using assms by (simp add: step_for_def)

text \<open>
  C30: The receiver cannot be tuned below the hardware center. In every arithmetic in which quotients
  and products keep signs and the cast to \<open>u32\<close> maps what is not positive to zero, as casts from
  \<open>f32\<close> do, a receiver built for or retuned to a negative offset is the one built for or retuned to
  the offset zero: its oscillator stands still and it demodulates the center of the band, not the
  frequency that was asked for.
\<close>

theorem negative_offset_ignored:
  assumes "\<forall>x y. \<not> f_lt F (f_zero F) x \<longrightarrow> f_lt F (f_zero F) y \<longrightarrow> \<not> f_lt F (f_zero F) (f_div F x y)"
    and "\<forall>x. \<not> f_lt F (f_zero F) x \<longrightarrow> \<not> f_lt F (f_zero F) (f_mul F x (f_nat F (2 ^ 32)))"
    and "\<forall>x. \<not> f_lt F (f_zero F) x \<longrightarrow> f_to_u32 F x = 0"
    and "\<not> f_lt F (f_zero F) off" "\<not> f_lt F (f_zero F) (f_zero F)"
    and "f_lt F (f_zero F) (f_nat F (unat capture))"
  shows "sdr_rx_new F kind capture channel off dev sq = sdr_rx_new F kind capture channel (f_zero F) dev sq \<and>
    (dc_rate (sx_nco rx) = f_nat F (unat capture) \<longrightarrow> sdr_retune F off rx = sdr_retune F (f_zero F) rx)"
proof -
  have same: "step_for F off rate = step_for F (f_zero F) rate" if "f_lt F (f_zero F) rate" for rate
    using step_for_nonpositive [of F off rate] step_for_nonpositive [of F "f_zero F" rate] assms(1-5) that by auto
  show ?thesis
    using same [OF assms(6)]
    by (simp add: sdr_rx_new_def nco_new_def osc_new_def sdr_retune_def nco_retune_def osc_set_freq_def Let_def
        split: option.splits)
qed

theorem negative_offset_ignored_witness:
  "sdr_rx_new rat_math KindNbfm 240000 48000 (-40000) 5000 (squelch_disabled rat_math) =
     sdr_rx_new rat_math KindNbfm 240000 48000 (f_zero rat_math) 5000 (squelch_disabled rat_math)"
  by (rule conjunct1 [OF negative_offset_ignored])
    (auto simp: rat_math_def rat_lit_def rat_to_u32_def divide_nonpos_pos not_less)

end
