(* ===== verification/Spectrum.thy ===== *)
theory Spectrum
  imports Floats
begin

text \<open>
  The waterfall: windowed short-time transforms of real and complex samples (\<open>frontend/stft.rs\<close>,
  \<open>complex_stft.rs\<close>) and the rendering of a transform to a line of bytes (\<open>frontend/spectrum.rs\<close>).
  The Fourier transform itself belongs to a library and is an argument. \<open>None\<close> is a panic.
\<close>

section \<open>Short-time transforms\<close>

definition hann :: "'n fmath \<Rightarrow> nat \<Rightarrow> 'n list" where
  "hann F nfft = map (\<lambda>n. f_sub F (f_lit F ''0.5'') (f_mul F (f_lit F ''0.5'')
     (f_cos F (f_div F (f_mul F (f_tau F) (f_nat F n)) (f_nat F nfft))))) [0..<nfft]"

record 'n stft =
  st_nfft :: nat
  st_hop :: nat
  st_window :: "'n list"
  st_buf :: "'n list"

definition stft_new :: "'n fmath \<Rightarrow> nat \<Rightarrow> nat \<Rightarrow> 'n stft option" where
  "stft_new F nfft hop =
     (if 0 < nfft \<and> 0 < hop \<and> hop \<le> nfft
      then Some \<lparr>st_nfft = nfft, st_hop = hop, st_window = hann F nfft, st_buf = []\<rparr> else None)"

text \<open>A hop of no samples never ends the loop.\<close>

function stft_drain :: "'n fmath \<Rightarrow> ('n cplx list \<Rightarrow> 'n cplx list) \<Rightarrow> 'n stft \<Rightarrow> ('n stft \<times> 'n cplx list list) option" where
  "stft_drain F fft s =
     (if st_nfft s \<le> length (st_buf s)
      then if st_hop s = 0 \<or> st_nfft s = 0 then None
        else map_option (map_prod id (Cons (fft (map2 (\<lambda>x w. (f_mul F x w, f_zero F)) (take (st_nfft s) (st_buf s)) (st_window s)))))
          (stft_drain F fft (s\<lparr>st_buf := drop (st_hop s) (st_buf s)\<rparr>))
      else Some (s, []))"
  by pat_completeness auto
termination
  by (relation "measure (\<lambda>(F, fft, s). length (st_buf s))") auto

declare stft_drain.simps [simp del]

definition stft_feed :: "'n fmath \<Rightarrow> ('n cplx list \<Rightarrow> 'n cplx list) \<Rightarrow> 'n list \<Rightarrow> 'n stft \<Rightarrow> ('n stft \<times> 'n cplx list list) option" where
  "stft_feed F fft xs s = stft_drain F fft (s\<lparr>st_buf := st_buf s @ xs\<rparr>)"

definition stft_window_sum :: "'n fmath \<Rightarrow> 'n stft \<Rightarrow> 'n" where
  "stft_window_sum F s = f_sum F (st_window s)"

record 'n cstft =
  cs_nfft :: nat
  cs_hop :: nat
  cs_window :: "'n list"
  cs_buf :: "'n cplx list"
  cs_window_sum :: 'n

definition cstft_new :: "'n fmath \<Rightarrow> nat \<Rightarrow> nat \<Rightarrow> 'n cstft" where
  "cstft_new F nfft hop = \<lparr>cs_nfft = nfft, cs_hop = hop, cs_window = hann F nfft, cs_buf = [], cs_window_sum = f_sum F (hann F nfft)\<rparr>"

fun cstft_feed :: "'n fmath \<Rightarrow> ('n cplx list \<Rightarrow> 'n cplx list) \<Rightarrow> 'n cplx list \<Rightarrow> 'n cstft \<Rightarrow> 'n cstft \<times> 'n cplx list list" where
  "cstft_feed F fft [] s = (s, [])"
| "cstft_feed F fft (z # zs) s =
     (let s1 = s\<lparr>cs_buf := cs_buf s @ [z]\<rparr>
      in if length (cs_buf s1) = cs_nfft s
         then map_prod id (Cons (fft (map2 (\<lambda>z w. (f_mul F (fst z) w, f_mul F (snd z) w)) (cs_buf s1) (cs_window s))))
           (cstft_feed F fft zs (s1\<lparr>cs_buf := drop (cs_hop s) (cs_buf s1)\<rparr>))
         else cstft_feed F fft zs s1)"

section \<open>Levels\<close>

definition half_spectrum_dbfs :: "'n fmath \<Rightarrow> 'n cplx list \<Rightarrow> 'n \<Rightarrow> 'n list" where
  "half_spectrum_dbfs F spectrum window_sum =
     (let norm = f_max F (f_div F window_sum (f_lit F ''2.0'')) (f_lit F ''1e-12'')
      in map (\<lambda>c. f_mul F (f_lit F ''20.0'') (f_log10 F (f_max F (f_div F (c_norm F c) norm) (f_lit F ''1e-9''))))
           (take (length spectrum div 2 + 1) spectrum))"

definition full_spectrum_dbfs :: "'n fmath \<Rightarrow> 'n cplx list \<Rightarrow> 'n \<Rightarrow> 'n list" where
  "full_spectrum_dbfs F spectrum window_sum =
     (let n = length spectrum
      in map (\<lambda>k. f_mul F (f_lit F ''20.0'') (f_log10 F (f_add F
            (f_div F (c_norm F (spectrum ! ((k + n div 2) mod n))) window_sum) (f_lit F ''1e-12'')))) [0..<n])"

definition quantize :: "'n fmath \<Rightarrow> 'n \<Rightarrow> 'n \<Rightarrow> 'n \<Rightarrow> u8 option" where
  "quantize F db lo hi =
     (let span = f_max F (f_sub F hi lo) (f_lit F ''1e-6'')
      in map_option (\<lambda>t. f_to_u8 F (f_round F (f_mul F t (f_lit F ''255.0''))))
           (f_clamp F (f_zero F) (f_one F) (f_div F (f_sub F db lo) span)))"

section \<open>Rendering geometry\<close>

record 'n spectrum_plan =
  sp_lo_bin :: nat
  sp_hi_bin :: nat
  sp_bin_count :: nat
  sp_freq_start :: 'n
  sp_freq_step :: 'n
  sp_db_floor :: 'n
  sp_db_ceiling :: 'n

definition snap_bins :: "nat \<Rightarrow> nat \<Rightarrow> nat \<Rightarrow> nat \<times> nat" where
  "snap_bins nyq lo hi =
     (let lo1 = min lo nyq; hi1 = min hi nyq
      in if hi1 \<le> lo1 then let hi2 = min (lo1 + 1) nyq in (min (hi2 - 1) lo1, hi2) else (lo1, hi1))"

definition plan_new :: "'n fmath \<Rightarrow> nat \<Rightarrow> 'n \<Rightarrow> nat \<Rightarrow> 'n \<Rightarrow> 'n \<Rightarrow> 'n \<Rightarrow> 'n \<Rightarrow> 'n spectrum_plan option" where
  "plan_new F nfft rate req freq_lo freq_hi db_floor db_ceiling =
     (let bin_res = f_div F rate (f_nat F nfft); nyq_hz = f_div F rate (f_lit F ''2.0'')
      in case f_clamp F (f_zero F) nyq_hz freq_lo of None \<Rightarrow> None
         | Some lo \<Rightarrow> (case f_clamp F (f_zero F) nyq_hz freq_hi of None \<Rightarrow> None
           | Some hi \<Rightarrow>
             (let (lo_bin, hi_bin) = snap_bins (nfft div 2) (f_to_usize F (f_floor F (f_div F lo bin_res)))
                    (f_to_usize F (f_ceil F (f_div F hi bin_res)));
                  count = max 1 (min req (hi_bin - lo_bin + 1));
                  step = f_div F (f_max F (f_sub F hi lo) bin_res) (f_nat F count)
              in Some \<lparr>sp_lo_bin = lo_bin, sp_hi_bin = hi_bin, sp_bin_count = count,
                   sp_freq_start = f_add F lo (f_div F step (f_lit F ''2.0'')), sp_freq_step = step,
                   sp_db_floor = db_floor, sp_db_ceiling = db_ceiling\<rparr>)))"

text \<open>\<open>Ord::clamp\<close> on integers panics as well when the bounds are not in order.\<close>

definition int_clamp :: "int \<Rightarrow> int \<Rightarrow> int \<Rightarrow> int option" where
  "int_clamp lo hi x = (if lo \<le> hi then Some (max lo (min hi x)) else None)"

definition plan_new_centered :: "'n fmath \<Rightarrow> nat \<Rightarrow> 'n \<Rightarrow> 'n \<Rightarrow> nat \<Rightarrow> 'n \<Rightarrow> 'n \<Rightarrow> 'n spectrum_plan option" where
  "plan_new_centered F nfft rate center req freq_lo freq_hi =
     (let step = f_div F rate (f_nat F nfft); half = f_div F rate (f_lit F ''2.0'')
      in case int_clamp 0 (int nfft - 1) (f_to_isize F (f_floor F (f_div F (f_add F freq_lo half) step))) of None \<Rightarrow> None
         | Some lo \<Rightarrow> (case int_clamp (lo + 1) (int nfft) (f_to_isize F (f_ceil F (f_div F (f_add F freq_hi half) step))) of None \<Rightarrow> None
           | Some hi \<Rightarrow>
             (let span = nat hi - nat lo; count = min (max req 1) span
              in Some \<lparr>sp_lo_bin = nat lo, sp_hi_bin = nat hi, sp_bin_count = count,
                   sp_freq_start = f_add F (f_sub F center half) (f_mul F (f_nat F (nat lo)) step),
                   sp_freq_step = f_div F (f_mul F (f_nat F span) step) (f_nat F count),
                   sp_db_floor = f_lit F ''-120.0'', sp_db_ceiling = f_zero F\<rparr>)))"

text \<open>The slice of bins that bucket \<open>b\<close> pools; \<open>None\<close>: the clamp or the slice panics.\<close>

definition bucket :: "'n spectrum_plan \<Rightarrow> 'a list \<Rightarrow> nat \<Rightarrow> 'a list option" where
  "bucket p xs b =
     (let range = sp_hi_bin p - sp_lo_bin p + 1; first = sp_lo_bin p + b * range div sp_bin_count p;
          raw = sp_lo_bin p + (b + 1) * range div sp_bin_count p
      in if sp_hi_bin p + 1 < first + 1 then None
         else let past = min (max (first + 1) (min (sp_hi_bin p + 1) raw)) (length xs)
           in if first \<le> past then Some (take (past - first) (drop first xs)) else None)"

fun sequence_opt :: "'a option list \<Rightarrow> 'a list option" where
  "sequence_opt [] = Some []"
| "sequence_opt (None # xs) = None"
| "sequence_opt (Some x # xs) = map_option (Cons x) (sequence_opt xs)"

definition render :: "'n fmath \<Rightarrow> 'n spectrum_plan \<Rightarrow> 'n list \<Rightarrow> u8 list option" where
  "render F p dbfs = sequence_opt (map (\<lambda>b. case bucket p dbfs b of None \<Rightarrow> None
     | Some xs \<Rightarrow> quantize F (foldl (f_max F) (f_lit F ''-inf'') xs) (sp_db_floor p) (sp_db_ceiling p)) [0..<sp_bin_count p])"

section \<open>Requests\<close>

function double_up :: "nat \<Rightarrow> nat \<Rightarrow> nat" where
  "double_up p n = (if p = 0 \<or> n \<le> p then p else double_up (2 * p) n)"
  by pat_completeness auto
termination
  by (relation "measure (\<lambda>(p, n). n - p)") auto

declare double_up.simps [simp del]

definition next_power_of_two :: "nat \<Rightarrow> nat" where
  "next_power_of_two n = double_up 1 n"

definition round_fft_size :: "u32 \<Rightarrow> nat" where
  "round_fft_size req = next_power_of_two (max 64 (min 16384 (unat (if req = 0 then 2048 else req))))"

record 'n spectrum_setup =
  ss_nfft :: nat
  ss_hop :: nat
  ss_rate_hz :: u32
  ss_plan :: "'n spectrum_plan"

definition spectrum_resolve :: "'n fmath \<Rightarrow> u32 \<Rightarrow> u32 \<Rightarrow> u32 \<Rightarrow> u32 \<Rightarrow> 'n \<Rightarrow> 'n \<Rightarrow> 'n spectrum_setup option" where
  "spectrum_resolve F native_rate bins fft_size rate_hz freq_lo freq_hi =
     (let nfft = round_fft_size fft_size; count = (if bins = 0 then 256 else bins); rate = (if rate_hz = 0 then 15 else rate_hz);
          native = f_nat F (unat native_rate); nyquist = f_div F native (f_lit F ''2.0'')
      in case f_clamp F (f_zero F) nyquist freq_lo of None \<Rightarrow> None
         | Some lo \<Rightarrow> (case (if f_le F freq_hi (f_zero F) then Some nyquist else f_clamp F (f_zero F) nyquist freq_hi) of None \<Rightarrow> None
           | Some hi0 \<Rightarrow>
             (let hi = (if f_le F hi0 lo then nyquist else hi0);
                  hop = max 1 (min nfft (f_to_usize F (f_round F (f_div F native (f_nat F (unat rate))))))
              in map_option (\<lambda>p. \<lparr>ss_nfft = nfft, ss_hop = hop,
                   ss_rate_hz = f_to_u32 F (f_round F (f_div F native (f_nat F hop))), ss_plan = p\<rparr>)
                 (plan_new F nfft native (unat count) lo hi (f_lit F ''-120.0'') (f_zero F)))))"

section \<open>Buckets\<close>

text \<open>Where bucket \<open>b\<close> of \<open>c\<close> over \<open>n\<close> bins begins.\<close>

definition edge :: "nat \<Rightarrow> nat \<Rightarrow> nat \<Rightarrow> nat \<Rightarrow> nat" where
  "edge lo n c b = lo + b * n div c"

lemma edge_step: "0 < c \<Longrightarrow> c \<le> n \<Longrightarrow> edge lo n c b < edge lo n c (Suc b)"
proof -
  assume c: "0 < c" "c \<le> n"
  then have "(b * n + c) div c \<le> (b * n + n) div c" by (intro div_le_mono) simp
  with c show ?thesis by (simp add: edge_def add.commute)
qed

lemma edge_mono: "b \<le> b' \<Longrightarrow> edge lo n c b \<le> edge lo n c b'"
  by (simp add: edge_def div_le_mono)

lemma edge_ends [simp]: "edge lo n c 0 = lo" "0 < c \<Longrightarrow> edge lo n c c = lo + n"
  by (simp_all add: edge_def)

lemma steps_mono: "(\<And>b. b < k \<Longrightarrow> e b \<le> (e (Suc b) :: nat)) \<Longrightarrow> e 0 \<le> e k"
proof (induction k)
  case (Suc k)
  have "e 0 \<le> e k" by (rule Suc.IH, rule Suc.prems) simp
  also have "\<dots> \<le> e (Suc k)" by (rule Suc.prems) simp
  finally show ?case .
qed simp

lemma slices_concat:
  assumes "\<And>b. b < k \<Longrightarrow> e b \<le> (e (Suc b) :: nat)"
  shows "concat (map (\<lambda>b. take (e (Suc b) - e b) (drop (e b) xs)) [0..<k]) = take (e k - e 0) (drop (e 0) xs)"
  using assms
proof (induction k)
  case (Suc k)
  have mono: "e 0 \<le> e k" using Suc.prems by (intro steps_mono) simp
  have "take (e (Suc k) - e 0) (drop (e 0) xs) = take (e k - e 0) (drop (e 0) xs) @ take (e (Suc k) - e k) (drop (e k) xs)"
    using mono Suc.prems [of k] take_add [of "e k - e 0" "e (Suc k) - e k" "drop (e 0) xs"] by simp
  with Suc show ?case by simp
qed simp

lemma bucket_slice:
  assumes plan: "0 < sp_bin_count p" "sp_lo_bin p \<le> sp_hi_bin p" "sp_bin_count p \<le> sp_hi_bin p - sp_lo_bin p + 1"
    and b: "b < sp_bin_count p"
  defines "e \<equiv> edge (sp_lo_bin p) (sp_hi_bin p - sp_lo_bin p + 1) (sp_bin_count p)"
  assumes len: "e b < length xs"
  shows "bucket p xs b = Some (take (min (e (Suc b)) (length xs) - e b) (drop (e b) xs))"
proof -
  have "e b < e (Suc b)" unfolding e_def using plan by (intro edge_step) auto
  moreover have "e (Suc b) \<le> e (sp_bin_count p)" unfolding e_def using b by (intro edge_mono) simp
  moreover have "e (sp_bin_count p) = sp_hi_bin p + 1" unfolding e_def using plan by simp
  moreover have "sp_lo_bin p + b * (sp_hi_bin p - sp_lo_bin p + 1) div sp_bin_count p = e b"
    "sp_lo_bin p + (b + 1) * (sp_hi_bin p - sp_lo_bin p + 1) div sp_bin_count p = e (Suc b)"
    by (simp_all add: e_def edge_def)
  ultimately show ?thesis
    unfolding bucket_def Let_def using len by (simp add: max_def min_def)
qed

lemma sequence_opt_map: "(\<And>x. x \<in> set xs \<Longrightarrow> f x = Some (g x)) \<Longrightarrow> sequence_opt (map f xs) = Some (map g xs)"
  by (induction xs) simp_all

lemma sequence_opt_None: "x \<in> set xs \<Longrightarrow> sequence_opt xs = Some ys \<Longrightarrow> x \<noteq> None"
  by (induction xs arbitrary: ys rule: sequence_opt.induct) auto

lemma snap_bins_window:
  assumes "snap_bins nyq lo hi = (l, h)" "1 \<le> nyq"
  shows "l < h" "h \<le> nyq"
  using assms by (auto simp: snap_bins_def Let_def min_def split: if_splits)

lemma plan_new_window:
  assumes "plan_new F nfft rate req lo hi fl ce = Some p" "2 \<le> nfft"
  shows "sp_lo_bin p < sp_hi_bin p" "sp_hi_bin p \<le> nfft div 2" "0 < sp_bin_count p"
    "sp_bin_count p \<le> sp_hi_bin p - sp_lo_bin p + 1" "sp_bin_count p \<le> max 1 req"
proof -
  have "1 \<le> nfft div 2" using assms(2) by simp
  with assms(1) snap_bins_window show "sp_lo_bin p < sp_hi_bin p" "sp_hi_bin p \<le> nfft div 2" "0 < sp_bin_count p"
    "sp_bin_count p \<le> sp_hi_bin p - sp_lo_bin p + 1" "sp_bin_count p \<le> max 1 req"
    by (fastforce simp: plan_new_def Let_def split: option.splits prod.splits)+
qed

lemma int_clamp_range: "int_clamp a b x = Some y \<Longrightarrow> a \<le> y \<and> y \<le> b"
  by (auto simp: int_clamp_def split: if_splits)

lemma option_case_SomeE: "(case x of None \<Rightarrow> None | Some y \<Rightarrow> f y) = Some z \<Longrightarrow> (\<And>y. x = Some y \<Longrightarrow> f y = Some z \<Longrightarrow> P) \<Longrightarrow> P"
  by (cases x) simp_all

lemma plan_centered_window:
  assumes "plan_new_centered F nfft rate center req lo hi = Some p"
  shows "sp_lo_bin p < sp_hi_bin p" "sp_hi_bin p \<le> nfft" "0 < sp_bin_count p"
    "sp_bin_count p \<le> sp_hi_bin p - sp_lo_bin p"
proof -
  from assms obtain l h x y where l: "int_clamp 0 (int nfft - 1) x = Some l" and h: "int_clamp (l + 1) (int nfft) y = Some h"
    and p: "sp_lo_bin p = nat l \<and> sp_hi_bin p = nat h \<and> sp_bin_count p = min (max req 1) (nat h - nat l)"
    unfolding plan_new_centered_def Let_def
    by (elim option_case_SomeE) fastforce
  have "0 \<le> l" "l + 1 \<le> h" "h \<le> int nfft"
    using l h by (auto dest: int_clamp_range)
  with p show "sp_lo_bin p < sp_hi_bin p" "sp_hi_bin p \<le> nfft" "0 < sp_bin_count p"
    "sp_bin_count p \<le> sp_hi_bin p - sp_lo_bin p"
    by auto
qed

lemma render_total:
  assumes "f_le F (f_zero F) (f_one F)" "\<And>b. b < sp_bin_count p \<Longrightarrow> bucket p xs b \<noteq> None"
  shows "\<exists>line. render F p xs = Some line \<and> length line = sp_bin_count p"
proof -
  let ?f = "\<lambda>b. case bucket p xs b of None \<Rightarrow> None
     | Some ys \<Rightarrow> quantize F (foldl (f_max F) (f_lit F ''-inf'') ys) (sp_db_floor p) (sp_db_ceiling p)"
  have "?f b \<noteq> None" if "b < sp_bin_count p" for b
    using assms(2) [OF that] assms(1) by (auto simp: quantize_def f_clamp_def Let_def)
  then have "sequence_opt (map ?f [0..<sp_bin_count p]) = Some (map (\<lambda>b. the (?f b)) [0..<sp_bin_count p])"
    by (intro sequence_opt_map) fastforce
  then show ?thesis by (simp add: render_def)
qed

lemma plan_buckets:
  assumes "plan_new F nfft rate req lo hi fl ce = Some p" "2 \<le> nfft" "length dbfs = nfft div 2 + 1"
  shows "\<exists>bs. sequence_opt (map (bucket p dbfs) [0..<sp_bin_count p]) = Some bs \<and> [] \<notin> set bs \<and>
    concat bs = take (sp_hi_bin p + 1 - sp_lo_bin p) (drop (sp_lo_bin p) dbfs)"
proof -
  note w = plan_new_window [OF assms(1,2)]
  let ?n = "sp_hi_bin p - sp_lo_bin p + 1"
  let ?e = "edge (sp_lo_bin p) ?n (sp_bin_count p)"
  let ?s = "\<lambda>b. take (?e (Suc b) - ?e b) (drop (?e b) dbfs)"
  have step: "?e b < ?e (Suc b)" for b using w by (intro edge_step) auto
  have last: "?e (sp_bin_count p) = sp_hi_bin p + 1" using w by simp
  have le: "?e (Suc b) \<le> sp_hi_bin p + 1" if "b < sp_bin_count p" for b
    using edge_mono [of "Suc b" "sp_bin_count p" "sp_lo_bin p" ?n "sp_bin_count p"] that last by simp
  have slice: "bucket p dbfs b = Some (?s b) \<and> ?s b \<noteq> []" if "b < sp_bin_count p" for b
    using bucket_slice [OF w(3) _ w(4) that, of dbfs] step [of b] le [OF that] w(1,2) assms(3) by simp
  then have "sequence_opt (map (bucket p dbfs) [0..<sp_bin_count p]) = Some (map ?s [0..<sp_bin_count p])"
    by (intro sequence_opt_map) simp
  moreover have "concat (map ?s [0..<sp_bin_count p]) = take (?e (sp_bin_count p) - ?e 0) (drop (?e 0) dbfs)"
    using step by (intro slices_concat less_imp_le)
  moreover have "[] \<notin> set (map ?s [0..<sp_bin_count p])" using slice by auto
  ultimately show ?thesis unfolding last by auto
qed

lemma last_edge: "c < n \<Longrightarrow> b < c \<Longrightarrow> b * n div c < n - (1 :: nat)"
proof -
  assume c: "c < n" "b < c"
  then obtain d m where d: "c = Suc d" "n = Suc m" by (metis less_imp_Suc_add add_Suc_right)
  with c have "b * n \<le> d * n" by (intro mult_le_mono1) simp
  also have "\<dots> < c * (n - 1)" using c d by simp
  finally show ?thesis by (simp add: less_mult_imp_div_less mult.commute)
qed

lemma centered_buckets:
  assumes "plan_new_centered F nfft rate center req lo hi = Some p" "length dbfs = nfft" "b < sp_bin_count p"
  shows "bucket p dbfs b \<noteq> None"
proof -
  note w = plan_centered_window [OF assms(1)]
  let ?n = "sp_hi_bin p - sp_lo_bin p + 1" and ?c = "sp_bin_count p"
  have "b * ?n div ?c < ?n - 1" using w(3,4) assms(3) by (intro last_edge) auto
  then have "edge (sp_lo_bin p) ?n ?c b < length dbfs" using w(1,2) assms(2) by (simp add: edge_def)
  then show ?thesis using bucket_slice [OF w(3) _ _ assms(3), of dbfs] w by simp
qed

text \<open>
  C29: A line of the one-sided waterfall accounts for every transform bin of the requested window.
  Whatever the request, the rates and the arithmetic yield (zero being at most one), a one-sided plan
  (\<open>SpectrumPlan::new\<close>) that is made has at least one bucket and not
  more than requested, its window lies inside the transform, and rendering a frame cuts the window
  into that many non-empty consecutive slices which together are the window, so that no bin is lost
  or shown twice; the line has one byte for each. Of a two-sided plan (\<open>new_centered\<close>) only this is
  claimed: rendering does not panic and yields as many bytes as the plan has buckets.
\<close>

theorem waterfall_line_tiles_window:
  assumes "plan_new F nfft rate req lo hi fl ce = Some p" "2 \<le> nfft" "length dbfs = nfft div 2 + 1"
    and "plan_new_centered F nfft' rate' center req' lo' hi' = Some q" "length dbfs' = nfft'"
    and "f_le F (f_zero F) (f_one F)"
  shows "1 \<le> sp_bin_count p \<and> sp_bin_count p \<le> max 1 req \<and> sp_lo_bin p < sp_hi_bin p \<and> sp_hi_bin p < length dbfs \<and>
    (\<exists>bs. sequence_opt (map (bucket p dbfs) [0..<sp_bin_count p]) = Some bs \<and> [] \<notin> set bs \<and>
      concat bs = take (sp_hi_bin p + 1 - sp_lo_bin p) (drop (sp_lo_bin p) dbfs)) \<and>
    (\<exists>line. render F p dbfs = Some line \<and> length line = sp_bin_count p) \<and>
    (\<exists>line. render F q dbfs' = Some line \<and> length line = sp_bin_count q)"
proof -
  note w = plan_new_window [OF assms(1,2)]
  obtain bs where bs: "sequence_opt (map (bucket p dbfs) [0..<sp_bin_count p]) = Some bs" "[] \<notin> set bs"
    "concat bs = take (sp_hi_bin p + 1 - sp_lo_bin p) (drop (sp_lo_bin p) dbfs)"
    using plan_buckets [OF assms(1-3)] by blast
  have "bucket p dbfs b \<noteq> None" if "b < sp_bin_count p" for b
    using sequence_opt_None [of "bucket p dbfs b" "map (bucket p dbfs) [0..<sp_bin_count p]"] bs(1) that by auto
  then have "\<exists>line. render F p dbfs = Some line \<and> length line = sp_bin_count p"
    by (rule render_total [OF assms(6)])
  moreover have "\<exists>line. render F q dbfs' = Some line \<and> length line = sp_bin_count q"
    using centered_buckets [OF assms(4,5)] by (rule render_total [OF assms(6)])
  ultimately show ?thesis using w bs assms(3) by auto
qed

theorem waterfall_line_tiles_window_witness:
  "\<exists>p q. plan_new rat_math 8 8 3 0 4 0 1 = Some p \<and> plan_new_centered rat_math 8 8 100 4 (-4) 4 = Some q \<and>
    length (the (render rat_math p [0, 1, 0, 1, 0])) = sp_bin_count p \<and>
    length (the (render rat_math q [0, 1, 0, 1, 0, 1, 0, 1])) = sp_bin_count q"
proof -
  obtain p where p: "plan_new rat_math 8 8 3 0 4 0 1 = Some p"
    by (simp add: plan_new_def f_clamp_def rat_math_def rat_lit_def snap_bins_def Let_def)
  obtain q where q: "plan_new_centered rat_math 8 8 100 4 (-4) 4 = Some q"
    by (simp add: plan_new_centered_def int_clamp_def rat_math_def rat_lit_def Let_def)
  have "f_le rat_math (f_zero rat_math) (f_one rat_math)" by (simp add: rat_math_def rat_lit_def)
  with waterfall_line_tiles_window [OF p _ _ q, of "[0, 1, 0, 1, 0]" "[0, 1, 0, 1, 0, 1, 0, 1]"] p q
  show ?thesis by auto
qed

end
