(* ===== verification/RtlTcp.thy ===== *)
theory RtlTcp
  imports Sdr
begin

text \<open>
  The \<open>rtl_tcp\<close> transport (\<open>audio/sdr/rtl_tcp.rs\<close>): the greeting, the five-byte commands, and the
  read side, which hides a dropped link from the capture pipeline. Sockets and clocks are
  observations: what each read, connection attempt and stop flag yields.
\<close>

section \<open>Words on the wire\<close>

definition to_be_bytes :: "u32 \<Rightarrow> u8 list" where
  "to_be_bytes w = [ucast (drop_bit 24 w), ucast (drop_bit 16 w), ucast (drop_bit 8 w), ucast w]"

definition from_be_bytes :: "u8 \<Rightarrow> u8 \<Rightarrow> u8 \<Rightarrow> u8 \<Rightarrow> u32" where
  "from_be_bytes a b c d = word_cat a (word_cat b (word_cat c d :: 16 word) :: 24 word)"

section \<open>Greeting\<close>

record rtl_header =
  rh_tuner_type :: u32
  rh_gain_count :: u32

definition show_hex02_list :: "u8 list \<Rightarrow> string" where
  "show_hex02_list bs = ''['' @ concat (map (\<lambda>(k, b). (if k = 0 then [] else '', '') @ pad0 2 (show_radix 16 (unat b)))
     (zip [0..<length bs] bs)) @ '']''"

text \<open>\<open>None\<close>: the argument is an array of twelve bytes, so the pattern is the only case.\<close>

fun parse_header :: "u8 list \<Rightarrow> (rtl_header, audio_error) result option" where
  "parse_header [m0, m1, m2, m3, t0, t1, t2, t3, g0, g1, g2, g3] = Some
     (if [m0, m1, m2, m3] \<noteq> [0x52, 0x54, 0x4C, 0x30]
      then Err (AudioIo (''rtl_tcp: bad header magic '' @ show_hex02_list [m0, m1, m2, m3] @ '', not an rtl_tcp server''))
      else Ok \<lparr>rh_tuner_type = from_be_bytes t0 t1 t2 t3, rh_gain_count = from_be_bytes g0 g1 g2 g3\<rparr>)"
| "parse_header _ = None"

definition caps_from_header :: "'n hz_math \<Rightarrow> rtl_header \<Rightarrow> 'n tuner_caps" where
  "caps_from_header H h =
     (let t = rh_tuner_type h; (fmin, fmax) = tuner_freq_range H t
      in \<lparr>tc_tuner = tuner_name t, tc_freq_min = fmin, tc_freq_max = fmax,
          tc_sample_rates = supported_sample_rates, tc_gains_db = tuner_gains_db H t,
          tc_bias_tee = bias_tee_supported t, tc_direct_sampling = direct_sampling_supported t\<rparr>)"

section \<open>Commands\<close>

datatype rtl_cmd =
    CenterFreq u32
  | SampleRate u32
  | GainMode bool
  | TunerGain i32
  | FreqCorrection i32
  | DirectSampling u32
  | BiasTee bool

definition bool_u32 :: "bool \<Rightarrow> u32" where
  "bool_u32 b = (if b then 1 else 0)"

fun rtl_encode :: "rtl_cmd \<Rightarrow> u8 list" where
  "rtl_encode (CenterFreq hz) = 0x01 # to_be_bytes hz"
| "rtl_encode (SampleRate hz) = 0x02 # to_be_bytes hz"
| "rtl_encode (GainMode manual) = 0x03 # to_be_bytes (bool_u32 manual)"
| "rtl_encode (TunerGain tenths) = 0x04 # to_be_bytes tenths"
| "rtl_encode (FreqCorrection ppm) = 0x05 # to_be_bytes ppm"
| "rtl_encode (DirectSampling mode) = 0x09 # to_be_bytes mode"
| "rtl_encode (BiasTee on) = 0x0E # to_be_bytes (bool_u32 on)"

text \<open>The float conversions: a gain in tenths of a dB as \<open>i32\<close>, a frequency as \<open>u32\<close>.\<close>

record 'n rtl_conv =
  rc_tenths :: "'n \<Rightarrow> i32"
  rc_hz :: "'n \<Rightarrow> u32"

definition hardware_cmds :: "'n rtl_conv \<Rightarrow> 'n sdr_control \<Rightarrow> bool \<Rightarrow> rtl_cmd list" where
  "hardware_cmds R c send_rate =
     (if send_rate then [SampleRate (sc_capture_rate c)] else []) @
     [FreqCorrection (sc_ppm c), DirectSampling (sc_direct_sampling c), BiasTee (sc_bias_tee c),
      GainMode (\<not> sc_gain_auto c)] @
     (if sc_gain_auto c then [] else [TunerGain (rc_tenths R (sc_gain_db c))]) @
     [CenterFreq (rc_hz R (sc_center c))]"

text \<open>Writes go out one after the other; \<open>Some (k, e)\<close>: the \<open>k\<close>th fails with \<open>e\<close>.\<close>

definition send_hardware :: "'n rtl_conv \<Rightarrow> 'n sdr_control \<Rightarrow> bool \<Rightarrow> (nat \<times> string) option \<Rightarrow>
    u8 list \<times> (unit, audio_error) result" where
  "send_hardware R c send_rate failure =
     (let cmds = hardware_cmds R c send_rate in case failure of
        Some (k, e) \<Rightarrow> if k < length cmds then (concat (map rtl_encode (take k cmds)), Err (AudioIo e))
          else (concat (map rtl_encode cmds), Ok ())
      | None \<Rightarrow> (concat (map rtl_encode cmds), Ok ()))"

section \<open>Connecting\<close>

text \<open>What an attempt meets: the control cell, the greeting (or no connection), a failing write.\<close>

record 'n conn_obs =
  cn_control :: "'n sdr_control"
  cn_greeting :: "(u8 list, string) result"
  cn_write_failure :: "(nat \<times> string) option"
  cn_clone_failure :: "string option"

definition connect_and_handshake :: "'n hz_math \<Rightarrow> 'n rtl_conv \<Rightarrow> 'n conn_obs \<Rightarrow> u8 list \<times> ('n tuner_caps, audio_error) result" where
  "connect_and_handshake H R ob = (case cn_greeting ob of
       Inl e \<Rightarrow> ([], Err (AudioIo e))
     | Inr bytes \<Rightarrow> (case parse_header bytes of
         None \<Rightarrow> ([], Err (AudioIo ''failed to fill whole buffer''))
       | Some (Inl e) \<Rightarrow> ([], Err e)
       | Some (Inr hdr) \<Rightarrow> (case send_hardware R (cn_control ob) True (cn_write_failure ob) of
           (sent, Inl e) \<Rightarrow> (sent, Err e)
         | (sent, Inr _) \<Rightarrow> (case cn_clone_failure ob of
             Some e \<Rightarrow> (sent, Err (AudioIo e)) | None \<Rightarrow> (sent, Ok (caps_from_header H hdr))))))"

definition backoff_steps :: nat where "backoff_steps = 6"

definition backoff_next :: "nat \<Rightarrow> nat" where
  "backoff_next idx = min (idx + 1) (backoff_steps - 1)"

text \<open>\<open>RECONNECT_BACKOFF\<close> in milliseconds, and the wait before the next attempt.\<close>

definition reconnect_backoff :: "nat list" where
  "reconnect_backoff = [100, 250, 500, 1000, 2000, 5000]"

definition backoff_wait_ms :: "nat \<Rightarrow> nat" where
  "backoff_wait_ms idx = reconnect_backoff ! min idx (length reconnect_backoff - 1)"

section \<open>The transport\<close>

record 'n transport =
  tr_caps :: "'n tuner_caps"
  tr_backoff :: nat
  tr_carry :: "u8 option"
  tr_last_rate :: "u32 option"

definition merge_iq_bytes :: "u8 option \<Rightarrow> u8 list \<Rightarrow> u8 list \<times> u8 option" where
  "merge_iq_bytes carry chunk =
     (let bytes = (case carry of None \<Rightarrow> chunk | Some c \<Rightarrow> c # chunk)
      in if length bytes mod 2 = 1 then (butlast bytes, Some (last bytes)) else (bytes, None))"

definition transport_connect :: "'n hz_math \<Rightarrow> 'n rtl_conv \<Rightarrow> 'n conn_obs \<Rightarrow> ('n transport, audio_error) result" where
  "transport_connect H R ob = (case connect_and_handshake H R ob of
       (_, Inl e) \<Rightarrow> Err e
     | (_, Inr caps) \<Rightarrow> Ok \<lparr>tr_caps = caps, tr_backoff = 0, tr_carry = None,
         tr_last_rate = Some (sc_capture_rate (cn_control ob))\<rparr>)"

text \<open>One turn of the reconnect loop: the stop flag before and after the wait, then an attempt.\<close>

record 'n attempt =
  at_stop :: bool
  at_stop_after :: bool
  at_conn :: "'n conn_obs"

fun reconnect_loop :: "'n hz_math \<Rightarrow> 'n rtl_conv \<Rightarrow> 'n attempt list \<Rightarrow> 'n transport \<Rightarrow> ('n transport \<times> bool) option" where
  "reconnect_loop H R [] tr = None"
| "reconnect_loop H R (a # as) tr =
     (if at_stop a then Some (tr, False)
      else let tr1 = tr\<lparr>tr_backoff := backoff_next (tr_backoff tr)\<rparr> in
        if at_stop_after a then Some (tr1, False)
        else case connect_and_handshake H R (at_conn a) of
            (_, Inr caps) \<Rightarrow> Some (tr1\<lparr>tr_caps := caps, tr_carry := None,
              tr_last_rate := Some (sc_capture_rate (cn_control (at_conn a)))\<rparr>, True)
          | (_, Inl e) \<Rightarrow> reconnect_loop H R as tr1)"

definition reconnect :: "'n hz_math \<Rightarrow> 'n rtl_conv \<Rightarrow> bool \<Rightarrow> 'n attempt list \<Rightarrow> 'n transport \<Rightarrow> ('n transport \<times> bool) option" where
  "reconnect H R steady as tr = reconnect_loop H R as (if steady then tr\<lparr>tr_backoff := 0\<rparr> else tr)"

text \<open>One turn of the read loop.\<close>

datatype sock_read = ReadBytes "u8 list" | ReadInterrupted | ReadFailed

record 'n read_obs =
  ro_stop :: bool
  ro_read :: sock_read
  ro_stop_after :: bool
  ro_stable :: bool
  ro_attempts :: "'n attempt list"

definition link_dropped :: "'n hz_math \<Rightarrow> 'n rtl_conv \<Rightarrow> 'n read_obs \<Rightarrow> 'n transport \<Rightarrow> ('n transport \<times> bool) option" where
  "link_dropped H R ob tr =
     (if ro_stop_after ob then Some (tr, False) else reconnect H R (ro_stable ob) (ro_attempts ob) tr)"

text \<open>The bytes handed to the pipeline, empty for the end, and the observations not used up.\<close>

fun read_iq :: "'n hz_math \<Rightarrow> 'n rtl_conv \<Rightarrow> 'n read_obs list \<Rightarrow> 'n transport \<Rightarrow>
    ('n transport \<times> u8 list \<times> 'n read_obs list) option" where
  "read_iq H R [] tr = None"
| "read_iq H R (ob # obs) tr =
     (if ro_stop ob then Some (tr, [], obs)
      else case ro_read ob of
          ReadInterrupted \<Rightarrow> read_iq H R obs tr
        | ReadBytes (b # bs) \<Rightarrow>
            (let (bytes, carry) = merge_iq_bytes (tr_carry tr) (b # bs); tr1 = tr\<lparr>tr_carry := carry\<rparr>
             in if bytes = [] then read_iq H R obs tr1 else Some (tr1, bytes, obs))
        | _ \<Rightarrow> (case link_dropped H R ob tr of
            None \<Rightarrow> None
          | Some (tr1, False) \<Rightarrow> Some (tr1, [], obs)
          | Some (tr1, True) \<Rightarrow> read_iq H R obs tr1))"

definition apply_hardware :: "'n rtl_conv \<Rightarrow> 'n sdr_control \<Rightarrow> (nat \<times> string) option \<Rightarrow> 'n transport \<Rightarrow>
    'n transport \<times> u8 list \<times> (unit, audio_error) result" where
  "apply_hardware R c failure tr =
     (let rate = sc_capture_rate c; send_rate = (tr_last_rate tr \<noteq> Some rate)
      in case send_hardware R c send_rate failure of
           (sent, Inl e) \<Rightarrow> (tr, sent, Err e)
         | (sent, Inr _) \<Rightarrow> (if send_rate then tr\<lparr>tr_last_rate := Some rate\<rparr> else tr, sent, Ok ()))"

section \<open>The backend\<close>

text \<open>\<open>open_capture\<close> up to the capture thread: the seeded control, the rates, the transport.\<close>

definition rtl_open_capture :: "'n hz_math \<Rightarrow> 'n rtl_conv \<Rightarrow> u32 \<Rightarrow> 'n sdr_control \<Rightarrow> u32 \<Rightarrow>
    ('n sdr_control \<Rightarrow> 'n conn_obs) \<Rightarrow> 'n sdr_control \<times> ('n transport \<times> u32, audio_error) result" where
  "rtl_open_capture H R backend_rate control requested conn =
     (let raw_mag = (sdr_demod control = RawMag);
          seed_rate = (if raw_mag then 2400000 else backend_rate);
          channel_rate = (if raw_mag then seed_rate else min requested 48000);
          control1 = set_capture_rate seed_rate control
      in case transport_connect H R (conn control1) of
           Inl e \<Rightarrow> (control1, Err e)
         | Inr tr \<Rightarrow> (control1\<lparr>sc_caps := Some (tr_caps tr)\<rparr>, Ok (tr, channel_rate)))"

definition rtl_open_playback :: "u32 \<Rightarrow> (unit, audio_error) result" where
  "rtl_open_playback requested = Err AudioUnsupported"

section \<open>The stream the pipeline sees\<close>

lemma read_iq_uses: "read_iq H R obs tr = Some (tr', bytes, rest) \<Longrightarrow> length rest < length obs"
  by (induction H R obs tr rule: read_iq.induct)
    (fastforce simp: Let_def split: if_splits sock_read.splits list.splits prod.splits option.splits bool.splits)+

text \<open>Reading again and again until the end: the blocks handed over, in order.\<close>

function iq_stream :: "'n hz_math \<Rightarrow> 'n rtl_conv \<Rightarrow> 'n read_obs list \<Rightarrow> 'n transport \<Rightarrow> u8 list list" where
  "iq_stream H R obs tr = (case read_iq H R obs tr of None \<Rightarrow> []
     | Some (tr', bytes, rest) \<Rightarrow> if bytes = [] then [] else bytes # iq_stream H R rest tr')"
  by pat_completeness auto
termination
  by (relation "measure (\<lambda>(H, R, obs, tr). length obs)") (auto dest: read_iq_uses)

declare iq_stream.simps [simp del]

text \<open>What each connection delivered, one list per connection.\<close>

fun connections :: "'n hz_math \<Rightarrow> 'n rtl_conv \<Rightarrow> 'n read_obs list \<Rightarrow> 'n transport \<Rightarrow> u8 list list" where
  "connections H R [] tr = [[]]"
| "connections H R (ob # obs) tr =
     (if ro_stop ob then [[]]
      else case ro_read ob of
          ReadInterrupted \<Rightarrow> connections H R obs tr
        | ReadBytes (b # bs) \<Rightarrow> (case connections H R obs tr of c # cs \<Rightarrow> ((b # bs) @ c) # cs | [] \<Rightarrow> [b # bs])
        | _ \<Rightarrow> (case link_dropped H R ob tr of Some (tr1, True) \<Rightarrow> [] # connections H R obs tr1 | _ \<Rightarrow> [[]]))"

definition whole_pairs :: "u8 list \<Rightarrow> u8 list" where
  "whole_pairs bs = take (2 * (length bs div 2)) bs"

definition carried :: "'n transport \<Rightarrow> u8 list" where
  "carried tr = (case tr_carry tr of None \<Rightarrow> [] | Some b \<Rightarrow> [b])"

lemma merge_iq_pairs:
  assumes "merge_iq_bytes carry chunk = (bytes, rest)"
  shows "bytes @ (case rest of None \<Rightarrow> [] | Some b \<Rightarrow> [b]) = (case carry of None \<Rightarrow> [] | Some b \<Rightarrow> [b]) @ chunk \<and>
    even (length bytes)"
proof -
  let ?all = "(case carry of None \<Rightarrow> [] | Some b \<Rightarrow> [b]) @ chunk"
  have "merge_iq_bytes carry chunk = (if odd (length ?all) then (butlast ?all, Some (last ?all)) else (?all, None))"
    unfolding merge_iq_bytes_def Let_def odd_iff_mod_2_eq_one by (cases carry) simp_all
  moreover have "odd (length xs) \<Longrightarrow> butlast xs @ [last xs] = xs \<and> even (length (butlast xs))" for xs :: "u8 list"
    by (cases xs rule: rev_cases) simp_all
  ultimately show ?thesis using assms
    by (cases "odd (length ?all)") (auto simp del: length_append butlast_append last_append)
qed

lemma whole_pairs_append: "even (length xs) \<Longrightarrow> whole_pairs (xs @ ys) = xs @ whole_pairs ys"
  by (auto simp: whole_pairs_def elim!: evenE)

lemma reconnect_loop_flag: "map_option snd (reconnect_loop H R as tr) = map_option snd (reconnect_loop H R as tr')"
  by (induction "as" arbitrary: tr tr') (simp_all add: Let_def split: prod.splits sum.splits)

lemma link_dropped_flag: "map_option snd (link_dropped H R ob tr) = map_option snd (link_dropped H R ob tr')"
  by (simp add: link_dropped_def reconnect_def reconnect_loop_flag [of H R _ "if ro_stable ob then _ else _"])

lemma reconnect_loop_carry: "reconnect_loop H R as tr = Some (tr', True) \<Longrightarrow> tr_carry tr' = None"
  by (induction "as" arbitrary: tr) (auto simp: Let_def split: if_splits prod.splits sum.splits)

lemma link_dropped_carry: "link_dropped H R ob tr = Some (tr', True) \<Longrightarrow> tr_carry tr' = None"
  by (auto simp: link_dropped_def reconnect_def dest: reconnect_loop_carry split: if_splits)

lemma connections_any: "connections H R obs tr = connections H R obs tr'"
proof (induction obs arbitrary: tr tr')
  case (Cons ob obs)
  have drop: "(case link_dropped H R ob tr of Some (tr1, True) \<Rightarrow> [] # connections H R obs tr1 | _ \<Rightarrow> [[]]) =
      (case link_dropped H R ob tr' of Some (tr1, True) \<Rightarrow> [] # connections H R obs tr1 | _ \<Rightarrow> [[]])"
    using link_dropped_flag [of H R ob tr tr'] Cons.IH
    by (auto split: option.splits bool.splits)
  show ?case using drop Cons.IH [of tr tr'] by (auto split: sock_read.splits list.splits)
qed simp

lemma connections_not_Nil: "connections H R obs tr \<noteq> []"
  by (induction obs arbitrary: tr) (auto split: sock_read.splits list.splits option.splits bool.splits)

lemma iq_stream_Nil [simp]: "iq_stream H R [] tr = []"
  by (simp add: iq_stream.simps)

lemma iq_stream_Cons:
  "iq_stream H R (ob # obs) tr =
     (if ro_stop ob then []
      else case ro_read ob of
          ReadInterrupted \<Rightarrow> iq_stream H R obs tr
        | ReadBytes (b # bs) \<Rightarrow>
            (let (bytes, carry) = merge_iq_bytes (tr_carry tr) (b # bs)
             in (if bytes = [] then [] else [bytes]) @ iq_stream H R obs (tr\<lparr>tr_carry := carry\<rparr>))
        | _ \<Rightarrow> (case link_dropped H R ob tr of Some (tr1, True) \<Rightarrow> iq_stream H R obs tr1 | _ \<Rightarrow> []))"
  by (subst iq_stream.simps)
    (auto simp: Let_def iq_stream.simps [of H R obs] split: sock_read.splits list.splits prod.splits option.splits bool.splits)

lemma iq_stream_bytes:
  "concat (iq_stream H R obs tr) =
     (case connections H R obs tr of c # cs \<Rightarrow> whole_pairs (carried tr @ c) @ concat (map whole_pairs cs) | [] \<Rightarrow> [])"
proof (induction obs arbitrary: tr)
  case Nil
  show ?case by (simp add: whole_pairs_def carried_def split: option.splits)
next
  case (Cons ob obs)
  have stop: "whole_pairs (carried tr) = []"
    by (simp add: whole_pairs_def carried_def split: option.splits)
  have dropped: ?case if "\<not> ro_stop ob" "ro_read ob = ReadFailed \<or> ro_read ob = ReadBytes []"
  proof -
    have "concat (iq_stream H R obs tr1) = concat (map whole_pairs (connections H R obs tr1))"
      if "link_dropped H R ob tr = Some (tr1, True)" for tr1
      using Cons.IH [of tr1] link_dropped_carry [OF that] connections_not_Nil [of H R obs tr1]
      by (auto simp: carried_def split: list.splits)
    with that stop show ?thesis
      by (auto simp: iq_stream_Cons split: option.splits bool.splits)
  qed
  show ?case
  proof (cases "ro_stop ob")
    case True
    with stop show ?thesis by (simp add: iq_stream_Cons)
  next
    case running: False
    show ?thesis
    proof (cases "ro_read ob")
      case ReadInterrupted
      with running Cons.IH show ?thesis by (simp add: iq_stream_Cons)
    next
      case ReadFailed
      with running dropped show ?thesis by simp
    next
      case (ReadBytes chunk)
      show ?thesis
      proof (cases chunk)
        case Nil
        with running ReadBytes dropped show ?thesis by simp
      next
        case (Cons b bs)
        obtain bytes carry where merge: "merge_iq_bytes (tr_carry tr) (b # bs) = (bytes, carry)" by fastforce
        let ?tr = "tr\<lparr>tr_carry := carry\<rparr>"
        obtain c cs where conn: "connections H R obs ?tr = c # cs"
          using connections_not_Nil [of H R obs ?tr] by (cases "connections H R obs ?tr") auto
        have conn': "connections H R obs tr = c # cs"
          using conn connections_any [of H R obs tr ?tr] by simp
        from merge_iq_pairs [OF merge]
        have pairs: "carried tr @ b # bs = bytes @ carried ?tr" "even (length bytes)"
          by (simp_all add: carried_def)
        have "whole_pairs (carried tr @ (b # bs) @ c) = whole_pairs (bytes @ carried ?tr @ c)"
          by (metis append_assoc pairs(1))
        also have "\<dots> = bytes @ whole_pairs (carried ?tr @ c)" by (rule whole_pairs_append [OF pairs(2)])
        finally have "whole_pairs (carried tr @ (b # bs) @ c) = bytes @ whole_pairs (carried ?tr @ c)" .
        then show ?thesis
          using running ReadBytes Cons merge conn conn' Cons.IH [of ?tr]
          by (simp add: iq_stream_Cons)
      qed
    qed
  qed
qed

lemma iq_stream_blk:
  assumes "blk \<in> set (iq_stream H R (ob # obs) tr)"
  shows "(\<exists>bs carry. ro_read ob = ReadBytes bs \<and> merge_iq_bytes (tr_carry tr) bs = (blk, carry) \<and> blk \<noteq> []) \<or>
     (\<exists>tr'. blk \<in> set (iq_stream H R obs tr'))"
proof -
  from assms have running: "\<not> ro_stop ob" by (auto simp: iq_stream_Cons)
  have drop: "\<exists>tr'. blk \<in> set (iq_stream H R obs tr')"
    if "blk \<in> set (case link_dropped H R ob tr of Some (tr1, True) \<Rightarrow> iq_stream H R obs tr1 | _ \<Rightarrow> [])"
    using that by (auto split: option.splits bool.splits)
  show ?thesis
  proof (cases "ro_read ob")
    case ReadInterrupted
    with assms running show ?thesis by (auto simp: iq_stream_Cons)
  next
    case ReadFailed
    with assms running drop show ?thesis by (simp add: iq_stream_Cons)
  next
    case (ReadBytes chunk)
    show ?thesis
    proof (cases chunk)
      case Nil
      with ReadBytes assms running drop show ?thesis by (simp add: iq_stream_Cons)
    next
      case (Cons b bs)
      obtain bytes carry where merge: "merge_iq_bytes (tr_carry tr) (b # bs) = (bytes, carry)" by fastforce
      with assms running ReadBytes Cons
      have "blk = bytes \<and> bytes \<noteq> [] \<or> blk \<in> set (iq_stream H R obs (tr\<lparr>tr_carry := carry\<rparr>))"
        by (auto simp: iq_stream_Cons split: if_splits)
      with ReadBytes Cons merge show ?thesis by blast
    qed
  qed
qed

lemma iq_stream_blocks:
  assumes "even B" "\<forall>ob\<in>set obs. \<forall>bs. ro_read ob = ReadBytes bs \<longrightarrow> length bs \<le> B" "blk \<in> set (iq_stream H R obs tr)"
  shows "blk \<noteq> [] \<and> even (length blk) \<and> length blk \<le> B"
  using assms(2,3)
proof (induction obs arbitrary: tr)
  case (Cons ob obs)
  have merged: "even (length bytes) \<and> length bytes \<le> B"
    if "merge_iq_bytes (tr_carry tr) bs = (bytes, carry)" "length bs \<le> B" for bs bytes carry
  proof -
    from merge_iq_pairs [OF that(1)] have "even (length bytes)" "length bytes \<le> length bs + 1"
      by (auto dest: arg_cong [of _ _ length] split: option.splits)
    with that(2) assms(1) show ?thesis by (cases "length bytes = B + 1") auto
  qed
  from iq_stream_blk [OF Cons.prems(2)] show ?case
  proof
    assume "\<exists>bs carry. ro_read ob = ReadBytes bs \<and> merge_iq_bytes (tr_carry tr) bs = (blk, carry) \<and> blk \<noteq> []"
    with merged Cons.prems(1) show ?thesis by auto
  next
    assume "\<exists>tr'. blk \<in> set (iq_stream H R obs tr')"
    with Cons.IH Cons.prems(1) show ?thesis by auto
  qed
qed simp

text \<open>
  C28: Reading the IQ stream until it ends hands the capture pipeline, in order and without a gap, the
  whole I/Q pairs of every connection: an odd byte left over by one read is carried into the next,
  a link that drops takes its half pair with it and the following connection starts on a fresh one.
  Every block handed over is a non-empty run of whole pairs that fits the read buffer's (even) size.
\<close>

theorem iq_pairs_survive_reconnects:
  assumes "tr_carry tr = None" "even B"
    "\<forall>ob\<in>set obs. \<forall>bs. ro_read ob = ReadBytes bs \<longrightarrow> length bs \<le> B"
  shows "concat (iq_stream H R obs tr) = concat (map whole_pairs (connections H R obs tr)) \<and>
    (\<forall>blk\<in>set (iq_stream H R obs tr). blk \<noteq> [] \<and> even (length blk) \<and> length blk \<le> B)"
proof
  show "concat (iq_stream H R obs tr) = concat (map whole_pairs (connections H R obs tr))"
    using iq_stream_bytes [of H R obs tr] connections_not_Nil [of H R obs tr] assms(1)
    by (auto simp: carried_def split: list.splits)
  show "\<forall>blk\<in>set (iq_stream H R obs tr). blk \<noteq> [] \<and> even (length blk) \<and> length blk \<le> B"
    using iq_stream_blocks [OF assms(2,3)] by blast
qed

definition demo_conv :: "string rtl_conv" where
  "demo_conv = \<lparr>rc_tenths = (\<lambda>_. 0), rc_hz = (\<lambda>_. 0)\<rparr>"

definition demo_dongle :: "string conn_obs" where
  "demo_dongle = \<lparr>cn_control = sdr_default demo_hz, cn_greeting = Ok [0x52, 0x54, 0x4C, 0x30, 0, 0, 0, 5, 0, 0, 0, 29],
     cn_write_failure = None, cn_clone_failure = None\<rparr>"

definition demo_transport :: "string transport" where
  "demo_transport = \<lparr>tr_caps = caps_from_header demo_hz \<lparr>rh_tuner_type = 5, rh_gain_count = 29\<rparr>,
     tr_backoff = 0, tr_carry = None, tr_last_rate = None\<rparr>"

definition demo_read :: "sock_read \<Rightarrow> string read_obs" where
  "demo_read r = \<lparr>ro_stop = False, ro_read = r, ro_stop_after = False, ro_stable = False,
     ro_attempts = [\<lparr>at_stop = False, at_stop_after = False, at_conn = demo_dongle\<rparr>]\<rparr>"

text \<open>Three bytes, a reset, then a second connection: the half pair of the first one is dropped.\<close>

definition demo_reads :: "string read_obs list" where
  "demo_reads = [demo_read (ReadBytes [1, 2, 3]), demo_read ReadFailed, demo_read (ReadBytes [10]),
     demo_read (ReadBytes [20])]"

lemma demo_link: "\<exists>tr'. link_dropped demo_hz demo_conv (demo_read r) tr = Some (tr', True)"
  by (simp add: link_dropped_def demo_read_def reconnect_def demo_dongle_def connect_and_handshake_def
      send_hardware_def Let_def)

lemma demo_connections: "connections demo_hz demo_conv demo_reads tr = [[1, 2, 3], [10, 20]]"
proof -
  obtain tr1 where "link_dropped demo_hz demo_conv (demo_read ReadFailed) tr = Some (tr1, True)"
    using demo_link by blast
  then show ?thesis by (simp add: demo_reads_def) (simp add: demo_read_def)
qed

theorem iq_pairs_survive_reconnects_witness:
  "concat (iq_stream demo_hz demo_conv demo_reads demo_transport) = [1, 2, 10, 20]"
proof -
  have "concat (iq_stream demo_hz demo_conv demo_reads demo_transport) =
      concat (map whole_pairs (connections demo_hz demo_conv demo_reads demo_transport))"
    by (rule conjunct1 [OF iq_pairs_survive_reconnects [where B = 4]])
      (simp_all add: demo_transport_def demo_reads_def demo_read_def)
  then show ?thesis by (simp add: demo_connections whole_pairs_def)
qed

end
