(* ===== verification/CapturePipeline.thy ===== *)
theory CapturePipeline
  imports SdrDemod Spectrum RtlTcp "HOL-Library.Sublist"
begin

text \<open>
  The capture thread of the SDR backends (\<open>audio/sdr/pipeline.rs\<close>): read IQ from the transport,
  follow the shared control cell, draw the waterfall, demodulate and deliver the audio without
  blocking. A run is the list of its turns, each with what the transport, the control cell, the clock
  and the bounded queue to the consumer yield in it. \<open>None\<close> is a panic of the DSP code.
\<close>

section \<open>Delivery\<close>

definition chunk_queue_depth :: nat where "chunk_queue_depth = 64"

datatype try_send = SendOk | SendFull | SendDisconnected

text \<open>As much of the backlog as the consumer takes: what it took, what is left, whether it is there.\<close>

fun flush_backlog :: "(nat \<Rightarrow> try_send) \<Rightarrow> nat \<Rightarrow> 'a list \<Rightarrow> 'a list \<times> 'a list \<times> bool" where
  "flush_backlog send k [] = ([], [], True)"
| "flush_backlog send k (c # cs) = (case send k of
     SendOk \<Rightarrow> (case flush_backlog send (Suc k) cs of (taken, rest, live) \<Rightarrow> (c # taken, rest, live))
   | SendFull \<Rightarrow> ([], c # cs, True)
   | SendDisconnected \<Rightarrow> ([], cs, False))"

text \<open>The oldest chunks dropped until the backlog fits, the running total, the totals logged.\<close>

fun shed :: "u64 \<Rightarrow> 'a list \<Rightarrow> 'a list \<times> u64 \<times> u64 list" where
  "shed tot [] = ([], tot, [])"
| "shed tot (c # cs) =
     (if length (c # cs) > chunk_queue_depth
      then (case shed (tot + 1) cs of (rest, tot', logged) \<Rightarrow>
        (rest, tot', (if tot + 1 = 1 \<or> (tot + 1) mod 64 = 0 then [tot + 1] else []) @ logged))
      else (c # cs, tot, []))"

definition deliver_audio :: "(nat \<Rightarrow> try_send) \<Rightarrow> 'a list \<Rightarrow> 'a \<Rightarrow> u64 \<Rightarrow> 'a list \<times> 'a list \<times> u64 \<times> u64 list \<times> bool" where
  "deliver_audio send backlog chunk tot = (case flush_backlog send 0 (backlog @ [chunk]) of
     (taken, rest, live) \<Rightarrow>
       if live then (case shed tot rest of (rest', tot', logged) \<Rightarrow> (taken, rest', tot', logged, True))
       else (taken, rest, tot, [], False))"

section \<open>The receiver for a control\<close>

fun u8_iq_to_cplx :: "'n fmath \<Rightarrow> u8 list \<Rightarrow> 'n cplx list" where
  "u8_iq_to_cplx F (i # q # bytes) =
     (let rail = (\<lambda>b. f_div F (f_sub F (f_nat F (unat b)) (f_lit F ''127.5'')) (f_lit F ''127.5''))
      in (rail i, rail q) # u8_iq_to_cplx F bytes)"
| "u8_iq_to_cplx F _ = []"

fun to_dsp :: "demod_mode \<Rightarrow> sdr_kind" where
  "to_dsp Nbfm = KindNbfm" | "to_dsp RawMag = KindNbfm" | "to_dsp Am = KindAm" | "to_dsp Wfm = KindWfm"
| "to_dsp DemodUsb = KindUsb" | "to_dsp DemodLsb = KindLsb"

definition effective_squelch :: "'n fmath \<Rightarrow> 'n sdr_control \<Rightarrow> 'n squelch" where
  "effective_squelch F c =
     (let db = sc_squelch_db c in if \<not> f_finite F db \<or> f_le F db (f_lit F ''-200.0'') then squelch_disabled F
      else squelch_new F db (f_lit F ''6.0''))"

definition build_rx :: "'n fmath \<Rightarrow> demod_mode \<Rightarrow> u32 \<Rightarrow> u32 \<Rightarrow> 'n \<Rightarrow> 'n sdr_control \<Rightarrow> 'n sdr_rx option option" where
  "build_rx F mode rate channel_rate deviation c =
     (if mode = RawMag then Some None
      else map_option Some (sdr_rx_new F (to_dsp mode) rate channel_rate (sc_offset c) deviation (effective_squelch F c)))"

section \<open>The loop\<close>

record 'n capture_state =
  ct_rate :: u32
  ct_mode :: demod_mode
  ct_rx :: "'n sdr_rx option"
  ct_gen :: u64
  ct_stft :: "'n cstft"
  ct_backlog :: "int list list"
  ct_dropped :: u64

record 'n turn =
  tn_read :: "(u8 list, audio_error) result"
  tn_generation :: u64
  tn_control :: "'n sdr_control"
  tn_clock :: "nat \<Rightarrow> u64"
  tn_send :: "nat \<Rightarrow> try_send"

record 'n turn_out =
  to_hardware :: "'n sdr_control list"
  to_events :: "'n telemetry list"
  to_produced :: "int list list"
  to_accepted :: "int list list"
  to_logged :: "u64 list"

definition no_output :: "'n turn_out" where
  "no_output = \<lparr>to_hardware = [], to_events = [], to_produced = [], to_accepted = [], to_logged = []\<rparr>"

text \<open>The start: the values read from the control cell, then the generation; the cell's count of drops.\<close>

definition capture_start :: "'n fmath \<Rightarrow> 'n \<Rightarrow> u32 \<Rightarrow> 'n sdr_control \<Rightarrow> u64 \<Rightarrow> u64 \<Rightarrow> 'n capture_state option" where
  "capture_start F deviation channel_rate c gen dropped =
     map_option (\<lambda>rx. \<lparr>ct_rate = sc_capture_rate c, ct_mode = sdr_demod c, ct_rx = rx, ct_gen = gen,
         ct_stft = cstft_new F 1024 1024, ct_backlog = [], ct_dropped = dropped\<rparr>)
       (build_rx F (sdr_demod c) (sc_capture_rate c) channel_rate deviation c)"

text \<open>Following the control; the last component: the controls handed to \<open>apply_hardware\<close>.\<close>

definition reconcile :: "'n fmath \<Rightarrow> 'n \<Rightarrow> u32 \<Rightarrow> 'n turn \<Rightarrow> 'n capture_state \<Rightarrow> ('n capture_state \<times> 'n sdr_control list) option" where
  "reconcile F deviation channel_rate tn s =
     (if tn_generation tn = ct_gen s then Some (s, [])
      else
        (let c = tn_control tn; s1 = s\<lparr>ct_gen := tn_generation tn\<rparr>; want_rate = sc_capture_rate c; want_mode = sdr_demod c;
             rate_changed = (want_rate \<noteq> ct_rate s \<and> want_rate \<noteq> 0)
         in if rate_changed \<or> want_mode \<noteq> ct_mode s
            then let rate = (if rate_changed then want_rate else ct_rate s)
              in map_option (\<lambda>rx. (s1\<lparr>ct_rate := rate, ct_mode := want_mode, ct_rx := rx\<rparr>, [c]))
                (build_rx F want_mode rate channel_rate deviation c)
            else Some (s1\<lparr>ct_rx := map_option (\<lambda>rx. sdr_set_squelch (effective_squelch F c) (sdr_retune F (sc_offset c) rx)) (ct_rx s)\<rparr>, [c])))"

definition emit_waterfall :: "'n fmath \<Rightarrow> ('n cplx list \<Rightarrow> 'n cplx list) \<Rightarrow> channel_id \<Rightarrow> u32 \<Rightarrow> 'n \<Rightarrow> (nat \<Rightarrow> u64) \<Rightarrow>
    'n cplx list \<Rightarrow> 'n cstft \<Rightarrow> ('n cstft \<times> 'n telemetry list) option" where
  "emit_waterfall F fft ch rate center clock iq st =
     (let r = f_nat F (unat rate); half = f_div F r (f_lit F ''2.0'')
      in case plan_new_centered F 1024 r (f_f32 F center) 256 (f_div F (f_neg F r) (f_lit F ''2.0'')) half of None \<Rightarrow> None
         | Some p \<Rightarrow>
           (let (st1, frames) = cstft_feed F fft iq st;
                lines = map (\<lambda>frame. render F p (full_spectrum_dbfs F frame (cs_window_sum st1))) frames
            in map_option (\<lambda>ls. (st1, map (\<lambda>(k, bins). SpectrumFrame ch (clock k) (sp_freq_start p) (sp_freq_step p)
                   (sp_db_floor p) (sp_db_ceiling p) bins False) (zip [0..<length ls] ls)))
                 (sequence_opt lines)))"

definition to_sample :: "'n fmath \<Rightarrow> 'n \<Rightarrow> int" where
  "to_sample F x =
     (let x1 = (if f_lt F x (f_lit F ''-1.0'') then f_lit F ''-1.0'' else x); x2 = (if f_lt F (f_one F) x1 then f_one F else x1)
      in f_to_i16 F (f_mul F x2 (f_lit F ''32767.0'')))"

definition demodulate :: "'n fmath \<Rightarrow> 'n cplx list \<Rightarrow> 'n sdr_rx option \<Rightarrow> ('n sdr_rx option \<times> 'n list) option" where
  "demodulate F iq rx = (case rx of
       Some r \<Rightarrow> map_option (map_prod Some id) (sdr_push_iq F iq r)
     | None \<Rightarrow> Some (None, map (\<lambda>c. f_mul F (c_norm F c) (f_lit F ''FRAC_1_SQRT_2'')) iq))"

text \<open>A block of IQ; the last component: the consumer is still there.\<close>

definition capture_block :: "'n fmath \<Rightarrow> ('n cplx list \<Rightarrow> 'n cplx list) \<Rightarrow> channel_id \<Rightarrow> bool \<Rightarrow> 'n \<Rightarrow> u32 \<Rightarrow> 'n turn \<Rightarrow> u8 list \<Rightarrow>
    'n capture_state \<Rightarrow> ('n capture_state \<times> 'n turn_out \<times> bool) option" where
  "capture_block F fft ch tele deviation channel_rate tn bytes s =
     (let iq = u8_iq_to_cplx F bytes
      in if iq = [] then Some (s, no_output, True)
         else case reconcile F deviation channel_rate tn s of None \<Rightarrow> None
         | Some (s1, hw) \<Rightarrow>
           (case (if tele then emit_waterfall F fft ch (ct_rate s1) (sc_center (tn_control tn)) (tn_clock tn) iq (ct_stft s1)
                  else Some (ct_stft s1, [])) of None \<Rightarrow> None
            | Some (st, events) \<Rightarrow>
              (case demodulate F iq (ct_rx s1) of None \<Rightarrow> None
               | Some (rx, audio) \<Rightarrow>
                 (let s2 = s1\<lparr>ct_stft := st, ct_rx := rx\<rparr>; out = no_output\<lparr>to_hardware := hw, to_events := events\<rparr>
                  in if audio = [] then Some (s2, out, True)
                     else let chunk = map (to_sample F) audio in
                       (case deliver_audio (tn_send tn) (ct_backlog s2) chunk (ct_dropped s2) of
                          (taken, rest, tot, logged, live) \<Rightarrow>
                            Some (s2\<lparr>ct_backlog := rest, ct_dropped := tot\<rparr>,
                              out\<lparr>to_produced := [chunk], to_accepted := taken, to_logged := logged\<rparr>, live))))))"

text \<open>Why a run is over: the observations, the transport (its end or an error), the consumer.\<close>

datatype capture_end = OutOfTurns | TransportEnded | ConsumerGone

fun run_capture :: "'n fmath \<Rightarrow> ('n cplx list \<Rightarrow> 'n cplx list) \<Rightarrow> channel_id \<Rightarrow> bool \<Rightarrow> 'n \<Rightarrow> u32 \<Rightarrow> 'n turn list \<Rightarrow>
    'n capture_state \<Rightarrow> ('n capture_state \<times> 'n turn_out list \<times> capture_end) option" where
  "run_capture F fft ch tele deviation channel_rate [] s = Some (s, [], OutOfTurns)"
| "run_capture F fft ch tele deviation channel_rate (tn # tns) s = (case tn_read tn of
     Inl e \<Rightarrow> Some (s, [], TransportEnded)
   | Inr [] \<Rightarrow> Some (s, [], TransportEnded)
   | Inr (b # bs) \<Rightarrow> (case capture_block F fft ch tele deviation channel_rate tn (b # bs) s of None \<Rightarrow> None
     | Some (s1, out, live) \<Rightarrow>
         if live then map_option (\<lambda>(s2, outs, e). (s2, out # outs, e)) (run_capture F fft ch tele deviation channel_rate tns s1)
         else Some (s1, [out], ConsumerGone)))"

section \<open>Delivery accounts for every chunk\<close>

lemma flush_backlog_split:
  "flush_backlog send k cs = (taken, rest, live) \<Longrightarrow> (if live then cs = taken @ rest else (\<exists>x. cs = taken @ x # rest))"
proof (induction cs arbitrary: k taken)
  case (Cons c cs)
  then show ?case by (fastforce split: try_send.splits prod.splits if_splits)
qed auto

lemma shed_split:
  "shed tot cs = (rest, tot', logged) \<Longrightarrow>
     \<exists>lost. cs = lost @ rest \<and> tot' = tot + of_nat (length lost) \<and> length rest \<le> chunk_queue_depth"
proof (induction cs arbitrary: tot logged)
  case (Cons c cs)
  show ?case
  proof (cases "length (c # cs) > chunk_queue_depth")
    case True
    with Cons.prems obtain logged' where "shed (tot + 1) cs = (rest, tot', logged')" by (auto split: prod.splits)
    from Cons.IH [OF this] obtain lost where "cs = lost @ rest" "tot' = tot + 1 + of_nat (length lost)" "length rest \<le> chunk_queue_depth"
      by blast
    then show ?thesis by (intro exI [of _ "c # lost"]) (simp add: algebra_simps)
  next
    case False
    with Cons.prems show ?thesis by (intro exI [of _ "[]"]) auto
  qed
qed auto

text \<open>From the waiting chunks and the new ones to what was taken, lost and left.\<close>

definition conserved :: "'a list \<Rightarrow> 'a list \<Rightarrow> 'a list \<Rightarrow> u64 \<Rightarrow> u64 \<Rightarrow> bool \<Rightarrow> bool" where
  "conserved before after taken tot tot' gone \<longleftrightarrow> subseq (taken @ after) before \<and>
     (\<exists>lost. tot' = tot + of_nat lost \<and> length before = length taken + length after + lost + (if gone then 1 else 0))"

lemma subseq_app: "subseq a b \<Longrightarrow> subseq c d \<Longrightarrow> subseq (a @ c) (b @ d)"
  by (rule list_emb_append_mono)

lemma subseq_drop: "subseq (a @ c) (a @ b @ c)"
proof -
  have "subseq c (b @ c)" by (induction b) auto
  then show ?thesis by (intro subseq_app subseq_order.order_refl)
qed

lemma conserved_refl [simp]: "conserved cs cs [] tot tot False"
  by (simp add: conserved_def)

lemma conserved_trans:
  assumes "conserved before mid taken tot tot1 False" "conserved (mid @ fresh) after taken' tot1 tot2 gone"
  shows "conserved (before @ fresh) after (taken @ taken') tot tot2 gone"
proof -
  have "subseq (taken @ taken' @ after) (taken @ mid @ fresh)"
    using assms(2) by (simp add: conserved_def subseq_app [of taken taken])
  also have "subseq (taken @ mid @ fresh) (before @ fresh)"
    using assms(1) subseq_app [of "taken @ mid" before fresh fresh] by (simp add: conserved_def)
  finally have "subseq ((taken @ taken') @ after) (before @ fresh)" by simp
  moreover from assms obtain lost lost' where
    "tot1 = tot + of_nat lost" "length before = length taken + length mid + lost"
    "tot2 = tot1 + of_nat lost'" "length (mid @ fresh) = length taken' + length after + lost' + (if gone then 1 else 0)"
    by (auto simp: conserved_def)
  then have "tot2 = tot + of_nat (lost + lost') \<and>
      length (before @ fresh) = length (taken @ taken') + length after + (lost + lost') + (if gone then 1 else 0)"
    by simp
  ultimately show ?thesis unfolding conserved_def by blast
qed

lemma deliver_audio_conserved:
  assumes "deliver_audio send backlog chunk tot = (taken, rest, tot', logged, live)"
  shows "conserved (backlog @ [chunk]) rest taken tot tot' (\<not> live)" "live \<Longrightarrow> length rest \<le> chunk_queue_depth"
proof -
  obtain taken0 rest0 live0 where f: "flush_backlog send 0 (backlog @ [chunk]) = (taken0, rest0, live0)"
    using prod_cases3 by blast
  note split = flush_backlog_split [OF f]
  show "conserved (backlog @ [chunk]) rest taken tot tot' (\<not> live)"
  proof (cases live0)
    case False
    with assms f have "taken = taken0" "rest = rest0" "tot' = tot" "\<not> live" by (auto simp: deliver_audio_def)
    moreover from False split obtain x where "backlog @ [chunk] = taken0 @ [x] @ rest0" by auto
    ultimately show ?thesis using subseq_drop [of taken0 rest0 "[x]"]
      unfolding conserved_def by (intro conjI exI [of _ 0]) simp_all
  next
    case True
    with assms f have out: "taken = taken0" "shed tot rest0 = (rest, tot', logged)" live
      by (auto simp: deliver_audio_def split: prod.splits)
    from shed_split [OF out(2)] obtain lost where lost: "rest0 = lost @ rest" "tot' = tot + of_nat (length lost)" by blast
    with True split have "backlog @ [chunk] = taken0 @ lost @ rest" by simp
    with out lost subseq_drop [of taken0 rest lost] show ?thesis
      unfolding conserved_def by (intro conjI exI [of _ "length lost"]) simp_all
  qed
  show "length rest \<le> chunk_queue_depth" if live
    using assms f that shed_split [of tot rest0 rest tot' logged]
    by (auto simp: deliver_audio_def split: if_splits prod.splits)
qed

lemma capture_block_conserved:
  assumes "capture_block F fft ch tele dev chr tn bytes s = Some (s', out, live)"
  shows "conserved (ct_backlog s @ to_produced out) (ct_backlog s') (to_accepted out) (ct_dropped s) (ct_dropped s') (\<not> live) \<and>
    (live \<longrightarrow> length (ct_backlog s) \<le> chunk_queue_depth \<longrightarrow> length (ct_backlog s') \<le> chunk_queue_depth)"
proof -
  have rec: "ct_backlog s1 = ct_backlog s \<and> ct_dropped s1 = ct_dropped s" if "reconcile F dev chr tn s = Some (s1, hw)" for s1 hw
    using that by (auto simp: reconcile_def Let_def split: if_splits)
  show ?thesis
    using assms rec
    by (auto simp: capture_block_def no_output_def Let_def dest: deliver_audio_conserved
        split: if_splits option.splits prod.splits)
qed

lemma run_capture_conserved:
  assumes "run_capture F fft ch tele dev chr tns s = Some (s', outs, e)" "length (ct_backlog s) \<le> chunk_queue_depth"
  shows "conserved (ct_backlog s @ concat (map to_produced outs)) (ct_backlog s') (concat (map to_accepted outs))
      (ct_dropped s) (ct_dropped s') (e = ConsumerGone) \<and>
    (e \<noteq> ConsumerGone \<longrightarrow> length (ct_backlog s') \<le> chunk_queue_depth)"
  using assms
proof (induction tns arbitrary: s outs)
  case (Cons tn tns)
  show ?case
  proof (cases "tn_read tn")
    case (Inl err)
    with Cons.prems show ?thesis by auto
  next
    case (Inr bytes)
    show ?thesis
    proof (cases bytes)
      case Nil
      with Inr Cons.prems show ?thesis by auto
    next
      case (Cons b bs)
      with Inr Cons.prems(1) obtain s1 out live where blk: "capture_block F fft ch tele dev chr tn (b # bs) s = Some (s1, out, live)"
        by (auto split: option.splits)
      note one = capture_block_conserved [OF blk]
      show ?thesis
      proof (cases live)
        case False
        with Inr Cons Cons.prems(1) blk one show ?thesis by auto
      next
        case True
        with Inr Cons Cons.prems(1) blk obtain outs1 where
          rest: "run_capture F fft ch tele dev chr tns s1 = Some (s', outs1, e)" "outs = out # outs1"
          by auto
        have len: "length (ct_backlog s1) \<le> chunk_queue_depth" using one True Cons.prems(2) by simp
        from Cons.IH [OF rest(1) len] one True rest(2) show ?thesis
          using conserved_trans [of "ct_backlog s @ to_produced out" "ct_backlog s1" "to_accepted out" "ct_dropped s" "ct_dropped s1"
            "concat (map to_produced outs1)" "ct_backlog s'" "concat (map to_accepted outs1)" "ct_dropped s'" "e = ConsumerGone"]
          by simp
      qed
    qed
  qed
qed simp

section \<open>The receiver follows the control\<close>

definition rx_for :: "'n fmath \<Rightarrow> 'n \<Rightarrow> u32 \<Rightarrow> 'n sdr_control \<Rightarrow> 'n sdr_rx option" where
  "rx_for F dev chr c = sdr_rx_new F (to_dsp (sdr_demod c)) (sc_capture_rate c) chr (sc_offset c) dev (effective_squelch F c)"

text \<open>The state's receiver is set as one newly built for the control would be, and always answers.\<close>

definition follows :: "'n fmath \<Rightarrow> 'n \<Rightarrow> u32 \<Rightarrow> 'n sdr_control \<Rightarrow> 'n capture_state \<Rightarrow> bool" where
  "follows F dev chr c s \<longleftrightarrow> ct_mode s = sdr_demod c \<and> ct_rate s = sc_capture_rate c \<and>
     (case ct_rx s of None \<Rightarrow> sdr_demod c = RawMag
      | Some rx \<Rightarrow> sdr_demod c \<noteq> RawMag \<and> sdr_ready F rx \<and>
          (\<exists>fresh. rx_for F dev chr c = Some fresh \<and> sdr_reset F rx = sdr_reset F fresh))"

definition stft_ok :: "'n cstft \<Rightarrow> bool" where
  "stft_ok st \<longleftrightarrow> cs_nfft st = 1024 \<and> cs_hop st = 1024 \<and> length (cs_window st) = 1024 \<and> length (cs_buf st) < 1024"

lemma build_rx_follows:
  assumes "0 < sc_capture_rate c" "0 < chr"
  shows "\<exists>rx. build_rx F (sdr_demod c) (sc_capture_rate c) chr dev c = Some rx \<and>
    (\<forall>s. ct_mode s = sdr_demod c \<longrightarrow> ct_rate s = sc_capture_rate c \<longrightarrow> ct_rx s = rx \<longrightarrow> follows F dev chr c s)"
proof (cases "sdr_demod c = RawMag")
  case True
  then show ?thesis by (simp add: build_rx_def follows_def)
next
  case False
  from sdr_rx_new_ready [OF assms, of F "to_dsp (sdr_demod c)" "sc_offset c" dev "effective_squelch F c"] False
  show ?thesis by (auto simp: build_rx_def follows_def rx_for_def)
qed

lemma follows_retuned:
  assumes "follows F dev chr c s" "sdr_demod c' = sdr_demod c" "sc_capture_rate c' = sc_capture_rate c"
    and "ct_mode s' = ct_mode s" "ct_rate s' = ct_rate s"
    and "ct_rx s' = map_option (\<lambda>rx. sdr_set_squelch (effective_squelch F c') (sdr_retune F (sc_offset c') rx)) (ct_rx s)"
  shows "follows F dev chr c' s'"
proof (cases "ct_rx s")
  case None
  with assms show ?thesis by (simp add: follows_def)
next
  case (Some rx)
  with assms(1) obtain fresh where rx: "sdr_ready F rx" "rx_for F dev chr c = Some fresh" "sdr_reset F rx = sdr_reset F fresh"
    "sdr_demod c \<noteq> RawMag"
    by (auto simp: follows_def)
  let ?set = "\<lambda>rx. sdr_set_squelch (effective_squelch F c') (sdr_retune F (sc_offset c') rx)"
  have "rx_for F dev chr c' = map_option ?set (rx_for F dev chr c)"
    unfolding rx_for_def assms(2,3) by (rule retune_new)
  moreover have "sdr_reset F (?set rx) = sdr_reset F (?set fresh)" by (simp add: retune_reset rx(3))
  moreover have "sdr_ready F (?set rx)" using rx(1) by (simp add: sdr_ready_def sdr_set_squelch_def sdr_retune_def)
  ultimately show ?thesis using assms Some rx by (simp add: follows_def)
qed

lemma reconcile_follows:
  assumes "follows F dev chr c s" "0 < sc_capture_rate (tn_control tn)" "0 < chr"
    and "tn_generation tn = ct_gen s \<Longrightarrow> tn_control tn = c"
  shows "\<exists>s' hw. reconcile F dev chr tn s = Some (s', hw) \<and> follows F dev chr (tn_control tn) s' \<and>
    ct_gen s' = tn_generation tn \<and> ct_stft s' = ct_stft s \<and>
    hw = (if tn_generation tn = ct_gen s then [] else [tn_control tn])"
proof (cases "tn_generation tn = ct_gen s")
  case True
  with assms show ?thesis by (simp add: reconcile_def)
next
  case False
  let ?c = "tn_control tn"
  show ?thesis
  proof (cases "sc_capture_rate ?c \<noteq> ct_rate s \<or> sdr_demod ?c \<noteq> ct_mode s")
    case True
    let ?s = "s\<lparr>ct_gen := tn_generation tn, ct_rate := sc_capture_rate ?c, ct_mode := sdr_demod ?c\<rparr>"
    obtain rx where rx: "build_rx F (sdr_demod ?c) (sc_capture_rate ?c) chr dev ?c = Some rx"
      "\<forall>s. ct_mode s = sdr_demod ?c \<longrightarrow> ct_rate s = sc_capture_rate ?c \<longrightarrow> ct_rx s = rx \<longrightarrow> follows F dev chr ?c s"
      using build_rx_follows [OF assms(2,3), of F dev] by blast
    then have "follows F dev chr ?c (?s\<lparr>ct_rx := rx\<rparr>)" by simp
    note rx = rx(1) this
    have nz: "sc_capture_rate ?c \<noteq> 0" using assms(2) by auto
    have rate: "(if sc_capture_rate ?c \<noteq> ct_rate s \<and> sc_capture_rate ?c \<noteq> 0 then sc_capture_rate ?c else ct_rate s) = sc_capture_rate ?c"
      using nz by simp
    have cond: "(sc_capture_rate ?c \<noteq> ct_rate s \<and> sc_capture_rate ?c \<noteq> 0 \<or> sdr_demod ?c \<noteq> ct_mode s) = True"
      using True nz by simp
    have "reconcile F dev chr tn s = map_option (\<lambda>rx. (?s\<lparr>ct_rx := rx\<rparr>, [?c]))
        (build_rx F (sdr_demod ?c) (sc_capture_rate ?c) chr dev ?c)"
      unfolding reconcile_def Let_def cond rate using False by simp
    then have "reconcile F dev chr tn s = Some (?s\<lparr>ct_rx := rx\<rparr>, [?c])" unfolding rx(1) by simp
    with False rx(2) show ?thesis by simp
  next
    case same: False
    with False have "reconcile F dev chr tn s = Some (s\<lparr>ct_gen := tn_generation tn, ct_rx := map_option
        (\<lambda>rx. sdr_set_squelch (effective_squelch F ?c) (sdr_retune F (sc_offset ?c) rx)) (ct_rx s)\<rparr>, [?c])"
      by (simp add: reconcile_def Let_def)
    moreover have "sdr_demod ?c = sdr_demod c" "sc_capture_rate ?c = sc_capture_rate c"
      using same assms(1) by (simp_all add: follows_def)
    ultimately show ?thesis using False follows_retuned [OF assms(1)] by simp
  qed
qed

lemma demodulate_follows:
  assumes "follows F dev chr c s"
  shows "\<exists>rx audio. demodulate F iq (ct_rx s) = Some (rx, audio) \<and> follows F dev chr c (s\<lparr>ct_rx := rx\<rparr>)"
proof (cases "ct_rx s")
  case None
  with assms show ?thesis by (simp add: demodulate_def follows_def)
next
  case (Some rx)
  with assms have "sdr_ready F rx" by (simp add: follows_def)
  from sdr_push_ready [OF this, of iq] obtain rx' audio where
    push: "sdr_push_iq F iq rx = Some (rx', audio)" "sdr_ready F rx'" by blast
  with Some assms sdr_push_reset [OF push(1)] show ?thesis by (simp add: demodulate_def follows_def)
qed

lemma follows_cong: "ct_mode s' = ct_mode s \<Longrightarrow> ct_rate s' = ct_rate s \<Longrightarrow> ct_rx s' = ct_rx s \<Longrightarrow> follows F dev chr c s' = follows F dev chr c s"
  by (simp add: follows_def)

lemma cstft_feed_ok:
  assumes "stft_ok st" "\<And>zs. length (fft zs) = length zs" "cstft_feed F fft zs st = (st', frames)"
  shows "stft_ok st' \<and> (\<forall>frame\<in>set frames. length frame = 1024)"
  using assms(1,3)
proof (induction zs arbitrary: st frames)
  case (Cons z zs)
  show ?case
  proof (cases "length (cs_buf st) = 1023")
    case True
    let ?st = "st\<lparr>cs_buf := []\<rparr>"
    obtain frames1 where rest: "cstft_feed F fft zs ?st = (st', frames1)"
      "frames = fft (map2 (\<lambda>z w. (f_mul F (fst z) w, f_mul F (snd z) w)) (cs_buf st @ [z]) (cs_window st)) # frames1"
      using Cons.prems True by (cases "cstft_feed F fft zs ?st") (auto simp: Let_def stft_ok_def)
    have "stft_ok ?st" using Cons.prems(1) by (simp add: stft_ok_def)
    from Cons.IH [OF this rest(1)] True Cons.prems(1) rest(2) assms(2) show ?thesis
      by (simp add: stft_ok_def)
  next
    case False
    let ?st = "st\<lparr>cs_buf := cs_buf st @ [z]\<rparr>"
    have "stft_ok ?st" using Cons.prems(1) False by (simp add: stft_ok_def)
    from Cons.IH [OF this] False Cons.prems show ?thesis by (simp add: stft_ok_def)
  qed
qed simp

lemma sequence_opt_total: "(\<forall>x\<in>set xs. x \<noteq> None) \<Longrightarrow> \<exists>ys. sequence_opt xs = Some ys"
  by (induction xs rule: sequence_opt.induct) auto

lemma plan_centered_total: "0 < nfft \<Longrightarrow> \<exists>p. plan_new_centered F nfft rate center req lo hi = Some p"
  by (simp add: plan_new_centered_def int_clamp_def Let_def)

lemma emit_waterfall_ok:
  assumes "stft_ok st" "\<And>zs. length (fft zs) = length zs" "f_le F (f_zero F) (f_one F)"
  shows "\<exists>st' events. emit_waterfall F fft ch rate center clock iq st = Some (st', events) \<and> stft_ok st'"
proof -
  let ?r = "f_nat F (unat rate)"
  obtain p where p: "plan_new_centered F 1024 ?r (f_f32 F center) 256 (f_div F (f_neg F ?r) (f_lit F ''2.0''))
      (f_div F ?r (f_lit F ''2.0'')) = Some p"
    using plan_centered_total [of 1024] by fastforce
  obtain st' frames where feed: "cstft_feed F fft iq st = (st', frames)" by fastforce
  from cstft_feed_ok [OF assms(1,2) feed] have ok: "stft_ok st'" "\<forall>frame\<in>set frames. length frame = 1024" by blast+
  have "render F p (full_spectrum_dbfs F frame w) \<noteq> None" if "frame \<in> set frames" for frame w
    using render_total [OF assms(3), of p "full_spectrum_dbfs F frame w"]
      centered_buckets [OF p, of "full_spectrum_dbfs F frame w"] ok(2) that
    by (auto simp: full_spectrum_dbfs_def Let_def)
  then obtain ls where "sequence_opt (map (\<lambda>frame. render F p (full_spectrum_dbfs F frame (cs_window_sum st'))) frames) = Some ls"
    using sequence_opt_total [of "map (\<lambda>frame. render F p (full_spectrum_dbfs F frame (cs_window_sum st'))) frames"] by auto
  with p feed ok(1) show ?thesis by (simp add: emit_waterfall_def Let_def)
qed

lemma iq_empty: "u8_iq_to_cplx F bytes = [] \<longleftrightarrow> length bytes < 2"
  by (cases "(F, bytes)" rule: u8_iq_to_cplx.cases) (simp_all add: Let_def)

lemma capture_block_follows:
  assumes "follows F dev chr c s" "stft_ok (ct_stft s)" "0 < sc_capture_rate (tn_control tn)" "0 < chr"
    and "tn_generation tn = ct_gen s \<Longrightarrow> tn_control tn = c"
    and dsp: "\<And>zs. length (fft zs) = length zs" "f_le F (f_zero F) (f_one F)" and "2 \<le> length bytes"
  shows "\<exists>s' out live. capture_block F fft ch tele dev chr tn bytes s = Some (s', out, live) \<and>
    follows F dev chr (tn_control tn) s' \<and> stft_ok (ct_stft s') \<and> ct_gen s' = tn_generation tn \<and>
    to_hardware out = (if tn_generation tn = ct_gen s then [] else [tn_control tn])"
proof -
  let ?iq = "u8_iq_to_cplx F bytes" and ?hw = "if tn_generation tn = ct_gen s then [] else [tn_control tn]"
  have iq: "?iq \<noteq> []" using assms(8) by (simp add: iq_empty)
  from reconcile_follows [OF assms(1,3,4,5)] obtain s1 where s1: "reconcile F dev chr tn s = Some (s1, ?hw)"
    "follows F dev chr (tn_control tn) s1" "ct_gen s1 = tn_generation tn" "ct_stft s1 = ct_stft s" by blast
  obtain st events where st: "(if tele then emit_waterfall F fft ch (ct_rate s1) (sc_center (tn_control tn)) (tn_clock tn) ?iq (ct_stft s1)
       else Some (ct_stft s1, [])) = Some (st, events)" "stft_ok st"
  proof (cases tele)
    case True
    with emit_waterfall_ok [OF assms(2) dsp, of ch "ct_rate s1" "sc_center (tn_control tn)" "tn_clock tn" ?iq] s1(4) show ?thesis
      by (auto intro: that)
  next
    case False
    with assms(2) s1(4) show ?thesis by (auto intro: that)
  qed
  from demodulate_follows [OF s1(2), of ?iq] obtain rx audio where
    rx: "demodulate F ?iq (ct_rx s1) = Some (rx, audio)" "follows F dev chr (tn_control tn) (s1\<lparr>ct_rx := rx\<rparr>)" by blast
  have same: "follows F dev chr (tn_control tn) s'" if "ct_mode s' = ct_mode s1" "ct_rate s' = ct_rate s1" "ct_rx s' = rx" for s'
    using rx(2) that follows_cong [of s' "s1\<lparr>ct_rx := rx\<rparr>"] by simp
  show ?thesis
  proof (cases "audio = []")
    case True
    with iq s1 st rx same show ?thesis
      unfolding capture_block_def Let_def by (simp add: no_output_def) (rule exI [of _ True], rule TrueI)
  next
    case False
    obtain taken rest tot logged live where "deliver_audio (tn_send tn) (ct_backlog s1) (map (to_sample F) audio) (ct_dropped s1) =
        (taken, rest, tot, logged, live)"
      using prod_cases5 by blast
    with False iq s1 st rx same show ?thesis
      unfolding capture_block_def Let_def by (simp add: no_output_def)
  qed
qed

text \<open>The generations that are new against the one before.\<close>

fun remdups_adj_from :: "'a \<Rightarrow> 'a list \<Rightarrow> 'a list" where
  "remdups_adj_from g [] = []"
| "remdups_adj_from g (x # xs) = (if x = g then [] else [x]) @ remdups_adj_from x xs"

text \<open>The turns a run takes part in: up to the end of the transport or the consumer.\<close>

lemma run_capture_follows:
  assumes ctl: "\<forall>tn\<in>set tns. tn_control tn = ctl (tn_generation tn)" "\<And>g. 0 < sc_capture_rate (ctl g)"
    and pairs: "\<forall>tn\<in>set tns. \<forall>bs. tn_read tn = Ok bs \<longrightarrow> length bs \<noteq> 1"
    and dsp: "\<And>zs. length (fft zs) = length zs" "f_le F (f_zero F) (f_one F)" "0 < chr"
    and start: "follows F dev chr (ctl (ct_gen s)) s" "stft_ok (ct_stft s)"
  shows "\<exists>s' outs e. run_capture F fft ch tele dev chr tns s = Some (s', outs, e) \<and> follows F dev chr (ctl (ct_gen s')) s' \<and>
    (e = OutOfTurns \<longrightarrow> length outs = length tns) \<and>
    (if outs = [] then ct_gen s' = ct_gen s else ct_gen s' = tn_generation (tns ! (length outs - 1))) \<and>
    concat (map to_hardware outs) = map ctl (remdups_adj_from (ct_gen s) (map tn_generation (take (length outs) tns)))"
  using ctl(1) pairs start
proof (induction tns arbitrary: s)
  case (Cons tn tns)
  show ?case
  proof (cases "tn_read tn = Ok [] \<or> (\<exists>e. tn_read tn = Err e)")
    case True
    with Cons.prems show ?thesis by auto
  next
    case False
    then obtain b bs where read: "tn_read tn = Ok (b # bs)" by (cases "tn_read tn") (auto simp: neq_Nil_conv)
    with Cons.prems(2) have len: "2 \<le> length (b # bs)" by (cases bs) auto
    have control: "tn_control tn = ctl (tn_generation tn)" using Cons.prems(1) by simp
    then have "tn_generation tn = ct_gen s \<Longrightarrow> tn_control tn = ctl (ct_gen s)" by simp
    moreover have "0 < sc_capture_rate (tn_control tn)" using control ctl(2) by simp
    ultimately obtain s1 out live where blk: "capture_block F fft ch tele dev chr tn (b # bs) s = Some (s1, out, live)"
      "follows F dev chr (ctl (ct_gen s1)) s1" "stft_ok (ct_stft s1)" "ct_gen s1 = tn_generation tn"
      "to_hardware out = (if tn_generation tn = ct_gen s then [] else [ctl (tn_generation tn)])"
      using capture_block_follows [where fft = fft and ch = ch and tele = tele and tn = tn, OF Cons.prems(3,4) _ dsp(3) _ dsp(1,2) len] control by metis
    show ?thesis
    proof (cases live)
      case False
      with read blk show ?thesis by simp
    next
      case True
      have later: "\<forall>tn\<in>set tns. tn_control tn = ctl (tn_generation tn)"
        "\<forall>tn\<in>set tns. \<forall>bs. tn_read tn = Ok bs \<longrightarrow> length bs \<noteq> 1"
        using Cons.prems(1,2) by simp_all
      from Cons.IH [OF later blk(2,3)] obtain s' outs e where
        rest: "run_capture F fft ch tele dev chr tns s1 = Some (s', outs, e)" "follows F dev chr (ctl (ct_gen s')) s'"
        "e = OutOfTurns \<longrightarrow> length outs = length tns"
        "if outs = [] then ct_gen s' = ct_gen s1 else ct_gen s' = tn_generation (tns ! (length outs - 1))"
        "concat (map to_hardware outs) = map ctl (remdups_adj_from (ct_gen s1) (map tn_generation (take (length outs) tns)))"
        by blast
      have "if (out # outs) = [] then ct_gen s' = ct_gen s else ct_gen s' = tn_generation ((tn # tns) ! (length (out # outs) - 1))"
        using rest(4) blk(4) by (cases outs) auto
      with True read blk rest show ?thesis by simp
    qed
  qed
qed simp

section \<open>Properties\<close>

definition capture_demo_control :: "u64 \<Rightarrow> rat sdr_control" where
  "capture_demo_control g = set_demod_mode RawMag (sdr_default (exact_math rat_lit (\<lambda>x. x)))"

definition capture_demo_turn :: "u64 \<Rightarrow> rat turn" where
  "capture_demo_turn g = \<lparr>tn_read = Ok [200, 60, 10, 20], tn_generation = g, tn_control = capture_demo_control g,
     tn_clock = (\<lambda>_. 0), tn_send = (\<lambda>_. SendFull)\<rparr>"

lemma capture_demo_rate: "sc_capture_rate (capture_demo_control g) = 240000"
  by (simp add: capture_demo_control_def sdr_setter_defs sdr_default_def default_capture_rate_def)

lemma capture_runs:
  assumes "\<forall>tn\<in>set tns. tn_control tn = ctl (tn_generation tn)" "\<forall>g. 0 < sc_capture_rate (ctl g)"
    and "\<forall>tn\<in>set tns. \<forall>bs. tn_read tn = Ok bs \<longrightarrow> length bs \<noteq> 1"
    and "\<forall>zs. length (fft zs) = length zs" "f_le F (f_zero F) (f_one F)" "0 < chr"
  shows "\<exists>s s' outs e. capture_start F dev chr (ctl g0) g0 dropped = Some s \<and>
    run_capture F fft ch tele dev chr tns s = Some (s', outs, e) \<and> (e = OutOfTurns \<longrightarrow> length outs = length tns) \<and>
    (let g = (if outs = [] then g0 else tn_generation (tns ! (length outs - 1))) in
      ct_gen s' = g \<and> follows F dev chr (ctl g) s' \<and>
      concat (map to_hardware outs) = map ctl (remdups_adj_from g0 (map tn_generation (take (length outs) tns))))"
proof -
  from assms(2) have rate: "0 < sc_capture_rate (ctl g)" for g by blast
  obtain rx where rx: "build_rx F (sdr_demod (ctl g0)) (sc_capture_rate (ctl g0)) chr dev (ctl g0) = Some rx"
    "\<forall>s. ct_mode s = sdr_demod (ctl g0) \<longrightarrow> ct_rate s = sc_capture_rate (ctl g0) \<longrightarrow> ct_rx s = rx \<longrightarrow> follows F dev chr (ctl g0) s"
    using build_rx_follows [OF rate [of g0] assms(6), where F = F and dev = dev] by blast
  let ?s = "\<lparr>ct_rate = sc_capture_rate (ctl g0), ct_mode = sdr_demod (ctl g0), ct_rx = rx, ct_gen = g0,
    ct_stft = cstft_new F 1024 1024, ct_backlog = [], ct_dropped = dropped\<rparr>"
  have start: "capture_start F dev chr (ctl g0) g0 dropped = Some ?s"
    by (simp add: capture_start_def rx(1))
  have "follows F dev chr (ctl (ct_gen ?s)) ?s" using rx(2) by simp
  moreover have "stft_ok (ct_stft ?s)" by (simp add: stft_ok_def cstft_new_def hann_def)
  ultimately obtain s' outs e where run: "run_capture F fft ch tele dev chr tns ?s = Some (s', outs, e)"
    "follows F dev chr (ctl (ct_gen s')) s'" "e = OutOfTurns \<longrightarrow> length outs = length tns"
    "if outs = [] then ct_gen s' = ct_gen ?s else ct_gen s' = tn_generation (tns ! (length outs - 1))"
    "concat (map to_hardware outs) = map ctl (remdups_adj_from (ct_gen ?s) (map tn_generation (take (length outs) tns)))"
    using run_capture_follows [where s = ?s and fft = fft and ch = ch and tele = tele and ctl = ctl and F = F,
        OF assms(1) rate assms(3) _ assms(5,6)] assms(4) by blast
  have "ct_gen s' = (if outs = [] then g0 else tn_generation (tns ! (length outs - 1)))" using run(4) by (simp split: if_splits)
  with start run show ?thesis unfolding Let_def by (intro exI [of _ ?s] exI [of _ s'] exI [of _ outs] exI [of _ e]) simp
qed

lemma capture_demo_run:
  "\<exists>s s' outs e. capture_start rat_math 5000 48000 (capture_demo_control 3) 3 0 = Some s \<and>
    run_capture rat_math (\<lambda>zs. zs) 1 True 5000 48000 [capture_demo_turn 3, capture_demo_turn 7] s = Some (s', outs, e)"
  using capture_runs [of "[capture_demo_turn 3, capture_demo_turn 7]" capture_demo_control "\<lambda>zs. zs" rat_math 48000 5000 3 0 1 True]
  by (auto simp: capture_demo_turn_def capture_demo_rate rat_math_def rat_lit_def)

text \<open>
  C13: The capture thread does what the control cell says when it reads a generation and its values
  together, at the start and on every turn (the code reads the values first and the generation after
  them, and an update in between is missed: lemma \<open>unseen_change_is_never_applied\<close>). Assume further
  that every capture rate and the channel rate are positive, that the transport never delivers a single
  byte, that the Fourier transform keeps the length of its input and that 0 is at most 1. Then the thread
  never panics, it ends only with the transport or the consumer, and after every turn its receiver is
  the one that a restart with the current control would build, apart from the running state of its
  filters, or none in the raw-magnitude mode; the transport was told each new generation exactly
  once, in order.
\<close>

theorem capture_follows_control:
  assumes "\<forall>tn\<in>set tns. tn_control tn = ctl (tn_generation tn)" "\<forall>g. 0 < sc_capture_rate (ctl g)"
    and "\<forall>tn\<in>set tns. \<forall>bs. tn_read tn = Ok bs \<longrightarrow> length bs \<noteq> 1"
    and "\<forall>zs. length (fft zs) = length zs" "f_le F (f_zero F) (f_one F)" "0 < chr"
  shows "\<exists>s s' outs e. capture_start F dev chr (ctl g0) g0 dropped = Some s \<and>
    run_capture F fft ch tele dev chr tns s = Some (s', outs, e) \<and> (e = OutOfTurns \<longrightarrow> length outs = length tns) \<and>
    (let g = (if outs = [] then g0 else tn_generation (tns ! (length outs - 1))) in
      ct_gen s' = g \<and> follows F dev chr (ctl g) s' \<and>
      concat (map to_hardware outs) = map ctl (remdups_adj_from g0 (map tn_generation (take (length outs) tns))))"
  using assms by (rule capture_runs)

theorem capture_follows_control_witness:
  "\<exists>s s' outs e. capture_start rat_math 5000 48000 (capture_demo_control 3) 3 0 = Some s \<and>
    run_capture rat_math (\<lambda>zs. zs) 1 True 5000 48000 [capture_demo_turn 3, capture_demo_turn 7] s = Some (s', outs, e)"
  using capture_follows_control [of "[capture_demo_turn 3, capture_demo_turn 7]" capture_demo_control "\<lambda>zs. zs" rat_math 48000 5000 3 0 1 True]
  by (auto simp: capture_demo_turn_def capture_demo_rate rat_math_def rat_lit_def)

text \<open>
  C14: Delivery never blocks the reading of samples and loses audio only in the open: through any run
  from the start of the capture, every chunk the receiver produced was accepted by the consumer, is
  still in the backlog, or was dropped and counted in the control cell (and one more is lost when the
  consumer has gone away); what was accepted and what waits keep their order, and the backlog never
  exceeds 64 chunks.
\<close>

theorem capture_accounts_for_chunks:
  assumes "capture_start F dev chr c g dropped = Some s" "run_capture F fft ch tele dev chr tns s = Some (s', outs, e)"
  defines "produced \<equiv> concat (map to_produced outs)" and "accepted \<equiv> concat (map to_accepted outs)"
  shows "subseq (accepted @ ct_backlog s') produced \<and>
    (\<exists>lost. ct_dropped s' = dropped + of_nat lost \<and>
      length produced = length accepted + length (ct_backlog s') + lost + (if e = ConsumerGone then 1 else 0)) \<and>
    (e \<noteq> ConsumerGone \<longrightarrow> length (ct_backlog s') \<le> 64)"
proof -
  from assms(1) have "ct_backlog s = []" "ct_dropped s = dropped" by (auto simp: capture_start_def)
  with run_capture_conserved [OF assms(2)] show ?thesis
    by (simp add: conserved_def chunk_queue_depth_def produced_def accepted_def)
qed

theorem capture_accounts_for_chunks_witness:
  "\<exists>s s' outs e. run_capture rat_math (\<lambda>zs. zs) 1 True 5000 48000 [capture_demo_turn 3, capture_demo_turn 7] s = Some (s', outs, e) \<and>
    length (ct_backlog s') \<le> 64 + (if e = ConsumerGone then length (concat (map to_produced outs)) else 0)"
proof -
  obtain s s' outs e where run: "capture_start rat_math 5000 48000 (capture_demo_control 3) 3 0 = Some s"
    "run_capture rat_math (\<lambda>zs. zs) 1 True 5000 48000 [capture_demo_turn 3, capture_demo_turn 7] s = Some (s', outs, e)"
    using capture_demo_run by blast
  from capture_accounts_for_chunks [OF run] run(2) show ?thesis by fastforce
qed

text \<open>A change between the reading of the values and of the generation at the start is never seen.\<close>

lemma unseen_change_is_never_applied:
  assumes "\<forall>tn\<in>set tns. tn_generation tn = ct_gen s" "run_capture F fft ch tele dev chr tns s = Some (s', outs, e)"
  shows "concat (map to_hardware outs) = [] \<and> ct_mode s' = ct_mode s \<and> ct_rate s' = ct_rate s \<and>
    map_option (sdr_reset F) (ct_rx s') = map_option (sdr_reset F) (ct_rx s)"
  using assms
proof (induction tns arbitrary: s outs)
  case (Cons tn tns)
  have blk: "to_hardware out = [] \<and> ct_mode s1 = ct_mode s \<and> ct_rate s1 = ct_rate s \<and> ct_gen s1 = ct_gen s \<and>
      map_option (sdr_reset F) (ct_rx s1) = map_option (sdr_reset F) (ct_rx s)"
    if "capture_block F fft ch tele dev chr tn bytes s = Some (s1, out, live)" for bytes s1 out live
    using that Cons.prems(1)
    by (auto simp: capture_block_def reconcile_def no_output_def demodulate_def Let_def dest: sdr_push_reset
        split: if_splits option.splits prod.splits)
  show ?case
  proof (cases "tn_read tn = Ok [] \<or> (\<exists>e. tn_read tn = Err e)")
    case True
    with Cons.prems(2) show ?thesis by auto
  next
    case False
    then obtain b bs where read: "tn_read tn = Ok (b # bs)" by (cases "tn_read tn") (auto simp: neq_Nil_conv)
    with Cons.prems(2) obtain s1 out live where one: "capture_block F fft ch tele dev chr tn (b # bs) s = Some (s1, out, live)"
      by (auto split: option.splits)
    show ?thesis
    proof (cases live)
      case True
      with Cons.prems read one obtain outs1 where "run_capture F fft ch tele dev chr tns s1 = Some (s', outs1, e)" "outs = out # outs1"
        "\<forall>tn\<in>set tns. tn_generation tn = ct_gen s1"
        using blk [OF one] by auto
      with Cons.IH [of s1 outs1] blk [OF one] show ?thesis by simp
    next
      case False
      with Cons.prems(2) read one blk [OF one] show ?thesis by auto
    qed
  qed
qed simp

end
