(* ===== verification/CallText.thy ===== *)
theory CallText
  imports RustText
begin

text \<open>
  What the WSJT-X message codecs (\<open>framing/message77.rs\<close>, \<open>framing/pack77.rs\<close>) share: the symbol
  tables, positions in them, digits of mixed-radix numbers, and the pieces of Rust's \<open>str\<close> they use.
  A \<open>string\<close> is the byte sequence of a \<open>&str\<close>.
\<close>

named_theorems call_simps \<open>evaluation of symbol tables and character tests\<close>

section \<open>Characters and tables\<close>

definition is_digit :: "char \<Rightarrow> bool" where
  "is_digit c = (48 \<le> (of_char c :: nat) \<and> (of_char c :: nat) \<le> 57)"

definition is_upper_letter :: "char \<Rightarrow> bool" where
  "is_upper_letter c = (65 \<le> (of_char c :: nat) \<and> (of_char c :: nat) \<le> 90)"

definition is_letter :: "char \<Rightarrow> bool" where
  "is_letter c = (is_upper_letter c \<or> 97 \<le> (of_char c :: nat) \<and> (of_char c :: nat) \<le> 122)"

text \<open>\<open>(b'A'..=b'R').contains(&c)\<close>.\<close>

definition in_field :: "char \<Rightarrow> bool" where
  "in_field c = (65 \<le> (of_char c :: nat) \<and> (of_char c :: nat) \<le> 82)"

definition NUMERIC :: string where
  "NUMERIC = ''0123456789''"

definition LETTERS_SPACE :: string where
  "LETTERS_SPACE = '' ABCDEFGHIJKLMNOPQRSTUVWXYZ''"

definition ALPHANUM :: string where
  "ALPHANUM = ''0123456789ABCDEFGHIJKLMNOPQRSTUVWXYZ''"

definition ALPHANUM_SPACE :: string where
  "ALPHANUM_SPACE = '' 0123456789ABCDEFGHIJKLMNOPQRSTUVWXYZ''"

definition ALPHANUM_SPACE_SLASH :: string where
  "ALPHANUM_SPACE_SLASH = '' 0123456789ABCDEFGHIJKLMNOPQRSTUVWXYZ/''"

definition FULL :: string where
  "FULL = '' 0123456789ABCDEFGHIJKLMNOPQRSTUVWXYZ+-./?''"

text \<open>\<open>table.iter().position(|&x| x == c)\<close>.\<close>

fun nchar :: "char \<Rightarrow> string \<Rightarrow> nat option" where
  "nchar c [] = None"
| "nchar c (x # xs) = (if x = c then Some 0 else map_option Suc (nchar c xs))"

definition charn :: "nat \<Rightarrow> string \<Rightarrow> char" where
  "charn n table = table ! n"

lemma nchar_Some: "nchar c tab = Some i \<Longrightarrow> i < length tab \<and> charn i tab = c"
  by (induction tab arbitrary: i) (auto simp: charn_def split: if_splits)

lemma nchar_None: "nchar c tab = None \<longleftrightarrow> c \<notin> set tab"
  by (induction tab) auto

lemma nchar_charn: "distinct tab \<Longrightarrow> i < length tab \<Longrightarrow> nchar (charn i tab) tab = Some i"
proof (induction tab arbitrary: i)
  case (Cons x xs)
  then show ?case by (cases i) (auto simp: charn_def)
qed simp

lemma nchar_in: "c \<in> set tab \<Longrightarrow> \<exists>i. nchar c tab = Some i"
  using nchar_None [of c tab] by auto

lemma charn_in: "i < length tab \<Longrightarrow> charn i tab \<in> set tab"
  by (simp add: charn_def)

lemma table_lengths [simp]:
  "length NUMERIC = 10" "length LETTERS_SPACE = 27" "length ALPHANUM = 36"
  "length ALPHANUM_SPACE = 37" "length ALPHANUM_SPACE_SLASH = 38" "length FULL = 42"
  by (simp_all add: NUMERIC_def LETTERS_SPACE_def ALPHANUM_def ALPHANUM_SPACE_def
      ALPHANUM_SPACE_SLASH_def FULL_def)

lemma tables_distinct [simp]:
  "distinct NUMERIC" "distinct LETTERS_SPACE" "distinct ALPHANUM"
  "distinct ALPHANUM_SPACE" "distinct ALPHANUM_SPACE_SLASH" "distinct FULL"
  by (simp_all add: NUMERIC_def LETTERS_SPACE_def ALPHANUM_def ALPHANUM_SPACE_def
      ALPHANUM_SPACE_SLASH_def FULL_def)

lemma digit_image: "char_of ` {48..<58::nat} = set NUMERIC"
  by (simp add: NUMERIC_def char_of_def bit_0 atLeastLessThan_nat_numeral flip: set_upt)

lemma upper_image: "char_of ` {65..<91::nat} = set (tl LETTERS_SPACE)"
  by (simp add: LETTERS_SPACE_def char_of_def bit_0 flip: set_upt)

lemma char_range: "c \<in> char_of ` {a..<b::nat} \<longleftrightarrow> a \<le> of_char c \<and> of_char c < b" if "b \<le> 256"
proof
  assume "c \<in> char_of ` {a..<b}"
  then obtain n where "c = char_of n" "a \<le> n" "n < b" by auto
  with that show "a \<le> of_char c \<and> of_char c < b" by simp
next
  assume "a \<le> of_char c \<and> of_char c < b"
  then show "c \<in> char_of ` {a..<b}" by (intro image_eqI [of _ _ "of_char c"]) simp_all
qed

lemma set_NUMERIC: "c \<in> set NUMERIC \<longleftrightarrow> is_digit c"
  by (auto simp: digit_image [symmetric] char_range is_digit_def)

lemma set_upper: "c \<in> set (tl LETTERS_SPACE) \<longleftrightarrow> is_upper_letter c"
  by (auto simp: upper_image [symmetric] char_range is_upper_letter_def)

lemma set_LETTERS_SPACE: "c \<in> set LETTERS_SPACE \<longleftrightarrow> c = CHR '' '' \<or> is_upper_letter c"
  by (subst set_upper [symmetric]) (simp add: LETTERS_SPACE_def)

lemma set_ALPHANUM: "c \<in> set ALPHANUM \<longleftrightarrow> is_digit c \<or> is_upper_letter c"
  unfolding set_upper [symmetric] set_NUMERIC [symmetric]
  by (simp add: NUMERIC_def LETTERS_SPACE_def ALPHANUM_def)

lemma set_ALPHANUM_SPACE: "c \<in> set ALPHANUM_SPACE \<longleftrightarrow> c = CHR '' '' \<or> is_digit c \<or> is_upper_letter c"
  unfolding set_upper [symmetric] set_NUMERIC [symmetric]
  by (simp add: NUMERIC_def LETTERS_SPACE_def ALPHANUM_SPACE_def)

lemma set_ALPHANUM_SPACE_SLASH:
  "c \<in> set ALPHANUM_SPACE_SLASH \<longleftrightarrow> c = CHR '' '' \<or> c = CHR ''/'' \<or> is_digit c \<or> is_upper_letter c"
  unfolding set_upper [symmetric] set_NUMERIC [symmetric]
  by (auto simp: NUMERIC_def LETTERS_SPACE_def ALPHANUM_SPACE_SLASH_def)

lemma digit_not_letter: "is_digit c \<Longrightarrow> \<not> is_letter c"
  by (auto simp: is_digit_def is_letter_def is_upper_letter_def)

lemma upper_is_letter: "is_upper_letter c \<Longrightarrow> is_letter c"
  by (simp add: is_letter_def)

lemma find_Some_in: "find P xs = Some x \<Longrightarrow> x \<in> set xs \<and> P x"
  by (induction xs) (auto split: if_splits)

section \<open>Masks\<close>

lemma bit_mask_word: "x = mask k \<Longrightarrow> k \<le> LENGTH('a) \<Longrightarrow> bit (x :: 'a::len word) n \<longleftrightarrow> n < k"
  by (auto simp: bit_mask_iff)

lemma bit_power_word: "x = push_bit k 1 \<Longrightarrow> k < LENGTH('a) \<Longrightarrow> bit (x :: 'a::len word) n \<longleftrightarrow> n = k"
  by (auto simp: bit_simps bit_1_iff)

lemma field_masks:
  "bit (0x03 :: u8) n \<longleftrightarrow> n < 2" "bit (0x07 :: u8) n \<longleftrightarrow> n < 3" "bit (0x0F :: u8) n \<longleftrightarrow> n < 4"
  "bit (0x1F :: u8) n \<longleftrightarrow> n < 5" "bit (0x7F :: u8) n \<longleftrightarrow> n < 7" "bit (0x0FFF :: u16) n \<longleftrightarrow> n < 12"
  "bit (0x7FFF :: u16) n \<longleftrightarrow> n < 15" "bit (0xFF :: u16) n \<longleftrightarrow> n < 8" "bit (0x3FFFFF :: u64) n \<longleftrightarrow> n < 22"
  "bit (0x04 :: u8) n \<longleftrightarrow> n = 2" "bit (0x20 :: u8) n \<longleftrightarrow> n = 5" "bit (0x80 :: u8) n \<longleftrightarrow> n = 7"
  "bit (0x8000 :: u16) n \<longleftrightarrow> n = 15"
  by ((rule bit_mask_word bit_power_word, simp_all add: mask_eq_exp_minus_1)[1])+

section \<open>Pieces of \<open>str\<close>\<close>

definition starts_with :: "string \<Rightarrow> string \<Rightarrow> bool" where
  "starts_with s p \<longleftrightarrow> take (length p) s = p"

lemma starts_with_nth: "starts_with s p \<Longrightarrow> i < length p \<Longrightarrow> s ! i = p ! i"
  by (metis nth_take starts_with_def)

definition ends_with :: "string \<Rightarrow> string \<Rightarrow> bool" where
  "ends_with s p \<longleftrightarrow> length p \<le> length s \<and> drop (length s - length p) s = p"

text \<open>\<open>str::find\<close> of a character.\<close>

definition find_char :: "char \<Rightarrow> string \<Rightarrow> nat option" where
  "find_char c s = nchar c s"

text \<open>\<open>dst[at..at + src.len()].copy_from_slice(src)\<close>.\<close>

definition copy_at :: "nat \<Rightarrow> char list \<Rightarrow> char list \<Rightarrow> char list" where
  "copy_at k src dst = take k dst @ src @ drop (k + length src) dst"

text \<open>
  \<open>str::split_whitespace\<close> on UTF-8 bytes: \<open>ws_len\<close> is the length of the white-space character at the
  head (\<open>0\<close> for none): the ASCII ones, then U+0085 and U+00A0, U+1680, U+2000 to U+200A, U+2028, U+2029,
  U+202F, U+205F and U+3000.
\<close>

definition ws_len :: "string \<Rightarrow> nat" where
  "ws_len s = (case map of_char (take 3 s) :: nat list of
      [] \<Rightarrow> 0
    | a # r \<Rightarrow>
        if a = 32 \<or> 9 \<le> a \<and> a \<le> 13 then 1
        else (case r of
            [] \<Rightarrow> 0
          | b # r' \<Rightarrow>
              if a = 0xC2 \<and> (b = 0x85 \<or> b = 0xA0) then 2
              else (case r' of
                  [] \<Rightarrow> 0
                | c # _ \<Rightarrow>
                    if a = 0xE1 \<and> b = 0x9A \<and> c = 0x80
                      \<or> a = 0xE2 \<and> b = 0x80 \<and> (0x80 \<le> c \<and> c \<le> 0x8A \<or> c = 0xA8 \<or> c = 0xA9 \<or> c = 0xAF)
                      \<or> a = 0xE2 \<and> b = 0x81 \<and> c = 0x9F
                      \<or> a = 0xE3 \<and> b = 0x80 \<and> c = 0x80
                    then 3 else 0)))"

lemma ws_len_Nil [simp]: "ws_len [] = 0"
  by (simp add: ws_len_def)

text \<open>\<open>split_ws_from w s\<close>: the words of \<open>s\<close>, of which \<open>w\<close> has begun.\<close>

function split_ws_from :: "string \<Rightarrow> string \<Rightarrow> string list" where
  "split_ws_from w s =
     (let flush = (\<lambda>ws. if w = [] then ws else w # ws) in
      case s of
        [] \<Rightarrow> flush []
      | c # r \<Rightarrow> if ws_len s = 0 then split_ws_from (w @ [c]) r
                 else flush (split_ws_from [] (drop (ws_len s) s)))"
  by pat_completeness auto
termination
  by (relation "measure (\<lambda>(w, s). length s)") auto

declare split_ws_from.simps [simp del]

definition split_whitespace :: "string \<Rightarrow> string list" where
  "split_whitespace s = split_ws_from [] s"

text \<open>A byte that begins no white space.\<close>

definition graphic :: "char \<Rightarrow> bool" where
  "graphic c \<longleftrightarrow> 33 \<le> (of_char c :: nat) \<and> (of_char c :: nat) < 127"

definition word_text :: "string \<Rightarrow> bool" where
  "word_text w \<longleftrightarrow> w \<noteq> [] \<and> list_all graphic w"

lemma ws_len_graphic: "graphic c \<Longrightarrow> ws_len (c # s) = 0"
  by (auto simp: ws_len_def graphic_def split: list.splits)

lemma ws_len_space [simp]: "ws_len (CHR '' '' # s) = 1"
  by (simp add: ws_len_def)

lemma split_ws_word: "list_all graphic v \<Longrightarrow> split_ws_from w (v @ s) = split_ws_from (w @ v) s"
proof (induction v arbitrary: w)
  case (Cons c v)
  then show ?case by (subst split_ws_from.simps) (simp add: ws_len_graphic)
qed simp

lemma split_ws_space: "w \<noteq> [] \<Longrightarrow> split_ws_from w (CHR '' '' # s) = w # split_ws_from [] s"
  by (subst split_ws_from.simps) simp

lemma split_ws_end: "w \<noteq> [] \<Longrightarrow> split_ws_from w [] = [w]"
  by (subst split_ws_from.simps) simp

fun join_sp :: "string list \<Rightarrow> string" where
  "join_sp [] = []"
| "join_sp [w] = w"
| "join_sp (w # ws) = w @ '' '' @ join_sp ws"

lemma split_whitespace_join:
  "list_all word_text ws \<Longrightarrow> split_whitespace (join_sp ws) = ws"
proof (induction ws rule: join_sp.induct)
  case (2 w)
  then show ?case using split_ws_word [of w "[]" "[]"]
    by (simp add: split_whitespace_def word_text_def split_ws_end)
next
  case (3 w v vs)
  then have "split_ws_from [] (w @ ('' '' @ join_sp (v # vs))) = w # split_ws_from [] (join_sp (v # vs))"
    using split_ws_word [of w "[]" "CHR '' '' # join_sp (v # vs)"]
    by (simp add: word_text_def split_ws_space)
  with 3 show ?case by (simp add: split_whitespace_def)
qed (simp add: split_whitespace_def split_ws_from.simps)

text \<open>\<open>split(' ')\<close> without the empty pieces, as \<open>tokens\<close> takes them.\<close>

definition tokens :: "string \<Rightarrow> string list" where
  "tokens s = filter (\<lambda>t. t \<noteq> []) (split_all (CHR '' '') s)"

definition space_free :: "string \<Rightarrow> bool" where
  "space_free w \<longleftrightarrow> w \<noteq> [] \<and> CHR '' '' \<notin> set w"

lemma tokens_join: "list_all space_free ws \<Longrightarrow> tokens (join_sp ws) = ws"
proof (induction ws rule: join_sp.induct)
  case (3 w v vs)
  then show ?case using split_all_append [of "CHR '' ''" w "join_sp (v # vs)"]
    by (simp add: tokens_def space_free_def)
qed (simp_all add: tokens_def space_free_def split_all_single)

end
