(* ===== verification/Message77.thy ===== *)
theory Message77
  imports CallText "HOL-Library.Monad_Syntax"
begin

text \<open>
  \<open>framing/message77.rs\<close>: the 77-bit messages of FT8 and FT4. A payload is ten bytes, most significant
  bit first: 71 bits of payload, the sub-type \<open>n3\<close> inside it, the type \<open>i3\<close>, three bits of padding.
  The callsign hash table is a \<open>static\<close> shared by all packers and unpackers, so each function that
  touches it takes it and returns it. Integers that stay below their width by construction are
  natural numbers (the bounds are lemmas); the hash, the fields and the grid word have their width.
\<close>

definition NTOKENS :: nat where "NTOKENS = 2063592"
definition MAX22 :: nat where "MAX22 = 4194304"
definition MAXGRID4 :: u16 where "MAXGRID4 = 32400"

section \<open>The callsign hash table\<close>

text \<open>\<open>HASHES\<close>: a table that was never created answers as an empty one.\<close>

type_synonym hashes = "u32 \<rightharpoonup> string"

fun base38 :: "u64 \<Rightarrow> string \<Rightarrow> u64 option" where
  "base38 n [] = Some n"
| "base38 n (c # cs) =
     (case nchar c ALPHANUM_SPACE_SLASH of None \<Rightarrow> None
      | Some j \<Rightarrow> base38 (38 * n + of_nat j) cs)"

definition pad38 :: "nat \<Rightarrow> u64 \<Rightarrow> u64" where
  "pad38 k n = ((*) 38 ^^ k) n"

definition n22_of :: "u64 \<Rightarrow> u32" where
  "n22_of n58 = ucast (drop_bit (64 - 22) (47055833459 * n58) AND 0x3FFFFF)"

definition save_callsign :: "hashes \<Rightarrow> string \<Rightarrow> hashes \<times> u32 option" where
  "save_callsign tab callsign =
     (case base38 0 (take 11 callsign) of
        None \<Rightarrow> (tab, None)
      | Some n \<Rightarrow>
          let n22 = n22_of (pad38 (11 - length callsign) n)
          in (tab(n22 \<mapsto> callsign), Some n22))"

text \<open>
  \<open>lookup_callsign\<close> takes the first entry in the order in which the standard library's \<open>HashMap\<close>
  iterates. That order is unspecified: it is the parameter \<open>it\<close>, of which \<open>hash_order\<close> says that it
  lists exactly the entries of the table.
\<close>

type_synonym iteration = "hashes \<Rightarrow> (u32 \<times> string) list"

definition hash_order :: "iteration \<Rightarrow> bool" where
  "hash_order it \<longleftrightarrow> (\<forall>tab. set (it tab) = {(k, v). tab k = Some v})"

definition lookup_callsign :: "iteration \<Rightarrow> hashes \<Rightarrow> u32 \<Rightarrow> nat \<Rightarrow> string option" where
  "lookup_callsign it tab hash bits =
     map_option snd (find (\<lambda>(k, v). drop_bit (22 - bits) k = hash) (it tab))"

fun base38_lossy :: "u64 \<Rightarrow> string \<Rightarrow> u64" where
  "base38_lossy n [] = n"
| "base38_lossy n (c # cs) =
     base38_lossy (38 * n + of_nat (case nchar c ALPHANUM_SPACE_SLASH of None \<Rightarrow> 0 | Some j \<Rightarrow> j)) cs"

definition hash22 :: "string \<Rightarrow> u32" where
  "hash22 call = n22_of (pad38 (11 - length call) (base38_lossy 0 (take 11 call)))"

definition hash12 :: "string \<Rightarrow> u32" where
  "hash12 call = drop_bit 10 (hash22 call)"

definition hash10 :: "string \<Rightarrow> u32" where
  "hash10 call = drop_bit 12 (hash22 call)"

section \<open>The 28-bit call field\<close>

text \<open>The loop of \<open>parse_cq_modifier\<close> over bytes 3 to 7: \<open>(digits, letters, base-27 value)\<close>.\<close>

fun cq_scan :: "nat \<Rightarrow> nat \<Rightarrow> nat \<Rightarrow> string \<Rightarrow> (nat \<times> nat \<times> nat) option" where
  "cq_scan nnum nlet m [] = Some (nnum, nlet, m)"
| "cq_scan nnum nlet m (c # cs) =
     (if c = CHR '' '' then Some (nnum, nlet, m)
      else if is_digit c then cq_scan (nnum + 1) nlet m cs
      else if is_letter c then cq_scan nnum (nlet + 1) (27 * m + (of_char c - 65 + 1)) cs
      else None)"

definition parse_cq_modifier :: "string \<Rightarrow> nat option" where
  "parse_cq_modifier s =
     (case cq_scan 0 0 0 (take 5 (drop 3 s)) of
        None \<Rightarrow> None
      | Some (nnum, nlet, m) \<Rightarrow>
          if nnum = 3 \<and> nlet = 0 then from_str_radix 10 2147483647 (take 3 (drop 3 s))
          else if nnum = 0 \<and> nlet \<le> 4 then Some (1000 + m)
          else None)"

text \<open>\<open>c6\<close> of \<open>pack_basecall\<close>: the six positions of a base call.\<close>

definition call_field :: "string \<Rightarrow> nat \<Rightarrow> string" where
  "call_field callsign n =
     (if starts_with callsign ''3DA0'' \<and> n > 4 \<and> n \<le> 7
      then copy_at 3 (drop 4 (take n callsign)) (copy_at 0 ''3D0'' ''      '')
      else if starts_with callsign ''3X'' \<and> n \<ge> 3 \<and> is_letter (callsign ! 2) \<and> n \<le> 7
      then copy_at 1 (drop 2 (take n callsign)) (copy_at 0 ''Q'' ''      '')
      else if n \<ge> 3 \<and> is_digit (callsign ! 2) \<and> n \<le> 6
      then copy_at 0 (take n callsign) ''      ''
      else if n \<ge> 2 \<and> is_digit (callsign ! 1) \<and> n \<le> 5
      then copy_at 1 (take n callsign) ''      ''
      else ''      '')"

definition pack_field :: "string \<Rightarrow> nat option" where
  "pack_field c6 = do {
     i0 \<leftarrow> nchar (c6 ! 0) ALPHANUM_SPACE;
     i1 \<leftarrow> nchar (c6 ! 1) ALPHANUM;
     i2 \<leftarrow> nchar (c6 ! 2) NUMERIC;
     i3 \<leftarrow> nchar (c6 ! 3) LETTERS_SPACE;
     i4 \<leftarrow> nchar (c6 ! 4) LETTERS_SPACE;
     i5 \<leftarrow> nchar (c6 ! 5) LETTERS_SPACE;
     Some (((((i0 * 36 + i1) * 10 + i2) * 27 + i3) * 27 + i4) * 27 + i5)
   }"

definition pack_basecall :: "string \<Rightarrow> nat \<Rightarrow> nat option" where
  "pack_basecall callsign n = (if n \<le> 2 then None else pack_field (call_field callsign n))"

definition has_suffix :: "string \<Rightarrow> bool" where
  "has_suffix callsign \<longleftrightarrow> ends_with callsign ''/P'' \<or> ends_with callsign ''/R''"

definition pack28 :: "hashes \<Rightarrow> string \<Rightarrow> hashes \<times> (nat \<times> nat) option" where
  "pack28 tab callsign =
     (if callsign = ''DE'' then (tab, Some (0, 0))
      else if callsign = ''QRZ'' then (tab, Some (1, 0))
      else if callsign = ''CQ'' then (tab, Some (2, 0))
      else if starts_with callsign ''CQ '' \<and> length callsign < 8
      then (tab, map_option (\<lambda>v. (3 + v, 0)) (parse_cq_modifier callsign))
      else
        let ip = (if has_suffix callsign then 1 else 0);
            base = (if has_suffix callsign then length callsign - 2 else length callsign)
        in case pack_basecall callsign base of
             Some n28 \<Rightarrow>
               (case save_callsign tab callsign of
                  (tab', None) \<Rightarrow> (tab', None)
                | (tab', Some _) \<Rightarrow> (tab', Some (NTOKENS + MAX22 + n28, ip)))
           | None \<Rightarrow>
               if 3 \<le> length callsign \<and> length callsign \<le> 11
               then (case save_callsign tab callsign of
                       (tab', None) \<Rightarrow> (tab', None)
                     | (tab', Some n22) \<Rightarrow> (tab', Some (NTOKENS + unat n22, 0)))
               else (tab, None))"

text \<open>The letters of a \<open>CQ\<close> modifier and the six characters of a base call, from the low digit up.\<close>

definition modifier_letters :: "nat \<Rightarrow> string" where
  "modifier_letters n =
     [charn (n div 27 div 27 div 27 mod 27) LETTERS_SPACE, charn (n div 27 div 27 mod 27) LETTERS_SPACE,
      charn (n div 27 mod 27) LETTERS_SPACE, charn (n mod 27) LETTERS_SPACE]"

definition unpack_field :: "nat \<Rightarrow> string" where
  "unpack_field n =
     (let c5 = charn (n mod 27) LETTERS_SPACE; n = n div 27;
          c4 = charn (n mod 27) LETTERS_SPACE; n = n div 27;
          c3 = charn (n mod 27) LETTERS_SPACE; n = n div 27;
          c2 = charn (n mod 10) NUMERIC; n = n div 10;
          c1 = charn (n mod 36) ALPHANUM; n = n div 36;
          c0 = charn (n mod 37) ALPHANUM_SPACE
      in [c0, c1, c2, c3, c4, c5])"

definition call_of_field :: "string \<Rightarrow> string" where
  "call_of_field raw =
     (if starts_with raw ''3D0'' \<and> raw ! 3 \<noteq> CHR '' '' then ''3DA0'' @ trim (drop 3 raw)
      else if raw ! 0 = CHR ''Q'' \<and> is_letter (raw ! 1) then ''3X'' @ trim (drop 1 raw)
      else trim raw)"

definition suffix_of :: "nat \<Rightarrow> string option" where
  "suffix_of i3 = (if i3 = 1 then Some ''/R'' else if i3 = 2 then Some ''/P'' else None)"

definition unpack28 :: "iteration \<Rightarrow> hashes \<Rightarrow> nat \<Rightarrow> nat \<Rightarrow> nat \<Rightarrow> hashes \<times> string option" where
  "unpack28 it tab n28 ip i3 =
     (if n28 < NTOKENS then
        (tab,
         if n28 \<le> 2 then Some (if n28 = 0 then ''DE'' else if n28 = 1 then ''QRZ'' else ''CQ'')
         else if n28 \<le> 1002 then Some (''CQ '' @ pad0 3 (show_dec (n28 - 3)))
         else if n28 \<le> 532443
         then Some (''CQ '' @ dropWhile ascii_space (modifier_letters (n28 - 1003)))
         else None)
      else if n28 - NTOKENS < MAX22 then
        (tab, Some (''<'' @ (case lookup_callsign it tab (of_nat (n28 - NTOKENS)) 22 of
                               None \<Rightarrow> ''...'' | Some call \<Rightarrow> call) @ ''>''))
      else
        let result = call_of_field (unpack_field (n28 - NTOKENS - MAX22))
        in if length result < 3 then (tab, None)
           else if ip \<noteq> 0
           then (case suffix_of i3 of
                   None \<Rightarrow> (tab, None)
                 | Some s \<Rightarrow> (fst (save_callsign tab (result @ s)), Some (result @ s)))
           else (fst (save_callsign tab result), Some result))"

section \<open>The 58-bit call field\<close>

fun pack58_scan :: "u64 \<Rightarrow> string \<Rightarrow> string \<Rightarrow> (u64 \<times> string) option" where
  "pack58_scan n c11 [] = Some (n, c11)"
| "pack58_scan n c11 (c # cs) =
     (if c = CHR ''<'' \<or> length c11 \<ge> 11 then Some (n, c11)
      else case nchar c ALPHANUM_SPACE_SLASH of None \<Rightarrow> None
           | Some j \<Rightarrow> pack58_scan (n * 38 + of_nat j) (c11 @ [c]) cs)"

definition pack58 :: "hashes \<Rightarrow> string \<Rightarrow> hashes \<times> u64 option" where
  "pack58 tab callsign =
     (let bytes = (if starts_with callsign ''<'' then drop 1 callsign else callsign)
      in case pack58_scan 0 [] bytes of
           None \<Rightarrow> (tab, None)
         | Some (n, trimmed) \<Rightarrow>
             (case save_callsign tab trimmed of
                (tab', None) \<Rightarrow> (tab', None)
              | (tab', Some _) \<Rightarrow> (tab', Some n)))"

fun digits38 :: "nat \<Rightarrow> u64 \<Rightarrow> string" where
  "digits38 0 n = []"
| "digits38 (Suc k) n = digits38 k (n div 38) @ [charn (unat (n mod 38)) ALPHANUM_SPACE_SLASH]"

definition unpack58 :: "hashes \<Rightarrow> u64 \<Rightarrow> hashes \<times> string" where
  "unpack58 tab n58 =
     (let call = trim (digits38 11 n58)
      in (if length call \<ge> 3 then fst (save_callsign tab call) else tab, call))"

section \<open>The grid, report or token field\<close>

text \<open>\<open>dd_to_int\<close>: the digits in the first three bytes after an optional sign.\<close>

definition digit_val :: "char \<Rightarrow> nat" where
  "digit_val c = of_char c - 48"

fun dd_digits :: "int \<Rightarrow> string \<Rightarrow> int" where
  "dd_digits r [] = r"
| "dd_digits r (c # cs) = (if is_digit c then dd_digits (r * 10 + int (digit_val c)) cs else r)"

definition dd_to_int :: "string \<Rightarrow> int" where
  "dd_to_int s =
     (case s of
        [] \<Rightarrow> 0
      | c # cs \<Rightarrow>
          if c = CHR ''-'' then - dd_digits 0 (take 2 cs)
          else if c = CHR ''+'' then dd_digits 0 (take 2 cs)
          else dd_digits 0 (take 3 s))"

definition is_grid4 :: "string \<Rightarrow> bool" where
  "is_grid4 b \<longleftrightarrow>
     length b = 4 \<and> in_field (b ! 0) \<and> in_field (b ! 1) \<and> is_digit (b ! 2) \<and> is_digit (b ! 3)"

definition field_val :: "char \<Rightarrow> nat" where
  "field_val c = of_char c - 65"

definition packgrid :: "string \<Rightarrow> u16" where
  "packgrid grid4 =
     (if grid4 = [] then MAXGRID4 + 1
      else if grid4 = ''RRR'' then MAXGRID4 + 2
      else if grid4 = ''RR73'' then MAXGRID4 + 3
      else if grid4 = ''73'' then MAXGRID4 + 4
      else if is_grid4 grid4
      then of_nat (((field_val (grid4 ! 0) * 18 + field_val (grid4 ! 1)) * 10
             + digit_val (grid4 ! 2)) * 10 + digit_val (grid4 ! 3))
      else if grid4 ! 0 = CHR ''R''
      then (MAXGRID4 + word_of_int (35 + dd_to_int (drop 1 grid4))) OR 0x8000
      else MAXGRID4 + word_of_int (35 + dd_to_int grid4))"

text \<open>\<open>{:+03}\<close>.\<close>

definition show_plus03 :: "int \<Rightarrow> string" where
  "show_plus03 v = (if v < 0 then ''-'' else ''+'') @ pad0 2 (show_dec (nat \<bar>v\<bar>))"

definition grid_text :: "nat \<Rightarrow> string" where
  "grid_text n =
     [char_of (65 + n div 10 div 10 div 18 mod 18), char_of (65 + n div 10 div 10 mod 18),
      char_of (48 + n div 10 mod 10), char_of (48 + n mod 10)]"

definition unpackgrid :: "u16 \<Rightarrow> nat \<Rightarrow> string" where
  "unpackgrid igrid4 ir =
     (if igrid4 \<le> MAXGRID4 then (if ir > 0 then ''R '' else []) @ grid_text (unat igrid4)
      else
        let irpt = unat (igrid4 - MAXGRID4)
        in if irpt = 1 then []
           else if irpt = 2 then ''RRR''
           else if irpt = 3 then ''RR73''
           else if irpt = 4 then ''73''
           else (if ir > 0 then ''R'' else []) @ show_plus03 (int irpt - 35))"

section \<open>Encoding\<close>

type_synonym payload = "u8 list"

definition pack_std_bytes :: "u32 \<Rightarrow> u32 \<Rightarrow> u16 \<Rightarrow> u8 \<Rightarrow> payload" where
  "pack_std_bytes n29a n29b igrid4 i3 =
     [ucast (drop_bit 21 n29a), ucast (drop_bit 13 n29a), ucast (drop_bit 5 n29a),
      ucast (push_bit 3 n29a) OR ucast (drop_bit 26 n29b),
      ucast (drop_bit 18 n29b), ucast (drop_bit 10 n29b), ucast (drop_bit 2 n29b),
      ucast (push_bit 6 n29b) OR ucast (drop_bit 10 igrid4),
      ucast (drop_bit 2 igrid4), ucast (push_bit 6 igrid4) OR push_bit 3 i3]"

definition is_cq :: "string \<Rightarrow> bool" where
  "is_cq call_to \<longleftrightarrow> call_to = ''CQ'' \<or> starts_with call_to ''CQ ''"

text \<open>A call with a slash that only message type 4 can carry after \<open>CQ\<close>.\<close>

definition needs_nonstd :: "string \<Rightarrow> bool" where
  "needs_nonstd call_de =
     (case find_char (CHR ''/'') call_de of
        None \<Rightarrow> False
      | Some pos \<Rightarrow> pos \<ge> 2 \<and> drop pos call_de \<noteq> ''/P'' \<and> drop pos call_de \<noteq> ''/R'')"

definition encode_std ::
  "hashes \<Rightarrow> string \<Rightarrow> string \<Rightarrow> string \<Rightarrow> hashes \<times> payload option" where
  "encode_std tab call_to call_de extra =
     (case pack28 tab call_to of
        (tab1, None) \<Rightarrow> (tab1, None)
      | (tab1, Some (n28a, ipa)) \<Rightarrow>
     (case pack28 tab1 call_de of
        (tab2, None) \<Rightarrow> (tab2, None)
      | (tab2, Some (n28b, ipb)) \<Rightarrow>
         let p = ends_with call_to ''/P'' \<or> ends_with call_de ''/P'';
             r = ends_with call_to ''/R'' \<or> ends_with call_de ''/R''
         in if p \<and> r then (tab2, None)
            else if is_cq call_to \<and> needs_nonstd call_de then (tab2, None)
            else
              let igrid4 = packgrid extra;
                  n29a = push_bit 1 (of_nat n28a) OR of_nat ipa;
                  n29b = push_bit 1 (of_nat n28b) OR of_nat ipb;
                  i3 = (if p then 2 else 1);
                  n29a = (if ends_with call_to ''/R'' \<or> ends_with call_to ''/P'' then n29a OR 1 else n29a);
                  i3 = (if \<not> ends_with call_to ''/R'' \<and> ends_with call_to ''/P'' then 2 else i3)
              in (tab2, Some (pack_std_bytes n29a n29b igrid4 i3))))"

definition pack_nonstd_bytes :: "u16 \<Rightarrow> u64 \<Rightarrow> u8 \<Rightarrow> u8 \<Rightarrow> u8 \<Rightarrow> u8 \<Rightarrow> payload" where
  "pack_nonstd_bytes n12 n58 iflip nrpt icq i3 =
     [ucast (drop_bit 4 n12), ucast (push_bit 4 n12) OR ucast (drop_bit 54 n58),
      ucast (drop_bit 46 n58), ucast (drop_bit 38 n58), ucast (drop_bit 30 n58),
      ucast (drop_bit 22 n58), ucast (drop_bit 14 n58), ucast (drop_bit 6 n58),
      ucast (push_bit 2 n58) OR push_bit 1 iflip OR drop_bit 1 nrpt,
      push_bit 7 nrpt OR push_bit 6 icq OR push_bit 3 i3]"

text \<open>\<open>trim_start_matches('<').trim_end_matches('>')\<close>.\<close>

definition strip_brackets :: "string \<Rightarrow> string" where
  "strip_brackets s = rev (dropWhile (\<lambda>c. c = CHR ''>'') (rev (dropWhile (\<lambda>c. c = CHR ''<'') s)))"

definition nrpt_of :: "string \<Rightarrow> u8" where
  "nrpt_of extra = (if extra = ''RRR'' then 1 else if extra = ''RR73'' then 2 else if extra = ''73'' then 3 else 0)"

definition encode_nonstd ::
  "hashes \<Rightarrow> string \<Rightarrow> string \<Rightarrow> string \<Rightarrow> hashes \<times> payload option" where
  "encode_nonstd tab call_to call_de extra =
     (let icq = is_cq call_to
      in if \<not> icq \<and> length call_to < 3 then (tab, None)
         else if length call_de < 3 then (tab, None)
         else
           let iflip = \<not> icq \<and> starts_with call_de ''<'' \<and> ends_with call_de ''>'';
               call12 = (if iflip then call_de else call_to);
               call58 = (if icq then call_de else if iflip then call_to else call_de);
               nrpt = (if icq then 0 else nrpt_of extra);
               finish = (\<lambda>tab n12.
                 (case pack58 tab call58 of
                    (tab', None) \<Rightarrow> (tab', None)
                  | (tab', Some n58) \<Rightarrow>
                      (tab', Some (pack_nonstd_bytes n12 n58 (of_bool iflip) nrpt (of_bool icq) 4))))
           in if icq then finish tab 0
              else (case save_callsign tab (strip_brackets call12) of
                      (tab', None) \<Rightarrow> (tab', None)
                    | (tab', Some h) \<Rightarrow> finish tab' (ucast (drop_bit 10 h))))"

text \<open>
  Free text: \<open>mul42\<close> multiplies the big-endian number by 42 and adds, from the last byte up;
  \<open>shl1\<close> shifts it left by one bit, from the last byte up with a carry.
\<close>

fun mul42 :: "u8 list \<Rightarrow> u16 \<Rightarrow> u8 list \<times> u16" where
  "mul42 [] rem = ([], rem)"
| "mul42 (b # bs) rem =
     (let (bs', r) = mul42 bs rem;
          r = r + ucast b * 42
      in (ucast (r AND 0xff) # bs', drop_bit 8 r))"

fun free_digits :: "u8 list \<Rightarrow> string \<Rightarrow> u8 list option" where
  "free_digits b71 [] = Some b71"
| "free_digits b71 (c # cs) =
     (case nchar c FULL of None \<Rightarrow> None
      | Some cid \<Rightarrow> free_digits (fst (mul42 b71 (of_nat cid))) cs)"

fun shl1 :: "u8 list \<Rightarrow> u8 list \<times> u8" where
  "shl1 [] = ([], 0)"
| "shl1 (b # bs) =
     (let (ps, carry) = shl1 bs in ((push_bit 1 b OR drop_bit 7 carry) # ps, b AND 0x80))"

definition encode_free :: "string \<Rightarrow> payload option" where
  "encode_free text =
     (if length text > 13 then None
      else (case free_digits (replicate 9 0) (text @ replicate (13 - length text) (CHR '' '')) of
              None \<Rightarrow> None
            | Some b71 \<Rightarrow> Some (fst (shl1 b71) @ [0])))"

text \<open>\<open>toks.get(i).copied().unwrap_or("")\<close>.\<close>

definition token_at :: "string list \<Rightarrow> nat \<Rightarrow> string" where
  "token_at toks i = (if i < length toks then toks ! i else [])"

definition message_fields :: "string \<Rightarrow> string \<times> string \<times> string \<times> bool" where
  "message_fields msg =
     (if starts_with msg ''CQ '' then
        let toks = tokens (drop 3 msg)
        in (case parse_cq_modifier msg of
              Some _ \<Rightarrow> (''CQ '' @ token_at toks 0, token_at toks 1, token_at toks 2, length toks > 3)
            | None \<Rightarrow> (''CQ'', token_at toks 0, token_at toks 1, length toks > 2))
      else
        let toks = tokens msg
        in (token_at toks 0, token_at toks 1, token_at toks 2, length toks > 3))"

definition pack77 :: "hashes \<Rightarrow> string \<Rightarrow> hashes \<times> payload" where
  "pack77 tab message =
     (let (call_to, call_de, extra, leftover) = message_fields message;
          free = (case encode_free message of None \<Rightarrow> replicate 10 0 | Some p \<Rightarrow> p)
      in if leftover then (tab, free)
         else (case encode_std tab call_to call_de extra of
                 (tab1, Some p) \<Rightarrow> (tab1, p)
               | (tab1, None) \<Rightarrow>
                   (case encode_nonstd tab1 call_to call_de extra of
                      (tab2, Some p) \<Rightarrow> (tab2, p)
                    | (tab2, None) \<Rightarrow> (tab2, free))))"

section \<open>Decoding\<close>

definition get_i3 :: "payload \<Rightarrow> nat" where
  "get_i3 p = unat (drop_bit 3 (p ! 9) AND 0x07)"

definition get_n3 :: "payload \<Rightarrow> nat" where
  "get_n3 p = unat ((push_bit 2 (p ! 8) AND 0x04) OR (drop_bit 6 (p ! 9) AND 0x03))"

definition std_n29a :: "payload \<Rightarrow> u32" where
  "std_n29a p =
     push_bit 21 (ucast (p ! 0)) OR push_bit 13 (ucast (p ! 1)) OR push_bit 5 (ucast (p ! 2))
       OR drop_bit 3 (ucast (p ! 3))"

definition std_n29b :: "payload \<Rightarrow> u32" where
  "std_n29b p =
     push_bit 26 (ucast (p ! 3 AND 0x07)) OR push_bit 18 (ucast (p ! 4)) OR push_bit 10 (ucast (p ! 5))
       OR push_bit 2 (ucast (p ! 6)) OR drop_bit 6 (ucast (p ! 7))"

definition std_ir :: "payload \<Rightarrow> nat" where
  "std_ir p = unat (drop_bit 5 (p ! 7 AND 0x20))"

definition std_igrid4 :: "payload \<Rightarrow> u16" where
  "std_igrid4 p =
     push_bit 10 (ucast (p ! 7 AND 0x1F)) OR push_bit 2 (ucast (p ! 8)) OR drop_bit 6 (ucast (p ! 9))"

definition join3 :: "string \<Rightarrow> string \<Rightarrow> string \<Rightarrow> string" where
  "join3 f1 f2 f3 = f1 @ (if f2 \<noteq> [] then '' '' @ f2 else []) @ (if f3 \<noteq> [] then '' '' @ f3 else [])"

definition decode_std :: "iteration \<Rightarrow> hashes \<Rightarrow> payload \<Rightarrow> hashes \<times> string" where
  "decode_std it tab p =
     (let n29a = std_n29a p; n29b = std_n29b p; i3 = get_i3 p
      in case unpack28 it tab (unat (drop_bit 1 n29a)) (unat (n29a AND 1)) i3 of
           (tab1, None) \<Rightarrow> (tab1, [])
         | (tab1, Some call_to) \<Rightarrow>
             (case unpack28 it tab1 (unat (drop_bit 1 n29b)) (unat (n29b AND 1)) i3 of
                (tab2, None) \<Rightarrow> (tab2, [])
              | (tab2, Some call_de) \<Rightarrow>
                  (tab2, join3 call_to call_de (unpackgrid (std_igrid4 p) (std_ir p)))))"

definition nonstd_n12 :: "payload \<Rightarrow> u16" where
  "nonstd_n12 p = (push_bit 4 (ucast (p ! 0)) OR drop_bit 4 (ucast (p ! 1))) AND 0x0FFF"

definition nonstd_n58 :: "payload \<Rightarrow> u64" where
  "nonstd_n58 p =
     push_bit 54 (ucast (p ! 1 AND 0x0F)) OR push_bit 46 (ucast (p ! 2)) OR push_bit 38 (ucast (p ! 3))
       OR push_bit 30 (ucast (p ! 4)) OR push_bit 22 (ucast (p ! 5)) OR push_bit 14 (ucast (p ! 6))
       OR push_bit 6 (ucast (p ! 7)) OR drop_bit 2 (ucast (p ! 8))"

definition nonstd_iflip :: "payload \<Rightarrow> u8" where
  "nonstd_iflip p = drop_bit 1 (p ! 8) AND 0x01"

definition nonstd_nrpt :: "payload \<Rightarrow> u8" where
  "nonstd_nrpt p = push_bit 1 (p ! 8 AND 0x01) OR drop_bit 7 (p ! 9)"

definition nonstd_icq :: "payload \<Rightarrow> u8" where
  "nonstd_icq p = drop_bit 6 (p ! 9) AND 0x01"

definition decode_nonstd :: "iteration \<Rightarrow> hashes \<Rightarrow> payload \<Rightarrow> hashes \<times> string" where
  "decode_nonstd it tab p =
     (let nrpt = nonstd_nrpt p;
          (tab', call_decoded) = unpack58 tab (nonstd_n58 p);
          call_3 = (case lookup_callsign it tab' (ucast (nonstd_n12 p)) 12 of
                      None \<Rightarrow> ''<...>'' | Some c \<Rightarrow> ''<'' @ c @ ''>'');
          (call_1, call_2) = (if nonstd_iflip p \<noteq> 0 then (call_decoded, call_3) else (call_3, call_decoded));
          (call_to, extra) =
            (if nonstd_icq p = 0
             then (call_1, if nrpt = 1 then ''RRR'' else if nrpt = 2 then ''RR73''
                           else if nrpt = 3 then ''73'' else [])
             else (''CQ'', []))
      in (tab', join3 call_to call_2 extra))"

fun shr1 :: "u8 \<Rightarrow> u8 list \<Rightarrow> u8 list" where
  "shr1 carry [] = []"
| "shr1 carry (b # bs) = (push_bit 7 carry OR drop_bit 1 b) # shr1 (b AND 0x01) bs"

fun div42 :: "u16 \<Rightarrow> u8 list \<Rightarrow> u8 list \<times> u16" where
  "div42 rem [] = ([], rem)"
| "div42 rem (b # bs) =
     (let r = push_bit 8 rem OR ucast b;
          (bs', r') = div42 (r mod 42) bs
      in (ucast (r div 42) # bs', r'))"

text \<open>The last \<open>k\<close> slots of \<open>c14\<close>, filled from the back.\<close>

fun free_slots :: "nat \<Rightarrow> u8 list \<Rightarrow> string" where
  "free_slots 0 b71 = []"
| "free_slots (Suc k) b71 =
     (let (b71', rem) = div42 0 b71 in free_slots k b71' @ [charn (unat rem) FULL])"

definition decode_free :: "payload \<Rightarrow> string" where
  "decode_free p = trim (free_slots 13 (shr1 0 (take 9 p)))"

definition unpack77 :: "iteration \<Rightarrow> hashes \<Rightarrow> payload \<Rightarrow> hashes \<times> string" where
  "unpack77 it tab bytes =
     (let i3 = get_i3 bytes
      in if i3 = 1 \<or> i3 = 2 then decode_std it tab bytes
         else if i3 = 4 then decode_nonstd it tab bytes
         else if i3 = 0 \<and> get_n3 bytes = 0 then (tab, decode_free bytes)
         else (tab, []))"

definition is_grid6 :: "string \<Rightarrow> bool" where
  "is_grid6 b \<longleftrightarrow>
     length b = 6 \<and> in_field (b ! 0) \<and> in_field (b ! 1) \<and> is_digit (b ! 2) \<and> is_digit (b ! 3)
       \<and> 97 \<le> (of_char (b ! 4) :: nat) \<and> (of_char (b ! 4) :: nat) \<le> 120
       \<and> 97 \<le> (of_char (b ! 5) :: nat) \<and> (of_char (b ! 5) :: nat) \<le> 120"

definition normalize_grid6 :: "string \<Rightarrow> string" where
  "normalize_grid6 msg =
     (let toks = split_whitespace msg
      in if toks \<noteq> [] \<and> is_grid6 (last toks)
         then join_sp (butlast toks @ [take 4 (last toks)])
         else msg)"

end
