(* ===== verification/Message77Calls.thy ===== *)
theory Message77Calls
  imports Message77
begin

text \<open>
  The call field of \<open>framing/message77.rs\<close>: \<open>unpack28\<close> inverts \<open>pack28\<close> on standard calls with and
  without a suffix, on the calling tokens and on \<open>CQ\<close> modifiers.
\<close>

section \<open>Mixed-radix digits\<close>

lemma radix_last: "(d :: nat) < r \<Longrightarrow> (n * r + d) mod r = d \<and> (n * r + d) div r = n"
  by simp

definition field_limit :: nat where
  "field_limit = 37 * 36 * 10 * 27 * 27 * 27"

lemma pack_field_Some:
  assumes "pack_field c6 = Some n"
  obtains i0 i1 i2 i3 i4 i5 where
    "nchar (c6 ! 0) ALPHANUM_SPACE = Some i0" "nchar (c6 ! 1) ALPHANUM = Some i1"
    "nchar (c6 ! 2) NUMERIC = Some i2" "nchar (c6 ! 3) LETTERS_SPACE = Some i3"
    "nchar (c6 ! 4) LETTERS_SPACE = Some i4" "nchar (c6 ! 5) LETTERS_SPACE = Some i5"
    "n = ((((i0 * 36 + i1) * 10 + i2) * 27 + i3) * 27 + i4) * 27 + i5"
  using assms by (auto simp: pack_field_def bind_eq_Some_conv)

lemma mul_add_less: "(n :: nat) < m \<Longrightarrow> d < r \<Longrightarrow> n * r + d < m * r"
proof -
  assume "n < m" "d < r"
  then have "n * r + d < (n + 1) * r" by simp
  also have "\<dots> \<le> m * r" using \<open>n < m\<close> by (intro mult_right_mono) simp_all
  finally show ?thesis .
qed

lemma unpack_field_digits:
  assumes "i0 < 37" "i1 < 36" "i2 < 10" "i3 < 27" "i4 < 27" "i5 < 27"
  shows "unpack_field (((((i0 * 36 + i1) * 10 + i2) * 27 + i3) * 27 + i4) * 27 + i5) =
    [charn i0 ALPHANUM_SPACE, charn i1 ALPHANUM, charn i2 NUMERIC,
     charn i3 LETTERS_SPACE, charn i4 LETTERS_SPACE, charn i5 LETTERS_SPACE]"
  unfolding unpack_field_def Let_def
  by (simp only: radix_last [OF assms(2)] radix_last [OF assms(3)] radix_last [OF assms(4)]
      radix_last [OF assms(5)] radix_last [OF assms(6)] mod_less [OF assms(1)])

lemma unpack_pack_field:
  assumes "pack_field c6 = Some n" "length c6 = 6"
  shows "unpack_field n = c6 \<and> n < field_limit"
proof -
  from assms(1) obtain i0 i1 i2 i3 i4 i5 where
    c: "nchar (c6 ! 0) ALPHANUM_SPACE = Some i0" "nchar (c6 ! 1) ALPHANUM = Some i1"
    "nchar (c6 ! 2) NUMERIC = Some i2" "nchar (c6 ! 3) LETTERS_SPACE = Some i3"
    "nchar (c6 ! 4) LETTERS_SPACE = Some i4" "nchar (c6 ! 5) LETTERS_SPACE = Some i5"
    and n: "n = ((((i0 * 36 + i1) * 10 + i2) * 27 + i3) * 27 + i4) * 27 + i5"
    by (rule pack_field_Some)
  note d = c [THEN nchar_Some, unfolded table_lengths]
  have "unpack_field n = [c6 ! 0, c6 ! 1, c6 ! 2, c6 ! 3, c6 ! 4, c6 ! 5]"
    using d by (simp only: n unpack_field_digits)
  also have "\<dots> = c6"
    using assms(2) by (auto simp: list_eq_iff_nth_eq less_Suc_eq nth_Cons numeral_eq_Suc split: nat.splits)
  finally have "unpack_field n = c6" .
  moreover have "n < field_limit"
    unfolding n field_limit_def using d by (intro mul_add_less) simp_all
  ultimately show ?thesis by simp
qed

section \<open>Standard calls\<close>

text \<open>
  A base call that the field can carry: alphanumeric text that \<open>pack_basecall\<close> accepts, with a letter,
  and none of the two shapes that the field uses for the aliased prefixes \<open>3DA0\<close> and \<open>3X\<close>.
\<close>

definition std_call :: "string \<Rightarrow> bool" where
  "std_call c \<longleftrightarrow> word_text c \<and> pack_basecall c (length c) \<noteq> None \<and> list_ex is_letter c
     \<and> \<not> starts_with c ''3D0'' \<and> \<not> (c ! 0 = CHR ''Q'' \<and> is_letter (c ! 1))"

lemma graphic_no_space: "graphic c \<Longrightarrow> \<not> ascii_space c"
  by (auto simp: graphic_def ascii_space_def Let_def)

lemma dropWhile_hd: "xs = [] \<or> \<not> P (hd xs) \<Longrightarrow> dropWhile P xs = xs"
  by (cases xs) auto

lemma trim_padded:
  assumes "list_all graphic c" "c \<noteq> []"
  shows "trim (replicate m (CHR '' '') @ c @ replicate n (CHR '' '')) = c"
proof -
  have sp: "ascii_space (CHR '' '')" by (simp add: ascii_space_def)
  have rep: "dropWhile ascii_space (replicate k (CHR '' '') @ xs) = dropWhile ascii_space xs" for k xs
    using sp by (induction k) auto
  have "\<not> ascii_space (hd c)" "\<not> ascii_space (last c)"
    using assms by (auto simp: list_all_iff intro!: graphic_no_space)
  then have "dropWhile ascii_space (c @ xs) = c @ xs" "dropWhile ascii_space (rev c) = rev c" for xs
    using assms(2) by (auto intro!: dropWhile_hd simp: hd_rev)
  then show ?thesis by (simp add: trim_def rep)
qed

text \<open>The four shapes of \<open>call_field\<close>.\<close>

lemma six_blanks: "''      '' = replicate 6 (CHR '' '')"
  by (simp add: numeral_eq_Suc)

lemma copy_blank: "copy_at 0 p (replicate n b) = p @ replicate (n - length p) b"
  by (simp add: copy_at_def)

lemma copy_blank_at: "copy_at k p (replicate n b) = replicate (min k n) b @ p @ replicate (n - k - length p) b"
  by (simp add: copy_at_def min.commute)

lemma copy_after: "k = length q \<Longrightarrow> copy_at k p (q @ replicate n b) = q @ p @ replicate (n - length p) b"
  by (simp add: copy_at_def)

lemma starts_with_append: "starts_with s p \<Longrightarrow> s = p @ drop (length p) s"
  by (metis append_take_drop_id starts_with_def)

lemma call_field_cases:
  assumes "pack_basecall c (length c) \<noteq> None"
  obtains
    (swaziland) t where "c = ''3DA0'' @ t" "0 < length t" "length t \<le> 3"
      "call_field c (length c) = ''3D0'' @ t @ replicate (3 - length t) (CHR '' '')"
  | (guinea) t where "c = ''3X'' @ t" "0 < length t" "length t \<le> 5" "is_letter (t ! 0)"
      "call_field c (length c) = ''Q'' @ t @ replicate (5 - length t) (CHR '' '')"
  | (two) "3 \<le> length c" "length c \<le> 6" "is_digit (c ! 2)"
      "call_field c (length c) = c @ replicate (6 - length c) (CHR '' '')"
  | (one) "3 \<le> length c" "length c \<le> 5" "is_digit (c ! 1)"
      "call_field c (length c) = '' '' @ c @ replicate (5 - length c) (CHR '' '')"
proof -
  have len: "3 \<le> length c" and pf: "pack_field (call_field c (length c)) \<noteq> None"
    using assms by (auto simp: pack_basecall_def split: if_splits)
  consider (a) "starts_with c ''3DA0'' \<and> length c > 4 \<and> length c \<le> 7"
    | (b) "\<not> (starts_with c ''3DA0'' \<and> length c > 4 \<and> length c \<le> 7)"
      "starts_with c ''3X'' \<and> length c \<ge> 3 \<and> is_letter (c ! 2) \<and> length c \<le> 7"
    | (c) "\<not> (starts_with c ''3DA0'' \<and> length c > 4 \<and> length c \<le> 7)"
      "\<not> (starts_with c ''3X'' \<and> length c \<ge> 3 \<and> is_letter (c ! 2) \<and> length c \<le> 7)"
      "length c \<ge> 3 \<and> is_digit (c ! 2) \<and> length c \<le> 6"
    | (d) "\<not> (starts_with c ''3DA0'' \<and> length c > 4 \<and> length c \<le> 7)"
      "\<not> (starts_with c ''3X'' \<and> length c \<ge> 3 \<and> is_letter (c ! 2) \<and> length c \<le> 7)"
      "\<not> (length c \<ge> 3 \<and> is_digit (c ! 2) \<and> length c \<le> 6)"
      "length c \<ge> 2 \<and> is_digit (c ! 1) \<and> length c \<le> 5"
    | (e) "call_field c (length c) = ''      ''"
    unfolding call_field_def by argo
  then show ?thesis
  proof cases
    case a
    then have "c = ''3DA0'' @ drop 4 c" using starts_with_append [of c "''3DA0''"] by (simp add: numeral_eq_Suc)
    moreover have "call_field c (length c) = ''3D0'' @ drop 4 c @ replicate (3 - length (drop 4 c)) (CHR '' '')"
      unfolding call_field_def if_P [OF a] six_blanks copy_blank
      by (subst copy_after) simp_all
    moreover have "0 < length (drop 4 c)" "length (drop 4 c) \<le> 3" using a by auto
    ultimately show ?thesis by (intro swaziland [of "drop 4 c"])
  next
    case b
    then have c: "c = ''3X'' @ drop 2 c" using starts_with_append [of c "''3X''"] by (simp add: numeral_eq_Suc)
    moreover have "call_field c (length c) = ''Q'' @ drop 2 c @ replicate (5 - length (drop 2 c)) (CHR '' '')"
      unfolding call_field_def if_not_P [OF b(1)] if_P [OF b(2)] six_blanks copy_blank
      by (subst copy_after) simp_all
    moreover have "is_letter (drop 2 c ! 0)" using b(2) by auto
    moreover have "0 < length (drop 2 c)" "length (drop 2 c) \<le> 5" using b(2) by auto
    ultimately show ?thesis by (intro guinea [of "drop 2 c"])
  next
    case c
    have "call_field c (length c) = c @ replicate (6 - length c) (CHR '' '')"
      unfolding call_field_def if_not_P [OF c(1)] if_not_P [OF c(2)] if_P [OF c(3)] six_blanks copy_blank
      by simp
    with c(3) show ?thesis by (intro two) simp_all
  next
    case d
    have "call_field c (length c) = '' '' @ c @ replicate (5 - length c) (CHR '' '')"
      unfolding call_field_def if_not_P [OF d(1)] if_not_P [OF d(2)] if_not_P [OF d(3)] if_P [OF d(4)]
        six_blanks copy_blank_at
      by simp
    with d(4) len show ?thesis by (intro one) simp_all
  next
    case e
    with pf show ?thesis by (simp add: pack_field_def nchar_None ALPHANUM_def)
  qed
qed

lemma length_call_field:
  assumes "pack_basecall c (length c) \<noteq> None"
  shows "length (call_field c (length c)) = 6"
  using assms by (cases rule: call_field_cases) simp_all

lemma call_of_call_field:
  assumes "std_call c"
  shows "call_of_field (call_field c (length c)) = c"
proof -
  have sc: "list_all graphic c" "\<not> starts_with c ''3D0''" "\<not> (c ! 0 = CHR ''Q'' \<and> is_letter (c ! 1))"
    and pb: "pack_basecall c (length c) \<noteq> None"
    using assms by (auto simp: std_call_def word_text_def)
  from pb show ?thesis
  proof (cases rule: call_field_cases)
    case (swaziland t)
    then obtain x t' where t: "t = x # t'" by (cases t) auto
    have g: "list_all graphic t" using sc(1) swaziland(1) by simp
    then have "x \<noteq> CHR '' ''" using t by (auto simp: graphic_def)
    then show ?thesis
      using trim_padded [OF g, of 0] t
      by (simp add: swaziland(4) call_of_field_def starts_with_def) (simp add: swaziland(1) t)
  next
    case (guinea t)
    then obtain x t' where t: "t = x # t'" by (cases t) auto
    have g: "list_all graphic t" using sc(1) guinea(1) by simp
    show ?thesis using trim_padded [OF g, of 0] t guinea(4)
      by (simp add: guinea(5) call_of_field_def starts_with_def) (simp add: guinea(1) t)
  next
    case two
    have ne: "c \<noteq> []" using two(1) by auto
    have st: "starts_with (c @ xs) ''3D0'' = starts_with c ''3D0''" for xs
      using two(1) by (simp add: starts_with_def)
    have nths: "(c @ xs) ! 0 = c ! 0" "(c @ xs) ! 1 = c ! 1" for xs
      using two(1) by (auto simp: nth_append)
    from trim_padded [OF sc(1) ne, of 0] show ?thesis
      using sc(2,3) by (simp only: two(4) call_of_field_def st nths) simp
  next
    case one
    then have ne: "c \<noteq> []" by auto
    from trim_padded [OF sc(1) ne, of 1] show ?thesis
      by (simp add: one(4) call_of_field_def starts_with_def)
  qed
qed

section \<open>Saving a call\<close>

definition call_chars :: "string \<Rightarrow> bool" where
  "call_chars s \<longleftrightarrow> set s \<subseteq> set ALPHANUM_SPACE_SLASH"

lemma base38_lossy_eq: "call_chars s \<Longrightarrow> base38 n s = Some (base38_lossy n s)"
proof (induction s arbitrary: n)
  case (Cons c s)
  then obtain i where "nchar c ALPHANUM_SPACE_SLASH = Some i"
    using nchar_in [of c ALPHANUM_SPACE_SLASH] by (auto simp: call_chars_def)
  with Cons show ?case by (simp add: call_chars_def)
qed simp

lemma save_callsign_ok:
  assumes "call_chars s"
  shows "save_callsign tab s = (tab(hash22 s \<mapsto> s), Some (hash22 s))"
proof -
  have "call_chars (take 11 s)" using assms set_take_subset [of 11 s] by (auto simp: call_chars_def)
  then show ?thesis by (simp add: save_callsign_def base38_lossy_eq hash22_def Let_def)
qed

lemma alnum_slash: "set ALPHANUM \<subseteq> set ALPHANUM_SPACE_SLASH"
  by (auto simp: set_ALPHANUM set_ALPHANUM_SPACE_SLASH)

lemma pack_field_chars:
  assumes "pack_field c6 = Some n" "length c6 = 6"
  shows "set c6 \<subseteq> set ALPHANUM_SPACE"
proof -
  from assms(1) obtain i0 i1 i2 i3 i4 i5 where
    c: "nchar (c6 ! 0) ALPHANUM_SPACE = Some i0" "nchar (c6 ! 1) ALPHANUM = Some i1"
    "nchar (c6 ! 2) NUMERIC = Some i2" "nchar (c6 ! 3) LETTERS_SPACE = Some i3"
    "nchar (c6 ! 4) LETTERS_SPACE = Some i4" "nchar (c6 ! 5) LETTERS_SPACE = Some i5"
    by (rule pack_field_Some)
  then have "c6 ! i \<in> set ALPHANUM_SPACE" if "i < 6" for i
    using that nchar_None [of "c6 ! 0" ALPHANUM_SPACE] nchar_None [of "c6 ! 1" ALPHANUM]
      nchar_None [of "c6 ! 2" NUMERIC] nchar_None [of "c6 ! 3" LETTERS_SPACE]
      nchar_None [of "c6 ! 4" LETTERS_SPACE] nchar_None [of "c6 ! 5" LETTERS_SPACE]
    by (auto simp: set_ALPHANUM_SPACE set_ALPHANUM set_NUMERIC set_LETTERS_SPACE numeral_eq_Suc less_Suc_eq)
  with assms(2) show ?thesis by (auto simp: in_set_conv_nth)
qed

lemma pack_basecall_field:
  "pack_basecall c n = Some k \<Longrightarrow> pack_field (call_field c n) = Some k"
  by (simp add: pack_basecall_def split: if_splits)

lemma std_call_alnum:
  assumes "std_call c"
  shows "set c \<subseteq> set ALPHANUM"
proof -
  from assms obtain n where pb: "pack_basecall c (length c) = Some n"
    by (auto simp: std_call_def)
  have ne: "pack_basecall c (length c) \<noteq> None" using pb by simp
  have raw: "set (call_field c (length c)) \<subseteq> set ALPHANUM_SPACE"
    by (rule pack_field_chars [OF pack_basecall_field [OF pb] length_call_field [OF ne]])
  have g: "x \<noteq> CHR '' ''" if "x \<in> set c" for x
    using assms that by (auto simp: std_call_def word_text_def list_all_iff graphic_def)
  have lit: "set ''3DAX0'' \<subseteq> set ALPHANUM" by (simp add: ALPHANUM_def)
  from ne have "set c \<subseteq> set (call_field c (length c)) \<union> set ''3DAX0''"
    by (cases rule: call_field_cases) auto
  with raw lit g show ?thesis
    by (fastforce simp: set_ALPHANUM set_ALPHANUM_SPACE)
qed

lemma alnum_not_slash: "x \<in> set ALPHANUM \<Longrightarrow> x \<noteq> CHR ''/'' \<and> x \<noteq> CHR '' '' \<and> x \<noteq> CHR ''<'' \<and> x \<noteq> CHR ''>''"
  by (auto simp: set_ALPHANUM is_digit_def is_upper_letter_def)

definition suffix_text :: "string \<Rightarrow> bool" where
  "suffix_text s \<longleftrightarrow> s = [] \<or> s = ''/P'' \<or> s = ''/R''"

lemma std_call_chars: "std_call c \<Longrightarrow> suffix_text s \<Longrightarrow> call_chars (c @ s)"
  using std_call_alnum [of c] alnum_slash
  by (auto simp: call_chars_def suffix_text_def set_ALPHANUM_SPACE_SLASH is_upper_letter_def)

lemma ends_with_suffix:
  "length p = length s \<Longrightarrow> ends_with (c @ s) p \<longleftrightarrow> s = p"
  by (auto simp: ends_with_def)

lemma ends_with_alnum:
  assumes "set c \<subseteq> set ALPHANUM" "CHR ''/'' \<in> set p"
  shows "\<not> ends_with c p"
proof
  assume "ends_with c p"
  then have "set p \<subseteq> set c" by (metis ends_with_def set_drop_subset)
  with assms alnum_not_slash show False by blast
qed

lemma suffix_tests:
  assumes "std_call c" "suffix_text s"
  shows "ends_with (c @ s) ''/P'' \<longleftrightarrow> s = ''/P''" "ends_with (c @ s) ''/R'' \<longleftrightarrow> s = ''/R''"
  using assms(2) ends_with_alnum [OF std_call_alnum [OF assms(1)], of "''/P''"]
    ends_with_alnum [OF std_call_alnum [OF assms(1)], of "''/R''"]
  by (auto simp: suffix_text_def ends_with_suffix)

lemma call_field_append:
  "n = length c \<Longrightarrow> 3 \<le> n \<Longrightarrow> call_field (c @ s) n = call_field c n"
proof -
  assume n: "n = length c" "3 \<le> n"
  have a: "starts_with (c @ s) ''3DA0'' \<and> n > 4 \<and> n \<le> 7 \<longleftrightarrow> starts_with c ''3DA0'' \<and> n > 4 \<and> n \<le> 7"
    using n by (auto simp: starts_with_def)
  have b: "starts_with (c @ s) ''3X'' \<longleftrightarrow> starts_with c ''3X''"
    using n by (auto simp: starts_with_def)
  have "(c @ s) ! 2 = c ! 2" "(c @ s) ! 1 = c ! 1" "take n (c @ s) = take n c"
    using n by (auto simp: nth_append)
  with a b show ?thesis by (simp only: call_field_def)
qed

lemma std_call_length: "std_call c \<Longrightarrow> 3 \<le> length c \<and> length c \<le> 7"
proof -
  assume "std_call c"
  then have "pack_basecall c (length c) \<noteq> None" by (simp add: std_call_def)
  then show ?thesis by (cases rule: call_field_cases) (auto simp: pack_basecall_def Suc_le_eq split: if_splits)
qed

text \<open>A base call shows a digit among its first three characters.\<close>

lemma std_call_digit:
  assumes "std_call c"
  shows "list_ex is_digit (take 3 c)"
proof -
  have digits: "is_digit (CHR ''3'')" by (simp add: is_digit_def)
  have "pack_basecall c (length c) \<noteq> None" using assms by (simp add: std_call_def)
  then show ?thesis
  proof (cases rule: call_field_cases)
    case (guinea t)
    then show ?thesis using digits by (cases t) auto
  next
    case two
    then have "c ! 2 \<in> set (take 3 c)" by (auto simp: set_conv_nth intro!: exI [of _ 2])
    with two show ?thesis by (auto simp: list_ex_iff)
  next
    case one
    then have "c ! 1 \<in> set (take 3 c)" by (auto simp: set_conv_nth intro!: exI [of _ 1])
    with one show ?thesis by (auto simp: list_ex_iff)
  qed (use digits in auto)
qed

section \<open>Packing and unpacking the field\<close>

definition suffix_flag :: "string \<Rightarrow> nat" where
  "suffix_flag s = (if s = [] then 0 else 1)"

lemma std_call_not_token:
  assumes "std_call c"
  shows "c @ s \<noteq> ''DE''" "c @ s \<noteq> ''QRZ''" "c @ s \<noteq> ''CQ''" "\<not> starts_with (c @ s) ''CQ ''"
    "\<not> starts_with (c @ s) ''<''" "c \<noteq> []"
proof -
  obtain x y z r where c: "c = x # y # z # r"
    using std_call_length [OF assms] by (cases c; cases "tl c"; cases "tl (tl c)") auto
  have g: "\<forall>x\<in>set c. x \<in> set ALPHANUM" using std_call_alnum [OF assms] by blast
  have "list_ex is_digit [x, y, z]" using std_call_digit [OF assms] by (simp add: c)
  moreover have "\<not> is_digit (CHR ''Q'')" "\<not> is_digit (CHR ''R'')" "\<not> is_digit (CHR ''Z'')"
    by (simp_all add: is_digit_def)
  moreover have "z \<noteq> CHR '' ''" "x \<noteq> CHR ''<''" using g alnum_not_slash by (auto simp: c)
  ultimately show "c @ s \<noteq> ''DE''" "c @ s \<noteq> ''QRZ''" "c @ s \<noteq> ''CQ''" "\<not> starts_with (c @ s) ''CQ ''"
    "\<not> starts_with (c @ s) ''<''" "c \<noteq> []"
    by (auto simp: c starts_with_def)
qed

lemma pack28_std:
  assumes "std_call c" "suffix_text s"
  shows "\<exists>n. pack28 tab (c @ s) =
      (tab(hash22 (c @ s) \<mapsto> c @ s), Some (NTOKENS + MAX22 + n, suffix_flag s))
    \<and> n < field_limit \<and> unpack_field n = call_field c (length c)"
proof -
  from assms(1) obtain n where pb: "pack_basecall c (length c) = Some n"
    by (auto simp: std_call_def)
  then have ne: "pack_basecall c (length c) \<noteq> None" by simp
  have len: "3 \<le> length c" using std_call_length [OF assms(1)] by simp
  have hs: "has_suffix (c @ s) \<longleftrightarrow> s \<noteq> []"
    using assms(2) by (auto simp: has_suffix_def suffix_tests [OF assms] suffix_text_def)
  have base: "(if has_suffix (c @ s) then length (c @ s) - 2 else length (c @ s)) = length c"
    using assms(2) by (auto simp: hs suffix_text_def)
  have pb': "pack_basecall (c @ s) (length c) = Some n"
    using pb len by (simp add: pack_basecall_def call_field_append)
  have "pack28 tab (c @ s) = (tab(hash22 (c @ s) \<mapsto> c @ s), Some (NTOKENS + MAX22 + n, suffix_flag s))"
    unfolding pack28_def base
    by (simp only: std_call_not_token [OF assms(1)] if_False simp_thms Let_def pb' option.case prod.case
        save_callsign_ok [OF std_call_chars [OF assms]] hs suffix_flag_def)
      simp
  moreover have "unpack_field n = call_field c (length c) \<and> n < field_limit"
    by (rule unpack_pack_field [OF pack_basecall_field [OF pb] length_call_field [OF ne]])
  ultimately show ?thesis by blast
qed

lemma field_limit_fits: "n < field_limit \<Longrightarrow> NTOKENS + MAX22 + n < 2 ^ 28"
  by (simp add: field_limit_def NTOKENS_def MAX22_def)

lemma unpack28_std:
  assumes "std_call c" "suffix_text s" "n < field_limit" "unpack_field n = call_field c (length c)"
    and "s \<noteq> [] \<Longrightarrow> suffix_of i3 = Some s"
  shows "snd (unpack28 it tab (NTOKENS + MAX22 + n) (suffix_flag s) i3) = Some (c @ s)"
proof -
  have "call_of_field (unpack_field n) = c"
    using call_of_call_field [OF assms(1)] assms(4) by simp
  moreover have "\<not> length c < 3" using std_call_length [OF assms(1)] by simp
  ultimately show ?thesis using assms(2,5)
    by (auto simp: unpack28_def Let_def suffix_flag_def suffix_text_def)
qed

text \<open>The calling tokens, and \<open>CQ\<close> followed by three digits or by one to four letters.\<close>

definition call_token :: "string \<Rightarrow> nat option" where
  "call_token t = (if t = ''DE'' then Some 0 else if t = ''QRZ'' then Some 1 else if t = ''CQ'' then Some 2 else None)"

lemma pack28_token: "call_token t = Some n \<Longrightarrow> pack28 tab t = (tab, Some (n, 0))"
  by (auto simp: call_token_def pack28_def split: if_splits)

lemma unpack28_token: "call_token t = Some n \<Longrightarrow> unpack28 it tab n 0 i3 = (tab, Some t) \<and> n < 2 ^ 28"
  by (auto simp: call_token_def unpack28_def NTOKENS_def split: if_splits)

definition cq_digits :: "string \<Rightarrow> bool" where
  "cq_digits m \<longleftrightarrow> length m = 3 \<and> list_all is_digit m"

definition cq_letters :: "string \<Rightarrow> bool" where
  "cq_letters m \<longleftrightarrow> 1 \<le> length m \<and> length m \<le> 4 \<and> list_all is_upper_letter m"

fun letters_value :: "nat \<Rightarrow> string \<Rightarrow> nat" where
  "letters_value n [] = n"
| "letters_value n (c # cs) = letters_value (27 * n + (of_char c - 64)) cs"

lemma cq_scan_letters:
  "list_all is_upper_letter m \<Longrightarrow> rest = [] \<or> hd rest = CHR '' '' \<Longrightarrow>
   cq_scan a b v (m @ rest) = Some (a, b + length m, letters_value v m)"
proof (induction m arbitrary: b v)
  case Nil
  then show ?case by (cases rest) auto
next
  case (Cons c m)
  then have "is_letter c" "\<not> is_digit c" "c \<noteq> CHR '' ''"
    by (auto simp: upper_is_letter is_digit_def is_upper_letter_def)
  moreover have "65 \<le> (of_char c :: nat)" using Cons.prems(1) by (simp add: is_upper_letter_def)
  then have "Suc (of_char c - 65) = of_char c - (64 :: nat)" by arith
  ultimately show ?case using Cons by simp
qed

lemma cq_scan_digits:
  "list_all is_digit m \<Longrightarrow> rest = [] \<or> hd rest = CHR '' '' \<Longrightarrow>
   cq_scan a b v (m @ rest) = Some (a + length m, b, v)"
proof (induction m arbitrary: a)
  case Nil
  then show ?case by (cases rest) auto
next
  case (Cons c m)
  then have "c \<noteq> CHR '' ''" by (auto simp: is_digit_def)
  with Cons show ?case by simp
qed

lemma to_digit_is_digit: "is_digit c \<Longrightarrow> to_digit 10 c = Some (digit_val c) \<and> digit_val c < 10"
  by (auto simp: is_digit_def to_digit_def digit_val_def Let_def)

lemma digit_char_val: "is_digit x \<Longrightarrow> digit_char (digit_val x) = x"
proof -
  assume "is_digit x"
  then have "48 \<le> (of_char x :: nat)" "(of_char x :: nat) \<le> 57" by (simp_all add: is_digit_def)
  then have "(of_char x - 48 :: nat) < 10" "48 + (of_char x - 48) = (of_char x :: nat)" by arith+
  then show ?thesis by (simp add: digit_char_def digit_val_def)
qed

lemma show_dec_steps:
  "n < 10 \<Longrightarrow> show_dec n = [digit_char n]"
  "10 \<le> n \<Longrightarrow> show_dec n = show_dec (n div 10) @ [digit_char (n mod 10)]"
  by (simp_all add: show_radix.simps [of 10 n])

lemma replicate_two: "replicate 2 c = [c, c]"
  by (simp add: numeral_2_eq_2)

lemma pad_two: "n < 100 \<Longrightarrow> pad0 2 (show_dec n) = [digit_char (n div 10), digit_char (n mod 10)]"
proof -
  assume "n < 100"
  moreover have "digit_char 0 = CHR ''0''" by (simp add: digit_char_def char_of_def bit_0)
  ultimately show ?thesis
    by (cases "n < 10") (simp_all add: show_dec_steps pad0_def)
qed

lemma pad_three:
  "n < 1000 \<Longrightarrow> pad0 3 (show_dec n) = [digit_char (n div 100), digit_char (n div 10 mod 10), digit_char (n mod 10)]"
proof -
  assume n: "n < 1000"
  have z: "digit_char 0 = CHR ''0''" by (simp add: digit_char_def char_of_def bit_0)
  consider "n < 10" | "10 \<le> n" "n < 100" | "100 \<le> n" by linarith
  then show ?thesis
  proof cases
    case 3
    then have "n div 10 div 10 = n div 100" "n div 10 div 10 < 10" "10 \<le> n div 10" "10 \<le> n"
      using n by (simp_all add: div_mult2_eq [symmetric])
    then show ?thesis by (simp add: show_dec_steps pad0_def)
  qed (use z in \<open>simp_all add: show_dec_steps pad0_def replicate_two\<close>)
qed

lemma three_digits:
  assumes "cq_digits m"
  shows "\<exists>v<1000. from_str_radix 10 2147483647 m = Some v \<and> pad0 3 (show_dec v) = m"
proof -
  from assms obtain a b c where m: "m = [a, b, c]" and d: "is_digit a" "is_digit b" "is_digit c"
    by (auto simp: cq_digits_def length_Suc_conv numeral_eq_Suc)
  note v = d [THEN to_digit_is_digit]
  have plus: "a \<noteq> CHR ''+''" using d(1) by (auto simp: is_digit_def)
  let ?v = "(digit_val a * 10 + digit_val b) * 10 + digit_val c"
  have "from_str_radix 10 2147483647 m = Some ?v"
    using v plus by (simp add: m from_str_radix_def)
  moreover have less: "?v < 1000" using v by simp
  moreover have "?v div 10 = digit_val a * 10 + digit_val b" "?v mod 10 = digit_val c"
    using v radix_last [of "digit_val c" 10 "digit_val a * 10 + digit_val b"] by simp_all
  moreover from this have "?v div 100 = digit_val a" "?v div 10 mod 10 = digit_val b"
    using v radix_last [of "digit_val b" 10 "digit_val a"] div_mult2_eq [of ?v 10 10] by simp_all
  ultimately have "pad0 3 (show_dec ?v) = [digit_char (digit_val a), digit_char (digit_val b), digit_char (digit_val c)]"
    using pad_three [OF less] by metis
  then show ?thesis using d less \<open>from_str_radix 10 2147483647 m = Some ?v\<close>
    by (intro exI [of _ ?v]) (simp add: digit_char_val m)
qed

lemma letter_digit_less: "is_upper_letter c \<Longrightarrow> of_char c - 64 < (27 :: nat)"
  unfolding is_upper_letter_def by arith

lemma letters_value_less: "list_all is_upper_letter m \<Longrightarrow> v < 27 ^ k \<Longrightarrow> letters_value v m < 27 ^ (k + length m)"
proof (induction m arbitrary: v k)
  case (Cons c m)
  then have "of_char c - 64 < (27 :: nat)" by (simp add: letter_digit_less)
  with Cons.prems(2) have "27 * v + (of_char c - 64) < 27 ^ Suc k"
    using mul_add_less [of v "27 ^ k" "of_char c - 64" 27] by (simp add: mult.commute)
  from Cons.IH [OF _ this] Cons.prems(1) show ?case by simp
qed simp

lemma letter_table: "is_upper_letter c \<Longrightarrow> charn (of_char c - 64) LETTERS_SPACE = c"
proof -
  assume "is_upper_letter c"
  then have "c \<in> set (tl LETTERS_SPACE)" by (simp only: set_upper)
  then show ?thesis by (auto simp: LETTERS_SPACE_def charn_def)
qed

text \<open>The digits of the letters' value, and the leading blanks that the trimming removes.\<close>

lemma modifier_letters_value:
  assumes "cq_letters m"
  shows "dropWhile ascii_space (modifier_letters (letters_value 0 m)) = m"
proof -
  have sp: "charn 0 LETTERS_SPACE = CHR '' ''" "ascii_space (CHR '' '')"
    by (simp_all add: charn_def LETTERS_SPACE_def ascii_space_def)
  have ns: "\<not> ascii_space c" if "is_upper_letter c" for c
    using that by (auto simp: is_upper_letter_def ascii_space_def Let_def)
  have step: "(27 * n + d) mod 27 = d" "(27 * n + d) div 27 = n" if "d < 27" for n d :: nat
    using that by simp_all
  have len: "length m = 1 \<or> length m = 2 \<or> length m = 3 \<or> length m = 4"
    and up: "list_all is_upper_letter m"
    using assms by (auto simp: cq_letters_def)
  from len consider a where "m = [a]" | a b where "m = [a, b]" | a b c where "m = [a, b, c]"
    | a b c d where "m = [a, b, c, d]"
    by (auto simp: length_Suc_conv numeral_eq_Suc)
  then show ?thesis
    by cases (use up in \<open>simp_all add: modifier_letters_def step letter_digit_less letter_table sp ns
        del: div_mult_self1 div_mult_self2 mod_mult_self1 mod_mult_self2 distrib_left_numeral\<close>)
qed

definition cq_modifier :: "string \<Rightarrow> bool" where
  "cq_modifier m \<longleftrightarrow> cq_digits m \<or> cq_letters m"

lemma parse_modifier:
  assumes "cq_modifier m" "rest = [] \<or> hd rest = CHR '' ''"
  shows "parse_cq_modifier (''CQ '' @ m @ rest) =
    (if cq_digits m then from_str_radix 10 2147483647 m else Some (1000 + letters_value 0 m))"
proof -
  have len: "length m \<le> 5" using assms(1) by (auto simp: cq_modifier_def cq_digits_def cq_letters_def)
  let ?r = "take (5 - length m) rest"
  have r: "?r = [] \<or> hd ?r = CHR '' ''" using assms(2) by (cases rest; cases "5 - length m") auto
  have d: "drop 3 (''CQ '' @ m @ rest) = m @ rest" by (simp add: numeral_eq_Suc)
  have t: "take 5 (m @ rest) = m @ ?r" using len by simp
  show ?thesis
  proof (cases "cq_digits m")
    case True
    then have "list_all is_digit m" "length m = 3" by (simp_all add: cq_digits_def)
    then show ?thesis using True cq_scan_digits [OF _ r, of m 0 0 0]
      unfolding parse_cq_modifier_def d t by simp
  next
    case False
    with assms(1) have "list_all is_upper_letter m" "length m \<le> 4"
      by (simp_all add: cq_modifier_def cq_letters_def)
    then show ?thesis using False cq_scan_letters [OF _ r, of m 0 0 0]
      unfolding parse_cq_modifier_def d t by simp
  qed
qed

lemma pack28_modifier:
  assumes "cq_modifier m"
  shows "\<exists>n. pack28 tab (''CQ '' @ m) = (tab, Some (n, 0)) \<and> n < 2 ^ 28
    \<and> (\<forall>it tab' i3. unpack28 it tab' n 0 i3 = (tab', Some (''CQ '' @ m)))"
proof -
  have len: "length m < 5" using assms by (auto simp: cq_modifier_def cq_digits_def cq_letters_def)
  have pack: "pack28 tab (''CQ '' @ m) = (tab, map_option (\<lambda>v. (3 + v, 0)) (parse_cq_modifier (''CQ '' @ m)))"
    using len by (simp add: pack28_def starts_with_def)
  have parse: "parse_cq_modifier (''CQ '' @ m) =
      (if cq_digits m then from_str_radix 10 2147483647 m else Some (1000 + letters_value 0 m))"
    using parse_modifier [OF assms, of "[]"] by simp
  show ?thesis
  proof (cases "cq_digits m")
    case True
    from three_digits [OF this] obtain v where v: "v < 1000"
      "from_str_radix 10 2147483647 m = Some v" "pad0 3 (show_dec v) = m" by blast
    then show ?thesis using True
      by (intro exI [of _ "3 + v"] conjI allI, unfold pack parse) (simp_all add: unpack28_def NTOKENS_def)
  next
    case False
    with assms have m: "cq_letters m" by (simp add: cq_modifier_def)
    then have "letters_value 0 m < 27 ^ (0 + length m)"
      by (intro letters_value_less) (simp_all add: cq_letters_def)
    also have "\<dots> \<le> (27 :: nat) ^ 4" using m by (intro power_increasing) (simp_all add: cq_letters_def)
    finally have "letters_value 0 m < 531441" by simp
    then show ?thesis using False modifier_letters_value [OF m]
      by (intro exI [of _ "3 + (1000 + letters_value 0 m)"] conjI allI, unfold pack parse)
        (simp_all add: unpack28_def NTOKENS_def)
  qed
qed

section \<open>Every call field of a standard message\<close>

definition base_part :: "string \<Rightarrow> string" where
  "base_part t = (if has_suffix t then take (length t - 2) t else t)"

definition suffix_part :: "string \<Rightarrow> string" where
  "suffix_part t = (if has_suffix t then drop (length t - 2) t else [])"

definition std_station :: "string \<Rightarrow> bool" where
  "std_station t \<longleftrightarrow> std_call (base_part t)"

definition std_to :: "string \<Rightarrow> bool" where
  "std_to t \<longleftrightarrow> call_token t \<noteq> None \<or> starts_with t ''CQ '' \<and> cq_modifier (drop 3 t) \<or> std_station t"

lemma parts: "t = base_part t @ suffix_part t" "suffix_text (suffix_part t)"
  "suffix_part t \<noteq> [] \<longleftrightarrow> has_suffix t"
  by (auto simp: base_part_def suffix_part_def suffix_text_def has_suffix_def ends_with_def numeral_2_eq_2)

lemma has_suffix_slash: "has_suffix t \<Longrightarrow> CHR ''/'' \<in> set t"
proof -
  assume "has_suffix t"
  then have "CHR ''/'' \<in> set (suffix_part t)"
    using parts(2,3) [of t] by (auto simp: suffix_text_def)
  then show ?thesis by (metis parts(1) Un_iff set_append)
qed

definition field_round_trips :: "nat \<Rightarrow> nat \<Rightarrow> string \<Rightarrow> bool" where
  "field_round_trips n ip t \<longleftrightarrow> n < 2 ^ 28 \<and> ip = (if has_suffix t then 1 else 0) \<and>
     (\<forall>it tab i3. (has_suffix t \<longrightarrow> suffix_of i3 = Some (suffix_part t)) \<longrightarrow>
       snd (unpack28 it tab n ip i3) = Some t)"

lemma pack28_station:
  assumes "std_station t"
  shows "\<exists>n ip. pack28 tab t = (tab(hash22 t \<mapsto> t), Some (n, ip)) \<and> field_round_trips n ip t"
proof -
  have c: "std_call (base_part t)" using assms by (simp add: std_station_def)
  from pack28_std [OF c parts(2) [of t], of tab] obtain n where
    n: "pack28 tab t = (tab(hash22 t \<mapsto> t), Some (NTOKENS + MAX22 + n, suffix_flag (suffix_part t)))"
    "n < field_limit" "unpack_field n = call_field (base_part t) (length (base_part t))"
    by (metis parts(1))
  have "snd (unpack28 it tab' (NTOKENS + MAX22 + n) (suffix_flag (suffix_part t)) i3) = Some t"
    if "has_suffix t \<longrightarrow> suffix_of i3 = Some (suffix_part t)" for it tab' i3
    using unpack28_std [where ?i3.0 = i3, OF c parts(2) [of t] n(2,3)] that parts(3) [of t]
    by (metis parts(1))
  then show ?thesis using n(1) field_limit_fits [OF n(2)] parts(3) [of t]
    by (intro exI [of _ "NTOKENS + MAX22 + n"] exI [of _ "suffix_flag (suffix_part t)"])
      (auto simp: field_round_trips_def suffix_flag_def)
qed

lemma pack28_to:
  assumes "std_to t"
  shows "\<exists>tab' n ip. pack28 tab t = (tab', Some (n, ip)) \<and> field_round_trips n ip t"
proof -
  consider (tok) n where "call_token t = Some n" | (cq) "starts_with t ''CQ ''" "cq_modifier (drop 3 t)"
    | (st) "std_station t"
    using assms by (auto simp: std_to_def)
  then show ?thesis
  proof cases
    case tok
    then have "\<not> has_suffix t" by (auto simp: call_token_def has_suffix_def ends_with_def split: if_splits)
    then show ?thesis using pack28_token [OF tok, of tab] unpack28_token [OF tok]
      by (intro exI) (auto simp: field_round_trips_def)
  next
    case cq
    have t: "t = ''CQ '' @ drop 3 t" using starts_with_append [OF cq(1)] by (simp add: numeral_eq_Suc)
    have "CHR ''/'' \<notin> set (drop 3 t)"
      using cq(2) by (auto simp: cq_modifier_def cq_digits_def cq_letters_def list_all_iff is_digit_def is_upper_letter_def)
    then have "CHR ''/'' \<notin> set t" by (subst t) simp
    then have ns: "\<not> has_suffix t" using has_suffix_slash by blast
    from pack28_modifier [OF cq(2), of tab] t ns show ?thesis
      by (auto simp: field_round_trips_def)
  next
    case st
    from pack28_station [OF this, of tab] show ?thesis by blast
  qed
qed

end
