(* ===== verification/Message77Std.thy ===== *)
theory Message77Std
  imports Message77Calls
begin

text \<open>
  Standard messages of \<open>framing/message77.rs\<close>: the ten bytes hold the two 29-bit call fields, the
  16-bit grid word and the type, and the grid word holds a locator, a report or a closing token.
\<close>

section \<open>The fields in the bytes\<close>

lemma bit_below:
  fixes a :: "'a::len word"
  assumes "unat a < 2 ^ k" "bit a n"
  shows "n < k"
proof (rule ccontr)
  assume "\<not> n < k"
  then have "(2 :: nat) ^ k \<le> 2 ^ n" by simp
  with assms(1) have "unat a div 2 ^ n = 0" by (intro div_less) linarith
  moreover have "bit (unat a) n" using assms(2) by (simp add: bit_unsigned_iff bit_imp_le_length)
  ultimately show False by (simp add: bit_iff_odd)
qed

lemma Suc_Suc_minus_2: "2 \<le> n \<Longrightarrow> Suc (Suc (n - 2)) = n"
  by arith

lemmas word_field_simps = bit_simps field_masks bit_1_iff Suc_Suc_minus_2

lemma std_bytes_fields:
  fixes a b :: u32 and g :: u16 and i3 :: u8
  assumes "unat a < 2 ^ 29" "unat b < 2 ^ 29" "unat i3 < 2 ^ 3"
  defines "p \<equiv> pack_std_bytes a b g i3"
  shows "std_n29a p = a" "std_n29b p = b" "std_igrid4 p = g AND 0x7FFF"
    "drop_bit 5 (p ! 7 AND 0x20) = of_bool (bit g 15)" "drop_bit 3 (p ! 9) AND 0x07 = i3"
    "p ! 9 AND 0x07 = 0" "length p = 10"
proof -
  note below = bit_imp_le_length bit_below [OF assms(1)] bit_below [OF assms(2)] bit_below [OF assms(3)]
  show "std_n29a p = a"
  proof (rule bit_word_eqI)
    fix n assume "n < LENGTH(32)"
    have "n < 5 \<or> 5 \<le> n \<and> n < 13 \<or> 13 \<le> n \<and> n < 21 \<or> 21 \<le> n" by arith
    then show "bit (std_n29a p) n = bit a n"
      unfolding std_n29a_def p_def pack_std_bytes_def
      by (elim disjE conjE; auto simp: word_field_simps simp del: push_bit_Suc bit_numeral_word_iff dest: below)
  qed
  show "std_n29b p = b"
  proof (rule bit_word_eqI)
    fix n assume "n < LENGTH(32)"
    have "n < 2 \<or> 2 \<le> n \<and> n < 10 \<or> 10 \<le> n \<and> n < 18 \<or> 18 \<le> n \<and> n < 26 \<or> 26 \<le> n" by arith
    then show "bit (std_n29b p) n = bit b n"
      unfolding std_n29b_def p_def pack_std_bytes_def
      by (elim disjE conjE; auto simp: word_field_simps simp del: push_bit_Suc bit_numeral_word_iff dest: below)
  qed
  show "std_igrid4 p = g AND 0x7FFF"
  proof (rule bit_word_eqI)
    fix n assume "n < LENGTH(16)"
    have "n < 2 \<or> 2 \<le> n \<and> n < 10 \<or> 10 \<le> n" by arith
    then show "bit (std_igrid4 p) n = bit (g AND 0x7FFF) n"
      unfolding std_igrid4_def p_def pack_std_bytes_def
      by (elim disjE conjE; auto simp: word_field_simps simp del: push_bit_Suc bit_numeral_word_iff dest: below)
  qed
  show "drop_bit 5 (p ! 7 AND 0x20) = of_bool (bit g 15)"
    unfolding p_def pack_std_bytes_def
    by (rule bit_word_eqI; auto simp: word_field_simps simp del: push_bit_Suc bit_numeral_word_iff dest: below)
  show "drop_bit 3 (p ! 9) AND 0x07 = i3"
    unfolding p_def pack_std_bytes_def
    by (rule bit_word_eqI; auto simp: word_field_simps simp del: push_bit_Suc bit_numeral_word_iff dest: below)
  show "p ! 9 AND 0x07 = 0"
    unfolding p_def pack_std_bytes_def
    by (rule bit_word_eqI; auto simp: word_field_simps simp del: push_bit_Suc bit_numeral_word_iff dest: below)
  show "length p = 10" by (simp add: p_def pack_std_bytes_def)
qed

section \<open>The grid word\<close>

definition report_text :: "string \<Rightarrow> bool" where
  "report_text e \<longleftrightarrow>
     (let r = (if starts_with e ''R'' then drop 1 e else e); v = dd_to_int r
      in -30 \<le> v \<and> v \<le> 99 \<and> r = show_plus03 v)"

definition std_extra :: "string \<Rightarrow> bool" where
  "std_extra e \<longleftrightarrow> e = [] \<or> e = ''RRR'' \<or> e = ''RR73'' \<or> e = ''73'' \<or> is_grid4 e \<or> report_text e"

definition grid_round_trips :: "string \<Rightarrow> bool" where
  "grid_round_trips e \<longleftrightarrow>
     unpackgrid (packgrid e AND 0x7FFF) (if bit (packgrid e) 15 then 1 else 0) = e"

lemma in_field_val: "in_field c \<Longrightarrow> char_of (65 + field_val c) = c \<and> field_val c < 18"
  unfolding in_field_def field_val_def by auto

lemma digit_val_char: "is_digit c \<Longrightarrow> char_of (48 + digit_val c) = c \<and> digit_val c < 10"
  unfolding is_digit_def digit_val_def by auto

lemma grid_text_digits:
  assumes "a < 18" "b < 18" "c < 10" "d < 10"
  shows "grid_text (((a * 18 + b) * 10 + c) * 10 + d) =
    [char_of (65 + a), char_of (65 + b), char_of (48 + c), char_of (48 + d)]"
  unfolding grid_text_def
  by (simp only: radix_last [OF assms(2)] radix_last [OF assms(3)] radix_last [OF assms(4)] mod_less [OF assms(1)])

lemma small_word_15:
  fixes w :: u16
  assumes u: "unat w < 2 ^ 15"
  shows "w AND 0x7FFF = w" "bit w 15 = False" "(w OR 0x8000) AND 0x7FFF = w" "bit (w OR 0x8000) 15 = True"
proof -
  note below = bit_below [OF u]
  show "bit w 15 = False" using below by blast
  show "w AND 0x7FFF = w"
    by (rule bit_word_eqI; auto simp: word_field_simps simp del: push_bit_Suc bit_numeral_word_iff dest: below)
  show "(w OR 0x8000) AND 0x7FFF = w"
    by (rule bit_word_eqI; auto simp: word_field_simps simp del: push_bit_Suc bit_numeral_word_iff dest: below)
  show "bit (w OR 0x8000) 15 = True" by (simp add: bit_simps)
qed

lemma grid_grid_round_trips:
  assumes "is_grid4 e" "e \<noteq> ''RR73''"
  shows "grid_round_trips e"
proof -
  from assms obtain a b c d where e: "e = [a, b, c, d]"
    and v: "in_field a" "in_field b" "is_digit c" "is_digit d"
    by (auto simp: is_grid4_def length_Suc_conv numeral_eq_Suc)
  let ?n = "((field_val a * 18 + field_val b) * 10 + digit_val c) * 10 + digit_val d"
  note f = v(1,2) [THEN in_field_val] v(3,4) [THEN digit_val_char]
  have n: "?n < 18 * 18 * 10 * 10" using f by (intro mul_add_less) simp_all
  have pg: "packgrid e = of_nat ?n"
    using assms by (auto simp: packgrid_def e)
  have le: "(of_nat ?n :: u16) \<le> MAXGRID4"
    using n by (simp add: MAXGRID4_def word_le_nat_alt unat_of_nat del: of_nat_add of_nat_mult)
  have u: "unat (of_nat ?n :: u16) = ?n" using n by (simp add: unat_of_nat del: of_nat_add of_nat_mult)
  have small: "unat (of_nat ?n :: u16) < 2 ^ 15" unfolding u using n by simp
  show ?thesis
    unfolding grid_round_trips_def pg small_word_15 [OF small] unpackgrid_def if_P [OF le] u
    using f by (simp only: grid_text_digits) (simp add: e)
qed

lemma show_plus03_digits:
  assumes "\<bar>v\<bar> < 100"
  shows "show_plus03 v = (if v < 0 then CHR ''-'' else CHR ''+'') #
    [digit_char (nat \<bar>v\<bar> div 10), digit_char (nat \<bar>v\<bar> mod 10)]"
  using assms by (simp add: show_plus03_def pad_two)

lemma digit_char_digit: "d < 10 \<Longrightarrow> is_digit (digit_char d) \<and> digit_val (digit_char d) = d"
  by (simp add: is_digit_def digit_val_def of_char_digit_char)

lemma dd_to_int_report: "\<bar>v\<bar> < 100 \<Longrightarrow> dd_to_int (show_plus03 v) = v"
proof -
  assume v: "\<bar>v\<bar> < 100"
  let ?n = "nat \<bar>v\<bar>"
  have "?n div 10 < 10" "?n mod 10 < 10" using v by auto
  note d = this [THEN digit_char_digit]
  have "int (?n div 10) * 10 + int (?n mod 10) = \<bar>v\<bar>"
    by (metis abs_ge_zero div_mult_mod_eq int_nat_eq of_nat_add of_nat_mult of_nat_numeral)
  then show ?thesis using d by (simp add: show_plus03_digits [OF v] dd_to_int_def)
qed

lemma packgrid_report:
  assumes "-30 \<le> v" "v \<le> 99"
  defines "w \<equiv> of_nat (nat (32435 + v)) :: u16"
  shows "packgrid (show_plus03 v) = w" "packgrid (CHR ''R'' # show_plus03 v) = w OR 0x8000"
    "unat w = nat (32435 + v)"
proof -
  have v: "\<bar>v\<bar> < 100" using assms by auto
  have w: "w = MAXGRID4 + word_of_int (35 + v)"
  proof -
    have "w = of_int (32435 + v)" unfolding w_def by (rule of_nat_nat) (use assms(1) in simp)
    then show ?thesis by (simp add: MAXGRID4_def)
  qed
  have "nat (32435 + v) < 65536" using assms(2) by simp
  then show "unat w = nat (32435 + v)" unfolding w_def unat_of_nat by simp
  obtain x y z where r: "show_plus03 v = [x, y, z]" and x: "x = CHR ''-'' \<or> x = CHR ''+''"
    using show_plus03_digits [OF v] by auto
  have d: "dd_to_int [x, y, z] = v" using dd_to_int_report [OF v] by (simp only: r)
  have x': "x \<noteq> CHR ''R''" "x \<noteq> CHR ''7''" "\<not> in_field x" "\<not> is_digit x"
    using x by (auto simp: in_field_def is_digit_def)
  show "packgrid (show_plus03 v) = w"
    using x' by (simp add: packgrid_def w r d is_grid4_def)
  show "packgrid (CHR ''R'' # show_plus03 v) = w OR 0x8000"
    using x' by (simp add: packgrid_def w r d is_grid4_def)
qed

lemma unpackgrid_report:
  assumes "-30 \<le> v" "v \<le> 99"
  shows "unpackgrid (of_nat (nat (32435 + v))) ir = (if ir > 0 then ''R'' else []) @ show_plus03 v"
proof -
  let ?w = "of_nat (nat (32435 + v)) :: u16"
  have u: "unat ?w = nat (32435 + v)" by (rule packgrid_report(3) [OF assms])
  have gt: "\<not> ?w \<le> MAXGRID4" using assms unfolding word_le_nat_alt u by (simp add: MAXGRID4_def)
  have "unat (?w - MAXGRID4) = nat (35 + v)"
    using gt assms unfolding unat_sub_if' u word_le_nat_alt by (simp add: MAXGRID4_def)
  moreover have "nat (35 + v) \<noteq> 1" "nat (35 + v) \<noteq> 2" "nat (35 + v) \<noteq> 3" "nat (35 + v) \<noteq> 4"
    "int (nat (35 + v)) - 35 = v"
    using assms(1) by linarith+
  ultimately show ?thesis using gt by (simp only: unpackgrid_def Let_def if_False)
qed

lemma report_cases:
  assumes "report_text e"
  obtains v where "-30 \<le> v" "v \<le> 99" "e = show_plus03 v \<or> e = CHR ''R'' # show_plus03 v"
proof -
  let ?r = "if starts_with e ''R'' then drop 1 e else e"
  have "e = ?r \<or> e = CHR ''R'' # ?r" using starts_with_append [of e "''R''"] by auto
  with assms show ?thesis
    by (intro that [of "dd_to_int ?r"]) (simp_all only: report_text_def Let_def)
qed

lemma report_round_trips:
  assumes "report_text e"
  shows "grid_round_trips e"
proof -
  from assms obtain v where v: "-30 \<le> v" "v \<le> 99" and e: "e = show_plus03 v \<or> e = CHR ''R'' # show_plus03 v"
    by (rule report_cases)
  have small: "unat (of_nat (nat (32435 + v)) :: u16) < 2 ^ 15"
    using v by (simp only: packgrid_report(3) [OF v]) simp
  from e show ?thesis
    by (elim disjE)
      (simp_all only: grid_round_trips_def packgrid_report(1,2) [OF v] small_word_15 [OF small]
        unpackgrid_report [OF v] if_True if_False, simp_all)
qed

lemma extra_round_trips: "std_extra e \<Longrightarrow> grid_round_trips e"
proof -
  have "grid_round_trips []" "grid_round_trips ''RRR''" "grid_round_trips ''RR73''" "grid_round_trips ''73''"
    by code_simp+
  then show "std_extra e \<Longrightarrow> grid_round_trips e"
    unfolding std_extra_def using grid_grid_round_trips [of e] report_round_trips [of e] by blast
qed

end
