(* ===== verification/Message77Free.thy ===== *)
theory Message77Free
  imports Message77
begin

text \<open>
  Free text of \<open>framing/message77.rs\<close>: the nine bytes hold the 13 characters as one number in base 42.
  The byte loops multiply and divide that number, and the one-bit shifts are inverse to each other.
\<close>

section \<open>The number behind the bytes\<close>

fun bval :: "u8 list \<Rightarrow> nat" where
  "bval [] = 0"
| "bval (b # bs) = unat b * 256 ^ length bs + bval bs"

lemma unat_ucast_u8 [simp]: "unat (ucast (b :: u8) :: u16) = unat b"
proof -
  have "unat b < 65536" using unat_u8 [of b] by linarith
  then show ?thesis by (simp add: unsigned_ucast_eq take_bit_eq_mod)
qed

lemma unat_ucast_to_u8: "unat (ucast (r :: u16) :: u8) = unat r mod 256"
  by (simp add: unsigned_ucast_eq take_bit_eq_mod)

lemma bval_less: "bval bs < 256 ^ length bs"
proof (induction bs)
  case (Cons b bs)
  have "unat b * 256 ^ length bs + bval bs < (unat b + 1) * 256 ^ length bs" using Cons by simp
  also have "\<dots> \<le> 256 * 256 ^ length bs"
    using unat_u8 [of b] by (intro mult_right_mono) linarith+
  finally show ?case by simp
qed simp

lemma bval_inject: "length as = length bs \<Longrightarrow> bval as = bval bs \<Longrightarrow> as = bs"
proof (induction as bs rule: list_induct2)
  case (Cons a as b bs)
  let ?n = "256 ^ length bs :: nat"
  have "unat a = (unat a * ?n + bval as) div ?n" "unat b = (unat b * ?n + bval bs) div ?n"
    using bval_less [of as] bval_less [of bs] Cons.hyps by simp_all
  moreover have "unat a * ?n + bval as = unat b * ?n + bval bs" using Cons by simp
  ultimately have "unat a = unat b" by metis
  with Cons show ?case by (simp add: unat_inject)
qed simp

lemma bval_zeros [simp]: "bval (replicate n 0) = 0"
  by (induction n) simp_all

lemma unat_mul42: "unat (r :: u16) \<le> 42 \<Longrightarrow> unat (r + ucast (b :: u8) * 42) = unat r + unat b * 42"
proof -
  assume r: "unat r \<le> 42"
  have b: "unat b < 256" by (rule unat_u8)
  then have "unat b * 42 < 65536" "unat r + unat b * 42 < 65536" using r by linarith+
  then show ?thesis by (simp add: unat_word_ariths)
qed

lemma mul42_step:
  fixes r :: u16
  shows "unat (ucast (r AND 0xff) :: u8) + 256 * unat (drop_bit 8 r) = unat r"
proof -
  have "unat (ucast (r AND 0xff) :: u8) = unat r mod 256"
  proof -
    have "r AND 0xff = take_bit 8 r"
      by (simp add: take_bit_eq_mask mask_eq_exp_minus_1)
    then have "ucast (r AND 0xff) = (ucast r :: u8)"
      by (simp add: bit_eq_iff bit_simps)
    then show ?thesis by (simp add: unat_ucast_to_u8)
  qed
  moreover have "unat (drop_bit 8 r) = unat r div 256"
    by (simp add: drop_bit_eq_div unat_div)
  ultimately show ?thesis by simp
qed

lemma mul42_value:
  assumes "unat r \<le> 42"
  shows "length (fst (mul42 bs r)) = length bs \<and> unat (snd (mul42 bs r)) \<le> 42 \<and>
    bval (fst (mul42 bs r)) + unat (snd (mul42 bs r)) * 256 ^ length bs = 42 * bval bs + unat r"
  using assms
proof (induction bs)
  case (Cons b bs)
  obtain bs' c where m: "mul42 bs r = (bs', c)" by force
  with Cons have IH: "length bs' = length bs" "unat c \<le> 42"
    "bval bs' + unat c * 256 ^ length bs = 42 * bval bs + unat r" by simp_all
  let ?r = "c + ucast b * 42"
  have r: "unat ?r = unat c + unat b * 42" by (rule unat_mul42) (rule IH)
  have s: "unat (ucast (?r AND 0xff) :: u8) + 256 * unat (drop_bit 8 ?r) = unat c + unat b * 42"
    by (simp only: mul42_step r)
  have "unat (ucast (?r AND 0xff) :: u8) * 256 ^ length bs + bval bs' + unat (drop_bit 8 ?r) * 256 ^ Suc (length bs)
      = (unat (ucast (?r AND 0xff) :: u8) + 256 * unat (drop_bit 8 ?r)) * 256 ^ length bs + bval bs'"
    by (simp add: algebra_simps)
  also have "\<dots> = (unat b * 42) * 256 ^ length bs + (bval bs' + unat c * 256 ^ length bs)"
    by (simp only: s) (simp add: algebra_simps)
  also have "\<dots> = 42 * bval (b # bs) + unat r" by (simp add: IH(3) algebra_simps)
  finally have "unat (ucast (?r AND 0xff) :: u8) * 256 ^ length bs + bval bs'
      + unat (drop_bit 8 ?r) * 256 ^ Suc (length bs) = 42 * bval (b # bs) + unat r" .
  moreover have "unat (drop_bit 8 ?r) \<le> 42"
    using s IH(2) unat_u8 [of b] by linarith
  ultimately show ?case by (simp add: m IH(1) Let_def)
qed simp

text \<open>The base-42 value of a text.\<close>

fun fval :: "nat \<Rightarrow> string \<Rightarrow> nat" where
  "fval n [] = n"
| "fval n (c # cs) = fval (42 * n + (case nchar c FULL of None \<Rightarrow> 0 | Some i \<Rightarrow> i)) cs"

lemma fval_snoc: "fval n (s @ [c]) = 42 * fval n s + (case nchar c FULL of None \<Rightarrow> 0 | Some i \<Rightarrow> i)"
  by (induction s arbitrary: n) auto

lemma fval_less: "n < 42 ^ k \<Longrightarrow> fval n s < 42 ^ (k + length s)"
proof (induction s arbitrary: n k)
  case (Cons c s)
  let ?i = "case nchar c FULL of None \<Rightarrow> 0 | Some i \<Rightarrow> i"
  have "?i < 42" using nchar_Some [of c FULL] by (auto split: option.splits)
  moreover have "42 * (n + 1) \<le> 42 * 42 ^ k" using Cons.prems by (intro mult_left_mono) simp_all
  ultimately have "42 * n + ?i < 42 ^ Suc k" by simp
  from Cons.IH [OF this] show ?case by simp
qed simp

lemma free_digits_value:
  assumes "free_digits b s = Some b'" "bval b < 42 ^ k" "length b = 9" "k + length s \<le> 13"
  shows "length b' = 9 \<and> bval b' = fval (bval b) s"
  using assms
proof (induction s arbitrary: b k)
  case (Cons c s)
  from Cons.prems(1) obtain i where i: "nchar c FULL = Some i"
    and rest: "free_digits (fst (mul42 b (of_nat i))) s = Some b'" by (auto split: option.splits)
  from nchar_Some [OF i] have i42: "i < 42" by simp
  then have ui: "unat (of_nat i :: u16) = i" by (simp add: unat_of_nat)
  obtain b1 r1 where m: "mul42 b (of_nat i) = (b1, r1)" by force
  from mul42_value [of "of_nat i" b] m ui i42
  have v: "length b1 = 9" "bval b1 + unat r1 * 256 ^ 9 = 42 * bval b + i"
    by (simp_all add: Cons.prems(3))
  have "42 * (bval b + 1) \<le> 42 * 42 ^ k" using Cons.prems(2) by (intro mult_left_mono) simp_all
  then have less: "42 * bval b + i < 42 ^ Suc k" using i42 by simp
  also have "(42 :: nat) ^ Suc k \<le> 42 ^ 13" using Cons.prems(4) by (intro power_increasing) simp_all
  also have "(42 :: nat) ^ 13 < 256 ^ 9" by simp
  finally have "unat r1 = 0" using v(2) by (cases "unat r1") (auto simp del: power.simps)
  with v(2) have b1: "bval b1 = 42 * bval b + i" by simp
  from rest m have "free_digits b1 s = Some b'" by simp
  from Cons.IH [OF this _ v(1), of "Suc k"] less b1 Cons.prems(4) show ?case
    by (simp add: i)
qed simp

lemma unat_div42:
  fixes r :: u16
  assumes "unat r < 42"
  shows "unat (push_bit 8 r OR ucast (b :: u8)) = unat r * 256 + unat b"
proof -
  have disj: "push_bit 8 r AND ucast b = 0"
    by (rule bit_word_eqI) (auto simp: bit_simps dest: bit_imp_le_length)
  have "push_bit 8 r OR ucast b = push_bit 8 r + ucast b"
    using disj by (simp add: disjunctive_add_eq_or)
  moreover have "unat (push_bit 8 r) = unat r * 256"
    using assms by (simp add: push_bit_eq_mult unat_word_ariths)
  moreover have "unat r * 256 + unat b < 65536" using assms unat_u8 [of b] by linarith
  ultimately show ?thesis by (simp add: unat_word_ariths)
qed

lemma div42_value:
  assumes "unat r < 42"
  shows "length (fst (div42 r bs)) = length bs \<and> unat (snd (div42 r bs)) < 42 \<and>
    bval (fst (div42 r bs)) * 42 + unat (snd (div42 r bs)) = unat r * 256 ^ length bs + bval bs"
  using assms
proof (induction bs arbitrary: r)
  case (Cons b bs)
  let ?r = "push_bit 8 r OR ucast b"
  have r: "unat ?r = unat r * 256 + unat b" using Cons.prems by (rule unat_div42)
  have m: "unat (?r mod 42) = unat ?r mod 42" by (simp add: unat_mod)
  obtain bs' c where d: "div42 (?r mod 42) bs = (bs', c)" by force
  from Cons.IH [of "?r mod 42"] m d have IH: "length bs' = length bs" "unat c < 42"
    "bval bs' * 42 + unat c = (unat ?r mod 42) * 256 ^ length bs + bval bs" by simp_all
  have "unat ?r < 42 * 256" using r Cons.prems unat_u8 [of b] by linarith
  then have "unat ?r div 42 < 256" by (simp add: less_mult_imp_div_less)
  then have q: "unat (ucast (?r div 42) :: u8) = unat ?r div 42"
    by (simp add: unat_ucast_to_u8 unat_div)
  have "(x * n + y) * 42 + z = (x * 42 + m) * n + v" if "y * 42 + z = m * n + v" for x y z m n v :: nat
    using that by (simp add: algebra_simps)
  from this [OF IH(3)]
  have "(unat ?r div 42 * 256 ^ length bs + bval bs') * 42 + unat c
      = (unat ?r div 42 * 42 + unat ?r mod 42) * 256 ^ length bs + bval bs" .
  also have "\<dots> = unat r * 256 ^ Suc (length bs) + bval (b # bs)"
    by (simp only: div_mult_mod_eq r) (simp add: algebra_simps)
  finally show ?case by (simp add: d IH(1,2) q Let_def)
qed simp

lemma free_slots_inverts:
  "length s = k \<Longrightarrow> set s \<subseteq> set FULL \<Longrightarrow> bval b = fval 0 s \<Longrightarrow> free_slots k b = s"
proof (induction k arbitrary: s b)
  case (Suc k)
  then obtain s1 c where s: "s = s1 @ [c]" by (metis length_Suc_conv_rev)
  then obtain i where i: "nchar c FULL = Some i" using Suc.prems(2) nchar_in [of c FULL] by auto
  from nchar_Some [OF i] have i42: "i < 42" "charn i FULL = c" by simp_all
  obtain b1 r where d: "div42 0 b = (b1, r)" by force
  from div42_value [of 0 b] d have v: "unat r < 42" "bval b1 * 42 + unat r = bval b" by simp_all
  have "bval b = fval 0 s1 * 42 + i" using Suc.prems(3) by (simp add: s fval_snoc i)
  with v have e: "bval b1 * 42 + unat r = fval 0 s1 * 42 + i" by simp
  then have "(bval b1 * 42 + unat r) mod 42 = (fval 0 s1 * 42 + i) mod 42" by simp
  then have "unat r = i" using v(1) i42(1) by simp
  with e have "bval b1 = fval 0 s1" by simp
  with Suc have "free_slots k b1 = s1" by (simp add: s)
  then show ?case by (simp add: d s \<open>unat r = i\<close> i42(2))
qed simp

section \<open>The one-bit shift\<close>

lemma carry_bit: "drop_bit 7 (b AND 0x80) = of_bool (bit b 7)" for b :: u8
  by (rule bit_word_eqI) (auto simp: bit_simps field_masks bit_1_iff less_Suc_eq simp del: push_bit_Suc bit_numeral_word_iff)

lemma shifted_byte: "drop_bit 1 (push_bit 1 b OR of_bool t) = b AND 0x7F" for b :: u8
  by (rule bit_word_eqI) (auto simp: bit_simps field_masks bit_1_iff less_Suc_eq simp del: push_bit_Suc bit_numeral_word_iff)

lemma shifted_low: "(push_bit 1 b OR of_bool t) AND 1 = of_bool t" for b :: u8
  by (rule bit_word_eqI) (auto simp: bit_simps bit_1_iff simp del: push_bit_Suc bit_numeral_word_iff)

lemma joined_byte: "push_bit 7 (of_bool (bit b 7)) OR (b AND 0x7F) = b" for b :: u8
proof (rule bit_word_eqI)
  fix n assume "n < LENGTH(8)"
  then have "n = 7 \<or> n < 7" by auto
  then show "bit (push_bit 7 (of_bool (bit b 7)) OR (b AND 0x7F)) n = bit b n"
    by (auto simp: bit_simps field_masks bit_1_iff simp del: bit_numeral_word_iff)
qed

lemma shr1_shl1_Cons:
  "shr1 c (fst (shl1 (b # bs))) = (push_bit 7 c OR (b AND 0x7F)) # bs"
proof (induction bs arbitrary: b c)
  case Nil
  show ?case using shifted_byte [of b False] by simp
next
  case (Cons b' bs)
  have "fst (shl1 (b # b' # bs)) = (push_bit 1 b OR of_bool (bit b' 7)) # fst (shl1 (b' # bs))"
    by (cases bs) (simp_all only: shl1.simps Let_def split_beta carry_bit fst_conv snd_conv)
  then have "shr1 c (fst (shl1 (b # b' # bs)))
      = (push_bit 7 c OR (b AND 0x7F)) # shr1 (of_bool (bit b' 7)) (fst (shl1 (b' # bs)))"
    by (simp only: shr1.simps shifted_byte shifted_low)
  then show ?case by (simp only: Cons.IH joined_byte)
qed

lemma length_shl1 [simp]: "length (fst (shl1 bs)) = length bs"
  by (induction bs) (simp_all add: Let_def split_beta)

lemma shr1_shl1:
  assumes "length bs = 9" "bval bs < 2 ^ 71"
  shows "shr1 0 (fst (shl1 bs)) = bs"
proof -
  from assms(1) obtain b bs' where bs: "bs = b # bs'" and l: "length bs' = 8"
    by (cases bs) auto
  have "unat b * 256 ^ 8 < 2 ^ 71" using assms(2) by (simp add: bs l)
  then have "unat b < 128" by simp
  then have "unat (drop_bit 7 b) = 0" unfolding unat_drop_bit_eq by (simp add: drop_bit_eq_div)
  then have "drop_bit 7 b = 0" by (simp only: unsigned_eq_0_iff)
  then have "\<not> bit b 7" by (simp add: bit_iff_odd_drop_bit)
  with joined_byte [of b] show ?thesis by (simp only: bs shr1_shl1_Cons) simp
qed

section \<open>Round trip\<close>

lemma free_digits_in_table: "free_digits b s = Some b' \<Longrightarrow> set s \<subseteq> set FULL"
proof (induction s arbitrary: b)
  case (Cons c s)
  then obtain i where "nchar c FULL = Some i" by (auto split: option.splits)
  with Cons show ?case using nchar_None [of c FULL] by (auto split: option.splits)
qed simp

lemma free_digits_defined: "set s \<subseteq> set FULL \<Longrightarrow> \<exists>b'. free_digits b s = Some b'"
proof (induction s arbitrary: b)
  case (Cons c s)
  then obtain i where "nchar c FULL = Some i" using nchar_in [of c FULL] by auto
  with Cons show ?case by simp
qed simp

lemma encode_free_iff:
  "(\<exists>p. encode_free t = Some p) \<longleftrightarrow> length t \<le> 13 \<and> set t \<subseteq> set FULL"
proof -
  let ?s = "t @ replicate (13 - length t) (CHR '' '')"
  have sp: "CHR '' '' \<in> set FULL" by (simp add: FULL_def)
  have "set (replicate (13 - length t) (CHR '' '')) \<subseteq> set FULL" using sp by auto
  then have "(\<exists>b. free_digits (replicate 9 0) ?s = Some b) \<longleftrightarrow> set t \<subseteq> set FULL"
    using free_digits_in_table [of "replicate 9 0" ?s] free_digits_defined [of ?s "replicate 9 0"]
    by (auto simp del: free_digits.simps)
  then show ?thesis by (auto simp: encode_free_def split: option.splits)
qed

lemma trim_pad: "trim (t @ replicate n (CHR '' '')) = trim t"
proof -
  have sp: "ascii_space (CHR '' '')" by (simp add: ascii_space_def)
  have rep: "dropWhile ascii_space (replicate n (CHR '' '') @ xs) = dropWhile ascii_space xs" for n xs
    using sp by (induction n) auto
  show ?thesis
  proof (cases "dropWhile ascii_space t = []")
    case True
    then have "dropWhile ascii_space (t @ replicate n (CHR '' '')) = []"
      using sp by (auto simp: dropWhile_eq_Nil_conv)
    with True show ?thesis by (simp only: trim_def rev.simps dropWhile.simps)
  next
    case False
    then obtain x where "x \<in> set t" "\<not> ascii_space x" by (auto simp: dropWhile_eq_Nil_conv)
    then have "dropWhile ascii_space (t @ replicate n (CHR '' '')) = dropWhile ascii_space t @ replicate n (CHR '' '')"
      by (rule dropWhile_append1)
    then show ?thesis by (simp add: trim_def rep)
  qed
qed

lemma encode_free_decodes:
  assumes "encode_free t = Some p"
  shows "length p = 10 \<and> decode_free p = trim t \<and> get_i3 p = 0 \<and> get_n3 p = 0"
proof -
  let ?s = "t @ replicate (13 - length t) (CHR '' '')"
  from assms obtain b where l: "length t \<le> 13" and b: "free_digits (replicate 9 0) ?s = Some b"
    and p: "p = fst (shl1 b) @ [0]" by (auto simp: encode_free_def split: if_splits option.splits)
  have ls: "length ?s = 13" using l by simp
  from free_digits_value [OF b, of 0] ls have v: "length b = 9" "bval b = fval 0 ?s" by simp_all
  have "fval 0 ?s < 42 ^ (0 + length ?s)" by (rule fval_less) simp
  also have "\<dots> = 42 ^ 13" using ls by simp
  also have "(42 :: nat) ^ 13 < 2 ^ 71" by simp
  finally have "shr1 0 (fst (shl1 b)) = b" using v by (intro shr1_shl1) simp_all
  moreover have "take 9 p = fst (shl1 b)" by (simp add: p v(1))
  ultimately have "decode_free p = trim (free_slots 13 b)" by (simp only: decode_free_def)
  also have "free_slots 13 b = ?s"
    using free_slots_inverts [OF ls free_digits_in_table [OF b] v(2)] .
  finally have "decode_free p = trim t" by (simp only: trim_pad)
  moreover have "p ! 9 = 0" "length p = 10" using v(1) by (simp_all add: p nth_append)
  moreover have "get_n3 p = 0"
  proof -
    obtain b' z where b': "b = b' @ [z]" using v(1) by (metis length_0_conv rev_exhaust zero_neq_numeral)
    have last: "last (fst (shl1 (xs @ [y]))) = push_bit 1 y" for xs y
      by (induction xs) (auto simp: Let_def split_beta simp flip: length_0_conv)
    have "p ! 8 = last (fst (shl1 b))" using v(1) by (simp add: p nth_append last_conv_nth flip: length_0_conv)
    with last [of b' z] have "p ! 8 = push_bit 1 z" by (simp only: b')
    moreover have "push_bit 2 (push_bit 1 z) AND 0x04 = 0"
      by (rule bit_word_eqI) (auto simp: bit_simps field_masks simp del: push_bit_Suc bit_numeral_word_iff)
    ultimately show ?thesis using \<open>p ! 9 = 0\<close> by (simp only: get_n3_def) simp
  qed
  ultimately show ?thesis by (simp add: get_i3_def)
qed

lemma unpack_free:
  "encode_free t = Some p \<Longrightarrow> unpack77 it tab p = (tab, trim t)"
  using encode_free_decodes [of t p] by (simp add: unpack77_def)

end
