(* ===== verification/Message77Props.thy ===== *)
theory Message77Props
  imports Message77Std Message77Free
begin

text \<open>
  The properties of the 77-bit message codec of \<open>framing/message77.rs\<close>: standard messages, calls that
  travel as hashes, nonstandard calls after \<open>CQ\<close> and free text all come back from \<open>unpack77\<close>.
\<close>

section \<open>The fields of a message text\<close>

lemma cq_scan_counts:
  assumes "cq_scan a b v w = Some (a', b', v')"
  shows "list_all (\<lambda>c. is_digit c \<or> is_letter c) (takeWhile (\<lambda>c. c \<noteq> CHR '' '') w)
    \<and> a' = a + length (filter is_digit (takeWhile (\<lambda>c. c \<noteq> CHR '' '') w))
    \<and> b' = b + length (filter is_letter (takeWhile (\<lambda>c. c \<noteq> CHR '' '') w))"
  using assms
proof (induction w arbitrary: a b v)
  case (Cons c w)
  then show ?case using digit_not_letter [of c]
    by (cases "c = CHR '' ''"; cases "is_digit c"; cases "is_letter c") (auto dest!: Cons.IH)
qed simp

lemma station_text:
  assumes "std_station d"
  shows "d \<noteq> []" "CHR '' '' \<notin> set d" "3 \<le> length d"
proof -
  have c: "std_call (base_part d)" using assms by (simp add: std_station_def)
  have "set d = set (base_part d) \<union> set (suffix_part d)" by (metis parts(1) set_append)
  then show "CHR '' '' \<notin> set d"
    using std_call_alnum [OF c] alnum_not_slash parts(2) [of d] by (auto simp: suffix_text_def)
  have "length d = length (base_part d) + length (suffix_part d)" by (metis parts(1) length_append)
  then show "3 \<le> length d" using std_call_length [OF c] by simp
  then show "d \<noteq> []" by auto
qed

lemma takeWhile_take_word:
  assumes "x \<notin> set d" "rest = [] \<or> hd rest = x"
  shows "takeWhile (\<lambda>c. c \<noteq> x) (take n (d @ rest)) = take n d"
proof -
  have r: "takeWhile (\<lambda>c. c \<noteq> x) (take k rest) = []" for k
    using assms(2) by (cases rest; cases k) auto
  have "\<forall>c\<in>set (take n d). c \<noteq> x" using assms(1) by (auto dest: in_set_takeD)
  then show ?thesis by (simp add: r takeWhile_append2)
qed

lemma drop_cq: "drop 3 (''CQ '' @ s) = s"
  by (simp add: numeral_eq_Suc)

lemma station_is_no_modifier:
  assumes "std_station d" "rest = [] \<or> hd rest = CHR '' ''"
  shows "parse_cq_modifier (''CQ '' @ d @ rest) = None"
proof (cases "cq_scan 0 0 0 (take 5 (d @ rest))")
  case None
  then show ?thesis unfolding parse_cq_modifier_def drop_cq by simp
next
  case (Some r)
  obtain a b v where r: "r = (a, b, v)" by (cases r)
  let ?p = "take 5 d"
  have tw: "takeWhile (\<lambda>c. c \<noteq> CHR '' '') (take 5 (d @ rest)) = ?p"
    by (rule takeWhile_take_word [OF station_text(2) [OF assms(1)] assms(2)])
  from cq_scan_counts [OF Some [unfolded r]] have p: "list_all (\<lambda>c. is_digit c \<or> is_letter c) ?p"
    and a: "a = length (filter is_digit ?p)" and b: "b = length (filter is_letter ?p)"
    by (simp_all only: tw add_0)
  let ?c = "base_part d"
  have c: "std_call ?c" using assms(1) by (simp add: std_station_def)
  have len: "3 \<le> length ?c" using std_call_length [OF c] by simp
  have "take 3 ?p = take 3 ?c"
  proof -
    have "take 3 ?p = take 3 d" by simp
    also have "\<dots> = take 3 (?c @ suffix_part d)" by (metis parts(1))
    finally show ?thesis using len by simp
  qed
  then have "list_ex is_digit ?p"
    using std_call_digit [OF c] by (metis append_take_drop_id list_ex_append)
  then have "a \<noteq> 0" by (auto simp: a list_ex_iff filter_empty_conv)
  moreover have "\<not> (a = 3 \<and> b = 0)"
  proof
    assume ab: "a = 3 \<and> b = 0"
    then have "list_all is_digit ?p" using p b by (auto simp: list_all_iff filter_empty_conv)
    moreover from this have "length ?p = 3" using ab a by (auto simp: list_all_iff filter_id_conv)
    ultimately have d3: "length d = 3" and dig: "list_all is_digit d" by auto
    have "length d = length ?c + length (suffix_part d)" by (metis parts(1) length_append)
    with d3 len have "length (suffix_part d) = 0" by linarith
    then have "?c = d" by (metis parts(1) append_Nil2 length_0_conv)
    with c have "list_ex is_letter d" by (simp add: std_call_def)
    with dig digit_not_letter show False by (auto simp: list_all_iff list_ex_iff)
  qed
  ultimately show ?thesis unfolding parse_cq_modifier_def drop_cq Some r by auto
qed

lemma show_plus03_word:
  assumes v: "\<bar>v\<bar> < 100"
  shows "space_free (show_plus03 v)"
proof -
  have "nat \<bar>v\<bar> div 10 < 36" "nat \<bar>v\<bar> mod 10 < 36" using v by auto
  then have "digit_char (nat \<bar>v\<bar> div 10) \<noteq> CHR '' ''" "digit_char (nat \<bar>v\<bar> mod 10) \<noteq> CHR '' ''"
    by (simp_all add: digit_char_neq)
  then show ?thesis unfolding show_plus03_digits [OF v] space_free_def by auto
qed

lemma extra_space_free: "std_extra e \<Longrightarrow> CHR '' '' \<notin> set e"
proof -
  assume e: "std_extra e"
  consider "e = [] \<or> e = ''RRR'' \<or> e = ''RR73'' \<or> e = ''73''" | "is_grid4 e" | "report_text e"
    using e by (auto simp: std_extra_def)
  then show ?thesis
  proof cases
    case 2
    then obtain a b c d where "e = [a, b, c, d]" "in_field a" "in_field b" "is_digit c" "is_digit d"
      by (auto simp: is_grid4_def length_Suc_conv numeral_eq_Suc)
    then show ?thesis by (auto simp: in_field_def is_digit_def)
  next
    case 3
    then obtain v where "-30 \<le> v" "v \<le> 99" and e: "e = show_plus03 v \<or> e = CHR ''R'' # show_plus03 v"
      by (rule report_cases)
    then have "CHR '' '' \<notin> set (show_plus03 v)" using show_plus03_word [of v] by (simp add: space_free_def)
    with e show ?thesis by auto
  qed auto
qed

text \<open>The text of a standard message, and the fields that \<open>pack77\<close> reads from it.\<close>

lemma message_words: "d \<noteq> [] \<Longrightarrow> join3 t d e = join_sp ([t, d] @ (if e = [] then [] else [e]))"
  by (simp add: join3_def)

lemma token_at_simps [simp]:
  "token_at (x # xs) 0 = x" "token_at (x # xs) (Suc i) = token_at xs i" "token_at [] i = []"
  by (simp_all add: token_at_def)

lemma message_fields_plain:
  assumes "space_free t" "space_free d" "e = [] \<or> space_free e" "\<not> starts_with (join3 t d e) ''CQ ''"
  shows "message_fields (join3 t d e) = (t, d, e, False)"
proof -
  have "tokens (join3 t d e) = [t, d] @ (if e = [] then [] else [e])"
    unfolding message_words [OF conjunct1 [OF assms(2) [unfolded space_free_def]]]
    by (rule tokens_join) (use assms in auto)
  then show ?thesis using assms(4) by (auto simp: message_fields_def Let_def numeral_2_eq_2)
qed

lemma message_fields_cq:
  assumes "space_free d" "e = [] \<or> space_free e" "parse_cq_modifier (''CQ '' @ join3 d e []) = None"
  shows "message_fields (join3 ''CQ'' d e) = (''CQ'', d, e, False)"
proof -
  have d: "d \<noteq> []" using assms(1) by (simp add: space_free_def)
  have m: "join3 ''CQ'' d e = ''CQ '' @ join3 d e []" using d by (simp add: join3_def)
  have "join3 d e [] = join_sp (d # (if e = [] then [] else [e]))" by (simp add: join3_def)
  then have "tokens (join3 d e []) = d # (if e = [] then [] else [e])"
    by (simp only:) (rule tokens_join, use assms(1,2) in auto)
  moreover have "starts_with (''CQ '' @ s) ''CQ ''" for s by (simp add: starts_with_def)
  ultimately show ?thesis
    unfolding message_fields_def m drop_cq assms(3) by (auto simp: Let_def)
qed

lemma message_fields_modifier:
  assumes "space_free m" "space_free d" "e = [] \<or> space_free e"
    and "parse_cq_modifier (''CQ '' @ join3 m d e) = Some v"
  shows "message_fields (join3 (''CQ '' @ m) d e) = (''CQ '' @ m, d, e, False)"
proof -
  have d: "d \<noteq> []" using assms(2) by (simp add: space_free_def)
  have m: "join3 (''CQ '' @ m) d e = ''CQ '' @ join3 m d e" by (simp add: join3_def)
  have "tokens (join3 m d e) = [m, d] @ (if e = [] then [] else [e])"
    unfolding message_words [OF d] by (rule tokens_join) (use assms(1-3) in auto)
  moreover have "starts_with (''CQ '' @ s) ''CQ ''" for s by (simp add: starts_with_def)
  ultimately show ?thesis
    unfolding message_fields_def m drop_cq assms(4) by (auto simp: Let_def numeral_2_eq_2)
qed

lemma word_is_no_cq:
  assumes "3 \<le> length t" "CHR '' '' \<notin> set t"
  shows "\<not> starts_with (join3 t d e) ''CQ ''"
proof -
  obtain x y z r where xyz: "t = x # y # z # r"
    using assms(1) by (cases t; cases "tl t"; cases "tl (tl t)") auto
  then have "z \<noteq> CHR '' ''" using assms(2) by auto
  then show ?thesis by (simp add: xyz starts_with_def join3_def)
qed

lemma std_fields:
  assumes "std_to t" "std_station d" and e: "e = [] \<or> space_free e"
  shows "message_fields (join3 t d e) = (t, d, e, False)"
proof -
  have d: "space_free d" using station_text [OF assms(2)] by (simp add: space_free_def)
  consider (cq) "t = ''CQ''" | (tok) "t = ''DE'' \<or> t = ''QRZ''"
    | (md) "starts_with t ''CQ ''" "cq_modifier (drop 3 t)" | (st) "std_station t"
    using assms(1) by (auto simp: std_to_def call_token_def split: if_splits)
  then show ?thesis
  proof cases
    case cq
    have "parse_cq_modifier (''CQ '' @ d @ (if e \<noteq> [] then '' '' @ e else [])) = None"
      by (rule station_is_no_modifier [OF assms(2)]) simp
    then show ?thesis using message_fields_cq [OF d e] by (simp add: cq join3_def)
  next
    case tok
    then show ?thesis
      by (intro message_fields_plain d e) (auto simp: space_free_def starts_with_def join3_def)
  next
    case md
    have t: "t = ''CQ '' @ drop 3 t" using starts_with_append [OF md(1)] by (simp add: numeral_eq_Suc)
    have m: "space_free (drop 3 t)"
      using md(2) by (auto simp: cq_modifier_def cq_digits_def cq_letters_def space_free_def list_all_iff
          is_digit_def is_upper_letter_def)
    have "\<exists>v. parse_cq_modifier (''CQ '' @ drop 3 t @ rest) = Some v" if "hd rest = CHR '' ''" for rest
      using parse_modifier [OF md(2), of rest] three_digits [of "drop 3 t"] that by auto
    from this [of "join3 [] d e"] d obtain v where "parse_cq_modifier (''CQ '' @ join3 (drop 3 t) d e) = Some v"
      by (auto simp: join3_def space_free_def)
    from message_fields_modifier [OF m d e this] show ?thesis by (simp only: t [symmetric])
  next
    case st
    have t: "space_free t" "3 \<le> length t" using station_text [OF st] by (simp_all add: space_free_def)
    then show ?thesis
      by (intro message_fields_plain d e word_is_no_cq) (simp_all add: space_free_def)
  qed
qed

section \<open>Standard messages\<close>

lemma call_word:
  fixes n ip :: nat
  assumes "n < 2 ^ 28" "ip = of_bool b"
  defines "w \<equiv> push_bit 1 (of_nat n) OR of_nat ip :: u32"
  shows "unat w < 2 ^ 29" "unat (drop_bit 1 w) = n" "unat (w AND 1) = ip" "b \<Longrightarrow> w OR 1 = w"
proof -
  define x :: u32 where "x = of_nat n"
  have un: "unat x = n" using assms(1) by (simp add: x_def unat_of_nat)
  have below: "bit x k \<Longrightarrow> k < 28" for k
    using bit_below [of x 28 k] un assms(1) by simp
  have w: "w = push_bit 1 x OR of_bool b" by (simp add: w_def x_def assms(2))
  have d: "drop_bit 1 w = x"
    unfolding w
    by (rule bit_word_eqI; auto simp: bit_simps bit_1_iff simp del: push_bit_Suc dest: below bit_imp_le_length)
  then show "unat (drop_bit 1 w) = n" by (simp only: un)
  then have "unat w div 2 = n" unfolding unat_drop_bit_eq by (simp add: drop_bit_eq_div)
  then have "unat w < 2 * n + 2" by presburger
  then show "unat w < 2 ^ 29" using assms(1) by simp
  have "w AND 1 = of_bool b"
    unfolding w by (rule bit_word_eqI; auto simp: bit_simps bit_1_iff simp del: push_bit_Suc)
  then show "unat (w AND 1) = ip" by (simp add: assms(2))
  show "b \<Longrightarrow> w OR 1 = w" by (simp add: w or.assoc)
qed

lemma nchar_append: "c \<notin> set xs \<Longrightarrow> nchar c (xs @ c # ys) = Some (length xs)"
  by (induction xs) auto

lemma station_no_nonstd:
  assumes "std_station d"
  shows "\<not> needs_nonstd d"
proof -
  have c: "CHR ''/'' \<notin> set (base_part d)"
    using std_call_alnum [of "base_part d"] alnum_not_slash assms by (auto simp: std_station_def)
  have "find_char (CHR ''/'') (base_part d @ s) = (if s = [] then None else Some (length (base_part d)))"
    if "suffix_text s" for s
    using that c nchar_append [OF c] by (auto simp: find_char_def suffix_text_def nchar_None)
  then have "\<not> needs_nonstd (base_part d @ s)" if "suffix_text s" for s
    using that by (auto simp: needs_nonstd_def suffix_text_def)
  from this [OF parts(2) [of d]] show ?thesis by (metis parts(1))
qed

definition mixed_suffixes :: "string \<Rightarrow> string \<Rightarrow> bool" where
  "mixed_suffixes t d \<longleftrightarrow>
     (ends_with t ''/P'' \<or> ends_with d ''/P'') \<and> (ends_with t ''/R'' \<or> ends_with d ''/R'')"

definition std_i3 :: "string \<Rightarrow> string \<Rightarrow> u8" where
  "std_i3 t d = (if ends_with t ''/P'' \<or> ends_with d ''/P'' then 2 else 1)"

lemma has_suffix_cases:
  "has_suffix t \<longleftrightarrow> ends_with t ''/P'' \<or> ends_with t ''/R''"
  "ends_with t ''/P'' \<Longrightarrow> suffix_part t = ''/P''"
  "ends_with t ''/R'' \<Longrightarrow> suffix_part t = ''/R''"
  by (auto simp: has_suffix_def suffix_part_def ends_with_def numeral_2_eq_2)

lemma suffix_of_std:
  assumes "\<not> mixed_suffixes t d"
  shows "has_suffix t \<Longrightarrow> suffix_of (unat (std_i3 t d)) = Some (suffix_part t)"
    and "has_suffix d \<Longrightarrow> suffix_of (unat (std_i3 t d)) = Some (suffix_part d)"
  using assms has_suffix_cases [of t] has_suffix_cases [of d]
  by (auto simp: std_i3_def suffix_of_def mixed_suffixes_def)

lemma encode_std_fields:
  assumes "pack28 tab t = (tab1, Some (na, ipa))" "ipa = of_bool (has_suffix t)"
    and "pack28 tab1 d = (tab2, Some (nb, ipb))"
    and "na < 2 ^ 28" "\<not> mixed_suffixes t d" "\<not> (is_cq t \<and> needs_nonstd d)"
  shows "encode_std tab t d e = (tab2, Some (pack_std_bytes (push_bit 1 (of_nat na) OR of_nat ipa)
    (push_bit 1 (of_nat nb) OR of_nat ipb) (packgrid e) (std_i3 t d)))"
proof -
  let ?w = "push_bit 1 (of_nat na) OR of_nat ipa :: u32"
  have "has_suffix t \<Longrightarrow> ?w OR 1 = ?w" by (rule call_word(4) [OF assms(4,2)])
  then have w: "(if ends_with t ''/R'' \<or> ends_with t ''/P'' then ?w OR 1 else ?w) = ?w"
    by (simp add: has_suffix_def)
  have i3: "(if \<not> ends_with t ''/R'' \<and> ends_with t ''/P'' then 2
      else if ends_with t ''/P'' \<or> ends_with d ''/P'' then 2 else 1) = std_i3 t d"
    by (simp add: std_i3_def)
  show ?thesis
    using assms(5,6)
    by (simp only: encode_std_def assms(1,3) prod.case option.case Let_def mixed_suffixes_def if_False
        w i3)
qed

lemma decode_std_fields:
  assumes na: "na < 2 ^ 28" "ipa = of_bool (has_suffix t)" and nb: "nb < 2 ^ 28" "ipb = of_bool (has_suffix d)"
    and "grid_round_trips e"
    and t1: "unpack28 it tab na ipa (unat (std_i3 t d)) = (tab1, Some t')"
    and t2: "unpack28 it tab1 nb ipb (unat (std_i3 t d)) = (tab2, Some d')"
  defines "p \<equiv> pack_std_bytes (push_bit 1 (of_nat na) OR of_nat ipa)
    (push_bit 1 (of_nat nb) OR of_nat ipb) (packgrid e) (std_i3 t d)"
  shows "unpack77 it tab p = (tab2, join3 t' d' e)"
proof -
  note a = call_word [OF na] and b = call_word [OF nb]
  have i3: "unat (std_i3 t d) < 2 ^ 3" by (simp add: std_i3_def)
  note f = std_bytes_fields [OF a(1) b(1) i3, of "packgrid e", folded p_def]
  have g3: "get_i3 p = unat (std_i3 t d)" by (simp only: get_i3_def f(5))
  have "std_ir p = (if bit (packgrid e) 15 then 1 else 0)"
    by (simp only: std_ir_def f(4)) simp
  then have grid: "unpackgrid (std_igrid4 p) (std_ir p) = e"
    using assms(5) by (simp only: f(3) grid_round_trips_def)
  have "decode_std it tab p = (tab2, join3 t' d' e)"
    unfolding decode_std_def Let_def f(1,2) a(2,3) b(2,3) g3 grid t1 prod.case option.case t2
    by (rule refl)
  moreover have "get_i3 p = 1 \<or> get_i3 p = 2" by (simp add: g3 std_i3_def)
  ultimately show ?thesis by (simp add: unpack77_def Let_def)
qed

lemma field_of_round_trip:
  assumes "field_round_trips n ip t"
  shows "n < 2 ^ 28" "ip = of_bool (has_suffix t)"
    "(has_suffix t \<Longrightarrow> suffix_of i3 = Some (suffix_part t)) \<Longrightarrow>
      \<exists>tab1. unpack28 it tab n ip i3 = (tab1, Some t)"
proof -
  assume "has_suffix t \<Longrightarrow> suffix_of i3 = Some (suffix_part t)"
  then have "snd (unpack28 it tab n ip i3) = Some t"
    using assms unfolding field_round_trips_def by blast
  then show "\<exists>tab1. unpack28 it tab n ip i3 = (tab1, Some t)" by (metis prod.collapse)
qed (use assms in \<open>auto simp: field_round_trips_def\<close>)

lemma standard_message_general:
  assumes "std_to t" "std_station d" "e = [] \<or> space_free e" "\<not> mixed_suffixes t d"
    and g: "packgrid e = packgrid e'" "grid_round_trips e'"
  shows "snd (unpack77 it tab' (snd (pack77 tab (join3 t d e)))) = join3 t d e'"
proof -
  from pack28_to [OF assms(1), of tab] obtain tab1 na ipa where
    a: "pack28 tab t = (tab1, Some (na, ipa))" "field_round_trips na ipa t" by blast
  from pack28_station [OF assms(2), of tab1] obtain tab2 nb ipb where
    b: "pack28 tab1 d = (tab2, Some (nb, ipb))" "field_round_trips nb ipb d" by blast
  note fa = field_of_round_trip [OF a(2)] and fb = field_of_round_trip [OF b(2)]
  have "\<not> (is_cq t \<and> needs_nonstd d)" using station_no_nonstd [OF assms(2)] by blast
  from encode_std_fields [OF a(1) fa(2) b(1) fa(1) assms(4) this]
  have p: "snd (pack77 tab (join3 t d e)) = pack_std_bytes (push_bit 1 (of_nat na) OR of_nat ipa)
      (push_bit 1 (of_nat nb) OR of_nat ipb) (packgrid e') (std_i3 t d)"
    by (simp add: pack77_def std_fields [OF assms(1-3)] g(1))
  obtain tab3 where t1: "unpack28 it tab' na ipa (unat (std_i3 t d)) = (tab3, Some t)"
    using fa(3) [OF suffix_of_std(1) [OF assms(4)]] by blast
  obtain tab4 where t2: "unpack28 it tab3 nb ipb (unat (std_i3 t d)) = (tab4, Some d)"
    using fb(3) [OF suffix_of_std(2) [OF assms(4)]] by blast
  from decode_std_fields [OF fa(1,2) fb(1,2) g(2) t1 t2]
  show ?thesis by (simp only: p snd_conv)
qed

lemma standard_message_survives:
  assumes "std_to t" "std_station d" "std_extra e" "\<not> mixed_suffixes t d"
  shows "snd (unpack77 it tab' (snd (pack77 tab (join3 t d e)))) = join3 t d e"
  using standard_message_general [OF assms(1,2) _ assms(4) refl extra_round_trips [OF assms(3)]]
    extra_space_free [OF assms(3)] by (auto simp: space_free_def)

section \<open>Calls that travel as a hash\<close>

text \<open>
  A call that no base field can carry: its 22-bit hash is sent, and the receiver that has heard the
  call (here: whose table saw it packed) resolves it.
\<close>

definition hashed_call :: "string \<Rightarrow> bool" where
  "hashed_call h \<longleftrightarrow> 3 \<le> length h \<and> length h \<le> 11 \<and> set h \<subseteq> insert (CHR ''/'') (set ALPHANUM)
     \<and> call_token h = None \<and> \<not> has_suffix h \<and> pack_basecall h (length h) = None"

lemma n22_small: "unat (n22_of n58) < 2 ^ 22"
proof -
  have "n22_of n58 = take_bit 22 (n22_of n58)"
    unfolding n22_of_def
    by (rule bit_word_eqI; auto simp: bit_simps field_masks simp del: bit_numeral_word_iff)
  then have "unat (n22_of n58) = take_bit 22 (unat (n22_of n58))" by (metis unsigned_take_bit_eq)
  then show ?thesis by (metis take_bit_nat_less_exp)
qed

lemma pack28_hashed:
  assumes "hashed_call h"
  shows "pack28 tab h = (tab(hash22 h \<mapsto> h), Some (NTOKENS + unat (hash22 h), 0))"
proof -
  have chars: "call_chars h"
    using assms alnum_slash by (auto simp: hashed_call_def call_chars_def set_ALPHANUM_SPACE_SLASH)
  have "CHR '' '' \<notin> set h" using assms alnum_not_slash by (auto simp: hashed_call_def)
  moreover have "CHR '' '' \<in> set h" if s: "starts_with h ''CQ ''"
    by (subst starts_with_append [OF s]) simp
  ultimately have "\<not> starts_with h ''CQ ''" by blast
  moreover have "h \<noteq> ''DE''" "h \<noteq> ''QRZ''" "h \<noteq> ''CQ''"
    using assms by (auto simp: hashed_call_def call_token_def split: if_splits)
  ultimately show ?thesis
    using assms save_callsign_ok [OF chars, of tab]
    by (simp add: pack28_def hashed_call_def Let_def)
qed

lemma lookup_22:
  assumes "hash_order it"
  shows "lookup_callsign it tab k 22 = tab k"
proof (cases "find (\<lambda>(k', v). drop_bit (22 - 22) k' = k) (it tab)")
  case None
  have "tab k = None"
  proof (rule ccontr)
    assume "tab k \<noteq> None"
    then obtain v where "(k, v) \<in> set (it tab)" using assms by (auto simp: hash_order_def)
    with None show False by (auto simp: find_None_iff)
  qed
  with None show ?thesis by (simp add: lookup_callsign_def)
next
  case (Some x)
  then have "x \<in> set (it tab)" "fst x = k" by (auto dest!: find_Some_in)
  moreover from this assms have "x \<in> {(k, v). tab k = Some v}" unfolding hash_order_def by blast
  ultimately have "tab k = Some (snd x)" by auto
  with Some show ?thesis by (simp add: lookup_callsign_def)
qed

lemma unpack28_hashed:
  assumes "hash_order it" "k < MAX22"
  shows "unpack28 it tab (NTOKENS + k) ip i3 =
    (tab, Some (''<'' @ (case tab (of_nat k) of None \<Rightarrow> ''...'' | Some c \<Rightarrow> c) @ ''>''))"
  using assms(2) by (simp add: unpack28_def lookup_22 [OF assms(1)])

lemma hashed_message_survives:
  assumes "hash_order it" "hashed_call h" "std_station d" "std_extra e" "tab' (hash22 h) = Some h"
  shows "fst (pack77 tab (join3 h d e)) = tab(hash22 h \<mapsto> h, hash22 d \<mapsto> d) \<and>
    snd (unpack77 it tab' (snd (pack77 tab (join3 h d e)))) = join3 (''<'' @ h @ ''>'') d e"
proof -
  let ?tab1 = "tab(hash22 h \<mapsto> h)"
  let ?tab2 = "?tab1(hash22 d \<mapsto> d)"
  have nh: "\<not> has_suffix h" using assms(2) by (simp add: hashed_call_def)
  then have mixed: "\<not> mixed_suffixes h d"
    using has_suffix_cases(2,3) [of d] by (auto simp: mixed_suffixes_def has_suffix_def)
  note a = pack28_hashed [OF assms(2), of tab]
  from pack28_station [OF assms(3), of ?tab1] obtain nb ipb where
    b: "pack28 ?tab1 d = (?tab2, Some (nb, ipb))" "field_round_trips nb ipb d" by blast
  note fb = field_of_round_trip [OF b(2)]
  have k: "unat (hash22 h) < MAX22" using n22_small by (simp add: hash22_def MAX22_def)
  then have na: "NTOKENS + unat (hash22 h) < 2 ^ 28" by (simp add: NTOKENS_def MAX22_def)
  have ia: "(0 :: nat) = of_bool (has_suffix h)" using nh by simp
  have "\<not> (is_cq h \<and> needs_nonstd d)" using station_no_nonstd [OF assms(3)] by blast
  note enc = encode_std_fields [OF a ia b(1) na mixed this, of e]
  have h: "space_free h" "3 \<le> length h"
    using assms(2) alnum_not_slash by (auto simp: hashed_call_def space_free_def)
  have fields: "message_fields (join3 h d e) = (h, d, e, False)"
    using station_text [OF assms(3)] extra_space_free [OF assms(4)] h
    by (intro message_fields_plain word_is_no_cq) (auto simp: space_free_def)
  have p: "pack77 tab (join3 h d e) = (?tab2, pack_std_bytes (push_bit 1 (of_nat (NTOKENS + unat (hash22 h))) OR of_nat 0)
      (push_bit 1 (of_nat nb) OR of_nat ipb) (packgrid e) (std_i3 h d))"
    unfolding pack77_def fields by (simp only: prod.case enc option.case Let_def if_False)
  have u1: "unpack28 it tab' (NTOKENS + unat (hash22 h)) 0 (unat (std_i3 h d)) = (tab', Some (''<'' @ h @ ''>''))"
    using assms(5) by (simp add: unpack28_hashed [OF assms(1) k])
  obtain tab4 where u2: "unpack28 it tab' nb ipb (unat (std_i3 h d)) = (tab4, Some d)"
    using fb(3) [OF suffix_of_std(2) [OF mixed]] by blast
  from decode_std_fields [OF na ia fb(1,2) extra_round_trips [OF assms(4)] u1 u2]
  show ?thesis by (simp only: p fst_conv snd_conv)
qed

end
