(* ===== verification/Message77Nonstd.thy ===== *)
theory Message77Nonstd
  imports Message77Props
begin

text \<open>
  Messages of type 4 of \<open>framing/message77.rs\<close>: a nonstandard call after \<open>CQ\<close> is sent in full, as a
  number in base 38. The closing section has what every payload has in common, and what the packer
  does with texts that none of its forms carries.
\<close>

section \<open>Base 38\<close>

lemma base38_snoc:
  "base38_lossy n (s @ [c]) = 38 * base38_lossy n s + of_nat (case nchar c ALPHANUM_SPACE_SLASH of None \<Rightarrow> 0 | Some j \<Rightarrow> j)"
  by (induction s arbitrary: n) auto

lemma base38_bound:
  assumes "length s \<le> 11"
  shows "unat (base38_lossy 0 s) < 38 ^ length s \<and>
    (s = s' @ [c] \<longrightarrow> unat (base38_lossy 0 s) =
       38 * unat (base38_lossy 0 s') + (case nchar c ALPHANUM_SPACE_SLASH of None \<Rightarrow> 0 | Some j \<Rightarrow> j))"
  using assms
proof (induction s arbitrary: s' c rule: rev_induct)
  case (snoc d s)
  let ?j = "case nchar d ALPHANUM_SPACE_SLASH of None \<Rightarrow> 0 | Some j \<Rightarrow> j"
  have j: "?j < 38" using nchar_Some [of d ALPHANUM_SPACE_SLASH] by (auto split: option.splits)
  have "unat (base38_lossy 0 s) < 38 ^ length s" using snoc by simp
  then have "unat (base38_lossy 0 s) * 38 + ?j < 38 ^ length s * 38" using j by (rule mul_add_less)
  then have less: "38 * unat (base38_lossy 0 s) + ?j < 38 ^ Suc (length s)" by (simp add: mult.commute)
  also have "(38 :: nat) ^ Suc (length s) \<le> 38 ^ 11" using snoc.prems by (intro power_increasing) simp_all
  also have "(38 :: nat) ^ 11 < 2 ^ 64" by simp
  finally have "38 * unat (base38_lossy 0 s) + ?j < 2 ^ LENGTH(64)" by simp
  then have "unat (38 * base38_lossy 0 s + of_nat ?j) = 38 * unat (base38_lossy 0 s) + ?j"
    using j by (simp add: unat_word_ariths unat_of_nat del: of_nat_add of_nat_mult)
  with less show ?case by (auto simp: base38_snoc simp del: of_nat_add of_nat_mult)
qed simp

lemma digits38_inverts:
  "length s = k \<Longrightarrow> k \<le> 11 \<Longrightarrow> call_chars s \<Longrightarrow> digits38 k (base38_lossy 0 s) = s"
proof (induction k arbitrary: s)
  case (Suc k)
  then obtain s' c where s: "s = s' @ [c]" by (metis length_Suc_conv_rev)
  then obtain j where j: "nchar c ALPHANUM_SPACE_SLASH = Some j"
    using Suc.prems(3) nchar_in [of c ALPHANUM_SPACE_SLASH] by (auto simp: call_chars_def)
  from nchar_Some [OF j] have c: "j < 38" "charn j ALPHANUM_SPACE_SLASH = c" by simp_all
  let ?w = "base38_lossy 0 s"
  have w: "unat ?w = 38 * unat (base38_lossy 0 s') + j"
    using base38_bound [of s s' c] Suc.prems s j by simp
  have "unat (?w mod 38) = j" using w c(1) by (simp add: unat_mod)
  moreover have "?w div 38 = base38_lossy 0 s'"
    by (rule unat_inject) (use w c(1) in \<open>simp add: unat_div\<close>)
  moreover have "digits38 k (base38_lossy 0 s') = s'"
    using Suc s by (simp add: call_chars_def)
  ultimately show ?case by (simp add: c(2)) (simp add: s)
qed simp

lemma base38_blanks: "base38_lossy 0 (replicate n (CHR '' '') @ s) = base38_lossy 0 s"
proof (induction n)
  case (Suc n)
  have "nchar (CHR '' '') ALPHANUM_SPACE_SLASH = Some 0" by (simp add: ALPHANUM_SPACE_SLASH_def)
  with Suc show ?case by simp
qed simp

lemma pack58_scan_value:
  "call_chars s \<Longrightarrow> CHR ''<'' \<notin> set s \<Longrightarrow> length c11 + length s \<le> 11 \<Longrightarrow>
   pack58_scan n c11 s = Some (base38_lossy n s, c11 @ s)"
proof (induction s arbitrary: n c11)
  case (Cons c s)
  then obtain j where "nchar c ALPHANUM_SPACE_SLASH = Some j"
    using nchar_in [of c ALPHANUM_SPACE_SLASH] by (auto simp: call_chars_def)
  with Cons show ?case by (auto simp: call_chars_def mult.commute)
qed simp

section \<open>A nonstandard call after CQ\<close>

lemma bit_piece:
  fixes w :: "'a::len word"
  shows "bit (push_bit k (ucast (ucast (drop_bit k w) :: u8)) :: 'a word) n \<longleftrightarrow> k \<le> n \<and> n < k + 8 \<and> bit w n"
  by (auto simp: bit_simps dest: bit_imp_le_length)

lemma nonstd_bytes_fields:
  fixes n12 :: u16 and n58 :: u64 and iflip nrpt icq i3 :: u8
  assumes "unat n12 < 2 ^ 12" "unat n58 < 2 ^ 58" "unat iflip < 2 ^ 1" "unat nrpt < 2 ^ 2"
    "unat icq < 2 ^ 1" "unat i3 < 2 ^ 3"
  defines "p \<equiv> pack_nonstd_bytes n12 n58 iflip nrpt icq i3"
  shows "nonstd_n12 p = n12" "nonstd_n58 p = n58" "nonstd_iflip p = iflip" "nonstd_nrpt p = nrpt"
    "nonstd_icq p = icq" "drop_bit 3 (p ! 9) AND 0x07 = i3" "p ! 9 AND 0x07 = 0" "length p = 10"
proof -
  note below = bit_imp_le_length assms(1-6) [THEN bit_below]
  have one: "bit (0x01 :: u8) n \<longleftrightarrow> n < 1" for n by (simp add: bit_1_iff)
  show "nonstd_n12 p = n12"
  proof (rule bit_word_eqI)
    fix n assume "n < LENGTH(16)"
    have "n < 4 \<or> 4 \<le> n \<and> n < 12 \<or> 12 \<le> n" by arith
    then show "bit (nonstd_n12 p) n = bit n12 n"
      unfolding nonstd_n12_def p_def pack_nonstd_bytes_def
      by (elim disjE conjE; auto simp: word_field_simps simp del: push_bit_Suc bit_numeral_word_iff dest: below)
  qed
  have p8: "bit (drop_bit 2 (ucast (p ! 8)) :: u64) n \<longleftrightarrow> n < 6 \<and> bit n58 n" for n
    unfolding p_def pack_nonstd_bytes_def
    by (auto simp: word_field_simps simp del: push_bit_Suc bit_numeral_word_iff dest: below)
  have p1: "bit (push_bit 54 (ucast (p ! 1 AND 0x0F)) :: u64) n \<longleftrightarrow> 54 \<le> n \<and> n < 58 \<and> bit n58 n" for n
    unfolding p_def pack_nonstd_bytes_def
    by (auto simp: word_field_simps simp del: push_bit_Suc bit_numeral_word_iff dest: below)
  have mid: "p ! 2 = ucast (drop_bit 46 n58)" "p ! 3 = ucast (drop_bit 38 n58)" "p ! 4 = ucast (drop_bit 30 n58)"
    "p ! 5 = ucast (drop_bit 22 n58)" "p ! 6 = ucast (drop_bit 14 n58)" "p ! 7 = ucast (drop_bit 6 n58)"
    by (simp_all add: p_def pack_nonstd_bytes_def)
  show "nonstd_n58 p = n58"
  proof (rule bit_word_eqI)
    fix n assume "n < LENGTH(64)"
    have "bit n58 n \<Longrightarrow> n < 58" by (rule below)
    then show "bit (nonstd_n58 p) n = bit n58 n"
      unfolding nonstd_n58_def mid bit_or_iff p8 p1 bit_piece by linarith
  qed
  show "nonstd_nrpt p = nrpt"
  proof (rule bit_word_eqI)
    fix n assume "n < LENGTH(8)"
    have "n = 0 \<or> n = 1 \<or> 2 \<le> n" by arith
    then show "bit (nonstd_nrpt p) n = bit nrpt n"
      unfolding nonstd_nrpt_def p_def pack_nonstd_bytes_def
      by (elim disjE conjE; auto simp: word_field_simps simp del: push_bit_Suc bit_numeral_word_iff dest: below)
  qed
  show "nonstd_iflip p = iflip" "nonstd_icq p = icq"
    unfolding nonstd_iflip_def nonstd_icq_def p_def pack_nonstd_bytes_def
    by (rule bit_word_eqI; auto simp: word_field_simps simp del: push_bit_Suc bit_numeral_word_iff dest: below)+
  show "drop_bit 3 (p ! 9) AND 0x07 = i3" "p ! 9 AND 0x07 = 0"
    unfolding p_def pack_nonstd_bytes_def
    by (rule bit_word_eqI; auto simp: word_field_simps simp del: push_bit_Suc bit_numeral_word_iff dest: below)+
  show "length p = 10" by (simp add: p_def pack_nonstd_bytes_def)
qed

definition cq_nonstd_call :: "string \<Rightarrow> bool" where
  "cq_nonstd_call h \<longleftrightarrow> 3 \<le> length h \<and> length h \<le> 11 \<and> set h \<subseteq> insert (CHR ''/'') (set ALPHANUM)
     \<and> needs_nonstd h"

lemma cq_nonstd_text:
  assumes "cq_nonstd_call h"
  shows "call_chars h" "CHR ''<'' \<notin> set h" "CHR '' '' \<notin> set h" "list_all graphic h" "CHR ''/'' \<in> set h"
proof -
  have "set h \<subseteq> insert (CHR ''/'') (set ALPHANUM)" using assms by (simp add: cq_nonstd_call_def)
  then have h: "\<forall>c\<in>set h. c = CHR ''/'' \<or> is_digit c \<or> is_upper_letter c"
    using set_ALPHANUM by blast
  then show "call_chars h" unfolding call_chars_def using set_ALPHANUM_SPACE_SLASH by blast
  have "\<not> (c = CHR ''/'' \<or> is_digit c \<or> is_upper_letter c)" if "c = CHR ''<'' \<or> c = CHR '' ''" for c
    using that by (auto simp: is_digit_def is_upper_letter_def)
  then show "CHR ''<'' \<notin> set h" "CHR '' '' \<notin> set h" using h by blast+
  show "list_all graphic h"
  proof (unfold list_all_iff, rule ballI)
    fix c assume "c \<in> set h"
    with h have "c = CHR ''/'' \<or> is_digit c \<or> is_upper_letter c" by blast
    then show "graphic c" by (auto simp: graphic_def is_digit_def is_upper_letter_def)
  qed
  show "CHR ''/'' \<in> set h"
  proof (rule ccontr)
    assume "CHR ''/'' \<notin> set h"
    then have "nchar (CHR ''/'') h = None" by (simp add: nchar_None)
    with assms show False by (simp add: cq_nonstd_call_def needs_nonstd_def find_char_def)
  qed
qed

lemma digits_and_letters:
  "list_all (\<lambda>c. is_digit c \<or> is_letter c) p \<Longrightarrow> length (filter is_digit p) + length (filter is_letter p) = length p"
  by (induction p) (auto dest: digit_not_letter)

lemma nonstd_is_no_modifier:
  assumes "cq_nonstd_call h"
  shows "parse_cq_modifier (''CQ '' @ h) = None"
proof (cases "cq_scan 0 0 0 (take 5 h)")
  case None
  then show ?thesis unfolding parse_cq_modifier_def drop_cq by simp
next
  case (Some r)
  obtain a b v where r: "r = (a, b, v)" by (cases r)
  have tw: "takeWhile (\<lambda>c. c \<noteq> CHR '' '') (take 5 h) = take 5 h"
    using takeWhile_take_word [OF cq_nonstd_text(3) [OF assms], of "[]" 5] by simp
  from cq_scan_counts [OF Some [unfolded r]] have p: "list_all (\<lambda>c. is_digit c \<or> is_letter c) (take 5 h)"
    and ab: "a = length (filter is_digit (take 5 h))" "b = length (filter is_letter (take 5 h))"
    by (simp_all only: tw add_0)
  have "take 5 h \<noteq> h"
  proof
    assume "take 5 h = h"
    with p cq_nonstd_text(5) [OF assms] have "is_digit (CHR ''/'') \<or> is_letter (CHR ''/'')"
      by (auto simp: list_all_iff)
    then show False by (simp add: is_digit_def is_letter_def is_upper_letter_def)
  qed
  then have "length (take 5 h) = 5" by auto
  then have "a + b = 5" using digits_and_letters [OF p] ab by simp
  then show ?thesis unfolding parse_cq_modifier_def drop_cq Some r by auto
qed

lemma cq_nonstd_survives:
  assumes "cq_nonstd_call h"
  shows "get_i3 (snd (pack77 tab (''CQ '' @ h))) = 4 \<and>
    snd (unpack77 it tab' (snd (pack77 tab (''CQ '' @ h)))) = ''CQ '' @ h"
proof -
  note h = cq_nonstd_text [OF assms]
  have len: "3 \<le> length h" "length h \<le> 11" and needs: "needs_nonstd h"
    using assms by (auto simp: cq_nonstd_call_def)
  have ne: "h \<noteq> []" using len by auto
  have m: "''CQ '' @ h = join3 ''CQ'' h []" using ne by (simp add: join3_def)
  have fields: "message_fields (''CQ '' @ h) = (''CQ'', h, [], False)"
    unfolding m by (rule message_fields_cq)
      (use h(3) ne nonstd_is_no_modifier [OF assms] in \<open>auto simp: space_free_def join3_def\<close>)
  have tok: "pack28 tab ''CQ'' = (tab, Some (2, 0))" by (rule pack28_token) (simp add: call_token_def)
  have "is_cq ''CQ''" by (simp add: is_cq_def)
  then have "\<exists>tab1. encode_std tab ''CQ'' h [] = (tab1, None)"
    using needs unfolding encode_std_def tok by (auto split: prod.splits option.splits simp: Let_def)
  then obtain tab1 where std: "encode_std tab ''CQ'' h [] = (tab1, None)" by blast
  let ?n = "base38_lossy 0 h"
  have "\<not> starts_with h ''<''" using h(2) by (cases h) (auto simp: starts_with_def)
  then have p58: "pack58 tab1 h = (tab1(hash22 h \<mapsto> h), Some ?n)"
    using pack58_scan_value [OF h(1,2), of "[]"] len(2) save_callsign_ok [OF h(1)]
    by (simp add: pack58_def)
  let ?p = "pack_nonstd_bytes 0 ?n 0 0 1 4"
  have "encode_nonstd tab1 ''CQ'' h [] = (tab1(hash22 h \<mapsto> h), Some ?p)"
    using len(1) p58 \<open>is_cq ''CQ''\<close> by (simp add: encode_nonstd_def)
  then have p: "snd (pack77 tab (''CQ '' @ h)) = ?p"
    by (simp add: pack77_def fields std del: append_Cons)
  have "unat ?n < 38 ^ length h" using base38_bound [OF len(2)] by blast
  also have "(38 :: nat) ^ length h \<le> 38 ^ 11" using len(2) by (intro power_increasing) simp_all
  also have "(38 :: nat) ^ 11 < 2 ^ 58" by simp
  finally have n58: "unat ?n < 2 ^ 58" .
  note f = nonstd_bytes_fields [of 0 ?n 0 0 1 4, simplified unsigned_0, OF _ n58]
  have f': "nonstd_n58 ?p = ?n" "nonstd_iflip ?p = 0" "nonstd_nrpt ?p = 0" "nonstd_icq ?p = 1"
    "drop_bit 3 (?p ! 9) AND 0x07 = 4"
    by (rule f; simp)+
  have g: "get_i3 ?p = 4" by (simp only: get_i3_def f'(5)) simp
  let ?pad = "replicate (11 - length h) (CHR '' '')"
  have "call_chars (?pad @ h)" using h(1) by (auto simp: call_chars_def set_ALPHANUM_SPACE_SLASH)
  then have "digits38 11 ?n = ?pad @ h"
    using digits38_inverts [of "?pad @ h" 11] len(2) base38_blanks [of "11 - length h" h] by simp
  then have t: "trim (digits38 11 ?n) = h" using trim_padded [OF h(4) ne, of "11 - length h" 0] by simp
  have "snd (decode_nonstd it tab' ?p) = join3 ''CQ'' h []"
    unfolding decode_nonstd_def Let_def f' unpack58_def t by (simp split: prod.splits)
  then have "snd (unpack77 it tab' ?p) = join3 ''CQ'' h []" by (simp add: unpack77_def Let_def g)
  then show ?thesis unfolding p using g m by simp
qed

section \<open>Every payload\<close>

definition payload_ok :: "payload \<Rightarrow> bool" where
  "payload_ok p \<longleftrightarrow> length p = 10 \<and> p ! 9 AND 0x07 = 0 \<and>
     (get_i3 p, get_n3 p) \<in> insert (0, 0) ({1, 2, 4} \<times> UNIV)"

lemma std_payload_ok: "i3 = 1 \<or> i3 = 2 \<Longrightarrow> payload_ok (pack_std_bytes a b g i3)"
proof -
  assume i3: "i3 = 1 \<or> i3 = 2"
  then have "unat i3 < 2 ^ 3" by auto
  note below = bit_imp_le_length bit_below [OF this]
  let ?p = "pack_std_bytes a b g i3"
  have "drop_bit 3 (?p ! 9) AND 0x07 = i3" "?p ! 9 AND 0x07 = 0"
    unfolding pack_std_bytes_def
    by (rule bit_word_eqI; auto simp: word_field_simps simp del: push_bit_Suc bit_numeral_word_iff dest: below)+
  moreover from this(1) have "get_i3 ?p = unat i3" by (simp only: get_i3_def)
  ultimately show ?thesis using i3 by (auto simp: payload_ok_def) (simp_all add: pack_std_bytes_def)
qed

lemma nonstd_payload_ok:
  assumes "icq = 0 \<or> icq = 1"
  shows "payload_ok (pack_nonstd_bytes n12 n58 iflip nrpt icq 4)"
proof -
  have "unat icq < 2 ^ 1" "unat (4 :: u8) < 2 ^ 3" using assms by auto
  note below = bit_imp_le_length this [THEN bit_below]
  let ?p = "pack_nonstd_bytes n12 n58 iflip nrpt icq 4"
  have "drop_bit 3 (?p ! 9) AND 0x07 = 4" "?p ! 9 AND 0x07 = 0"
    unfolding pack_nonstd_bytes_def
    by (rule bit_word_eqI; auto simp: word_field_simps simp del: push_bit_Suc bit_numeral_word_iff dest: below)+
  moreover from this(1) have "get_i3 ?p = 4" by (simp only: get_i3_def) simp
  ultimately show ?thesis by (simp add: payload_ok_def) (simp add: pack_nonstd_bytes_def)
qed

lemma free_payload_ok: "encode_free t = Some p \<Longrightarrow> payload_ok p"
proof -
  assume p: "encode_free t = Some p"
  then obtain b where "free_digits (replicate 9 0) (t @ replicate (13 - length t) (CHR '' '')) = Some b"
    "p = fst (shl1 b) @ [0]" by (auto simp: encode_free_def split: if_splits option.splits)
  then have "p ! 9 = 0" if "length p = 10" using that by (auto simp: nth_append)
  with encode_free_decodes [OF p] show ?thesis by (simp add: payload_ok_def)
qed

lemma encode_std_payload_ok: "encode_std tab t d e = (tab', Some p) \<Longrightarrow> payload_ok p"
  by (auto simp: encode_std_def Let_def split: prod.splits option.splits if_splits intro!: std_payload_ok)

lemma encode_nonstd_payload_ok: "encode_nonstd tab t d e = (tab', Some p) \<Longrightarrow> payload_ok p"
  by (auto simp: encode_nonstd_def Let_def split: prod.splits option.splits if_splits intro!: nonstd_payload_ok)

lemma zero_payload_ok: "payload_ok (replicate 10 0)"
  by (simp add: payload_ok_def get_i3_def get_n3_def)

lemma pack77_payload_ok: "payload_ok (snd (pack77 tab m))"
proof -
  have "payload_ok (case encode_free m of None \<Rightarrow> replicate 10 0 | Some p \<Rightarrow> p)"
    using zero_payload_ok free_payload_ok by (auto split: option.splits)
  then show ?thesis
    using encode_std_payload_ok encode_nonstd_payload_ok
    by (auto simp: pack77_def Let_def split: prod.splits option.splits)
qed

section \<open>Texts beyond the forms\<close>

text \<open>A text that is neither a message of at most three fields nor encodable free text.\<close>

definition unencodable :: "string \<Rightarrow> bool" where
  "unencodable m \<longleftrightarrow> snd (snd (snd (message_fields m))) \<and> \<not> (length m \<le> 13 \<and> set m \<subseteq> set FULL)"

lemma leftover_is_free:
  "snd (snd (snd (message_fields m))) \<Longrightarrow>
   pack77 tab m = (tab, case encode_free m of None \<Rightarrow> replicate 10 0 | Some p \<Rightarrow> p)"
  by (auto simp: pack77_def Let_def split: prod.splits)

lemma zero_payload_is_blank: "unpack77 it tab (replicate 10 0) = (tab, [])"
proof -
  have e: "encode_free [] = Some (replicate 10 0)" by code_simp
  have "trim [] = []" by (simp add: trim_def)
  with unpack_free [OF e, of it tab] show ?thesis by simp
qed

lemma unencodable_is_blank:
  assumes "unencodable m"
  shows "unpack77 it tab' (snd (pack77 tab m)) = (tab', [])"
proof -
  have "encode_free m = None" using assms encode_free_iff [of m] by (auto simp: unencodable_def)
  with assms show ?thesis
    by (simp only: unencodable_def leftover_is_free snd_conv option.case zero_payload_is_blank)
qed

text \<open>The report enters a message only through its grid word, and low reports share the tokens' words.\<close>

definition reported_as :: "int \<Rightarrow> string" where
  "reported_as v = (if v = -31 then ''73'' else if v = -32 then ''RR73'' else if v = -33 then ''RRR'' else [])"

lemma low_report_words:
  "packgrid (show_plus03 (-31)) = packgrid (reported_as (-31))"
  "packgrid (show_plus03 (-32)) = packgrid (reported_as (-32))"
  "packgrid (show_plus03 (-33)) = packgrid (reported_as (-33))"
  "packgrid (show_plus03 (-34)) = packgrid (reported_as (-34))"
  by code_simp+

lemma low_report_becomes_token:
  assumes "std_to t" "std_station d" "\<not> mixed_suffixes t d" "-34 \<le> v" "v \<le> -31"
  shows "snd (unpack77 it tab' (snd (pack77 tab (join3 t d (show_plus03 v))))) = join3 t d (reported_as v)"
proof -
  from assms(4,5) have "v = -31 \<or> v = -32 \<or> v = -33 \<or> v = -34" by arith
  then have g: "packgrid (show_plus03 v) = packgrid (reported_as v)" using low_report_words by metis
  have e: "std_extra (reported_as v)" by (simp add: reported_as_def std_extra_def)
  have "space_free (show_plus03 v)" using assms(4,5) by (intro show_plus03_word) arith
  with standard_message_general [OF assms(1,2) _ assms(3) g extra_round_trips [OF e]] show ?thesis by blast
qed

end
