(* ===== verification/Message77Claims.thy ===== *)
theory Message77Claims
  imports Message77Nonstd
begin

text \<open>
  What the 77-bit message codec of \<open>framing/message77.rs\<close> promises its callers (FT8 and FT4), and
  where the packed message is not the text that was asked for.
\<close>

text \<open>
  C15: A standard message comes back as the text it was packed from, whatever the receiver's hash table
  and the order it iterates in: a calling token, a \<open>CQ\<close> modifier or a standard call, then a standard
  call (each call with an optional \<open>/P\<close> or \<open>/R\<close>, not mixed), then nothing, a locator, a report from -30
  to +99 with or without \<open>R\<close>, \<open>RRR\<close>, \<open>RR73\<close> or \<open>73\<close>.
\<close>

theorem standard_message_round_trip:
  assumes "std_to t" "std_station d" "std_extra e" "\<not> mixed_suffixes t d"
  shows "snd (unpack77 it tab' (snd (pack77 tab (join3 t d e)))) = join3 t d e"
  using assms by (rule standard_message_survives)

lemmas call_eval = std_to_def std_station_def std_call_def base_part_def suffix_part_def has_suffix_def
  ends_with_def starts_with_def word_text_def graphic_def pack_basecall_def call_field_def copy_at_def
  pack_field_def is_digit_def is_letter_def is_upper_letter_def ALPHANUM_SPACE_def ALPHANUM_def
  NUMERIC_def LETTERS_SPACE_def call_token_def cq_modifier_def cq_digits_def cq_letters_def
  mixed_suffixes_def std_extra_def is_grid4_def in_field_def hashed_call_def

lemma std_witness_facts:
  "std_to ''CQ DX''" "std_to ''W9XYZ/P''" "std_station ''K1ABC''" "std_station ''3DA0XYZ''" "std_extra ''FN42''"
  "\<not> mixed_suffixes ''CQ DX'' ''K1ABC''" "\<not> mixed_suffixes ''W9XYZ/P'' ''3DA0XYZ''"
  by (simp_all add: call_eval)

lemma std_witness_report: "std_extra ''R-09''"
proof -
  have "show_plus03 (-9) = ''-09''" by code_simp
  then show ?thesis
    by (simp add: std_extra_def report_text_def starts_with_def dd_to_int_def is_digit_def digit_val_def)
qed

theorem standard_message_round_trip_witness:
  "snd (unpack77 (\<lambda>tab. []) Map.empty (snd (pack77 Map.empty ''CQ DX K1ABC FN42''))) = ''CQ DX K1ABC FN42''
   \<and> snd (unpack77 (\<lambda>tab. []) Map.empty (snd (pack77 Map.empty ''W9XYZ/P 3DA0XYZ R-09''))) = ''W9XYZ/P 3DA0XYZ R-09''"
  using standard_message_round_trip [OF std_witness_facts(1,3,5,6), of "\<lambda>tab. []" Map.empty Map.empty]
    standard_message_round_trip [OF std_witness_facts(2,4) std_witness_report std_witness_facts(7), of "\<lambda>tab. []" Map.empty Map.empty]
  by (simp add: join3_def)

text \<open>
  C17: A call that fits no base field, sent as the first call of a standard message, travels as its
  22-bit hash. Every receiver whose table holds that call under its hash reads it back in angle
  brackets, in whatever order the table iterates and whatever table the sender had; and packing enters
  both calls in the sender's table, the second over the first where their hashes coincide.
\<close>

theorem hashed_call_resolves:
  assumes "hash_order it" "hashed_call h" "std_station d" "std_extra e" "tab' (hash22 h) = Some h"
  shows "fst (pack77 tab (join3 h d e)) = tab(hash22 h \<mapsto> h, hash22 d \<mapsto> d) \<and>
    snd (unpack77 it tab' (snd (pack77 tab (join3 h d e)))) = join3 (''<'' @ h @ ''>'') d e"
  using assms by (rule hashed_message_survives)

definition sorted_order :: iteration where
  "sorted_order tab = map (\<lambda>k. (k, the (tab k))) (sorted_list_of_set (dom tab))"

lemma hash_order_sorted: "hash_order sorted_order"
proof -
  have "finite (dom tab)" for tab :: hashes by (rule finite_subset [OF subset_UNIV]) simp
  then show ?thesis by (auto simp: hash_order_def sorted_order_def dom_def image_iff)
qed

lemma hashed_witness_facts:
  "hashed_call ''PJ4ABC/MM''" "std_station ''K1ABC''" "std_extra ''RR73''" "hash22 ''PJ4ABC/MM'' \<noteq> hash22 ''K1ABC''"
  by (simp_all add: call_eval) code_simp

theorem hashed_call_resolves_witness:
  "snd (unpack77 sorted_order (fst (pack77 Map.empty ''PJ4ABC/MM K1ABC RR73''))
     (snd (pack77 Map.empty ''PJ4ABC/MM K1ABC RR73''))) = ''<PJ4ABC/MM> K1ABC RR73''"
proof -
  let ?tab = "[hash22 ''PJ4ABC/MM'' \<mapsto> ''PJ4ABC/MM'', hash22 ''K1ABC'' \<mapsto> ''K1ABC'']"
  have "?tab (hash22 ''PJ4ABC/MM'') = Some ''PJ4ABC/MM''" using hashed_witness_facts(4) by simp
  from hashed_call_resolves [where tab' = ?tab and tab = Map.empty, OF hash_order_sorted hashed_witness_facts(1-3) this]
  show ?thesis by (simp add: join3_def)
qed

text \<open>
  A nonstandard call (with a slash that is no \<open>/P\<close> or \<open>/R\<close>) after \<open>CQ\<close> is sent in full as a message
  of type 4 and comes back unchanged.
\<close>

theorem nonstandard_cq_round_trip:
  assumes "cq_nonstd_call h"
  shows "get_i3 (snd (pack77 tab (''CQ '' @ h))) = 4 \<and>
    snd (unpack77 it tab' (snd (pack77 tab (''CQ '' @ h)))) = ''CQ '' @ h"
  using assms by (rule cq_nonstd_survives)

theorem nonstandard_cq_round_trip_witness:
  "snd (unpack77 sorted_order Map.empty (snd (pack77 Map.empty ''CQ PJ4ABC/MM''))) = ''CQ PJ4ABC/MM''"
proof -
  have "cq_nonstd_call ''PJ4ABC/MM''" by code_simp
  from nonstandard_cq_round_trip [OF this, of Map.empty sorted_order Map.empty] show ?thesis by simp
qed

text \<open>
  A text of at most 13 symbols of the table that has more than three fields (so that it is not
  tried as a standard or nonstandard message first) comes back as free text, up to the white space
  around it, through the multiplication and division of a nine-byte number by 42 and the one-bit shifts.
\<close>

theorem free_text_round_trip:
  assumes "length t \<le> 13" "set t \<subseteq> set FULL" "snd (snd (snd (message_fields t)))"
  shows "unpack77 it tab' (snd (pack77 tab t)) = (tab', trim t)"
proof -
  from assms(1,2) encode_free_iff [of t] obtain p where p: "encode_free t = Some p" by blast
  with leftover_is_free [OF assms(3), of tab] have "snd (pack77 tab t) = p" by simp
  with unpack_free [OF p] show ?thesis by simp
qed

theorem free_text_round_trip_witness:
  "unpack77 sorted_order Map.empty (snd (pack77 Map.empty ''WX IS OK 73''))
    = (Map.empty, ''WX IS OK 73'')"
proof -
  have "length ''WX IS OK 73'' \<le> 13" "set ''WX IS OK 73'' \<subseteq> set FULL"
    "snd (snd (snd (message_fields ''WX IS OK 73'')))" "trim ''WX IS OK 73'' = ''WX IS OK 73''"
    by code_simp+
  with free_text_round_trip [of "''WX IS OK 73''" sorted_order Map.empty Map.empty] show ?thesis by simp
qed

text \<open>
  C18: Every text packs into ten bytes whose three padding bits are zero and whose type is one that
  \<open>unpack77\<close> routes to a decoder: \<open>i3\<close> is 1, 2 or 4, or both \<open>i3\<close> and \<open>n3\<close> are 0.
\<close>

theorem payload_well_formed:
  "length (snd (pack77 tab m)) = 10 \<and> snd (pack77 tab m) ! 9 AND 0x07 = 0
   \<and> (get_i3 (snd (pack77 tab m)), get_n3 (snd (pack77 tab m))) \<in> insert (0, 0) ({1, 2, 4} \<times> UNIV)"
  using pack77_payload_ok [of tab m] by (simp add: payload_ok_def)

text \<open>
  C40: A report from -31 to -34 occupies the grid word of a closing token or of no report at all: the
  other station reads \<open>73\<close>, \<open>RR73\<close>, \<open>RRR\<close> or nothing instead of the report.
\<close>

theorem low_report_is_a_token:
  assumes "std_to t" "std_station d" "\<not> mixed_suffixes t d" "-34 \<le> v" "v \<le> -31"
  shows "snd (unpack77 it tab' (snd (pack77 tab (join3 t d (show_plus03 v))))) = join3 t d (reported_as v)"
  using assms by (rule low_report_becomes_token)

theorem low_report_is_a_token_witness:
  "snd (unpack77 sorted_order Map.empty (snd (pack77 Map.empty ''CQ DX K1ABC -31''))) = ''CQ DX K1ABC 73''"
proof -
  have "show_plus03 (-31) = ''-31''" "reported_as (-31) = ''73''" by code_simp+
  with low_report_is_a_token [OF std_witness_facts(1,3,6), of "-31" sorted_order Map.empty Map.empty]
  show ?thesis by (simp add: join3_def)
qed

text \<open>
  A text of more than three fields that is too long for free text, or has a symbol outside its
  table, is not refused: the payload is all zero, and the receiver reads an empty message.
\<close>

theorem unencodable_text_is_blank:
  assumes "unencodable m"
  shows "snd (pack77 tab m) = replicate 10 0 \<and> unpack77 it tab' (snd (pack77 tab m)) = (tab', [])"
proof -
  have "encode_free m = None" using assms encode_free_iff [of m] by (auto simp: unencodable_def)
  then have "snd (pack77 tab m) = replicate 10 0"
    using assms by (simp only: unencodable_def leftover_is_free snd_conv option.case)
  with unencodable_is_blank [OF assms] show ?thesis by blast
qed

theorem unencodable_text_is_blank_witness:
  "snd (pack77 Map.empty ''HELLO FROM THE HILL TOP'') = replicate 10 0"
proof -
  have "unencodable ''HELLO FROM THE HILL TOP''" by code_simp
  from unencodable_text_is_blank [OF this] show ?thesis by simp
qed

end
