(* ===== verification/LegacyPack.thy ===== *)
theory LegacyPack
  imports Message77Std "HOL-Library.Signed_Division"
begin

text \<open>
  The module \<open>legacy\<close> of \<open>framing/message77.rs\<close>: the 72-bit messages of JT65, JT9 and JT4, and the
  50-bit messages of WSPR, as bit arrays with the most significant bit first.
\<close>

type_synonym u128 = "128 word"

fun bits_msb :: "u128 \<Rightarrow> nat \<Rightarrow> u8 list" where
  "bits_msb v 0 = []"
| "bits_msb v (Suc k) = bits_msb (drop_bit 1 v) k @ [ucast (v AND 1)]"

definition unbits_msb :: "u8 list \<Rightarrow> u128" where
  "unbits_msb bits = foldl (\<lambda>v b. push_bit 1 v OR (ucast b AND 1)) 0 bits"

definition legacy_unpack_basecall :: "nat \<Rightarrow> string option" where
  "legacy_unpack_basecall n =
     (let c5 = charn (n mod 27) LETTERS_SPACE; n = n div 27;
          c4 = charn (n mod 27) LETTERS_SPACE; n = n div 27;
          c3 = charn (n mod 27) LETTERS_SPACE; n = n div 27;
          c2 = charn (n mod 10) NUMERIC; n = n div 10;
          c1 = charn (n mod 36) ALPHANUM; n = n div 36;
          c0 = charn (n mod 37) ALPHANUM_SPACE;
          call = trim [c0, c1, c2, c3, c4, c5]
      in if length call < 3 then None else Some call)"

definition NBASE :: nat where
  "NBASE = 37 * 36 * 10 * 27 * 27 * 27"

definition pack_call72 :: "string \<Rightarrow> nat option" where
  "pack_call72 token =
     (if token = ''CQ'' then Some NBASE
      else if token = ''QRZ'' then Some (NBASE + 1)
      else if token = ''DE'' then Some (NBASE + 2)
      else pack_basecall token (length token))"

definition unpack_call72 :: "nat \<Rightarrow> string option" where
  "unpack_call72 n =
     (if n = NBASE then Some ''CQ''
      else if n = NBASE + 1 then Some ''QRZ''
      else if n = NBASE + 2 then Some ''DE''
      else legacy_unpack_basecall n)"

definition pack72 :: "string \<Rightarrow> u8 list option" where
  "pack72 message =
     (let parts = split_whitespace message
      in if length parts \<noteq> 3 then None
         else (case pack_call72 (parts ! 0) of
                 None \<Rightarrow> None
               | Some n1 \<Rightarrow>
              (case pack_call72 (parts ! 1) of
                 None \<Rightarrow> None
               | Some n2 \<Rightarrow>
                   let ng = ucast (packgrid (parts ! 2)) :: u128
                   in if ng > 0xFFFF then None
                      else Some (bits_msb (push_bit 44 (of_nat n1) OR push_bit 16 (of_nat n2) OR ng) 72))))"

definition unpack72 :: "u8 list \<Rightarrow> string option" where
  "unpack72 bits =
     (let v = unbits_msb bits;
          ng = ucast (v AND 0xFFFF) :: u16;
          n2 = unat (drop_bit 16 v AND 0x0FFFFFFF);
          n1 = unat (drop_bit 44 v AND 0x0FFFFFFF)
      in case unpack_call72 n1 of
           None \<Rightarrow> None
         | Some c1 \<Rightarrow> (case unpack_call72 n2 of
             None \<Rightarrow> None
           | Some c2 \<Rightarrow> Some (c1 @ '' '' @ c2 @ '' '' @ unpackgrid ng 0)))"

definition pack50 :: "string \<Rightarrow> string \<Rightarrow> nat \<Rightarrow> u8 list option" where
  "pack50 call grid4 dbm =
     (case pack_basecall call (length call) of
        None \<Rightarrow> None
      | Some n28 \<Rightarrow>
          if \<not> is_grid4 grid4 \<or> dbm > 60 then None
          else
            let a0 = int (field_val (grid4 ! 0)); a1 = int (field_val (grid4 ! 1));
                c2 = int (digit_val (grid4 ! 2)); c3 = int (digit_val (grid4 ! 3));
                ng = (179 - 10 * a0 - c2) * 180 + 10 * a1 + c3;
                m = ng * 128 + int dbm + 64
            in Some (bits_msb (push_bit 22 (of_nat n28) OR word_of_int m) 50))"

text \<open>
  The signed divisions truncate towards zero, and a byte wraps at 256, as the release build does
  (the debug build stops there).
\<close>

definition byte_char :: "int \<Rightarrow> char" where
  "byte_char n = char_of (nat (n mod 256))"

definition unpack50 :: "u8 list \<Rightarrow> (string \<times> string \<times> nat) option" where
  "unpack50 bits =
     (let v = unbits_msb bits;
          m = uint (v AND 0x3FFFFF);
          n28 = unat (drop_bit 22 v) mod 2 ^ 32
      in case legacy_unpack_basecall n28 of
           None \<Rightarrow> None
         | Some call \<Rightarrow>
             let dbm = m smod 128 - 64;
                 ng = m sdiv 128;
                 hi = ng sdiv 180; lo = ng smod 180;
                 a1 = lo sdiv 10; c3 = lo smod 10;
                 rem = 179 - hi;
                 a0 = rem sdiv 10; c2 = rem smod 10
             in if \<not> (0 \<le> a0 \<and> a0 \<le> 17) \<or> \<not> (0 \<le> a1 \<and> a1 \<le> 17) \<or> \<not> (0 \<le> dbm \<and> dbm \<le> 60) then None
                else Some (call, [byte_char (65 + a0), byte_char (65 + a1), byte_char (48 + c2), byte_char (48 + c3)], nat dbm))"

section \<open>Bit arrays\<close>

lemma length_bits_msb [simp]: "length (bits_msb v n) = n"
  by (induction n arbitrary: v) simp_all

lemma bits_msb_bits: "bits01 (bits_msb v n)"
proof (induction n arbitrary: v)
  case (Suc n)
  have "(ucast (v AND 1) :: u8) = 0 \<or> (ucast (v AND 1) :: u8) = 1"
    using and_1_cases [of v] by auto
  with Suc show ?case by simp
qed simp

lemma unbits_snoc: "unbits_msb (bs @ [b]) = push_bit 1 (unbits_msb bs) OR (ucast b AND 1)"
  by (simp add: unbits_msb_def)

lemma unbits_bits: "unbits_msb (bits_msb v n) = take_bit n v"
proof (induction n arbitrary: v)
  case 0
  then show ?case by (simp add: unbits_msb_def)
next
  case (Suc n)
  have "push_bit 1 (take_bit n (drop_bit 1 v)) OR (ucast (ucast (v AND 1) :: u8) AND 1) = take_bit (Suc n) v"
  proof (rule bit_word_eqI)
    fix k assume "k < LENGTH(128)"
    have "k = 0 \<or> 1 \<le> k" by arith
    then show "bit (push_bit 1 (take_bit n (drop_bit 1 v)) OR (ucast (ucast (v AND 1) :: u8) AND 1)) k = bit (take_bit (Suc n) v) k"
      by (elim disjE; auto simp: bit_simps bit_1_iff simp del: push_bit_Suc dest: bit_imp_le_length)
  qed
  then show ?case by (simp only: bits_msb.simps unbits_snoc Suc)
qed

section \<open>Calls\<close>

definition legacy_text :: "string \<Rightarrow> string" where
  "legacy_text c =
     (if starts_with c ''3DA0'' then ''3D0'' @ drop 4 c
      else if starts_with c ''3X'' \<and> is_letter (c ! 2) then ''Q'' @ drop 2 c
      else c)"

definition legacy_call :: "string \<Rightarrow> bool" where
  "legacy_call c \<longleftrightarrow> word_text c \<and> pack_basecall c (length c) \<noteq> None"

lemma legacy_unpack_field:
  "legacy_unpack_basecall n = (let call = trim (unpack_field n) in if length call < 3 then None else Some call)"
  by (simp add: legacy_unpack_basecall_def unpack_field_def Let_def)

lemma legacy_call_text:
  assumes "legacy_call c"
  shows "trim (call_field c (length c)) = legacy_text c \<and> 3 \<le> length (legacy_text c)"
proof -
  have g: "list_all graphic c" "c \<noteq> []" and pb: "pack_basecall c (length c) \<noteq> None"
    using assms by (auto simp: legacy_call_def word_text_def)
  from pb show ?thesis
  proof (cases rule: call_field_cases)
    case (swaziland t)
    then have "list_all graphic (''3D0'' @ t)" using g(1) by (simp add: graphic_def)
    from trim_padded [OF this, of 0] swaziland show ?thesis
      by (simp add: legacy_text_def starts_with_def)
  next
    case (guinea t)
    have n: "\<exists>n. pack_field (''Q'' @ t @ replicate (5 - length t) (CHR '' '')) = Some n"
      using pb guinea(5) pack_basecall_field by fastforce
    have "2 \<le> length t"
    proof (rule ccontr)
      assume "\<not> 2 \<le> length t"
      with guinea(2) have "length t = 1" by linarith
      then obtain x where "t = [x]" by (auto simp: length_Suc_conv)
      then have "(''Q'' @ t @ replicate (5 - length t) (CHR '' '')) ! 2 = CHR '' ''" by simp
      moreover from n obtain i where "nchar ((''Q'' @ t @ replicate (5 - length t) (CHR '' '')) ! 2) NUMERIC = Some i"
        by (blast elim: pack_field_Some)
      ultimately have "nchar (CHR '' '') NUMERIC = Some i" by (simp only:)
      then show False by (simp add: NUMERIC_def)
    qed
    moreover have "is_letter (c ! 2)" using guinea(1,2,4) by (cases t) auto
    moreover have "list_all graphic (''Q'' @ t)" using g(1) guinea(1) by (simp add: graphic_def)
    moreover have "\<not> starts_with c ''3DA0''" using guinea(1) by (simp add: starts_with_def)
    moreover have "starts_with c ''3X''" using guinea(1) by (simp add: starts_with_def)
    ultimately show ?thesis using trim_padded [of "''Q'' @ t" 0 "5 - length t"] guinea
      by (simp add: legacy_text_def)
  next
    case two
    have "\<not> starts_with c ''3DA0''"
    proof
      assume "starts_with c ''3DA0''"
      then have "c ! 2 = CHR ''A''" by (subst starts_with_nth) auto
      with two(3) show False by (simp add: is_digit_def)
    qed
    moreover have "\<not> is_letter (c ! 2)" using two(3) digit_not_letter by blast
    ultimately have "legacy_text c = c" by (simp add: legacy_text_def)
    with trim_padded [OF g, of 0] two show ?thesis by simp
  next
    case one
    have "c ! 1 = x" if "starts_with c (a # x # r)" for a x r
      using starts_with_nth [OF that, of 1] by simp
    then have "is_digit x" if "starts_with c (a # x # r)" for a x r using that one(3) by metis
    then have "\<not> starts_with c ''3DA0''" "\<not> starts_with c ''3X''"
      by (fastforce simp: is_digit_def)+
    then have "legacy_text c = c" by (simp add: legacy_text_def)
    with trim_padded [OF g, of 1] one show ?thesis by simp
  qed
qed

lemma legacy_call_round:
  assumes "legacy_call c"
  shows "\<exists>n. pack_basecall c (length c) = Some n \<and> n < NBASE \<and>
    legacy_unpack_basecall n = Some (legacy_text c)"
proof -
  from assms obtain n where n: "pack_basecall c (length c) = Some n" by (auto simp: legacy_call_def)
  have ne: "pack_basecall c (length c) \<noteq> None" using n by simp
  have "unpack_field n = call_field c (length c) \<and> n < field_limit"
    by (rule unpack_pack_field [OF pack_basecall_field [OF n] length_call_field [OF ne]])
  with n legacy_call_text [OF assms] show ?thesis
    by (simp add: legacy_unpack_field field_limit_def NBASE_def Let_def)
qed

definition legacy_field :: "string \<Rightarrow> bool" where
  "legacy_field t \<longleftrightarrow> t = ''CQ'' \<or> t = ''QRZ'' \<or> t = ''DE'' \<or> legacy_call t"

lemma call72_round:
  assumes "legacy_field t"
  shows "\<exists>n. pack_call72 t = Some n \<and> n < 2 ^ 28 \<and> unpack_call72 n = Some (legacy_text t)"
proof -
  have nb: "NBASE + 2 < 2 ^ 28" by (simp add: NBASE_def)
  consider "t = ''CQ''" | "t = ''QRZ''" | "t = ''DE''" | "t \<noteq> ''CQ''" "t \<noteq> ''QRZ''" "t \<noteq> ''DE''" "legacy_call t"
    using assms by (auto simp: legacy_field_def)
  then show ?thesis
  proof cases
    case 4
    from legacy_call_round [OF this(4)] obtain n where
      n: "pack_basecall t (length t) = Some n" "n < NBASE" "legacy_unpack_basecall n = Some (legacy_text t)" by blast
    then show ?thesis using 4 nb by (intro exI [of _ n]) (simp add: pack_call72_def unpack_call72_def)
  qed (use nb in \<open>simp_all add: pack_call72_def unpack_call72_def legacy_text_def starts_with_def\<close>)
qed

section \<open>Seventy-two bits\<close>

lemma wide_masks:
  "bit (0xFFFF :: u128) n \<longleftrightarrow> n < 16" "bit (0x0FFFFFFF :: u128) n \<longleftrightarrow> n < 28" "bit (0x3FFFFF :: u128) n \<longleftrightarrow> n < 22"
  by ((rule bit_mask_word, simp_all add: mask_eq_exp_minus_1)[1])+

lemma fields72:
  fixes a b :: u128 and g :: u16
  assumes "unat a < 2 ^ 28" "unat b < 2 ^ 28"
  defines "v \<equiv> take_bit 72 (push_bit 44 a OR push_bit 16 b OR ucast g)"
  shows "ucast (v AND 0xFFFF) = g" "drop_bit 16 v AND 0x0FFFFFFF = b" "drop_bit 44 v AND 0x0FFFFFFF = a"
proof -
  note below = bit_imp_le_length assms(1,2) [THEN bit_below]
  note ss = word_field_simps wide_masks
  show "ucast (v AND 0xFFFF) = g"
    unfolding v_def by (rule bit_word_eqI; auto simp: ss simp del: bit_numeral_word_iff dest: below)
  show "drop_bit 16 v AND 0x0FFFFFFF = b"
    unfolding v_def by (rule bit_word_eqI; auto simp: ss simp del: bit_numeral_word_iff dest: below)
  show "drop_bit 44 v AND 0x0FFFFFFF = a"
    unfolding v_def by (rule bit_word_eqI; auto simp: ss simp del: bit_numeral_word_iff dest: below)
qed

lemma unat_of_nat_wide: "n < 2 ^ 28 \<Longrightarrow> unat (of_nat n :: u128) = n"
  by (simp add: unat_of_nat)

lemma grid_word_small: "\<not> (ucast (g :: u16) :: u128) > 0xFFFF"
proof -
  have "(ucast g :: u128) AND 0xFFFF = ucast g"
    by (rule bit_word_eqI; auto simp: word_field_simps wide_masks simp del: bit_numeral_word_iff dest: bit_imp_le_length)
  then have "(ucast g :: u128) \<le> 0xFFFF" by (metis word_and_le1)
  then show ?thesis by simp
qed

lemma legacy_field_word: "legacy_field t \<Longrightarrow> word_text t"
  by (auto simp: legacy_field_def legacy_call_def word_text_def graphic_def)

lemma message72:
  assumes "legacy_field t" "legacy_field d" "word_text e"
  shows "\<exists>bits. pack72 (join_sp [t, d, e]) = Some bits \<and> length bits = 72 \<and> bits01 bits \<and>
    unpack72 bits = Some (join_sp [legacy_text t, legacy_text d, unpackgrid (packgrid e) 0])"
proof -
  from call72_round [OF assms(1)] obtain n1 where
    n1: "pack_call72 t = Some n1" "n1 < 2 ^ 28" "unpack_call72 n1 = Some (legacy_text t)" by blast
  from call72_round [OF assms(2)] obtain n2 where
    n2: "pack_call72 d = Some n2" "n2 < 2 ^ 28" "unpack_call72 n2 = Some (legacy_text d)" by blast
  have u: "unat (of_nat n1 :: u128) = n1" "unat (of_nat n2 :: u128) = n2"
    by (rule unat_of_nat_wide [OF n1(2)], rule unat_of_nat_wide [OF n2(2)])
  then have small: "unat (of_nat n1 :: u128) < 2 ^ 28" "unat (of_nat n2 :: u128) < 2 ^ 28" using n1(2) n2(2) by simp_all
  have w: "split_whitespace (join_sp [t, d, e]) = [t, d, e]"
    by (rule split_whitespace_join) (use assms legacy_field_word in auto)
  let ?v = "push_bit 44 (of_nat n1) OR push_bit 16 (of_nat n2) OR ucast (packgrid e) :: u128"
  have p: "pack72 (join_sp [t, d, e]) = Some (bits_msb ?v 72)"
    unfolding pack72_def w Let_def using n1(1) n2(1) grid_word_small [of "packgrid e"] by (simp add: numeral_2_eq_2)
  note f = fields72 [OF small, of "packgrid e"]
  have "unpack72 (bits_msb ?v 72) = Some (join_sp [legacy_text t, legacy_text d, unpackgrid (packgrid e) 0])"
    unfolding unpack72_def Let_def unbits_bits f u n1(3) n2(3) by simp
  with p bits_msb_bits show ?thesis by auto
qed

section \<open>Fifty bits\<close>

lemma fields50:
  fixes a b :: u128
  assumes "unat a < 2 ^ 28" "unat b < 2 ^ 22"
  defines "v \<equiv> take_bit 50 (push_bit 22 a OR b)"
  shows "v AND 0x3FFFFF = b" "drop_bit 22 v = a"
proof -
  note below = bit_imp_le_length assms(1,2) [THEN bit_below]
  note ss = word_field_simps wide_masks
  show "v AND 0x3FFFFF = b"
    unfolding v_def by (rule bit_word_eqI; auto simp: ss simp del: bit_numeral_word_iff dest: below)
  show "drop_bit 22 v = a"
    unfolding v_def by (rule bit_word_eqI; auto simp: ss simp del: bit_numeral_word_iff dest: below)
qed

lemma uint_small_int: "0 \<le> x \<Longrightarrow> x < 2 ^ 22 \<Longrightarrow> uint (word_of_int x :: u128) = x"
  by (simp add: unsigned_of_int take_bit_int_eq_self)

lemma radix_int: "0 \<le> l \<Longrightarrow> l < r \<Longrightarrow> (q * r + l) div r = q \<and> (q * r + l) mod r = l" for q l r :: int
  by simp

lemma sdiv_nonneg: "0 \<le> a \<Longrightarrow> 0 < b \<Longrightarrow> a sdiv b = a div b" for a b :: int
  by (auto simp: signed_divide_int_def sgn_if)

lemma smod_nonneg: "0 \<le> a \<Longrightarrow> 0 < b \<Longrightarrow> a smod b = a mod b" for a b :: int
  by (auto simp: signed_modulo_int_def sgn_if)

lemma signed_tenth:
  fixes r :: int
  assumes "-3 \<le> r" "r \<le> 179"
  shows "0 \<le> r sdiv 10" "r sdiv 10 \<le> 17"
proof -
  have "r sdiv 10 = (if r < 0 then 0 else r div 10)"
    using assms by (auto simp: signed_divide_int_def sgn_if)
  with assms show "0 \<le> r sdiv 10" "r sdiv 10 \<le> 17" by auto
qed

lemma unpack50_fields:
  assumes "n < 2 ^ 28" "legacy_unpack_basecall n = Some c" "0 \<le> ng" "ng < 2 ^ 15" "dbm \<le> 60"
  defines "hi \<equiv> ng div 180" and "lo \<equiv> ng mod 180"
  defines "r \<equiv> 179 - hi"
  shows "unpack50 (bits_msb (push_bit 22 (of_nat n) OR word_of_int (ng * 128 + int dbm + 64)) 50) =
    Some (c, [byte_char (65 + r sdiv 10), byte_char (65 + lo div 10), byte_char (48 + r smod 10), byte_char (48 + lo mod 10)], dbm)"
proof -
  let ?m = "ng * 128 + int dbm + 64"
  have m: "0 \<le> ?m" "?m < 2 ^ 22" using assms(3-5) by auto
  have um: "uint (word_of_int ?m :: u128) = ?m" using uint_small_int [OF m] .
  then have mb: "unat (word_of_int ?m :: u128) < 2 ^ 22" unfolding unat_eq_nat_uint um using m by simp
  have un: "unat (of_nat n :: u128) = n" by (rule unat_of_nat_wide [OF assms(1)])
  then have "unat (of_nat n :: u128) < 2 ^ 28" using assms(1) by simp
  note f = fields50 [OF this mb]
  have n32: "n mod 2 ^ 32 = n" using assms(1) by simp
  have dm: "?m mod 128 = int dbm + 64" "?m div 128 = ng"
    using radix_int [of "int dbm + 64" 128 ng] assms(5) by (simp_all add: add.assoc)
  have pos: "0 \<le> hi" "hi \<le> 182" "0 \<le> lo" "lo < 180" using assms(3,4) by (auto simp: hi_def lo_def)
  have sd: "?m smod 128 - 64 = int dbm" "?m sdiv 128 = ng" "ng sdiv 180 = hi" "ng smod 180 = lo"
    "lo sdiv 10 = lo div 10" "lo smod 10 = lo mod 10"
    using m(1) assms(3) pos dm by (simp_all add: hi_def lo_def sdiv_nonneg smod_nonneg)
  have a1: "0 \<le> lo div 10" "lo div 10 \<le> 17" using pos by auto
  have r: "-3 \<le> r" "r \<le> 179" using pos by (auto simp: r_def)
  have a0: "0 \<le> r sdiv 10" "r sdiv 10 \<le> 17" using signed_tenth [OF r] .
  show ?thesis
    unfolding unpack50_def Let_def unbits_bits f un n32 assms(2) option.case um sd
    using a0 a1 assms(5) by (simp add: r_def)
qed

lemma pack50_value:
  assumes "legacy_call c" "is_grid4 g" "dbm \<le> 60"
  shows "\<exists>bits. pack50 c g dbm = Some bits \<and> length bits = 50 \<and> bits01 bits \<and> unpack50 bits = Some (legacy_text c, g, dbm)"
proof -
  from legacy_call_round [OF assms(1)] obtain n where
    n: "pack_basecall c (length c) = Some n" "n < NBASE" "legacy_unpack_basecall n = Some (legacy_text c)" by blast
  have n28: "n < 2 ^ 28" using n(2) by (simp add: NBASE_def)
  from assms(2) obtain x y z w where g: "g = [x, y, z, w]"
    and v: "in_field x" "in_field y" "is_digit z" "is_digit w"
    by (auto simp: is_grid4_def length_Suc_conv numeral_eq_Suc)
  note f = v(1,2) [THEN in_field_val] v(3,4) [THEN digit_val_char]
  define a0 a1 c2 c3 where abc: "a0 = int (field_val x)" "a1 = int (field_val y)" "c2 = int (digit_val z)" "c3 = int (digit_val w)"
  have le: "0 \<le> a0" "a0 \<le> 17" "0 \<le> a1" "a1 \<le> 17" "0 \<le> c2" "c2 \<le> 9" "0 \<le> c3" "c3 \<le> 9"
    using f by (auto simp: abc)
  define ng where "ng = (179 - 10 * a0 - c2) * 180 + (10 * a1 + c3)"
  have lo: "0 \<le> 10 * a1 + c3" "10 * a1 + c3 < 180" and hi: "0 \<le> 179 - 10 * a0 - c2" "179 - 10 * a0 - c2 \<le> 179"
    using le by auto
  have d: "ng div 180 = 179 - 10 * a0 - c2" "ng mod 180 = 10 * a1 + c3"
    unfolding ng_def by (simp_all only: radix_int [OF lo])
  have ng: "0 \<le> ng" "ng < 2 ^ 15" using lo hi unfolding ng_def by auto
  have r: "179 - ng div 180 = 10 * a0 + c2" using d by simp
  have sd: "(10 * a0 + c2) sdiv 10 = a0" "(10 * a0 + c2) smod 10 = c2"
    using le by (simp_all add: sdiv_nonneg smod_nonneg)
  have dd: "(10 * a1 + c3) div 10 = a1" "(10 * a1 + c3) mod 10 = c3" using le by auto
  have ch: "byte_char (65 + a0) = x" "byte_char (65 + a1) = y" "byte_char (48 + c2) = z" "byte_char (48 + c3) = w"
    using f le by (simp_all add: byte_char_def abc nat_add_distrib)
  have "pack50 c g dbm = Some (bits_msb (push_bit 22 (of_nat n) OR word_of_int (ng * 128 + int dbm + 64)) 50)"
  proof -
    have nths: "g ! 0 = x" "g ! 1 = y" "g ! 2 = z" "g ! 3 = w" by (simp_all add: g)
    have c: "(\<not> is_grid4 g \<or> 60 < dbm) = False" using assms(2,3) by simp
    have e: "(179 - 10 * a0 - c2) * 180 + 10 * a1 + c3 = ng" by (simp add: ng_def)
    show ?thesis unfolding pack50_def n(1) option.case Let_def c if_False nths abc [symmetric] e by (rule refl)
  qed
  moreover have "unpack50 (bits_msb (push_bit 22 (of_nat n) OR word_of_int (ng * 128 + int dbm + 64)) 50) = Some (legacy_text c, g, dbm)"
    using unpack50_fields [OF n28 n(3) ng assms(3)] unfolding r sd d(2) dd ch by (simp add: g)
  ultimately show ?thesis using bits_msb_bits by auto
qed

section \<open>The closing field\<close>

definition legacy_extra :: "string \<Rightarrow> bool" where
  "legacy_extra e \<longleftrightarrow> e = ''RRR'' \<or> e = ''RR73'' \<or> e = ''73'' \<or> is_grid4 e
     \<or> report_text e \<and> \<not> starts_with e ''R''"

lemma plain_grid_word:
  "grid_round_trips e \<Longrightarrow> unat (packgrid e) < 2 ^ 15 \<Longrightarrow> unpackgrid (packgrid e) 0 = e"
  using small_word_15 [of "packgrid e"] by (simp add: grid_round_trips_def)

lemma packgrid_grid_small:
  assumes "is_grid4 e" "e \<noteq> ''RR73''"
  shows "unat (packgrid e) < 2 ^ 15"
proof -
  from assms obtain a b c d where e: "e = [a, b, c, d]"
    and v: "in_field a" "in_field b" "is_digit c" "is_digit d"
    by (auto simp: is_grid4_def length_Suc_conv numeral_eq_Suc)
  let ?n = "((field_val a * 18 + field_val b) * 10 + digit_val c) * 10 + digit_val d"
  note f = v(1,2) [THEN in_field_val] v(3,4) [THEN digit_val_char]
  have n: "?n < 18 * 18 * 10 * 10" using f by (intro mul_add_less) simp_all
  have "packgrid e = of_nat ?n" using assms by (auto simp: packgrid_def e)
  then show ?thesis using n by (simp add: unat_of_nat del: of_nat_add of_nat_mult)
qed

lemma legacy_extra_word:
  assumes "legacy_extra e"
  shows "unpackgrid (packgrid e) 0 = e \<and> word_text e"
proof -
  have cl: "unpackgrid (packgrid ''RRR'') 0 = ''RRR''" "unpackgrid (packgrid ''RR73'') 0 = ''RR73''"
    "unpackgrid (packgrid ''73'') 0 = ''73''" "word_text ''RRR''" "word_text ''RR73''" "word_text ''73''"
    by code_simp+
  consider (cl) "e = ''RRR'' \<or> e = ''RR73'' \<or> e = ''73''" | (gr) "is_grid4 e" "e \<noteq> ''RR73''"
    | (re) "report_text e" "\<not> starts_with e ''R''"
    using assms by (auto simp: legacy_extra_def)
  then show ?thesis
  proof cases
    case gr
    from gr(1) obtain a b c d where e: "e = [a, b, c, d]" "in_field a" "in_field b" "is_digit c" "is_digit d"
      by (auto simp: is_grid4_def length_Suc_conv numeral_eq_Suc)
    then have "word_text e" by (auto simp: word_text_def graphic_def in_field_def is_digit_def)
    then show ?thesis using plain_grid_word [OF grid_grid_round_trips [OF gr] packgrid_grid_small [OF gr]] by simp
  next
    case re
    from re(1) obtain v where v: "-30 \<le> v" "v \<le> 99" and "e = show_plus03 v \<or> e = CHR ''R'' # show_plus03 v"
      by (rule report_cases)
    with re(2) have e: "e = show_plus03 v" by (auto simp: starts_with_def)
    have v': "\<bar>v\<bar> < 100" using v by auto
    have "graphic (digit_char k)" if "k < 10" for k using that by (simp add: graphic_def of_char_digit_char)
    then have "word_text e"
      using v' unfolding e show_plus03_digits [OF v'] by (simp add: word_text_def) (simp add: graphic_def)
    moreover have "unpackgrid (packgrid e) 0 = e"
      unfolding e packgrid_report(1) [OF v] using unpackgrid_report [OF v, of 0] by simp
    ultimately show ?thesis by simp
  qed (use cl in auto)
qed

lemma roger_report_text:
  assumes "-30 \<le> v" "v \<le> 99"
  shows "unpackgrid (packgrid (CHR ''R'' # show_plus03 v)) 0 = show_plus03 (v + 32768)"
proof -
  let ?w = "of_nat (nat (32435 + v)) :: u16"
  have u: "unat ?w = nat (32435 + v)" by (rule packgrid_report(3) [OF assms])
  then have b: "unat ?w < 2 ^ 15" using assms by auto
  have "?w AND 0x8000 = 0"
    using bit_below [OF b] by (intro bit_word_eqI) (auto simp: word_field_simps simp del: bit_numeral_word_iff)
  then have "?w OR 0x8000 = ?w + 0x8000" by (simp add: disjunctive_add_eq_or)
  then have uo: "unat (?w OR 0x8000) = nat (65203 + v)"
    using u assms by (simp only: unat_word_ariths) (simp add: nat_add_distrib)
  have gt: "\<not> ?w OR 0x8000 \<le> MAXGRID4" using assms unfolding word_le_nat_alt uo by (simp add: MAXGRID4_def)
  have "unat ((?w OR 0x8000) - MAXGRID4) = nat (32803 + v)"
    using gt assms unfolding unat_sub_if' uo word_le_nat_alt by (simp add: MAXGRID4_def)
  moreover have "nat (32803 + v) \<noteq> 1" "nat (32803 + v) \<noteq> 2" "nat (32803 + v) \<noteq> 3" "nat (32803 + v) \<noteq> 4"
    "int (nat (32803 + v)) - 35 = v + 32768"
    using assms(1) by linarith+
  ultimately show ?thesis using gt
    unfolding packgrid_report(2) [OF assms] by (simp only: unpackgrid_def Let_def if_False) simp
qed

lemma report_word: "\<bar>v\<bar> < 100 \<Longrightarrow> word_text (CHR ''R'' # show_plus03 v)"
proof -
  assume v: "\<bar>v\<bar> < 100"
  have "graphic (digit_char k)" if "k < 10" for k using that by (simp add: graphic_def of_char_digit_char)
  then show ?thesis
    using v unfolding show_plus03_digits [OF v] by (simp add: word_text_def) (simp add: graphic_def)
qed

section \<open>The legacy messages\<close>

text \<open>
  A JT65, JT9 or JT4 message of two calls or calling tokens, whose prefix is not one that the
  field aliases, and a third field that is a locator, a report of at least -30 without \<open>R\<close>, \<open>RRR\<close>,
  \<open>RR73\<close> or \<open>73\<close>, packs into 72 bits and comes back unchanged. (Reports with \<open>R\<close> do not: lemma
  \<open>roger_report_is_garbled\<close>.)
\<close>

theorem legacy_message_round_trip:
  assumes "legacy_field t" "legacy_field d" "legacy_extra e" "legacy_text t = t" "legacy_text d = d"
  shows "\<exists>bits. pack72 (join_sp [t, d, e]) = Some bits \<and> length bits = 72 \<and> bits01 bits \<and>
    unpack72 bits = Some (join_sp [t, d, e])"
  using message72 [OF assms(1,2), of e] legacy_extra_word [OF assms(3)] assms(4,5) by simp

lemmas legacy_eval = legacy_call_def word_text_def graphic_def pack_basecall_def call_field_def copy_at_def
  pack_field_def is_digit_def is_letter_def is_upper_letter_def starts_with_def
  ALPHANUM_SPACE_def ALPHANUM_def NUMERIC_def LETTERS_SPACE_def

lemma legacy_witness_calls: "legacy_call ''K1ABC''" "legacy_call ''3DA0XYZ''"
  by (simp_all add: legacy_eval)

lemma legacy_witness_facts:
  "legacy_field ''CQ''" "legacy_field ''K1ABC''" "legacy_extra ''FN42''" "legacy_text ''CQ'' = ''CQ''"
  "legacy_text ''K1ABC'' = ''K1ABC''" "legacy_field ''3DA0XYZ''" "legacy_text ''3DA0XYZ'' = ''3D0XYZ''"
  subgoal by (simp add: legacy_field_def)
  subgoal by (simp only: legacy_field_def legacy_witness_calls simp_thms)
  subgoal by (simp add: legacy_extra_def is_grid4_def in_field_def is_digit_def)
  subgoal by (simp add: legacy_text_def starts_with_def)
  subgoal by (simp add: legacy_text_def starts_with_def)
  subgoal by (simp only: legacy_field_def legacy_witness_calls simp_thms)
  subgoal by (simp add: legacy_text_def starts_with_def)
  done

theorem legacy_message_round_trip_witness:
  "\<exists>bits. pack72 ''CQ K1ABC FN42'' = Some bits \<and> unpack72 bits = Some ''CQ K1ABC FN42''"
  using legacy_message_round_trip [OF legacy_witness_facts(1-5)] by auto

text \<open>
  The legacy unpacker does not undo the aliases of the packer: a Swazi call \<open>3DA0...\<close> is read as
  \<open>3D0...\<close> and a Guinean call \<open>3X...\<close> as \<open>Q...\<close> by every station that decodes the message.
\<close>

theorem legacy_prefix_is_lost:
  assumes "legacy_field t" "legacy_field d" "legacy_extra e"
  shows "\<exists>bits. pack72 (join_sp [t, d, e]) = Some bits \<and>
    unpack72 bits = Some (join_sp [legacy_text t, legacy_text d, e])"
  using message72 [OF assms(1,2), of e] legacy_extra_word [OF assms(3)] by auto

theorem legacy_prefix_is_lost_witness:
  "\<exists>bits. pack72 ''CQ 3DA0XYZ FN42'' = Some bits \<and> unpack72 bits = Some ''CQ 3D0XYZ FN42''"
  using legacy_prefix_is_lost [OF legacy_witness_facts(1,6,3)] legacy_witness_facts(4,7) by auto

text \<open>
  A report with \<open>R\<close> is packed into the 72 bits but not recognised by \<open>unpack72\<close>, which reads the
  flag in the top bit as part of the number: \<open>R-09\<close> is decoded as \<open>+32759\<close>.
\<close>

theorem roger_report_is_garbled:
  assumes "legacy_field t" "legacy_field d" "-30 \<le> v" "v \<le> 99"
  shows "\<exists>bits. pack72 (join_sp [t, d, CHR ''R'' # show_plus03 v]) = Some bits \<and>
    unpack72 bits = Some (join_sp [legacy_text t, legacy_text d, show_plus03 (v + 32768)])"
proof -
  have "word_text (CHR ''R'' # show_plus03 v)" using assms(3,4) by (intro report_word) auto
  from message72 [OF assms(1,2) this] show ?thesis
    unfolding roger_report_text [OF assms(3,4)] by blast
qed

theorem roger_report_is_garbled_witness:
  "\<exists>bits. pack72 ''CQ K1ABC R-09'' = Some bits \<and> unpack72 bits = Some ''CQ K1ABC +32759''"
proof -
  have v: "show_plus03 (-9) = ''-09''" "show_plus03 (-9 + 32768) = ''+32759''"
    by (simp_all add: show_plus03_def show_dec_steps pad0_def digit_char_def char_of_def bit_0)
  show ?thesis
    using roger_report_is_garbled [OF legacy_witness_facts(1,2), of "-9"] legacy_witness_facts(4,5)
    by (simp only: v) auto
qed

text \<open>
  A WSPR message, a call with an unaliased prefix, a four-character locator and a power of at most
  60 dBm, packs into 50 bits and comes back unchanged.
\<close>

theorem wspr_round_trip:
  assumes "legacy_call c" "legacy_text c = c" "is_grid4 g" "dbm \<le> 60"
  shows "\<exists>bits. pack50 c g dbm = Some bits \<and> length bits = 50 \<and> bits01 bits \<and> unpack50 bits = Some (c, g, dbm)"
  using pack50_value [OF assms(1,3,4)] assms(2) by simp

theorem wspr_round_trip_witness:
  "\<exists>bits. pack50 ''K1ABC'' ''FN42'' 37 = Some bits \<and> unpack50 bits = Some (''K1ABC'', ''FN42'', 37)"
proof -
  have "legacy_call ''K1ABC''" using legacy_witness_facts(2) by (simp add: legacy_field_def)
  moreover have "is_grid4 ''FN42''" by code_simp
  ultimately show ?thesis using wspr_round_trip [of "''K1ABC''" "''FN42''" 37] legacy_witness_facts(5) by auto
qed

text \<open>
  Received bits whose locator number is 32400 or more are accepted with a locator whose third
  character is not a digit: \<open>unpack50\<close> checks the letters and the power but not this remainder, which
  is negative (and stops a debug build).
\<close>

theorem wspr_accepts_bad_locator:
  assumes "n < 2 ^ 28" "legacy_unpack_basecall n = Some c" "32400 \<le> ng" "ng < 2 ^ 15" "dbm \<le> 60"
  shows "\<exists>g. unpack50 (bits_msb (push_bit 22 (of_nat n) OR word_of_int (ng * 128 + int dbm + 64)) 50) = Some (c, g, dbm)
    \<and> length g = 4 \<and> \<not> is_grid4 g"
proof -
  let ?r = "179 - ng div 180"
  have "ng div 180 = 180 \<or> ng div 180 = 181 \<or> ng div 180 = 182" using assms(3,4) by auto
  then have r: "?r = -1 \<or> ?r = -2 \<or> ?r = -3" by auto
  have bad: "\<not> is_digit (byte_char (48 + ?r smod 10))"
    using r by (elim disjE) (simp_all add: byte_char_def is_digit_def signed_modulo_int_def)
  show ?thesis
    using unpack50_fields [OF assms(1,2) _ assms(4,5)] assms(3) bad by (simp add: is_grid4_def)
qed

theorem wspr_accepts_bad_locator_witness:
  "\<exists>g. unpack50 (bits_msb (push_bit 22 (of_nat 3957069) OR word_of_int (32400 * 128 + int 37 + 64)) 50) = Some (''K1ABC'', g, 37)
    \<and> length g = 4 \<and> \<not> is_grid4 g"
proof (rule wspr_accepts_bad_locator)
  show "legacy_unpack_basecall 3957069 = Some ''K1ABC''"
    by (simp add: legacy_unpack_basecall_def charn_def trim_def ascii_space_def ALPHANUM_SPACE_def ALPHANUM_def NUMERIC_def LETTERS_SPACE_def)
qed simp_all

end
