(* ===== verification/Pack77.thy ===== *)
theory Pack77
  imports LegacyPack Message77Props
begin

text \<open>
  \<open>framing/pack77.rs\<close>: the second port of the 77-bit source encoding, which FST4 and MSK144 use, for
  standard messages only and as an array of 77 bits. Its names carry the suffix \<open>_w\<close> (for the WSJT-X
  original) where \<open>message77.rs\<close> has a function of the same name.
\<close>

section \<open>Packing\<close>

definition ascii_alphanumeric :: "char \<Rightarrow> bool" where
  "ascii_alphanumeric c = (is_digit c \<or> is_letter c)"

text \<open>The position, from 1, of the last digit at or after the second character; 0 for none.\<close>

definition call_area :: "string \<Rightarrow> nat" where
  "call_area c = (case find (\<lambda>i. is_digit (c ! i)) (rev [1..<length c]) of None \<Rightarrow> 0 | Some i \<Rightarrow> i + 1)"

definition call6 :: "string \<Rightarrow> nat \<Rightarrow> string" where
  "call6 c iarea = (let s = (if iarea = 2 then '' '' @ c else c) in take 6 s @ drop (length s) ''      '')"

definition pack28_w :: "string \<Rightarrow> nat option" where
  "pack28_w call =
     (if call = ''DE'' then Some 0
      else if call = ''QRZ'' then Some 1
      else if call = ''CQ'' then Some 2
      else if CHR ''/'' \<in> set call \<or> CHR ''<'' \<in> set call \<or> \<not> list_all ascii_alphanumeric call then None
      else
        let iarea = call_area call;
            npdig = length (filter is_digit (take (iarea - 1) call));
            nplet = length (filter is_upper_letter (take (iarea - 1) call));
            nslet = length (filter is_upper_letter (drop iarea call))
        in if \<not> (2 \<le> iarea \<and> iarea \<le> 3) then None
           else if nplet = 0 \<or> npdig \<ge> iarea - 1 \<or> nslet > 3 then None
           else
             let field = call6 call iarea in do {
               i1 \<leftarrow> nchar (field ! 0) ALPHANUM_SPACE;
               i2 \<leftarrow> nchar (field ! 1) ALPHANUM;
               i3 \<leftarrow> nchar (field ! 2) NUMERIC;
               i4 \<leftarrow> nchar (field ! 3) LETTERS_SPACE;
               i5 \<leftarrow> nchar (field ! 4) LETTERS_SPACE;
               i6 \<leftarrow> nchar (field ! 5) LETTERS_SPACE;
               Some ((((((i1 * 36 + i2) * 10 + i3) * 27 + i4) * 27 + i5) * 27 + i6 + NTOKENS + MAX22) mod 2 ^ 28)
             })"

text \<open>\<open>str::parse::<i32>\<close>.\<close>

definition parse_i32 :: "string \<Rightarrow> int option" where
  "parse_i32 s =
     (if starts_with s ''-''
      then (if drop 1 s = [] then None
            else map_option (\<lambda>n. - int n) (parse_digits 10 2147483648 0 (drop 1 s)))
      else map_option int (from_str_radix 10 2147483647 s))"

definition rpt_w :: "string \<Rightarrow> nat \<Rightarrow> (nat \<times> int) option" where
  "rpt_w s ir =
     (case parse_i32 s of None \<Rightarrow> None
      | Some v \<Rightarrow> Some (ir, 32400 + (if -50 \<le> v \<and> v \<le> -31 then v + 101 else v) + 35))"

definition encode_grid_report :: "string \<Rightarrow> bool \<Rightarrow> (nat \<times> int) option" where
  "encode_grid_report tok has_r =
     (if is_grid4 tok
      then Some (of_bool has_r,
             int (field_val (tok ! 0)) * 18 * 10 * 10 + int (field_val (tok ! 1)) * 10 * 10
               + int (digit_val (tok ! 2)) * 10 + int (digit_val (tok ! 3)))
      else if tok = ''RRR'' then Some (0, 32400 + 2)
      else if tok = ''RR73'' then Some (0, 32400 + 3)
      else if tok = ''73'' then Some (0, 32400 + 4)
      else if starts_with tok ''+'' \<or> starts_with tok ''-'' then rpt_w tok 0
      else if starts_with tok ''R+'' \<or> starts_with tok ''R-'' then rpt_w (drop 1 tok) 1
      else None)"

fun push_bits :: "u32 \<Rightarrow> nat \<Rightarrow> u8 list" where
  "push_bits val 0 = []"
| "push_bits val (Suc n) = ucast (drop_bit n val AND 1) # push_bits val n"

definition pack77_standard :: "string \<Rightarrow> u8 list option" where
  "pack77_standard msg =
     (let words = split_whitespace msg; n = length words
      in if n < 2 \<or> n > 4 then None
         else do {
           n28a \<leftarrow> pack28_w (words ! 0);
           n28b \<leftarrow> pack28_w (words ! 1);
           (ir, igrid4) \<leftarrow>
             (if n = 2 then Some (0, 32400 + 1)
              else
                let has_r = (n = 4 \<and> words ! 2 = ''R'')
                in if n = 4 \<and> \<not> has_r then None
                   else encode_grid_report (words ! (n - 1)) has_r);
           Some (push_bits (of_nat n28a) 28 @ push_bits 0 1 @ push_bits (of_nat n28b) 28 @ push_bits 0 1
                 @ push_bits (of_nat ir) 1 @ push_bits (word_of_int igrid4) 15 @ push_bits 1 3)
         })"

section \<open>Unpacking\<close>

definition unpack28_w :: "nat \<Rightarrow> string option" where
  "unpack28_w n28 =
     (if n28 < NTOKENS then
        Some (if n28 = 0 then ''DE'' else if n28 = 1 then ''QRZ'' else if n28 = 2 then ''CQ''
              else if n28 < 3 + 1000 then ''CQ '' @ pad0 3 (show_dec (n28 - 3))
              else ''CQ '' @ trim (modifier_letters (n28 - 3 - 1000)))
      else if n28 < NTOKENS + MAX22 then None
      else
        let n = n28 - NTOKENS - MAX22;
            i6 = n mod 27; n = n div 27; i5 = n mod 27; n = n div 27; i4 = n mod 27; n = n div 27;
            i3 = n mod 10; n = n div 10; i2 = n mod 36; n = n div 36; i1 = n mod 37
        in Some (trim [charn i1 ALPHANUM_SPACE, charn i2 ALPHANUM, charn i3 NUMERIC,
                       charn i4 LETTERS_SPACE, charn i5 LETTERS_SPACE, charn i6 LETTERS_SPACE]))"

definition bits_to_u32 :: "u8 list \<Rightarrow> u32" where
  "bits_to_u32 bits = foldl (\<lambda>a b. push_bit 1 a OR ucast b) 0 bits"

text \<open>\<open>&bits[a..b]\<close>.\<close>

definition slice :: "nat \<Rightarrow> nat \<Rightarrow> u8 list \<Rightarrow> u8 list" where
  "slice a b bits = take (b - a) (drop a bits)"

definition tail_w :: "u8 \<Rightarrow> int \<Rightarrow> string" where
  "tail_w ir irpt =
     (if irpt = 2 then ''RRR''
      else if irpt = 3 then ''RR73''
      else if irpt = 4 then ''73''
      else
        let r = (if 51 \<le> irpt - 35 \<and> irpt - 35 \<le> 70 then irpt - 35 - 101 else irpt - 35)
        in (if ir = 1 then ''R'' else []) @
           (if r \<ge> 0 then ''+'' @ pad0 2 (show_dec (nat r)) else ''-'' @ pad0 2 (show_dec (nat (- r)))))"

definition unpack77_standard :: "u8 list \<Rightarrow> string option" where
  "unpack77_standard bits =
     (if bits_to_u32 (slice 74 77 bits) \<noteq> 1 then None
      else do {
        call1 \<leftarrow> unpack28_w (unat (bits_to_u32 (slice 0 28 bits)));
        call2 \<leftarrow> unpack28_w (unat (bits_to_u32 (slice 29 57 bits)));
        let ir = bits ! 58;
            igrid4 = uint (bits_to_u32 (slice 59 74 bits));
            n = nat igrid4
        in if igrid4 < 32400 then
             Some (call1 @ '' '' @ call2 @ '' '' @ (if ir = 1 then ''R '' else []) @
               [char_of (65 + n div 1800), char_of (65 + n mod 1800 div 100),
                char_of (48 + n mod 100 div 10), char_of (48 + n mod 10)])
           else if igrid4 - 32400 = 1 then Some (call1 @ '' '' @ call2)
           else Some (call1 @ '' '' @ call2 @ '' '' @ tail_w ir (igrid4 - 32400))
      })"

end
