(* ===== verification/Pack77Props.thy ===== *)
theory Pack77Props
  imports Pack77
begin

text \<open>
  What \<open>framing/pack77.rs\<close> guarantees: standard messages come back from the 77 bits, and on the
  messages that both ports accept the bits are those of \<open>framing/message77.rs\<close>.
\<close>

section \<open>Bits\<close>

lemma push_bits_map: "push_bits v n = map (\<lambda>k. of_bool (bit v k)) (rev [0..<n])"
proof (induction n)
  case (Suc n)
  have "ucast (drop_bit n v AND 1) = (of_bool (bit v n) :: u8)"
    by (rule bit_word_eqI) (auto simp: bit_simps bit_1_iff)
  with Suc show ?case by simp
qed simp

lemma length_push_bits [simp]: "length (push_bits v n) = n"
  by (simp add: push_bits_map)

lemma bits01_push_bits [simp]: "bits01 (push_bits v n)"
  by (auto simp: push_bits_map bits01_def)

lemma bits_to_u32_push:
  "foldl (\<lambda>a b. push_bit 1 a OR ucast b) a (push_bits v n) = push_bit n a OR take_bit n v"
proof (induction n arbitrary: a)
  case (Suc n)
  have b: "ucast (ucast (drop_bit n v AND 1) :: u8) = (of_bool (bit v n) :: u32)"
    by (rule bit_word_eqI) (auto simp: bit_simps bit_1_iff)
  have "push_bit n (push_bit 1 a OR of_bool (bit v n)) OR take_bit n v = push_bit (Suc n) a OR take_bit (Suc n) v"
  proof (rule bit_word_eqI)
    fix k assume "k < LENGTH(32)"
    have "k < n \<or> k = n \<or> n < k" by arith
    then show "bit (push_bit n (push_bit 1 a OR of_bool (bit v n)) OR take_bit n v) k = bit (push_bit (Suc n) a OR take_bit (Suc n) v) k"
      by (elim disjE; auto simp: bit_simps bit_1_iff less_Suc_eq simp del: push_bit_Suc dest: bit_imp_le_length)
  qed
  with Suc b show ?case by simp
qed simp

lemma bits_to_u32_push_bits: "bits_to_u32 (push_bits v n) = take_bit n v"
  unfolding bits_to_u32_def bits_to_u32_push by simp

lemma word_of_bits: "n < 2 ^ k \<Longrightarrow> k < 32 \<Longrightarrow> unat (bits_to_u32 (push_bits (of_nat n) k)) = n"
proof -
  assume n: "n < 2 ^ k" "k < 32"
  then have "(2 :: nat) ^ k < 2 ^ 32" by (intro power_strict_increasing) simp_all
  then have "unat (of_nat n :: u32) = n" using n(1) by (simp add: unat_of_nat)
  then show ?thesis using n by (simp add: bits_to_u32_push_bits unsigned_take_bit_eq take_bit_nat_eq_self)
qed

section \<open>Calls\<close>

lemma find_rev_upt:
  "find P (rev [1..<n]) = Some i \<Longrightarrow> P i \<and> 1 \<le> i \<and> i < n \<and> (\<forall>j. i < j \<and> j < n \<longrightarrow> \<not> P j)"
proof (induction n)
  case (Suc n)
  then show ?case by (cases "1 \<le> n"; cases "P n") (auto simp: less_Suc_eq split: if_splits)
qed simp

definition upper_call :: "string \<Rightarrow> bool" where
  "upper_call c \<longleftrightarrow> pack28_w c \<noteq> None \<and> list_all (\<lambda>x. is_digit x \<or> is_upper_letter x) c"

lemma pack28_w_call:
  assumes "pack28_w c = Some n" "call_token c = None"
  obtains i n' where "is_digit (c ! i)" "i = 1 \<or> i = 2" "i < length c" "call_area c = i + 1"
    "\<forall>j. i < j \<and> j < length c \<longrightarrow> \<not> is_digit (c ! j)"
    "length (filter is_upper_letter (drop (i + 1) c)) \<le> 3"
    "pack_field (call6 c (i + 1)) = Some n'" "n = (n' + NTOKENS + MAX22) mod 2 ^ 28"
proof -
  have area: "2 \<le> call_area c" "call_area c \<le> 3"
    "length (filter is_upper_letter (drop (call_area c) c)) \<le> 3"
    and field: "\<exists>n'. pack_field (call6 c (call_area c)) = Some n' \<and> n = (n' + NTOKENS + MAX22) mod 2 ^ 28"
    using assms
    by (auto simp: pack28_w_def call_token_def Let_def pack_field_def bind_eq_Some_conv split: if_splits)
  from area(1) obtain i where i: "find (\<lambda>i. is_digit (c ! i)) (rev [1..<length c]) = Some i" "call_area c = i + 1"
    by (auto simp: call_area_def split: option.splits)
  note f = find_rev_upt [OF i(1)]
  from f area i(2) have "i = 1 \<or> i = 2" by auto
  with f field area(3) i(2) that show ?thesis by auto
qed

lemma call6_shape:
  assumes c: "list_all (\<lambda>x. is_digit x \<or> is_upper_letter x) c" and i: "i = 1 \<or> i = 2" "i < length c"
    and nd: "\<forall>j. i < j \<and> j < length c \<longrightarrow> \<not> is_digit (c ! j)"
    and l: "length (filter is_upper_letter (drop (i + 1) c)) \<le> 3"
  shows "length c \<le> i + 4"
    "call6 c (i + 1) = (if i = 1 then '' '' else []) @ c @ replicate (4 + i - length c) (CHR '' '')"
proof -
  have "\<forall>x\<in>set (drop (i + 1) c). is_upper_letter x"
  proof
    fix x assume "x \<in> set (drop (i + 1) c)"
    then obtain k where k: "k < length c - (i + 1)" "x = c ! (i + 1 + k)" by (auto simp: in_set_conv_nth)
    then have "\<not> is_digit x" using nd by auto
    moreover have "x \<in> set c" using k by auto
    ultimately show "is_upper_letter x" using c by (auto simp: list_all_iff)
  qed
  then have "filter is_upper_letter (drop (i + 1) c) = drop (i + 1) c" by (simp add: filter_id_conv)
  then show len: "length c \<le> i + 4" using l by simp
  then show "call6 c (i + 1) = (if i = 1 then '' '' else []) @ c @ replicate (4 + i - length c) (CHR '' '')"
    using i(1) by (elim disjE) (simp_all add: call6_def Let_def six_blanks)
qed

lemma digit_upper_alnum: "is_digit x \<or> is_upper_letter x \<Longrightarrow> x \<in> set ALPHANUM \<and> graphic x"
  by (auto simp: set_ALPHANUM graphic_def is_digit_def is_upper_letter_def)

lemma upper_call_field:
  assumes "upper_call c" "call_token c = None"
  shows "\<exists>n'. pack28_w c = Some (NTOKENS + MAX22 + n') \<and> n' < field_limit \<and>
    trim (unpack_field n') = c \<and> (3 \<le> length c \<longrightarrow> pack_basecall c (length c) = Some n')"
proof -
  from assms(1) obtain n where n: "pack28_w c = Some n" and c: "list_all (\<lambda>x. is_digit x \<or> is_upper_letter x) c"
    by (auto simp: upper_call_def)
  from pack28_w_call [OF n assms(2)] obtain i n' where i: "is_digit (c ! i)" "i = 1 \<or> i = 2" "i < length c"
    "\<forall>j. i < j \<and> j < length c \<longrightarrow> \<not> is_digit (c ! j)"
    "length (filter is_upper_letter (drop (i + 1) c)) \<le> 3"
    and pf: "pack_field (call6 c (i + 1)) = Some n'" and nn: "n = (n' + NTOKENS + MAX22) mod 2 ^ 28" by blast
  note sh = call6_shape [OF c i(2-5)]
  have l6: "length (call6 c (i + 1)) = 6" using sh(1) i(2,3) unfolding sh(2) by auto
  note uf = unpack_pack_field [OF pf l6]
  have "NTOKENS + MAX22 + n' < 2 ^ 28" by (rule field_limit_fits) (use uf in blast)
  then have n': "n = NTOKENS + MAX22 + n'" using nn by (simp add: add.commute add.left_commute)
  have g: "list_all graphic c" using c digit_upper_alnum by (auto simp: list_all_iff)
  have ne: "c \<noteq> []" using i(3) by auto
  have t: "trim (unpack_field n') = c"
    using trim_padded [OF g ne, of "if i = 1 then 1 else 0"] i(2) uf unfolding sh(2) by auto
  have "call_field c (length c) = call6 c (i + 1)" if len: "3 \<le> length c"
  proof -
    have a: "\<not> starts_with c ''3DA0''"
    proof
      assume s: "starts_with c ''3DA0''"
      then have "c ! 1 = CHR ''D''" "c ! 2 = CHR ''A''" by (simp_all add: starts_with_nth [OF s])
      with i(1,2) show False by (auto simp: is_digit_def)
    qed
    have b: "\<not> (starts_with c ''3X'' \<and> is_letter (c ! 2))"
    proof
      assume s: "starts_with c ''3X'' \<and> is_letter (c ! 2)"
      then have "c ! 1 = CHR ''X''" "\<not> is_digit (c ! 2)"
        using digit_not_letter by (auto simp: starts_with_nth [OF conjunct1 [OF s]])
      with i(1,2) show False by (auto simp: is_digit_def)
    qed
    from i(2) show ?thesis
    proof
      assume i1: "i = 1"
      then have "\<not> is_digit (c ! 2)" using i(4) len by auto
      then show ?thesis using a b i1 i(1) sh(1) len unfolding sh(2) call_field_def six_blanks
        by (auto simp: copy_blank_at copy_blank)
    next
      assume i2: "i = 2"
      then show ?thesis using a b i(1) sh(1) len unfolding sh(2) call_field_def six_blanks
        by (auto simp: copy_blank)
    qed
  qed
  then have "3 \<le> length c \<longrightarrow> pack_basecall c (length c) = Some n'"
    using pf by (auto simp: pack_basecall_def)
  with n n' uf t show ?thesis by blast
qed

lemma unpack28_w_field: "unpack28_w (NTOKENS + MAX22 + n) = Some (trim (unpack_field n))"
  by (simp add: unpack28_w_def unpack_field_def Let_def)

lemma upper_call_round:
  assumes "upper_call c"
  shows "\<exists>n. pack28_w c = Some n \<and> n < 2 ^ 28 \<and> unpack28_w n = Some c"
proof (cases "call_token c")
  case None
  from upper_call_field [OF assms None] obtain n' where
    n: "pack28_w c = Some (NTOKENS + MAX22 + n')" "n' < field_limit" "trim (unpack_field n') = c" by blast
  then show ?thesis using field_limit_fits [OF n(2)] unpack28_w_field [of n'] by simp
next
  case (Some n)
  then show ?thesis by (auto simp: call_token_def pack28_w_def unpack28_w_def NTOKENS_def split: if_splits)
qed

section \<open>The end of a message\<close>

definition ending_w :: "string list \<Rightarrow> bool" where
  "ending_w e \<longleftrightarrow> e = [] \<or> e = [''RRR''] \<or> e = [''73'']
     \<or> (length e = 1 \<or> length e = 2 \<and> e ! 0 = ''R'') \<and> is_grid4 (last e)
     \<or> length e = 1 \<and> list_ex (\<lambda>v. e ! 0 = show_plus03 v \<or> e ! 0 = CHR ''R'' # show_plus03 v) [-50..50]"

definition ending_code :: "string list \<Rightarrow> (nat \<times> int) option" where
  "ending_code e = (if e = [] then Some (0, 32400 + 1) else encode_grid_report (last e) (length e = 2))"

definition ending_text :: "nat \<Rightarrow> int \<Rightarrow> string" where
  "ending_text ir ig =
     (if ig < 32400 then '' '' @ (if ir = 1 then ''R '' else []) @
        [char_of (65 + nat ig div 1800), char_of (65 + nat ig mod 1800 div 100),
         char_of (48 + nat ig mod 100 div 10), char_of (48 + nat ig mod 10)]
      else if ig - 32400 = 1 then []
      else '' '' @ tail_w (of_nat ir) (ig - 32400))"

definition ending_round :: "string list \<Rightarrow> bool" where
  "ending_round e \<longleftrightarrow> (\<exists>ir ig. ending_code e = Some (ir, ig) \<and> ir \<le> 1 \<and> 0 \<le> ig \<and> ig < 2 ^ 15
     \<and> ending_text ir ig = concat (map (\<lambda>w. '' '' @ w) e))"

lemma grid_ending_round:
  assumes "length e = 1 \<or> length e = 2 \<and> e ! 0 = ''R''" "is_grid4 (last e)"
  shows "ending_round e"
proof -
  from assms(2) obtain a b c d where g: "last e = [a, b, c, d]"
    and v: "in_field a" "in_field b" "is_digit c" "is_digit d"
    by (auto simp: is_grid4_def length_Suc_conv numeral_eq_Suc)
  note f = v(1,2) [THEN in_field_val] v(3,4) [THEN digit_val_char]
  let ?n = "((field_val a * 18 + field_val b) * 10 + digit_val c) * 10 + digit_val d"
  have n: "?n < 18 * 18 * 10 * 10" using f by (intro mul_add_less) simp_all
  have m100: "digit_val c * 10 + digit_val d < 100" and m1800: "field_val b * 100 + (digit_val c * 10 + digit_val d) < 1800"
    using f by auto
  have e1: "?n = field_val a * 1800 + (field_val b * 100 + (digit_val c * 10 + digit_val d))" by simp
  have e2: "?n = (field_val a * 18 + field_val b) * 100 + (digit_val c * 10 + digit_val d)" by simp
  have d1: "?n div 1800 = field_val a" "?n mod 1800 = field_val b * 100 + (digit_val c * 10 + digit_val d)"
    unfolding e1 using radix_last [OF m1800] by simp_all
  have d2: "(field_val b * 100 + (digit_val c * 10 + digit_val d)) div 100 = field_val b"
    using radix_last [OF m100] by simp
  have d3: "?n mod 100 = digit_val c * 10 + digit_val d" unfolding e2 by (simp only: radix_last [OF m100])
  have d4: "(digit_val c * 10 + digit_val d) div 10 = digit_val c" "?n mod 10 = digit_val d"
    using f(4) by (simp_all only: radix_last)
  have code: "encode_grid_report (last e) r = Some (of_bool r, int ?n)" for r
    using assms(2) by (simp add: encode_grid_report_def g)
  have shown: "ending_text ir (int ?n) = '' '' @ (if ir = 1 then ''R '' else []) @ last e" for ir
    using n f unfolding ending_text_def nat_int d1 d2 d3 d4 by (simp add: g)
  have "int ?n < 2 ^ 15" using n by (simp del: of_nat_add of_nat_mult)
  moreover have "\<exists>x. e = [x] \<or> e = [''R'', x]"
    using assms(1) by (auto simp: length_Suc_conv numeral_2_eq_2)
  ultimately show ?thesis
    using code shown unfolding ending_round_def
    by (intro exI [of _ "of_bool (length e = 2)"] exI [of _ "int ?n"])
      (auto simp: ending_code_def simp del: of_nat_add of_nat_mult)
qed

lemma parse_report:
  assumes "\<bar>v\<bar> < 100"
  shows "parse_i32 (show_plus03 v) = Some v"
proof -
  let ?n = "nat \<bar>v\<bar>"
  have "?n div 10 < 10" "?n mod 10 < 10" using assms by auto
  then have d: "to_digit 10 (digit_char (?n div 10)) = Some (?n div 10)" "to_digit 10 (digit_char (?n mod 10)) = Some (?n mod 10)"
    by (simp_all add: to_digit_digit_char)
  have small: "?n div 10 * 10 + ?n mod 10 = ?n" by simp
  have p: "parse_digits 10 m 0 [digit_char (?n div 10), digit_char (?n mod 10)] = Some ?n" if "100 \<le> m" for m
  proof -
    have "?n div 10 \<le> m" "?n \<le> m" using assms that by auto
    then show ?thesis using d small by simp
  qed
  show ?thesis
  proof (cases "v < 0")
    case True
    then show ?thesis using p [of 2147483648]
      by (simp add: parse_i32_def show_plus03_digits [OF assms] starts_with_def del: parse_digits.simps)
  next
    case False
    then show ?thesis using p [of 2147483647]
      by (simp add: parse_i32_def show_plus03_digits [OF assms] starts_with_def from_str_radix_def del: parse_digits.simps)
  qed
qed

lemma tail_report:
  assumes "-50 \<le> v" "v \<le> 50"
  defines "r \<equiv> if -50 \<le> v \<and> v \<le> -31 then v + 101 else v"
  shows "tail_w (of_nat ir) (32400 + r + 35 - 32400) = (if (of_nat ir :: u8) = 1 then ''R'' else []) @ show_plus03 v"
    "32400 + r + 35 - 32400 \<noteq> 1" "0 \<le> 32400 + r + 35" "32400 + r + 35 < 2 ^ 15" "\<not> 32400 + r + 35 < 32400"
  using assms by (auto simp: tail_w_def show_plus03_def)

lemma report_ending_round:
  assumes v: "-50 \<le> v" "v \<le> 50" and e: "e = [show_plus03 v] \<or> e = [CHR ''R'' # show_plus03 v]"
  shows "ending_round e"
proof -
  have v': "\<bar>v\<bar> < 100" using v by auto
  obtain x y z where r: "show_plus03 v = [x, y, z]" and x: "x = CHR ''-'' \<or> x = CHR ''+''"
    using show_plus03_digits [OF v'] by auto
  let ?r = "if -50 \<le> v \<and> v \<le> -31 then v + 101 else v"
  have "rpt_w (show_plus03 v) ir = Some (ir, 32400 + ?r + 35)" for ir
    by (simp add: rpt_w_def parse_report [OF v'])
  then have code: "encode_grid_report (show_plus03 v) False = Some (0, 32400 + ?r + 35)"
    "encode_grid_report (CHR ''R'' # show_plus03 v) False = Some (1, 32400 + ?r + 35)"
    using x unfolding r by (auto simp: encode_grid_report_def is_grid4_def in_field_def is_digit_def starts_with_def)
  have shown: "ending_text ir (32400 + ?r + 35) = '' '' @ (if ir = 1 then ''R'' else []) @ show_plus03 v" if "ir \<le> 1" for ir
    using that tail_report [OF v] by (auto simp: ending_text_def le_Suc_eq)
  from e show ?thesis
  proof
    assume e: "e = [show_plus03 v]"
    show ?thesis unfolding ending_round_def ending_code_def e
      using code(1) shown [of 0] tail_report(3,4) [OF v] by (intro exI [of _ 0] exI [of _ "32400 + ?r + 35"]) simp
  next
    assume e: "e = [CHR ''R'' # show_plus03 v]"
    show ?thesis unfolding ending_round_def ending_code_def e
      using code(2) shown [of 1] tail_report(3,4) [OF v] by (intro exI [of _ 1] exI [of _ "32400 + ?r + 35"]) simp
  qed
qed

lemma ending_w_round: "ending_w e \<Longrightarrow> ending_round e"
proof -
  have fixed: "ending_round []" "ending_round [''RRR'']" "ending_round [''73'']"
  proof -
    show "ending_round []" unfolding ending_round_def ending_code_def
      by (intro exI [of _ 0] exI [of _ 32401]) (simp add: ending_text_def)
    show "ending_round [''RRR'']" unfolding ending_round_def ending_code_def
      by (intro exI [of _ 0] exI [of _ 32402])
        (simp add: ending_text_def tail_w_def encode_grid_report_def is_grid4_def)
    show "ending_round [''73'']" unfolding ending_round_def ending_code_def
      by (intro exI [of _ 0] exI [of _ 32404])
        (simp add: ending_text_def tail_w_def encode_grid_report_def is_grid4_def)
  qed
  assume "ending_w e"
  then consider "e = [] \<or> e = [''RRR''] \<or> e = [''73'']"
    | "(length e = 1 \<or> length e = 2 \<and> e ! 0 = ''R'') \<and> is_grid4 (last e)"
    | "length e = 1" "list_ex (\<lambda>v. e ! 0 = show_plus03 v \<or> e ! 0 = CHR ''R'' # show_plus03 v) [-50..50]"
    unfolding ending_w_def by blast
  then show ?thesis
  proof cases
    case 3
    then obtain x where x: "e = [x]" by (auto simp: length_Suc_conv)
    from 3(2) obtain v where "v \<in> set [-50..50]" and v: "x = show_plus03 v \<or> x = CHR ''R'' # show_plus03 v"
      unfolding list_ex_iff x nth_Cons_0 by blast
    then have "-50 \<le> v" "v \<le> 50" by (simp_all only: set_upto atLeastAtMost_iff)
    from report_ending_round [OF this] v x show ?thesis by blast
  qed (use fixed grid_ending_round in blast)+
qed

section \<open>Messages\<close>

definition bits77 :: "nat \<Rightarrow> nat \<Rightarrow> nat \<Rightarrow> int \<Rightarrow> u8 list" where
  "bits77 na nb ir ig = push_bits (of_nat na) 28 @ push_bits 0 1 @ push_bits (of_nat nb) 28 @ push_bits 0 1
     @ push_bits (of_nat ir) 1 @ push_bits (word_of_int ig) 15 @ push_bits 1 3"

lemma pack77_standard_value:
  assumes "list_all word_text ([t, d] @ e)" "length e \<le> 2" "length e = 2 \<Longrightarrow> e ! 0 = ''R''"
    "pack28_w t = Some na" "pack28_w d = Some nb" "ending_code e = Some (ir, ig)"
  shows "pack77_standard (join_sp ([t, d] @ e)) = Some (bits77 na nb ir ig)"
proof -
  have w: "split_whitespace (join_sp ([t, d] @ e)) = [t, d] @ e"
    by (rule split_whitespace_join [OF assms(1)])
  from assms(2) consider "e = []" | x where "e = [x]" | x y where "e = [x, y]"
    by (cases e; cases "tl e"; cases "tl (tl e)") auto
  then show ?thesis
    by cases (use assms(3-6) w in \<open>simp_all add: pack77_standard_def bits77_def ending_code_def Let_def numeral_eq_Suc\<close>)
qed

lemma slices77:
  "slice 74 77 (bits77 na nb ir ig) = push_bits 1 3" "slice 0 28 (bits77 na nb ir ig) = push_bits (of_nat na) 28"
  "slice 29 57 (bits77 na nb ir ig) = push_bits (of_nat nb) 28"
  "slice 59 74 (bits77 na nb ir ig) = push_bits (word_of_int ig) 15"
  "bits77 na nb ir ig ! 58 = push_bits (of_nat ir) 1 ! 0" "length (bits77 na nb ir ig) = 77" "bits01 (bits77 na nb ir ig)"
  by (simp_all add: bits77_def slice_def nth_append del: push_bits.simps)

lemma unpack77_standard_value:
  assumes "na < 2 ^ 28" "unpack28_w na = Some t" "nb < 2 ^ 28" "unpack28_w nb = Some d"
    "ir \<le> 1" "0 \<le> ig" "ig < 2 ^ 15"
  shows "unpack77_standard (bits77 na nb ir ig) = Some (t @ '' '' @ d @ ending_text ir ig)"
proof -
  have i3: "bits_to_u32 (push_bits 1 3) = 1" by (simp add: bits_to_u32_push_bits)
  have a: "unat (bits_to_u32 (push_bits (of_nat na) 28)) = na" by (rule word_of_bits [OF assms(1)]) simp
  have b: "unat (bits_to_u32 (push_bits (of_nat nb) 28)) = nb" by (rule word_of_bits [OF assms(3)]) simp
  have g': "word_of_int ig = (of_nat (nat ig) :: u32)" using assms(6) by simp
  have "unat (bits_to_u32 (push_bits (of_nat (nat ig)) 15)) = nat ig"
    by (rule word_of_bits) (use assms(6,7) in auto)
  then have g: "uint (bits_to_u32 (push_bits (word_of_int ig) 15)) = ig"
    unfolding g' using assms(6) by (metis int_nat_eq uint_nat)
  have ir: "push_bits (of_nat ir) 1 ! 0 = of_nat ir"
    using assms(5) by (auto simp: push_bits_map le_Suc_eq)
  have one: "(of_nat ir :: u8) = 1 \<longleftrightarrow> ir = 1" using assms(5) by (auto simp: le_Suc_eq)
  show ?thesis
    unfolding unpack77_standard_def slices77 i3 a b assms(2,4) g ir Let_def
    by (simp add: ending_text_def one)
qed

lemma upper_call_word: "upper_call c \<Longrightarrow> word_text c"
proof -
  assume c: "upper_call c"
  have "pack28_w [] = None" by (simp add: pack28_w_def call_area_def Let_def)
  then show ?thesis using c digit_upper_alnum by (auto simp: upper_call_def word_text_def list_all_iff)
qed

lemma ending_words: "ending_w e \<Longrightarrow> list_all word_text e \<and> length e \<le> 2 \<and> (length e = 2 \<longrightarrow> e ! 0 = ''R'')"
proof -
  assume "ending_w e"
  then consider "e = [] \<or> e = [''RRR''] \<or> e = [''73'']"
    | "(length e = 1 \<or> length e = 2 \<and> e ! 0 = ''R'') \<and> is_grid4 (last e)"
    | "length e = 1" "list_ex (\<lambda>v. e ! 0 = show_plus03 v \<or> e ! 0 = CHR ''R'' # show_plus03 v) [-50..50]"
    unfolding ending_w_def by blast
  then show ?thesis
  proof cases
    case 2
    then obtain x where x: "e = [x] \<or> e = [''R'', x]" "is_grid4 x"
      by (auto simp: length_Suc_conv numeral_2_eq_2)
    then obtain a b c d where "x = [a, b, c, d]" "in_field a" "in_field b" "is_digit c" "is_digit d"
      by (auto simp: is_grid4_def length_Suc_conv numeral_eq_Suc)
    then have "word_text x" by (auto simp: word_text_def graphic_def in_field_def is_digit_def)
    with x show ?thesis by (auto simp: word_text_def graphic_def)
  next
    case 3
    then obtain x where x: "e = [x]" by (auto simp: length_Suc_conv)
    from 3(2) obtain v where "v \<in> set [-50..50]" and v: "x = show_plus03 v \<or> x = CHR ''R'' # show_plus03 v"
      unfolding list_ex_iff x nth_Cons_0 by blast
    then have "-50 \<le> v" "v \<le> 50" by (simp_all only: set_upto atLeastAtMost_iff)
    then have "word_text (CHR ''R'' # show_plus03 v)" by (intro report_word) simp
    moreover have "show_plus03 v \<noteq> []" by (simp add: show_plus03_def)
    ultimately have "word_text x" using v by (auto simp: word_text_def)
    with x show ?thesis by simp
  qed (auto simp: word_text_def graphic_def)
qed

lemma join_sp_tail: "join_sp ([t, d] @ e) = t @ '' '' @ d @ concat (map (\<lambda>w. '' '' @ w) e)"
proof -
  have "join_sp (d # e) = d @ concat (map (\<lambda>w. '' '' @ w) e)"
    by (induction e arbitrary: d) auto
  then show ?thesis by simp
qed

text \<open>
  A standard message comes back from the 77 bits of \<open>pack77.rs\<close> as it was: two calls or calling
  tokens in capitals, then nothing, a locator with or without a separate \<open>R\<close>, \<open>RRR\<close>, \<open>73\<close>, or a report
  from -50 to +50 with or without \<open>R\<close>.
\<close>

theorem pack77_standard_round_trip:
  assumes "upper_call t" "upper_call d" "ending_w e"
  shows "\<exists>bits. pack77_standard (join_sp ([t, d] @ e)) = Some bits \<and> length bits = 77 \<and> bits01 bits \<and>
    unpack77_standard bits = Some (join_sp ([t, d] @ e))"
proof -
  from upper_call_round [OF assms(1)] obtain na where
    a: "pack28_w t = Some na" "na < 2 ^ 28" "unpack28_w na = Some t" by blast
  from upper_call_round [OF assms(2)] obtain nb where
    b: "pack28_w d = Some nb" "nb < 2 ^ 28" "unpack28_w nb = Some d" by blast
  from ending_w_round [OF assms(3)] obtain ir ig where
    e: "ending_code e = Some (ir, ig)" "ir \<le> 1" "0 \<le> ig" "ig < 2 ^ 15"
    "ending_text ir ig = concat (map (\<lambda>w. '' '' @ w) e)" unfolding ending_round_def by blast
  note w = ending_words [OF assms(3)]
  have "list_all word_text ([t, d] @ e)" using w upper_call_word assms(1,2) by simp
  from pack77_standard_value [OF this _ _ a(1) b(1) e(1)] w
  have "pack77_standard (join_sp ([t, d] @ e)) = Some (bits77 na nb ir ig)" by blast
  moreover have "unpack77_standard (bits77 na nb ir ig) = Some (join_sp ([t, d] @ e))"
    unfolding unpack77_standard_value [OF a(2,3) b(2,3) e(2-4)] e(5) join_sp_tail ..
  ultimately show ?thesis using slices77(6,7) by blast
qed

lemma upper_witness_facts: "upper_call ''CQ''" "upper_call ''K1ABC''" "ending_w [''FN42'']"
proof -
  have "call_area ''K1ABC'' = 2" by (simp add: call_area_def is_digit_def numeral_eq_Suc)
  then show "upper_call ''K1ABC''"
    by (simp add: upper_call_def pack28_w_def Let_def ascii_alphanumeric_def is_digit_def is_letter_def
        is_upper_letter_def call6_def ALPHANUM_SPACE_def ALPHANUM_def NUMERIC_def LETTERS_SPACE_def)
  show "upper_call ''CQ''" by (simp add: upper_call_def pack28_w_def is_upper_letter_def)
  show "ending_w [''FN42'']" unfolding ending_w_def by (simp add: is_grid4_def in_field_def is_digit_def)
qed

theorem pack77_standard_round_trip_witness:
  "\<exists>bits. pack77_standard ''CQ K1ABC FN42'' = Some bits \<and> unpack77_standard bits = Some ''CQ K1ABC FN42''"
  using pack77_standard_round_trip [OF upper_witness_facts] by auto

section \<open>The two ports agree\<close>

text \<open>The bits of a payload, most significant first.\<close>

definition byte_bits_msb :: "u8 \<Rightarrow> u8 list" where
  "byte_bits_msb b = push_bits (ucast b) 8"

definition payload_bits :: "payload \<Rightarrow> u8 list" where
  "payload_bits p = concat (map byte_bits_msb p)"

lemma upts:
  "rev [0..<28] = [27, 26, 25, 24, 23, 22, 21, 20, 19, 18, 17, 16, 15, 14, 13, 12, 11, 10, 9, 8, 7, 6, 5, 4, 3, 2, 1, 0 :: nat]"
  "rev [0..<16] = [15, 14, 13, 12, 11, 10, 9, 8, 7, 6, 5, 4, 3, 2, 1, 0 :: nat]"
  "rev [0..<8] = [7, 6, 5, 4, 3, 2, 1, 0 :: nat]"
  "rev [0..<3] = [2, 1, 0 :: nat]" "rev [0..<1] = [0 :: nat]"
  by code_simp+

lemma byte_bits_list: "byte_bits_msb b = map (\<lambda>k. of_bool (bit b k)) [7, 6, 5, 4, 3, 2, 1, 0]"
  unfolding byte_bits_msb_def push_bits_map upts by (simp only: list.map bit_simps) simp

lemma std_bytes_bits:
  assumes "unat a < 2 ^ 29" "unat b < 2 ^ 29" "unat i3 < 2 ^ 3"
  shows "take 77 (payload_bits (pack_std_bytes a b g i3)) =
    push_bits (drop_bit 1 a) 28 @ push_bits a 1 @ push_bits (drop_bit 1 b) 28 @ push_bits b 1
      @ push_bits (ucast g) 16 @ push_bits (ucast i3) 3"
proof -
  note below = bit_imp_le_length assms [THEN bit_below]
  have nb: "\<not> bit b n" if "29 \<le> n" for n using below(3) [of n] that by auto
  have na: "\<not> bit a n" if "29 \<le> n" for n using below(2) [of n] that by auto
  have ni: "\<not> bit i3 n" if "3 \<le> n" for n using below(4) [of n] that by auto
  have ng: "\<not> bit g n" if "16 \<le> n" for n using bit_imp_le_length [of g n] that by auto
  have two: "Suc (Suc 0) = 2" by simp
  show ?thesis
    unfolding payload_bits_def pack_std_bytes_def byte_bits_list push_bits_map upts
    by (simp add: bit_simps nb na ni ng two)
qed

lemma pack28_upper:
  assumes "upper_call c" "call_token c = None" "3 \<le> length c"
  shows "\<exists>n tab'. pack28_w c = Some n \<and> n < 2 ^ 28 \<and> pack28 tab c = (tab', Some (n, 0))"
proof -
  from upper_call_field [OF assms(1,2)] assms(3) obtain n where
    n: "pack28_w c = Some (NTOKENS + MAX22 + n)" "n < field_limit" "pack_basecall c (length c) = Some n" by blast
  have an: "\<forall>x\<in>set c. x \<in> set ALPHANUM"
    using assms(1) digit_upper_alnum by (auto simp: upper_call_def list_all_iff)
  then have sl: "CHR ''/'' \<notin> set c" "CHR '' '' \<notin> set c" using alnum_not_slash by blast+
  then have hs: "\<not> has_suffix c" using has_suffix_slash by blast
  have "CHR '' '' \<in> set c" if s: "starts_with c ''CQ ''"
    by (subst starts_with_append [OF s]) simp
  with sl have nc: "\<not> starts_with c ''CQ ''" by blast
  have ch: "call_chars c" using an alnum_slash by (auto simp: call_chars_def)
  have tok: "c \<noteq> ''DE''" "c \<noteq> ''QRZ''" "c \<noteq> ''CQ''" using assms(2) by (auto simp: call_token_def split: if_splits)
  have "pack28 tab c = (tab(hash22 c \<mapsto> c), Some (NTOKENS + MAX22 + n, 0))"
    using tok nc hs n(3) save_callsign_ok [OF ch] by (simp add: pack28_def Let_def)
  with n(1) field_limit_fits [OF n(2)] show ?thesis by blast
qed

lemma pack28_upper_to:
  assumes "upper_call t" "std_to t"
  shows "\<exists>n tab'. pack28_w t = Some n \<and> n < 2 ^ 28 \<and> pack28 tab t = (tab', Some (n, 0)) \<and> \<not> has_suffix t"
proof -
  have "CHR ''/'' \<notin> set t" "CHR '' '' \<notin> set t"
    using assms(1) digit_upper_alnum alnum_not_slash by (auto simp: upper_call_def list_all_iff)
  then have hs: "\<not> has_suffix t" and ns: "CHR '' '' \<notin> set t" using has_suffix_slash by blast+
  show ?thesis
  proof (cases "call_token t")
    case None
    have "\<not> starts_with t ''CQ ''"
    proof
      assume s: "starts_with t ''CQ ''"
      have "CHR '' '' \<in> set t" by (subst starts_with_append [OF s]) simp
      with ns show False by blast
    qed
    with assms(2) None have "std_station t" by (auto simp: std_to_def)
    then have "3 \<le> length t" using station_text by blast
    from pack28_upper [OF assms(1) None this, of tab] hs show ?thesis by blast
  next
    case (Some n)
    from pack28_token [OF Some, of tab] unpack28_token [OF Some] hs
    show ?thesis using Some by (auto simp: call_token_def pack28_w_def split: if_splits)
  qed
qed

lemma grid_bits:
  fixes w :: u16
  assumes "unat w < 2 ^ 15"
  shows "push_bits (ucast w) 16 = push_bits 0 1 @ push_bits (ucast w) 15"
    "push_bits (ucast (w OR 0x8000)) 16 = push_bits 1 1 @ push_bits (ucast w) 15"
proof -
  note below = bit_below [OF assms]
  have "\<not> bit w 15" using below [of 15] by auto
  have b: "push_bits v 16 = of_bool (bit v 15) # push_bits v 15" for v
  proof -
    have "[0..<16] = [0..<15] @ [15]" using upt_Suc_append [of 0 15] by simp
    then show ?thesis unfolding push_bits_map by simp
  qed
  have o: "push_bits 0 1 = [0]" "push_bits 1 1 = [1]" by (simp_all add: push_bits_map)
  have "push_bits (ucast (w OR 0x8000)) 15 = push_bits (ucast w) 15"
    unfolding push_bits_map by (rule map_cong) (auto simp: word_field_simps simp del: bit_numeral_word_iff)
  then show "push_bits (ucast w) 16 = push_bits 0 1 @ push_bits (ucast w) 15"
    "push_bits (ucast (w OR 0x8000)) 16 = push_bits 1 1 @ push_bits (ucast w) 15"
    unfolding b o using \<open>\<not> bit w 15\<close> by (simp_all add: bit_simps)
qed

definition same_grid :: "string \<Rightarrow> bool" where
  "same_grid e \<longleftrightarrow> (\<exists>ir ig. ending_code (if e = [] then [] else [e]) = Some (ir, ig) \<and>
     push_bits (of_nat ir) 1 @ push_bits (word_of_int ig) 15 = push_bits (ucast (packgrid e)) 16)"

lemma same_grid_plain:
  assumes "ending_code (if e = [] then [] else [e]) = Some (0, int n)" "packgrid e = of_nat n" "n < 2 ^ 15"
  shows "same_grid e"
proof -
  have "unat (of_nat n :: u16) = n" using assms(3) by (simp add: unat_of_nat)
  then have "unat (packgrid e) < 2 ^ 15" using assms by simp
  moreover have "(ucast (of_nat n :: u16) :: u32) = of_nat n"
    by (rule unat_inject) (use assms(3) in \<open>simp add: unat_of_nat unsigned_ucast_eq take_bit_nat_eq_self\<close>)
  ultimately show ?thesis using assms(1,2) grid_bits(1) unfolding same_grid_def by fastforce
qed

lemma grid_same:
  assumes "is_grid4 e" "e \<noteq> ''RR73''"
  shows "same_grid e"
proof -
  from assms obtain a b c d where e: "e = [a, b, c, d]"
    and v: "in_field a" "in_field b" "is_digit c" "is_digit d"
    by (auto simp: is_grid4_def length_Suc_conv numeral_eq_Suc)
  note f = v(1,2) [THEN in_field_val] v(3,4) [THEN digit_val_char]
  let ?n = "((field_val a * 18 + field_val b) * 10 + digit_val c) * 10 + digit_val d"
  show ?thesis
  proof (rule same_grid_plain)
    show "?n < 2 ^ 15" using f by auto
    show "packgrid e = of_nat ?n" using assms by (auto simp: packgrid_def e)
    show "ending_code (if e = [] then [] else [e]) = Some (0, int ?n)"
      using assms(1) by (simp add: e ending_code_def encode_grid_report_def)
  qed
qed

lemma report_same:
  assumes "report_text e"
  shows "same_grid e"
proof -
  from assms obtain v where v: "-30 \<le> v" "v \<le> 99" and e: "e = show_plus03 v \<or> e = CHR ''R'' # show_plus03 v"
    by (rule report_cases)
  have v': "\<bar>v\<bar> < 100" using v by auto
  obtain x y z where r: "show_plus03 v = [x, y, z]" and x: "x = CHR ''-'' \<or> x = CHR ''+''"
    using show_plus03_digits [OF v'] by auto
  have rp: "rpt_w (show_plus03 v) ir = Some (ir, 32435 + v)" for ir
    using v(1) by (simp add: rpt_w_def parse_report [OF v'])
  then have code: "encode_grid_report (show_plus03 v) False = Some (0, 32435 + v)"
    "encode_grid_report (CHR ''R'' # show_plus03 v) False = Some (1, 32435 + v)"
    using x unfolding r by (auto simp: encode_grid_report_def is_grid4_def in_field_def is_digit_def starts_with_def)
  let ?w = "of_nat (nat (32435 + v)) :: u16"
  note pg = packgrid_report [OF v]
  have small: "unat ?w < 2 ^ 15" using v unfolding pg(3) by auto
  have "unat (ucast ?w :: u32) = nat (32435 + v)"
    using small pg(3) by (simp add: unsigned_ucast_eq take_bit_nat_eq_self)
  moreover have "unat (word_of_int (32435 + v) :: u32) = nat (32435 + v)"
  proof -
    have "word_of_int (32435 + v) = (of_nat (nat (32435 + v)) :: u32)" by (rule of_nat_nat [symmetric]) (use v in simp)
    moreover have "nat (32435 + v) < 4294967296" using v by simp
    ultimately show ?thesis by (simp only: unat_of_nat) simp
  qed
  ultimately have w: "word_of_int (32435 + v) = (ucast ?w :: u32)" by (intro unat_inject) simp
  from e show ?thesis
  proof
    assume e: "e = show_plus03 v"
    show ?thesis unfolding same_grid_def e pg(1) grid_bits(1) [OF small] ending_code_def
      using code(1) by (intro exI [of _ "0 :: nat"] exI [of _ "32435 + v"] conjI, simp add: r, simp only: w, simp)
  next
    assume e: "e = CHR ''R'' # show_plus03 v"
    show ?thesis unfolding same_grid_def e pg(2) grid_bits(2) [OF small] ending_code_def
      using code(2) by (intro exI [of _ "1 :: nat"] exI [of _ "32435 + v"] conjI, simp, simp only: w, simp)
  qed
qed

lemma extra_same: "std_extra e \<Longrightarrow> e \<noteq> ''RR73'' \<Longrightarrow> same_grid e"
proof -
  have "same_grid []" by (rule same_grid_plain [of _ 32401]) (simp_all add: ending_code_def packgrid_def MAXGRID4_def)
  moreover have "same_grid ''RRR''"
    by (rule same_grid_plain [of _ 32402]) (simp_all add: ending_code_def encode_grid_report_def is_grid4_def packgrid_def MAXGRID4_def)
  moreover have "same_grid ''73''"
    by (rule same_grid_plain [of _ 32404]) (simp_all add: ending_code_def encode_grid_report_def is_grid4_def packgrid_def MAXGRID4_def)
  ultimately show "std_extra e \<Longrightarrow> e \<noteq> ''RR73'' \<Longrightarrow> same_grid e"
    using grid_same report_same unfolding std_extra_def by blast
qed

lemma extra_word: "std_extra e \<Longrightarrow> e = [] \<or> word_text e"
proof -
  assume e: "std_extra e"
  show ?thesis
  proof (cases "report_text e")
    case True
    then obtain v where v: "-30 \<le> v" "v \<le> 99" and e: "e = show_plus03 v \<or> e = CHR ''R'' # show_plus03 v"
      by (rule report_cases)
    have "word_text (CHR ''R'' # show_plus03 v)" using v by (intro report_word) simp
    then show ?thesis using e by (auto simp: word_text_def)
  next
    case False
    with e have "e = [] \<or> legacy_extra e" by (auto simp: std_extra_def legacy_extra_def)
    then show ?thesis using legacy_extra_word by blast
  qed
qed

lemma ports_agree:
  assumes "upper_call t" "std_to t" "upper_call d" "std_station d" "std_extra e" "e \<noteq> ''RR73''"
  shows "pack77_standard (join3 t d e) = Some (take 77 (payload_bits (snd (pack77 tab (join3 t d e)))))"
proof -
  from pack28_upper_to [OF assms(1,2), of tab] obtain na tab1 where
    a: "pack28_w t = Some na" "na < 2 ^ 28" "pack28 tab t = (tab1, Some (na, 0))" "\<not> has_suffix t" by blast
  have "std_to d" using assms(4) by (simp add: std_to_def)
  from pack28_upper_to [OF assms(3) this, of tab1] obtain nb tab2 where
    b: "pack28_w d = Some nb" "nb < 2 ^ 28" "pack28 tab1 d = (tab2, Some (nb, 0))" "\<not> has_suffix d" by blast
  have sa: "(0 :: nat) = of_bool (has_suffix t)" "(0 :: nat) = of_bool (has_suffix d)" using a(4) b(4) by simp_all
  have mixed: "\<not> mixed_suffixes t d" using a(4) b(4) by (auto simp: mixed_suffixes_def has_suffix_def)
  have i3: "std_i3 t d = 1" using a(4) b(4) by (simp add: std_i3_def has_suffix_def)
  have "\<not> (is_cq t \<and> needs_nonstd d)" using station_no_nonstd [OF assms(4)] by blast
  note enc = encode_std_fields [OF a(3) sa(1) b(3) a(2) mixed this, unfolded i3]
  have ex: "e = [] \<or> space_free e" using extra_space_free [OF assms(5)] by (simp add: space_free_def)
  have p: "snd (pack77 tab (join3 t d e)) =
      pack_std_bytes (push_bit 1 (of_nat na) OR of_nat 0) (push_bit 1 (of_nat nb) OR of_nat 0) (packgrid e) 1"
    unfolding pack77_def std_fields [OF assms(2,4) ex] by (simp only: prod.case enc option.case Let_def if_False snd_conv)
  note wa = call_word [OF a(2) sa(1)] and wb = call_word [OF b(2) sa(2)]
  have one: "unat (1 :: u8) < 2 ^ 3" by simp
  have dn: "drop_bit 1 (push_bit 1 (of_nat n) OR of_nat 0) = (of_nat n :: u32)"
    if "unat (drop_bit 1 (push_bit 1 (of_nat n) OR of_nat 0 :: u32)) = n" "n < 2 ^ 28" for n
    by (rule unat_inject) (use that in \<open>simp add: unat_of_nat del: push_bit_Suc\<close>)
  have z: "push_bits w 1 = push_bits 0 1" if "unat (w AND 1) = 0" for w :: u32
  proof -
    have "w AND 1 = 0" using that by (simp add: unsigned_eq_0_iff)
    then have "\<not> bit w 0" by (simp add: bit_0 and_one_eq even_iff_mod_2_eq_zero)
    then show ?thesis by (simp add: push_bits_map)
  qed
  from extra_same [OF assms(5,6)] obtain ir ig where
    g: "ending_code (if e = [] then [] else [e]) = Some (ir, ig)"
    "push_bits (of_nat ir) 1 @ push_bits (word_of_int ig) 15 = push_bits (ucast (packgrid e)) 16"
    unfolding same_grid_def by blast
  have "take 77 (payload_bits (snd (pack77 tab (join3 t d e)))) = bits77 na nb ir ig"
    unfolding p std_bytes_bits [OF wa(1) wb(1) one] dn [OF wa(2) a(2)] dn [OF wb(2) b(2)] z [OF wa(3)] z [OF wb(3)]
      g(2) [symmetric] bits77_def by simp
  moreover have "pack77_standard (join_sp ([t, d] @ (if e = [] then [] else [e]))) = Some (bits77 na nb ir ig)"
    by (rule pack77_standard_value [OF _ _ _ a(1) b(1) g(1)])
      (use upper_call_word [OF assms(1)] upper_call_word [OF assms(3)] extra_word [OF assms(5)] in auto)
  moreover have "join3 t d e = join_sp ([t, d] @ (if e = [] then [] else [e]))"
    by (rule message_words) (use station_text(1) [OF assms(4)] in blast)
  ultimately show ?thesis by simp
qed

lemma rr73_words: "encode_grid_report ''RR73'' False = Some (0, 32373) \<and> packgrid ''RR73'' = 32403"
  by (simp add: encode_grid_report_def is_grid4_def in_field_def is_digit_def field_val_def digit_val_def packgrid_def MAXGRID4_def)

text \<open>
  C16: On the standard messages that both ports accept, \<open>RR73\<close> excepted, the 77 bits of \<open>pack77.rs\<close> are
  the bits of the payload of \<open>message77.rs\<close>, whatever the hash table holds: calling tokens and unaliased
  calls in capitals, every report from -30 to +99, locators, \<open>RRR\<close>, \<open>73\<close> and nothing. With \<open>RR73\<close> they
  differ: \<open>pack77.rs\<close> sends the word of the locator RR73, \<open>message77.rs\<close> that of the token.
\<close>

theorem packers_agree:
  assumes "upper_call t" "std_to t" "upper_call d" "std_station d" "std_extra e" "e \<noteq> ''RR73''"
  shows "pack77_standard (join3 t d e) = Some (take 77 (payload_bits (snd (pack77 tab (join3 t d e))))) \<and>
    encode_grid_report ''RR73'' False = Some (0, 32373) \<and> packgrid ''RR73'' = 32403"
  using ports_agree [OF assms] rr73_words by blast

theorem packers_agree_witness:
  "pack77_standard ''CQ K1ABC FN42'' = Some (take 77 (payload_bits (snd (pack77 Map.empty ''CQ K1ABC FN42''))))"
proof -
  have "std_to ''CQ''" "std_extra ''FN42''"
    by (simp_all add: std_to_def call_token_def std_extra_def is_grid4_def in_field_def is_digit_def)
  moreover have "std_station ''K1ABC''"
    by (simp add: std_station_def std_call_def base_part_def has_suffix_def ends_with_def legacy_eval)
  ultimately show ?thesis
    using packers_agree [OF upper_witness_facts(1) _ upper_witness_facts(2), of "''FN42''" Map.empty]
    by (simp add: join3_def)
qed

text \<open>
  The report of \<open>pack77.rs\<close> has no range check: a report from +51 to +70 shares its number with the
  low reports and is read as the report 101 lower by the other station.
\<close>

theorem high_report_reads_low:
  assumes "51 \<le> v" "v \<le> 70"
  shows "\<exists>ig. encode_grid_report (show_plus03 v) False = Some (0, ig) \<and> tail_w 0 (ig - 32400) = show_plus03 (v - 101)"
proof -
  have v: "\<bar>v\<bar> < 100" using assms by auto
  obtain x y z where r: "show_plus03 v = [x, y, z]" and x: "x = CHR ''-'' \<or> x = CHR ''+''"
    using show_plus03_digits [OF v] by auto
  have rp: "rpt_w (show_plus03 v) 0 = Some (0, 32435 + v)"
    using assms by (simp add: rpt_w_def parse_report [OF v])
  then have "encode_grid_report (show_plus03 v) False = Some (0, 32435 + v)"
    using x unfolding r by (auto simp: encode_grid_report_def is_grid4_def in_field_def is_digit_def starts_with_def)
  moreover have "tail_w 0 (32435 + v - 32400) = show_plus03 (v - 101)"
    using assms by (auto simp: tail_w_def show_plus03_def)
  ultimately show ?thesis by blast
qed

theorem high_report_reads_low_witness:
  "\<exists>ig. encode_grid_report (show_plus03 60) False = Some (0, ig) \<and> tail_w 0 (ig - 32400) = show_plus03 (-41)"
  using high_report_reads_low [of 60] by simp

end
