(* ===== verification/ReedSolomon.thy ===== *)
theory ReedSolomon
  imports Prelude
begin

text \<open>
  Reed--Solomon coding (\<open>fec/rs.rs\<close> over GF(256) and \<open>fec/rs_gf64.rs\<close> over GF(64)): logarithm
  tables, generator polynomial, systematic encoder, and the decoder by syndromes,
  Berlekamp--Massey, Chien search and Forney's formula. The two files have the same algorithms
  with the period 255 or 63, so the definitions take the tables and the period as a record.
\<close>

section \<open>Tables\<close>

record gf =
  alpha_to :: "u8 list"
  index_of :: "u8 list"
  period :: nat

text \<open>The next power of \<open>\<alpha>\<close>: shift, and reduce when the bit \<open>hi\<close> comes out.\<close>

definition next_power :: "u16 \<Rightarrow> u16 \<Rightarrow> u16 \<Rightarrow> u16" where
  "next_power hi lo x =
     (let x1 = push_bit 1 x in if x1 AND hi \<noteq> 0 then x1 XOR (hi OR lo) else x1)"

definition table_step ::
  "u16 \<Rightarrow> u16 \<Rightarrow> nat \<Rightarrow> u8 list \<times> u8 list \<times> u16 \<Rightarrow> u8 list \<times> u8 list \<times> u16" where
  "table_step hi lo i s =
     (case s of (al, ix, x) \<Rightarrow> (al[i := ucast x], ix[unat x := of_nat i], next_power hi lo x))"

definition fill_tables :: "u16 \<Rightarrow> u16 \<Rightarrow> nat \<Rightarrow> gf" where
  "fill_tables hi lo per =
     (case fold (table_step hi lo) [0..<per] (replicate (Suc per) 0, replicate (Suc per) 0, 1) of
        (al, ix, x) \<Rightarrow> \<lparr>alpha_to = al[per := 0], index_of = ix[0 := of_nat per], period = per\<rparr>)"

definition build_tables :: "u8 \<Rightarrow> gf" where
  "build_tables prim = fill_tables 0x100 (ucast prim) 255"

definition gf64_new :: gf where
  "gf64_new = fill_tables 0x40 0x03 63"

definition gf_log :: "gf \<Rightarrow> u8 \<Rightarrow> nat" where
  "gf_log g a = unat (index_of g ! unat a)"

definition gf_mul :: "gf \<Rightarrow> u8 \<Rightarrow> u8 \<Rightarrow> u8" where
  "gf_mul g a b = (if a = 0 \<or> b = 0 then 0 else alpha_to g ! ((gf_log g a + gf_log g b) mod period g))"

definition gf_inv :: "gf \<Rightarrow> u8 \<Rightarrow> u8" where
  "gf_inv g a = alpha_to g ! ((period g - gf_log g a) mod period g)"

section \<open>The code\<close>

record rs =
  rs_nroots :: nat
  rs_fcr :: nat
  rs_gf :: gf
  rs_genpoly :: "u8 list"

text \<open>One factor of the generator: \<open>g(x) * (x - root)\<close>, in place from the top.\<close>

definition genpoly_factor :: "gf \<Rightarrow> u8 \<Rightarrow> nat \<Rightarrow> u8 list \<Rightarrow> u8 list" where
  "genpoly_factor g root deg p =
     (let p1 = fold (\<lambda>j p. p[j := p ! (j - 1) XOR gf_mul g (p ! j) root]) (rev [1..<Suc deg]) p
      in p1[0 := gf_mul g (p1 ! 0) root])"

definition genpoly_values :: "gf \<Rightarrow> nat \<Rightarrow> nat \<Rightarrow> u8 list" where
  "genpoly_values g nroots fcr =
     fold (\<lambda>i. genpoly_factor g (alpha_to g ! ((fcr + i) mod period g)) (Suc i)) [0..<nroots]
       ((replicate (nroots + 1) 0)[0 := 1])"

definition build_genpoly :: "gf \<Rightarrow> nat \<Rightarrow> nat \<Rightarrow> u8 list" where
  "build_genpoly g nroots fcr = map (\<lambda>c. index_of g ! unat c) (genpoly_values g nroots fcr)"

definition rs_over :: "gf \<Rightarrow> nat \<Rightarrow> nat \<Rightarrow> rs" where
  "rs_over g nroots fcr =
     \<lparr>rs_nroots = nroots, rs_fcr = fcr, rs_gf = g, rs_genpoly = build_genpoly g nroots fcr\<rparr>"

definition rs_new :: "nat \<Rightarrow> nat \<Rightarrow> u8 \<Rightarrow> rs" where
  "rs_new nroots fcr prim = rs_over (build_tables prim) nroots fcr"

text \<open>The encoder's shift register, \<open>parity ! j\<close> the coefficient of \<open>x ^ j\<close>.\<close>

definition parity_step :: "rs \<Rightarrow> u8 list \<Rightarrow> u8 \<Rightarrow> u8 list" where
  "parity_step r parity d =
     (let feedback = d XOR parity ! (rs_nroots r - 1);
          shifted = 0 # butlast parity
      in if feedback = 0 then shifted
         else map (\<lambda>(pj, gp).
             if unat gp \<noteq> period (rs_gf r)
             then pj XOR alpha_to (rs_gf r) ! ((unat gp + gf_log (rs_gf r) feedback) mod period (rs_gf r))
             else pj) (zip shifted (rs_genpoly r)))"

definition encode_parity :: "rs \<Rightarrow> u8 list \<Rightarrow> u8 list" where
  "encode_parity r data = rev (foldl (parity_step r) (replicate (rs_nroots r) 0) data)"

section \<open>Decoding\<close>

text \<open>Horner's rule with the logarithm of the point.\<close>

definition horner_step :: "gf \<Rightarrow> nat \<Rightarrow> u8 \<Rightarrow> u8 \<Rightarrow> u8" where
  "horner_step g root acc c =
     (if acc = 0 then c else c XOR alpha_to g ! ((gf_log g acc + root) mod period g))"

definition syndrome_at :: "gf \<Rightarrow> nat \<Rightarrow> u8 list \<Rightarrow> u8" where
  "syndrome_at g root cw = foldl (horner_step g root) (hd cw) (tl cw)"

definition rs_syndromes :: "rs \<Rightarrow> u8 list \<Rightarrow> u8 list" where
  "rs_syndromes r cw =
     map (\<lambda>i. syndrome_at (rs_gf r) ((rs_fcr r + i) mod period (rs_gf r)) cw) [0..<rs_nroots r]"

record bm =
  bm_lambda :: "u8 list"
  bm_b :: "u8 list"
  bm_l :: nat
  bm_m :: nat
  bm_scalar :: u8

definition bm_start :: "nat \<Rightarrow> bm" where
  "bm_start nroots =
     \<lparr>bm_lambda = (replicate (nroots + 1) 0)[0 := 1], bm_b = (replicate (nroots + 1) 0)[0 := 1],
      bm_l = 0, bm_m = 1, bm_scalar = 1\<rparr>"

definition discrepancy :: "gf \<Rightarrow> u8 list \<Rightarrow> u8 list \<Rightarrow> nat \<Rightarrow> nat \<Rightarrow> u8" where
  "discrepancy g synd lam l k =
     foldl (\<lambda>d i. if lam ! i \<noteq> 0 \<and> synd ! (k - i) \<noteq> 0 then d XOR gf_mul g (lam ! i) (synd ! (k - i)) else d)
       (synd ! k) [1..<Suc l]"

definition add_shifted :: "gf \<Rightarrow> nat \<Rightarrow> u8 \<Rightarrow> nat \<Rightarrow> u8 list \<Rightarrow> u8 list \<Rightarrow> u8 list" where
  "add_shifted g nroots coef m b lam =
     fold (\<lambda>i lam. if b ! i \<noteq> 0 then lam[i + m := lam ! (i + m) XOR gf_mul g coef (b ! i)] else lam)
       [0..<Suc (nroots - m)] lam"

definition bm_step :: "gf \<Rightarrow> nat \<Rightarrow> u8 list \<Rightarrow> nat \<Rightarrow> bm \<Rightarrow> bm" where
  "bm_step g nroots synd k s =
     (let delta = discrepancy g synd (bm_lambda s) (bm_l s) k;
          coef = gf_mul g delta (gf_inv g (bm_scalar s));
          lam = add_shifted g nroots coef (bm_m s) (bm_b s) (bm_lambda s)
      in if delta = 0 then s\<lparr>bm_m := bm_m s + 1\<rparr>
         else if 2 * bm_l s \<le> k
         then \<lparr>bm_lambda = lam, bm_b = bm_lambda s, bm_l = k + 1 - bm_l s, bm_m = 1, bm_scalar = delta\<rparr>
         else s\<lparr>bm_lambda := lam, bm_m := bm_m s + 1\<rparr>)"

definition berlekamp_massey :: "gf \<Rightarrow> nat \<Rightarrow> u8 list \<Rightarrow> bm" where
  "berlekamp_massey g nroots synd = fold (bm_step g nroots synd) [0..<nroots] (bm_start nroots)"

definition lambda_degree :: "nat \<Rightarrow> u8 list \<Rightarrow> nat" where
  "lambda_degree nroots lam = (case find (\<lambda>i. lam ! i \<noteq> 0) (rev [0..<Suc nroots]) of None \<Rightarrow> 0 | Some i \<Rightarrow> i)"

text \<open>The term of index \<open>i\<close> at the inverse of \<open>\<alpha> ^ p\<close>.\<close>

definition x_inv :: "gf \<Rightarrow> nat \<Rightarrow> nat" where
  "x_inv g p = (period g - p mod period g) mod period g"

definition power_term :: "gf \<Rightarrow> nat \<Rightarrow> u8 \<Rightarrow> nat \<Rightarrow> u8" where
  "power_term g p c i = alpha_to g ! ((gf_log g c + (i * x_inv g p) mod period g) mod period g)"

definition chien_sum :: "gf \<Rightarrow> nat \<Rightarrow> u8 list \<Rightarrow> nat \<Rightarrow> u8" where
  "chien_sum g nroots lam p =
     foldl (\<lambda>s i. if lam ! i \<noteq> 0 then s XOR power_term g p (lam ! i) i else s) (lam ! 0) [1..<Suc nroots]"

definition chien_search :: "gf \<Rightarrow> nat \<Rightarrow> nat \<Rightarrow> u8 list \<Rightarrow> nat list" where
  "chien_search g nroots n lam = filter (\<lambda>p. chien_sum g nroots lam p = 0 \<and> p < n) [0..<period g]"

definition error_evaluator :: "gf \<Rightarrow> nat \<Rightarrow> u8 list \<Rightarrow> u8 list \<Rightarrow> u8 list" where
  "error_evaluator g nroots synd lam =
     map (\<lambda>i. foldl (\<lambda>acc j. if lam ! j \<noteq> 0 \<and> synd ! (i - j) \<noteq> 0
         then acc XOR gf_mul g (lam ! j) (synd ! (i - j)) else acc) 0 [0..<Suc i]) [0..<nroots]"

definition omega_at :: "gf \<Rightarrow> u8 list \<Rightarrow> nat \<Rightarrow> u8" where
  "omega_at g omega p =
     foldl (\<lambda>acc i. if omega ! i \<noteq> 0 then acc XOR power_term g p (omega ! i) i else acc) 0 [0..<length omega]"

definition lambda_prime :: "gf \<Rightarrow> nat \<Rightarrow> u8 list \<Rightarrow> nat \<Rightarrow> u8" where
  "lambda_prime g nerr lam p =
     foldl (\<lambda>acc i. if lam ! i \<noteq> 0 then acc XOR power_term g p (lam ! i) (i - 1) else acc) 0
       (filter odd [1..<Suc nerr])"

definition error_magnitude :: "rs \<Rightarrow> u8 list \<Rightarrow> nat \<Rightarrow> u8 \<Rightarrow> u8" where
  "error_magnitude r omega p lp =
     (let g = rs_gf r;
          mag = gf_mul g (omega_at g omega p) (gf_inv g lp);
          e = nat ((int p * (1 - int (rs_fcr r))) mod int (period g))
      in if mag \<noteq> 0 then alpha_to g ! ((gf_log g mag + e) mod period g) else mag)"

text \<open>The correction loop stops early, with the codeword partly changed, on a zero denominator.\<close>

fun forney :: "rs \<Rightarrow> nat \<Rightarrow> u8 list \<Rightarrow> u8 list \<Rightarrow> nat list \<Rightarrow> u8 list \<Rightarrow> u8 list \<times> bool" where
  "forney r nerr lam omega [] cw = (cw, True)"
| "forney r nerr lam omega (p # ps) cw =
     (let lp = lambda_prime (rs_gf r) nerr lam p; idx = length cw - 1 - p
      in if lp = 0 then (cw, False)
         else forney r nerr lam omega ps (cw[idx := cw ! idx XOR error_magnitude r omega p lp]))"

datatype rs_error = Uncorrectable

text \<open>The codeword as \<open>decode\<close> leaves it, and its result; \<open>None\<close> is the panic on an empty codeword.\<close>

definition rs_correct :: "rs \<Rightarrow> u8 list \<Rightarrow> u8 list \<Rightarrow> u8 list \<times> (nat, rs_error) result" where
  "rs_correct r synd cw =
     (let g = rs_gf r; nroots = rs_nroots r;
          lam = bm_lambda (berlekamp_massey g nroots synd);
          nerr = lambda_degree nroots lam
      in if nerr = 0 \<or> nerr > nroots div 2 then (cw, Err Uncorrectable)
         else let err_pos = chien_search g nroots (length cw) lam
              in if length err_pos \<noteq> nerr then (cw, Err Uncorrectable)
                 else case forney r nerr lam (error_evaluator g nroots synd lam) err_pos cw of
                     (cw1, False) \<Rightarrow> (cw1, Err Uncorrectable)
                   | (cw1, True) \<Rightarrow>
                       (cw1, if \<forall>s\<in>set (rs_syndromes r cw1). s = 0 then Ok (length err_pos) else Err Uncorrectable))"

definition rs_decode :: "rs \<Rightarrow> u8 list \<Rightarrow> (u8 list \<times> (nat, rs_error) result) option" where
  "rs_decode r cw =
     (if cw = [] \<and> rs_nroots r > 0 then None
      else let synd = rs_syndromes r cw
           in Some (if \<forall>s\<in>set synd. s = 0 then (cw, Ok 0) else rs_correct r synd cw))"

section \<open>JT65's code\<close>

definition rs_jt65 :: rs where
  "rs_jt65 = rs_over gf64_new 51 1"

definition rs64_encode :: "rs \<Rightarrow> u8 list \<Rightarrow> u8 list" where
  "rs64_encode r data = data @ encode_parity r data"

definition rs64_decode_in_place :: "rs \<Rightarrow> u8 list \<Rightarrow> (u8 list \<times> nat option) option" where
  "rs64_decode_in_place r cw =
     map_option (\<lambda>(cw1, res). (cw1, case res of Err _ \<Rightarrow> None | Ok k \<Rightarrow> Some k)) (rs_decode r cw)"

definition rs64_decode :: "rs \<Rightarrow> u8 list \<Rightarrow> u8 list option" where
  "rs64_decode r received =
     (case rs64_decode_in_place r received of
        Some (cw, Some _) \<Rightarrow> Some (take 12 cw)
      | _ \<Rightarrow> None)"

end
