(* ===== verification/GaloisFields.thy ===== *)
theory GaloisFields
  imports ReedSolomon
begin

text \<open>
  The finite fields behind the logarithm tables of \<open>fec/rs.rs\<close> and \<open>fec/rs_gf64.rs\<close>: the powers of
  \<open>\<alpha>\<close> run through all nonzero elements, the tables hold them and their logarithms, and with
  exclusive or as addition the table multiplication makes the symbols a field. The fields are the
  types \<open>gf256\<close> and \<open>gf64\<close>.
\<close>

section \<open>Powers of a linear step\<close>

locale power_cycle =
  fixes step :: "u8 \<Rightarrow> u8" and per :: nat and K :: "u8 set"
  assumes per_gt: "1 < per"
    and cycle: "(step ^^ per) 1 = 1"
    and no_shorter: "0 < d \<Longrightarrow> d < per \<Longrightarrow> d dvd per \<Longrightarrow> (step ^^ d) 1 \<noteq> 1"
    and step_xor: "a \<in> K \<Longrightarrow> b \<in> K \<Longrightarrow> step (a XOR b) = step a XOR step b"
    and step_K: "a \<in> K \<Longrightarrow> step a \<in> K"
    and step_nonzero: "a \<in> K \<Longrightarrow> a \<noteq> 0 \<Longrightarrow> step a \<noteq> 0"
    and K01: "0 \<in> K" "1 \<in> K"
    and K_xor: "a \<in> K \<Longrightarrow> b \<in> K \<Longrightarrow> a XOR b \<in> K"
    and finite_K: "card K = Suc per"
begin

definition pw :: "nat \<Rightarrow> u8" where
  "pw i = (step ^^ i) 1"

lemma pw_0 [simp]: "pw 0 = 1"
  by (simp add: pw_def)

lemma pw_add: "pw (i + j) = (step ^^ i) (pw j)"
  by (simp add: pw_def funpow_add)

lemma pw_per [simp]: "pw per = 1"
  by (simp add: pw_def cycle)

lemma pw_mult_per: "pw (k * per + i) = pw i"
proof (induction k)
  case (Suc k)
  have "Suc k * per + i = (k * per + i) + per" by simp
  then have "pw (Suc k * per + i) = (step ^^ (k * per + i)) (pw per)" by (simp only: pw_add)
  with Suc show ?case by (simp only: pw_def cycle)
qed simp

lemma pw_mod [simp]: "pw (i mod per) = pw i"
  using pw_mult_per [of "i div per" "i mod per"] by (simp add: mult.commute)

lemma pw_in_K: "pw i \<in> K"
  by (induction i) (simp_all add: pw_def K01 step_K)

lemma pw_nonzero: "pw i \<noteq> 0"
proof (induction i)
  case (Suc i)
  from step_nonzero [OF pw_in_K Suc] show ?case by (simp add: pw_def)
qed simp

lemma pw_mult: "pw d = 1 \<Longrightarrow> pw (k * d) = 1"
proof (induction k)
  case (Suc k)
  then show ?case using pw_add [of "k * d" d] by (simp add: pw_def add.commute)
qed simp

lemma pw_period:
  assumes "pw d = 1"
  shows "per dvd d"
proof (cases "d = 0")
  case False
  obtain x y where xy: "d * x = per * y + gcd d per" using bezout_nat [OF False, of per] by blast
  have "pw (gcd d per) = pw (d * x)" using pw_mult_per [of y] by (simp add: xy mult.commute)
  also have "\<dots> = 1" using pw_mult [OF assms, of x] by (simp add: mult.commute)
  finally have g: "(step ^^ gcd d per) 1 = 1" by (simp add: pw_def)
  have "gcd d per = per"
  proof (rule ccontr)
    assume ne: "gcd d per \<noteq> per"
    have "gcd d per \<le> per" using per_gt by (intro dvd_imp_le) auto
    with ne no_shorter [of "gcd d per"] g False show False by simp
  qed
  then show ?thesis by (metis gcd_dvd1)
qed simp

lemma pw_inj: "i < per \<Longrightarrow> j < per \<Longrightarrow> pw i = pw j \<Longrightarrow> i = j"
proof (induction i j rule: linorder_wlog)
  case (le i j)
  have "pw (j - i) = pw (per - i + j)"
    using le pw_mult_per [of 1 "j - i"] by (simp add: add.commute)
  also have "\<dots> = pw (per - i + i)" using le by (simp only: pw_add)
  also have "\<dots> = 1" using le by simp
  finally have "per dvd j - i" by (rule pw_period)
  moreover have "j - i < per" using le by simp
  ultimately have "j - i = 0" by (meson gr0I nat_dvd_not_less)
  with le show ?case by simp
qed simp

lemma pw_onto: "a \<in> K \<Longrightarrow> a \<noteq> 0 \<Longrightarrow> \<exists>i<per. a = pw i"
proof -
  assume a: "a \<in> K" "a \<noteq> 0"
  have "card (pw ` {..<per}) = per" using pw_inj by (simp add: card_image inj_on_def)
  moreover have "pw ` {..<per} \<subseteq> K - {0}" using pw_in_K pw_nonzero by auto
  moreover have "finite K" using finite_K by (metis card.infinite nat.distinct(1))
  ultimately have "pw ` {..<per} = K - {0}"
    using finite_K K01 by (intro card_subset_eq) auto
  with a show ?thesis by auto
qed

lemma steps_K: "a \<in> K \<Longrightarrow> (step ^^ i) a \<in> K"
  by (induction i) (simp_all add: step_K)

lemma steps_xor: "a \<in> K \<Longrightarrow> b \<in> K \<Longrightarrow> (step ^^ i) (a XOR b) = (step ^^ i) a XOR (step ^^ i) b"
  by (induction i) (simp_all add: step_xor steps_K)

lemma steps_0: "(step ^^ i) 0 = 0"
  using steps_xor [OF K01(1) K01(1), of i] by simp

end

section \<open>Tables of logarithms\<close>

locale log_tables = power_cycle step "period g" K for step and g :: gf and K +
  assumes antilog: "i < period g \<Longrightarrow> alpha_to g ! i = (step ^^ i) 1"
    and log_power: "i < period g \<Longrightarrow> gf_log g ((step ^^ i) 1) = i"
    and log_0: "gf_log g 0 = period g"
begin

lemma antilog_mod: "alpha_to g ! (i mod period g) = pw i"
  using antilog [of "i mod period g"] per_gt pw_mod [of i] by (simp add: pw_def)

lemma log_pw: "gf_log g (pw i) = i mod period g"
  using log_power [of "i mod period g"] per_gt pw_mod [of i] by (simp add: pw_def)

lemma pw_log: "a \<in> K \<Longrightarrow> a \<noteq> 0 \<Longrightarrow> pw (gf_log g a) = a"
  using pw_onto [of a] log_pw by auto

lemma log_less: "a \<in> K \<Longrightarrow> a \<noteq> 0 \<Longrightarrow> gf_log g a < period g"
  using pw_onto [of a] log_pw by auto

lemma mul_pw: "gf_mul g (pw i) (pw j) = pw (i + j)"
  by (simp add: gf_mul_def pw_nonzero log_pw antilog_mod mod_add_eq)

lemma mul_steps: "b \<in> K \<Longrightarrow> gf_mul g (pw i) b = (step ^^ i) b"
proof (cases "b = 0")
  case False
  moreover assume "b \<in> K"
  ultimately obtain j where "b = pw j" using pw_onto by blast
  then show ?thesis by (simp add: mul_pw pw_add)
qed (simp add: gf_mul_def steps_0)

lemma mul_K: "a \<in> K \<Longrightarrow> b \<in> K \<Longrightarrow> gf_mul g a b \<in> K"
  by (simp add: gf_mul_def K01 antilog_mod pw_in_K)

lemma mul_0 [simp]: "gf_mul g 0 b = 0" "gf_mul g a 0 = 0"
  by (simp_all add: gf_mul_def)

lemma mul_comm: "gf_mul g a b = gf_mul g b a"
  by (auto simp: gf_mul_def add.commute)

lemma mul_1: "a \<in> K \<Longrightarrow> gf_mul g 1 a = a"
  using mul_steps [of a 0] by simp

lemma mul_assoc:
  assumes "a \<in> K" "b \<in> K" "c \<in> K"
  shows "gf_mul g (gf_mul g a b) c = gf_mul g a (gf_mul g b c)"
proof (cases "a = 0 \<or> b = 0 \<or> c = 0")
  case False
  with assms pw_onto obtain i j k where "a = pw i" "b = pw j" "c = pw k" by metis
  then show ?thesis by (simp add: mul_pw add.assoc)
qed auto

lemma mul_xor:
  assumes "a \<in> K" "b \<in> K" "c \<in> K"
  shows "gf_mul g a (b XOR c) = gf_mul g a b XOR gf_mul g a c"
proof (cases "a = 0")
  case False
  with assms pw_onto obtain i where "a = pw i" by metis
  with assms show ?thesis by (simp add: mul_steps K_xor steps_xor)
qed simp

lemma xor_mul: "a \<in> K \<Longrightarrow> b \<in> K \<Longrightarrow> c \<in> K \<Longrightarrow> gf_mul g (a XOR b) c = gf_mul g a c XOR gf_mul g b c"
  by (simp only: mul_comm [of _ c] mul_xor)

lemma inv_K: "a \<in> K \<Longrightarrow> gf_inv g a \<in> K"
  by (simp add: gf_inv_def antilog_mod pw_in_K)

lemma inv_mul: "a \<in> K \<Longrightarrow> a \<noteq> 0 \<Longrightarrow> gf_mul g (gf_inv g a) a = 1"
proof -
  assume a: "a \<in> K" "a \<noteq> 0"
  then have "gf_mul g (pw (period g - gf_log g a)) (pw (gf_log g a)) = pw (period g)"
    using log_less [OF a] by (simp only: mul_pw) simp
  with a show ?thesis by (simp add: gf_inv_def antilog_mod pw_log)
qed

end

section \<open>The tables of the code\<close>

locale table_code = power_cycle +
  fixes hi lo :: u16
  assumes code_step: "a \<in> K \<Longrightarrow> next_power hi lo (ucast a) = ucast (step a)"
    and K_index: "a \<in> K \<Longrightarrow> unat a \<le> per"
    and per_byte: "per < 256"
begin

definition filled :: "nat \<Rightarrow> u8 list \<times> u8 list \<times> u16 \<Rightarrow> bool" where
  "filled n s \<longleftrightarrow> (case s of (al, ix, x) \<Rightarrow>
     x = ucast (pw n) \<and> length al = Suc per \<and> length ix = Suc per \<and>
     (\<forall>i<n. al ! i = pw i) \<and> (\<forall>i<n. ix ! unat (pw i) = of_nat i))"

lemma unat_wide: "unat (ucast (a :: u8) :: u16) = unat a"
  by (simp add: unsigned_ucast_eq take_bit_nat_eq_self_iff order_less_le_trans [OF unat_u8])

lemma filled_step:
  assumes "filled n s" "n < per"
  shows "filled (Suc n) (table_step hi lo n s)"
proof -
  obtain al ix x where s: "s = (al, ix, x)" by (cases s) auto
  from assms(1) have x: "x = ucast (pw n)" by (simp add: filled_def s)
  have narrow: "ucast (ucast (pw n) :: u16) = pw n" by (rule bit_word_eqI) (auto simp: bit_simps)
  have other: "unat (pw n) \<noteq> unat (pw i)" if "i < n" for i
    using pw_inj [of i n] assms(2) that by (metis less_trans nat_neq_iff unat_inject)
  have next_x: "next_power hi lo (ucast (pw n)) = ucast (pw (Suc n))"
    using code_step [OF pw_in_K, of n] by (simp add: pw_def)
  from assms show ?thesis
    using le_imp_less_Suc [OF K_index [OF pw_in_K, of n]] other
    by (auto simp: s filled_def table_step_def next_x narrow unat_wide x less_Suc_eq nth_list_update)
qed

lemma filled_all: "n \<le> per \<Longrightarrow>
    filled n (fold (table_step hi lo) [0..<n] (replicate (Suc per) 0, replicate (Suc per) 0, 1))"
proof (induction n)
  case (Suc n)
  then show ?case by (simp add: filled_step)
qed (simp add: filled_def)

lemma fill_tables_ok:
  "log_tables step (fill_tables hi lo per) K"
proof -
  obtain al ix x where s:
    "fold (table_step hi lo) [0..<per] (replicate (Suc per) 0, replicate (Suc per) 0, 1) = (al, ix, x)"
    using prod_cases3 by blast
  have f: "filled per (al, ix, x)" using filled_all [of per] by (simp only: s order_refl)
  define g where "g = fill_tables hi lo per"
  have g: "g = \<lparr>alpha_to = al[per := 0], index_of = ix[0 := of_nat per], period = per\<rparr>"
    by (simp add: g_def fill_tables_def s del: replicate_Suc)
  have small: "unat (of_nat i :: u8) = i" if "i \<le> per" for i
    using that per_byte by (simp add: unat_of_nat)
  have "alpha_to g ! i = pw i" if "i < per" for i using f that by (simp add: g filled_def)
  moreover have "gf_log g (pw i) = i" if "i < per" for i
    using f that K_index [OF pw_in_K, of i] pw_nonzero [of i]
    by (simp add: g filled_def gf_log_def small unat_eq_0)
  moreover have "gf_log g 0 = per" using f by (simp add: g filled_def gf_log_def small)
  moreover have "period g = per" by (simp add: g)
  ultimately show ?thesis unfolding g_def [symmetric]
    by unfold_locales
      (use per_gt cycle no_shorter step_xor step_K step_nonzero K01 K_xor finite_K in
        \<open>auto simp: pw_def\<close>)
qed

end

text \<open>GF(256) with the polynomial \<open>0x11D\<close>, and GF(64) with \<open>0x43\<close>.\<close>

definition step256 :: "u8 \<Rightarrow> u8" where
  "step256 a = (if a < 128 then a * 2 else (a * 2) XOR 0x1D)"

definition step64 :: "u8 \<Rightarrow> u8" where
  "step64 a = (if a < 32 then a * 2 else (a * 2) XOR 0x43)"

definition symbols64 :: "u8 set" where
  "symbols64 = {a. a < 64}"

lemma funpow_17: "(f ^^ 17) x = f (f (f (f (f (f (f (f (f (f (f (f (f (f (f (f (f x))))))))))))))))"
  by (simp add: eval_nat_numeral)

lemma funpow_3_7: "(f ^^ 3) x = f (f (f x))" "(f ^^ 7) x = f (f (f (f (f (f (f x))))))"
  by (simp_all add: eval_nat_numeral)

lemma funpow_plus: "(f ^^ (m + n)) x = (f ^^ n) ((f ^^ m) x)"
  by (simp add: funpow_add add.commute [of m])

text \<open>The cycle, in hops of 17 and of 7 powers.\<close>

lemma hop256: "(step256 ^^ n) 1 = x \<Longrightarrow> (step256 ^^ (n + 17)) 1 = (step256 ^^ 17) x"
  by (simp only: funpow_plus)

lemma hop64: "(step64 ^^ n) 1 = x \<Longrightarrow> (step64 ^^ (n + 7)) 1 = (step64 ^^ 7) x"
  by (simp only: funpow_plus)

lemma hop256s:
  "(step256 ^^ 17) 1 = 152"
  "(step256 ^^ 17) 152 = 78"
  "(step256 ^^ 17) 78 = 10"
  "(step256 ^^ 17) 10 = 153"
  "(step256 ^^ 17) 153 = 214"
  "(step256 ^^ 17) 214 = 68"
  "(step256 ^^ 17) 68 = 147"
  "(step256 ^^ 17) 147 = 79"
  "(step256 ^^ 17) 79 = 146"
  "(step256 ^^ 17) 146 = 215"
  "(step256 ^^ 17) 215 = 220"
  "(step256 ^^ 17) 220 = 221"
  "(step256 ^^ 17) 221 = 69"
  "(step256 ^^ 17) 69 = 11"
  "(step256 ^^ 17) 11 = 1"
  by (simp_all only: funpow_17) (simp_all add: step256_def)

lemma hop64s:
  "(step64 ^^ 7) 1 = 6"
  "(step64 ^^ 7) 6 = 20"
  "(step64 ^^ 7) 20 = 59"
  "(step64 ^^ 7) 59 = 28"
  "(step64 ^^ 7) 28 = 11"
  "(step64 ^^ 7) 11 = 58"
  "(step64 ^^ 7) 58 = 26"
  "(step64 ^^ 7) 26 = 31"
  "(step64 ^^ 7) 31 = 1"
  by (simp_all only: funpow_3_7) (simp_all add: step64_def)

lemma powers256:
  shows "(step256 ^^ 17) 1 = 152"
    and "(step256 ^^ 34) 1 = 78"
    and "(step256 ^^ 51) 1 = 10"
    and "(step256 ^^ 68) 1 = 153"
    and "(step256 ^^ 85) 1 = 214"
    and "(step256 ^^ 102) 1 = 68"
    and "(step256 ^^ 119) 1 = 147"
    and "(step256 ^^ 136) 1 = 79"
    and "(step256 ^^ 153) 1 = 146"
    and "(step256 ^^ 170) 1 = 215"
    and "(step256 ^^ 187) 1 = 220"
    and "(step256 ^^ 204) 1 = 221"
    and "(step256 ^^ 221) 1 = 69"
    and "(step256 ^^ 238) 1 = 11"
    and "(step256 ^^ 255) 1 = 1"
proof -
  show p1: "(step256 ^^ 17) 1 = 152" using hop256s by simp
  show p2: "(step256 ^^ 34) 1 = 78" using hop256 [OF p1] hop256s by simp
  show p3: "(step256 ^^ 51) 1 = 10" using hop256 [OF p2] hop256s by simp
  show p4: "(step256 ^^ 68) 1 = 153" using hop256 [OF p3] hop256s by simp
  show p5: "(step256 ^^ 85) 1 = 214" using hop256 [OF p4] hop256s by simp
  show p6: "(step256 ^^ 102) 1 = 68" using hop256 [OF p5] hop256s by simp
  show p7: "(step256 ^^ 119) 1 = 147" using hop256 [OF p6] hop256s by simp
  show p8: "(step256 ^^ 136) 1 = 79" using hop256 [OF p7] hop256s by simp
  show p9: "(step256 ^^ 153) 1 = 146" using hop256 [OF p8] hop256s by simp
  show p10: "(step256 ^^ 170) 1 = 215" using hop256 [OF p9] hop256s by simp
  show p11: "(step256 ^^ 187) 1 = 220" using hop256 [OF p10] hop256s by simp
  show p12: "(step256 ^^ 204) 1 = 221" using hop256 [OF p11] hop256s by simp
  show p13: "(step256 ^^ 221) 1 = 69" using hop256 [OF p12] hop256s by simp
  show p14: "(step256 ^^ 238) 1 = 11" using hop256 [OF p13] hop256s by simp
  show p15: "(step256 ^^ 255) 1 = 1" using hop256 [OF p14] hop256s by simp
qed

lemma powers64:
  shows "(step64 ^^ 7) 1 = 6"
    and "(step64 ^^ 14) 1 = 20"
    and "(step64 ^^ 21) 1 = 59"
    and "(step64 ^^ 28) 1 = 28"
    and "(step64 ^^ 35) 1 = 11"
    and "(step64 ^^ 42) 1 = 58"
    and "(step64 ^^ 49) 1 = 26"
    and "(step64 ^^ 56) 1 = 31"
    and "(step64 ^^ 63) 1 = 1"
proof -
  show p1: "(step64 ^^ 7) 1 = 6" using hop64s by simp
  show p2: "(step64 ^^ 14) 1 = 20" using hop64 [OF p1] hop64s by simp
  show p3: "(step64 ^^ 21) 1 = 59" using hop64 [OF p2] hop64s by simp
  show p4: "(step64 ^^ 28) 1 = 28" using hop64 [OF p3] hop64s by simp
  show p5: "(step64 ^^ 35) 1 = 11" using hop64 [OF p4] hop64s by simp
  show p6: "(step64 ^^ 42) 1 = 58" using hop64 [OF p5] hop64s by simp
  show p7: "(step64 ^^ 49) 1 = 26" using hop64 [OF p6] hop64s by simp
  show p8: "(step64 ^^ 56) 1 = 31" using hop64 [OF p7] hop64s by simp
  show p9: "(step64 ^^ 63) 1 = 1" using hop64 [OF p8] hop64s by simp
qed

lemma power256_15: "(step256 ^^ 15) 1 = 38"
  by (simp add: numeral_eq_Suc) (simp add: step256_def)

lemma power64_9: "(step64 ^^ 9) 1 = 24"
  by (simp add: numeral_eq_Suc) (simp add: step64_def)

text \<open>A proper divisor divides one of the maximal ones.\<close>

lemma divisors255: "d dvd 255 \<Longrightarrow> d \<noteq> 255 \<Longrightarrow> d dvd 85 \<or> d dvd 51 \<or> d dvd (15 :: nat)"
proof -
  assume d: "d dvd 255" "d \<noteq> 255"
  have "\<forall>i\<in>set [1..254]. i dvd 255 \<longrightarrow> i dvd 85 \<or> i dvd 51 \<or> i dvd (15 :: int)" by code_simp
  moreover have "d \<le> 255" "d \<noteq> 0" using d(1) by (auto intro: dvd_imp_le intro!: gr0I)
  ultimately have "int d dvd 255 \<longrightarrow> int d dvd 85 \<or> int d dvd 51 \<or> int d dvd 15" using d(2) by simp
  with d(1) show ?thesis by presburger
qed

lemma divisors63: "d dvd 63 \<Longrightarrow> d \<noteq> 63 \<Longrightarrow> d dvd 21 \<or> d dvd (9 :: nat)"
proof -
  assume d: "d dvd 63" "d \<noteq> 63"
  have "\<forall>i\<in>set [1..62]. i dvd 63 \<longrightarrow> i dvd 21 \<or> i dvd (9 :: int)" by code_simp
  moreover have "d \<le> 63" "d \<noteq> 0" using d(1) by (auto intro: dvd_imp_le intro!: gr0I)
  ultimately have "int d dvd 63 \<longrightarrow> int d dvd 21 \<or> int d dvd 9" using d(2) by simp
  with d(1) show ?thesis by presburger
qed

lemma funpow_dvd: "(f ^^ d) x = x \<Longrightarrow> d dvd n \<Longrightarrow> (f ^^ n) x = x"
proof -
  assume f: "(f ^^ d) x = x" and "d dvd n"
  then obtain k where "n = d * k" by blast
  moreover have "(f ^^ (d * k)) x = x" using f by (induction k) (simp_all add: funpow_add)
  ultimately show ?thesis by simp
qed

lemma no_shorter256: "d dvd 255 \<Longrightarrow> d < 255 \<Longrightarrow> (step256 ^^ d) 1 \<noteq> 1"
  using divisors255 [of d] funpow_dvd [of d step256 1 85] funpow_dvd [of d step256 1 51]
    funpow_dvd [of d step256 1 15] powers256 power256_15 by auto

lemma no_shorter64: "d dvd 63 \<Longrightarrow> d < 63 \<Longrightarrow> (step64 ^^ d) 1 \<noteq> 1"
  using divisors63 [of d] funpow_dvd [of d step64 1 21] funpow_dvd [of d step64 1 9]
    powers64 power64_9 by auto

section \<open>The steps are linear\<close>

lemma bit_unat_odd: "bit a n \<longleftrightarrow> odd (unat a div 2 ^ n)" for a :: "'a::len word"
proof -
  have "bit (unat a) n = bit a n" by (auto simp: bit_unsigned_iff dest: bit_imp_le_length)
  then show ?thesis by (simp add: bit_iff_odd [of "unat a"])
qed

lemma div_top: "u < 2 * k \<Longrightarrow> u div k = (if u < k then 0 else 1)" for u k :: nat
  by (auto intro: div_nat_eqI)

lemma high_bit8: "a < 128 \<longleftrightarrow> \<not> bit a 7" for a :: u8
proof -
  have "unat a div 128 = (if unat a < 128 then 0 else 1)" using unat_u8 [of a] by (intro div_top) simp
  moreover have "a < 128 \<longleftrightarrow> unat a < 128" by (simp add: word_less_nat_alt)
  ultimately show ?thesis by (simp add: bit_unat_odd)
qed

lemma high_bit6: "a < 64 \<Longrightarrow> a < 32 \<longleftrightarrow> \<not> bit a 5" for a :: u8
proof -
  assume "a < 64"
  then have "unat a < 64" by (simp add: word_less_nat_alt)
  then have "unat a div 32 = (if unat a < 32 then 0 else 1)" by (intro div_top) simp
  moreover have "a < 32 \<longleftrightarrow> unat a < 32" by (simp add: word_less_nat_alt)
  ultimately show ?thesis by (simp add: bit_unat_odd)
qed

lemma bit_double8: "bit (a * 2) n \<longleftrightarrow> n < 8 \<and> n \<noteq> 0 \<and> bit a (n - 1)" for a :: u8
  by (auto simp: mult.commute [of a 2] bit_double_iff dest: bit_imp_le_length)

lemma bit_step256: "bit (step256 a) n \<longleftrightarrow> n < 8 \<and> ((n \<noteq> 0 \<and> bit a (n - 1)) \<noteq> (bit a 7 \<and> bit (0x1D :: u8) n))"
  by (auto simp: step256_def high_bit8 bit_double8 bit_xor_iff dest: bit_imp_le_length)

lemma bit_step64:
  "a < 64 \<Longrightarrow> bit (step64 a) n \<longleftrightarrow> n < 8 \<and> ((n \<noteq> 0 \<and> bit a (n - 1)) \<noteq> (bit a 5 \<and> bit (0x43 :: u8) n))"
  by (auto simp: step64_def high_bit6 bit_double8 bit_xor_iff dest: bit_imp_le_length)

lemma less64: "a < 64 \<longleftrightarrow> \<not> bit a 6 \<and> \<not> bit a 7" for a :: u8
proof -
  have "bit a 6 \<longleftrightarrow> odd (unat a div 64)" by (simp add: bit_unat_odd)
  moreover have "a < 64 \<longleftrightarrow> unat a < 64" by (simp add: word_less_nat_alt)
  moreover have "unat a < 64" if "unat a < 128" "even (unat a div 64)"
  proof -
    have "unat a div 64 = (if unat a < 64 then 0 else 1)" using that(1) by (intro div_top) simp
    with that(2) show ?thesis by (simp split: if_splits)
  qed
  moreover have "a < 128 \<longleftrightarrow> unat a < 128" by (simp add: word_less_nat_alt)
  ultimately show ?thesis using high_bit8 [of a] by auto
qed

lemma u8_eqI: "(\<And>n. n < 8 \<Longrightarrow> bit a n = bit b n) \<Longrightarrow> a = b" for a b :: u8
  by (rule bit_word_eqI) auto

lemma step256_xor: "step256 (a XOR b) = step256 a XOR step256 b"
  by (rule u8_eqI) (auto simp: bit_step256 bit_xor_iff)

lemma xor64: "a < 64 \<Longrightarrow> b < 64 \<Longrightarrow> a XOR b < 64" for a b :: u8
  by (simp add: less64 bit_xor_iff)

lemma step64_xor: "a < 64 \<Longrightarrow> b < 64 \<Longrightarrow> step64 (a XOR b) = step64 a XOR step64 b"
  by (rule u8_eqI) (auto simp: bit_step64 xor64 bit_xor_iff)

lemma step64_less: "a < 64 \<Longrightarrow> step64 a < 64"
  using less64 [of a] by (simp add: less64 [of "step64 a"] bit_step64)

lemma step256_nonzero: "step256 a = 0 \<Longrightarrow> a = 0"
proof (rule u8_eqI)
  fix n :: nat assume z: "step256 a = 0" and "n < 8"
  have "\<not> bit a 7" using z bit_step256 [of a 0] by simp
  then show "bit a n = bit 0 n"
    using z bit_step256 [of a "Suc n"] \<open>n < 8\<close> by (cases "n = 7") auto
qed

lemma step64_nonzero: "a < 64 \<Longrightarrow> step64 a = 0 \<Longrightarrow> a = 0"
proof (rule u8_eqI)
  fix n :: nat assume a: "a < 64" and z: "step64 a = 0" and "n < 8"
  have "\<not> bit a 5" using z bit_step64 [OF a, of 0] by simp
  moreover have "\<not> bit a 7" using a less64 [of a] by simp
  ultimately show "bit a n = bit 0 n"
    using z bit_step64 [OF a, of "Suc n"] \<open>n < 8\<close> by (cases "n = 7") auto
qed

lemma out_bit: "push_bit 1 x AND push_bit (Suc k) 1 \<noteq> 0 \<longleftrightarrow> bit x k \<and> Suc k < 16" for x :: u16
  by (simp only: bit_iff_and_push_bit_not_eq_0 [symmetric] bit_push_bit_iff) auto

lemma bit_single: "n < 16 \<Longrightarrow> k < 16 \<Longrightarrow> bit (push_bit k 1 :: u16) n \<longleftrightarrow> n = k"
  by (simp only: bit_push_bit_iff bit_1_iff) auto

lemma bit_wide: "bit (ucast (a :: u8) :: u16) n \<longleftrightarrow> bit a n"
  by (auto simp: bit_simps dest: bit_imp_le_length)

lemma u16_eqI: "(\<And>n. n < 16 \<Longrightarrow> bit a n = bit b n) \<Longrightarrow> a = b" for a b :: u16
  by (rule bit_word_eqI) auto

lemma next_power_bits:
  assumes "n < 16" "Suc k < 16" and low: "\<And>m. bit (lo :: u8) m \<Longrightarrow> m \<le> k" and a: "\<And>m. bit a m \<Longrightarrow> m \<le> k"
  shows "bit (next_power (push_bit (Suc k) 1) (ucast lo) (ucast (a :: u8))) n \<longleftrightarrow>
    n \<le> k \<and> ((n \<noteq> 0 \<and> bit a (n - 1)) \<noteq> (bit a k \<and> bit lo n))"
proof -
  define y where "y = push_bit 1 (ucast a :: u16)"
  define h :: u16 where "h = push_bit (Suc k) 1"
  have "bit y n \<longleftrightarrow> n \<noteq> 0 \<and> bit a (n - 1)"
    using assms(1) unfolding y_def by (simp only: bit_push_bit_iff bit_wide) auto
  moreover have "y AND h \<noteq> 0 \<longleftrightarrow> bit a k"
    using assms(2) unfolding y_def h_def by (simp only: out_bit bit_wide simp_thms)
  moreover have "bit h n \<longleftrightarrow> n = Suc k"
    using assms(1,2) unfolding h_def by (rule bit_single)
  moreover have "n \<le> k" if "bit a (n - 1)" "n \<noteq> Suc k" using a [OF that(1)] that(2) by simp
  ultimately show ?thesis
    using low [of n] unfolding next_power_def Let_def y_def [symmetric] h_def [symmetric]
    by (auto simp: bit_xor_iff bit_or_iff bit_wide)
qed

lemma next_power256: "next_power 0x100 (ucast (0x1D :: u8)) (ucast a) = ucast (step256 a)"
proof (rule u16_eqI)
  fix n :: nat assume "n < 16"
  have hi: "(0x100 :: u16) = push_bit (Suc 7) 1" by simp
  show "bit (next_power 0x100 (ucast (0x1D :: u8)) (ucast a)) n = bit (ucast (step256 a) :: u16) n"
    unfolding hi bit_wide bit_step256
    by (subst next_power_bits) (use \<open>n < 16\<close> in \<open>auto dest: bit_imp_le_length\<close>)
qed

lemma next_power64: "a < 64 \<Longrightarrow> next_power 0x40 0x03 (ucast a) = ucast (step64 a)"
proof (rule u16_eqI)
  fix n :: nat assume a: "a < 64" and "n < 16"
  have hi: "(0x40 :: u16) = push_bit (Suc 5) 1" and lo: "(0x03 :: u16) = ucast (0x03 :: u8)" by simp_all
  have low: "bit a m \<Longrightarrow> m \<le> 5" for m
    using a less64 [of a] bit_imp_le_length [of a m] by (cases "m = 6"; cases "m = 7") auto
  have split: "(0x43 :: u8) = push_bit 6 1 OR 0x03" by simp
  have poly: "bit (0x43 :: u8) n \<longleftrightarrow> n = 6 \<or> bit (0x03 :: u8) n" if "n < 8"
    unfolding split bit_or_iff using that by (simp only: bit_push_bit_iff bit_1_iff) auto
  have "bit (0x03 :: u8) m \<Longrightarrow> m \<le> 5" for m
  proof (rule ccontr)
    assume "bit (0x03 :: u8) m" "\<not> m \<le> 5"
    then have "(64 :: nat) \<le> 2 ^ m" using power_increasing [of 6 m "2 :: nat"] by simp
    with \<open>bit (0x03 :: u8) m\<close> show False by (simp add: bit_unat_odd)
  qed
  note low03 = this
  have six: "n \<le> 5 \<or> n = 6 \<or> n = 7 \<or> 8 \<le> n" by arith
  have "n - 1 = 6 \<Longrightarrow> \<not> bit a (n - 1)" using low [of "n - 1"] by auto
  show "bit (next_power 0x40 0x03 (ucast a)) n = bit (ucast (step64 a) :: u16) n"
    unfolding hi lo bit_wide bit_step64 [OF a]
    by (subst next_power_bits [OF \<open>n < 16\<close> _ low03 low])
      (use six low03 [of n] low [of "n - 1"] poly in \<open>auto simp del: bit_numeral_word_iff\<close>)
qed

interpretation cycle256: table_code step256 255 UNIV "0x100" "ucast (0x1D :: u8)"
proof unfold_locales
  show "next_power 0x100 (ucast (0x1D :: u8)) (ucast a) = ucast (step256 a)" for a by (rule next_power256)
  show "step256 (a XOR b) = step256 a XOR step256 b" for a b by (rule step256_xor)
  show "(step256 ^^ 255) 1 = 1" by (rule powers256)
  show "(step256 ^^ d) 1 \<noteq> 1" if "0 < d" "d < 255" "d dvd 255" for d using no_shorter256 that by blast
  show "unat (a :: u8) \<le> 255" for a using unat_u8 [of a] by linarith
  show "card (UNIV :: u8 set) = Suc 255" by (simp add: card_word)
qed (auto dest: step256_nonzero)

interpretation cycle64: table_code step64 63 symbols64 "0x40" "0x03"
proof unfold_locales
  show "next_power 0x40 0x03 (ucast a) = ucast (step64 a)" if "a \<in> symbols64" for a
    using that next_power64 by (simp add: symbols64_def)
  show "(step64 ^^ 63) 1 = 1" by (rule powers64)
  show "(step64 ^^ d) 1 \<noteq> 1" if "0 < d" "d < 63" "d dvd 63" for d using no_shorter64 that by blast
  have "symbols64 = word_of_nat ` {..<64}"
    by (auto simp: symbols64_def word_less_nat_alt unat_of_nat intro!: image_eqI [of _ _ "unat _"])
  moreover have "inj_on (word_of_nat :: nat \<Rightarrow> u8) {..<64}"
    by (rule inj_on_inverseI [of _ unat]) (simp add: unat_of_nat)
  ultimately have "card symbols64 = card {..<64 :: nat}" by (metis card_image)
  then show "card symbols64 = Suc 63" by simp
  show "unat a \<le> 63" if "a \<in> symbols64" for a using that by (simp add: symbols64_def word_less_nat_alt)
qed (auto simp: symbols64_def step64_xor step64_less xor64 dest: step64_nonzero)

interpretation log256: log_tables step256 "build_tables 0x1D" UNIV
  unfolding build_tables_def by (rule cycle256.fill_tables_ok)

interpretation log64: log_tables step64 gf64_new symbols64
  unfolding gf64_new_def by (rule cycle64.fill_tables_ok)

section \<open>The fields as types\<close>

typedef gf256 = "UNIV :: u8 set" by simp

setup_lifting type_definition_gf256

instantiation gf256 :: field
begin

lift_definition zero_gf256 :: gf256 is 0 .
lift_definition one_gf256 :: gf256 is 1 .
lift_definition plus_gf256 :: "gf256 \<Rightarrow> gf256 \<Rightarrow> gf256" is "(XOR)" .
lift_definition minus_gf256 :: "gf256 \<Rightarrow> gf256 \<Rightarrow> gf256" is "(XOR)" .
lift_definition uminus_gf256 :: "gf256 \<Rightarrow> gf256" is "\<lambda>a. a" .
lift_definition times_gf256 :: "gf256 \<Rightarrow> gf256 \<Rightarrow> gf256" is "gf_mul (build_tables 0x1D)" .
lift_definition inverse_gf256 :: "gf256 \<Rightarrow> gf256" is "\<lambda>a. if a = 0 then 0 else gf_inv (build_tables 0x1D) a" .
lift_definition divide_gf256 :: "gf256 \<Rightarrow> gf256 \<Rightarrow> gf256" is
  "\<lambda>a b. gf_mul (build_tables 0x1D) a (if b = 0 then 0 else gf_inv (build_tables 0x1D) b)" .

instance
proof
  fix a b c :: gf256
  show "a * b * c = a * (b * c)" by transfer (simp add: log256.mul_assoc)
  show "a * b = b * a" by transfer (rule log256.mul_comm)
  show "1 * a = a" by transfer (simp add: log256.mul_1)
  show "(a + b) * c = a * c + b * c" by transfer (simp add: log256.xor_mul)
  show "a \<noteq> 0 \<Longrightarrow> inverse a * a = 1" by transfer (simp add: log256.inv_mul)
  show "a + b + c = a + (b + c)" by transfer (rule xor.assoc)
  show "a + b = b + a" by transfer (rule xor.commute)
  show "a div b = a * inverse b" by transfer (rule refl)
qed (transfer, simp)+

end

typedef gf64 = "symbols64" using cycle64.K01(1) by blast

setup_lifting type_definition_gf64

instantiation gf64 :: field
begin

lift_definition zero_gf64 :: gf64 is 0 by (rule cycle64.K01)
lift_definition one_gf64 :: gf64 is 1 by (rule cycle64.K01)
lift_definition plus_gf64 :: "gf64 \<Rightarrow> gf64 \<Rightarrow> gf64" is "(XOR)" by (rule cycle64.K_xor)
lift_definition minus_gf64 :: "gf64 \<Rightarrow> gf64 \<Rightarrow> gf64" is "(XOR)" by (rule cycle64.K_xor)
lift_definition uminus_gf64 :: "gf64 \<Rightarrow> gf64" is "\<lambda>a. a" .
lift_definition times_gf64 :: "gf64 \<Rightarrow> gf64 \<Rightarrow> gf64" is "gf_mul gf64_new" by (rule log64.mul_K)
lift_definition inverse_gf64 :: "gf64 \<Rightarrow> gf64" is "\<lambda>a. if a = 0 then 0 else gf_inv gf64_new a"
  using log64.inv_K cycle64.K01 by simp
lift_definition divide_gf64 :: "gf64 \<Rightarrow> gf64 \<Rightarrow> gf64" is
  "\<lambda>a b. gf_mul gf64_new a (if b = 0 then 0 else gf_inv gf64_new b)"
  using log64.inv_K cycle64.K01 by (simp add: log64.mul_K)

instance
proof
  fix a b c :: gf64
  show "a * b * c = a * (b * c)" by transfer (rule log64.mul_assoc)
  show "a * b = b * a" by transfer (rule log64.mul_comm)
  show "1 * a = a" by transfer (rule log64.mul_1)
  show "(a + b) * c = a * c + b * c" by transfer (rule log64.xor_mul)
  show "a \<noteq> 0 \<Longrightarrow> inverse a * a = 1" by transfer (simp add: log64.inv_mul)
  show "a + b + c = a + (b + c)" by transfer (rule xor.assoc)
  show "a + b = b + a" by transfer (rule xor.commute)
  show "a div b = a * inverse b" by transfer (rule refl)
qed (transfer, simp)+

end

section \<open>Symbols as field elements\<close>

text \<open>What the decoder's correctness asks of the tables: they compute in a field.\<close>

locale gf_rep = log_tables step g K for step g K +
  fixes rep :: "u8 \<Rightarrow> 'f::field"
  assumes rep_0 [simp]: "rep 0 = 0" and rep_1 [simp]: "rep 1 = 1"
    and rep_xor: "a \<in> K \<Longrightarrow> b \<in> K \<Longrightarrow> rep (a XOR b) = rep a + rep b"
    and rep_mul: "a \<in> K \<Longrightarrow> b \<in> K \<Longrightarrow> rep (gf_mul g a b) = rep a * rep b"
    and rep_inj: "a \<in> K \<Longrightarrow> b \<in> K \<Longrightarrow> rep a = rep b \<Longrightarrow> a = b"
    and rep_onto: "\<exists>a\<in>K. rep a = y"

definition rep256 :: "u8 \<Rightarrow> gf256" where "rep256 = Abs_gf256"
definition rep64 :: "u8 \<Rightarrow> gf64" where "rep64 = Abs_gf64"

interpretation rep256: gf_rep step256 "build_tables 0x1D" UNIV rep256
  by unfold_locales
    (simp_all add: rep256_def zero_gf256_def one_gf256_def plus_gf256.abs_eq times_gf256.abs_eq
      Abs_gf256_inject, metis Abs_gf256_cases)

interpretation rep64: gf_rep step64 gf64_new symbols64 rep64
proof unfold_locales
  show "\<exists>a\<in>symbols64. rep64 a = y" for y unfolding rep64_def by (metis Abs_gf64_cases)
qed (simp_all add: rep64_def zero_gf64_def one_gf64_def plus_gf64.abs_eq times_gf64.abs_eq
      Abs_gf64_inject eq_onp_same_args)

end
