(* ===== verification/ReedMath.thy ===== *)
theory ReedMath
  imports Main
begin

text \<open>
  The algebra behind Reed--Solomon decoding, over an arbitrary field: linear recurrences and the
  Berlekamp--Massey step, the Vandermonde argument, error locators and Forney's formula. A
  polynomial is its sequence of coefficients. Nothing here mentions the program.
\<close>

section \<open>Linear recurrences\<close>

definition disc :: "(nat \<Rightarrow> 'a::field) \<Rightarrow> (nat \<Rightarrow> 'a) \<Rightarrow> nat \<Rightarrow> 'a" where
  "disc C S i = (\<Sum>k\<le>i. C k * S (i - k))"

text \<open>\<open>C\<close> is a recurrence of length \<open>l\<close> for the first \<open>n\<close> terms of \<open>S\<close>.\<close>

definition generates :: "(nat \<Rightarrow> 'a::field) \<Rightarrow> (nat \<Rightarrow> 'a) \<Rightarrow> nat \<Rightarrow> nat \<Rightarrow> bool" where
  "generates S C l n \<longleftrightarrow> C 0 = 1 \<and> (\<forall>k>l. C k = 0) \<and> (\<forall>i. l \<le> i \<longrightarrow> i < n \<longrightarrow> disc C S i = 0)"

lemma disc_short:
  assumes "\<forall>k>l. C k = 0" "l \<le> i"
  shows "disc C S i = (\<Sum>k\<le>l. C k * S (i - k))"
  unfolding disc_def by (rule sum.mono_neutral_right) (use assms in auto)

lemma generates_less: "generates S C l n \<Longrightarrow> m \<le> n \<Longrightarrow> generates S C l m"
  by (auto simp: generates_def)

lemma generates_Suc:
  "generates S C l (Suc n) \<longleftrightarrow> generates S C l n \<and> (l \<le> n \<longrightarrow> disc C S n = 0)"
  by (auto simp: generates_def less_Suc_eq)

text \<open>Massey's bound on the length of a recurrence that repairs a wrong prediction.\<close>

lemma massey_bound:
  assumes C: "generates S C L r" and wrong: "disc C S r \<noteq> 0" and D: "generates S D l (Suc r)"
  shows "Suc r \<le> L + l"
proof (rule ccontr)
  assume "\<not> Suc r \<le> L + l"
  then have le: "L + l \<le> r" by simp
  define E where "E = (\<Sum>k\<le>L. \<Sum>j\<le>l. C k * D j * S (r - k - j))"
  have rows: "(\<Sum>j\<le>l. C k * D j * S (r - k - j)) = C k * disc D S (r - k)" if "k \<le> L" for k
    using D le that by (subst disc_short [of l]) (auto simp: generates_def sum_distrib_left mult.assoc)
  have "E = (\<Sum>k\<le>L. C k * disc D S (r - k))"
    unfolding E_def by (rule sum.cong) (simp_all only: rows atMost_iff)
  moreover have "disc D S (r - k) = 0" if "k \<le> L" for k
    using D le that by (auto simp: generates_def)
  ultimately have "E = 0" by simp
  have "E = (\<Sum>j\<le>l. \<Sum>k\<le>L. C k * D j * S (r - k - j))" unfolding E_def by (rule sum.swap)
  also have "\<dots> = (\<Sum>j\<le>l. D j * disc C S (r - j))"
  proof (rule sum.cong)
    fix j assume "j \<in> {..l}"
    then show "(\<Sum>k\<le>L. C k * D j * S (r - k - j)) = D j * disc C S (r - j)"
      using C le by (subst disc_short [of L])
        (auto simp: generates_def sum_distrib_left mult_ac add.commute intro!: sum.cong)
  qed simp
  also have "\<dots> = (\<Sum>j\<le>l. if j = 0 then disc C S r else 0)"
  proof (rule sum.cong)
    fix j assume "j \<in> {..l}"
    then show "D j * disc C S (r - j) = (if j = 0 then disc C S r else 0)"
      using C D le by (cases "j = 0") (auto simp: generates_def)
  qed simp
  also have "\<dots> = disc C S r" by simp
  finally show False using \<open>E = 0\<close> wrong by simp
qed

section \<open>The Berlekamp--Massey step\<close>

definition correct_by :: "(nat \<Rightarrow> 'a::field) \<Rightarrow> 'a \<Rightarrow> nat \<Rightarrow> (nat \<Rightarrow> 'a) \<Rightarrow> nat \<Rightarrow> 'a" where
  "correct_by C c m B k = C k - c * (if m \<le> k then B (k - m) else 0)"

lemma disc_correct_by:
  "disc (correct_by C c m B) S i = disc C S i - c * (if m \<le> i then disc B S (i - m) else 0)"
proof -
  have "(\<Sum>k\<le>i. (if m \<le> k then B (k - m) else 0) * S (i - k)) = (if m \<le> i then disc B S (i - m) else 0)"
  proof (cases "m \<le> i")
    case True
    have "(\<Sum>k\<le>i. (if m \<le> k then B (k - m) else 0) * S (i - k))
        = (\<Sum>k\<in>{m..i}. B (k - m) * S (i - k))"
      by (rule sum.mono_neutral_cong_right) auto
    also have "\<dots> = (\<Sum>k\<le>i - m. B k * S (i - m - k))"
      by (rule sum.reindex_bij_witness [of _ "\<lambda>k. k + m" "\<lambda>k. k - m"]) (use True in auto)
    finally show ?thesis using True by (simp add: disc_def)
  qed (auto intro!: sum.neutral)
  then show ?thesis
    by (simp only: disc_def [of "correct_by C c m B"] disc_def [of C] correct_by_def left_diff_distrib sum_subtractf
        sum_distrib_left [symmetric] mult.assoc)
qed

text \<open>
  After \<open>r\<close> terms: \<open>C\<close> is a shortest recurrence, \<open>B\<close> the one before the last change of length,
  which failed \<open>m\<close> terms ago by \<open>b\<close>.
\<close>

definition massey_state ::
  "(nat \<Rightarrow> 'a::field) \<Rightarrow> nat \<Rightarrow> nat \<Rightarrow> (nat \<Rightarrow> 'a) \<Rightarrow> nat \<Rightarrow> 'a \<Rightarrow> (nat \<Rightarrow> 'a) \<Rightarrow> bool" where
  "massey_state S r L C m b B \<longleftrightarrow>
     generates S C L r \<and> L \<le> r \<and> (\<forall>D l. generates S D l r \<longrightarrow> L \<le> l) \<and> b \<noteq> 0 \<and> 1 \<le> m \<and>
     (L = 0 \<and> B = (\<lambda>k. if k = 0 then 1 else 0) \<and> m = Suc r \<or>
      m \<le> r \<and> L \<le> Suc r - m \<and> generates S B (Suc r - m - L) (r - m) \<and> disc B S (r - m) = b)"

lemma massey_start: "massey_state S 0 0 (\<lambda>k. if k = 0 then 1 else 0) 1 1 (\<lambda>k. if k = 0 then 1 else 0)"
  by (auto simp: massey_state_def generates_def)

lemma massey_shortest: "massey_state S r L C m b B \<Longrightarrow> generates S D l r \<Longrightarrow> L \<le> l"
  by (simp add: massey_state_def)

lemma massey_generates: "massey_state S r L C m b B \<Longrightarrow> generates S C L r \<and> L \<le> r"
  by (simp add: massey_state_def)

lemma massey_right:
  assumes "massey_state S r L C m b B" "disc C S r = 0"
  shows "massey_state S (Suc r) L C (Suc m) b B"
  using assms by (auto simp: massey_state_def generates_Suc)

lemma massey_wrong_bound:
  assumes "massey_state S r L C m b B" "disc C S r \<noteq> 0" "generates S D l (Suc r)"
  shows "max L (Suc r - L) \<le> l"
  using massey_bound [of S C L r D l] assms generates_less [of S D l "Suc r" r]
  by (fastforce simp: massey_state_def)

text \<open>The last coefficient that the correction touches.\<close>

lemma massey_reach:
  assumes "massey_state S r L C m b B" "B k \<noteq> 0"
  shows "k + m \<le> Suc r - L"
proof -
  from assms consider "L = 0" "B = (\<lambda>k. if k = 0 then 1 else 0)" "m = Suc r"
    | "m \<le> r" "L \<le> Suc r - m" "generates S B (Suc r - m - L) (r - m)" by (auto simp: massey_state_def)
  then show ?thesis
  proof cases
    case 1
    with assms(2) show ?thesis by (simp split: if_splits)
  next
    case 2
    with assms(2) have "k \<le> Suc r - m - L" unfolding generates_def by (meson not_le)
    with 2 show ?thesis by simp
  qed
qed

lemma massey_corrected:
  assumes st: "massey_state S r L C m b B" and wrong: "disc C S r \<noteq> 0"
  defines "C' \<equiv> correct_by C (disc C S r / b) m B"
  shows "generates S C' (max L (Suc r - L)) (Suc r)"
proof -
  define L' where "L' = max L (Suc r - L)"
  from st have C: "generates S C L r" and "L \<le> r" "b \<noteq> 0" "1 \<le> m" by (auto simp: massey_state_def)
  have "C' 0 = 1" using C \<open>1 \<le> m\<close> by (simp add: C'_def correct_by_def generates_def)
  moreover have "C' k = 0" if "L' < k" for k
  proof -
    have "B (k - m) = 0" if "m \<le> k"
      using massey_reach [OF st, of "k - m"] \<open>L' < k\<close> that by (auto simp: L'_def)
    moreover have "C k = 0" using C that by (auto simp: generates_def L'_def)
    ultimately show ?thesis by (simp add: C'_def correct_by_def)
  qed
  moreover have "disc C' S i = 0" if "L' \<le> i" "i < Suc r" for i
  proof -
    from st consider "L = 0" "m = Suc r"
      | "m \<le> r" "L \<le> Suc r - m" "generates S B (Suc r - m - L) (r - m)" "disc B S (r - m) = b"
      by (auto simp: massey_state_def)
    then show ?thesis
    proof cases
      case 1
      with that show ?thesis by (simp add: L'_def)
    next
      case 2
      have "m \<le> i" "Suc r - m - L \<le> i - m" using that 2 by (auto simp: L'_def)
      moreover have "disc C S i = 0" if "i \<noteq> r"
        using C \<open>L' \<le> i\<close> \<open>i < Suc r\<close> that by (auto simp: generates_def L'_def)
      moreover have "disc B S (i - m) = 0" if "i \<noteq> r"
        using 2 \<open>i < Suc r\<close> that calculation(1,2) by (auto simp: generates_def)
      ultimately show ?thesis using 2 \<open>b \<noteq> 0\<close>
        by (cases "i = r") (simp_all add: C'_def disc_correct_by)
    qed
  qed
  ultimately show ?thesis unfolding generates_def L'_def by blast
qed

lemma massey_longer:
  assumes st: "massey_state S r L C m b B" and wrong: "disc C S r \<noteq> 0" and "2 * L \<le> r"
  shows "massey_state S (Suc r) (Suc r - L) (correct_by C (disc C S r / b) m B) 1 (disc C S r) C"
proof -
  from assms(3) have L: "max L (Suc r - L) = Suc r - L" by simp
  from massey_corrected [OF st wrong] massey_wrong_bound [OF st wrong] st wrong assms(3) show ?thesis
    unfolding L by (auto simp: massey_state_def)
qed

lemma massey_same:
  assumes st: "massey_state S r L C m b B" and wrong: "disc C S r \<noteq> 0" and "\<not> 2 * L \<le> r"
  shows "massey_state S (Suc r) L (correct_by C (disc C S r / b) m B) (Suc m) b B"
proof -
  from assms(3) have L: "max L (Suc r - L) = L" by simp
  from massey_corrected [OF st wrong] massey_wrong_bound [OF st wrong] st wrong assms(3) show ?thesis
    unfolding L by (auto simp: massey_state_def)
qed

section \<open>Vandermonde\<close>

lemma vandermonde:
  fixes w :: "'a::field \<Rightarrow> 'a"
  assumes "finite A" "\<And>k. k < card A \<Longrightarrow> (\<Sum>x\<in>A. w x * x ^ k) = 0" "x \<in> A"
  shows "w x = 0"
  using assms
proof (induction arbitrary: w x)
  case (insert a A)
  have "w y * (y - a) = 0" if "y \<in> A" for y
  proof (rule insert.IH [OF _ that])
    fix k assume k: "k < card A"
    have "(\<Sum>x\<in>A. w x * (x - a) * x ^ k)
        = (\<Sum>x\<in>insert a A. w x * x ^ Suc k) - a * (\<Sum>x\<in>insert a A. w x * x ^ k)"
      using insert.hyps
      by (simp add: sum_distrib_left sum_subtractf [symmetric] algebra_simps)
    also have "\<dots> = 0"
      using insert.prems(1) [of k] insert.prems(1) [of "Suc k"] insert.hyps k by (simp del: power_Suc)
    finally show "(\<Sum>x\<in>A. w x * (x - a) * x ^ k) = 0" .
  qed
  then have rest: "w y = 0" if "y \<in> A" for y
    using that insert.hyps by (metis eq_iff_diff_eq_0 mult_eq_0_iff)
  moreover have "w a = 0"
    using insert.prems(1) [of 0] insert.hyps rest by (simp add: sum.neutral)
  ultimately show ?case using insert.prems(2) by blast
qed simp

section \<open>Division by a root\<close>

definition deflate :: "(nat \<Rightarrow> 'a::field) \<Rightarrow> 'a \<Rightarrow> nat \<Rightarrow> 'a" where
  "deflate C x i = (\<Sum>k\<le>i. C k * x ^ (i - k))"

lemma deflate_0 [simp]: "deflate C x 0 = C 0"
  by (simp add: deflate_def)

lemma deflate_Suc: "deflate C x (Suc i) = C (Suc i) + x * deflate C x i"
  by (simp add: deflate_def sum_distrib_left Suc_diff_le mult_ac)

lemma deflate_eval: "(1 - x * z) * (\<Sum>i<n. deflate C x i * z ^ i) = (\<Sum>i\<le>n. C i * z ^ i) - deflate C x n * z ^ n"
proof (induction n)
  case (Suc n)
  then show ?case by (simp add: distrib_left deflate_Suc) (simp add: algebra_simps)
qed simp

lemma deflate_last:
  "x \<noteq> 0 \<Longrightarrow> deflate C x n = x ^ n * (\<Sum>k\<le>n. C k * inverse x ^ k)"
  by (simp add: deflate_def sum_distrib_left power_diff power_inverse field_simps)

lemma deflate_root:
  assumes "x \<noteq> 0" "(\<Sum>k\<le>n. C k * inverse x ^ k) = 0"
  shows "(1 - x * z) * (\<Sum>i<n. deflate C x i * z ^ i) = (\<Sum>i\<le>n. C i * z ^ i)"
  using deflate_eval [of x z C n] deflate_last [OF assms(1), of C n] assms(2) by simp

text \<open>A polynomial of degree \<open>n\<close> has at most \<open>n\<close> roots; they are given by their inverses here.\<close>

lemma root_bound:
  fixes C :: "nat \<Rightarrow> 'a::field"
  assumes "finite X" "0 \<notin> X" "\<And>x. x \<in> X \<Longrightarrow> (\<Sum>k\<le>n. C k * inverse x ^ k) = 0" "n < card X" "k \<le> n"
  shows "C k = 0"
  using assms
proof (induction n arbitrary: X C k)
  case 0
  then obtain x where "x \<in> X" by fastforce
  from 0(3) [OF this] 0(5) show ?case by simp
next
  case (Suc n)
  from Suc.prems(4) obtain a where a: "a \<in> X" by fastforce
  then have "a \<noteq> 0" using Suc.prems by auto
  note root = deflate_root [OF \<open>a \<noteq> 0\<close> Suc.prems(3) [OF a]]
  have "deflate C a i = 0" if "i \<le> n" for i
  proof (rule Suc.IH [of "X - {a}"])
    fix x assume x: "x \<in> X - {a}"
    then have "x \<noteq> 0" "1 - a * inverse x \<noteq> 0" using Suc.prems(2) by (auto simp: field_simps)
    with root [of "inverse x"] Suc.prems(3) [of x] x
    show "(\<Sum>i\<le>n. deflate C a i * inverse x ^ i) = 0" by (simp add: lessThan_Suc_atMost)
  next
    show "n < card (X - {a})" using Suc.prems(1,4) a by (simp add: card_Diff_singleton)
  qed (use Suc.prems that in auto)
  moreover have "deflate C a (Suc n) = 0"
    using deflate_last [OF \<open>a \<noteq> 0\<close>, of C "Suc n"] Suc.prems(3) [OF a] by simp
  ultimately have "deflate C a i = 0" if "i \<le> Suc n" for i using that by (metis le_SucE)
  note deflated = this
  show ?case
  proof (cases k)
    case (Suc j)
    with deflated [of j] deflated [of "Suc j"] Suc.prems(5) deflate_Suc [of C a j] show ?thesis by simp
  qed (use deflated [of 0] in simp)
qed

section \<open>Syndromes and the error locator\<close>

text \<open>Errors \<open>Y x\<close> at the locators \<open>x \<in> X\<close>, seen through \<open>N\<close> syndromes from the power \<open>f\<close> on.\<close>

definition syndromes :: "'a::field set \<Rightarrow> ('a \<Rightarrow> 'a) \<Rightarrow> nat \<Rightarrow> nat \<Rightarrow> 'a" where
  "syndromes X Y f i = (\<Sum>x\<in>X. Y x * x ^ (f + i))"

lemma disc_syndromes:
  "disc C (syndromes X Y f) i = (\<Sum>x\<in>X. Y x * x ^ f * deflate C x i)"
proof -
  have "disc C (syndromes X Y f) i = (\<Sum>k\<le>i. \<Sum>x\<in>X. C k * (Y x * x ^ (f + (i - k))))"
    by (simp add: disc_def syndromes_def sum_distrib_left)
  also have "\<dots> = (\<Sum>x\<in>X. \<Sum>k\<le>i. C k * (Y x * x ^ (f + (i - k))))" by (rule sum.swap)
  also have "\<dots> = (\<Sum>x\<in>X. Y x * x ^ f * deflate C x i)"
    unfolding deflate_def sum_distrib_left power_add by (intro sum.cong refl) (simp only: mult_ac)
  finally show ?thesis .
qed

lemma deflate_beyond:
  assumes "\<forall>k>l. C k = 0" "l \<le> i"
  shows "deflate C x i = x ^ (i - l) * deflate C x l"
  using assms(2)
proof (induction i)
  case (Suc i)
  show ?case
  proof (cases "l = Suc i")
    case False
    with Suc assms(1) show ?thesis by (simp add: deflate_Suc Suc_diff_le mult.assoc)
  qed simp
qed simp

text \<open>A polynomial of degree \<open>n\<close> with constant term 1 and the inverses of \<open>X\<close> as roots exists.\<close>

lemma locator_exists:
  "finite X \<Longrightarrow> 0 \<notin> X \<Longrightarrow>
     \<exists>C. C 0 = 1 \<and> (\<forall>k>card X. C k = 0) \<and> (\<forall>x\<in>X. (\<Sum>k\<le>card X. C k * inverse x ^ k) = (0::'a::field))"
proof (induction rule: finite_induct)
  case empty
  show ?case by (rule exI [of _ "\<lambda>k. if k = 0 then 1 else 0"]) simp
next
  case (insert a X)
  then obtain C where C: "C 0 = 1" "\<forall>k>card X. C k = 0" "\<forall>x\<in>X. (\<Sum>k\<le>card X. C k * inverse x ^ k) = 0"
    by auto
  define D where "D k = C k - (case k of 0 \<Rightarrow> 0 | Suc j \<Rightarrow> a * C j)" for k
  have eval: "(\<Sum>k\<le>Suc n. D k * z ^ k) = (1 - a * z) * (\<Sum>k\<le>n. C k * z ^ k) + C (Suc n) * z ^ Suc n" for n z
  proof (induction n)
    case 0
    show ?case by (simp add: D_def algebra_simps)
  next
    case (Suc n)
    show ?case unfolding sum.atMost_Suc [of _ "Suc n"] Suc by (simp add: D_def algebra_simps)
  qed
  have "(\<Sum>k\<le>Suc (card X). D k * inverse x ^ k) = 0" if "x \<in> insert a X" for x
    using that C(2,3) insert.prems unfolding eval by auto
  then have "D 0 = 1 \<and> (\<forall>k>card (insert a X). D k = 0) \<and>
      (\<forall>x\<in>insert a X. (\<Sum>k\<le>card (insert a X). D k * inverse x ^ k) = 0)"
    using C(1,2) insert.hyps by (auto simp: D_def split: nat.splits)
  then show ?case by blast
qed

lemma locator_generates:
  assumes "0 \<notin> X" "C 0 = 1" "\<forall>k>l. C k = 0" "\<And>x. x \<in> X \<Longrightarrow> (\<Sum>k\<le>l. C k * inverse x ^ k) = 0"
  shows "generates (syndromes X Y f) C l n"
proof -
  have "disc C (syndromes X Y f) i = 0" if "l \<le> i" for i
    unfolding disc_syndromes
  proof (rule sum.neutral, rule ballI)
    fix x assume "x \<in> X"
    then have "x \<noteq> 0" using assms(1) by auto
    with deflate_last [OF this, of C l] assms(4) [OF \<open>x \<in> X\<close>] have "deflate C x l = 0" by simp
    then show "Y x * x ^ f * deflate C x i = 0" by (simp add: deflate_beyond [OF assms(3) that])
  qed
  with assms show ?thesis by (simp add: generates_def)
qed

text \<open>A short enough recurrence of the syndromes has its roots at the error positions.\<close>

lemma recurrence_locates:
  assumes "finite X" "0 \<notin> X" "\<And>x. x \<in> X \<Longrightarrow> Y x \<noteq> 0" "generates (syndromes X Y f) C l n"
    "l + card X \<le> n" "x \<in> X"
  shows "(\<Sum>k\<le>l. C k * inverse x ^ k) = 0"
proof -
  have C: "\<forall>k>l. C k = 0" using assms(4) by (simp add: generates_def)
  define w where "w x = Y x * x ^ f * deflate C x l" for x
  have "w x = 0"
  proof (rule vandermonde [OF assms(1) _ assms(6)])
    fix k assume "k < card X"
    then have "disc C (syndromes X Y f) (l + k) = 0" using assms(4,5) by (simp add: generates_def)
    moreover have "disc C (syndromes X Y f) (l + k) = (\<Sum>x\<in>X. w x * x ^ k)"
      by (simp add: disc_syndromes w_def deflate_beyond [OF C le_add1]) (simp only: mult_ac)
    ultimately show "(\<Sum>x\<in>X. w x * x ^ k) = 0" by simp
  qed
  moreover have "x \<noteq> 0" "Y x \<noteq> 0" using assms by auto
  ultimately have "deflate C x l = 0" by (simp add: w_def)
  with \<open>x \<noteq> 0\<close> deflate_last [OF \<open>x \<noteq> 0\<close>, of C l] show ?thesis by simp
qed

section \<open>Forney's formula\<close>

lemma sum_partial_sums:
  fixes a :: "nat \<Rightarrow> 'a::field"
  shows "(\<Sum>i<n. \<Sum>k\<le>i. a k) = of_nat n * (\<Sum>k\<le>n. a k) - (\<Sum>k\<le>n. of_nat k * a k)"
  by (induction n) (simp_all add: algebra_simps)

lemma deflate_at_root:
  fixes x :: "'a::field"
  assumes "x \<noteq> 0" "(\<Sum>k\<le>n. C k * inverse x ^ k) = 0"
  shows "(\<Sum>i<n. deflate C x i * inverse x ^ i) = - (\<Sum>k\<le>n. of_nat k * (C k * inverse x ^ k))"
proof -
  have "deflate C x i * inverse x ^ i = (\<Sum>k\<le>i. C k * inverse x ^ k)" for i
    using assms(1) by (simp add: deflate_last field_simps)
  then show ?thesis using assms(2) by (simp add: sum_partial_sums)
qed

lemma forney_denominator:
  fixes C :: "nat \<Rightarrow> 'a::field"
  assumes "finite X" "0 \<notin> X" "C 0 = 1" "\<And>x. x \<in> X \<Longrightarrow> (\<Sum>k\<le>card X. C k * inverse x ^ k) = 0" "x \<in> X"
  shows "(\<Sum>k\<le>card X. of_nat k * (C k * inverse x ^ k)) \<noteq> 0"
proof
  assume zero: "(\<Sum>k\<le>card X. of_nat k * (C k * inverse x ^ k)) = 0"
  have "x \<noteq> 0" using assms by auto
  obtain n where n: "card X = Suc n" using assms(1,5) by (metis card_0_eq empty_iff not0_implies_Suc)
  have "deflate C x 0 = 0"
  proof (rule root_bound [where n = n and X = X])
    fix y assume "y \<in> X"
    show "(\<Sum>k\<le>n. deflate C x k * inverse y ^ k) = 0"
    proof (cases "y = x")
      case True
      have "(\<Sum>i<card X. deflate C x i * inverse x ^ i) = 0"
        by (simp only: deflate_at_root [OF \<open>x \<noteq> 0\<close> assms(4) [OF assms(5)]] zero minus_zero)
      with True n show ?thesis by (simp only: lessThan_Suc_atMost)
    next
      case False
      have "y \<noteq> 0" using \<open>y \<in> X\<close> assms(2) by auto
      with False have "1 - x * inverse y \<noteq> 0" by (simp add: field_simps)
      with deflate_root [OF \<open>x \<noteq> 0\<close> assms(4) [OF assms(5)], of "inverse y"] assms(4) [OF \<open>y \<in> X\<close>] n
      show ?thesis by (simp add: lessThan_Suc_atMost)
    qed
  qed (use assms n in auto)
  with assms(3) show False by simp
qed

lemma forney_numerator:
  assumes "finite X" "0 \<notin> X" "\<And>x. x \<in> X \<Longrightarrow> (\<Sum>k\<le>card X. C k * inverse x ^ k) = 0" "x \<in> X"
  shows "(\<Sum>i<card X. disc C (syndromes X Y f) i * inverse x ^ i)
     = - (Y x * x ^ f * (\<Sum>k\<le>card X. of_nat k * (C k * inverse x ^ k)))"
proof -
  define q where "q y = (\<Sum>i<card X. deflate C y i * inverse x ^ i)" for y
  have x: "x \<noteq> 0" using assms by auto
  have "(\<Sum>i<card X. disc C (syndromes X Y f) i * inverse x ^ i)
      = (\<Sum>i<card X. \<Sum>y\<in>X. Y y * y ^ f * deflate C y i * inverse x ^ i)"
    by (simp add: disc_syndromes sum_distrib_right)
  also have "\<dots> = (\<Sum>y\<in>X. \<Sum>i<card X. Y y * y ^ f * deflate C y i * inverse x ^ i)" by (rule sum.swap)
  also have "\<dots> = (\<Sum>y\<in>X. Y y * y ^ f * q y)" by (simp add: q_def sum_distrib_left mult.assoc)
  also have "\<dots> = (\<Sum>y\<in>X. if y = x then Y x * x ^ f * q x else 0)"
  proof (rule sum.cong)
    fix y assume y: "y \<in> X"
    have "q y = 0" if "y \<noteq> x"
    proof -
      have "y \<noteq> 0" "1 - y * inverse x \<noteq> 0" using y assms(2) x that by (auto simp: field_simps)
      with deflate_root [OF _ assms(3) [OF y], of "inverse x"] assms(3) [OF assms(4)]
      show ?thesis by (simp add: q_def)
    qed
    then show "Y y * y ^ f * q y = (if y = x then Y x * x ^ f * q x else 0)" by simp
  qed simp
  also have "\<dots> = Y x * x ^ f * q x" using assms by simp
  finally show ?thesis using deflate_at_root [OF x assms(3) [OF assms(4)]] by (simp add: q_def)
qed

end
