(* ===== verification/ReedEncode.thy ===== *)
theory ReedEncode
  imports GaloisFields ReedMath
begin

text \<open>
  The Reed--Solomon code of \<open>fec/rs.rs\<close> as polynomials: what the table lookups compute, the roots
  of the generator, and that every encoded block has all syndromes zero.
\<close>

context gf_rep
begin

definition gam :: 'f where "gam = rep (pw 1)"

lemma rep_pw: "rep (pw i) = gam ^ i"
proof (induction i)
  case (Suc i)
  have "pw (Suc i) = gf_mul g (pw 1) (pw i)" by (simp add: mul_pw)
  with Suc show ?case by (simp add: rep_mul pw_in_K gam_def)
qed simp

lemma gam_nonzero: "gam ^ i \<noteq> 0"
  using rep_inj [OF pw_in_K K01(1), of i] pw_nonzero [of i] by (metis rep_0 rep_pw)

lemma gam_inj: "i < period g \<Longrightarrow> j < period g \<Longrightarrow> gam ^ i = gam ^ j \<Longrightarrow> i = j"
  using rep_inj [OF pw_in_K pw_in_K, of i j] pw_inj by (simp add: rep_pw)

lemma gam_mod: "gam ^ (i mod period g) = gam ^ i"
  by (simp only: rep_pw [symmetric] pw_mod)

lemma gam_period [simp]: "gam ^ period g = 1"
  using rep_pw [of "period g"] by simp

lemma rep_eq_0: "a \<in> K \<Longrightarrow> rep a = 0 \<longleftrightarrow> a = 0"
  using rep_inj [of a 0] K01 by auto

lemma char_two: "x + x = (0 :: 'f)"
proof -
  have "rep (1 XOR 1) = rep 1 + rep 1" using K01 by (intro rep_xor)
  then have "(1 :: 'f) + 1 = 0" by simp
  then have "(1 + 1) * x = 0" by simp
  then show ?thesis by (simp add: distrib_right)
qed

lemma minus_is_plus: "- x = (x :: 'f)" "x - y = x + (y :: 'f)"
  using char_two [of x] char_two [of y] by (simp_all add: add_eq_0_iff)

lemma of_nat_two: "of_nat k = (if odd k then 1 else 0 :: 'f)"
  by (induction k) (simp_all add: char_two)

text \<open>A lookup with a sum of logarithms multiplies.\<close>

lemma lookup_mul:
  assumes "a \<in> K" "a \<noteq> 0"
  shows "alpha_to g ! ((gf_log g a + e) mod period g) = gf_mul g a (pw e)"
  using assms mul_pw [of "gf_log g a" e] by (simp add: antilog_mod pw_log)

lemma rep_lookup:
  "a \<in> K \<Longrightarrow> a \<noteq> 0 \<Longrightarrow> rep (alpha_to g ! ((gf_log g a + e) mod period g)) = rep a * gam ^ e"
  by (simp add: lookup_mul rep_mul pw_in_K rep_pw)

lemma lookup_K: "alpha_to g ! (i mod period g) \<in> K"
  by (simp add: antilog_mod pw_in_K)

lemma rep_inv: "a \<in> K \<Longrightarrow> a \<noteq> 0 \<Longrightarrow> rep (gf_inv g a) = inverse (rep a)"
proof -
  assume a: "a \<in> K" "a \<noteq> 0"
  then have "rep (gf_inv g a) * rep a = 1"
    by (simp add: rep_mul [symmetric] inv_K inv_mul)
  with a show ?thesis by (metis inverse_unique inverse_inverse_eq)
qed

text \<open>A loop that adds up conditional terms.\<close>

lemma foldl_xor:
  assumes "d \<in> K" "\<And>i. i \<in> set is \<Longrightarrow> P i \<Longrightarrow> t i \<in> K \<and> rep (t i) = f i"
    "\<And>i. i \<in> set is \<Longrightarrow> \<not> P i \<Longrightarrow> f i = 0"
  shows "foldl (\<lambda>d i. if P i then d XOR t i else d) d is \<in> K \<and>
    rep (foldl (\<lambda>d i. if P i then d XOR t i else d) d is) = rep d + (\<Sum>i\<leftarrow>is. f i)"
  using assms
proof (induction "is" arbitrary: d)
  case (Cons i "is")
  show ?case
  proof (cases "P i")
    case True
    then have "t i \<in> K" "rep (t i) = f i" using Cons.prems(2) by auto
    with Cons.IH [of "d XOR t i"] Cons.prems True show ?thesis
      by (simp add: K_xor rep_xor add.assoc)
  next
    case False
    with Cons.IH [of d] Cons.prems show ?thesis by simp
  qed
qed simp

section \<open>Evaluation\<close>

text \<open>A list with the lowest coefficient first at a point, and one with the highest first.\<close>

abbreviation low_at :: "'f \<Rightarrow> u8 list \<Rightarrow> 'f" where "low_at z p \<equiv> horner_sum rep z p"
abbreviation high_at :: "'f \<Rightarrow> u8 list \<Rightarrow> 'f" where "high_at z p \<equiv> horner_sum rep z (rev p)"

lemma horner_sum_snoc: "horner_sum rep z (xs @ [x]) = horner_sum rep z xs + rep x * z ^ length xs"
  by (simp add: horner_sum_append)

lemma horner_fold:
  assumes "acc \<in> K" "set cs \<subseteq> K"
  shows "foldl (horner_step g e) acc cs \<in> K \<and>
    rep (foldl (horner_step g e) acc cs) = rep acc * (gam ^ e) ^ length cs + high_at (gam ^ e) cs"
  using assms
proof (induction cs arbitrary: acc)
  case (Cons c cs)
  have "c \<in> K" using Cons.prems by simp
  have step: "horner_step g e acc c \<in> K \<and> rep (horner_step g e acc c) = rep acc * gam ^ e + rep c"
    using Cons.prems(1) \<open>c \<in> K\<close>
    by (simp add: horner_step_def lookup_K K_xor rep_xor rep_lookup add.commute [of "rep c"])
  with Cons.IH [of "horner_step g e acc c"] Cons.prems show ?case
    by (simp add: horner_sum_snoc algebra_simps)
qed simp

lemma rep_syndrome_at:
  assumes "cw \<noteq> []" "set cw \<subseteq> K"
  shows "syndrome_at g e cw \<in> K \<and> rep (syndrome_at g e cw) = high_at (gam ^ e) cw"
proof -
  obtain c cs where cw: "cw = c # cs" using assms(1) by (cases cw) auto
  with assms(2) horner_fold [of c cs e] show ?thesis
    by (simp add: syndrome_at_def horner_sum_snoc add.commute)
qed

section \<open>The generator\<close>

lemma update_down:
  "length (fold (\<lambda>j p. p[j := F (p ! (j - 1)) (p ! j)]) (rev [1..<Suc n]) p) = length p \<and>
   (\<forall>k<length p. fold (\<lambda>j p. p[j := F (p ! (j - 1)) (p ! j)]) (rev [1..<Suc n]) p ! k =
     (if 1 \<le> k \<and> k \<le> n then F (p ! (k - 1)) (p ! k) else p ! k))"
proof (induction n arbitrary: p)
  case (Suc n)
  let ?q = "p[Suc n := F (p ! n) (p ! Suc n)]"
  have "rev [1..<Suc (Suc n)] = Suc n # rev [1..<Suc n]" by simp
  with Suc [of ?q] show ?case by (auto simp: nth_list_update le_Suc_eq)
qed simp

lemma genpoly_factor_nth:
  assumes "p \<noteq> []"
  shows "length (genpoly_factor g root deg p) = length p"
    and "k < length p \<Longrightarrow> genpoly_factor g root deg p ! k =
      (if k = 0 then gf_mul g (p ! 0) root
       else if k \<le> deg then p ! (k - 1) XOR gf_mul g (p ! k) root else p ! k)"
  using update_down [of "\<lambda>x y. x XOR gf_mul g y root" deg p] assms
  by (auto simp: genpoly_factor_def Let_def nth_list_update)

definition monic :: "nat \<Rightarrow> nat \<Rightarrow> u8 list \<Rightarrow> bool" where
  "monic n deg p \<longleftrightarrow> length p = Suc n \<and> set p \<subseteq> K \<and> p ! deg = 1 \<and> (\<forall>k. deg < k \<longrightarrow> k \<le> n \<longrightarrow> p ! k = 0)"

lemma monic_factor:
  assumes p: "monic n deg p" and "deg < n" "root \<in> K"
  shows "monic n (Suc deg) (genpoly_factor g root (Suc deg) p)"
    and "low_at z (genpoly_factor g root (Suc deg) p) = low_at z p * (z + rep root)"
proof -
  let ?q = "genpoly_factor g root (Suc deg) p"
  have len: "length p = Suc n" and "p \<noteq> []" and K: "k \<le> n \<Longrightarrow> p ! k \<in> K" for k
    using p by (auto simp: monic_def subset_iff)
  note q = genpoly_factor_nth [OF \<open>p \<noteq> []\<close>, where root = root and deg = "Suc deg"]
  have "?q ! k \<in> K" if "k \<le> n" for k
    using that K assms(3) by (simp add: q len mul_K K_xor)
  then have "set ?q \<subseteq> K" by (auto simp: in_set_conv_nth q(1) len)
  moreover have "?q ! Suc deg = 1" "\<forall>k. Suc deg < k \<longrightarrow> k \<le> n \<longrightarrow> ?q ! k = 0"
    using p assms(2) by (simp_all add: q len monic_def)
  ultimately show "monic n (Suc deg) ?q" by (simp add: monic_def q(1) len)
  have coef: "rep (?q ! k) = (case k of 0 \<Rightarrow> 0 | Suc j \<Rightarrow> rep (p ! j)) + rep (p ! k) * rep root" if "k \<le> n" for k
  proof (cases k)
    case 0
    with K [of 0] assms(3) show ?thesis by (simp add: q len rep_mul)
  next
    case (Suc j)
    have "p ! j = 0" "p ! k = 0" if "Suc deg < k" using p that \<open>k \<le> n\<close> Suc by (auto simp: monic_def)
    with Suc that K [of j] K [of k] assms(3) show ?thesis
      by (cases "k \<le> Suc deg") (simp_all add: q len rep_mul rep_xor mul_K)
  qed
  have top: "p ! n = 0" using p assms(2) by (simp add: monic_def)
  have "low_at z ?q = (\<Sum>k<Suc n. ((case k of 0 \<Rightarrow> 0 | Suc j \<Rightarrow> rep (p ! j)) + rep (p ! k) * rep root) * z ^ k)"
    unfolding horner_sum_eq_sum atLeast0LessThan q(1) len by (rule sum.cong [OF refl]) (simp add: coef)
  also have "\<dots> = (\<Sum>k<Suc n. (case k of 0 \<Rightarrow> 0 | Suc j \<Rightarrow> rep (p ! j)) * z ^ k) + (\<Sum>k<Suc n. rep (p ! k) * z ^ k) * rep root"
    by (simp only: distrib_left distrib_right sum.distrib sum_distrib_left mult_ac)
  also have "(\<Sum>k<Suc n. (case k of 0 \<Rightarrow> 0 | Suc j \<Rightarrow> rep (p ! j)) * z ^ k) = (\<Sum>k<n. rep (p ! k) * z ^ k) * z"
    by (simp only: sum.lessThan_Suc_shift) (simp add: sum_distrib_left mult_ac)
  also have "(\<Sum>k<n. rep (p ! k) * z ^ k) = (\<Sum>k<Suc n. rep (p ! k) * z ^ k)" using top by simp
  finally show "low_at z ?q = low_at z p * (z + rep root)"
    by (simp add: horner_sum_eq_sum [of _ _ p] atLeast0LessThan len algebra_simps)
qed

lemma low_zeros: "low_at z (replicate n 0) = 0"
  by (induction n) simp_all

lemma genpoly_roots:
  fixes n fcr :: nat
  defines "gp \<equiv> \<lambda>i. fold (\<lambda>i. genpoly_factor g (alpha_to g ! ((fcr + i) mod period g)) (Suc i)) [0..<i]
       ((replicate (n + 1) 0)[0 := 1])"
  shows "i \<le> n \<Longrightarrow> monic n i (gp i) \<and> low_at z (gp i) = (\<Prod>j<i. z + gam ^ (fcr + j))"
proof (induction i)
  case 0
  have "set ((replicate (n + 1) 0)[0 := 1]) \<subseteq> K"
    using set_update_subset_insert [of "replicate (n + 1) 0" 0 1] K01 by force
  moreover have "low_at z ((replicate (n + 1) 0)[0 := 1]) = 1"
    by (simp add: low_zeros)
  ultimately show ?case by (simp add: gp_def monic_def nth_list_update del: replicate_Suc)
next
  case (Suc i)
  then have IH: "monic n i (gp i)" "low_at z (gp i) = (\<Prod>j<i. z + gam ^ (fcr + j))" "i < n" by auto
  define root where "root = alpha_to g ! ((fcr + i) mod period g)"
  have "root \<in> K" "rep root = gam ^ (fcr + i)" by (simp_all add: root_def antilog_mod pw_in_K rep_pw)
  moreover have "gp (Suc i) = genpoly_factor g root (Suc i) (gp i)" by (simp add: gp_def root_def)
  ultimately show ?case using monic_factor(1) [OF IH(1,3), of root] monic_factor(2) [OF IH(1,3), of root z] IH(2) by simp
qed

lemma genpoly_values_monic: "monic n n (genpoly_values g n fcr)"
  using genpoly_roots [where n = n and i = n and fcr = fcr] by (simp add: genpoly_values_def)

lemma genpoly_values_root: "i < n \<Longrightarrow> low_at (gam ^ (fcr + i)) (genpoly_values g n fcr) = 0"
  using genpoly_roots [where n = n and i = n and fcr = fcr and z = "gam ^ (fcr + i)"]
  by (auto simp: genpoly_values_def char_two intro!: prod_zero bexI [of _ i])

section \<open>The encoder\<close>

lemma log_sentinel: "c \<in> K \<Longrightarrow> gf_log g c \<noteq> period g \<longleftrightarrow> c \<noteq> 0"
  using log_less [of c] log_0 by (cases "c = 0") auto

lemma parity_step_nth:
  assumes r: "r = rs_over g n fcr" and "length p = n" "set p \<subseteq> K" "d \<in> K" "0 < n" "k < n"
  shows "parity_step r p d ! k =
    (if k = 0 then 0 else p ! (k - 1)) XOR gf_mul g (genpoly_values g n fcr ! k) (d XOR p ! (n - 1))"
proof -
  let ?v = "genpoly_values g n fcr" and ?fb = "d XOR p ! (n - 1)"
  have v: "length ?v = Suc n" "?v ! k \<in> K" "length (build_genpoly g n fcr) = Suc n"
    "unat (build_genpoly g n fcr ! k) = gf_log g (?v ! k)"
    using genpoly_values_monic [of n fcr] assms(6) by (auto simp: monic_def build_genpoly_def gf_log_def)
  have "?fb \<in> K" using assms by (intro K_xor) auto
  have shifted: "(0 # butlast p) ! k = (if k = 0 then 0 else p ! (k - 1))"
    using assms(2,6) by (simp add: nth_Cons' nth_butlast)
  have len: "length (0 # butlast p) = n" using assms by simp
  show ?thesis
  proof (cases "?fb = 0")
    case True
    then show ?thesis using shifted by (simp add: parity_step_def r rs_over_def)
  next
    case False
    then show ?thesis
      using v len shifted assms(6) \<open>?fb \<in> K\<close> lookup_mul [of "?v ! k" "gf_log g ?fb"]
      by (simp add: parity_step_def r rs_over_def Let_def log_sentinel pw_log)
  qed
qed

lemma parity_step_ok:
  assumes r: "r = rs_over g n fcr" and "length p = n" "set p \<subseteq> K" "d \<in> K" "0 < n"
  shows "length (parity_step r p d) = n" "set (parity_step r p d) \<subseteq> K"
proof -
  have "length (build_genpoly g n fcr) = Suc n"
    using genpoly_values_monic [of n fcr] by (simp add: monic_def build_genpoly_def)
  then show len: "length (parity_step r p d) = n"
    using assms by (simp add: parity_step_def r rs_over_def Let_def)
  have "parity_step r p d ! k \<in> K" if "k < n" for k
  proof -
    have "(if k = 0 then 0 else p ! (k - 1)) \<in> K" using assms(2,3) that K01 by auto
    moreover have "genpoly_values g n fcr ! k \<in> K"
      using genpoly_values_monic [of n fcr] that by (auto simp: monic_def)
    moreover have "d XOR p ! (n - 1) \<in> K" using assms by (intro K_xor) auto
    ultimately show ?thesis
      by (simp only: parity_step_nth [OF assms that] K_xor mul_K)
  qed
  then show "set (parity_step r p d) \<subseteq> K" by (auto simp: in_set_conv_nth len)
qed

lemma parity_step_root:
  assumes r: "r = rs_over g n fcr" and p: "length p = n" "set p \<subseteq> K" and "d \<in> K" "i < n"
  defines "z \<equiv> gam ^ (fcr + i)"
  shows "low_at z (parity_step r p d) = low_at z p * z + rep d * z ^ n"
proof -
  obtain m where n: "n = Suc m" using assms(5) by (cases n) auto
  let ?v = "genpoly_values g n fcr" and ?fb = "d XOR p ! m"
  have "0 < n" using assms(5) by simp
  note step = parity_step_nth [OF r p assms(4) \<open>0 < n\<close>]
  note ok = parity_step_ok [OF r p assms(4) \<open>0 < n\<close>]
  have v: "length ?v = Suc n" "set ?v \<subseteq> K" "?v ! n = 1" using genpoly_values_monic [of n fcr] by (auto simp: monic_def)
  have pK: "k < n \<Longrightarrow> p ! k \<in> K" and vK: "k \<le> n \<Longrightarrow> ?v ! k \<in> K" for k using p v by auto
  have fb: "?fb \<in> K" "rep ?fb = rep d + rep (p ! m)" using assms(4) pK [of m] by (simp_all add: n K_xor rep_xor)
  have coef: "rep (parity_step r p d ! k) = (case k of 0 \<Rightarrow> 0 | Suc j \<Rightarrow> rep (p ! j)) + rep (?v ! k) * rep ?fb"
    if "k < n" for k
  proof -
    have "(if k = 0 then 0 else p ! (k - 1)) \<in> K" using pK [of "k - 1"] that K01 by auto
    then show ?thesis
      using step [OF that] vK [of k] fb that
      by (cases k) (simp_all add: n rep_xor rep_mul mul_K)
  qed
  have root: "(\<Sum>k<n. rep (?v ! k) * z ^ k) = z ^ n"
  proof -
    have "(\<Sum>k<n. rep (?v ! k) * z ^ k) + z ^ n = 0"
      using genpoly_values_root [OF assms(5), of fcr] v(1,3)
      by (simp add: horner_sum_eq_sum atLeast0LessThan z_def)
    then show ?thesis by (metis add_eq_0_iff minus_is_plus(1))
  qed
  have shift: "(\<Sum>k<n. (case k of 0 \<Rightarrow> 0 | Suc j \<Rightarrow> rep (p ! j)) * z ^ k) = (\<Sum>k<m. rep (p ! k) * z ^ k) * z"
    unfolding n by (simp only: sum.lessThan_Suc_shift) (simp add: sum_distrib_left mult_ac)
  have "low_at z (parity_step r p d)
      = (\<Sum>k<n. ((case k of 0 \<Rightarrow> 0 | Suc j \<Rightarrow> rep (p ! j)) + rep (?v ! k) * rep ?fb) * z ^ k)"
    unfolding horner_sum_eq_sum atLeast0LessThan ok(1) by (rule sum.cong [OF refl]) (simp add: coef)
  also have "\<dots> = (\<Sum>k<n. (case k of 0 \<Rightarrow> 0 | Suc j \<Rightarrow> rep (p ! j)) * z ^ k) + rep ?fb * (\<Sum>k<n. rep (?v ! k) * z ^ k)"
    by (simp only: distrib_left distrib_right sum.distrib sum_distrib_left mult_ac)
  also have "\<dots> = (\<Sum>k<m. rep (p ! k) * z ^ k) * z + (rep d + rep (p ! m)) * z ^ n"
    by (simp only: shift root fb(2))
  also have "\<dots> = low_at z p * z + rep d * z ^ n"
    unfolding horner_sum_eq_sum atLeast0LessThan p(1) n by (simp add: algebra_simps)
  finally show ?thesis .
qed

lemma encode_fold:
  assumes r: "r = rs_over g n fcr" and "0 < n" "length p = n" "set p \<subseteq> K" "set data \<subseteq> K"
  shows "length (foldl (parity_step r) p data) = n \<and> set (foldl (parity_step r) p data) \<subseteq> K \<and>
    (\<forall>i<n. low_at (gam ^ (fcr + i)) (foldl (parity_step r) p data) =
       low_at (gam ^ (fcr + i)) p * (gam ^ (fcr + i)) ^ length data
       + high_at (gam ^ (fcr + i)) data * (gam ^ (fcr + i)) ^ n)"
  using assms(3-5)
proof (induction data arbitrary: p)
  case (Cons d data)
  have d: "d \<in> K" using Cons.prems by simp
  note ok = parity_step_ok [OF r Cons.prems(1,2) d \<open>0 < n\<close>]
  note root = parity_step_root [OF r Cons.prems(1,2) d]
  from Cons.IH [OF ok] Cons.prems(3) root show ?case
    by (simp add: horner_sum_snoc algebra_simps)
qed simp

lemma encode_parity_ok:
  assumes r: "r = rs_over g n fcr" and "0 < n" "set data \<subseteq> K"
  shows "length (encode_parity r data) = n" "set (encode_parity r data) \<subseteq> K"
    and "i < n \<Longrightarrow> high_at (gam ^ (fcr + i)) (data @ encode_parity r data) = 0"
proof -
  have rr: "rs_nroots r = n" by (simp add: r rs_over_def)
  note f = encode_fold [OF r \<open>0 < n\<close> length_replicate [of n 0] _ assms(3)]
  have K0: "set (replicate n 0) \<subseteq> K" using K01 by auto
  from f [OF K0] show len: "length (encode_parity r data) = n" "set (encode_parity r data) \<subseteq> K"
    by (auto simp: encode_parity_def rr)
  assume "i < n"
  with f [OF K0] show "high_at (gam ^ (fcr + i)) (data @ encode_parity r data) = 0"
    by (simp add: encode_parity_def rr horner_sum_append low_zeros char_two mult.commute)
qed

lemma encoded_syndromes_zero:
  assumes r: "r = rs_over g n fcr" and "0 < n" "set data \<subseteq> K"
  shows "\<forall>s\<in>set (rs_syndromes r (data @ encode_parity r data)). s = 0"
proof -
  let ?cw = "data @ encode_parity r data"
  have cw: "?cw \<noteq> []" "set ?cw \<subseteq> K" using encode_parity_ok [OF assms] assms by auto
  have "syndrome_at g ((fcr + i) mod period g) ?cw = 0" if "i < n" for i
    using rep_syndrome_at [OF cw, of "(fcr + i) mod period g"] encode_parity_ok(3) [OF assms that]
      rep_eq_0 [THEN iffD1]
    by (simp only: gam_mod)
  then show ?thesis by (auto simp: rs_syndromes_def r rs_over_def)
qed

end

end
