(* ===== verification/ReedDecode.thy ===== *)
theory ReedDecode
  imports ReedEncode
begin

text \<open>
  The Reed--Solomon decoder corrects every pattern of at most \<open>nroots div 2\<close> wrong symbols: the
  syndromes are power sums over the error positions, the Berlekamp--Massey loop computes the error
  locator, the Chien search its roots, and Forney's formula the error values.
\<close>

context gf_rep
begin

definition coeff :: "u8 list \<Rightarrow> nat \<Rightarrow> 'f" where
  "coeff p k = (if k < length p then rep (p ! k) else 0)"

section \<open>Berlekamp--Massey\<close>

lemma coeff_start: "coeff ((replicate (Suc n) 0)[0 := 1]) = (\<lambda>k. if k = 0 then 1 else 0)"
  by (auto simp: coeff_def fun_eq_iff nth_Cons')

lemma discrepancy_disc:
  assumes lam: "length lam = Suc n" "set lam \<subseteq> K" "generates S (coeff lam) l k" "l \<le> k"
    and synd: "length synd = n" "set synd \<subseteq> K" "\<And>i. i < n \<Longrightarrow> rep (synd ! i) = S i" and "k < n"
  shows "discrepancy g synd lam l k \<in> K \<and> rep (discrepancy g synd lam l k) = disc (coeff lam) S k"
proof -
  have K: "i \<le> n \<Longrightarrow> lam ! i \<in> K" "i < n \<Longrightarrow> synd ! i \<in> K" for i using lam synd by auto
  have "disc (coeff lam) S k = (\<Sum>i\<le>l. coeff lam i * S (k - i))"
    using lam by (intro disc_short) (auto simp: generates_def)
  also have "\<dots> = coeff lam 0 * S k + (\<Sum>i\<in>{1..<Suc l}. coeff lam i * S (k - i))"
    by (simp add: sum.atMost_shift atLeast0_atMost_Suc_eq_insert_0 sum.atLeast1_atMost_eq
        atLeastLessThanSuc_atLeastAtMost)
  also have "coeff lam 0 = 1" using lam by (simp add: generates_def)
  finally have d: "disc (coeff lam) S k = S k + (\<Sum>i\<leftarrow>[1..<Suc l]. coeff lam i * S (k - i))"
    by (simp add: interv_sum_list_conv_sum_set_nat del: upt_Suc)
  show ?thesis
    unfolding discrepancy_def d synd(3) [OF \<open>k < n\<close>, symmetric]
  proof (rule foldl_xor)
    fix i assume i: "i \<in> set [1..<Suc l]"
    then have bounds: "i \<le> n" "k - i < n" using assms(4,8) by auto
    have f: "coeff lam i * S (k - i) = rep (lam ! i) * rep (synd ! (k - i))"
      using bounds lam(1) synd(3) by (simp add: coeff_def)
    show "gf_mul g (lam ! i) (synd ! (k - i)) \<in> K \<and>
        rep (gf_mul g (lam ! i) (synd ! (k - i))) = coeff lam i * S (k - i)"
      using K bounds by (simp add: f mul_K rep_mul)
    show "\<not> (lam ! i \<noteq> 0 \<and> synd ! (k - i) \<noteq> 0) \<Longrightarrow> coeff lam i * S (k - i) = 0"
      by (auto simp: f)
  qed (use K assms(8) in simp)
qed

lemma add_shifted_nth:
  "length lam = Suc n \<Longrightarrow> m \<le> n \<Longrightarrow> j \<le> Suc (n - m) \<Longrightarrow>
    length (fold (\<lambda>i lam. if b ! i \<noteq> 0 then lam[i + m := lam ! (i + m) XOR t i] else lam) [0..<j] lam) = Suc n \<and>
    (\<forall>k\<le>n. fold (\<lambda>i lam. if b ! i \<noteq> 0 then lam[i + m := lam ! (i + m) XOR t i] else lam) [0..<j] lam ! k =
      (if m \<le> k \<and> k < j + m \<and> b ! (k - m) \<noteq> 0 then lam ! k XOR t (k - m) else lam ! k))"
proof (induction j)
  case (Suc j)
  define f where "f = fold (\<lambda>i lam. if b ! i \<noteq> 0 then lam[i + m := lam ! (i + m) XOR t i] else lam) [0..<j] lam"
  from Suc have len: "length f = Suc n" and nth: "k \<le> n \<Longrightarrow> f ! k =
      (if m \<le> k \<and> k < j + m \<and> b ! (k - m) \<noteq> 0 then lam ! k XOR t (k - m) else lam ! k)" for k
    by (auto simp: f_def)
  have last: "fold (\<lambda>i lam. if b ! i \<noteq> 0 then lam[i + m := lam ! (i + m) XOR t i] else lam) [0..<Suc j] lam =
      (if b ! j \<noteq> 0 then f[j + m := f ! (j + m) XOR t j] else f)"
    by (simp add: f_def)
  have "j + m < length f" "j + m \<le> n" using Suc.prems len by simp_all
  then show ?case unfolding last by (auto simp: len nth less_Suc_eq nth_list_update [OF \<open>j + m < length f\<close>])
qed auto

lemma add_shifted_coeff:
  assumes "length lam = Suc n" "length b = Suc n" "set lam \<subseteq> K" "set b \<subseteq> K" "c \<in> K" "m \<le> n"
    "\<And>k. coeff b k \<noteq> 0 \<Longrightarrow> k + m \<le> n"
  shows "length (add_shifted g n c m b lam) = Suc n" "set (add_shifted g n c m b lam) \<subseteq> K"
    "coeff (add_shifted g n c m b lam) = correct_by (coeff lam) (rep c) m (coeff b)"
proof -
  note f = add_shifted_nth [OF assms(1,6) order_refl, of b "\<lambda>i. gf_mul g c (b ! i)"]
  show len: "length (add_shifted g n c m b lam) = Suc n" using f by (simp add: add_shifted_def)
  have K: "k \<le> n \<Longrightarrow> lam ! k \<in> K" "k \<le> n \<Longrightarrow> b ! k \<in> K" for k using assms by auto
  have nth: "add_shifted g n c m b lam ! k =
      (if m \<le> k \<and> b ! (k - m) \<noteq> 0 then lam ! k XOR gf_mul g c (b ! (k - m)) else lam ! k)" if "k \<le> n" for k
    using f assms(6) that by (auto simp: add_shifted_def simp del: upt_Suc)
  have "add_shifted g n c m b lam ! k \<in> K" if "k \<le> n" for k
    using that K [of k] K(2) [of "k - m"] assms(5) by (simp add: nth K_xor mul_K)
  then show "set (add_shifted g n c m b lam) \<subseteq> K" by (auto simp: in_set_conv_nth len less_Suc_eq_le)
  show "coeff (add_shifted g n c m b lam) = correct_by (coeff lam) (rep c) m (coeff b)"
  proof
    fix k
    show "coeff (add_shifted g n c m b lam) k = correct_by (coeff lam) (rep c) m (coeff b) k"
    proof (cases "k \<le> n")
      case True
      then show ?thesis using K [of k] K(2) [of "k - m"] assms(1,2,5)
        by (auto simp: coeff_def len nth correct_by_def minus_is_plus rep_xor rep_mul mul_K)
    next
      case False
      have "coeff b (k - m) = 0" if "m \<le> k" using assms(7) [of "k - m"] False that by fastforce
      with False show ?thesis by (simp add: coeff_def len correct_by_def assms(1))
    qed
  qed
qed

definition bm_ok :: "(nat \<Rightarrow> 'f) \<Rightarrow> nat \<Rightarrow> nat \<Rightarrow> bm \<Rightarrow> bool" where
  "bm_ok S n k s \<longleftrightarrow>
     length (bm_lambda s) = Suc n \<and> length (bm_b s) = Suc n \<and> set (bm_lambda s) \<subseteq> K \<and> set (bm_b s) \<subseteq> K \<and>
     bm_scalar s \<in> K \<and>
     massey_state S k (bm_l s) (coeff (bm_lambda s)) (bm_m s) (rep (bm_scalar s)) (coeff (bm_b s))"

lemma bm_ok_step:
  assumes s: "bm_ok S n k s" and synd: "length synd = n" "set synd \<subseteq> K" "\<And>i. i < n \<Longrightarrow> rep (synd ! i) = S i"
    and "k < n"
  shows "bm_ok S n (Suc k) (bm_step g n synd k s)"
proof -
  note st = s [unfolded bm_ok_def]
  then have ms: "massey_state S k (bm_l s) (coeff (bm_lambda s)) (bm_m s) (rep (bm_scalar s)) (coeff (bm_b s))"
    by blast
  define d where "d = discrepancy g synd (bm_lambda s) (bm_l s) k"
  have d: "d \<in> K" "rep d = disc (coeff (bm_lambda s)) S k"
    using discrepancy_disc [of "bm_lambda s" n S "bm_l s" k synd] st synd \<open>k < n\<close> massey_generates [OF ms]
    by (auto simp: d_def)
  define c where "c = gf_mul g d (gf_inv g (bm_scalar s))"
  have scalar: "bm_scalar s \<in> K" "bm_scalar s \<noteq> 0" using st by (auto simp: massey_state_def)
  then have c: "c \<in> K" "rep c = disc (coeff (bm_lambda s)) S k / rep (bm_scalar s)"
    using d by (simp_all add: c_def mul_K inv_K rep_mul rep_inv divide_inverse)
  have "bm_m s \<le> n"
    using ms \<open>k < n\<close> by (auto simp: massey_state_def)
  have "k' + bm_m s \<le> n" if "coeff (bm_b s) k' \<noteq> 0" for k'
    using massey_reach [OF ms that] \<open>k < n\<close> by simp
  note shifted = add_shifted_coeff [OF _ _ _ _ c(1) \<open>bm_m s \<le> n\<close> this, of "bm_lambda s"]
  show ?thesis
  proof (cases "d = 0")
    case True
    then show ?thesis using massey_right [OF ms] d st by (simp add: bm_step_def bm_ok_def d_def)
  next
    case False
    then have wrong: "disc (coeff (bm_lambda s)) S k \<noteq> 0" using d rep_eq_0 by metis
    from massey_longer [OF ms wrong] massey_same [OF ms wrong] shifted st d c False show ?thesis
      by (auto simp: bm_step_def bm_ok_def d_def [symmetric] c_def [symmetric] Let_def)
  qed
qed

lemma bm_ok_loop:
  assumes "length synd = n" "set synd \<subseteq> K" "\<And>i. i < n \<Longrightarrow> rep (synd ! i) = S i" "k \<le> n"
  shows "bm_ok S n k (fold (bm_step g n synd) [0..<k] (bm_start n))"
  using assms(4)
proof (induction k)
  case 0
  have "set ((replicate (n + 1) 0)[0 := 1]) \<subseteq> K" using K01 by auto
  with massey_start [of S] show ?case
    by (simp add: bm_ok_def bm_start_def coeff_start K01 del: replicate_Suc)
next
  case (Suc k)
  with bm_ok_step [OF _ assms(1-3), of k] show ?case by simp
qed

section \<open>Positions and locators\<close>

text \<open>A codeword \<open>c\<close> and the received word \<open>w\<close> of length \<open>len\<close>; position \<open>p\<close> is the exponent of the symbol.\<close>

definition wrong :: "u8 list \<Rightarrow> u8 list \<Rightarrow> nat set" where
  "wrong c w = {p. p < length w \<and> w ! (length w - 1 - p) \<noteq> c ! (length w - 1 - p)}"

definition locators :: "u8 list \<Rightarrow> u8 list \<Rightarrow> 'f set" where
  "locators c w = (\<lambda>p. gam ^ p) ` wrong c w"

definition error_value :: "u8 list \<Rightarrow> u8 list \<Rightarrow> 'f \<Rightarrow> 'f" where
  "error_value c w x = (\<Sum>p\<in>wrong c w. if gam ^ p = x
     then rep (w ! (length w - 1 - p)) + rep (c ! (length w - 1 - p)) else 0)"

lemma finite_wrong: "finite (wrong c w)"
  by (simp add: wrong_def)

lemma error_value_at:
  assumes "p \<in> wrong c w" "length w \<le> period g"
  shows "error_value c w (gam ^ p) = rep (w ! (length w - 1 - p)) + rep (c ! (length w - 1 - p))"
proof -
  have "gam ^ q = gam ^ p \<longleftrightarrow> q = p" if "q \<in> wrong c w" for q
    using gam_inj [of q p] that assms by (auto simp: wrong_def)
  then have "error_value c w (gam ^ p) = (\<Sum>q\<in>wrong c w. if q = p
     then rep (w ! (length w - 1 - q)) + rep (c ! (length w - 1 - q)) else 0)"
    unfolding error_value_def by (intro sum.cong) auto
  with assms(1) finite_wrong [of c w] show ?thesis by simp
qed

lemma error_value_nonzero:
  assumes "length c = length w" "set c \<subseteq> K" "set w \<subseteq> K" "length w \<le> period g" "x \<in> locators c w"
  shows "error_value c w x \<noteq> 0"
proof -
  obtain p where p: "p \<in> wrong c w" "x = gam ^ p" using assms(5) by (auto simp: locators_def)
  let ?i = "length w - 1 - p"
  have i: "?i < length w" "w ! ?i \<noteq> c ! ?i" using p by (auto simp: wrong_def)
  then have K: "w ! ?i \<in> K" "c ! ?i \<in> K" using assms(1-3) by auto
  have "rep (w ! ?i) + rep (c ! ?i) \<noteq> 0"
    using rep_inj [OF K] i(2) minus_is_plus(2) by (metis eq_iff_diff_eq_0)
  with error_value_at [OF p(1) assms(4)] p(2) show ?thesis by simp
qed

lemma card_locators: "length w \<le> period g \<Longrightarrow> card (locators c w) = card (wrong c w)"
proof -
  assume "length w \<le> period g"
  then have "inj_on (\<lambda>p. gam ^ p) (wrong c w)" by (intro inj_onI gam_inj) (auto simp: wrong_def)
  then show ?thesis by (simp add: locators_def card_image)
qed

lemma locators_nonzero: "finite (locators c w)" "0 \<notin> locators c w"
  using gam_nonzero [of 1] finite_wrong by (auto simp: locators_def)

lemma high_at_sum: "high_at z w = (\<Sum>p<length w. rep (w ! (length w - 1 - p)) * z ^ p)"
  unfolding horner_sum_eq_sum atLeast0LessThan length_rev
  by (rule sum.cong [OF refl]) (simp add: rev_nth)

text \<open>The syndromes are the power sums of the error values.\<close>

lemma syndromes_are_power_sums:
  assumes "length c = length w" "length w \<le> period g" "high_at (gam ^ (fcr + i)) c = 0"
  shows "high_at (gam ^ (fcr + i)) w = syndromes (locators c w) (error_value c w) fcr i"
proof -
  let ?z = "gam ^ (fcr + i)" and ?d = "\<lambda>p. rep (w ! (length w - 1 - p)) + rep (c ! (length w - 1 - p))"
  have "high_at ?z w = high_at ?z w + high_at ?z c" using assms(3) by simp
  also have "\<dots> = (\<Sum>p<length w. ?d p * ?z ^ p)"
    by (simp add: high_at_sum assms(1) sum.distrib distrib_right)
  also have "\<dots> = (\<Sum>p\<in>wrong c w. ?d p * ?z ^ p)"
    by (rule sum.mono_neutral_right) (auto simp: wrong_def char_two)
  also have "\<dots> = (\<Sum>p\<in>wrong c w. error_value c w (gam ^ p) * (gam ^ p) ^ (fcr + i))"
    by (rule sum.cong [OF refl]) (simp add: error_value_at assms(2) power_mult [symmetric] mult.commute)
  also have "\<dots> = syndromes (locators c w) (error_value c w) fcr i"
  proof -
    have "inj_on (\<lambda>p. gam ^ p) (wrong c w)"
      using assms(2) by (intro inj_onI gam_inj) (auto simp: wrong_def)
    then show ?thesis by (simp add: syndromes_def locators_def sum.reindex)
  qed
  finally show ?thesis .
qed

section \<open>The search for the roots\<close>

lemma rep_power_term:
  assumes "c \<in> K" "c \<noteq> 0" "p < period g"
  shows "power_term g p c i \<in> K" "rep (power_term g p c i) = rep c * inverse (gam ^ p) ^ i"
proof -
  have "gam ^ x_inv g p = inverse (gam ^ p)"
  proof -
    have "gam ^ x_inv g p * gam ^ p = gam ^ (period g - p + p)"
      using assms(3) by (simp only: x_inv_def gam_mod power_add mod_less)
    also have "period g - p + p = period g" using assms(3) by simp
    finally have "gam ^ p * gam ^ x_inv g p = 1" by (simp add: mult.commute)
    then show ?thesis by (simp add: inverse_unique)
  qed
  then have "gam ^ ((i * x_inv g p) mod period g) = inverse (gam ^ p) ^ i"
    by (simp only: gam_mod mult.commute [of i] power_mult)
  with assms show "rep (power_term g p c i) = rep c * inverse (gam ^ p) ^ i"
    by (simp add: power_term_def rep_lookup)
  show "power_term g p c i \<in> K" by (simp add: power_term_def lookup_K)
qed

lemma sum_list_range: "(\<Sum>i\<leftarrow>[a..<b]. f i) = (\<Sum>i\<in>{a..<b}. f i)" for f :: "nat \<Rightarrow> 'f"
  by (simp add: interv_sum_list_conv_sum_set_nat)

lemma rep_chien_sum:
  assumes "length lam = Suc n" "set lam \<subseteq> K" "p < period g"
  shows "chien_sum g n lam p \<in> K \<and> rep (chien_sum g n lam p) = (\<Sum>i\<le>n. coeff lam i * inverse (gam ^ p) ^ i)"
proof -
  have K: "i \<le> n \<Longrightarrow> lam ! i \<in> K" for i using assms by auto
  have "(\<Sum>i\<le>n. coeff lam i * inverse (gam ^ p) ^ i)
      = coeff lam 0 + (\<Sum>i\<in>{1..<Suc n}. coeff lam i * inverse (gam ^ p) ^ i)"
    by (simp add: sum.atMost_shift sum.atLeast1_atMost_eq atLeastLessThanSuc_atLeastAtMost)
  then have s: "(\<Sum>i\<le>n. coeff lam i * inverse (gam ^ p) ^ i)
      = rep (lam ! 0) + (\<Sum>i\<leftarrow>[1..<Suc n]. coeff lam i * inverse (gam ^ p) ^ i)"
    by (simp add: sum_list_range coeff_def assms(1) del: upt_Suc)
  show ?thesis
    unfolding chien_sum_def s
    by (rule foldl_xor) (use K rep_power_term assms in \<open>auto simp: coeff_def\<close>)
qed

text \<open>The error locator of at most \<open>n div 2\<close> errors.\<close>

definition locates :: "nat \<Rightarrow> 'f set \<Rightarrow> u8 list \<Rightarrow> bool" where
  "locates n X lam \<longleftrightarrow> length lam = Suc n \<and> set lam \<subseteq> K \<and> coeff lam 0 = 1 \<and> (\<forall>k>card X. coeff lam k = 0) \<and>
     coeff lam (card X) \<noteq> 0 \<and> (\<forall>x\<in>X. (\<Sum>k\<le>card X. coeff lam k * inverse x ^ k) = 0)"

lemma berlekamp_massey_locates:
  assumes synd: "length synd = n" "set synd \<subseteq> K" "\<And>i. i < n \<Longrightarrow> rep (synd ! i) = syndromes X Y fcr i"
    and X: "finite X" "0 \<notin> X" "\<And>x. x \<in> X \<Longrightarrow> Y x \<noteq> 0" "2 * card X \<le> n"
  shows "locates n X (bm_lambda (berlekamp_massey g n synd))"
proof -
  define s where "s = berlekamp_massey g n synd"
  let ?S = "syndromes X Y fcr" and ?C = "coeff (bm_lambda s)"
  have ok: "bm_ok ?S n n s" using bm_ok_loop [OF synd order_refl] by (simp add: s_def berlekamp_massey_def)
  then have ms: "massey_state ?S n (bm_l s) ?C (bm_m s) (rep (bm_scalar s)) (coeff (bm_b s))"
    and lam: "length (bm_lambda s) = Suc n" "set (bm_lambda s) \<subseteq> K" by (auto simp: bm_ok_def)
  obtain D where "generates ?S D (card X) n"
    using locator_exists [OF X(1,2)] locator_generates [OF X(2)] by metis
  then have l: "bm_l s \<le> card X" by (rule massey_shortest [OF ms])
  have gen: "generates ?S ?C (bm_l s) n" using massey_generates [OF ms] by blast
  then have zero: "?C k = 0" if "bm_l s < k" for k using that by (simp add: generates_def)
  have roots: "(\<Sum>k\<le>m. ?C k * inverse x ^ k) = 0" if "x \<in> X" "bm_l s \<le> m" for x m
  proof -
    have "(\<Sum>k\<le>bm_l s. ?C k * inverse x ^ k) = 0"
      using recurrence_locates [OF X(1,2,3) gen _ that(1)] l X(4) by simp
    moreover have "(\<Sum>k\<le>m. ?C k * inverse x ^ k) = (\<Sum>k\<le>bm_l s. ?C k * inverse x ^ k)"
      by (rule sum.mono_neutral_right) (use that zero in auto)
    ultimately show ?thesis by simp
  qed
  have top: "?C (card X) \<noteq> 0"
  proof
    assume z: "?C (card X) = 0"
    show False
    proof (cases "card X = 0")
      case True
      with z gen show False by (simp add: generates_def)
    next
      case False
      then obtain m where m: "card X = Suc m" by (cases "card X") auto
      have "(\<Sum>k\<le>m. ?C k * inverse x ^ k) = 0" if "x \<in> X" for x
        using roots [OF that l] z by (simp add: m)
      then have "?C 0 = 0" by (rule root_bound [OF X(1,2)]) (simp_all add: m)
      with gen show False by (simp add: generates_def)
    qed
  qed
  show ?thesis
    using lam gen top roots l zero by (simp add: locates_def s_def [symmetric] generates_def)
qed

lemma lambda_degree_located:
  assumes "locates n X lam" "card X \<le> n"
  shows "lambda_degree n lam = card X"
proof -
  have len: "length lam = Suc n" and K: "set lam \<subseteq> K" using assms by (auto simp: locates_def)
  have zero: "lam ! i = 0" if "card X < i" "i \<le> n" for i
  proof -
    have "lam ! i \<in> K" using that len K by auto
    moreover have "rep (lam ! i) = 0" using assms(1) that len by (auto simp: locates_def coeff_def)
    ultimately show ?thesis by (simp add: rep_eq_0)
  qed
  have top: "lam ! card X \<noteq> 0" using assms len by (auto simp: locates_def coeff_def)
  have "find (\<lambda>i. lam ! i \<noteq> 0) (rev [0..<Suc j]) = Some (card X)" if "card X \<le> j" "j \<le> n" for j
    using that
  proof (induction j)
    case (Suc j)
    show ?case
    proof (cases "card X = Suc j")
      case False
      with Suc zero [of "Suc j"] show ?thesis by simp
    qed (use top in simp)
  qed (use top in simp)
  from this [OF assms(2) order_refl] show ?thesis by (simp add: lambda_degree_def)
qed

text \<open>A locator has exactly the roots it should have.\<close>

lemma locator_root_iff:
  assumes "locates n X lam" "card X \<le> n" "finite X" "0 \<notin> X" "x \<noteq> 0"
  shows "(\<Sum>i\<le>n. coeff lam i * inverse x ^ i) = 0 \<longleftrightarrow> x \<in> X"
proof -
  have short: "(\<Sum>i\<le>n. coeff lam i * inverse y ^ i) = (\<Sum>i\<le>card X. coeff lam i * inverse y ^ i)" for y
    by (rule sum.mono_neutral_right) (use assms in \<open>auto simp: locates_def\<close>)
  show ?thesis
  proof
    assume root: "(\<Sum>i\<le>n. coeff lam i * inverse x ^ i) = 0"
    show "x \<in> X"
    proof (rule ccontr)
      assume "x \<notin> X"
      have "coeff lam 0 = 0"
      proof (rule root_bound [of "insert x X"])
        show "(\<Sum>k\<le>card X. coeff lam k * inverse y ^ k) = 0" if "y \<in> insert x X" for y
          using that root short assms(1) by (auto simp: locates_def)
      qed (use assms \<open>x \<notin> X\<close> in auto)
      with assms(1) show False by (simp add: locates_def)
    qed
  qed (use assms(1) short in \<open>auto simp: locates_def\<close>)
qed

lemma chien_search_finds:
  assumes lam: "locates n (locators c w) lam" and "card (locators c w) \<le> n" "length w \<le> period g"
  shows "chien_search g n (length w) lam = filter (\<lambda>p. p \<in> wrong c w) [0..<period g]"
proof -
  have "chien_sum g n lam p = 0 \<and> p < length w \<longleftrightarrow> p \<in> wrong c w" if p: "p < period g" for p
  proof -
    have "chien_sum g n lam p = 0 \<longleftrightarrow> gam ^ p \<in> locators c w"
      using rep_chien_sum [of lam n p] rep_eq_0 [of "chien_sum g n lam p"] lam p gam_nonzero [of p]
        locator_root_iff [OF lam assms(2) locators_nonzero gam_nonzero]
      by (simp add: locates_def)
    moreover have "gam ^ p \<in> locators c w \<longleftrightarrow> p \<in> wrong c w"
    proof
      assume "gam ^ p \<in> locators c w"
      then obtain q where q: "q \<in> wrong c w" "gam ^ p = gam ^ q" by (auto simp: locators_def)
      with gam_inj [OF p, of q] assms(3) show "p \<in> wrong c w" by (simp add: wrong_def)
    qed (simp add: locators_def)
    ultimately show ?thesis by (auto simp: wrong_def)
  qed
  then show ?thesis unfolding chien_search_def by (intro filter_cong) auto
qed

section \<open>Error values\<close>

lemma rep_error_evaluator:
  assumes lam: "length lam = Suc n" "set lam \<subseteq> K"
    and synd: "length synd = n" "set synd \<subseteq> K" "\<And>i. i < n \<Longrightarrow> rep (synd ! i) = S i"
  shows "length (error_evaluator g n synd lam) = n" "set (error_evaluator g n synd lam) \<subseteq> K"
    "i < n \<Longrightarrow> coeff (error_evaluator g n synd lam) i = disc (coeff lam) S i"
proof -
  show len: "length (error_evaluator g n synd lam) = n" by (simp add: error_evaluator_def)
  have K: "i \<le> n \<Longrightarrow> lam ! i \<in> K" "i < n \<Longrightarrow> synd ! i \<in> K" for i using lam synd by auto
  have entry: "error_evaluator g n synd lam ! i \<in> K \<and>
      rep (error_evaluator g n synd lam ! i) = disc (coeff lam) S i" if "i < n" for i
  proof -
    have "foldl (\<lambda>acc j. if lam ! j \<noteq> 0 \<and> synd ! (i - j) \<noteq> 0
         then acc XOR gf_mul g (lam ! j) (synd ! (i - j)) else acc) 0 [0..<Suc i] \<in> K \<and>
      rep (foldl (\<lambda>acc j. if lam ! j \<noteq> 0 \<and> synd ! (i - j) \<noteq> 0
         then acc XOR gf_mul g (lam ! j) (synd ! (i - j)) else acc) 0 [0..<Suc i]) =
      rep 0 + (\<Sum>j\<leftarrow>[0..<Suc i]. coeff lam j * S (i - j))"
    proof (rule foldl_xor)
      fix j assume "j \<in> set [0..<Suc i]"
      then have b: "j \<le> n" "i - j < n" using that by auto
      have f: "coeff lam j * S (i - j) = rep (lam ! j) * rep (synd ! (i - j))"
        using b lam(1) synd(3) by (simp add: coeff_def)
      show "gf_mul g (lam ! j) (synd ! (i - j)) \<in> K \<and>
          rep (gf_mul g (lam ! j) (synd ! (i - j))) = coeff lam j * S (i - j)"
        using K b by (simp add: f mul_K rep_mul)
      show "\<not> (lam ! j \<noteq> 0 \<and> synd ! (i - j) \<noteq> 0) \<Longrightarrow> coeff lam j * S (i - j) = 0" by (auto simp: f)
    qed (rule K01)
    moreover have "(\<Sum>j\<leftarrow>[0..<Suc i]. coeff lam j * S (i - j)) = disc (coeff lam) S i"
      by (simp only: sum_list_range disc_def atLeastLessThanSuc_atLeastAtMost atLeast0AtMost)
    ultimately show ?thesis using that by (simp add: error_evaluator_def del: upt_Suc cong: if_cong)
  qed
  then show "set (error_evaluator g n synd lam) \<subseteq> K" by (auto simp: in_set_conv_nth len)
  show "i < n \<Longrightarrow> coeff (error_evaluator g n synd lam) i = disc (coeff lam) S i"
    using entry by (simp add: coeff_def len)
qed

lemma rep_omega_at:
  assumes "set om \<subseteq> K" "p < period g"
  shows "omega_at g om p \<in> K \<and> rep (omega_at g om p) = (\<Sum>i<length om. coeff om i * inverse (gam ^ p) ^ i)"
proof -
  have om: "i < length om \<Longrightarrow> om ! i \<in> K" for i using assms(1) by auto
  have "(\<Sum>i<length om. coeff om i * inverse (gam ^ p) ^ i) =
      rep 0 + (\<Sum>i\<leftarrow>[0..<length om]. coeff om i * inverse (gam ^ p) ^ i)"
    by (simp add: sum_list_range atLeast0LessThan)
  then show ?thesis unfolding omega_at_def
    by (simp only:) (rule foldl_xor, use om K01 rep_power_term assms(2) in \<open>auto simp: coeff_def\<close>)
qed

lemma rep_lambda_prime:
  assumes "length lam = Suc n" "set lam \<subseteq> K" "d \<le> n" "p < period g"
  shows "lambda_prime g d lam p \<in> K \<and>
    rep (lambda_prime g d lam p) = gam ^ p * (\<Sum>k\<le>d. of_nat k * (coeff lam k * inverse (gam ^ p) ^ k))"
proof -
  let ?z = "inverse (gam ^ p)"
  have inv: "gam ^ p * ?z ^ k = ?z ^ (k - 1)" if "0 < k" for k
    using that gam_nonzero [of p] by (cases k) simp_all
  have "gam ^ p * (\<Sum>k\<le>d. of_nat k * (coeff lam k * ?z ^ k))
      = (\<Sum>k\<in>{1..<Suc d}. if odd k then coeff lam k * (gam ^ p * ?z ^ k) else 0)"
    unfolding sum_distrib_left
    by (rule sum.mono_neutral_cong_right) (auto simp: of_nat_two not_le mult.left_commute)
  also have "\<dots> = (\<Sum>k\<in>{1..<Suc d}. if odd k then coeff lam k * ?z ^ (k - 1) else 0)"
    by (rule sum.cong [OF refl]) (simp add: inv)
  also have "\<dots> = (\<Sum>k\<leftarrow>filter odd [1..<Suc d]. coeff lam k * ?z ^ (k - 1))"
    by (simp only: sum_list_map_filter' sum_list_range [symmetric])
  finally have s: "gam ^ p * (\<Sum>k\<le>d. of_nat k * (coeff lam k * ?z ^ k))
      = rep 0 + (\<Sum>k\<leftarrow>filter odd [1..<Suc d]. coeff lam k * ?z ^ (k - 1))" by simp
  have K: "i \<le> n \<Longrightarrow> lam ! i \<in> K" for i using assms by auto
  show ?thesis unfolding lambda_prime_def s
    by (rule foldl_xor) (use K K01 rep_power_term assms in \<open>auto simp: coeff_def\<close>)
qed

lemma gam_power_int:
  assumes "p < period g"
  shows "gam ^ nat ((int p * (1 - int f)) mod int (period g)) * (gam ^ p) ^ f = gam ^ p"
proof -
  let ?e = "nat ((int p * (1 - int f)) mod int (period g))"
  have pos: "0 < int (period g)" using per_gt by simp
  have "int (?e + p * f) mod int (period g) = int p mod int (period g)"
  proof -
    have "int (?e + p * f) mod int (period g) = (int p * (1 - int f) + int p * int f) mod int (period g)"
      using pos by (simp add: mod_add_left_eq)
    then show ?thesis by (simp add: right_diff_distrib)
  qed
  then have "(?e + p * f) mod period g = p mod period g" by (metis of_nat_eq_iff of_nat_mod)
  then have "gam ^ (?e + p * f) = gam ^ p" by (metis gam_mod)
  then show ?thesis by (simp add: power_add power_mult)
qed

section \<open>Correction\<close>

definition error_at :: "u8 list \<Rightarrow> u8 list \<Rightarrow> nat \<Rightarrow> u8" where
  "error_at c w p = w ! (length w - 1 - p) XOR c ! (length w - 1 - p)"

lemma magnitude_is_error:
  assumes r: "r = rs_over g n fcr" and len: "length c = length w" "length w \<le> period g"
    and K: "set c \<subseteq> K" "set w \<subseteq> K" and few: "2 * card (wrong c w) \<le> n"
    and synd: "length synd = n" "set synd \<subseteq> K"
      "\<And>i. i < n \<Longrightarrow> rep (synd ! i) = syndromes (locators c w) (error_value c w) fcr i"
    and lam: "locates n (locators c w) lam" and p: "p \<in> wrong c w"
  defines "lp \<equiv> lambda_prime g (card (wrong c w)) lam p"
  shows "lp \<noteq> 0" "error_magnitude r (error_evaluator g n synd lam) p lp = error_at c w p"
proof -
  let ?X = "locators c w" and ?Y = "error_value c w" and ?x = "gam ^ p"
  let ?om = "error_evaluator g n synd lam"
  have card: "card ?X = card (wrong c w)" by (rule card_locators [OF len(2)])
  have pp: "p < period g" "p < length w" using p len(2) by (auto simp: wrong_def)
  have x: "?x \<in> ?X" using p by (simp add: locators_def)
  have lamK: "length lam = Suc n" "set lam \<subseteq> K" using lam by (auto simp: locates_def)
  have roots: "\<And>y. y \<in> ?X \<Longrightarrow> (\<Sum>k\<le>card ?X. coeff lam k * inverse y ^ k) = 0"
    and one: "coeff lam 0 = 1" and zero: "\<forall>k>card ?X. coeff lam k = 0" using lam by (auto simp: locates_def)
  define D where "D = (\<Sum>k\<le>card ?X. of_nat k * (coeff lam k * inverse ?x ^ k))"
  have D: "D \<noteq> 0" unfolding D_def
    by (rule forney_denominator [OF locators_nonzero one roots x])
  have lp: "lp \<in> K" "rep lp = ?x * D"
    using rep_lambda_prime [OF lamK _ pp(1), of "card (wrong c w)"] few by (auto simp: lp_def D_def card)
  then have "rep lp \<noteq> 0" using D gam_nonzero by simp
  then show lp0: "lp \<noteq> 0" by auto
  note om = rep_error_evaluator [OF lamK synd]
  have "rep (omega_at g ?om p) = (\<Sum>i<n. disc (coeff lam) (syndromes ?X ?Y fcr) i * inverse ?x ^ i)"
    using rep_omega_at [OF om(2) pp(1)] om by simp
  also have "\<dots> = (\<Sum>i<card ?X. disc (coeff lam) (syndromes ?X ?Y fcr) i * inverse ?x ^ i)"
  proof (rule sum.mono_neutral_right)
    have "generates (syndromes ?X ?Y fcr) (coeff lam) (card ?X) n"
      by (rule locator_generates [OF locators_nonzero(2) one zero roots])
    then show "\<forall>i\<in>{..<n} - {..<card ?X}. disc (coeff lam) (syndromes ?X ?Y fcr) i * inverse ?x ^ i = 0"
      by (auto simp: generates_def)
  qed (use few card in auto)
  also have "\<dots> = ?Y ?x * ?x ^ fcr * D"
    using forney_numerator [OF locators_nonzero roots x, of ?Y fcr] by (simp add: D_def minus_is_plus)
  finally have omega: "omega_at g ?om p \<in> K" "rep (omega_at g ?om p) = ?Y ?x * ?x ^ fcr * D"
    using rep_omega_at [OF om(2) pp(1)] by auto
  define mag where "mag = gf_mul g (omega_at g ?om p) (gf_inv g lp)"
  have mag: "mag \<in> K" "rep mag = ?Y ?x * ?x ^ fcr / ?x"
    using omega lp lp0 D by (simp_all add: mag_def mul_K inv_K rep_mul rep_inv divide_inverse)
  have Y: "?Y ?x \<noteq> 0" using error_value_nonzero [OF len(1) K len(2) x] .
  then have "rep mag \<noteq> 0" using mag gam_nonzero by simp
  then have mag0: "mag \<noteq> 0" by auto
  define e where "e = nat ((int p * (1 - int fcr)) mod int (period g))"
  define m where "m = error_magnitude r ?om p lp"
  have m: "m = alpha_to g ! ((gf_log g mag + e) mod period g)"
    using mag0 by (simp add: m_def error_magnitude_def r rs_over_def Let_def mag_def e_def)
  have "rep m = ?Y ?x * ?x ^ fcr / ?x * gam ^ e" by (simp only: m rep_lookup [OF mag(1) mag0] mag(2))
  also have "\<dots> = ?Y ?x * (gam ^ e * ?x ^ fcr) / ?x" by simp
  also have "\<dots> = ?Y ?x" using gam_power_int [OF pp(1), of fcr] gam_nonzero by (simp add: e_def)
  also have "\<dots> = rep (error_at c w p)"
  proof -
    have "w ! (length w - 1 - p) \<in> K" "c ! (length w - 1 - p) \<in> K" using pp(2) K len(1) by auto
    then show ?thesis by (simp only: error_value_at [OF p len(2)] error_at_def rep_xor)
  qed
  finally have "rep m = rep (error_at c w p)" .
  moreover have "m \<in> K" by (simp add: m lookup_K)
  moreover have "error_at c w p \<in> K"
    using pp(2) K len(1) unfolding error_at_def by (intro K_xor) auto
  ultimately show "error_magnitude r ?om p lp = error_at c w p" using rep_inj m_def by blast
qed

text \<open>The correction loop undoes each error.\<close>

lemma forney_repairs:
  assumes "\<And>p. p \<in> set ps \<Longrightarrow> p < length w \<and> lambda_prime g d lam p \<noteq> 0 \<and>
      error_magnitude r om p (lambda_prime g d lam p) = error_at c w p"
    and "rs_gf r = g" "distinct ps" "length v = length w" "length c = length w"
    and "\<And>p. p \<in> set ps \<Longrightarrow> v ! (length w - 1 - p) = w ! (length w - 1 - p)"
  shows "\<exists>v'. forney r d lam om ps v = (v', True) \<and> length v' = length w \<and>
    (\<forall>p<length w. v' ! (length w - 1 - p) =
       (if p \<in> set ps then c ! (length w - 1 - p) else v ! (length w - 1 - p)))"
  using assms
proof (induction ps arbitrary: v)
  case (Cons p ps)
  have p: "p < length w" "lambda_prime g d lam p \<noteq> 0"
    "error_magnitude r om p (lambda_prime g d lam p) = error_at c w p" using Cons.prems(1) [of p] by auto
  let ?i = "length w - 1 - p"
  have fixed: "w ! ?i XOR error_at c w p = c ! ?i" by (simp add: error_at_def xor.assoc [symmetric])
  let ?v = "v[?i := c ! ?i]"
  have other: "length w - 1 - q \<noteq> ?i" if "q < length w" "q \<noteq> p" for q using that p(1) by arith
  have "\<exists>v'. forney r d lam om ps ?v = (v', True) \<and> length v' = length w \<and>
    (\<forall>q<length w. v' ! (length w - 1 - q) = (if q \<in> set ps then c ! (length w - 1 - q) else ?v ! (length w - 1 - q)))"
  proof (rule Cons.IH)
    fix q assume "q \<in> set ps"
    moreover from this have "q \<noteq> p" "q < length w" using Cons.prems(1,3) by auto
    ultimately show "?v ! (length w - 1 - q) = w ! (length w - 1 - q)"
      using Cons.prems(6) [of q] other [of q] by simp
  qed (use Cons.prems in auto)
  then obtain v' where v': "forney r d lam om ps ?v = (v', True)" "length v' = length w"
    "\<And>q. q < length w \<Longrightarrow> v' ! (length w - 1 - q) =
      (if q \<in> set ps then c ! (length w - 1 - q) else ?v ! (length w - 1 - q))" by blast
  have "forney r d lam om (p # ps) v = (v', True)"
    using p Cons.prems(2,4) Cons.prems(6) [of p] fixed v'(1) by (simp add: Let_def)
  moreover have "v' ! (length w - 1 - q) =
      (if q \<in> set (p # ps) then c ! (length w - 1 - q) else v ! (length w - 1 - q))" if "q < length w" for q
  proof (cases "q = p")
    case True
    then show ?thesis using v'(3) [OF that] Cons.prems(3,4) p(1) by simp
  next
    case False
    then show ?thesis using v'(3) [OF that] other [OF that False] by simp
  qed
  ultimately show ?case using v'(2) by blast
qed auto

lemma wrong_empty: "length c = length w \<Longrightarrow> wrong c w = {} \<longleftrightarrow> w = c"
proof
  assume len: "length c = length w" and none: "wrong c w = {}"
  show "w = c"
  proof (rule nth_equalityI)
    fix i assume "i < length w"
    then have "length w - 1 - i \<notin> wrong c w" "length w - 1 - (length w - 1 - i) = i" using none by auto
    with \<open>i < length w\<close> show "w ! i = c ! i" by (simp add: wrong_def)
  qed (use len in simp)
qed (simp add: wrong_def)

lemma syndromes_in_K:
  assumes "r = rs_over g n fcr" "w \<noteq> []" "set w \<subseteq> K"
  shows "length (rs_syndromes r w) = n" "set (rs_syndromes r w) \<subseteq> K"
    "i < n \<Longrightarrow> rep (rs_syndromes r w ! i) = high_at (gam ^ (fcr + i)) w"
  using rep_syndrome_at [OF assms(2,3)] by (auto simp: rs_syndromes_def assms(1) rs_over_def gam_mod)

lemma all_zero_iff: "(\<forall>s\<in>set xs. s = 0) \<longleftrightarrow> (\<forall>i<length xs. xs ! i = 0)" for xs :: "u8 list"
  by (metis in_set_conv_nth)

theorem decode_corrects:
  assumes r: "r = rs_over g n fcr" and len: "length c = length w" "w \<noteq> []" "length w \<le> period g"
    and K: "set c \<subseteq> K" "set w \<subseteq> K" and code: "\<forall>s\<in>set (rs_syndromes r c). s = 0"
    and few: "2 * card (wrong c w) \<le> n"
  shows "rs_decode r w = Some (c, Ok (card (wrong c w)))"
proof -
  let ?X = "locators c w" and ?Y = "error_value c w" and ?S = "rs_syndromes r w"
  have fields: "rs_nroots r = n" "rs_fcr r = fcr" "rs_gf r = g" by (simp_all add: r rs_over_def)
  have "c \<noteq> []" using len by auto
  note sc = syndromes_in_K [OF r \<open>c \<noteq> []\<close> K(1)] and sw = syndromes_in_K [OF r len(2) K(2)]
  have "high_at (gam ^ (fcr + i)) c = 0" if "i < n" for i
    using code sc(1) sc(3) [OF that] that by (simp add: all_zero_iff)
  then have power: "rep (?S ! i) = syndromes ?X ?Y fcr i" if "i < n" for i
    using sw(3) [OF that] syndromes_are_power_sums [OF len(1,3)] that by simp
  have card: "card ?X = card (wrong c w)" by (rule card_locators [OF len(3)])
  have Y: "x \<in> ?X \<Longrightarrow> ?Y x \<noteq> 0" for x by (rule error_value_nonzero [OF len(1) K len(3)])
  show ?thesis
  proof (cases "wrong c w = {}")
    case True
    with wrong_empty [OF len(1)] have "w = c" by simp
    with True code len(2) show ?thesis by (simp add: rs_decode_def)
  next
    case False
    have nonzero: "\<not> (\<forall>s\<in>set ?S. s = 0)"
    proof
      assume "\<forall>s\<in>set ?S. s = 0"
      then have zero: "syndromes ?X ?Y fcr i = 0" if "i < n" for i
        using power [OF that] sw(1) that by (simp add: all_zero_iff)
      obtain x where x: "x \<in> ?X" using False by (auto simp: locators_def)
      have "(\<Sum>y\<in>?X. (?Y y * y ^ fcr) * y ^ k) = 0" if "k < card ?X" for k
        using zero [of k] that few card by (simp add: syndromes_def power_add mult.assoc)
      then have "?Y x * x ^ fcr = 0"
        by (rule vandermonde [where w = "\<lambda>y. ?Y y * y ^ fcr", OF locators_nonzero(1) _ x])
      with Y [OF x] x locators_nonzero show False by auto
    qed
    define lam where "lam = bm_lambda (berlekamp_massey g n ?S)"
    define om where "om = error_evaluator g n ?S lam"
    have lam: "locates n ?X lam"
      unfolding lam_def
      by (rule berlekamp_massey_locates [OF sw(1,2) power locators_nonzero Y])
        (use few card in simp_all)
    have deg: "lambda_degree n lam = card (wrong c w)"
      using lambda_degree_located [OF lam] few card by simp
    have chien: "chien_search g n (length w) lam = filter (\<lambda>p. p \<in> wrong c w) [0..<period g]"
      using chien_search_finds [OF lam _ len(3)] few card by simp
    define ps where "ps = filter (\<lambda>p. p \<in> wrong c w) [0..<period g]"
    have ps: "set ps = wrong c w" "distinct ps"
      using len(3) by (auto simp: ps_def wrong_def)
    then have "length ps = card (wrong c w)" by (metis distinct_card)
    note mag = magnitude_is_error [OF r len(1,3) K few sw(1,2) power lam, folded om_def]
    have "\<exists>v'. forney r (card (wrong c w)) lam om ps w = (v', True) \<and> length v' = length w \<and>
      (\<forall>p<length w. v' ! (length w - 1 - p) =
         (if p \<in> set ps then c ! (length w - 1 - p) else w ! (length w - 1 - p)))"
      by (rule forney_repairs) (use mag ps len fields in \<open>auto simp: wrong_def\<close>)
    then obtain v' where v': "forney r (card (wrong c w)) lam om ps w = (v', True)" "length v' = length w"
      "\<And>p. p < length w \<Longrightarrow> v' ! (length w - 1 - p) =
         (if p \<in> set ps then c ! (length w - 1 - p) else w ! (length w - 1 - p))" by blast
    have "v' = c"
    proof (rule nth_equalityI)
      fix i assume "i < length v'"
      then have i: "length w - 1 - i < length w" "length w - 1 - (length w - 1 - i) = i" using v'(2) by auto
      show "v' ! i = c ! i" using v'(3) [OF i(1)] i by (auto simp: ps(1) wrong_def split: if_splits)
    qed (use v'(2) len(1) in simp)
    have "card (wrong c w) \<noteq> 0" "card (wrong c w) \<le> n div 2" using False few finite_wrong by auto
    then have "rs_correct r ?S w = (c, Ok (card (wrong c w)))"
      using v'(1) \<open>v' = c\<close> \<open>length ps = card (wrong c w)\<close> deg chien code
      by (simp add: rs_correct_def fields Let_def lam_def [symmetric] om_def [symmetric] ps_def [symmetric])
    moreover have "(\<forall>s\<in>set ?S. s = 0) = False" using nonzero by blast
    ultimately show ?thesis using len(2) by (simp only: rs_decode_def Let_def simp_thms if_False)
  qed
qed

end

end
