(* ===== verification/ReedProps.thy ===== *)
theory ReedProps
  imports ReedDecode
begin

text \<open>
  What callers rely on: the decoders of \<open>fec/rs.rs\<close> and \<open>fec/rs_gf64.rs\<close> repair up to half as many
  wrong symbols as there are parity symbols, and never return a block that is not a codeword.
\<close>

text \<open>The number of places where two words differ.\<close>

definition symbol_errors :: "u8 list \<Rightarrow> u8 list \<Rightarrow> nat" where
  "symbol_errors a b = length (filter (\<lambda>(x, y). x \<noteq> y) (zip a b))"

lemma symbol_errors_card:
  "length a = length b \<Longrightarrow> symbol_errors a b = card {i. i < length b \<and> a ! i \<noteq> b ! i}"
  unfolding symbol_errors_def length_filter_conv_card by (intro arg_cong [where f = card]) auto

lemma symbol_errors_self [simp]: "symbol_errors a a = 0"
  by (simp add: symbol_errors_card)

lemma symbol_errors_append:
  "length a = length c \<Longrightarrow> symbol_errors (a @ b) (c @ d) = symbol_errors a c + symbol_errors b d"
  by (simp add: symbol_errors_def)

context gf_rep
begin

lemma card_wrong:
  assumes "length c = length w"
  shows "card (wrong c w) = symbol_errors c w"
proof -
  have "bij_betw (\<lambda>p. length w - 1 - p) (wrong c w) {i. i < length w \<and> c ! i \<noteq> w ! i}"
    by (rule bij_betw_byWitness [where f' = "\<lambda>i. length w - 1 - i"]) (auto simp: wrong_def)
  then show ?thesis using assms by (simp add: symbol_errors_card bij_betw_same_card)
qed

lemma encoded_corrected:
  assumes r: "r = rs_over g n fcr" and "0 < n" "set data \<subseteq> K" "set w \<subseteq> K"
    "length w = length data + n" "length w \<le> period g"
    "2 * symbol_errors (data @ encode_parity r data) w \<le> n"
  shows "rs_decode r w = Some (data @ encode_parity r data, Ok (symbol_errors (data @ encode_parity r data) w))"
proof -
  let ?c = "data @ encode_parity r data"
  have c: "length ?c = length w" "set ?c \<subseteq> K" using encode_parity_ok [OF assms(1-3)] assms by auto
  have "w \<noteq> []" using assms by auto
  from decode_corrects [OF r c(1) this assms(6) c(2) assms(4) encoded_syndromes_zero [OF assms(1-3)]]
    card_wrong [OF c(1)] assms(7) show ?thesis by simp
qed

end

section \<open>Reed--Solomon over GF(256)\<close>

lemma rs256_corrects:
  assumes "0 < nroots" "length w = length data + nroots" "length w \<le> 255"
    "2 * symbol_errors (data @ encode_parity (rs_new nroots fcr 0x1D) data) w \<le> nroots"
  shows "rs_decode (rs_new nroots fcr 0x1D) w =
    Some (data @ encode_parity (rs_new nroots fcr 0x1D) data,
      Ok (symbol_errors (data @ encode_parity (rs_new nroots fcr 0x1D) data) w))"
proof -
  have "period (build_tables 0x1D) = 255"
    by (simp add: build_tables_def fill_tables_def split: prod.splits del: replicate_Suc upt_Suc)
  with rep256.encoded_corrected [OF rs_new_def assms(1), of data w fcr] assms(2-4) show ?thesis by simp
qed

lemma rs256_parity_length: "0 < nroots \<Longrightarrow> length (encode_parity (rs_new nroots fcr 0x1D) data) = nroots"
  using rep256.encode_parity_ok(1) [OF rs_new_def] by simp

text \<open>C19: Reed--Solomon over GF(256) with the polynomial 0x1D (IL2P and FX.25; the 64-element field of JT65 is lemma \<open>rs64_corrects\<close>), with any number of roots and any first root, repairs every pattern of at most nroots/2 wrong symbols in a block of up to 255 symbols, whatever the data, and reports how many it repaired.\<close>

theorem rs_repairs_half_the_parity:
  assumes "0 < nroots" "length w = length data + nroots" "length w \<le> 255"
    "2 * symbol_errors (data @ encode_parity (rs_new nroots fcr 0x1D) data) w \<le> nroots"
  shows "rs_decode (rs_new nroots fcr 0x1D) w =
    Some (data @ encode_parity (rs_new nroots fcr 0x1D) data,
      Ok (symbol_errors (data @ encode_parity (rs_new nroots fcr 0x1D) data) w))"
  by (rule rs256_corrects [OF assms])

lemma rs_repairs_half_the_parity_witness:
  "rs_decode (rs_new 4 1 0x1D) ([9, 8, 7, 200] @ encode_parity (rs_new 4 1 0x1D) [0x41, 0x42, 7, 200]) =
     Some ([0x41, 0x42, 7, 200] @ encode_parity (rs_new 4 1 0x1D) [0x41, 0x42, 7, 200], Ok 2)"
proof -
  let ?p = "encode_parity (rs_new 4 1 0x1D) [0x41, 0x42, 7, 200]"
  have "symbol_errors ([0x41, 0x42, 7, 200] @ ?p) ([9, 8, 7, 200] @ ?p) = 2"
    by (simp only: symbol_errors_append list.size symbol_errors_self) (simp add: symbol_errors_def)
  then show ?thesis
    using rs_repairs_half_the_parity [of 4 "[9, 8, 7, 200] @ ?p" "[0x41, 0x42, 7, 200]" 1]
    by (simp add: rs256_parity_length)
qed

section \<open>Nothing but codewords\<close>

lemma forney_changes:
  "forney r d lam om ps v = (v', ok) \<Longrightarrow> length v' = length v \<and> symbol_errors v v' \<le> length ps"
proof (induction ps arbitrary: v)
  case (Cons p ps)
  let ?lp = "lambda_prime (rs_gf r) d lam p"
  let ?i = "length v - 1 - p"
  let ?v = "v[?i := v ! ?i XOR error_magnitude r om p ?lp]"
  show ?case
  proof (cases "?lp = 0")
    case False
    with Cons have IH: "length v' = length v" "symbol_errors ?v v' \<le> length ps" by (force simp: Let_def)+
    have "{i. i < length v \<and> v ! i \<noteq> v' ! i} \<subseteq> insert ?i {i. i < length v \<and> ?v ! i \<noteq> v' ! i}" by auto
    then have "card {i. i < length v \<and> v ! i \<noteq> v' ! i} \<le> card (insert ?i {i. i < length v \<and> ?v ! i \<noteq> v' ! i})"
      by (intro card_mono) auto
    also have "\<dots> \<le> Suc (card {i. i < length v \<and> ?v ! i \<noteq> v' ! i})" by (rule card_insert_le_m1) auto
    finally show ?thesis using IH by (simp add: symbol_errors_card)
  qed (use Cons in \<open>simp add: Let_def\<close>)
qed simp

lemma rs_decode_ok:
  assumes "rs_decode r w = Some (w', Ok k)"
  shows "length w' = length w \<and> (\<forall>s\<in>set (rs_syndromes r w'). s = 0) \<and>
    symbol_errors w w' \<le> k \<and> k \<le> rs_nroots r div 2"
proof (cases "\<forall>s\<in>set (rs_syndromes r w). s = 0")
  case True
  with assms show ?thesis by (auto simp: rs_decode_def split: if_splits)
next
  case False
  then have "rs_correct r (rs_syndromes r w) w = (w', Ok k)"
    using assms unfolding rs_decode_def Let_def by (simp only: if_False split: if_splits) auto
  then show ?thesis
    by (auto simp: rs_correct_def Let_def split: if_splits prod.splits bool.splits dest: forney_changes)
qed

text \<open>C25: Whatever was received, a block that the decoder returns as Ok is a codeword (all its syndromes vanish), of the same length, and differs from the received one in at most as many symbols as reported, at most nroots/2.\<close>

theorem rs_returns_codewords:
  assumes "rs_decode (rs_new nroots fcr prim) w = Some (w', Ok k)"
  shows "length w' = length w \<and> (\<forall>s\<in>set (rs_syndromes (rs_new nroots fcr prim) w'). s = 0) \<and>
    symbol_errors w w' \<le> k \<and> k \<le> nroots div 2"
  using rs_decode_ok [OF assms] by (simp add: rs_new_def rs_over_def)

lemma rs_returns_codewords_witness:
  "\<exists>w'. rs_decode (rs_new 4 1 0x1D) (5 # encode_parity (rs_new 4 1 0x1D) [0x41]) = Some (w', Ok 1) \<and>
     length w' = 5 \<and> symbol_errors (5 # encode_parity (rs_new 4 1 0x1D) [0x41]) w' \<le> 1"
proof -
  let ?r = "rs_new 4 1 0x1D" and ?p = "encode_parity (rs_new 4 1 0x1D) [0x41]"
  have "symbol_errors ([0x41] @ ?p) ([5] @ ?p) = 1"
    by (simp only: symbol_errors_append list.size symbol_errors_self) (simp add: symbol_errors_def)
  then have d: "rs_decode ?r (5 # ?p) = Some ([0x41] @ ?p, Ok 1)"
    using rs256_corrects [of 4 "[5] @ ?p" "[0x41]" 1] by (simp add: rs256_parity_length)
  from rs_returns_codewords [OF d] d show ?thesis by (auto simp: rs256_parity_length)
qed

section \<open>JT65's code over GF(64)\<close>

lemma rs64_corrects:
  assumes "length data = 12" "\<forall>s\<in>set data. s < 64" "length w = 63" "\<forall>s\<in>set w. s < 64"
    "symbol_errors (rs64_encode rs_jt65 data) w \<le> 25"
  shows "rs64_decode rs_jt65 w = Some data"
proof -
  have "period gf64_new = 63"
    by (simp add: gf64_new_def fill_tables_def split: prod.splits del: replicate_Suc upt_Suc)
  moreover have "set data \<subseteq> symbols64" "set w \<subseteq> symbols64" using assms by (auto simp: symbols64_def)
  ultimately show ?thesis using rep64.encoded_corrected [OF rs_jt65_def, of data w] assms
    by (simp add: rs64_decode_def rs64_decode_in_place_def rs64_encode_def)
qed

end
