(* ===== verification/Fx25.thy ===== *)
theory Fx25
  imports ReedProps
begin

text \<open>
  FX.25 (\<open>framing/fx25.rs\<close>): the table of correlation tags, and the wrapper that puts an intact HDLC
  frame into a Reed--Solomon block.
\<close>

record ctag_info =
  ct_tag :: u64
  ct_rs_block :: nat
  ct_data :: nat
  ct_parity :: nat

definition CTAGS :: "ctag_info list" where
  "CTAGS =
    [\<lparr>ct_tag = 0xB74DB7DF8A532F3E, ct_rs_block = 255, ct_data = 239, ct_parity = 16\<rparr>,
     \<lparr>ct_tag = 0x26FF60A600CC8FDE, ct_rs_block = 144, ct_data = 128, ct_parity = 16\<rparr>,
     \<lparr>ct_tag = 0xC7DC0508F3D9B09E, ct_rs_block = 80, ct_data = 64, ct_parity = 16\<rparr>,
     \<lparr>ct_tag = 0x8F056EB4369D6028, ct_rs_block = 48, ct_data = 32, ct_parity = 16\<rparr>,
     \<lparr>ct_tag = 0x69062E994C42E20A, ct_rs_block = 255, ct_data = 223, ct_parity = 32\<rparr>,
     \<lparr>ct_tag = 0x953A9229B78CE6C3, ct_rs_block = 144, ct_data = 112, ct_parity = 32\<rparr>,
     \<lparr>ct_tag = 0x163631552EDF1CF8, ct_rs_block = 80, ct_data = 48, ct_parity = 32\<rparr>,
     \<lparr>ct_tag = 0x4E8F0B073D5E0F29, ct_rs_block = 255, ct_data = 191, ct_parity = 64\<rparr>]"

text \<open>\<open>min_by_key\<close>: the first of the least elements.\<close>

fun min_by_key :: "('a \<Rightarrow> nat) \<Rightarrow> 'a list \<Rightarrow> 'a option" where
  "min_by_key f [] = None"
| "min_by_key f (x # xs) = (case min_by_key f xs of None \<Rightarrow> Some x | Some y \<Rightarrow> Some (if f x \<le> f y then x else y))"

definition select_ctag :: "nat \<Rightarrow> ctag_info option" where
  "select_ctag n = min_by_key ct_rs_block (filter (\<lambda>c. n \<le> ct_data c) CTAGS)"

definition ctag_by_tag :: "u64 \<Rightarrow> ctag_info option" where
  "ctag_by_tag tag = find (\<lambda>c. ct_tag c = tag) CTAGS"

definition u64_to_le_bytes :: "u64 \<Rightarrow> u8 list" where
  "u64_to_le_bytes v = map (\<lambda>i. ucast (drop_bit (8 * i) v)) [0..<8]"

definition u64_from_le_bytes :: "u8 list \<Rightarrow> u64" where
  "u64_from_le_bytes bs = foldr (\<lambda>b acc. push_bit 8 acc OR ucast b) bs 0"

definition fx25_wrap :: "u8 list \<Rightarrow> u8 list option" where
  "fx25_wrap hdlc_frame =
     (case select_ctag (length hdlc_frame) of None \<Rightarrow> None
      | Some info \<Rightarrow>
          let block = hdlc_frame @ replicate (ct_data info - length hdlc_frame) 0x7E;
              parity = encode_parity (rs_new (ct_parity info) 1 0x1D) block
          in Some (u64_to_le_bytes (ct_tag info) @ block @ parity))"

text \<open>The decoder cannot panic: the blocks of the table are not empty.\<close>

definition fx25_unwrap :: "u8 list \<Rightarrow> (u8 list, rs_error) result option" where
  "fx25_unwrap fx25 =
     (if length fx25 < 8 then Some (Err Uncorrectable)
      else case ctag_by_tag (u64_from_le_bytes (take 8 fx25)) of
        None \<Rightarrow> Some (Err Uncorrectable)
      | Some info \<Rightarrow>
          let needed = 8 + ct_data info + ct_parity info
          in if length fx25 < needed then Some (Err Uncorrectable)
             else case rs_decode (rs_new (ct_parity info) 1 0x1D) (drop 8 (take needed fx25)) of
                 None \<Rightarrow> None
               | Some (_, Err e) \<Rightarrow> Some (Err e)
               | Some (codeword, Ok _) \<Rightarrow> Some (Ok (take (ct_data info) codeword)))"

section \<open>Tags\<close>

lemma bit_byte_of: "bit (ucast (ucast (drop_bit j v) :: u8) :: u64) n \<longleftrightarrow> n < 8 \<and> bit v (j + n)" for v :: u64
  by (auto simp: bit_simps dest: bit_imp_le_length)

lemma bit_le_bytes:
  "bit (foldr (\<lambda>b acc. push_bit 8 acc OR ucast (b :: u8)) (map (\<lambda>i. ucast (drop_bit (8 * i) v)) [k..<k + m]) 0 :: u64) n
    \<longleftrightarrow> n < 64 \<and> n < 8 * m \<and> bit v (8 * k + n)" (is "bit (?F k m) n \<longleftrightarrow> _") for v :: u64
proof (induction m arbitrary: k n)
  case (Suc m)
  have "[k..<k + Suc m] = k # [Suc k..<Suc k + m]" by (simp add: upt_conv_Cons)
  then have step: "?F k (Suc m) = push_bit 8 (?F (Suc k) m) OR ucast (ucast (drop_bit (8 * k) v) :: u8)"
    by (simp only: list.map foldr.simps o_apply)
  have "8 * Suc k + (n - 8) = 8 * k + n" if "8 \<le> n" using that by simp
  then show ?case
    unfolding step bit_or_iff bit_push_bit_iff Suc.IH bit_byte_of
    by (auto simp: not_le dest: bit_imp_le_length)
qed simp

lemma le_bytes_inverse: "u64_from_le_bytes (u64_to_le_bytes v) = v"
  by (rule bit_word_eqI)
    (use bit_le_bytes [of v 0 8] in \<open>simp add: u64_from_le_bytes_def u64_to_le_bytes_def\<close>)

lemma length_le_bytes [simp]: "length (u64_to_le_bytes v) = 8"
  by (simp add: u64_to_le_bytes_def)

lemma ctag_by_tag_table: "info \<in> set CTAGS \<Longrightarrow> ctag_by_tag (ct_tag info) = Some info"
  unfolding CTAGS_def by (elim set_ConsD [THEN disjE]) (auto simp: ctag_by_tag_def CTAGS_def)

lemma ctag_geometry: "info \<in> set CTAGS \<Longrightarrow>
    ct_data info + ct_parity info = ct_rs_block info \<and> ct_rs_block info \<le> 255 \<and> 0 < ct_parity info \<and>
    even (ct_parity info)"
  by (auto simp: CTAGS_def)

lemma min_by_key_Some: "xs \<noteq> [] \<Longrightarrow> \<exists>y. min_by_key f xs = Some y \<and> y \<in> set xs \<and> (\<forall>x\<in>set xs. f y \<le> f x)"
  by (induction xs) (force split: option.splits)+

lemma min_by_key_None: "min_by_key f xs = None \<longleftrightarrow> xs = []"
  by (cases xs) (auto split: option.splits)

lemma select_ctag_Some:
  "select_ctag n = Some info \<Longrightarrow> info \<in> set CTAGS \<and> n \<le> ct_data info \<and>
    (\<forall>c\<in>set CTAGS. n \<le> ct_data c \<longrightarrow> ct_rs_block info \<le> ct_rs_block c)"
  using min_by_key_Some [of "filter (\<lambda>c. n \<le> ct_data c) CTAGS" ct_rs_block]
  by (cases "filter (\<lambda>c. n \<le> ct_data c) CTAGS = []") (auto simp: select_ctag_def min_by_key_None)

lemma select_ctag_None: "select_ctag n = None \<longleftrightarrow> 239 < n"
  by (auto simp: select_ctag_def min_by_key_None CTAGS_def filter_empty_conv)

section \<open>Repair\<close>

lemma fx25_unwrap_ok:
  assumes wrap: "fx25_wrap frame = Some out" and info: "select_ctag (length frame) = Some info"
    and rx: "take 8 rx = take 8 out" "length out \<le> length rx"
    and few: "2 * symbol_errors (drop 8 out) (take (length out - 8) (drop 8 rx)) \<le> ct_parity info"
  shows "fx25_unwrap rx = Some (Ok (frame @ replicate (ct_data info - length frame) 0x7E))"
proof -
  let ?r = "rs_new (ct_parity info) 1 0x1D"
  let ?block = "frame @ replicate (ct_data info - length frame) (0x7E :: u8)"
  note sel = select_ctag_Some [OF info]
  note geo = ctag_geometry [of info]
  have block: "length ?block = ct_data info" using sel by simp
  have parity: "length (encode_parity ?r ?block) = ct_parity info"
    using sel geo by (intro rs256_parity_length) blast
  have out: "out = u64_to_le_bytes (ct_tag info) @ ?block @ encode_parity ?r ?block"
    using wrap info by (simp add: fx25_wrap_def Let_def)
  then have len: "length out = 8 + ct_data info + ct_parity info" using block parity by simp
  let ?w = "drop 8 (take (8 + ct_data info + ct_parity info) rx)"
  have w: "?w = take (length out - 8) (drop 8 rx)" by (simp add: len drop_take)
  have "take 8 rx = u64_to_le_bytes (ct_tag info)" using rx(1) by (simp add: out)
  then have tag: "ctag_by_tag (u64_from_le_bytes (take 8 rx)) = Some info"
    using sel ctag_by_tag_table by (simp add: le_bytes_inverse)
  have "rs_decode ?r ?w = Some (?block @ encode_parity ?r ?block,
      Ok (symbol_errors (?block @ encode_parity ?r ?block) ?w))"
  proof (rule rs256_corrects)
    have "drop 8 out = ?block @ encode_parity ?r ?block" by (simp add: out)
    with few show "2 * symbol_errors (?block @ encode_parity ?r ?block) ?w \<le> ct_parity info"
      by (simp only: w)
    show "length ?w = length ?block + ct_parity info" "length ?w \<le> 255"
      using rx(2) len sel geo by (simp_all add: block)
  qed (use sel geo in blast)
  then show ?thesis using rx(2) len tag block by (simp add: fx25_unwrap_def Let_def)
qed

text \<open>C24: FX.25 recovers the wrapped HDLC frame verbatim, padded with flags, from a block with at most half as many wrong bytes as it has parity bytes, whatever follows it; every frame of up to 239 bytes can be wrapped, and longer ones are refused.\<close>

theorem fx25_recovers_frame:
  assumes "fx25_wrap frame = Some out" "select_ctag (length frame) = Some info"
    and "take 8 rx = take 8 out" "length out \<le> length rx"
    and "2 * symbol_errors (drop 8 out) (take (length out - 8) (drop 8 rx)) \<le> ct_parity info"
  shows "fx25_unwrap rx = Some (Ok (frame @ replicate (ct_data info - length frame) 0x7E)) \<and>
    (fx25_wrap f = None \<longleftrightarrow> 239 < length f)"
proof -
  have "fx25_wrap f = None \<longleftrightarrow> 239 < length f"
    using select_ctag_None [of "length f"] by (auto simp: fx25_wrap_def Let_def split: option.splits)
  with fx25_unwrap_ok [OF assms] show ?thesis by blast
qed

lemma fx25_recovers_frame_witness:
  "\<exists>out info. fx25_wrap [0x7E, 1, 2, 3, 0x7E] = Some out \<and>
     fx25_unwrap (take 8 out @ 0 # 9 # drop 10 out @ [1, 2, 3]) = Some (Ok ([0x7E, 1, 2, 3, 0x7E] @ replicate 27 0x7E))"
proof -
  let ?f = "[0x7E, 1, 2, 3, 0x7E] :: u8 list"
  define info where "info = \<lparr>ct_tag = 0x8F056EB4369D6028, ct_rs_block = 48, ct_data = 32, ct_parity = 16\<rparr>"
  have info: "select_ctag (length ?f) = Some info" by (simp add: select_ctag_def CTAGS_def info_def)
  define p where "p = encode_parity (rs_new 16 1 0x1D) (?f @ replicate 27 0x7E)"
  define out where "out = u64_to_le_bytes (ct_tag info) @ ?f @ replicate 27 0x7E @ p"
  have wrap: "fx25_wrap ?f = Some out"
    using info by (simp add: fx25_wrap_def out_def Let_def p_def info_def)
  have p: "length p = 16" by (simp add: p_def rs256_parity_length)
  let ?rx = "take 8 out @ 0 # 9 # drop 10 out @ [1, 2, 3]"
  have drop: "drop 8 out = [0x7E, 1] @ drop 10 out" "length (drop 10 out) = 46" "length out = 56"
    by (simp_all add: out_def p)
  have "take (length out - 8) (drop 8 ?rx) = [0, 9] @ drop 10 out" by (simp add: drop)
  then have "symbol_errors (drop 8 out) (take (length out - 8) (drop 8 ?rx)) = symbol_errors [0x7E, 1] [0, 9]"
    by (simp only: drop(1) symbol_errors_append list.size symbol_errors_self)
  also have "\<dots> = 2" by (simp add: symbol_errors_def)
  finally have "2 * symbol_errors (drop 8 out) (take (length out - 8) (drop 8 ?rx)) \<le> ct_parity info"
    by (simp add: info_def)
  from fx25_recovers_frame [OF wrap info _ _ this] wrap show ?thesis by (auto simp: drop info_def)
qed

end
