(* ===== verification/Il2p.thy ===== *)
theory Il2p
  imports ReedProps Ax25 LineCodes
begin

text \<open>
  IL2P (\<open>framing/il2p.rs\<close>): the packed header, the scrambled Reed--Solomon blocks, and both
  directions of the codec.
\<close>

definition IL2P_SYNC :: "u8 list" where "IL2P_SYNC = [0xF1, 0x5E, 0x48]"
definition HDR_DATA :: nat where "HDR_DATA = 13"
definition HDR_PARITY :: nat where "HDR_PARITY = 2"
definition PAY_PARITY :: nat where "PAY_PARITY = 16"
definition PAY_BLOCK :: nat where "PAY_BLOCK = 239"

section \<open>Bits and blocks\<close>

function chunks :: "nat \<Rightarrow> 'a list \<Rightarrow> 'a list list" where
  "chunks k xs = (if xs = [] \<or> k = 0 then [] else take k xs # chunks k (drop k xs))"
  by pat_completeness auto
termination by (relation "measure (\<lambda>(k, xs). length xs)") auto

declare chunks.simps [simp del]

definition msb_bits :: "nat \<Rightarrow> u8 \<Rightarrow> u8 list" where
  "msb_bits n b = map (\<lambda>i. drop_bit i b AND 1) (rev [0..<n])"

definition bytes_to_bits :: "u8 list \<Rightarrow> u8 list" where
  "bytes_to_bits bytes = concat (map (msb_bits 8) bytes)"

definition chunk_byte :: "u8 list \<Rightarrow> u8" where
  "chunk_byte c = foldl (\<lambda>b (i, bit). b OR push_bit (7 - i) bit) 0 (enumerate 0 c)"

definition bits_to_bytes :: "u8 list \<Rightarrow> u8 list" where
  "bits_to_bytes bits = map chunk_byte (chunks 8 bits)"

definition scramble_bytes :: "u8 list \<Rightarrow> u8 list" where
  "scramble_bytes bytes = bits_to_bytes (snd (frame_reset_apply frame_reset_seed (bytes_to_bits bytes)))"

definition descramble_bytes :: "u8 list \<Rightarrow> u8 list" where
  "descramble_bytes bytes = scramble_bytes bytes"

section \<open>Header\<close>

definition char_to_6bit :: "u8 \<Rightarrow> u8" where
  "char_to_6bit c =
     (if c = 0x20 then 0
      else if 0x30 \<le> c \<and> c \<le> 0x39 then 1 + (c - 0x30)
      else if 0x41 \<le> c \<and> c \<le> 0x5A then 11 + (c - 0x41)
      else if 0x61 \<le> c \<and> c \<le> 0x7A then 11 + (c - 0x61)
      else 0)"

definition char_from_6bit :: "u8 \<Rightarrow> u8" where
  "char_from_6bit v =
     (if v = 0 then 0x20
      else if 1 \<le> v \<and> v \<le> 10 then 0x30 + (v - 1)
      else if 11 \<le> v \<and> v \<le> 36 then 0x41 + (v - 11)
      else 0x20)"

definition call_to_6bit :: "u8 list \<Rightarrow> u8 list" where
  "call_to_6bit call = map (\<lambda>i. char_to_6bit (if i < length call then call ! i else 0x20)) [0..<6]"

definition call_from_6bit :: "u8 list \<Rightarrow> u8 list" where
  "call_from_6bit syms = trim_end (map char_from_6bit syms)"

definition build_header :: "ax25_frame \<Rightarrow> u8 list" where
  "build_header f =
     (let bits = concat (map (msb_bits 6) (call_to_6bit (aa_call (af_dest f)) @ call_to_6bit (aa_call (af_source f))))
      in map chunk_byte (chunks 8 bits) @
         [(aa_ssid (af_dest f) AND 0x0F) OR push_bit 4 (aa_ssid (af_source f) AND 0x0F),
          0x03, 0xF0, of_nat (min (length (af_info f)) 255)])"

definition take6 :: "u8 list \<Rightarrow> nat \<Rightarrow> u8" where
  "take6 bits idx = foldl (\<lambda>v k. push_bit 1 v OR bits ! (idx + k)) 0 [0..<6]"

definition il2p_parse_header :: "u8 list \<Rightarrow> ax25_address \<times> ax25_address \<times> nat" where
  "il2p_parse_header hdr =
     (let bits = bytes_to_bits (take 9 hdr);
          dest_syms = map (\<lambda>i. take6 bits (i * 6)) [0..<6];
          src_syms = map (\<lambda>i. take6 bits (36 + i * 6)) [0..<6]
      in (address_new (call_from_6bit dest_syms) (hdr ! 9 AND 0x0F),
          address_new (call_from_6bit src_syms) (drop_bit 4 (hdr ! 9) AND 0x0F),
          unat (hdr ! 12)))"

section \<open>Codec\<close>

definition with_parity :: "nat \<Rightarrow> u8 list \<Rightarrow> u8 list" where
  "with_parity nroots data = data @ encode_parity (rs_new nroots 0 0x1D) data"

definition il2p_body :: "ax25_frame \<Rightarrow> u8 list" where
  "il2p_body f = with_parity HDR_PARITY (build_header f)
     @ concat (map (with_parity PAY_PARITY) (chunks PAY_BLOCK (af_info f)))"

definition il2p_encode :: "ax25_frame \<Rightarrow> u8 list" where
  "il2p_encode f = IL2P_SYNC @ scramble_bytes (il2p_body f)"

text \<open>One corrected block, \<open>decode(..).ok()?\<close>; the blocks are never empty.\<close>

definition corrected :: "nat \<Rightarrow> u8 list \<Rightarrow> u8 list option" where
  "corrected nroots cw =
     (case rs_decode (rs_new nroots 0 0x1D) cw of Some (cw1, Ok _) \<Rightarrow> Some cw1 | _ \<Rightarrow> None)"

text \<open>The payload loop on what is left of the body.\<close>

function il2p_payload :: "u8 list \<Rightarrow> nat \<Rightarrow> u8 list option" where
  "il2p_payload body remaining =
     (if remaining = 0 then Some []
      else let data_len = min remaining PAY_BLOCK; block_len = data_len + PAY_PARITY
           in if block_len > length body then None
              else case corrected PAY_PARITY (take block_len body) of None \<Rightarrow> None
                | Some cw \<Rightarrow> map_option (\<lambda>rest. take data_len cw @ rest)
                    (il2p_payload (drop block_len body) (remaining - data_len)))"
  by pat_completeness auto
termination by (relation "measure snd") (auto simp: PAY_BLOCK_def)

declare il2p_payload.simps [simp del]

definition il2p_decode :: "u8 list \<Rightarrow> ax25_frame option" where
  "il2p_decode bytes =
     (if length bytes < 3 \<or> take 3 bytes \<noteq> IL2P_SYNC then None
      else let body = descramble_bytes (drop 3 bytes)
           in if length body < HDR_DATA + HDR_PARITY then None
              else case corrected HDR_PARITY (take (HDR_DATA + HDR_PARITY) body) of None \<Rightarrow> None
                | Some hdr_cw \<Rightarrow>
                    (case il2p_parse_header (take HDR_DATA hdr_cw) of (dest, source, info_len) \<Rightarrow>
                       map_option (\<lambda>info. \<lparr>af_dest = dest, af_source = source, af_digipeaters = [], af_info = info\<rparr>)
                         (il2p_payload (drop (HDR_DATA + HDR_PARITY) body) info_len)))"

section \<open>Chunks\<close>

lemma chunks_Nil [simp]: "chunks k [] = []"
  by (simp add: chunks.simps)

lemma chunks_short: "xs \<noteq> [] \<Longrightarrow> length xs \<le> k \<Longrightarrow> chunks k xs = [xs]"
  by (subst chunks.simps) (cases k; auto)

lemma chunks_append: "length xs = k \<Longrightarrow> 0 < k \<Longrightarrow> chunks k (xs @ ys) = xs # chunks k ys"
  by (subst chunks.simps) auto

lemma chunks_concat:
  "(\<And>x. x \<in> set xs \<Longrightarrow> length (f x) = k) \<Longrightarrow> 0 < k \<Longrightarrow> chunks k (concat (map f xs)) = map f xs"
  by (induction xs) (simp_all add: chunks_append)

section \<open>Bytes and bits\<close>

lemma length_msb_bits [simp]: "length (msb_bits n b) = n"
  by (simp add: msb_bits_def)

lemma bits01_msb [simp]: "bits01 (msb_bits n b)"
  using and_1_cases by (auto simp: msb_bits_def bits01_def)

lemma bit_lowest: "bit (b AND 1) n \<longleftrightarrow> n = 0 \<and> bit b 0" for b :: u8
  by (auto simp: bit_and_iff bit_1_iff)

lemma bit_placed: "x = 0 \<or> x = 1 \<Longrightarrow> k < 8 \<Longrightarrow> bit (push_bit k x) n \<longleftrightarrow> x = 1 \<and> n = k" for x :: u8
  by (auto simp: bit_push_bit_iff bit_1_iff simp del: push_bit_of_1 push_bit_of_0)

lemma bit_chunk_fold:
  assumes "bits01 c" "k + length c \<le> 8"
  shows "bit (foldl (\<lambda>b (i, bit). b OR push_bit (7 - i) bit) acc (enumerate k c)) n \<longleftrightarrow>
    bit acc n \<or> (k + n < 8 \<and> 8 \<le> n + k + length c \<and> c ! (7 - n - k) = 1)"
  using assms
proof (induction c arbitrary: acc k)
  case (Cons x c)
  then have "bit (push_bit (7 - k) x) n \<longleftrightarrow> x = 1 \<and> n = 7 - k" by (intro bit_placed) auto
  then have here: "bit (acc OR push_bit (7 - k) x) n \<longleftrightarrow> bit acc n \<or> x = 1 \<and> n = 7 - k"
    by (simp only: bit_or_iff)
  have step: "foldl (\<lambda>b (i, bit). b OR push_bit (7 - i) bit) acc (enumerate k (x # c))
      = foldl (\<lambda>b (i, bit). b OR push_bit (7 - i) bit) (acc OR push_bit (7 - k) x) (enumerate (Suc k) c)" by simp
  have c: "bits01 c" "Suc k + length c \<le> 8" using Cons.prems by auto
  show ?case
  proof (cases "n = 7 - k")
    case True
    then show ?thesis using c(2) unfolding step Cons.IH [OF c] here by auto
  next
    case False
    have "(x # c) ! (7 - n - k) = c ! (7 - n - Suc k)" if "k + n < 8"
      using that False by (auto simp: nth_Cons')
    then show ?thesis using c(2) False unfolding step Cons.IH [OF c] here by auto
  qed
qed auto

lemma bit_chunk_byte:
  assumes "length c = 8" "bits01 c"
  shows "bit (chunk_byte c) n \<longleftrightarrow> n < 8 \<and> c ! (7 - n) = 1"
  using bit_chunk_fold [OF assms(2), of 0 0 n] assms(1) by (auto simp: chunk_byte_def)

lemma msb_bits_nth: "i < n \<Longrightarrow> msb_bits n b ! i = (if bit b (n - 1 - i) then 1 else 0)"
proof -
  assume "i < n"
  then have "msb_bits n b ! i = drop_bit (n - 1 - i) b AND 1" by (simp add: msb_bits_def rev_nth)
  also have "\<dots> = (if bit b (n - 1 - i) then 1 else 0)"
    by (simp add: and_one_eq bit_iff_odd_drop_bit mod2_eq_if)
  finally show ?thesis .
qed

lemma chunk_byte_msb [simp]: "chunk_byte (msb_bits 8 b) = b"
  by (rule bit_word_eqI) (simp add: bit_chunk_byte msb_bits_nth)

lemma msb_chunk_byte: "length c = 8 \<Longrightarrow> bits01 c \<Longrightarrow> msb_bits 8 (chunk_byte c) = c"
proof (rule nth_equalityI)
  fix i assume c: "length c = 8" "bits01 c" and "i < length (msb_bits 8 (chunk_byte c))"
  then have "i < 8" by simp
  then have "c ! i \<in> set c" using c(1) by simp
  with c(2) have "c ! i = 0 \<or> c ! i = 1" by (auto simp: bits01_def)
  then show "msb_bits 8 (chunk_byte c) ! i = c ! i" using c \<open>i < 8\<close> by (auto simp: msb_bits_nth bit_chunk_byte)
qed simp

lemma bits_to_bytes_to_bits: "bits_to_bytes (bytes_to_bits bs) = bs"
  by (simp add: bits_to_bytes_def bytes_to_bits_def chunks_concat comp_def)

lemma bytes_to_bits_to_bytes:
  "length bits = 8 * n \<Longrightarrow> bits01 bits \<Longrightarrow>
     length (bits_to_bytes bits) = n \<and> bytes_to_bits (bits_to_bytes bits) = bits"
proof (induction n arbitrary: bits)
  case (Suc n)
  then have len: "length (take 8 bits) = 8" "length (drop 8 bits) = 8 * n" by auto
  have b: "bits01 (take 8 bits)" "bits01 (drop 8 bits)"
    using Suc.prems(2) by (metis append_take_drop_id bits01_append)+
  have "bits_to_bytes (take 8 bits @ drop 8 bits) = chunk_byte (take 8 bits) # bits_to_bytes (drop 8 bits)"
    unfolding bits_to_bytes_def by (subst chunks_append [OF len(1)]) simp_all
  with Suc.IH [OF len(2) b(2)] msb_chunk_byte [OF len(1) b(1)] show ?case
    by (simp add: bytes_to_bits_def)
qed (simp add: bits_to_bytes_def bytes_to_bits_def)

lemma bits01_bytes [simp]: "bits01 (bytes_to_bits bs)"
  unfolding bytes_to_bits_def by (rule bits01_concat) simp

lemma length_bytes_to_bits [simp]: "length (bytes_to_bits bs) = 8 * length bs"
  by (induction bs) (simp_all add: bytes_to_bits_def)

section \<open>The scrambler on bytes\<close>

definition scrambler_bits :: "u8 list \<Rightarrow> u8 list" where
  "scrambler_bits bs = snd (frame_reset_apply frame_reset_seed bs)"

lemma scrambler_bits_simps:
  "length (scrambler_bits bs) = length bs" "bits01 (scrambler_bits bs)"
  "bits01 bs \<Longrightarrow> scrambler_bits (scrambler_bits bs) = bs"
  using il2p_scrambler.dec_enc [of bs]
  by (simp_all add: scrambler_bits_def frame_reset_apply_def additive01 frame_reset_key01)

lemma scramble_bytes_bits: "bytes_to_bits (scramble_bytes bs) = scrambler_bits (bytes_to_bits bs)"
  and length_scramble_bytes [simp]: "length (scramble_bytes bs) = length bs"
  using bytes_to_bits_to_bytes [of "scrambler_bits (bytes_to_bits bs)" "length bs"] scrambler_bits_simps
  by (simp_all add: scramble_bytes_def scrambler_bits_def [symmetric])

lemma descramble_scramble_bytes: "descramble_bytes (scramble_bytes bs) = bs"
proof -
  have "bytes_to_bits (descramble_bytes (scramble_bytes bs)) = bytes_to_bits bs"
    by (simp add: descramble_bytes_def scramble_bytes_bits scrambler_bits_simps)
  then show ?thesis by (metis bits_to_bytes_to_bits)
qed

text \<open>A byte of the output depends only on the byte of the input at its place.\<close>

lemma additive_local:
  "i < length bs \<Longrightarrow> i < length cs \<Longrightarrow> bs ! i = cs ! i \<Longrightarrow>
     snd (map_state (additive_step nk) st bs) ! i = snd (map_state (additive_step nk) st cs) ! i"
proof (induction bs arbitrary: st cs i)
  case (Cons b bs)
  then obtain c cs' where cs: "cs = c # cs'" by (cases cs) auto
  have st: "fst (additive_step nk st b) = fst (nk st)" for b by (simp add: additive_step_def split_beta)
  show ?case
  proof (cases i)
    case 0
    with Cons.prems cs show ?thesis by (simp add: split_beta)
  next
    case (Suc j)
    with Cons.prems cs Cons.IH [of j cs' "fst (nk st)"] show ?thesis by (simp add: split_beta st)
  qed
qed simp

lemma bytes_to_bits_nth: "j < length bs \<Longrightarrow> i < 8 \<Longrightarrow> bytes_to_bits bs ! (8 * j + i) = msb_bits 8 (bs ! j) ! i"
proof (induction bs arbitrary: j)
  case (Cons b bs)
  then show ?case by (cases j) (simp_all add: bytes_to_bits_def nth_append)
qed simp

lemma scramble_bytes_local:
  assumes "j < length as" "j < length bs"
  shows "scramble_bytes as ! j = scramble_bytes bs ! j \<longleftrightarrow> as ! j = bs ! j"
proof -
  have one: "scramble_bytes as ! j = scramble_bytes bs ! j"
    if "j < length as" "j < length bs" "as ! j = bs ! j" for as bs
  proof -
    have "msb_bits 8 (scramble_bytes as ! j) ! i = msb_bits 8 (scramble_bytes bs ! j) ! i" if i: "i < 8" for i
    proof -
      have "8 * j + i < 8 * length as" "8 * j + i < 8 * length bs" using i \<open>j < length as\<close> \<open>j < length bs\<close> by auto
      then have "scrambler_bits (bytes_to_bits as) ! (8 * j + i) = scrambler_bits (bytes_to_bits bs) ! (8 * j + i)"
        unfolding scrambler_bits_def frame_reset_apply_def
        using \<open>as ! j = bs ! j\<close> \<open>j < length as\<close> \<open>j < length bs\<close> i
        by (intro additive_local) (simp_all add: bytes_to_bits_nth)
      then show ?thesis
        using bytes_to_bits_nth [of j "scramble_bytes as" i] bytes_to_bits_nth [of j "scramble_bytes bs" i] \<open>j < length as\<close> \<open>j < length bs\<close> i
        by (simp add: scramble_bytes_bits)
    qed
    then have "msb_bits 8 (scramble_bytes as ! j) = msb_bits 8 (scramble_bytes bs ! j)"
      by (intro nth_equalityI) simp_all
    then show ?thesis by (metis chunk_byte_msb)
  qed
  from one [OF assms] one [of "scramble_bytes as" "scramble_bytes bs"] assms
    descramble_scramble_bytes [of as] descramble_scramble_bytes [of bs]
  show ?thesis by (auto simp: descramble_bytes_def)
qed

section \<open>The header comes back\<close>

text \<open>The characters of a call: digits and capital letters.\<close>

definition call_codes :: "u8 list" where
  "call_codes = map word_of_nat ([48..<58] @ [65..<91])"

definition il2p_call :: "u8 list \<Rightarrow> bool" where
  "il2p_call call \<longleftrightarrow> length call \<le> 6 \<and> set call \<subseteq> set call_codes"

lemma call_code_facts:
  "c \<in> set call_codes \<Longrightarrow> char_from_6bit (char_to_6bit c) = c \<and> char_to_6bit c < 64 \<and> ascii_upper c = c \<and>
     \<not> is_whitespace c"
proof -
  have "list_all (\<lambda>c. char_from_6bit (char_to_6bit c) = c \<and> char_to_6bit c < 64 \<and> ascii_upper c = c \<and>
     \<not> is_whitespace c) call_codes" by code_simp
  then show "c \<in> set call_codes \<Longrightarrow> ?thesis" by (auto simp: list_all_iff)
qed

lemma bits_less_64: "v < 64 \<Longrightarrow> bit v n \<Longrightarrow> n < 6" for v :: u8
  using less64 [of v] bit_imp_le_length [of v n] by (cases "n = 6"; cases "n = 7") auto

lemma bit_shift_loop:
  fixes f :: "nat \<Rightarrow> u8"
  assumes "\<And>k. k < m \<Longrightarrow> f k = 0 \<or> f k = 1" "m \<le> 8"
  shows "bit (foldl (\<lambda>v k. push_bit 1 v OR f k) 0 [0..<m]) n \<longleftrightarrow> n < m \<and> f (m - 1 - n) = 1"
  using assms
proof (induction m arbitrary: n)
  case (Suc m)
  define v where "v = foldl (\<lambda>v k. push_bit 1 v OR f k) 0 [0..<m]"
  have v: "bit v n \<longleftrightarrow> n < m \<and> f (m - 1 - n) = 1" for n unfolding v_def using Suc by simp
  have "bit (f m) n \<longleftrightarrow> n = 0 \<and> f m = 1" using Suc.prems(1) [of m] by (auto simp: bit_1_iff)
  moreover have "bit (push_bit 1 v) n \<longleftrightarrow> n \<noteq> 0 \<and> bit v (n - 1)"
    using Suc.prems(2) v [of "n - 1"] by (simp only: bit_push_bit_iff) auto
  moreover have "m - 1 - (n - 1) = m - n" if "n \<noteq> 0" using that by simp
  moreover have "foldl (\<lambda>v k. push_bit 1 v OR f k) 0 [0..<Suc m] = push_bit 1 v OR f m" by (simp add: v_def)
  ultimately show ?case by (cases "n = 0") (auto simp: bit_or_iff v simp del: push_bit_Suc)
qed simp

lemma take6_msb:
  assumes "v < 64" "\<And>k. k < 6 \<Longrightarrow> bits ! (idx + k) = msb_bits 6 v ! k"
  shows "take6 bits idx = v"
proof -
  have b: "bits ! (idx + k) = (if bit v (5 - k) then 1 else 0)" if "k < 6" for k
    using assms(2) [OF that] msb_bits_nth [OF that, of v] by simp
  show ?thesis
  proof (rule bit_word_eqI)
    fix n
    have "bit (take6 bits idx) n \<longleftrightarrow> n < 6 \<and> bits ! (idx + (5 - n)) = 1"
      unfolding take6_def by (subst bit_shift_loop) (use b in auto)
    also have "\<dots> \<longleftrightarrow> bit v n" using b [of "5 - n"] bits_less_64 [OF assms(1), of n] by auto
    finally show "bit (take6 bits idx) n = bit v n" .
  qed
qed

lemma concat_msb_nth: "i < length vs \<Longrightarrow> k < 6 \<Longrightarrow> concat (map (msb_bits 6) vs) ! (i * 6 + k) = msb_bits 6 (vs ! i) ! k"
proof (induction vs arbitrary: i)
  case (Cons v vs)
  then show ?case by (cases i) (simp_all add: nth_append)
qed simp

lemma length_concat_msb: "length (concat (map (msb_bits 6) vs)) = 6 * length vs"
  by (induction vs) simp_all

lemma length_call_to_6bit [simp]: "length (call_to_6bit call) = 6"
  by (simp add: call_to_6bit_def)

lemma call_to_6bit_less: "il2p_call call \<Longrightarrow> i < 6 \<Longrightarrow> call_to_6bit call ! i < 64"
  using call_code_facts [of "call ! i"] by (auto simp: call_to_6bit_def il2p_call_def subset_iff char_to_6bit_def [of "0x20"])

lemma call_from_to_6bit: "il2p_call call \<Longrightarrow> call_from_6bit (call_to_6bit call) = call"
proof -
  assume call: "il2p_call call"
  have "map char_from_6bit (call_to_6bit call) = call @ replicate (6 - length call) 0x20"
    using call call_code_facts
    by (intro nth_equalityI)
      (auto simp: il2p_call_def call_to_6bit_def nth_append subset_iff char_to_6bit_def [of "0x20"] char_from_6bit_def [of 0])
  moreover have "call = [] \<or> \<not> is_whitespace (last call)"
    using call call_code_facts [of "last call"] by (auto simp: il2p_call_def subset_iff)
  ultimately show ?thesis by (simp add: call_from_6bit_def trim_padding)
qed

lemma bit_nibble: "bit (a AND 0x0F) n \<longleftrightarrow> n < 4 \<and> bit a n" for a :: u8
proof -
  have m: "(0x0F :: u8) = mask 4" by (simp add: mask_eq_exp_minus_1)
  show ?thesis unfolding m bit_and_iff bit_mask_iff by (auto dest: bit_imp_le_length)
qed

lemma nibble_less: "a < 16 \<Longrightarrow> a AND 0x0F = a" for a :: u8
proof -
  assume "a < 16"
  then have small: "unat a < 16" by (simp add: word_less_nat_alt)
  have "unat (take_bit 4 a) = unat a"
    using small by (subst unsigned_take_bit_eq) (simp add: take_bit_eq_mod)
  then have "take_bit 4 a = a" by (rule unat_inject)
  moreover have "a AND 0x0F = take_bit 4 a"
    by (rule bit_word_eqI) (simp only: bit_nibble bit_take_bit_iff)
  ultimately show ?thesis by simp
qed

lemma nibbles:
  fixes a b :: u8
  assumes "a < 16" "b < 16"
  shows "(a OR push_bit 4 b) AND 0x0F = a" "drop_bit 4 (a OR push_bit 4 b) AND 0x0F = b"
proof -
  have a: "bit a n \<Longrightarrow> n < 4" and b: "bit b n \<Longrightarrow> n < 4" for n
    using bit_nibble [of a n] bit_nibble [of b n] nibble_less [OF assms(1)] nibble_less [OF assms(2)] by auto
  show "(a OR push_bit 4 b) AND 0x0F = a"
    by (rule bit_word_eqI) (simp only: bit_nibble bit_or_iff bit_push_bit_iff, use a in \<open>auto dest: bit_imp_le_length\<close>)
  show "drop_bit 4 (a OR push_bit 4 b) AND 0x0F = b"
    by (rule bit_word_eqI)
      (simp only: bit_nibble bit_or_iff bit_push_bit_iff bit_drop_bit_eq o_apply, use a [of "4 + _"] b in \<open>auto dest: bit_imp_le_length\<close>)
qed

lemma address_new_same: "il2p_call call \<Longrightarrow> ssid < 16 \<Longrightarrow>
    address_new call ssid = \<lparr>aa_call = call, aa_ssid = ssid\<rparr>"
proof -
  assume call: "il2p_call call" and "ssid < 16"
  have "map ascii_upper call = call"
    by (rule map_idI) (use call call_code_facts in \<open>unfold il2p_call_def, blast\<close>)
  with \<open>ssid < 16\<close> show ?thesis by (simp only: address_new_def nibble_less)
qed

definition il2p_frame :: "ax25_frame \<Rightarrow> bool" where
  "il2p_frame f \<longleftrightarrow> il2p_call (aa_call (af_dest f)) \<and> il2p_call (aa_call (af_source f)) \<and>
     aa_ssid (af_dest f) < 16 \<and> aa_ssid (af_source f) < 16 \<and> af_digipeaters f = [] \<and> length (af_info f) \<le> 255"

lemma length_build_header [simp]: "length (build_header f) = 13"
proof -
  let ?bits = "concat (map (msb_bits 6) (call_to_6bit (aa_call (af_dest f)) @ call_to_6bit (aa_call (af_source f))))"
  have "length (bits_to_bytes ?bits) = 9"
    using bytes_to_bits_to_bytes [of ?bits 9] by (simp add: length_concat_msb bits01_concat)
  then show ?thesis by (simp add: build_header_def bits_to_bytes_def [symmetric])
qed

lemma parse_build_header:
  assumes "il2p_frame f"
  shows "il2p_parse_header (build_header f) = (af_dest f, af_source f, length (af_info f))"
proof -
  let ?d = "call_to_6bit (aa_call (af_dest f))" and ?s = "call_to_6bit (aa_call (af_source f))"
  let ?bits = "concat (map (msb_bits 6) (?d @ ?s))"
  have wf: "il2p_call (aa_call (af_dest f))" "il2p_call (aa_call (af_source f))"
    "aa_ssid (af_dest f) < 16" "aa_ssid (af_source f) < 16" "length (af_info f) \<le> 255"
    using assms by (auto simp: il2p_frame_def)
  have bytes: "length (bits_to_bytes ?bits) = 9" "bytes_to_bits (bits_to_bytes ?bits) = ?bits"
    using bytes_to_bits_to_bytes [of ?bits 9] by (simp_all add: length_concat_msb bits01_concat)
  have hdr: "build_header f = bits_to_bytes ?bits @
      [(aa_ssid (af_dest f) AND 0x0F) OR push_bit 4 (aa_ssid (af_source f) AND 0x0F),
       0x03, 0xF0, of_nat (min (length (af_info f)) 255)]"
    by (simp add: build_header_def bits_to_bytes_def)
  have sym: "take6 ?bits (i * 6) = (?d @ ?s) ! i" if "i < 12" for i
  proof (rule take6_msb)
    show "(?d @ ?s) ! i < 64"
      using that call_to_6bit_less [OF wf(1)] call_to_6bit_less [OF wf(2)] by (simp add: nth_append)
    show "?bits ! (i * 6 + k) = msb_bits 6 ((?d @ ?s) ! i) ! k" if "k < 6" for k
      using \<open>i < 12\<close> that by (intro concat_msb_nth) simp_all
  qed
  have "map (\<lambda>i. take6 ?bits (i * 6)) [0..<6] = ?d"
    by (rule nth_equalityI) (use sym in \<open>simp_all add: nth_append del: map_append concat_append\<close>)
  moreover have "map (\<lambda>i. take6 ?bits (36 + i * 6)) [0..<6] = ?s"
  proof (rule nth_equalityI)
    fix i assume "i < length (map (\<lambda>i. take6 ?bits (36 + i * 6)) [0..<6])"
    then have "i < 6" "36 + i * 6 = (6 + i) * 6" by auto
    then show "map (\<lambda>i. take6 ?bits (36 + i * 6)) [0..<6] ! i = ?s ! i"
      using sym [of "6 + i"] by (simp add: nth_append del: map_append concat_append)
  qed simp
  moreover have "(build_header f) ! 9 = aa_ssid (af_dest f) OR push_bit 4 (aa_ssid (af_source f))"
    "(build_header f) ! 12 = of_nat (min (length (af_info f)) 255)" "take 9 (build_header f) = bits_to_bytes ?bits"
    unfolding hdr nibble_less [OF wf(3)] nibble_less [OF wf(4)]
    using bytes(1) by (simp_all add: nth_append del: push_bit_Suc)
  ultimately show ?thesis
    using wf by (simp add: il2p_parse_header_def bytes(2) Let_def call_from_to_6bit nibbles [OF wf(3,4)] unat_of_nat
      address_new_same [of "aa_call (af_dest f)" "aa_ssid (af_dest f)"]
      address_new_same [of "aa_call (af_source f)" "aa_ssid (af_source f)"] del: map_append concat_append drop_bit_or)
qed

section \<open>Frames come back\<close>

lemma length_with_parity: "0 < n \<Longrightarrow> length (with_parity n data) = length data + n"
  by (simp add: with_parity_def rs256_parity_length)

lemma corrected_ok:
  assumes "0 < n" "length w = length data + n" "length w \<le> 255" "2 * symbol_errors (with_parity n data) w \<le> n"
  shows "corrected n w = Some (with_parity n data)"
  using rs256_corrects [of n w data 0] assms by (simp add: corrected_def with_parity_def)

definition payload_blocks :: "u8 list \<Rightarrow> u8 list" where
  "payload_blocks info = concat (map (with_parity PAY_PARITY) (chunks PAY_BLOCK info))"

lemma symbol_errors_slice:
  assumes "length as = length bs"
  shows "symbol_errors (take n (drop k as)) (take n (drop k bs)) =
    card {i. i < n \<and> k + i < length bs \<and> as ! (k + i) \<noteq> bs ! (k + i)}"
proof -
  have "length (take n (drop k as)) = length (take n (drop k bs))" using assms by simp
  then show ?thesis
    unfolding symbol_errors_card [OF \<open>length (take n (drop k as)) = length (take n (drop k bs))\<close>]
    by (intro arg_cong [where f = card]) (use assms in auto)
qed

text \<open>At most eight wrong bytes in each block of the payload, 255 bytes long but for the last.\<close>

definition few_errors :: "u8 list \<Rightarrow> u8 list \<Rightarrow> bool" where
  "few_errors tx rx \<longleftrightarrow> length rx = length tx \<and>
     (\<forall>j\<le>length tx div 255. symbol_errors (take 255 (drop (255 * j) tx)) (take 255 (drop (255 * j) rx)) \<le> 8)"

lemma few_errors_first: "few_errors tx rx \<Longrightarrow> symbol_errors (take 255 tx) (take 255 rx) \<le> 8"
  by (auto simp: few_errors_def dest: spec [of _ 0])

lemma few_errors_rest: "few_errors tx rx \<Longrightarrow> few_errors (drop 255 tx) (drop 255 rx)"
proof (cases "length tx < 255")
  case False
  assume few: "few_errors tx rx"
  have "symbol_errors (take 255 (drop (255 * j) (drop 255 tx))) (take 255 (drop (255 * j) (drop 255 rx))) \<le> 8"
    if "j \<le> length (drop 255 tx) div 255" for j
  proof -
    have "Suc j \<le> length tx div 255" using that False by (simp add: le_div_geq)
    then show ?thesis using few by (force simp: few_errors_def algebra_simps)
  qed
  with few show ?thesis by (simp add: few_errors_def)
qed (simp add: few_errors_def symbol_errors_def)

lemma il2p_payload_ok:
  "few_errors (payload_blocks info) rx \<Longrightarrow> il2p_payload rx (length info) = Some info"
proof (induction "length info" arbitrary: info rx rule: less_induct)
  case less
  show ?case
  proof (cases "info = []")
    case True
    then show ?thesis by (simp add: il2p_payload.simps)
  next
    case False
    define c where "c = take 239 info"
    define n where "n = min (length info) 239 + 16"
    have chunks: "chunks PAY_BLOCK info = c # chunks PAY_BLOCK (drop 239 info)"
      using False by (subst chunks.simps) (simp add: PAY_BLOCK_def c_def)
    have blocks: "payload_blocks info = with_parity 16 c @ payload_blocks (drop 239 info)"
      by (simp add: payload_blocks_def chunks PAY_PARITY_def)
    have block: "length (with_parity 16 c) = n" by (simp add: length_with_parity c_def n_def)
    have len: "length rx = n + length (payload_blocks (drop 239 info))"
      using less.prems by (simp add: few_errors_def blocks block)
    have n: "0 < n" "n \<le> 255" by (auto simp: n_def)
    have tail: "n < 255 \<longrightarrow> payload_blocks (drop 239 info) = []"
    proof
      assume "n < 255"
      then have "drop 239 info = []" by (auto simp: n_def)
      then show "payload_blocks (drop 239 info) = []" by (simp add: payload_blocks_def)
    qed
    have first: "take 255 (payload_blocks info) = with_parity 16 c"
      using tail n block by (cases "n = 255") (auto simp: blocks)
    have first_rx: "take 255 rx = take n rx" and rest_rx: "drop 255 rx = drop n rx"
      using tail n len by (cases "n = 255"; force)+
    have rest: "drop 255 (payload_blocks info) = payload_blocks (drop 239 info)"
      using tail n block by (cases "n = 255") (auto simp: blocks)
    have few: "symbol_errors (with_parity 16 c) (take n rx) \<le> 8"
      "few_errors (payload_blocks (drop 239 info)) (drop n rx)"
      using few_errors_first [OF less.prems] few_errors_rest [OF less.prems] 
      by (simp_all only: first first_rx rest rest_rx)
    have dec: "corrected 16 (take n rx) = Some (with_parity 16 c)"
      by (rule corrected_ok) (use few(1) len n in \<open>simp_all add: c_def n_def\<close>)
    have m: "min (length info) 239 = length c" by (simp add: c_def)
    have IH: "il2p_payload (drop n rx) (length info - length c) = Some (drop 239 info)"
    proof -
      have "length (drop 239 info) < length info" using False by simp
      from less.hyps [OF this few(2)] show ?thesis by (cases "length info \<le> 239") (simp_all add: c_def)
    qed
    have "il2p_payload rx (length info) = map_option (\<lambda>rest. c @ rest) (Some (drop 239 info))"
      using False len dec IH
      by (subst il2p_payload.simps)
        (simp add: Let_def PAY_BLOCK_def PAY_PARITY_def m n_def [unfolded m, symmetric], simp add: with_parity_def)
    then show ?thesis by (simp add: c_def)
  qed
qed

text \<open>What the receiver sees after descrambling: errors stay in their bytes.\<close>

lemma symbol_errors_scrambled:
  assumes "length as = length bs"
  shows "symbol_errors (take n (drop k (scramble_bytes as))) (take n (drop k (scramble_bytes bs)))
    = symbol_errors (take n (drop k as)) (take n (drop k bs))"
proof -
  have "{i. i < n \<and> k + i < length bs \<and> scramble_bytes as ! (k + i) \<noteq> scramble_bytes bs ! (k + i)}
      = {i. i < n \<and> k + i < length bs \<and> as ! (k + i) \<noteq> bs ! (k + i)}"
    using assms scramble_bytes_local [of _ as bs] by auto
  with assms show ?thesis by (simp add: symbol_errors_slice)
qed

lemma few_errors_scrambled:
  assumes "length as = length bs" "few_errors (drop k (scramble_bytes as)) (drop k (scramble_bytes bs))"
  shows "few_errors (drop k as) (drop k bs)"
  using assms by (simp add: few_errors_def symbol_errors_scrambled add.commute)

lemma il2p_corrects:
  assumes f: "il2p_frame f" and rx: "length rx = length (il2p_encode f)" "take 3 rx = IL2P_SYNC"
    and header: "symbol_errors (take 15 (drop 3 (il2p_encode f))) (take 15 (drop 3 rx)) \<le> 1"
    and payload: "few_errors (drop 18 (il2p_encode f)) (drop 18 rx)"
  shows "il2p_decode rx = Some f"
proof -
  have tx: "drop 3 (il2p_encode f) = scramble_bytes (il2p_body f)" by (simp add: il2p_encode_def IL2P_SYNC_def)
  define body where "body = descramble_bytes (drop 3 rx)"
  have scr: "drop 3 rx = scramble_bytes body"
    using descramble_scramble_bytes [of "drop 3 rx"] by (simp add: body_def descramble_bytes_def)
  have hdr: "length (with_parity HDR_PARITY (build_header f)) = 15"
    by (simp add: length_with_parity HDR_PARITY_def)
  have il2p: "il2p_body f = with_parity HDR_PARITY (build_header f) @ payload_blocks (af_info f)"
    by (simp add: il2p_body_def payload_blocks_def)
  have len: "length (il2p_body f) = length body" "15 \<le> length body" "3 \<le> length rx"
    using rx(1) scr hdr by (auto simp: il2p_encode_def IL2P_SYNC_def il2p body_def descramble_bytes_def)
  have "symbol_errors (take 15 (drop 0 (il2p_body f))) (take 15 (drop 0 body)) \<le> 1"
    using header by (simp only: tx scr) (simp add: symbol_errors_scrambled [OF len(1), of 15 0, simplified])
  then have "symbol_errors (with_parity 2 (build_header f)) (take 15 body) \<le> 1"
    using hdr by (simp add: il2p HDR_PARITY_def)
  then have head: "corrected 2 (take 15 body) = Some (with_parity 2 (build_header f))"
    using len by (intro corrected_ok) simp_all
  have "drop 18 (il2p_encode f) = drop 15 (scramble_bytes (il2p_body f))" "drop 18 rx = drop 15 (scramble_bytes body)"
    using tx scr drop_drop [of 15 3 "il2p_encode f"] drop_drop [of 15 3 rx] by simp_all
  then have "few_errors (drop 15 (il2p_body f)) (drop 15 body)"
    using payload few_errors_scrambled [OF len(1)] by simp
  then have "il2p_payload (drop 15 body) (length (af_info f)) = Some (af_info f)"
    by (intro il2p_payload_ok) (simp add: il2p hdr)
  moreover have "take 13 (with_parity 2 (build_header f)) = build_header f" by (simp add: with_parity_def)
  moreover have "af_digipeaters f = []" using f by (simp add: il2p_frame_def)
  ultimately show ?thesis
    using rx(2) len head parse_build_header [OF f]
    by (simp add: il2p_decode_def Let_def body_def [symmetric] HDR_DATA_def HDR_PARITY_def)
qed

text \<open>C23: IL2P recovers the frame - addresses, SSIDs, information field - when at most one of the 15 header bytes and at most eight bytes of every payload block were received wrong.\<close>

theorem il2p_recovers_frame:
  assumes "il2p_frame f" "length rx = length (il2p_encode f)" "take 3 rx = IL2P_SYNC"
    and "symbol_errors (take 15 (drop 3 (il2p_encode f))) (take 15 (drop 3 rx)) \<le> 1"
    and "few_errors (drop 18 (il2p_encode f)) (drop 18 rx)"
  shows "il2p_decode rx = Some f"
  by (rule il2p_corrects [OF assms])

lemma il2p_clean: "il2p_frame f \<Longrightarrow> il2p_decode (il2p_encode f) = Some f"
  by (rule il2p_corrects) (simp_all add: few_errors_def il2p_encode_def IL2P_SYNC_def)

lemma symbol_errors_update: "symbol_errors xs (xs[i := y]) \<le> 1"
proof -
  have "card {j. j < length xs \<and> xs ! j \<noteq> xs[i := y] ! j} \<le> card {i}" by (intro card_mono) (auto, metis nth_list_update_neq)
  then show ?thesis by (simp add: symbol_errors_card)
qed

lemma il2p_recovers_frame_witness:
  defines "f \<equiv> \<lparr>af_dest = \<lparr>aa_call = [65, 80, 82, 83], aa_ssid = 0\<rparr>,
    af_source = \<lparr>aa_call = [78, 48, 67, 65, 76, 76], aa_ssid = 9\<rparr>, af_digipeaters = [], af_info = [33, 52]\<rparr>"
  shows "il2p_decode ((il2p_encode f)[5 := 0]) = Some f"
proof (rule il2p_recovers_frame)
  have "list_all (\<lambda>c. c \<in> set call_codes) [65, 80, 82, 83, 78, 48, 67, 76]" by code_simp
  then show "il2p_frame f" by (simp add: il2p_frame_def il2p_call_def f_def)
  let ?t = "il2p_encode f"
  show "take 3 (?t[5 := 0]) = IL2P_SYNC" by (simp add: il2p_encode_def IL2P_SYNC_def)
  show "symbol_errors (take 15 (drop 3 ?t)) (take 15 (drop 3 (?t[5 := 0]))) \<le> 1"
    using symbol_errors_update [of "take 15 (drop 3 ?t)" 2 0] by (simp add: drop_update_swap take_update_swap)
  show "few_errors (drop 18 ?t) (drop 18 (?t[5 := 0]))" by (simp add: few_errors_def)
qed simp

text \<open>The decoder never yields digipeaters or more than 255 information bytes.\<close>

lemma il2p_decode_bounds:
  "il2p_decode bytes = Some f' \<Longrightarrow> af_digipeaters f' = [] \<and> length (af_info f') \<le> 255"
proof -
  have payload: "il2p_payload body n = Some info \<Longrightarrow> length info \<le> n" for body n info
  proof (induction body n arbitrary: info rule: il2p_payload.induct)
    case (1 body remaining)
    show ?case
    proof (cases "remaining = 0")
      case False
      let ?d = "min remaining PAY_BLOCK" and ?b = "min remaining PAY_BLOCK + PAY_PARITY"
      from "1.prems" False obtain cw z where step: "\<not> ?b > length body" "corrected PAY_PARITY (take ?b body) = Some cw"
        "il2p_payload (drop ?b body) (remaining - ?d) = Some z" "info = take ?d cw @ z"
        by (subst (asm) il2p_payload.simps) (auto simp: Let_def split: if_splits option.splits)
      from "1.IH" [OF False refl refl step(1,2,3)] have "length z \<le> remaining - ?d" .
      with step(4) show ?thesis by simp
    qed (use "1.prems" in \<open>simp add: il2p_payload.simps\<close>)
  qed
  assume "il2p_decode bytes = Some f'"
  then obtain hdr dest source n info body where
    "il2p_parse_header hdr = (dest, source, n)" "il2p_payload body n = Some info"
    "f' = \<lparr>af_dest = dest, af_source = source, af_digipeaters = [], af_info = info\<rparr>"
    by (auto simp: il2p_decode_def Let_def split: if_splits option.splits prod.splits)
  moreover from this have "n \<le> 255"
    using unat_u8 [of "hdr ! 12"] by (auto simp: il2p_parse_header_def Let_def)
  ultimately show ?thesis using payload [of body n info] by simp
qed

text \<open>IL2P silently loses the digipeaters of a frame: whatever path it has, the frame comes back with none, although the encoder accepts it.\<close>

theorem il2p_drops_digipeaters:
  assumes "il2p_frame (f\<lparr>af_digipeaters := []\<rparr>)"
  shows "il2p_decode (il2p_encode f) = Some (f\<lparr>af_digipeaters := []\<rparr>)"
proof -
  have "il2p_encode f = il2p_encode (f\<lparr>af_digipeaters := []\<rparr>)"
    by (simp add: il2p_encode_def il2p_body_def build_header_def)
  with il2p_clean [OF assms] show ?thesis by simp
qed

lemma il2p_drops_digipeaters_witness:
  "il2p_decode (il2p_encode \<lparr>af_dest = \<lparr>aa_call = [65, 80, 82, 83], aa_ssid = 0\<rparr>,
     af_source = \<lparr>aa_call = [78, 48, 67, 65, 76, 76], aa_ssid = 9\<rparr>,
     af_digipeaters = [\<lparr>aa_call = [87, 73, 68, 69], aa_ssid = 1\<rparr>], af_info = [33]\<rparr>)
   = Some \<lparr>af_dest = \<lparr>aa_call = [65, 80, 82, 83], aa_ssid = 0\<rparr>,
     af_source = \<lparr>aa_call = [78, 48, 67, 65, 76, 76], aa_ssid = 9\<rparr>, af_digipeaters = [], af_info = [33]\<rparr>"
proof -
  have "list_all (\<lambda>c. c \<in> set call_codes) [65, 80, 82, 83, 78, 48, 67, 76]" by code_simp
  then show ?thesis
    by (subst il2p_drops_digipeaters) (simp_all add: il2p_frame_def il2p_call_def)
qed

end
