(* ===== verification/Convolutional.thy ===== *)
theory Convolutional
  imports LineCodes Floats "HOL-Library.While_Combinator"
begin

text \<open>
  Convolutional coding: \<open>fec/conv.rs\<close> (encoders, the block and the streaming Viterbi decoder,
  puncturing) and \<open>fec/fano.rs\<close> (the long code of JT9 and WSPR with its sequential decoder). The
  arithmetic of the metrics is a parameter; \<open>NEG_INFINITY\<close> is its literal of that name. The two
  tables of the trellis, flat in the code, are lists of rows here, one row for every step.
\<close>

section \<open>Codes and encoders\<close>

record conv_code =
  cc_k :: nat
  cc_polys :: "u32 list"

definition k7_r12 :: conv_code where "k7_r12 = \<lparr>cc_k = 7, cc_polys = [0x79, 0x5B]\<rparr>"
definition thor_k7 :: conv_code where "thor_k7 = \<lparr>cc_k = 7, cc_polys = [0x6D, 0x4F]\<rparr>"
definition thor_k15 :: conv_code where "thor_k15 = \<lparr>cc_k = 15, cc_polys = [0x49DD, 0x662F]\<rparr>"

definition poly_bit :: "u32 \<Rightarrow> u32 \<Rightarrow> u8" where
  "poly_bit p reg = of_nat (pop_count (reg AND p)) AND 1"

text \<open>The register takes the new bit at the bottom.\<close>

definition shift_in :: "u32 \<Rightarrow> u8 \<Rightarrow> u32" where
  "shift_in reg b = push_bit 1 reg OR (ucast b AND 1)"

fun encode_from :: "u32 list \<Rightarrow> u32 \<Rightarrow> u8 list \<Rightarrow> u8 list" where
  "encode_from polys reg [] = []"
| "encode_from polys reg (b # bs) =
     (let r = shift_in reg b in map (\<lambda>p. poly_bit p r) polys @ encode_from polys r bs)"

definition conv_encode :: "conv_code \<Rightarrow> u8 list \<Rightarrow> u8 list" where
  "conv_encode c data = encode_from (cc_polys c) 0 (data @ replicate (cc_k c - 1) 0)"

text \<open>The streaming encoder keeps its register between bits.\<close>

record conv_encoder =
  ce_code :: conv_code
  ce_reg :: u32

definition conv_encoder_new :: "conv_code \<Rightarrow> conv_encoder" where
  "conv_encoder_new c = \<lparr>ce_code = c, ce_reg = 0\<rparr>"

definition conv_encoder_encode :: "u8 \<Rightarrow> u8 list \<Rightarrow> conv_encoder \<Rightarrow> conv_encoder \<times> u8 list" where
  "conv_encoder_encode b out e =
     (let r = shift_in (ce_reg e) b
      in (e\<lparr>ce_reg := r\<rparr>, out @ map (\<lambda>p. poly_bit p r) (cc_polys (ce_code e))))"

definition conv_encoder_reset :: "conv_encoder \<Rightarrow> conv_encoder" where
  "conv_encoder_reset e = e\<lparr>ce_reg := 0\<rparr>"

section \<open>The Viterbi decoder\<close>

abbreviation f_neg_inf :: "'n fmath \<Rightarrow> 'n" where "f_neg_inf F \<equiv> f_lit F ''NEG_INFINITY''"

definition conv_states :: "conv_code \<Rightarrow> nat" where
  "conv_states c = 2 ^ (cc_k c - 1)"

definition branch_metric :: "'n fmath \<Rightarrow> u32 list \<Rightarrow> u32 \<Rightarrow> 'n list \<Rightarrow> 'n" where
  "branch_metric F polys reg ls =
     foldl (\<lambda>a (p, l). f_add F a (if poly_bit p reg = 0 then l else f_neg F l)) (f_zero F) (zip polys ls)"

text \<open>One column of the trellis: metrics, entering bits and predecessors.\<close>

type_synonym 'n column = "'n list \<times> u8 list \<times> nat list"

definition relax :: "'n fmath \<Rightarrow> conv_code \<Rightarrow> 'n list \<Rightarrow> nat \<Rightarrow> 'n \<Rightarrow> u8 \<Rightarrow> 'n column \<Rightarrow> 'n column" where
  "relax F c ls s ms b col =
     (case col of (next, bits, prevs) \<Rightarrow>
        let reg = shift_in (of_nat s) b; ns = unat reg AND (conv_states c - 1);
            cand = f_add F ms (branch_metric F (cc_polys c) reg ls)
        in if f_lt F (next ! ns) cand then (next[ns := cand], bits[ns := b], prevs[ns := s]) else col)"

definition new_column :: "'n fmath \<Rightarrow> conv_code \<Rightarrow> 'n column" where
  "new_column F c = (replicate (conv_states c) (f_neg_inf F), replicate (conv_states c) 0, replicate (conv_states c) 0)"

definition relax_state :: "'n fmath \<Rightarrow> conv_code \<Rightarrow> 'n list \<Rightarrow> nat \<times> 'n \<Rightarrow> 'n column \<Rightarrow> 'n column" where
  "relax_state F c ls sm col =
     (case sm of (s, ms) \<Rightarrow>
        if f_eq F ms (f_neg_inf F) then col else relax F c ls s ms 1 (relax F c ls s ms 0 col))"

definition acs_step :: "'n fmath \<Rightarrow> conv_code \<Rightarrow> 'n list \<Rightarrow> 'n list \<Rightarrow> 'n column" where
  "acs_step F c metric ls = fold (relax_state F c ls) (enumerate 0 metric) (new_column F c)"

definition step_llrs :: "conv_code \<Rightarrow> 'n list \<Rightarrow> nat \<Rightarrow> 'n list" where
  "step_llrs c llrs t = take (length (cc_polys c)) (drop (t * length (cc_polys c)) llrs)"

definition start_metric :: "'n fmath \<Rightarrow> conv_code \<Rightarrow> 'n list" where
  "start_metric F c = (replicate (conv_states c) (f_neg_inf F))[0 := f_zero F]"

text \<open>All columns, first to last.\<close>

fun trellis :: "'n fmath \<Rightarrow> conv_code \<Rightarrow> 'n list list \<Rightarrow> 'n list \<Rightarrow> 'n column list" where
  "trellis F c [] metric = []"
| "trellis F c (ls # lss) metric = (let col = acs_step F c metric ls in col # trellis F c lss (fst col))"

fun trace_back :: "'n column list \<Rightarrow> nat \<Rightarrow> u8 list" where
  "trace_back [] s = []"
| "trace_back ((m, bits, prevs) # cols) s = bits ! s # trace_back cols (prevs ! s)"

definition viterbi_decode :: "'n fmath \<Rightarrow> conv_code \<Rightarrow> 'n list \<Rightarrow> nat \<Rightarrow> u8 list" where
  "viterbi_decode F c llrs data_len =
     (let steps = data_len + cc_k c - 1;
          cols = trellis F c (map (step_llrs c llrs) [0..<steps]) (start_metric F c)
      in take data_len (rev (trace_back (rev cols) 0)))"

section \<open>The streaming Viterbi decoder\<close>

text \<open>\<open>total_metric\<close> is kept in double precision, a second arithmetic with the conversion \<open>wide\<close>.\<close>

record ('n, 'w) streaming_viterbi =
  sv_code :: conv_code
  sv_metric :: "'n list"
  sv_depth :: nat
  sv_bits :: "u8 list list"
  sv_prevs :: "nat list list"
  sv_pos :: nat
  sv_filled :: nat
  sv_total :: 'w

definition streaming_viterbi_new :: "'n fmath \<Rightarrow> 'w fmath \<Rightarrow> conv_code \<Rightarrow> nat \<Rightarrow> ('n, 'w) streaming_viterbi" where
  "streaming_viterbi_new F D c traceback =
     (let depth = max traceback 1
      in \<lparr>sv_code = c, sv_metric = start_metric F c, sv_depth = depth,
          sv_bits = replicate depth (replicate (conv_states c) 0),
          sv_prevs = replicate depth (replicate (conv_states c) 0),
          sv_pos = 0, sv_filled = 0, sv_total = f_zero D\<rparr>)"

definition streaming_decoder :: "'n fmath \<Rightarrow> 'w fmath \<Rightarrow> conv_code \<Rightarrow> nat \<Rightarrow> ('n, 'w) streaming_viterbi" where
  "streaming_decoder F D c traceback = streaming_viterbi_new F D c traceback"

text \<open>
  Here the tables are rewritten only where a candidate wins, so a row keeps what the ring had in it
  \<open>depth\<close> steps before for a state that no path reaches.
\<close>

definition ring_column :: "'n fmath \<Rightarrow> ('n, 'w) streaming_viterbi \<Rightarrow> 'n list \<Rightarrow> 'n column" where
  "ring_column F v ls =
     fold (relax_state F (sv_code v) ls) (enumerate 0 (sv_metric v))
       (replicate (conv_states (sv_code v)) (f_neg_inf F), sv_bits v ! sv_pos v, sv_prevs v ! sv_pos v)"

text \<open>\<open>max_by\<close> keeps the last of equal maxima; \<open>None\<close> is the panic on an incomparable metric.\<close>

fun max_index :: "'n fmath \<Rightarrow> 'n list \<Rightarrow> nat \<Rightarrow> nat \<Rightarrow> 'n \<Rightarrow> nat option" where
  "max_index F [] i best m = Some best"
| "max_index F (x # xs) i best m =
     (if \<not> f_le F m x \<and> \<not> f_le F x m then None
      else if f_le F m x then max_index F xs (i + 1) i x else max_index F xs (i + 1) best m)"

definition best_state :: "'n fmath \<Rightarrow> 'n list \<Rightarrow> nat option" where
  "best_state F metric = (case metric of [] \<Rightarrow> Some 0 | m # ms \<Rightarrow> max_index F ms 1 0 m)"

fun ring_trace :: "('n, 'w) streaming_viterbi \<Rightarrow> nat \<Rightarrow> nat \<Rightarrow> nat \<Rightarrow> u8 \<Rightarrow> u8" where
  "ring_trace v 0 ring s oldest = oldest"
| "ring_trace v (Suc k) ring s oldest =
     ring_trace v k ((ring + sv_depth v - 1) mod sv_depth v) (sv_prevs v ! ring ! s) (sv_bits v ! ring ! s)"

definition streaming_push :: "'n fmath \<Rightarrow> 'w fmath \<Rightarrow> ('n \<Rightarrow> 'w) \<Rightarrow> 'n list \<Rightarrow> ('n, 'w) streaming_viterbi \<Rightarrow>
    (('n, 'w) streaming_viterbi \<times> u8 option) option" where
  "streaming_push F D wide ls v =
     (case ring_column F v ls of (next, bits, prevs) \<Rightarrow>
        let best = foldl (f_max F) (f_neg_inf F) next;
            v1 = v\<lparr>sv_metric := (if f_finite F best then map (\<lambda>m. if f_finite F m then f_sub F m best else m) next else next),
                   sv_total := (if f_finite F best then f_add D (sv_total v) (wide best) else sv_total v),
                   sv_bits := (sv_bits v)[sv_pos v := bits], sv_prevs := (sv_prevs v)[sv_pos v := prevs],
                   sv_pos := (sv_pos v + 1) mod sv_depth v, sv_filled := min (sv_filled v + 1) (sv_depth v)\<rparr>
        in if sv_filled v1 < sv_depth v1 then Some (v1, None)
           else map_option (\<lambda>s. (v1, Some (ring_trace v1 (sv_depth v1) ((sv_pos v1 + sv_depth v1 - 1) mod sv_depth v1) s 0)))
             (best_state F (sv_metric v1)))"

section \<open>Puncturing\<close>

definition puncture :: "'a list \<Rightarrow> bool list \<Rightarrow> 'a list" where
  "puncture bits pattern =
     (if pattern = [] then [] else
        map fst (filter snd (zip bits (map (\<lambda>i. pattern ! (i mod length pattern)) [0..<length bits]))))"

fun depuncture_from :: "'n fmath \<Rightarrow> bool list \<Rightarrow> nat list \<Rightarrow> 'n list \<Rightarrow> 'n list" where
  "depuncture_from F pattern [] it = []"
| "depuncture_from F pattern (i # is) it =
     (if pattern ! (i mod length pattern)
      then (case it of [] \<Rightarrow> f_zero F # depuncture_from F pattern is []
            | l # it1 \<Rightarrow> l # depuncture_from F pattern is it1)
      else f_zero F # depuncture_from F pattern is it)"

text \<open>\<open>None\<close> is the division by the length of an empty pattern.\<close>

definition depuncture :: "'n fmath \<Rightarrow> 'n list \<Rightarrow> bool list \<Rightarrow> nat \<Rightarrow> 'n list option" where
  "depuncture F llrs pattern full_len =
     (if pattern = [] \<and> 0 < full_len then None else Some (depuncture_from F pattern [0..<full_len] llrs))"

section \<open>The sequential decoder\<close>

definition FANO_TAIL :: nat where "FANO_TAIL = 31"
definition DEFAULT_BUDGET :: nat where "DEFAULT_BUDGET = 200000"
definition FANO_POLYS :: "u32 list" where "FANO_POLYS = [0xf2d05351, 0xe4613c47]"

definition fano_encode :: "u8 list \<Rightarrow> u8 list" where
  "fano_encode data = encode_from FANO_POLYS 0 (data @ replicate FANO_TAIL 0)"

text \<open>\<open>clamp\<close> with its constant, ordered bounds.\<close>

definition fano_bit_metric :: "'n fmath \<Rightarrow> 'n \<Rightarrow> u8 \<Rightarrow> 'n" where
  "fano_bit_metric F l c =
     (let lo = f_lit F ''-60.0''; hi = f_lit F ''60.0'';
          l1 = (if f_lt F l lo then lo else l); l2 = (if f_lt F hi l1 then hi else l1);
          e = (if c = 0 then f_exp F (f_neg F l2) else f_exp F l2)
      in f_sub F (f_sub F (f_one F) (f_log2 F (f_add F (f_one F) e))) (f_lit F ''0.5''))"

record 'n fano_state =
  fa_reg :: "u32 list"
  fa_mu :: "'n list"
  fa_tried :: "nat list"
  fa_bit :: "u8 list"
  fa_d :: nat
  fa_t :: 'n

definition fano_start :: "'n fmath \<Rightarrow> nat \<Rightarrow> 'n fano_state" where
  "fano_start F tot =
     \<lparr>fa_reg = replicate (tot + 1) 0, fa_mu = replicate (tot + 1) (f_zero F), fa_tried = replicate (tot + 1) 0,
      fa_bit = replicate tot 0, fa_d = 0, fa_t = f_zero F\<rparr>"

definition child_metric :: "'n fmath \<Rightarrow> 'n list \<Rightarrow> 'n fano_state \<Rightarrow> u8 \<Rightarrow> 'n" where
  "child_metric F llrs s b =
     (let d = fa_d s; nr = shift_in (fa_reg s ! d) b
      in f_add F (f_add F (fa_mu s ! d) (fano_bit_metric F (llrs ! (2 * d)) (poly_bit (FANO_POLYS ! 0) nr)))
           (fano_bit_metric F (llrs ! (2 * d + 1)) (poly_bit (FANO_POLYS ! 1) nr)))"

text \<open>\<open>while mu[d] - t >= delta { t += delta }\<close>, which need not end for every arithmetic.\<close>

definition tighten :: "'n fmath \<Rightarrow> 'n \<Rightarrow> 'n \<Rightarrow> 'n \<Rightarrow> 'n option" where
  "tighten F delta mu t = while_option (\<lambda>t. f_le F delta (f_sub F mu t)) (\<lambda>t. f_add F t delta) t"

text \<open>The child to try next, better one first.\<close>

definition next_child :: "'n fmath \<Rightarrow> 'n list \<Rightarrow> 'n fano_state \<Rightarrow> (u8 \<times> 'n) option" where
  "next_child F llrs s =
     (let cm0 = child_metric F llrs s 0; cm1 = child_metric F llrs s 1;
          (better, worse) = (if f_le F cm1 cm0 then ((0, cm0), (1, cm1)) else ((1, cm1), (0, cm0)))
      in if fa_tried s ! fa_d s = 0 then Some better else if fa_tried s ! fa_d s = 1 then Some worse else None)"

definition fano_forward :: "'n fmath \<Rightarrow> 'n \<Rightarrow> u8 \<Rightarrow> 'n \<Rightarrow> 'n fano_state \<Rightarrow> 'n fano_state option" where
  "fano_forward F delta b cm s =
     (let d = fa_d s
      in map_option (\<lambda>t. s\<lparr>fa_tried := ((fa_tried s)[d := fa_tried s ! d + 1])[d + 1 := 0],
           fa_bit := (fa_bit s)[d := b], fa_reg := (fa_reg s)[d + 1 := shift_in (fa_reg s ! d) b],
           fa_mu := (fa_mu s)[d + 1 := cm], fa_d := d + 1, fa_t := t\<rparr>) (tighten F delta cm (fa_t s)))"

definition fano_back :: "'n fmath \<Rightarrow> 'n \<Rightarrow> 'n fano_state \<Rightarrow> 'n fano_state" where
  "fano_back F delta s =
     (let d = fa_d s
      in if 0 < d \<and> f_le F (fa_t s) (fa_mu s ! (d - 1)) then s\<lparr>fa_d := d - 1\<rparr>
         else s\<lparr>fa_t := f_sub F (fa_t s) delta, fa_tried := (fa_tried s)[d := 0]\<rparr>)"

text \<open>
  One turn per node visited, at most \<open>budget\<close> of them. \<open>None\<close>: the inner loop does not end;
  \<open>Some None\<close>: the budget is used up.
\<close>

fun fano_search :: "'n fmath \<Rightarrow> 'n \<Rightarrow> 'n list \<Rightarrow> nat \<Rightarrow> nat \<Rightarrow> nat \<Rightarrow> 'n fano_state \<Rightarrow> u8 list option option" where
  "fano_search F delta llrs data_len tot 0 s = Some None"
| "fano_search F delta llrs data_len tot (Suc budget) s =
     (if fa_d s = tot then Some (Some (take data_len (fa_bit s)))
      else case next_child F llrs s of
          Some (b, cm) \<Rightarrow>
            if f_le F (fa_t s) cm
            then (case fano_forward F delta b cm s of None \<Rightarrow> None
                  | Some s1 \<Rightarrow> fano_search F delta llrs data_len tot budget s1)
            else fano_search F delta llrs data_len tot budget (fano_back F delta s)
        | None \<Rightarrow> fano_search F delta llrs data_len tot budget (fano_back F delta s))"

definition fano_decode_budget :: "'n fmath \<Rightarrow> 'n list \<Rightarrow> nat \<Rightarrow> 'n \<Rightarrow> nat \<Rightarrow> u8 list option option" where
  "fano_decode_budget F llrs data_len delta budget =
     (let tot = data_len + FANO_TAIL
      in if length llrs < tot * 2 \<or> f_le F delta (f_zero F) then Some None
         else fano_search F delta llrs data_len tot budget (fano_start F tot))"

definition fano_decode :: "'n fmath \<Rightarrow> 'n list \<Rightarrow> nat \<Rightarrow> 'n \<Rightarrow> u8 list option option" where
  "fano_decode F llrs data_len delta = fano_decode_budget F llrs data_len delta DEFAULT_BUDGET"

end
