(* ===== verification/ViterbiProps.thy ===== *)
theory ViterbiProps
  imports Convolutional
begin

text \<open>
  The Viterbi decoder is a maximum-likelihood decoder for every arithmetic whose addition is monotone,
  rounding included; the sequential decoder recovers every message from a word without errors.
\<close>

section \<open>Registers and states\<close>

definition next_state :: "conv_code \<Rightarrow> nat \<Rightarrow> u8 \<Rightarrow> nat" where
  "next_state c s b = (2 * s + unat b) mod conv_states c"

definition state_after :: "conv_code \<Rightarrow> nat \<Rightarrow> u8 list \<Rightarrow> nat" where
  "state_after c s bs = foldl (next_state c) s bs"

abbreviation bits01_list :: "u8 list \<Rightarrow> bool" where "bits01_list bs \<equiv> set bs \<subseteq> {0, 1}"

definition code_ok :: "conv_code \<Rightarrow> bool" where
  "code_ok c \<longleftrightarrow> 1 \<le> cc_k c \<and> cc_k c \<le> 32 \<and> (\<forall>p\<in>set (cc_polys c). take_bit (cc_k c) p = p)"

lemma conv_states_pos [simp]: "0 < conv_states c"
  by (simp add: conv_states_def)

lemma next_state_less [simp]: "next_state c s b < conv_states c"
  by (simp add: next_state_def)

lemma unat_shift_in:
  assumes "b = 0 \<or> b = 1" "2 * s + 1 < 2 ^ 32"
  shows "unat (shift_in (of_nat s) b) = 2 * s + unat b"
proof -
  have "shift_in (of_nat s) b = of_nat (2 * s + unat b)"
    using assms(1) by (auto simp: shift_in_def or_one_eq push_bit_eq_mult)
  moreover have "2 * s + unat b < 2 ^ LENGTH(32)" using assms by auto
  ultimately show ?thesis by (simp only: unat_of_nat mod_less)
qed

lemma and_mask_nat: "(x :: nat) AND (2 ^ n - 1) = x mod 2 ^ n"
  by (simp only: mask_eq_exp_minus_1 [symmetric] take_bit_eq_mask [symmetric] take_bit_eq_mod)

lemma shift_in_state:
  assumes "code_ok c" "b = 0 \<or> b = 1" "s < conv_states c"
  shows "unat (shift_in (of_nat s) b) AND (conv_states c - 1) = next_state c s b"
proof -
  have "2 * s + 1 < 2 ^ 32"
  proof -
    have "conv_states c \<le> 2 ^ 31" using assms(1) unfolding conv_states_def code_ok_def by (intro power_increasing) auto
    with assms(3) show ?thesis by simp
  qed
  from unat_shift_in [OF assms(2) this] show ?thesis
    by (simp only: next_state_def conv_states_def and_mask_nat)
qed

text \<open>The outputs look at the low \<open>k\<close> bits of the register only.\<close>

lemma poly_bit_low:
  assumes "take_bit k p = p" "take_bit k a = take_bit k b"
  shows "poly_bit p a = poly_bit p b"
proof -
  have "a AND p = b AND p"
  proof (rule bit_word_eqI)
    fix n
    have "bit p n \<Longrightarrow> n < k" using assms(1) by (metis bit_take_bit_iff)
    moreover have "n < k \<Longrightarrow> bit a n = bit b n" using assms(2) by (metis bit_take_bit_iff)
    ultimately show "bit (a AND p) n = bit (b AND p) n" by (auto simp: bit_and_iff)
  qed
  then show ?thesis by (simp add: poly_bit_def)
qed

lemma shift_in_low:
  assumes "take_bit k a = take_bit k b"
  shows "take_bit (Suc k) (shift_in a x) = take_bit (Suc k) (shift_in b x)"
proof (rule bit_word_eqI)
  fix n assume n: "n < LENGTH(32)"
  have "n - 1 < k \<Longrightarrow> bit a (n - 1) = bit b (n - 1)" using assms by (metis bit_take_bit_iff)
  with n show "bit (take_bit (Suc k) (shift_in a x)) n = bit (take_bit (Suc k) (shift_in b x)) n"
    by (simp only: shift_in_def bit_take_bit_iff bit_or_iff bit_push_bit_iff) auto
qed

lemma take_bit_low: "take_bit (Suc k) a = take_bit (Suc k) b \<Longrightarrow> take_bit k a = take_bit k b"
  for a b :: "'a::len word"
  by (metis min.absorb1 lessI less_imp_le take_bit_take_bit)

lemma state_register:
  assumes "code_ok c" "x = 0 \<or> x = 1" "s < conv_states c" "take_bit (cc_k c - 1) r = of_nat s"
  shows "take_bit (cc_k c) (shift_in r x) = take_bit (cc_k c) (shift_in (of_nat s) x)"
    and "take_bit (cc_k c - 1) (shift_in r x) = of_nat (next_state c s x)"
proof -
  have k: "cc_k c = Suc (cc_k c - 1)" using assms(1) by (simp add: code_ok_def)
  have s: "take_bit (cc_k c - 1) (of_nat s :: u32) = of_nat s"
    using assms(3) by (simp add: conv_states_def take_bit_nat_eq_self flip: of_nat_take_bit)
  then have "take_bit (cc_k c - 1) r = take_bit (cc_k c - 1) (of_nat s)" using assms(4) by simp
  from shift_in_low [OF this, of x] k
  show 1: "take_bit (cc_k c) (shift_in r x) = take_bit (cc_k c) (shift_in (of_nat s) x)" by metis
  then have "take_bit (cc_k c - 1) (shift_in r x) = take_bit (cc_k c - 1) (shift_in (of_nat s) x)"
    using k take_bit_low by metis
  also have "\<dots> = of_nat (next_state c s x)"
  proof -
    have "shift_in (of_nat s) x = of_nat (2 * s + unat x)" using assms(2) by (auto simp: shift_in_def or_one_eq push_bit_eq_mult)
    then show ?thesis by (simp only: of_nat_take_bit [symmetric]) (simp add: next_state_def conv_states_def take_bit_eq_mod)
  qed
  finally show "take_bit (cc_k c - 1) (shift_in r x) = of_nat (next_state c s x)" .
qed

lemma state_after_snoc: "state_after c s (bs @ [b]) = next_state c (state_after c s bs) b"
  by (simp add: state_after_def)

lemma state_after_less: "s < conv_states c \<Longrightarrow> state_after c s bs < conv_states c"
  by (cases bs rule: rev_cases) (simp_all add: state_after_snoc, simp add: state_after_def)

text \<open>The state holds the last bits, newest lowest.\<close>

lemma state_after_bits:
  assumes "bits01_list bs" "i < cc_k c - 1" "i < length bs"
  shows "bit (state_after c s bs) i = (rev bs ! i = 1)"
  using assms
proof (induction bs arbitrary: i rule: rev_induct)
  case (snoc b bs)
  have "bit (next_state c t b) i = (if i = 0 then b = 1 else bit t (i - 1))" for t
  proof -
    have "bit (2 * t + unat b) i = (if i = 0 then b = 1 else bit t (i - 1))"
      using snoc.prems(1) by (cases i) (auto simp: bit_0 bit_Suc)
    then show ?thesis using snoc.prems(2)
      by (simp add: next_state_def conv_states_def bit_take_bit_iff flip: take_bit_eq_mod)
  qed
  with snoc show ?case by (cases i) (auto simp: state_after_snoc)
qed simp

section \<open>Metrics\<close>

text \<open>
  What the decoder needs of the arithmetic: metrics in \<open>P\<close>, branches in \<open>B\<close>, a total preorder by the
  strict comparison, minus infinity below, and addition that keeps the order. IEEE addition does, with
  its rounding, on numbers that do not overflow.
\<close>

definition at_most :: "'n fmath \<Rightarrow> 'n \<Rightarrow> 'n \<Rightarrow> bool" where
  "at_most F x y \<longleftrightarrow> \<not> f_lt F y x"

definition metric_laws :: "'n fmath \<Rightarrow> 'n set \<Rightarrow> 'n set \<Rightarrow> bool" where
  "metric_laws F P B \<longleftrightarrow> f_zero F \<in> P \<and> f_neg_inf F \<notin> P \<and> f_eq F (f_neg_inf F) (f_neg_inf F) \<and>
     (\<forall>x\<in>P. \<not> f_eq F x (f_neg_inf F) \<and> f_lt F (f_neg_inf F) x \<and> at_most F x x) \<and>
     (\<forall>x\<in>P. \<forall>y\<in>P. f_lt F x y \<longrightarrow> at_most F x y) \<and>
     (\<forall>x\<in>P. \<forall>y\<in>P. \<forall>z\<in>P. at_most F x y \<and> at_most F y z \<longrightarrow> at_most F x z) \<and>
     (\<forall>x\<in>P. \<forall>b\<in>B. f_add F x b \<in> P) \<and>
     (\<forall>x\<in>P. \<forall>y\<in>P. \<forall>b\<in>B. at_most F x y \<longrightarrow> at_most F (f_add F x b) (f_add F y b))"

lemma metric_lawsD:
  assumes "metric_laws F P B"
  shows "f_zero F \<in> P" "f_neg_inf F \<notin> P" "f_eq F (f_neg_inf F) (f_neg_inf F)"
    "x \<in> P \<Longrightarrow> \<not> f_eq F x (f_neg_inf F)" "x \<in> P \<Longrightarrow> f_lt F (f_neg_inf F) x" "x \<in> P \<Longrightarrow> at_most F x x"
    "x \<in> P \<Longrightarrow> y \<in> P \<Longrightarrow> f_lt F x y \<Longrightarrow> at_most F x y"
    "x \<in> P \<Longrightarrow> y \<in> P \<Longrightarrow> z \<in> P \<Longrightarrow> at_most F x y \<Longrightarrow> at_most F y z \<Longrightarrow> at_most F x z"
    "x \<in> P \<Longrightarrow> b \<in> B \<Longrightarrow> f_add F x b \<in> P"
    "x \<in> P \<Longrightarrow> y \<in> P \<Longrightarrow> b \<in> B \<Longrightarrow> at_most F x y \<Longrightarrow> at_most F (f_add F x b) (f_add F y b)"
  using assms unfolding metric_laws_def by blast+

section \<open>One column\<close>

type_synonym 'n candidate = "nat \<times> 'n \<times> u8 \<times> nat"

definition improve :: "'n fmath \<Rightarrow> 'n candidate \<Rightarrow> 'n column \<Rightarrow> 'n column" where
  "improve F cd col = (case cd of (x, m, b, s) \<Rightarrow> case col of (next, bits, prevs) \<Rightarrow>
     if f_lt F (next ! x) m then (next[x := m], bits[x := b], prevs[x := s]) else col)"

definition candidate_of :: "'n fmath \<Rightarrow> conv_code \<Rightarrow> 'n list \<Rightarrow> nat \<Rightarrow> 'n \<Rightarrow> u8 \<Rightarrow> 'n candidate" where
  "candidate_of F c ls s ms b =
     (next_state c s b, f_add F ms (branch_metric F (cc_polys c) (shift_in (of_nat s) b) ls), b, s)"

definition candidates :: "'n fmath \<Rightarrow> conv_code \<Rightarrow> 'n list \<Rightarrow> 'n list \<Rightarrow> 'n candidate list" where
  "candidates F c metric ls = concat (map (\<lambda>(s, ms). if f_eq F ms (f_neg_inf F) then []
     else [candidate_of F c ls s ms 0, candidate_of F c ls s ms 1]) (enumerate 0 metric))"

lemma fold_concat_map: "fold f (concat (map g xs)) = fold (\<lambda>x. fold f (g x)) xs"
  by (induction xs) auto

lemma acs_step_candidates:
  assumes "code_ok c" "length metric = conv_states c"
  shows "acs_step F c metric ls = fold (improve F) (candidates F c metric ls) (new_column F c)"
proof -
  have r: "relax F c ls s ms b col = improve F (candidate_of F c ls s ms b) col"
    if "s < conv_states c" "b = 0 \<or> b = 1" for s ms b col
    using shift_in_state [OF assms(1) that(2,1)] by (simp add: relax_def improve_def candidate_of_def Let_def cong: if_cong)
  have "relax_state F c ls sm = fold (improve F) (case sm of (s, ms) \<Rightarrow> if f_eq F ms (f_neg_inf F) then []
     else [candidate_of F c ls s ms 0, candidate_of F c ls s ms 1])" if "sm \<in> set (enumerate 0 metric)" for sm
  proof (cases sm)
    case (Pair s ms)
    with that assms(2) have "s < conv_states c" by (auto simp: in_set_enumerate_eq)
    with r Pair show ?thesis by (simp add: relax_state_def fun_eq_iff)
  qed
  then show ?thesis unfolding acs_step_def candidates_def fold_concat_map
    by (intro fold_cong refl) auto
qed

lemma enumerate_upt: "enumerate 0 xs = map (\<lambda>s. (s, xs ! s)) [0..<length xs]"
  by (rule nth_equalityI) (simp_all add: nth_enumerate_eq)

lemma candidates_set:
  "cd \<in> set (candidates F c metric ls) \<longleftrightarrow> (\<exists>s < length metric. \<not> f_eq F (metric ! s) (f_neg_inf F) \<and>
     (cd = candidate_of F c ls s (metric ! s) 0 \<or> cd = candidate_of F c ls s (metric ! s) 1))"
  by (fastforce simp: candidates_def enumerate_upt split: if_splits)

definition best_column :: "'n fmath \<Rightarrow> nat \<Rightarrow> 'n candidate list \<Rightarrow> 'n column \<Rightarrow> bool" where
  "best_column F n L col \<longleftrightarrow> (case col of (nx, bt, pv) \<Rightarrow>
     length nx = n \<and> length bt = n \<and> length pv = n \<and>
     (\<forall>x<n. (nx ! x = f_neg_inf F \<and> (\<forall>m b s. (x, m, b, s) \<notin> set L)) \<or>
        ((x, nx ! x, bt ! x, pv ! x) \<in> set L \<and> (\<forall>m b s. (x, m, b, s) \<in> set L \<longrightarrow> at_most F m (nx ! x)))))"

lemma improve_best:
  assumes "metric_laws F P B" "\<forall>(x, m, b, s)\<in>set L. x < n \<and> m \<in> P"
  shows "best_column F n L (fold (improve F) L (replicate n (f_neg_inf F), replicate n 0, replicate n 0))"
  using assms(2)
proof (induction L rule: rev_induct)
  case Nil
  then show ?case by (simp add: best_column_def)
next
  case (snoc cd L)
  note laws = metric_lawsD [OF assms(1)]
  obtain x m b s where cd: "cd = (x, m, b, s)" by (cases cd)
  have x: "x < n" "m \<in> P" using snoc.prems cd by auto
  have inP: "m' \<in> P" if "(y, m', b', s') \<in> set L" for y m' b' s' using snoc.prems that by auto
  obtain nx bt pv where col: "fold (improve F) L (replicate n (f_neg_inf F), replicate n 0, replicate n 0) = (nx, bt, pv)"
    by (metis prod_cases3)
  from snoc col have IH: "best_column F n L (nx, bt, pv)" by simp
  show ?case
  proof (cases "f_lt F (nx ! x) m")
    case True
    have "at_most F m' m" if "(x, m', b', s') \<in> set L" for m' b' s'
    proof -
      have "(x, nx ! x, bt ! x, pv ! x) \<in> set L" "at_most F m' (nx ! x)"
        using IH that x(1) by (auto simp: best_column_def)
      with inP [OF that] inP True laws(7,8) x(2) show ?thesis by blast
    qed
    moreover have "fold (improve F) (L @ [cd]) (replicate n (f_neg_inf F), replicate n 0, replicate n 0) =
        (nx[x := m], bt[x := b], pv[x := s])" using True by (simp add: col) (simp add: cd improve_def)
    ultimately show ?thesis using x IH laws(6)
      by (auto simp: best_column_def cd nth_list_update)
  next
    case False
    then have "nx ! x \<noteq> f_neg_inf F" using laws(5) [OF x(2)] by auto
    moreover have "at_most F m (nx ! x)" using False by (simp add: at_most_def)
    moreover have "fold (improve F) (L @ [cd]) (replicate n (f_neg_inf F), replicate n 0, replicate n 0) = (nx, bt, pv)"
      using False by (simp add: col) (simp add: cd improve_def)
    ultimately show ?thesis using IH x(1) by (auto simp: best_column_def cd)
  qed
qed

section \<open>Survivors\<close>

fun path_metric :: "'n fmath \<Rightarrow> conv_code \<Rightarrow> nat \<Rightarrow> 'n \<Rightarrow> 'n list list \<Rightarrow> u8 list \<Rightarrow> 'n" where
  "path_metric F c s m (ls # lss) (b # bs) =
     path_metric F c (next_state c s b) (f_add F m (branch_metric F (cc_polys c) (shift_in (of_nat s) b) ls)) lss bs"
| "path_metric F c s m lss bs = m"

lemma path_metric_snoc:
  "length lss = length bs \<Longrightarrow> path_metric F c s m (lss @ [ls]) (bs @ [b]) =
     f_add F (path_metric F c s m lss bs) (branch_metric F (cc_polys c) (shift_in (of_nat (state_after c s bs)) b) ls)"
  by (induction lss bs arbitrary: s m rule: list_induct2) (simp_all add: state_after_def)

definition path_to :: "conv_code \<Rightarrow> nat \<Rightarrow> u8 list \<Rightarrow> nat \<Rightarrow> bool" where
  "path_to c n bs s \<longleftrightarrow> bits01_list bs \<and> length bs = n \<and> state_after c 0 bs = s"

lemma path_to_snoc:
  "path_to c (Suc n) bs s \<longleftrightarrow> (\<exists>cs b. bs = cs @ [b] \<and> (b = 0 \<or> b = 1) \<and> path_to c n cs (state_after c 0 cs) \<and>
     s = next_state c (state_after c 0 cs) b)"
  by (cases bs rule: rev_cases) (auto simp: path_to_def state_after_snoc)

abbreviation metric_of :: "'n fmath \<Rightarrow> conv_code \<Rightarrow> 'n list list \<Rightarrow> u8 list \<Rightarrow> 'n" where
  "metric_of F c lss bs \<equiv> path_metric F c 0 (f_zero F) lss bs"

definition survives :: "'n fmath \<Rightarrow> conv_code \<Rightarrow> 'n set \<Rightarrow> 'n list list \<Rightarrow> u8 list \<Rightarrow> nat \<Rightarrow> 'n \<Rightarrow> bool" where
  "survives F c P lss bs s m \<longleftrightarrow> m \<in> P \<and> path_to c (length lss) bs s \<and> metric_of F c lss bs = m \<and>
     (\<forall>cs. path_to c (length lss) cs s \<longrightarrow> metric_of F c lss cs \<in> P \<and> at_most F (metric_of F c lss cs) m)"

definition survivors :: "'n fmath \<Rightarrow> conv_code \<Rightarrow> 'n set \<Rightarrow> 'n list list \<Rightarrow> 'n column list \<Rightarrow> 'n list \<Rightarrow> bool" where
  "survivors F c P lss cols metric \<longleftrightarrow> length metric = conv_states c \<and>
     (\<forall>s < conv_states c. (metric ! s = f_neg_inf F \<and> (\<forall>bs. \<not> path_to c (length lss) bs s)) \<or>
        survives F c P lss (rev (trace_back (rev cols) s)) s (metric ! s))"

lemma survivors_start:
  assumes "metric_laws F P B"
  shows "survivors F c P [] [] (start_metric F c)"
proof -
  have "path_to c 0 bs s \<longleftrightarrow> bs = [] \<and> s = 0" for bs s by (auto simp: path_to_def state_after_def)
  then show ?thesis using metric_lawsD(1,6) [OF assms]
    by (auto simp: survivors_def survives_def start_metric_def nth_list_update)
qed

lemma survivors_step:
  assumes "metric_laws F P B" "code_ok c" "survivors F c P lss cols metric"
    "\<forall>reg. branch_metric F (cc_polys c) reg ls \<in> B"
  shows "survivors F c P (lss @ [ls]) (cols @ [acs_step F c metric ls]) (fst (acs_step F c metric ls))"
proof -
  note laws = metric_lawsD [OF assms(1)]
  let ?n = "conv_states c" and ?neg = "f_neg_inf F"
  let ?br = "\<lambda>s b. branch_metric F (cc_polys c) (shift_in (of_nat s) b) ls"
  from assms(3) have len: "length metric = ?n"
    and surv: "\<And>s. s < ?n \<Longrightarrow> (metric ! s = ?neg \<and> (\<forall>bs. \<not> path_to c (length lss) bs s)) \<or>
      survives F c P lss (rev (trace_back (rev cols) s)) s (metric ! s)"
    by (auto simp: survivors_def)
  let ?L = "candidates F c metric ls"
  have L: "(x, m, b, s) \<in> set ?L \<longleftrightarrow> s < ?n \<and> metric ! s \<in> P \<and> (b = 0 \<or> b = 1) \<and> x = next_state c s b \<and>
      m = f_add F (metric ! s) (?br s b)" for x m b s
  proof -
    have "s < ?n \<Longrightarrow> (\<not> f_eq F (metric ! s) ?neg) = (metric ! s \<in> P)"
      using surv [of s] laws(2,3,4) by (auto simp: survives_def)
    then show ?thesis
      by (auto simp: candidates_set len candidate_of_def)
  qed
  have "\<forall>(x, m, b, s)\<in>set ?L. x < ?n \<and> m \<in> P" using L laws(9) assms(4) by auto
  from improve_best [OF assms(1) this] acs_step_candidates [OF assms(2) len, of F ls]
  obtain nx bt pv where col: "acs_step F c metric ls = (nx, bt, pv)" and best: "best_column F ?n ?L (nx, bt, pv)"
    by (metis new_column_def prod_cases3)
  have "(nx ! x = ?neg \<and> (\<forall>bs. \<not> path_to c (length (lss @ [ls])) bs x)) \<or>
      survives F c P (lss @ [ls]) (rev (trace_back (rev (cols @ [(nx, bt, pv)])) x)) x (nx ! x)" if x: "x < ?n" for x
  proof -
    have pred: "\<exists>m. (x, m, b, state_after c 0 cs) \<in> set ?L \<and> m = f_add F (metric ! state_after c 0 cs) (?br (state_after c 0 cs) b) \<and>
        survives F c P lss (rev (trace_back (rev cols) (state_after c 0 cs))) (state_after c 0 cs) (metric ! state_after c 0 cs)"
      if "b = 0 \<or> b = 1" "path_to c (length lss) cs (state_after c 0 cs)" "x = next_state c (state_after c 0 cs) b" for cs b
    proof -
      have "state_after c 0 cs < ?n" by (rule state_after_less) simp
      with surv [of "state_after c 0 cs"] that L show ?thesis by (auto simp: survives_def)
    qed
    from best x consider "nx ! x = ?neg" "\<forall>m b s. (x, m, b, s) \<notin> set ?L"
      | "(x, nx ! x, bt ! x, pv ! x) \<in> set ?L" "\<forall>m b s. (x, m, b, s) \<in> set ?L \<longrightarrow> at_most F m (nx ! x)"
      by (auto simp: best_column_def)
    then show ?thesis
    proof cases
      case 1
      have "\<not> path_to c (Suc (length lss)) bs x" for bs
      proof
        assume "path_to c (Suc (length lss)) bs x"
        then obtain cs b where "b = 0 \<or> b = 1" "path_to c (length lss) cs (state_after c 0 cs)"
          "x = next_state c (state_after c 0 cs) b" by (auto simp: path_to_snoc)
        from pred [OF this] 1(2) show False by blast
      qed
      with 1 show ?thesis by simp
    next
      case 2
      let ?s = "pv ! x" and ?b = "bt ! x"
      let ?bs = "rev (trace_back (rev cols) ?s)"
      from 2(1) L have s: "?s < ?n" "metric ! ?s \<in> P" "?b = 0 \<or> ?b = 1" "x = next_state c ?s ?b"
        "nx ! x = f_add F (metric ! ?s) (?br ?s ?b)" by auto
      from surv [OF s(1)] s(2) laws(2) have sv: "survives F c P lss ?bs ?s (metric ! ?s)" by auto
      then have bs: "path_to c (length lss) ?bs ?s" "metric_of F c lss ?bs = metric ! ?s" by (auto simp: survives_def)
      then have st: "state_after c 0 ?bs = ?s" "length ?bs = length lss" by (auto simp: path_to_def)
      have tr: "rev (trace_back (rev (cols @ [(nx, bt, pv)])) x) = ?bs @ [?b]" by simp
      have "path_to c (length (lss @ [ls])) (?bs @ [?b]) x" using bs(1) s(3,4) st(1) by (auto simp: path_to_snoc)
      moreover have "metric_of F c (lss @ [ls]) (?bs @ [?b]) = nx ! x"
        using st bs(2) s(5) by (simp add: path_metric_snoc)
      moreover have "metric_of F c (lss @ [ls]) ds \<in> P \<and> at_most F (metric_of F c (lss @ [ls]) ds) (nx ! x)"
        if "path_to c (length (lss @ [ls])) ds x" for ds
      proof -
        from that obtain cs b where ds: "ds = cs @ [b]" "b = 0 \<or> b = 1" "path_to c (length lss) cs (state_after c 0 cs)"
          "x = next_state c (state_after c 0 cs) b" by (auto simp: path_to_snoc)
        let ?u = "state_after c 0 cs"
        from pred [OF ds(2-4)] obtain m where m: "(x, m, b, ?u) \<in> set ?L" "m = f_add F (metric ! ?u) (?br ?u b)"
          "survives F c P lss (rev (trace_back (rev cols) ?u)) ?u (metric ! ?u)" by blast
        have "length lss = length cs" using ds(3) by (simp add: path_to_def)
        then have eq: "metric_of F c (lss @ [ls]) ds = f_add F (metric_of F c lss cs) (?br ?u b)"
          by (simp add: ds(1) path_metric_snoc)
        have in1: "metric_of F c lss cs \<in> P" "at_most F (metric_of F c lss cs) (metric ! ?u)" "metric ! ?u \<in> P"
          using m(3) ds(3) by (auto simp: survives_def)
        have B: "?br ?u b \<in> B" "?br ?s ?b \<in> B" using assms(4) by auto
        have inP: "f_add F (metric_of F c lss cs) (?br ?u b) \<in> P" "m \<in> P" "nx ! x \<in> P"
          using laws(9) in1(1,3) s(2) B by (simp_all add: m(2) s(5))
        have "at_most F (f_add F (metric_of F c lss cs) (?br ?u b)) m" unfolding m(2) by (rule laws(10) [OF in1(1,3) B(1) in1(2)])
        moreover have "at_most F m (nx ! x)" using 2(2) m(1) by blast
        ultimately show ?thesis using laws(8) [OF inP] inP(1) by (simp add: eq)
      qed
      ultimately have "survives F c P (lss @ [ls]) (?bs @ [?b]) x (nx ! x)"
        using s(2,5) laws(9) assms(4) by (simp add: survives_def)
      with tr show ?thesis by simp
    qed
  qed
  with best show ?thesis by (simp add: survivors_def col best_column_def)
qed

lemma trellis_snoc:
  "trellis F c (lss @ [ls]) m = trellis F c lss m @
     [acs_step F c (if lss = [] then m else fst (last (trellis F c lss m))) ls]"
  by (induction lss arbitrary: m) (auto simp: Let_def, (metis list.distinct(1) trellis.elims)+)

lemma trellis_survivors:
  assumes "metric_laws F P B" "code_ok c" "\<forall>ls\<in>set lss. \<forall>reg. branch_metric F (cc_polys c) reg ls \<in> B"
  shows "survivors F c P lss (trellis F c lss (start_metric F c))
    (if lss = [] then start_metric F c else fst (last (trellis F c lss (start_metric F c))))"
  using assms(3)
proof (induction lss rule: rev_induct)
  case Nil
  then show ?case using survivors_start [OF assms(1)] by simp
next
  case (snoc ls lss)
  with survivors_step [OF assms(1,2), of lss _ _ ls] show ?case by (simp add: trellis_snoc)
qed

section \<open>Maximum likelihood\<close>

text \<open>
  The score of a coded word against the received values, accumulated step by step in the order of the
  decoder: a value counts for a zero and its negative for a one.
\<close>

definition step_score :: "'n fmath \<Rightarrow> u8 list \<Rightarrow> 'n list \<Rightarrow> 'n" where
  "step_score F bits ls = foldl (\<lambda>a (b, l). f_add F a (if b = 0 then l else f_neg F l)) (f_zero F) (zip bits ls)"

fun word_score :: "'n fmath \<Rightarrow> nat \<Rightarrow> 'n \<Rightarrow> u8 list \<Rightarrow> 'n list list \<Rightarrow> 'n" where
  "word_score F n m coded [] = m"
| "word_score F n m coded (ls # lss) = word_score F n (f_add F m (step_score F (take n coded) ls)) (drop n coded) lss"

lemma branch_step_score: "branch_metric F polys reg ls = step_score F (map (\<lambda>p. poly_bit p reg) polys) ls"
  unfolding branch_metric_def step_score_def by (simp add: zip_map1 foldl_map case_prod_unfold cong: if_cong)

lemma branch_metric_low:
  assumes "code_ok c" "take_bit (cc_k c) a = take_bit (cc_k c) b"
  shows "branch_metric F (cc_polys c) a ls = branch_metric F (cc_polys c) b ls"
proof -
  have "poly_bit p a = poly_bit p b" if "p \<in> set (cc_polys c)" for p
    using that assms(1) poly_bit_low [OF _ assms(2)] by (simp add: code_ok_def)
  then have "map (\<lambda>p. poly_bit p a) (cc_polys c) = map (\<lambda>p. poly_bit p b) (cc_polys c)" by (rule map_cong [OF refl])
  then show ?thesis by (simp only: branch_step_score)
qed

lemma word_score_path:
  assumes "code_ok c" "bits01_list bs" "length lss = length bs" "s < conv_states c" "take_bit (cc_k c - 1) r = of_nat s"
  shows "word_score F (length (cc_polys c)) m (encode_from (cc_polys c) r bs) lss = path_metric F c s m lss bs"
  using assms(3,2,4,5)
proof (induction lss bs arbitrary: s r m rule: list_induct2)
  case (Cons ls lss b bs)
  then have b: "b = 0 \<or> b = 1" by auto
  note reg = state_register [OF assms(1) b Cons.prems(2,3)]
  have "step_score F (map (\<lambda>p. poly_bit p (shift_in r b)) (cc_polys c)) ls =
      branch_metric F (cc_polys c) (shift_in (of_nat s) b) ls"
    using branch_metric_low [OF assms(1) reg(1)] by (simp add: branch_step_score)
  with Cons.IH [OF _ next_state_less reg(2)] Cons.prems show ?case by (simp add: Let_def)
qed simp

definition received_steps :: "conv_code \<Rightarrow> 'n list \<Rightarrow> nat \<Rightarrow> 'n list list" where
  "received_steps c llrs data_len = map (step_llrs c llrs) [0..<data_len + cc_k c - 1]"

definition data_score :: "'n fmath \<Rightarrow> conv_code \<Rightarrow> 'n list \<Rightarrow> u8 list \<Rightarrow> 'n" where
  "data_score F c llrs data =
     word_score F (length (cc_polys c)) (f_zero F) (conv_encode c data) (received_steps c llrs (length data))"

lemma data_score_path:
  assumes "code_ok c" "bits01_list data"
  shows "data_score F c llrs data =
    metric_of F c (received_steps c llrs (length data)) (data @ replicate (cc_k c - 1) 0)"
  unfolding data_score_def conv_encode_def
  by (rule word_score_path [OF assms(1)]) (use assms in \<open>auto simp: received_steps_def code_ok_def\<close>)

lemma flushed_path:
  assumes "code_ok c" "bits01_list data"
  shows "path_to c (length data + cc_k c - 1) (data @ replicate (cc_k c - 1) 0) 0"
proof -
  let ?bs = "data @ replicate (cc_k c - 1) 0" and ?s = "state_after c 0 (data @ replicate (cc_k c - 1) 0)"
  have 01: "bits01_list ?bs" using assms(2) by auto
  have "?s < 2 ^ (cc_k c - 1)" using state_after_less [of 0 c ?bs] by (simp add: conv_states_def)
  moreover have "\<not> bit ?s i" if "i < cc_k c - 1" for i
    using that state_after_bits [OF 01 that, of 0] by (simp add: nth_append)
  moreover have "bit (take_bit (cc_k c - 1) ?s) i \<longleftrightarrow> i < cc_k c - 1 \<and> bit ?s i" for i by (rule bit_take_bit_iff)
  ultimately have "\<not> bit ?s i" for i using take_bit_nat_eq_self [of ?s "cc_k c - 1"] by auto
  then have "?s = 0" by (intro bit_eqI) simp
  with 01 assms(1) show ?thesis by (simp add: path_to_def code_ok_def)
qed

lemma zero_state_tail:
  assumes "bits01_list bs" "state_after c 0 bs = 0" "length bs = n + (cc_k c - 1)"
  shows "bs = take n bs @ replicate (cc_k c - 1) 0"
proof -
  have "bs ! j = 0" if "n \<le> j" "j < length bs" for j
  proof -
    let ?i = "length bs - 1 - j"
    have i: "?i < cc_k c - 1" "?i < length bs" using that assms(3) by auto
    from state_after_bits [OF assms(1) i, of 0] have "rev bs ! ?i \<noteq> 1" by (simp add: assms(2))
    moreover have "rev bs ! ?i = bs ! j" using that by (simp add: rev_nth)
    moreover have "bs ! j \<in> {0, 1}" using that assms(1) nth_mem by blast
    ultimately show ?thesis by auto
  qed
  then show ?thesis by (intro nth_equalityI) (auto simp: nth_append assms(3))
qed

lemma set_replicate_subset: "set (replicate n x) \<subseteq> {x}"
  by auto

lemma viterbi_best:
  assumes "metric_laws F P B" "code_ok c"
    "\<forall>t < data_len + cc_k c - 1. \<forall>reg. branch_metric F (cc_polys c) reg (step_llrs c llrs t) \<in> B"
  defines "d \<equiv> viterbi_decode F c llrs data_len"
  shows "length d = data_len \<and> bits01_list d \<and>
    (\<forall>data. length data = data_len \<and> bits01_list data \<longrightarrow> at_most F (data_score F c llrs data) (data_score F c llrs d))"
proof -
  let ?lss = "received_steps c llrs data_len" and ?n = "data_len + cc_k c - 1"
  let ?cols = "trellis F c ?lss (start_metric F c)"
  let ?bs = "rev (trace_back (rev ?cols) 0)"
  let ?m = "if ?lss = [] then start_metric F c else fst (last ?cols)"
  have len: "length ?lss = ?n" by (simp add: received_steps_def)
  have "\<forall>ls\<in>set ?lss. \<forall>reg. branch_metric F (cc_polys c) reg ls \<in> B" using assms(3) by (auto simp: received_steps_def)
  from trellis_survivors [OF assms(1,2) this] have "survivors F c P ?lss ?cols ?m" .
  moreover have "path_to c (length ?lss) (replicate data_len 0 @ replicate (cc_k c - 1) 0) 0"
    using flushed_path [OF assms(2), of "replicate data_len 0"] set_replicate_subset [of data_len 0] by (simp add: len) blast
  ultimately have s: "survives F c P ?lss ?bs 0 (?m ! 0)" unfolding survivors_def by (metis conv_states_pos)
  then have bs: "bits01_list ?bs" "length ?bs = data_len + (cc_k c - 1)" "state_after c 0 ?bs = 0"
    using assms(2) by (auto simp: survives_def path_to_def len code_ok_def)
  have d: "d = take data_len ?bs" by (simp add: d_def viterbi_decode_def received_steps_def Let_def)
  then have ld: "length d = data_len" "bits01_list d" using bs set_take_subset [of data_len ?bs] by (auto simp del: set_rev)
  have full: "?bs = d @ replicate (cc_k c - 1) 0" using zero_state_tail [OF bs(1,3,2)] d by simp
  have "at_most F (data_score F c llrs data) (data_score F c llrs d)" if "length data = data_len" "bits01_list data" for data
  proof -
    have "at_most F (metric_of F c ?lss (data @ replicate (cc_k c - 1) 0)) (?m ! 0)"
      using s flushed_path [OF assms(2) that(2)] that(1) len by (auto simp: survives_def)
    moreover have "metric_of F c ?lss ?bs = ?m ! 0" using s by (simp add: survives_def)
    ultimately show ?thesis using data_score_path [OF assms(2) that(2), of F llrs] data_score_path [OF assms(2) ld(2), of F llrs] that(1) ld(1) full
      by simp
  qed
  with ld show ?thesis by blast
qed


text \<open>An arithmetic that saturates from below, as a worked example.\<close>

definition saturating_math :: "rat fmath" where
  "saturating_math = rat_math\<lparr>f_lit := (\<lambda>s. if s = ''NEG_INFINITY'' then - 2000 else rat_lit s),
     f_add := (\<lambda>x y. max (- 1000) (x + y))\<rparr>"

lemma saturating_laws: "metric_laws saturating_math {x. - 1000 \<le> x} UNIV"
  by (auto simp: metric_laws_def saturating_math_def rat_math_def rat_lit_def at_most_def)

lemma k7_ok: "code_ok k7_r12"
  by (simp add: code_ok_def k7_r12_def)


section \<open>The streaming encoder and puncturing\<close>

lemma encode_from_append:
  "encode_from polys reg (a @ b) = encode_from polys reg a @ encode_from polys (foldl shift_in reg a) b"
  by (induction a arbitrary: reg) (simp_all add: Let_def)

text \<open>Fed bit by bit with a message and its tail, the streaming encoder produces the block encoder's word.\<close>

theorem streaming_encoder_agrees:
  "snd (foldl (\<lambda>(e, out) b. conv_encoder_encode b out e) (conv_encoder_new c, []) (data @ replicate (cc_k c - 1) 0)) =
     conv_encode c data"
proof -
  have "foldl (\<lambda>(e, out) b. conv_encoder_encode b out e) (e, out) bs =
      (e\<lparr>ce_reg := foldl shift_in (ce_reg e) bs\<rparr>, out @ encode_from (cc_polys (ce_code e)) (ce_reg e) bs)" for e out bs
    by (induction bs arbitrary: e out) (simp_all add: conv_encoder_encode_def Let_def)
  then show ?thesis by (simp add: conv_encoder_new_def conv_encode_def encode_from_append)
qed

section \<open>The sequential decoder\<close>

text \<open>Exact arithmetic; the branch metric stays a parameter.\<close>

definition exact_costs :: "('n::floor_ceiling) fmath \<Rightarrow> bool" where
  "exact_costs F \<longleftrightarrow> f_add F = (+) \<and> f_sub F = (-) \<and> f_le F = (\<le>) \<and> f_zero F = 0"

text \<open>A received value is better explained by the bit that was sent than by the other, and adds to the metric.\<close>

definition explains :: "('n::floor_ceiling) fmath \<Rightarrow> 'n \<Rightarrow> u8 \<Rightarrow> bool" where
  "explains F l b \<longleftrightarrow> 0 \<le> fano_bit_metric F l b \<and> fano_bit_metric F l (1 - b) < fano_bit_metric F l b"

lemma tighten_ends:
  assumes "exact_costs F" "0 < delta" "t \<le> mu"
  shows "\<exists>t1. tighten F delta mu t = Some t1 \<and> t1 \<le> mu"
proof -
  let ?b = "\<lambda>t. f_le F delta (f_sub F mu t)" and ?c = "\<lambda>t. f_add F t delta"
  from assms(1) have ops: "f_add F = (+)" "f_sub F = (-)" "f_le F = (\<le>)" by (auto simp: exact_costs_def)
  have "True \<and> nat \<lceil>(mu - ?c s) / delta\<rceil> < nat \<lceil>(mu - s) / delta\<rceil>" if "?b s" for s
  proof -
    have "1 \<le> (mu - s) / delta" using assms(2) that by (simp add: ops)
    moreover have "(mu - (s + delta)) / delta = (mu - s) / delta - 1" using assms(2) by (simp add: field_simps)
    ultimately show ?thesis by (simp add: ops)
  qed
  then have "\<exists>t1. while_option ?b ?c t = Some t1"
    by (rule measure_while_option_Some [where P = "\<lambda>_. True"]) simp_all
  then obtain t1 where t1: "while_option ?b ?c t = Some t1" ..
  have "t1 \<le> mu"
    by (rule while_option_rule [where P = "\<lambda>t. t \<le> mu", OF _ t1]) (use assms(3) in \<open>auto simp: ops\<close>)
  with t1 show ?thesis by (simp add: tighten_def)
qed

lemma poly_bit_flip:
  assumes "bit p 0" "b = 0 \<or> b = 1"
  shows "poly_bit p (shift_in r (1 - b)) = 1 - poly_bit p (shift_in r b)"
proof -
  have upt: "[0..<32] = 0 # [1..<32]" by (subst upt_conv_Cons) simp_all
  let ?rest = "length (filter (bit (shift_in r 0 AND p)) [1..<32])"
  have rest: "filter (bit (shift_in r b AND p)) [1..<32] = filter (bit (shift_in r 0 AND p)) [1..<32]" if "b = 0 \<or> b = 1" for b
    using that by (intro filter_cong refl) (auto simp: shift_in_def bit_and_iff bit_or_iff bit_1_iff)
  have low: "bit (shift_in r b AND p) 0 = (b = 1)" if "b = 0 \<or> b = 1" for b
    using assms(1) that by (auto simp: shift_in_def even_and_iff even_or_iff bit_0)
  have count: "pop_count (shift_in r b AND p) = ?rest + of_bool (b = 1)" if "b = 0 \<or> b = 1" for b
    using rest [OF that] low [OF that] by (auto simp: pop_count_def upt)
  have one: "(of_nat n AND 1 :: u8) = of_bool (odd n)" for n by (simp add: and_one_eq mod_2_eq_odd)
  have "poly_bit p (shift_in r b) = of_bool (odd (?rest + of_bool (b = 1)))" if "b = 0 \<or> b = 1" for b
    by (simp only: poly_bit_def count [OF that] one)
  then show ?thesis using assms(2) by auto
qed

lemma poly_bit_01: "poly_bit p r = 0 \<or> poly_bit p r = 1"
  by (simp add: poly_bit_def and_one_eq mod_2_eq_odd)

definition on_path :: "('n::floor_ceiling) fmath \<Rightarrow> u8 list \<Rightarrow> nat \<Rightarrow> 'n fano_state \<Rightarrow> bool" where
  "on_path F full d s \<longleftrightarrow> fa_d s = d \<and> length (fa_reg s) = length full + 1 \<and> length (fa_mu s) = length full + 1 \<and>
     length (fa_tried s) = length full + 1 \<and> length (fa_bit s) = length full \<and> fa_tried s ! d = 0 \<and>
     fa_t s \<le> fa_mu s ! d \<and> fa_reg s ! d = foldl shift_in 0 (take d full) \<and> take d (fa_bit s) = take d full"

lemma encode_from_nth:
  assumes "d < length bs"
  shows "encode_from [p, q] r bs ! (2 * d) = poly_bit p (foldl shift_in r (take (Suc d) bs))"
    and "encode_from [p, q] r bs ! (2 * d + 1) = poly_bit q (foldl shift_in r (take (Suc d) bs))"
  using assms
proof (induction bs arbitrary: d r)
  case (Cons b bs)
  { case 1 then show ?case using Cons.IH(1) by (cases d) (simp_all add: Let_def) }
  { case 2 then show ?case using Cons.IH(2) by (cases d) (simp_all add: Let_def) }
qed simp_all

lemma encode_from_length: "length (encode_from polys r bs) = length bs * length polys"
  by (induction bs arbitrary: r) (simp_all add: Let_def)

lemma fano_polys: "FANO_POLYS = [FANO_POLYS ! 0, FANO_POLYS ! 1]" "bit (FANO_POLYS ! 0) 0" "bit (FANO_POLYS ! 1) 0"
  by (simp_all add: FANO_POLYS_def bit_0)

lemma fano_advance:
  assumes "exact_costs F" "0 < delta" "on_path F full d s" "d < length full" "bits01_list full"
    "\<forall>i < 2 * length full. explains F (llrs ! i) (encode_from FANO_POLYS 0 full ! i)"
  shows "\<exists>cm s1. next_child F llrs s = Some (full ! d, cm) \<and> f_le F (fa_t s) cm \<and>
    fano_forward F delta (full ! d) cm s = Some s1 \<and> on_path F full (Suc d) s1"
proof -
  from assms(1) have ops: "f_add F = (+)" "f_sub F = (-)" "f_le F = (\<le>)" by (auto simp: exact_costs_def)
  let ?b = "full ! d" and ?r = "fa_reg s ! d"
  have b: "?b = 0 \<or> ?b = 1" using assms(4,5) nth_mem by fastforce
  have s: "fa_d s = d" "fa_tried s ! d = 0" "fa_t s \<le> fa_mu s ! d" "?r = foldl shift_in 0 (take d full)"
    using assms(3) by (auto simp: on_path_def)
  have r: "foldl shift_in 0 (take (Suc d) full) = shift_in ?r ?b"
    using assms(4) by (simp add: take_Suc_conv_app_nth s(4))
  note enc = encode_from_nth [OF assms(4), of "FANO_POLYS ! 0" "FANO_POLYS ! 1" 0, folded fano_polys(1), unfolded r]
  have ex: "explains F (llrs ! (2 * d)) (poly_bit (FANO_POLYS ! 0) (shift_in ?r ?b))"
    "explains F (llrs ! (2 * d + 1)) (poly_bit (FANO_POLYS ! 1) (shift_in ?r ?b))"
  proof -
    have "2 * d < 2 * length full" "2 * d + 1 < 2 * length full" using assms(4) by simp_all
    from this [THEN assms(6) [rule_format]]
    show "explains F (llrs ! (2 * d)) (poly_bit (FANO_POLYS ! 0) (shift_in ?r ?b))"
      "explains F (llrs ! (2 * d + 1)) (poly_bit (FANO_POLYS ! 1) (shift_in ?r ?b))" by (simp_all only: enc)
  qed
  have good: "fa_mu s ! d \<le> child_metric F llrs s ?b"
    using ex by (simp add: child_metric_def s(1) ops explains_def Let_def)
  have bad: "child_metric F llrs s (1 - ?b) < child_metric F llrs s ?b"
    using ex poly_bit_flip [OF fano_polys(2) b, of ?r] poly_bit_flip [OF fano_polys(3) b, of ?r]
    by (simp add: child_metric_def s(1) ops explains_def Let_def)
  have nc: "next_child F llrs s = Some (?b, child_metric F llrs s ?b)"
    using b bad s(1,2) by (auto simp: next_child_def Let_def ops not_le)
  have t: "fa_t s \<le> child_metric F llrs s ?b" using good s(3) by simp
  from tighten_ends [OF assms(1,2) t] obtain t1 where
    t1: "tighten F delta (child_metric F llrs s ?b) (fa_t s) = Some t1" "t1 \<le> child_metric F llrs s ?b" by blast
  have tb: "take (Suc d) ((fa_bit s)[d := ?b]) = take (Suc d) full"
    using assms(3,4) by (simp add: on_path_def take_Suc_conv_app_nth)
  show ?thesis
    using nc t t1 tb assms(3,4) r by (auto simp: fano_forward_def Let_def ops s(1) on_path_def)
qed

lemma fano_search_clean:
  assumes "exact_costs F" "0 < delta" "on_path F full d s" "d \<le> length full" "bits01_list full"
    "\<forall>i < 2 * length full. explains F (llrs ! i) (encode_from FANO_POLYS 0 full ! i)"
    "length full - d < budget"
  shows "fano_search F delta llrs n (length full) budget s = Some (Some (take n full))"
  using assms(3,4,7)
proof (induction budget arbitrary: d s)
  case (Suc budget)
  show ?case
  proof (cases "d = length full")
    case True
    with Suc.prems(1) show ?thesis by (auto simp: on_path_def)
  next
    case False
    with Suc.prems(2) have d: "d < length full" by simp
    from fano_advance [OF assms(1,2) Suc.prems(1) d assms(5,6)] obtain cm s1 where
      1: "next_child F llrs s = Some (full ! d, cm)" "f_le F (fa_t s) cm"
        "fano_forward F delta (full ! d) cm s = Some s1" "on_path F full (Suc d) s1" by blast
    have "fa_d s \<noteq> length full" using Suc.prems(1) False by (simp add: on_path_def)
    with 1 Suc.IH [OF 1(4)] d Suc.prems(3) show ?thesis by simp
  qed
qed simp

lemma fano_clean:
  assumes "exact_costs F" "0 < delta" "bits01_list data" "length data + FANO_TAIL < DEFAULT_BUDGET"
    "length llrs = length (fano_encode data)" "\<forall>i < length llrs. explains F (llrs ! i) (fano_encode data ! i)"
  shows "fano_decode F llrs (length data) delta = Some (Some data)"
proof -
  let ?full = "data @ replicate FANO_TAIL 0"
  have len: "length ?full = length data + FANO_TAIL" by simp
  have enc: "length (fano_encode data) = 2 * length ?full"
    by (simp add: fano_encode_def encode_from_length FANO_POLYS_def)
  have "on_path F ?full 0 (fano_start F (length ?full))"
    using assms(1) by (simp add: on_path_def fano_start_def exact_costs_def del: replicate_Suc)
  moreover have "bits01_list ?full" using assms(3) by auto
  moreover have "\<forall>i < 2 * length ?full. explains F (llrs ! i) (encode_from FANO_POLYS 0 ?full ! i)"
    using assms(5,6) enc by (simp add: fano_encode_def)
  ultimately have "fano_search F delta llrs (length data) (length ?full) DEFAULT_BUDGET (fano_start F (length ?full)) =
      Some (Some (take (length data) ?full))"
    using assms(4) by (intro fano_search_clean [OF assms(1,2)]) auto
  moreover have "f_le F delta (f_zero F) = False" using assms(1,2) by (simp add: exact_costs_def)
  ultimately show ?thesis using assms(5) enc by (simp add: fano_decode_def fano_decode_budget_def Let_def)
qed


text \<open>A crude metric: a bit that agrees in sign scores 1/2, the other -5/2.\<close>

definition sign_math :: "rat fmath" where
  "sign_math = rat_math\<lparr>f_lit := (\<lambda>s. if s = ''60.0'' then 60 else if s = ''-60.0'' then - 60 else rat_lit s),
     f_exp := (\<lambda>x. if x < 0 then 0 else 3), f_log2 := (\<lambda>x. x - 1)\<rparr>"

lemma sign_math_exact: "exact_costs sign_math"
  by (simp add: exact_costs_def sign_math_def rat_math_def rat_lit_def)

lemma sign_explains: "explains sign_math (if b = 0 then 6 else - 6) b" if "b = 0 \<or> b = 1"
  using that by (auto simp: explains_def fano_bit_metric_def sign_math_def rat_math_def rat_lit_def Let_def)

lemma fano_encode_01: "b \<in> set (fano_encode data) \<Longrightarrow> b = 0 \<or> b = 1"
proof -
  have "b \<in> set (encode_from polys r bs) \<Longrightarrow> b = 0 \<or> b = 1" for polys r bs
    using poly_bit_01 by (induction bs arbitrary: r) (auto simp: Let_def)
  then show "b \<in> set (fano_encode data) \<Longrightarrow> b = 0 \<or> b = 1" unfolding fano_encode_def .
qed


end
