(* ===== verification/InterleaveProps.thy ===== *)
theory InterleaveProps
  imports Interleave
begin

text \<open>
  The interleavers of \<open>Interleave\<close> restore what they scatter: inverse permutations, constant delays.
\<close>

section \<open>Permutations\<close>

lemma unpermute_into_fold:
  assumes "\<forall>(p, i)\<in>set ps. p < length xs \<and> i < length out"
  shows "unpermute_into xs ps out = Some (fold (\<lambda>(p, i) out. out[i := xs ! p]) ps out)"
  using assms by (induction ps arbitrary: out) (auto split: prod.splits)


lemma fold_scatter_length [simp]:
  "length (fold (\<lambda>(p, i) out. out[i := xs ! p]) ps out) = length out"
  by (induction ps arbitrary: out) auto

lemma fold_scatter_other:
  "j \<notin> snd ` set ps \<Longrightarrow> fold (\<lambda>(p, i) out. out[i := xs ! p]) ps out ! j = out ! j"
  by (induction ps arbitrary: out) auto

lemma fold_scatter_hit:
  assumes "distinct idx" "k < length idx" "\<forall>i\<in>set idx. i < length out"
  shows "fold (\<lambda>(p, i) out. out[i := xs ! p]) (enumerate n idx) out ! (idx ! k) = xs ! (n + k)"
  using assms
proof (induction idx arbitrary: n k out)
  case (Cons i idx)
  show ?case
  proof (cases k)
    case 0
    have "i \<notin> snd ` set (enumerate (Suc n) idx)" using Cons.prems(1) by (auto simp: in_set_enumerate_eq)
    with 0 Cons.prems(3) show ?thesis by (simp add: fold_scatter_other)
  next
    case (Suc m)
    with Cons.IH [of m "out[i := xs ! n]" "Suc n"] Cons.prems show ?thesis by simp
  qed
qed simp

lemma unpermute_permute:
  assumes "distinct idx" "set idx = {..<length xs}"
  shows "\<exists>ys. permute xs idx = Some ys \<and> length ys = length xs \<and> unpermute z ys idx = Some xs"
proof -
  let ?ys = "map (\<lambda>i. xs ! i) idx"
  have len: "length idx = length xs" using distinct_card [OF assms(1)] assms(2) by simp
  have "\<forall>(p, i)\<in>set (enumerate 0 idx). p < length ?ys \<and> i < length (replicate (length ?ys) z)"
  proof (intro ballI, clarsimp simp: in_set_enumerate_eq len)
    fix p assume "p < length xs"
    then have "idx ! p \<in> set idx" using len by simp
    with assms(2) show "idx ! p < length xs" by blast
  qed
  from unpermute_into_fold [OF this]
  have "unpermute z ?ys idx = Some (fold (\<lambda>(p, i) out. out[i := ?ys ! p]) (enumerate 0 idx) (replicate (length ?ys) z))"
    by (simp add: unpermute_def)
  moreover have "fold (\<lambda>(p, i) out. out[i := ?ys ! p]) (enumerate 0 idx) (replicate (length ?ys) z) = xs" (is "?l = xs")
  proof (rule nth_equalityI)
    show "length ?l = length xs" by (simp add: len)
    fix j assume "j < length ?l"
    then have "j \<in> set idx" using assms(2) len by simp
    then obtain k where k: "k < length idx" "idx ! k = j" by (auto simp: in_set_conv_nth)
    with fold_scatter_hit [OF assms(1) k(1), of "replicate (length ?ys) z" ?ys 0] assms(2) len
    show "?l ! j = xs ! j" by simp
  qed
  ultimately show ?thesis using assms(2) by (auto simp: permute_def len)
qed

section \<open>Bit reversal\<close>

fun rev_value :: "nat \<Rightarrow> nat \<Rightarrow> nat" where
  "rev_value 0 j = 0"
| "rev_value (Suc m) j = of_bool (bit j m) + 2 * rev_value m j"

lemma rev_value_less: "rev_value m j < 2 ^ m"
  by (induction m) (auto simp: of_bool_def)

lemma rev_value_cong: "(\<And>i. i < m \<Longrightarrow> bit j i = bit k i) \<Longrightarrow> rev_value m j = rev_value m k"
  by (induction m) auto

lemma rev_value_inject:
  "rev_value m j = rev_value m k \<Longrightarrow> i < m \<Longrightarrow> bit j i = bit k i"
proof (induction m)
  case (Suc m)
  have "of_bool (bit j m) + 2 * rev_value m j = of_bool (bit k m) + 2 * rev_value m k" using Suc.prems(1) by simp
  then have "bit j m = bit k m" "rev_value m j = rev_value m k"
    by (cases "bit j m"; cases "bit k m"; simp; presburger)+
  with Suc show ?case by (auto simp: less_Suc_eq)
qed simp

lemma and_power_nonzero: "(j :: nat) AND 2 ^ m \<noteq> 0 \<longleftrightarrow> bit j m"
proof -
  have "j AND 2 ^ m = of_bool (bit j m) * 2 ^ m"
    by (rule bit_eqI) (auto simp: bit_and_iff bit_exp_iff)
  then show ?thesis by simp
qed

lemma carry_down_step:
  defines "top1 m \<equiv> (if m = 0 then 0 else 2 ^ (m - 1) :: nat)"
  shows "(\<forall>i\<ge>m. bit (carry_down j (top1 m)) i = bit j i) \<and>
    rev_value m (carry_down j (top1 m)) = (rev_value m j + 1) mod 2 ^ m"
proof (induction m arbitrary: j)
  case 0
  show ?case by (subst carry_down.simps) (simp add: top1_def)
next
  case (Suc m)
  let ?j1 = "j XOR 2 ^ m"
  have b1: "bit ?j1 i = (bit j i \<noteq> (i = m))" for i by (auto simp: bit_xor_iff bit_exp_iff)
  have r1: "rev_value m ?j1 = rev_value m j" by (rule rev_value_cong) (simp add: b1)
  have half: "2 ^ m div 2 = top1 m" by (cases m) (simp_all add: top1_def)
  have lt: "rev_value m j < 2 ^ m" by (rule rev_value_less)
  show ?case
  proof (cases "bit j m")
    case True
    then have c: "carry_down j (top1 (Suc m)) = carry_down ?j1 (top1 m)"
      using half and_power_nonzero [of j m] by (subst carry_down.simps) (simp add: top1_def)
    have IH: "bit (carry_down ?j1 (top1 m)) i = bit ?j1 i" if "m \<le> i" for i using Suc.IH [of ?j1] that by blast
    have "2 * ((rev_value m j + 1) mod 2 ^ m) = (2 * rev_value m j + 2) mod 2 ^ Suc m"
      by (simp add: mult_mod_right)
    with True Suc.IH [of ?j1] IH [of m] show ?thesis by (auto simp: c IH b1 r1)
  next
    case False
    then have c: "carry_down j (top1 (Suc m)) = ?j1"
      using and_power_nonzero [of j m] by (subst carry_down.simps) (simp add: top1_def)
    show ?thesis using False lt by (auto simp: c b1 r1)
  qed
qed

lemma small_bits: "(j :: nat) < 2 ^ m \<longleftrightarrow> (\<forall>i\<ge>m. \<not> bit j i)"
proof
  assume "j < 2 ^ m"
  then have "take_bit m j = j" by (simp add: take_bit_nat_eq_self_iff)
  then show "\<forall>i\<ge>m. \<not> bit j i" by (metis bit_take_bit_iff leD)
next
  assume "\<forall>i\<ge>m. \<not> bit j i"
  then have "take_bit m j = j" by (intro bit_eqI) (auto simp: bit_take_bit_iff not_le)
  then show "j < 2 ^ m" by (simp add: take_bit_nat_eq_self_iff)
qed

lemma map_funpow: "map (\<lambda>i. (f ^^ i) j) [0..<Suc k] = j # map (\<lambda>i. (f ^^ i) (f j)) [0..<k]"
  by (simp add: map_upt_Suc funpow_swap1 del: upt_Suc)

lemma reversed_count_filter:
  "reversed_count n bits k j = filter (\<lambda>x. x < n) (map (\<lambda>i. ((\<lambda>x. carry_down x (2 ^ (bits - 1))) ^^ i) j) [0..<k])"
proof (induction k arbitrary: j)
  case (Suc k)
  show ?case by (simp only: map_funpow filter.simps reversed_count.simps Suc.IH) simp
qed simp

lemma bit_length_bound: "n < 2 ^ bit_length n"
proof (induction n rule: bit_length.induct)
  case (1 n)
  show ?case
  proof (cases "n = 0")
    case False
    with 1 have "n div 2 < 2 ^ bit_length (n div 2)" by simp
    then have "n < 2 ^ bit_length (n div 2) * 2" by (simp only: div_less_iff_less_mult zero_less_numeral)
    moreover have "bit_length n = Suc (bit_length (n div 2))" using False by (subst bit_length.simps) simp
    ultimately show ?thesis by simp
  qed simp
qed

lemma bit_reversal_permutation:
  assumes "2 \<le> n"
  shows "\<exists>idx. bit_reversal_indices n = Some idx \<and> distinct idx \<and> set idx = {..<n}"
proof -
  let ?b = "bit_length (n - 1)"
  let ?f = "\<lambda>x. carry_down x (2 ^ (?b - 1))"
  let ?js = "map (\<lambda>i. (?f ^^ i) 0) [0..<2 ^ ?b]"
  have b: "0 < ?b" using assms by (subst bit_length.simps) simp
  have step: "(\<forall>i\<ge>?b. bit (?f j) i = bit j i) \<and> rev_value ?b (?f j) = (rev_value ?b j + 1) mod 2 ^ ?b" for j
    using carry_down_step [of ?b j] b by simp
  have it: "(?f ^^ i) 0 < 2 ^ ?b \<and> rev_value ?b ((?f ^^ i) 0) = i mod 2 ^ ?b" for i
  proof (induction i)
    case 0
    have "rev_value m 0 = 0" for m by (induction m) auto
    then show ?case by simp
  next
    case (Suc i)
    with step [of "(?f ^^ i) 0"] show ?case by (auto simp: small_bits mod_Suc_eq)
  qed
  have "inj_on (\<lambda>i. (?f ^^ i) 0) (set [0..<2 ^ ?b])"
  proof (rule inj_onI)
    fix x y assume "x \<in> set [0..<2 ^ ?b]" "y \<in> set [0..<2 ^ ?b]" "(?f ^^ x) 0 = (?f ^^ y) 0"
    then have "x mod 2 ^ ?b = y mod 2 ^ ?b" using it [of x] it [of y] by metis
    with \<open>x \<in> _\<close> \<open>y \<in> _\<close> show "x = y" by (simp only: set_upt atLeastLessThan_iff mod_less)
  qed
  then have d: "distinct ?js" by (simp only: distinct_map distinct_upt simp_thms)
  have "set ?js \<subseteq> {..<2 ^ ?b}" using it by auto
  moreover have "card (set ?js) = 2 ^ ?b" using distinct_card [OF d] by simp
  ultimately have s: "set ?js = {..<2 ^ ?b}" by (intro card_subset_eq) auto
  have n: "n \<le> 2 ^ ?b" using bit_length_bound [of "n - 1"] assms by simp
  have "bit_reversal_indices n = Some (filter (\<lambda>x. x < n) ?js)"
    using assms by (simp add: bit_reversal_indices_def reversed_count_filter Let_def)
  moreover have "distinct (filter (\<lambda>x. x < n) ?js)" using d by (rule distinct_filter)
  moreover have "set (filter (\<lambda>x. x < n) ?js) = {..<n}" using s n by (simp only: set_filter) auto
  ultimately show ?thesis by blast
qed

section \<open>Diagonals\<close>

lemma diagonal_permutation: "distinct (diagonal_indices n) \<and> set (diagonal_indices n) = {..<length (diagonal_indices n)} \<and> length (diagonal_indices n) = n * n"
proof -
  have len: "length (diagonal_indices n) = n * n"
    by (simp add: diagonal_indices_def length_concat comp_def sum_list_triv)
  have sub: "set (diagonal_indices n) \<subseteq> {..<n * n}"
  proof
    fix x assume "x \<in> set (diagonal_indices n)"
    then obtain r c where rc: "r < n" "c < n" "x = c * n + (r + c) mod n" by (auto simp: diagonal_indices_def)
    then have "(r + c) mod n < n" by simp
    with rc have "x < c * n + n" by simp
    also have "\<dots> = (c + 1) * n" by simp
    also have "\<dots> \<le> n * n" using rc by (intro mult_right_mono) auto
    finally show "x \<in> {..<n * n}" by simp
  qed
  have full: "x \<in> set (diagonal_indices n)" if "x < n * n" for x
  proof -
    have n: "0 < n" using that by (cases n) auto
    define c where "c = x div n"
    define r where "r = (x mod n + n - c) mod n"
    have c: "c < n" using that n by (simp add: c_def less_mult_imp_div_less)
    have r: "r < n" using n by (simp add: r_def)
    have "(r + c) mod n = (x mod n + n - c + c) mod n" by (simp add: r_def mod_add_left_eq)
    also have "\<dots> = x mod n" using c by simp
    finally have "x = c * n + (r + c) mod n" by (simp add: c_def)
    then have "x \<in> set (map (\<lambda>c. c * n + (r + c) mod n) [0..<n])" using c by (simp only: set_map set_upt) (rule image_eqI, rule refl, simp)
    with r show ?thesis by (auto simp: diagonal_indices_def)
  qed
  have s: "set (diagonal_indices n) = {..<n * n}" using sub full by auto
  then have "card (set (diagonal_indices n)) = length (diagonal_indices n)" by (simp add: len)
  with s len show ?thesis by (simp add: card_distinct)
qed

section \<open>The convolutional pair\<close>

definition branch_items :: "nat \<Rightarrow> nat \<Rightarrow> 'a list \<Rightarrow> 'a list" where
  "branch_items rows b xs = map (\<lambda>k. xs ! (k * rows + b)) [0..<(length xs + rows - 1 - b) div rows]"

lemma branch_count:
  assumes "b < (rows :: nat)"
  shows "(t + rows - 1 - b) div rows = t div rows + (if b < t mod rows then 1 else 0)"
proof -
  have r: "t mod rows < rows" using assms by simp
  have "t + rows - 1 - b = t div rows * rows + (t mod rows + rows - 1 - b)"
    using assms div_mult_mod_eq [of t rows] by linarith
  then have "(t + rows - 1 - b) div rows = t div rows + (t mod rows + rows - 1 - b) div rows"
    using assms by (simp only:) (metis add.commute div_mult_self1 gr_implies_not0)
  moreover have "(t mod rows + rows - 1 - b) div rows = (if b < t mod rows then 1 else 0)"
  proof (cases "b < t mod rows")
    case True
    then have "(t mod rows + rows - 1 - b) = rows + (t mod rows - 1 - b)" by simp
    moreover have "t mod rows - 1 - b < rows" using r by simp
    ultimately show ?thesis using True assms by (simp only: div_add_self1) simp
  qed (use r assms in auto)
  ultimately show ?thesis by simp
qed

lemma branch_items_snoc:
  assumes "b < rows"
  shows "branch_items rows b (xs @ [x]) =
    (if length xs mod rows = b then branch_items rows b xs @ [x] else branch_items rows b xs)"
proof -
  let ?t = "length xs"
  have c: "(?t + 1 + rows - 1 - b) div rows = (?t + rows - 1 - b) div rows + (if ?t mod rows = b then 1 else 0)"
  proof -
    have "(?t + 1 + rows - 1 - b) div rows = (?t + rows - b) div rows" by simp
    moreover have "?t + rows - b = Suc (?t + rows - 1 - b)" using assms by simp
    moreover have "(Suc (?t + rows - 1 - b)) mod rows = 0 \<longleftrightarrow> ?t mod rows = b"
    proof -
      have "(Suc (?t + rows - 1 - b)) mod rows = 0 \<longleftrightarrow> (?t + rows - b) mod rows = 0"
        using assms by (simp add: Suc_diff_Suc)
      also have "\<dots> \<longleftrightarrow> (?t + rows) mod rows = b mod rows"
        using assms by (metis add_increasing le_add2 le_trans less_imp_le mod_eq_dvd_iff_nat mod_eq_0_iff_dvd)
      finally show ?thesis using assms by simp
    qed
    ultimately show ?thesis by (simp add: div_Suc)
  qed
  have old: "k * rows + b < ?t" if "k < (?t + rows - 1 - b) div rows" for k
  proof -
    have "(k + 1) * rows \<le> (?t + rows - 1 - b) div rows * rows" using that by (intro mult_right_mono) auto
    also have "\<dots> \<le> ?t + rows - 1 - b" by simp
    finally have "(k + 1) * rows \<le> ?t + rows - 1 - b" .
    with assms show ?thesis by simp
  qed
  have new: "(?t + rows - 1 - b) div rows * rows + b = ?t" if "?t mod rows = b"
    using that branch_count [OF assms, of ?t] div_mult_mod_eq [of ?t rows] by simp
  show ?thesis
    using c old new by (auto simp: branch_items_def nth_append)
qed

definition conv_state :: "'a \<Rightarrow> nat \<Rightarrow> (nat \<Rightarrow> nat) \<Rightarrow> 'a list \<Rightarrow> 'a conv_lines \<Rightarrow> bool" where
  "conv_state z rows dl xs s \<longleftrightarrow> cl_rows s = rows \<and> length (cl_lines s) = rows \<and> cl_branch s = length xs mod rows \<and>
     (\<forall>b<rows. cl_lines s ! b =
        drop (length (branch_items rows b xs)) (replicate (dl b) z @ branch_items rows b xs))"

definition delayed_item :: "'a \<Rightarrow> nat \<Rightarrow> (nat \<Rightarrow> nat) \<Rightarrow> 'a list \<Rightarrow> nat \<Rightarrow> 'a" where
  "delayed_item z rows dl xs t = (if t < dl (t mod rows) * rows then z else xs ! (t - dl (t mod rows) * rows))"

lemma conv_push_state:
  assumes "conv_state z rows dl xs s" "0 < rows"
  shows "\<exists>s1. conv_push x s = Some (s1, delayed_item z rows dl (xs @ [x]) (length xs)) \<and>
    conv_state z rows dl (xs @ [x]) s1"
proof -
  let ?t = "length xs"
  let ?b = "?t mod rows" and ?q = "?t div rows"
  have b: "?b < rows" using assms(2) by simp
  define br where "br = branch_items rows ?b xs"
  have lbr: "length br = ?q" using branch_count [OF b, of ?t] by (simp add: br_def branch_items_def)
  from assms(1) have s: "cl_rows s = rows" "length (cl_lines s) = rows" "cl_branch s = ?b"
    "\<And>c. c < rows \<Longrightarrow> cl_lines s ! c = drop (length (branch_items rows c xs)) (replicate (dl c) z @ branch_items rows c xs)"
    by (auto simp: conv_state_def)
  let ?L = "replicate (dl ?b) z @ br"
  have line: "cl_lines s ! ?b @ [x] = drop ?q (?L @ [x])" using s(4) [OF b] lbr by (simp add: br_def)
  have ne: "?q < length (?L @ [x])" using lbr by simp
  have hd: "hd (drop ?q (?L @ [x])) = delayed_item z rows dl (xs @ [x]) ?t"
  proof -
    have iff: "?q < dl ?b \<longleftrightarrow> ?t < dl ?b * rows" using assms(2) by (simp add: div_less_iff_less_mult)
    have new: "br @ [x] = branch_items rows ?b (xs @ [x])" using branch_items_snoc [OF b, of xs x] by (simp add: br_def)
    have "(br @ [x]) ! (?q - dl ?b) = (xs @ [x]) ! (?t - dl ?b * rows)" if "dl ?b \<le> ?q"
    proof -
      have len: "length (br @ [x]) = (length (xs @ [x]) + rows - 1 - ?b) div rows" by (simp only: new) (simp add: branch_items_def)
      have "?q - dl ?b < length (br @ [x])" using lbr by simp
      then have "(br @ [x]) ! (?q - dl ?b) = (xs @ [x]) ! ((?q - dl ?b) * rows + ?b)"
        unfolding len by (simp only: new) (simp add: branch_items_def)
      moreover have "(?q - dl ?b) * rows + ?b = ?t - dl ?b * rows"
      proof -
        have "dl ?b * rows \<le> ?q * rows" using that by (rule mult_right_mono) simp
        then show ?thesis using div_mult_mod_eq [of ?t rows] by (simp add: diff_mult_distrib)
      qed
      ultimately show ?thesis by simp
    qed
    then have "(?L @ [x]) ! ?q = delayed_item z rows dl (xs @ [x]) ?t"
      using iff by (auto simp: delayed_item_def nth_append not_less)
    then show ?thesis by (simp only: hd_drop_conv_nth [OF ne])
  qed
  let ?s1 = "s\<lparr>cl_lines := (cl_lines s)[?b := tl (drop ?q (?L @ [x]))], cl_branch := (?b + 1) mod rows\<rparr>"
  have "conv_push x s = Some (?s1, delayed_item z rows dl (xs @ [x]) ?t)"
    using b by (simp add: conv_push_def s(1-3) line Let_def hd [symmetric])
  moreover have "conv_state z rows dl (xs @ [x]) ?s1"
  proof -
    have "(cl_lines s)[?b := tl (drop ?q (?L @ [x]))] ! c =
        drop (length (branch_items rows c (xs @ [x]))) (replicate (dl c) z @ branch_items rows c (xs @ [x]))"
      if c: "c < rows" for c
    proof (cases "c = ?b")
      case True
      have "tl (drop ?q (?L @ [x])) = drop (Suc ?q) (?L @ [x])" by (simp only: drop_Suc drop_tl)
      with True b s(2) lbr branch_items_snoc [OF b, of xs x] show ?thesis by (simp add: br_def)
    next
      case False
      then show ?thesis using s(4) [OF c] branch_items_snoc [OF c, of xs x] by simp
    qed
    then show ?thesis using s(1,2) by (simp add: conv_state_def mod_Suc_eq)
  qed
  ultimately show ?thesis by blast
qed

lemma conv_run_state:
  assumes "0 < rows" "conv_state z rows dl before s"
  shows "\<exists>s1. conv_run xs s = Some (s1, map (delayed_item z rows dl (before @ xs)) [length before..<length before + length xs]) \<and>
    conv_state z rows dl (before @ xs) s1"
  using assms(2)
proof (induction xs arbitrary: before s)
  case (Cons x xs)
  from conv_push_state [OF Cons.prems assms(1)] obtain s1 where
    s1: "conv_push x s = Some (s1, delayed_item z rows dl (before @ [x]) (length before))" "conv_state z rows dl (before @ [x]) s1" by blast
  have "delayed_item z rows dl (before @ [x]) (length before) = delayed_item z rows dl (before @ x # xs) (length before)"
    by (auto simp: delayed_item_def nth_append)
  with s1(1) Cons.IH [OF s1(2)] show ?case by (auto simp: upt_conv_Cons simp del: upt_Suc)
qed simp

lemma conv_new_state:
  "conv_state z rows (\<lambda>b. b * delay) [] (conv_interleaver_new z rows delay)"
  "conv_state z rows (\<lambda>b. (rows - 1 - b) * delay) [] (conv_deinterleaver_new z rows delay)"
  by (auto simp: conv_state_def branch_items_def conv_interleaver_new_def conv_deinterleaver_new_def)

lemma conv_pair_delay:
  assumes "0 < rows"
  shows "\<exists>s ys. conv_run xs (conv_interleaver_new z rows delay) = Some (s, ys) \<and>
    (\<exists>s'. conv_run ys (conv_deinterleaver_new z rows delay) =
      Some (s', take (length xs) (replicate (rows * (rows - 1) * delay) z @ xs)))"
proof -
  let ?d1 = "\<lambda>b. b * delay" and ?d2 = "\<lambda>b. (rows - 1 - b) * delay"
  let ?ys = "map (delayed_item z rows ?d1 xs) [0..<length xs]"
  from conv_run_state [OF assms conv_new_state(1), of xs z delay] obtain s where
    1: "conv_run xs (conv_interleaver_new z rows delay) = Some (s, ?ys)" by auto
  from conv_run_state [OF assms conv_new_state(2), of ?ys z delay] obtain s' where
    2: "conv_run ?ys (conv_deinterleaver_new z rows delay) = Some (s', map (delayed_item z rows ?d2 ?ys) [0..<length xs])" by auto
  have "map (delayed_item z rows ?d2 ?ys) [0..<length xs] = take (length xs) (replicate (rows * (rows - 1) * delay) z @ xs)" (is "?l = ?r")
  proof (rule nth_equalityI)
    fix t assume "t < length ?l"
    then have t: "t < length xs" by simp
    let ?b = "t mod rows"
    have b: "?b < rows" using assms by simp
    have tot: "?d2 ?b * rows + ?d1 ?b * rows = rows * (rows - 1) * delay"
    proof -
      have "?d2 ?b + ?d1 ?b = (rows - 1) * delay" using b by (simp flip: add_mult_distrib)
      then have "(?d2 ?b + ?d1 ?b) * rows = (rows - 1) * delay * rows" by simp
      then show ?thesis by (simp only: add_mult_distrib add_mult_distrib2 mult_ac)
    qed
    have m: "(t - ?d2 ?b * rows) mod rows = ?b" if "?d2 ?b * rows \<le> t"
      using that by (simp add: mod_diff_right_eq [symmetric] le_mod_geq) (metis le_add_diff_inverse2 mod_mult_self1 that)
    have "delayed_item z rows ?d2 ?ys t = (if t < rows * (rows - 1) * delay then z else xs ! (t - rows * (rows - 1) * delay))"
    proof (cases "t < ?d2 ?b * rows")
      case True
      with tot show ?thesis by (simp add: delayed_item_def)
    next
      case False
      then have "delayed_item z rows ?d2 ?ys t = delayed_item z rows ?d1 xs (t - ?d2 ?b * rows)"
        using t by (simp add: delayed_item_def)
      also have "\<dots> = (if t < ?d2 ?b * rows + ?d1 ?b * rows then z else xs ! (t - (?d2 ?b * rows + ?d1 ?b * rows)))"
        using False m by (auto simp: delayed_item_def)
      finally show ?thesis by (simp only: tot)
    qed
    with t show "?l ! t = ?r ! t" by (simp add: nth_append)
  qed simp
  with 1 2 show ?thesis by auto
qed

section \<open>The delay cascades\<close>

text \<open>Row \<open>i\<close> of the columns \<open>cs\<close>, delayed by \<open>dl i\<close> columns, with \<open>fill\<close> before the first.\<close>

definition delayed_row :: "'a \<Rightarrow> nat \<Rightarrow> 'a list \<Rightarrow> nat \<Rightarrow> 'a" where
  "delayed_row fill dl row t = (if t < dl then fill else row ! (t - dl))"

definition delayed :: "nat \<Rightarrow> (nat \<Rightarrow> nat) \<Rightarrow> 'a \<Rightarrow> 'a list list \<Rightarrow> 'a list list" where
  "delayed w dl fill cs = map (\<lambda>t. map (\<lambda>i. delayed_row fill (dl i) (map (\<lambda>c. c ! i) cs) t) [0..<w]) [0..<length cs]"

lemma delayed_length [simp]: "length (delayed w dl fill cs) = length cs"
  by (simp add: delayed_def)

lemma delayed_nth: "t < length cs \<Longrightarrow> i < w \<Longrightarrow>
    delayed w dl fill cs ! t ! i = (if t < dl i then fill else cs ! (t - dl i) ! i)"
  by (simp add: delayed_def delayed_row_def)

lemma delayed_columns [simp]: "t < length cs \<Longrightarrow> length (delayed w dl fill cs ! t) = w"
  by (simp add: delayed_def)

lemma columns_eqI:
  assumes "length a = length b" "\<And>t. t < length b \<Longrightarrow> length (a ! t) = w \<and> length (b ! t) = w"
    "\<And>t i. t < length b \<Longrightarrow> i < w \<Longrightarrow> a ! t ! i = b ! t ! i"
  shows "a = b"
  using assms by (intro nth_equalityI) auto

lemma delayed_delayed: "delayed w a fill (delayed w b fill cs) = delayed w (\<lambda>i. a i + b i) fill cs"
  by (rule columns_eqI [where w = w]) (auto simp: delayed_nth)

lemma delayed_0:
  assumes "\<forall>c\<in>set cs. length c = w"
  shows "delayed w (\<lambda>i. 0) fill cs = cs"
  by (rule columns_eqI [where w = w]) (use assms in \<open>auto simp: delayed_nth\<close>)

lemma delayed_snoc:
  "delayed w dl fill (cs @ [c]) = delayed w dl fill cs @
     [map (\<lambda>i. delayed_row fill (dl i) (map (\<lambda>c. c ! i) (cs @ [c])) (length cs)) [0..<w]]"
proof (rule columns_eqI [where w = w])
  fix t i assume t: "t < length (delayed w dl fill cs @ [map (\<lambda>i. delayed_row fill (dl i) (map (\<lambda>c. c ! i) (cs @ [c])) (length cs)) [0..<w]])"
    and i: "i < w"
  show "delayed w dl fill (cs @ [c]) ! t ! i = (delayed w dl fill cs @
     [map (\<lambda>i. delayed_row fill (dl i) (map (\<lambda>c. c ! i) (cs @ [c])) (length cs)) [0..<w]]) ! t ! i"
  proof (cases "t < length cs")
    case True
    with i show ?thesis by (simp add: delayed_nth nth_append less_imp_diff_less)
  next
    case False
    with t have "t = length cs" by simp
    with i show ?thesis by (auto simp: delayed_nth nth_append delayed_row_def)
  qed
qed (auto simp: nth_append)

text \<open>What the loops of one stage do to the table.\<close>

lemma fold_length [simp]:
  assumes "\<And>x t. length (f x t) = length t"
  shows "length (fold f xs t) = length t"
  using assms by (induction xs arbitrary: t) auto

lemma shift_row_length [simp]: "length (shift_row w row t) = length t"
  by (simp add: shift_row_def)

lemma shift_row_nth:
  assumes "row + w \<le> length t"
  shows "shift_row w row t ! p = (if row \<le> p \<and> p + 1 < row + w then t ! (p + 1) else t ! p)"
proof -
  have "fold (\<lambda>j t. t[row + j := t ! (row + j + 1)]) [0..<m] t ! p =
      (if row \<le> p \<and> p < row + m then t ! (p + 1) else t ! p)" if "row + m < length t \<or> m = 0" for m
    using that
  proof (induction m arbitrary: p)
    case (Suc m)
    let ?u = "fold (\<lambda>j t. t[row + j := t ! (row + j + 1)]) [0..<m] t"
    have "length ?u = length t" by simp
    with Suc show ?case by (auto simp: nth_list_update)
  qed auto
  moreover have "row + (w - 1) < length t \<or> w - 1 = 0" using assms by (cases w) auto
  ultimately show ?thesis by (auto simp: shift_row_def)
qed

lemma shift_rows_nth:
  assumes "base + m * w \<le> length t" "i < m" "j < w"
  shows "fold (\<lambda>i. shift_row w (base + i * w)) [0..<m] t ! (base + i * w + j) =
    (if j + 1 < w then t ! (base + i * w + j + 1) else t ! (base + i * w + j))"
  using assms
proof (induction m)
  case (Suc m)
  let ?u = "fold (\<lambda>i. shift_row w (base + i * w)) [0..<m] t"
  have u: "length ?u = length t" by simp
  have other: "?u ! p = t ! p" if "base + m * w \<le> p" for p
  proof -
    have "fold (\<lambda>i. shift_row w (base + i * w)) [0..<n] t ! p = t ! p" if "n \<le> m" for n
      using that
    proof (induction n)
      case (Suc n)
      have "(n + 1) * w \<le> m * w" using Suc.prems by (intro mult_right_mono) auto
      with \<open>base + m * w \<le> p\<close> have "base + n * w + w \<le> p" by simp
      with Suc shift_row_nth [of "base + n * w" w "fold (\<lambda>i. shift_row w (base + i * w)) [0..<n] t" p] \<open>base + Suc m * w \<le> length t\<close>
        \<open>(n + 1) * w \<le> m * w\<close>
      show ?case by simp
    qed simp
    then show ?thesis by simp
  qed
  have sh: "fold (\<lambda>i. shift_row w (base + i * w)) [0..<Suc m] t ! p =
      (if base + m * w \<le> p \<and> p + 1 < base + m * w + w then ?u ! (p + 1) else ?u ! p)" for p
    using shift_row_nth [of "base + m * w" w ?u p] Suc.prems(1) u by simp
  show ?case
  proof (cases "i = m")
    case True
    with Suc.prems(3) other [of "base + m * w + j"] other [of "base + m * w + j + 1"] sh [of "base + m * w + j"] show ?thesis by simp
  next
    case False
    then have i: "i < m" using Suc.prems by simp
    then have "(i + 1) * w \<le> m * w" by (intro mult_right_mono) auto
    then have "base + i * w + j < base + m * w" using Suc.prems(3) by simp
    with sh [of "base + i * w + j"] Suc.IH i Suc.prems show ?thesis by simp
  qed
qed simp

lemma shift_rows_other:
  assumes "base + m * w \<le> length t" "p < base \<or> base + m * w \<le> p"
  shows "fold (\<lambda>i. shift_row w (base + i * w)) [0..<m] t ! p = t ! p"
  using assms
proof (induction m)
  case (Suc m)
  then show ?case
    using shift_row_nth [of "base + m * w" w "fold (\<lambda>i. shift_row w (base + i * w)) [0..<m] t" p] by auto
qed simp

lemma insert_column_nth:
  assumes "base + m * w \<le> length t"
  shows "i < m \<Longrightarrow> j < w \<Longrightarrow> fold (\<lambda>i t. t[base + i * w + (w - 1) := syms ! i]) [0..<m] t ! (base + i * w + j) =
    (if j = w - 1 then syms ! i else t ! (base + i * w + j))" (is "_ \<Longrightarrow> _ \<Longrightarrow> ?A i j m")
    and "p < base \<or> base + m * w \<le> p \<Longrightarrow> 0 < w \<Longrightarrow> fold (\<lambda>i t. t[base + i * w + (w - 1) := syms ! i]) [0..<m] t ! p = t ! p"
proof -
  have out: "fold (\<lambda>i t. t[base + i * w + (w - 1) := syms ! i]) [0..<n] t ! p = t ! p"
    if "p < base \<or> base + n * w \<le> p" "0 < w" for n p
    using that(1)
  proof (induction n)
    case (Suc n)
    then have "p \<noteq> base + n * w + (w - 1)" using that(2) by auto
    with Suc show ?case by auto
  qed simp
  then show "p < base \<or> base + m * w \<le> p \<Longrightarrow> 0 < w \<Longrightarrow> fold (\<lambda>i t. t[base + i * w + (w - 1) := syms ! i]) [0..<m] t ! p = t ! p" .
  show "?A i j m" if ij: "i < m" "j < w" for i j
    using assms ij(1)
  proof (induction m)
    case (Suc m)
    let ?u = "fold (\<lambda>i t. t[base + i * w + (w - 1) := syms ! i]) [0..<m] t"
    have u: "length ?u = length t" by simp
    show ?case
    proof (cases "i = m")
      case True
      have "?u ! (base + m * w + j) = t ! (base + m * w + j)" using ij(2) by (intro out) auto
      with True ij(2) Suc.prems u show ?thesis by (auto simp: nth_list_update)
    next
      case False
      then have i: "i < m" using Suc.prems by simp
      then have "(i + 1) * w \<le> m * w" by (intro mult_right_mono) auto
      then have "base + i * w + j \<noteq> base + m * w + (w - 1)" using ij(2) by simp
      with Suc i show ?thesis by simp
    qed
  qed simp
qed

lemma stage_table_nth:
  assumes "base + w * w \<le> length t" "length syms = w"
  shows "i < w \<Longrightarrow> j < w \<Longrightarrow> stage_table w base syms t ! (base + i * w + j) =
      (if j + 1 < w then t ! (base + i * w + j + 1) else syms ! i)"
    and "p < base \<or> base + w * w \<le> p \<Longrightarrow> stage_table w base syms t ! p = t ! p"
    and "length (stage_table w base syms t) = length t"
proof -
  let ?u = "fold (\<lambda>i. shift_row w (base + i * w)) [0..<w] t"
  have u: "length ?u = length t" by simp
  show "length (stage_table w base syms t) = length t" by (simp add: stage_table_def)
  show "stage_table w base syms t ! p = t ! p" if "p < base \<or> base + w * w \<le> p"
  proof (cases "w = 0")
    case True
    with assms show ?thesis by (simp add: stage_table_def)
  next
    case False
    with that assms insert_column_nth(2) [of base w w ?u p syms] shift_rows_other [of base w w t p] u
    show ?thesis by (simp add: stage_table_def)
  qed
  show "stage_table w base syms t ! (base + i * w + j) =
      (if j + 1 < w then t ! (base + i * w + j + 1) else syms ! i)" if "i < w" "j < w"
    using that assms insert_column_nth(1) [of base w w ?u i j syms] shift_rows_nth [of base w w t i j] u
    by (auto simp: stage_table_def)
qed

text \<open>The input of stage \<open>k\<close>, and the table after the columns \<open>cs\<close>.\<close>

definition row_delay :: "bool \<Rightarrow> nat \<Rightarrow> nat \<Rightarrow> nat" where
  "row_delay fwd w i = (if fwd then i else w - 1 - i)"

definition stage_input :: "bool \<Rightarrow> nat \<Rightarrow> nat \<Rightarrow> 'a \<Rightarrow> 'a list list \<Rightarrow> 'a list list" where
  "stage_input fwd w k fill cs = delayed w (\<lambda>i. k * row_delay fwd w i) fill cs"

definition cell_history :: "nat \<Rightarrow> 'a \<Rightarrow> 'a list list \<Rightarrow> nat \<Rightarrow> 'a list" where
  "cell_history w fill cs i = replicate w fill @ map (\<lambda>c. c ! i) cs"

definition table_after :: "bool \<Rightarrow> nat \<Rightarrow> nat \<Rightarrow> 'a \<Rightarrow> 'a list list \<Rightarrow> 'a list \<Rightarrow> bool" where
  "table_after fwd w k fill cs t \<longleftrightarrow>
     (\<forall>i<w. \<forall>j<w. t ! (k * w * w + i * w + j) = cell_history w fill (stage_input fwd w k fill cs) i ! (length cs + j))"

lemma stage_input_snoc:
  "stage_input fwd w k fill (cs @ [c]) = stage_input fwd w k fill cs @ [last (stage_input fwd w k fill (cs @ [c]))]"
  by (simp add: stage_input_def delayed_snoc)

lemma stage_input_last_length [simp]: "length (last (stage_input fwd w k fill (cs @ [c]))) = w"
  by (simp add: stage_input_def delayed_snoc)

lemma stage_length [simp]: "length (stage_input fwd w k fill cs) = length cs"
  by (simp add: stage_input_def)

lemma stage_step:
  assumes "table_after fwd w k fill cs t" "k * w * w + w * w \<le> length t"
    "syms = last (stage_input fwd w k fill (cs @ [c]))"
  shows "table_after fwd w k fill (cs @ [c]) (stage_table w (k * w * w) syms t)"
    "stage_read fwd w (k * w * w) syms (stage_table w (k * w * w) syms t) = last (stage_input fwd w (Suc k) fill (cs @ [c]))"
proof -
  let ?t1 = "stage_table w (k * w * w) syms t"
  let ?in = "stage_input fwd w k fill cs"
  have sl: "length syms = w" using assms(3) by simp
  have snoc: "stage_input fwd w k fill (cs @ [c]) = ?in @ [syms]" using assms(3) stage_input_snoc by metis
  show after: "table_after fwd w k fill (cs @ [c]) ?t1"
    unfolding table_after_def
  proof (intro allI impI)
    fix i j assume ij: "i < w" "j < w"
    show "?t1 ! (k * w * w + i * w + j) = cell_history w fill (stage_input fwd w k fill (cs @ [c])) i ! (length (cs @ [c]) + j)"
    proof (cases "j + 1 < w")
      case True
      then have "?t1 ! (k * w * w + i * w + j) = t ! (k * w * w + i * w + (j + 1))"
        using stage_table_nth(1) [OF assms(2) sl ij] by simp
      also have "\<dots> = cell_history w fill ?in i ! (length cs + (j + 1))"
        using assms(1) ij(1) True unfolding table_after_def by blast
      also have "\<dots> = cell_history w fill (?in @ [syms]) i ! (length cs + (j + 1))"
        using True by (auto simp: cell_history_def nth_append)
      finally show ?thesis by (simp add: snoc)
    next
      case False
      then have j: "j = w - 1" using ij by simp
      then have "?t1 ! (k * w * w + i * w + j) = syms ! i"
        using stage_table_nth(1) [OF assms(2) sl ij] False by simp
      moreover have "cell_history w fill (?in @ [syms]) i ! (length (cs @ [c]) + j) = syms ! i"
        using j ij by (simp add: cell_history_def nth_append)
      ultimately show ?thesis by (simp add: snoc)
    qed
  qed
  show "stage_read fwd w (k * w * w) syms ?t1 = last (stage_input fwd w (Suc k) fill (cs @ [c]))"
  proof (rule nth_equalityI)
    fix i assume "i < length (stage_read fwd w (k * w * w) syms ?t1)"
    then have i: "i < w" by (simp add: stage_read_def sl)
    let ?j = "if fwd then w - i - 1 else i"
    have j: "?j < w" using i by simp
    have dl: "length (cs @ [c]) + ?j = length cs + w - row_delay fwd w i" "row_delay fwd w i < w"
      using i by (auto simp: row_delay_def)
    have "stage_read fwd w (k * w * w) syms ?t1 ! i = ?t1 ! (k * w * w + i * w + ?j)"
      using i by (simp add: stage_read_def sl)
    also have "\<dots> = cell_history w fill (?in @ [syms]) i ! (length cs + w - row_delay fwd w i)"
      using after i j unfolding table_after_def snoc [symmetric] dl(1) [symmetric] by blast
    also have "\<dots> = (if length cs < row_delay fwd w i then fill else (?in @ [syms]) ! (length cs - row_delay fwd w i) ! i)"
      using dl(2) i by (auto simp: cell_history_def nth_append sl)
    also have "\<dots> = delayed w (row_delay fwd w) fill (stage_input fwd w k fill (cs @ [c])) ! length cs ! i"
      using i by (simp add: delayed_nth snoc [symmetric])
    also have "delayed w (row_delay fwd w) fill (stage_input fwd w k fill (cs @ [c])) = stage_input fwd w (Suc k) fill (cs @ [c])"
      by (simp add: stage_input_def delayed_delayed)
    also have "stage_input fwd w (Suc k) fill (cs @ [c]) ! length cs = last (stage_input fwd w (Suc k) fill (cs @ [c]))"
      by (subst last_conv_nth) (auto simp flip: length_greater_0_conv)
    finally show "stage_read fwd w (k * w * w) syms ?t1 ! i = last (stage_input fwd w (Suc k) fill (cs @ [c])) ! i" .
  qed (simp add: stage_read_def sl)
qed

lemma table_after_cong:
  assumes "\<And>p. k * w * w \<le> p \<Longrightarrow> p < k * w * w + w * w \<Longrightarrow> t ! p = u ! p"
  shows "table_after fwd w k fill cs t = table_after fwd w k fill cs u"
proof -
  have "t ! (k * w * w + i * w + j) = u ! (k * w * w + i * w + j)" if "i < w" "j < w" for i j
  proof (rule assms)
    have "(i + 1) * w \<le> w * w" using that by (intro mult_right_mono) auto
    with that show "k * w * w + i * w + j < k * w * w + w * w" by simp
  qed simp
  then show ?thesis by (auto simp: table_after_def)
qed

lemma cascade_stages_step:
  assumes "n \<le> m" "\<forall>k. n \<le> k \<and> k < m \<longrightarrow> table_after fwd w k fill cs t" "length t = w * w * m"
    "syms = last (stage_input fwd w n fill (cs @ [c]))"
  shows "\<exists>t1. cascade_stages fwd w [n..<m] syms t = (t1, last (stage_input fwd w m fill (cs @ [c]))) \<and>
    length t1 = length t \<and> (\<forall>k. n \<le> k \<and> k < m \<longrightarrow> table_after fwd w k fill (cs @ [c]) t1) \<and>
    (\<forall>p < n * w * w. t1 ! p = t ! p)"
  using assms
proof (induction n arbitrary: syms t rule: inc_induct)
  case (step n)
  let ?t1 = "stage_table w (n * w * w) syms t"
  have block: "k * w * w + w * w = Suc k * w * w" for k by (simp add: algebra_simps)
  have mono: "a \<le> b \<Longrightarrow> a * w * w \<le> b * w * w" for a b by (simp add: mult_le_mono1)
  have sp: "n * w * w + w * w \<le> length t"
    using mono [of "Suc n" m] step.hyps step.prems(2) by (simp only: block) (simp add: mult_ac)
  have sl: "length syms = w" using step.prems(3) by simp
  note nth = stage_table_nth [OF sp sl]
  from stage_step [OF _ sp step.prems(3)] step.prems(1) step.hyps
  have st: "table_after fwd w n fill (cs @ [c]) ?t1"
    "stage_read fwd w (n * w * w) syms ?t1 = last (stage_input fwd w (Suc n) fill (cs @ [c]))" by auto
  have keep: "table_after fwd w k fill cs ?t1" if "Suc n \<le> k" "k < m" for k
  proof -
    have "?t1 ! p = t ! p" if "k * w * w \<le> p" for p
      using le_trans [OF mono [OF \<open>Suc n \<le> k\<close>] that] by (intro nth(2) disjI2) (simp only: block)
    then show ?thesis using table_after_cong [of k w ?t1 t fwd fill cs] step.prems(1) that by auto
  qed
  from step.IH [of ?t1, OF _ _ refl] keep nth(3) step.prems(2) obtain t2 where
    t2: "cascade_stages fwd w [Suc n..<m] (last (stage_input fwd w (Suc n) fill (cs @ [c]))) ?t1 =
      (t2, last (stage_input fwd w m fill (cs @ [c])))" "length t2 = length t"
    "\<forall>k. Suc n \<le> k \<and> k < m \<longrightarrow> table_after fwd w k fill (cs @ [c]) t2"
    "\<forall>p < Suc n * w * w. t2 ! p = ?t1 ! p" by auto
  have "table_after fwd w n fill (cs @ [c]) t2"
    using table_after_cong [of n w t2 ?t1 fwd fill "cs @ [c]"] t2(4) st(1) by (simp only: block)
  with t2(3) have "\<forall>k. n \<le> k \<and> k < m \<longrightarrow> table_after fwd w k fill (cs @ [c]) t2"
    by (metis Suc_leI le_neq_implies_less)
  moreover have "\<forall>p < n * w * w. t2 ! p = t ! p" proof (intro allI impI)
    fix p assume p: "p < n * w * w"
    with t2(4) le_trans [OF Suc_leI [OF p] mono [of n "Suc n"]] have "t2 ! p = ?t1 ! p" by (simp del: mult_Suc)
    with p nth(2) show "t2 ! p = t ! p" by simp
  qed
  moreover have "cascade_stages fwd w [n..<m] syms t = (t2, last (stage_input fwd w m fill (cs @ [c])))"
    using step.hyps by (simp add: upt_conv_Cons Let_def st(2) t2(1))
  ultimately show ?case using t2(2) by blast
qed auto

definition cascade_state :: "'a \<Rightarrow> 'a list list \<Rightarrow> 'a cascade \<Rightarrow> bool" where
  "cascade_state fill cs s \<longleftrightarrow> length (ca_table s) = ca_size s * ca_size s * ca_depth s \<and>
     (\<forall>k < ca_depth s. table_after (ca_fwd s) (ca_size s) k fill cs (ca_table s))"

lemma mfsk_symbols_state:
  assumes "cascade_state fill cs s" "length c = ca_size s" "\<forall>c\<in>set cs. length c = ca_size s"
  shows "\<exists>t. mfsk_symbols c s = (s\<lparr>ca_table := t\<rparr>, last (stage_input (ca_fwd s) (ca_size s) (ca_depth s) fill (cs @ [c]))) \<and>
    cascade_state fill (cs @ [c]) (s\<lparr>ca_table := t\<rparr>)"
proof -
  have "stage_input (ca_fwd s) (ca_size s) 0 fill (cs @ [c]) = cs @ [c]"
    unfolding stage_input_def by (simp only: mult_0, rule delayed_0) (use assms in auto)
  then have "c = last (stage_input (ca_fwd s) (ca_size s) 0 fill (cs @ [c]))" by simp
  from cascade_stages_step [OF _ _ _ this, of "ca_depth s" "ca_table s"] assms(1) show ?thesis
    by (fastforce simp: mfsk_symbols_def cascade_state_def)
qed

lemma mfsk_run_state:
  assumes "cascade_state fill before s" "\<forall>c\<in>set (before @ cs). length c = ca_size s"
  shows "\<exists>s1. mfsk_run cs s =
    (s1, drop (length before) (stage_input (ca_fwd s) (ca_size s) (ca_depth s) fill (before @ cs)))"
  using assms
proof (induction cs arbitrary: before s)
  case Nil
  then show ?case by simp
next
  case (Cons c cs)
  let ?si = "stage_input (ca_fwd s) (ca_size s) (ca_depth s) fill"
  from mfsk_symbols_state [OF Cons.prems(1), of c] Cons.prems(2) obtain t where
    t: "mfsk_symbols c s = (s\<lparr>ca_table := t\<rparr>, last (?si (before @ [c])))"
    "cascade_state fill (before @ [c]) (s\<lparr>ca_table := t\<rparr>)" by auto
  from Cons.IH [OF t(2)] Cons.prems(2) obtain s1 where
    s1: "mfsk_run cs (s\<lparr>ca_table := t\<rparr>) = (s1, drop (Suc (length before)) (?si (before @ c # cs)))" by auto
  have prefix: "?si (before @ [c]) ! length before = ?si (before @ c # cs) ! length before"
    by (rule nth_equalityI) (auto simp: stage_input_def delayed_nth nth_append)
  have "last (?si (before @ [c])) = ?si (before @ [c]) ! length before"
    by (subst last_conv_nth) (auto simp flip: length_greater_0_conv)
  also note prefix
  finally have "last (?si (before @ [c])) # drop (Suc (length before)) (?si (before @ c # cs)) =
      drop (length before) (?si (before @ c # cs))" by (simp add: Cons_nth_drop_Suc)
  with t(1) s1 show ?case by simp
qed

lemma mfsk_new_state: "cascade_state fill [] (mfsk_interleaver_new w depth fwd fill)"
proof -
  have "k * w * w + i * w + j < w * w * depth" if "k < depth" "i < w" "j < w" for k i j
  proof -
    have "Suc i * w \<le> w * w" "Suc k * w * w \<le> depth * w * w"
      using that by (auto intro!: mult_le_mono1 simp del: mult_Suc)
    moreover have "k * w * w + w * w = Suc k * w * w" by (simp add: algebra_simps)
    ultimately have "k * w * w + w * w \<le> depth * w * w" "i * w + w \<le> w * w" by simp_all
    moreover have "depth * w * w = w * w * depth" by (simp add: mult_ac)
    ultimately show ?thesis using that by linarith
  qed
  then show ?thesis
    by (auto simp: cascade_state_def mfsk_interleaver_new_def table_after_def cell_history_def stage_input_def nth_append)
qed

lemma mfsk_run_delays:
  assumes "\<forall>c\<in>set cs. length c = w"
  shows "\<exists>s. mfsk_run cs (mfsk_interleaver_new w depth fwd fill) = (s, stage_input fwd w depth fill cs)"
  using mfsk_run_state [OF mfsk_new_state [of fill w depth fwd], of cs] assms
  by (simp add: mfsk_interleaver_new_def)

lemma stage_inputs_compose:
  "stage_input False w depth fill (stage_input True w depth fill cs) = delayed w (\<lambda>_. (w - 1) * depth) fill cs"
proof -
  have "stage_input False w depth fill (stage_input True w depth fill cs) =
      delayed w (\<lambda>i. depth * (w - 1 - i) + depth * i) fill cs"
    by (simp add: stage_input_def delayed_delayed row_delay_def)
  also have "\<dots> = delayed w (\<lambda>_. (w - 1) * depth) fill cs"
  proof -
    have "depth * (w - 1 - i) + depth * i = (w - 1) * depth" if "i < w" for i
      using that by (simp flip: add_mult_distrib2 add: mult.commute)
    then show ?thesis by (intro columns_eqI [where w = w]) (auto simp: delayed_nth)
  qed
  finally show ?thesis .
qed

lemma mfsk_pair_delay:
  assumes "\<forall>c\<in>set cs. length c = w"
  shows "\<exists>s ys. mfsk_run cs (mfsk_interleaver_new w depth True fill) = (s, ys) \<and>
    (\<exists>s'. mfsk_run ys (mfsk_interleaver_new w depth False fill) =
      (s', take (length cs) (replicate ((w - 1) * depth) (replicate w fill) @ cs)))"
proof -
  let ?ys = "stage_input True w depth fill cs"
  have "\<forall>c\<in>set ?ys. length c = w" by (auto simp: stage_input_def delayed_def)
  moreover have "delayed w (\<lambda>_. (w - 1) * depth) fill cs = take (length cs) (replicate ((w - 1) * depth) (replicate w fill) @ cs)"
    by (rule columns_eqI [where w = w]) (use assms in \<open>auto simp: delayed_nth nth_append\<close>)
  ultimately show ?thesis
    using mfsk_run_delays [OF assms, of depth True fill] mfsk_run_delays [of ?ys w depth False fill]
    by (auto simp: stage_inputs_compose)
qed

section \<open>The two-row cascade\<close>

lemma upt_2: "[0..<2] = [0, Suc 0]"
  by (simp add: upt_rec)

lemma stage_table_2:
  "stage_table 2 base [a, b] t = ((t[base := t ! (base + 1)])[base + 2 := t[base := t ! (base + 1)] ! (base + 3)])[base + 1 := a, base + 3 := b]"
  by (simp add: stage_table_def shift_row_def upt_2 numeral_eq_Suc)

lemma diag_stages_mfsk:
  "cascade_stages fwd 2 ks [fst p, snd p] t = (case diag_stages fwd ks p t of (t', q) \<Rightarrow> (t', [fst q, snd q]))"
proof (induction ks arbitrary: p t)
  case (Cons k ks)
  let ?t = "stage_table 2 (k * 4) [fst p, snd p] t"
  let ?q = "if fwd then (?t ! (k * 4 + 1), ?t ! (k * 4 + 2)) else (?t ! (k * 4), ?t ! (k * 4 + 3))"
  have "stage_read fwd 2 (k * 4) [fst p, snd p] ?t = [fst ?q, snd ?q]"
    by (simp add: stage_read_def upt_2 numeral_eq_Suc)
  moreover have "cascade_stages fwd 2 (k # ks) [fst p, snd p] t =
      cascade_stages fwd 2 ks (stage_read fwd 2 (k * 4) [fst p, snd p] ?t) ?t"
    by (simp add: Let_def mult.assoc)
  moreover have "diag_stages fwd (k # ks) p t = diag_stages fwd ks ?q ?t"
    by (simp only: diag_stages.simps Let_def stage_table_2)
  ultimately show ?case using Cons [of ?q ?t] by simp
qed simp

section \<open>Claims\<close>

text \<open>For every length of two or more the bit-reversal indices are a permutation, and \<open>unpermute\<close> restores what \<open>permute\<close> scattered with them; the diagonal indices do the same for every square.\<close>

theorem permutations_restore:
  assumes "2 \<le> length xs"
  shows "\<exists>idx ys. bit_reversal_indices (length xs) = Some idx \<and> permute xs idx = Some ys \<and>
    length ys = length xs \<and> unpermute z ys idx = Some xs"
    and "length sq = n * n \<Longrightarrow> \<exists>ys. permute sq (diagonal_indices n) = Some ys \<and> unpermute z ys (diagonal_indices n) = Some sq"
proof -
  from bit_reversal_permutation [OF assms] obtain idx where
    "bit_reversal_indices (length xs) = Some idx" "distinct idx" "set idx = {..<length xs}" by blast
  with unpermute_permute [of idx xs z] show "\<exists>idx ys. bit_reversal_indices (length xs) = Some idx \<and> permute xs idx = Some ys \<and>
    length ys = length xs \<and> unpermute z ys idx = Some xs" by blast
  show "\<exists>ys. permute sq (diagonal_indices n) = Some ys \<and> unpermute z ys (diagonal_indices n) = Some sq"
    if "length sq = n * n"
    using unpermute_permute [of "diagonal_indices n" sq z] diagonal_permutation [of n] that by metis
qed

lemma permutations_restore_witness:
  "(\<exists>idx ys. bit_reversal_indices 3 = Some idx \<and> permute [7, 8, 9 :: nat] idx = Some ys \<and> unpermute 0 ys idx = Some [7, 8, 9]) \<and>
   (\<exists>ys. permute [1, 2, 3, 4 :: nat] (diagonal_indices 2) = Some ys \<and> unpermute 0 ys (diagonal_indices 2) = Some [1, 2, 3, 4])"
  using permutations_restore(1) [of "[7, 8, 9 :: nat]" 0] permutations_restore(2) [of "[7, 8, 9 :: nat]" "[1, 2, 3, 4 :: nat]" 2 0]
  by (auto simp: numeral_3_eq_3)

text \<open>The convolutional interleaver followed by its deinterleaver is a pure delay of \<open>rows * (rows - 1) * delay\<close> symbols, for every shape and every stream.\<close>

theorem conv_interleaver_restores:
  assumes "0 < rows"
  shows "\<exists>s ys. conv_run xs (conv_interleaver_new z rows delay) = Some (s, ys) \<and>
    (\<exists>s'. conv_run ys (conv_deinterleaver_new z rows delay) =
      Some (s', take (length xs) (replicate (rows * (rows - 1) * delay) z @ xs)))"
  by (rule conv_pair_delay [OF assms])

lemma conv_interleaver_restores_witness:
  "\<exists>s ys. conv_run [1, 2, 3, 4, 5, 6, 7, 8] (conv_interleaver_new 0 2 3) = Some (s, ys) \<and>
    (\<exists>s'. conv_run ys (conv_deinterleaver_new (0 :: nat) 2 3) = Some (s', [0, 0, 0, 0, 0, 0, 1, 2]))"
  using conv_interleaver_restores [of 2 "[1, 2, 3, 4, 5, 6, 7, 8]" "0 :: nat" 3] by (simp add: numeral_eq_Suc)

text \<open>The MFSK interleaver, a cascade of \<open>depth\<close> delay squares in one flat table, followed by the reverse cascade delays every column of \<open>size\<close> symbols by \<open>(size - 1) * depth\<close> columns, which are filled with the initial value, and changes nothing else; with two rows a pass through its stages is one through those of the PSK-R interleaver.\<close>

theorem mfsk_interleaver_restores:
  assumes "\<forall>c\<in>set cs. length c = w"
  shows "(\<exists>s ys. mfsk_run cs (mfsk_interleaver_new w depth True fill) = (s, ys) \<and>
    (\<exists>s'. mfsk_run ys (mfsk_interleaver_new w depth False fill) =
      (s', take (length cs) (replicate ((w - 1) * depth) (replicate w fill) @ cs)))) \<and>
    cascade_stages fwd 2 ks [fst p, snd p] t = (case diag_stages fwd ks p t of (t', q) \<Rightarrow> (t', [fst q, snd q]))"
  by (rule conjI [OF mfsk_pair_delay [OF assms] diag_stages_mfsk])

lemma mfsk_interleaver_restores_witness:
  "\<exists>s ys. mfsk_run [[1, 2], [3, 4], [5, 6]] (mfsk_interleaver_new 2 2 True (0 :: nat)) = (s, ys) \<and>
    (\<exists>s'. mfsk_run ys (mfsk_interleaver_new 2 2 False 0) = (s', [[0, 0], [0, 0], [1, 2]]))"
  using mfsk_interleaver_restores [THEN conjunct1, of "[[1, 2], [3, 4], [5, 6]]" 2 2 "0 :: nat"] by (simp add: numeral_eq_Suc)

end
