(* ===== verification/FilterDesign.thy ===== *)
theory FilterDesign
  imports Resample
begin

text \<open>
  \<open>frontend/fir.rs\<close>: the direct-form filter with its eight accumulators and the filter designs that
  modulators and front ends use. The low pass is in \<open>Resample\<close>. The filter is shown to be the
  convolution of its taps with the inputs, summed in the order of the code.
\<close>

section \<open>The filter\<close>

record 'n fir =
  fi_taps :: "'n list"
  fi_hist :: "'n list"
  fi_pos :: nat

definition fir_new :: "'n fmath \<Rightarrow> 'n list \<Rightarrow> 'n fir" where
  "fir_new F taps = \<lparr>fi_taps = taps, fi_hist = replicate (length taps) (f_zero F), fi_pos = 0\<rparr>"

text \<open>\<open>acc[k % 8] += taps[k] * hist[h]\<close> for all taps, newest sample first.\<close>

definition fir_accumulate :: "'n fmath \<Rightarrow> (nat \<Rightarrow> 'n) \<Rightarrow> 'n list \<Rightarrow> 'n list" where
  "fir_accumulate F sample taps =
     fold (\<lambda>k acc. acc[k mod 8 := f_add F (acc ! (k mod 8)) (f_mul F (taps ! k) (sample k))])
       [0..<length taps] (replicate 8 (f_zero F))"

text \<open>\<open>None\<close> is the panic of a filter without taps.\<close>

definition fir_push :: "'n fmath \<Rightarrow> 'n \<Rightarrow> 'n fir \<Rightarrow> ('n fir \<times> 'n) option" where
  "fir_push F x f =
     (let n = length (fi_taps f); hist = (fi_hist f)[fi_pos f := x]
      in if n = 0 then None
         else Some (f\<lparr>fi_hist := hist, fi_pos := (fi_pos f + 1) mod n\<rparr>,
           f_sum F (fir_accumulate F (\<lambda>k. hist ! ((fi_pos f + n - k) mod n)) (fi_taps f))))"

definition fir_reset :: "'n fmath \<Rightarrow> 'n fir \<Rightarrow> 'n fir" where
  "fir_reset F f = f\<lparr>fi_hist := map (\<lambda>_. f_zero F) (fi_hist f), fi_pos := 0\<rparr>"

fun fir_run :: "'n fmath \<Rightarrow> 'n list \<Rightarrow> 'n fir \<Rightarrow> ('n fir \<times> 'n list) option" where
  "fir_run F [] f = Some (f, [])"
| "fir_run F (x # xs) f =
     (case fir_push F x f of None \<Rightarrow> None
      | Some (f1, y) \<Rightarrow> map_option (\<lambda>(f2, ys). (f2, y # ys)) (fir_run F xs f1))"

section \<open>Designs\<close>

definition normalised :: "'n fmath \<Rightarrow> 'n list \<Rightarrow> 'n list" where
  "normalised F h = (let total = f_sum F h in map (\<lambda>x. f_div F x total) h)"

definition wsinc_blackman :: "'n fmath \<Rightarrow> nat \<Rightarrow> 'n \<Rightarrow> 'n list" where
  "wsinc_blackman F len fc =
     (let two = f_lit F ''2.0''; l2 = f_div F (f_nat F len) two;
          k1 = f_div F (f_mul F two (f_pi F)) (f_nat F len);
          k2 = f_mul F (f_mul F two (f_pi F)) fc
      in normalised F (map (\<lambda>i. let x = f_sub F (f_nat F i) l2;
           sinc = (if f_eq F (f_nat F i) l2 then f_one F else f_div F (f_sin F (f_mul F k2 x)) (f_mul F k2 x));
           w = f_add F (f_sub F (f_lit F ''0.42'') (f_mul F (f_lit F ''0.5'') (f_cos F (f_mul F k1 (f_nat F i)))))
             (f_mul F (f_lit F ''0.08'') (f_cos F (f_mul F (f_mul F two k1) (f_nat F i))))
           in f_mul F sinc w) [0..<len + 1]))"

definition design_bandpass :: "'n fmath \<Rightarrow> nat \<Rightarrow> 'n \<Rightarrow> 'n \<Rightarrow> 'n \<Rightarrow> 'n list" where
  "design_bandpass F num_taps low high rate =
     (let two = f_lit F ''2.0''; center = f_div F (f_add F low high) two; cutoff = f_div F (f_sub F high low) two;
          lp = design_lowpass F num_taps cutoff rate; m = f_div F (f_nat F (num_taps - 1)) two
      in map (\<lambda>i. f_mul F (f_mul F two (lp ! i))
           (f_cos F (f_mul F (f_div F (f_mul F (f_mul F two (f_pi F)) center) rate) (f_sub F (f_nat F i) m))))
         [0..<num_taps])"

text \<open>Conversion of a signed index.\<close>

definition f_int :: "'n fmath \<Rightarrow> int \<Rightarrow> 'n" where
  "f_int F k = (if 0 \<le> k then f_nat F (nat k) else f_neg F (f_nat F (nat (- k))))"

definition design_hilbert :: "'n fmath \<Rightarrow> nat \<Rightarrow> 'n list" where
  "design_hilbert F num_taps =
     (let two = f_lit F ''2.0''; m = (int num_taps - 1) div 2
      in map (\<lambda>i. let k = int i - m;
           ideal = (if even k then f_zero F else f_div F two (f_mul F (f_pi F) (f_int F k)));
           w = f_sub F (f_lit F ''0.54'') (f_mul F (f_lit F ''0.46'')
             (f_cos F (f_div F (f_mul F (f_mul F two (f_pi F)) (f_nat F i)) (f_nat F (num_taps - 1)))))
           in f_mul F ideal w) [0..<num_taps])"

definition rrc_tap :: "'n fmath \<Rightarrow> 'n \<Rightarrow> 'n \<Rightarrow> 'n" where
  "rrc_tap F t a =
     (let one = f_one F; two = f_lit F ''2.0''; four = f_lit F ''4.0''; q = f_div F (f_pi F) (f_mul F four a)
      in if f_lt F (f_abs F t) (f_lit F ''1e-6'') then f_add F (f_sub F one a) (f_div F (f_mul F four a) (f_pi F))
         else if f_lt F (f_abs F (f_sub F (f_abs F t) (f_div F one (f_mul F four a)))) (f_lit F ''1e-4'')
         then f_div F (f_mul F (f_add F (f_mul F (f_add F one (f_div F two (f_pi F))) (f_sin F q))
                (f_mul F (f_sub F one (f_div F two (f_pi F))) (f_cos F q))) a) (f_sqrt F two)
         else f_div F
           (f_add F (f_sin F (f_mul F (f_mul F (f_pi F) t) (f_sub F one a)))
             (f_mul F (f_mul F (f_mul F four a) t) (f_cos F (f_mul F (f_mul F (f_pi F) t) (f_add F one a)))))
           (f_mul F (f_mul F (f_pi F) t) (f_sub F one (f_powi F (f_mul F (f_mul F four a) t) 2))))"

definition design_rrc :: "'n fmath \<Rightarrow> nat \<Rightarrow> 'n \<Rightarrow> 'n \<Rightarrow> 'n list" where
  "design_rrc F num_taps alpha sps =
     (let h = map (\<lambda>i. rrc_tap F (f_div F (f_int F (int i - int num_taps div 2)) sps) alpha) [0..<num_taps];
          e = f_sqrt F (f_sum F (map (\<lambda>x. f_mul F x x) h))
      in map (\<lambda>x. f_div F x e) h)"

definition design_raised_cosine :: "'n fmath \<Rightarrow> nat \<Rightarrow> 'n \<Rightarrow> 'n \<Rightarrow> 'n list" where
  "design_raised_cosine F num_taps alpha sps =
     normalised F (map (\<lambda>i.
       let t = f_div F (f_int F (int i - int num_taps div 2)) sps; eps = f_lit F ''1e-6'';
           sinc = (if f_lt F (f_abs F t) eps then f_one F
             else f_div F (f_sin F (f_mul F (f_pi F) t)) (f_mul F (f_pi F) t));
           denom = f_sub F (f_one F) (f_powi F (f_mul F (f_mul F (f_lit F ''2.0'') alpha) t) 2);
           c = (if f_lt F (f_abs F denom) eps then f_div F (f_pi F) (f_lit F ''4.0'')
             else f_div F (f_cos F (f_mul F (f_mul F (f_pi F) alpha) t)) denom)
       in f_mul F sinc c) [0..<num_taps])"

definition gaussian_sigma :: "'n fmath \<Rightarrow> 'n \<Rightarrow> 'n \<Rightarrow> 'n" where
  "gaussian_sigma F bt sps = f_div F (f_mul F sps (f_sqrt F (f_ln F (f_lit F ''2'')))) (f_mul F (f_mul F (f_lit F ''2.0'') (f_pi F)) bt)"

definition design_gaussian :: "'n fmath \<Rightarrow> nat \<Rightarrow> 'n \<Rightarrow> 'n \<Rightarrow> 'n list" where
  "design_gaussian F num_taps bt sps =
     (let sigma = gaussian_sigma F bt sps
      in normalised F (map (\<lambda>i. let t = f_int F (int i - int num_taps div 2)
           in f_exp F (f_div F (f_neg F (f_mul F t t)) (f_mul F (f_mul F (f_lit F ''2.0'') sigma) sigma))) [0..<num_taps]))"

section \<open>The filter is a convolution\<close>

lemma fir_push_ring:
  assumes "ring_good (fi_hist f, fi_pos f)" "length (fi_hist f) = length (fi_taps f)" "fi_taps f \<noteq> []"
  shows "fir_push F x f = Some (f\<lparr>fi_hist := fst (ring_push x (fi_hist f, fi_pos f)),
      fi_pos := snd (ring_push x (fi_hist f, fi_pos f))\<rparr>,
    f_sum F (fir_accumulate F (ring_tap (ring_push x (fi_hist f, fi_pos f))) (fi_taps f)))"
proof -
  let ?n = "length (fi_taps f)" and ?r = "ring_push x (fi_hist f, fi_pos f)"
  have p: "fi_pos f < ?n" using assms by (simp add: ring_good_def)
  have "ring_tap ?r k = (fi_hist f)[fi_pos f := x] ! ((fi_pos f + ?n - k) mod ?n)" if "k < ?n" for k
  proof -
    have "((fi_pos f + 1) mod ?n + ?n - 1 - k) mod ?n = (fi_pos f + ?n - k) mod ?n"
    proof (cases "fi_pos f + 1 = ?n")
      case True
      then have "(fi_pos f + ?n - k) mod ?n = ((?n - 1 - k) + ?n) mod ?n" using that by (intro arg_cong2 [where f = "(mod)"]) auto
      with True show ?thesis by (simp only: mod_add_self2) simp
    next
      case False
      with p have "(fi_pos f + 1) mod ?n = fi_pos f + 1" by simp
      then show ?thesis using that by simp
    qed
    with assms(2) show ?thesis by (simp add: ring_tap_def ring_push_def)
  qed
  then have "fir_accumulate F (ring_tap ?r) (fi_taps f) =
      fir_accumulate F (\<lambda>k. (fi_hist f)[fi_pos f := x] ! ((fi_pos f + ?n - k) mod ?n)) (fi_taps f)"
    by (auto simp: fir_accumulate_def intro!: fold_cong)
  with assms(2,3) show ?thesis by (simp add: fir_push_def ring_push_def Let_def)
qed

text \<open>The input \<open>k\<close> steps before the last of \<open>xs\<close>; zeros before the first.\<close>

definition input_back :: "'n fmath \<Rightarrow> 'n list \<Rightarrow> nat \<Rightarrow> 'n" where
  "input_back F xs k = (if k < length xs then xs ! (length xs - 1 - k) else f_zero F)"

definition fir_state :: "'n fmath \<Rightarrow> 'n list \<Rightarrow> 'n list \<Rightarrow> 'n fir \<Rightarrow> bool" where
  "fir_state F taps xs f \<longleftrightarrow> fi_taps f = taps \<and>
     (fi_hist f, fi_pos f) = fold ring_push xs (replicate (length taps) (f_zero F), 0)"

lemma fir_push_state:
  assumes "fir_state F taps xs f" "taps \<noteq> []"
  shows "\<exists>f1. fir_push F x f = Some (f1, f_sum F (fir_accumulate F (input_back F (xs @ [x])) taps)) \<and>
    fir_state F taps (xs @ [x]) f1"
proof -
  let ?z = "(replicate (length taps) (f_zero F), 0 :: nat)"
  have z: "ring_good ?z" using assms(2) by (simp add: ring_good_def)
  from assms(1) have t: "fi_taps f = taps" and r: "(fi_hist f, fi_pos f) = fold ring_push xs ?z"
    by (auto simp: fir_state_def)
  have g: "ring_good (fi_hist f, fi_pos f)" and l: "length (fi_hist f) = length taps"
    using ring.fold_good [OF z, of xs] by (simp_all flip: r)
  have h: "ring_tap (fold ring_push (xs @ [x]) ?z) k = input_back F (xs @ [x]) k" if "k < length taps" for k
  proof -
    have "ring_tap ?z j = f_zero F" if "j < length taps" for j using that by (simp add: ring_tap_def)
    with ring.tap_history [OF z, of k "xs @ [x]"] that show ?thesis by (auto simp: input_back_def)
  qed
  then have "fir_accumulate F (ring_tap (ring_push x (fi_hist f, fi_pos f))) taps =
      fir_accumulate F (input_back F (xs @ [x])) taps"
    by (auto simp: fir_accumulate_def r intro!: fold_cong)
  with fir_push_ring [OF g, of F x] l t assms(2) show ?thesis by (simp add: fir_state_def r)
qed

lemma fir_run_direct:
  assumes "taps \<noteq> []" "fir_state F taps before f"
  shows "\<exists>f1. fir_run F xs f = Some (f1, map (\<lambda>i. f_sum F
    (fir_accumulate F (input_back F (before @ take (i + 1) xs)) taps)) [0..<length xs]) \<and>
    fir_state F taps (before @ xs) f1"
  using assms(2)
proof (induction xs arbitrary: f before)
  case (Cons x xs)
  from fir_push_state [OF Cons.prems assms(1)] obtain f1 where
    f1: "fir_push F x f = Some (f1, f_sum F (fir_accumulate F (input_back F (before @ [x])) taps))"
    "fir_state F taps (before @ [x]) f1" by blast
  from Cons.IH [OF f1(2)] obtain f2 where
    "fir_run F xs f1 = Some (f2, map (\<lambda>i. f_sum F (fir_accumulate F (input_back F ((before @ [x]) @ take (i + 1) xs)) taps)) [0..<length xs])"
    "fir_state F taps ((before @ [x]) @ xs) f2" by blast
  with f1(1) show ?case
    by (simp add: map_upt_Suc del: upt_Suc)
qed simp

text \<open>
  Output \<open>i\<close> of the filter is the sum of tap \<open>k\<close> times the input \<open>k\<close> samples before \<open>i\<close>, in eight
  interleaved partial sums, for any arithmetic; the ring buffer with its wrap-around is only an
  optimisation, and the filter panics on no input unless it has no taps.
\<close>

theorem fir_is_convolution:
  assumes "taps \<noteq> []"
  shows "\<exists>f. fir_run F xs (fir_new F taps) = Some (f, map (\<lambda>i. f_sum F
    (fir_accumulate F (input_back F (take (i + 1) xs)) taps)) [0..<length xs])"
  using fir_run_direct [OF assms, of F "[]" "fir_new F taps" xs] by (auto simp: fir_state_def fir_new_def)

lemma fir_is_convolution_witness:
  "\<exists>f. fir_run rat_math [1, 0, 0] (fir_new rat_math [3, 4]) = Some (f, [3, 4, 0])"
proof -
  have "map (\<lambda>i. f_sum rat_math (fir_accumulate rat_math (input_back rat_math (take (i + 1) [1, 0, 0])) [3, 4])) [0..<length [1 :: rat, 0, 0]] = [3, 4, 0]"
    by code_simp
  with fir_is_convolution [of "[3, 4]" rat_math "[1, 0, 0]"] show ?thesis by simp
qed

end
