(* ===== verification/Modulate.thy ===== *)
theory Modulate
  imports FilterDesign
begin

text \<open>
  The transmit side of the DSP crate (\<open>frontend/modulate.rs\<close>): shaped and plain frequency-shift
  keying, differential phase keying, the packet and teletype modulators and the Morse keyer; and the
  tone detector of the block modes (\<open>modes/fsk_util.rs\<close>).
\<close>

section \<open>Phase accumulators\<close>

text \<open>One sample of a phase-continuous oscillator: advance, wrap once, take the sine.\<close>

definition phase_step :: "'n fmath \<Rightarrow> 'n \<Rightarrow> 'n \<Rightarrow> 'n" where
  "phase_step F dp phase =
     (let p = f_add F phase dp in if f_lt F (f_tau F) p then f_sub F p (f_tau F) else p)"

fun tone_samples :: "'n fmath \<Rightarrow> 'n \<Rightarrow> nat \<Rightarrow> 'n \<Rightarrow> 'n \<times> 'n list" where
  "tone_samples F dp 0 phase = (phase, [])"
| "tone_samples F dp (Suc k) phase =
     (let p = phase_step F dp phase in case tone_samples F dp k p of (p', out) \<Rightarrow> (p', f_sin F p # out))"

text \<open>Tone after tone, the phase carried over.\<close>

fun tones_modulate :: "'n fmath \<Rightarrow> 'n \<Rightarrow> nat \<Rightarrow> 'n list \<Rightarrow> 'n \<Rightarrow> 'n list" where
  "tones_modulate F rate sps [] phase = []"
| "tones_modulate F rate sps (f # fs) phase =
     (case tone_samples F (f_div F (f_mul F (f_tau F) f) rate) sps phase of
        (p, out) \<Rightarrow> out @ tones_modulate F rate sps fs p)"

lemma tone_samples_length: "length (snd (tone_samples F dp k phase)) = k"
  by (induction k arbitrary: phase) (simp_all add: Let_def split: prod.split, metis snd_conv)

lemma tones_modulate_length [simp]: "length (tones_modulate F rate sps fs phase) = length fs * sps"
proof (induction fs arbitrary: phase)
  case (Cons f fs)
  then show ?case
    using tone_samples_length [of F "f_div F (f_mul F (f_tau F) f) rate" sps phase] by (simp add: case_prod_beta)
qed simp

section \<open>Gaussian shift keying\<close>

record 'n gfsk =
  gk_rate :: 'n
  gk_sps :: nat
  gk_base :: 'n
  gk_spacing :: 'n
  gk_bt :: 'n

definition convolve_same :: "'n fmath \<Rightarrow> 'n list \<Rightarrow> 'n list \<Rightarrow> 'n \<Rightarrow> 'n list" where
  "convolve_same F x h edge =
     (let n = length x; half = length h div 2
      in map (\<lambda>i. foldl (\<lambda>acc k.
           let idx = int i + int k - int half;
               xv = (if idx < 0 then edge else if n \<le> nat idx then x ! (n - 1) else x ! nat idx)
           in f_add F acc (f_mul F (h ! k) xv)) (f_zero F) [0..<length h]) [0..<n])"

text \<open>The number of taps, capped at four symbols; \<open>None\<close> is the panic of \<open>clamp\<close> for \<open>sps = 0\<close>.\<close>

definition gaussian_taps :: "'n fmath \<Rightarrow> 'n gfsk \<Rightarrow> nat option" where
  "gaussian_taps F g =
     (if gk_sps g * 2 < 1 then None
      else let half = max 1 (min (gk_sps g * 2)
             (f_to_usize F (f_ceil F (f_mul F (f_lit F ''4.0'') (gaussian_sigma F (gk_bt g) (f_nat F (gk_sps g)))))))
        in Some (min (2 * half + 1) (gk_sps g * 4 + 1)))"

definition gfsk_trajectory :: "'n fmath \<Rightarrow> 'n gfsk \<Rightarrow> u32 list \<Rightarrow> 'n list" where
  "gfsk_trajectory F g symbols =
     concat (map (\<lambda>s. replicate (gk_sps g) (f_add F (gk_base g) (f_mul F (f_nat F (unat s)) (gk_spacing g)))) symbols)"

text \<open>The oscillator of the shaped keying divides by the rate sample by sample.\<close>

fun fm_samples :: "'n fmath \<Rightarrow> 'n \<Rightarrow> 'n list \<Rightarrow> 'n \<Rightarrow> 'n list" where
  "fm_samples F rate [] phase = []"
| "fm_samples F rate (f # fs) phase =
     (let p = phase_step F (f_div F (f_mul F (f_tau F) f) rate) phase in f_sin F p # fm_samples F rate fs p)"

definition gfsk_modulate :: "'n fmath \<Rightarrow> 'n gfsk \<Rightarrow> u32 list \<Rightarrow> 'n list option" where
  "gfsk_modulate F g symbols =
     (let freq = gfsk_trajectory F g symbols
      in if freq = [] then Some []
         else if f_lt F (f_zero F) (gk_bt g)
         then map_option (\<lambda>taps. fm_samples F (gk_rate g)
             (convolve_same F freq (design_gaussian F taps (gk_bt g) (f_nat F (gk_sps g))) (hd freq)) (f_zero F))
           (gaussian_taps F g)
         else Some (fm_samples F (gk_rate g) freq (f_zero F)))"

section \<open>Plain shift keying\<close>

record 'n mfsk =
  mf_rate :: 'n
  mf_sps :: nat
  mf_base :: 'n
  mf_spacing :: 'n
  mf_tones :: u32

definition mfsk_tone :: "'n fmath \<Rightarrow> 'n mfsk \<Rightarrow> u32 \<Rightarrow> 'n" where
  "mfsk_tone F m s = f_add F (mf_base m) (f_mul F (f_nat F (unat (min s (mf_tones m - 1)))) (mf_spacing m))"

definition mfsk_modulate :: "'n fmath \<Rightarrow> 'n mfsk \<Rightarrow> u32 list \<Rightarrow> 'n list" where
  "mfsk_modulate F m symbols =
     tones_modulate F (mf_rate m) (mf_sps m) (map (mfsk_tone F m) symbols) (f_zero F)"

record 'n fsk2 =
  f2_rate :: 'n
  f2_sps :: nat
  f2_mark :: 'n
  f2_space :: 'n

definition fsk2_new :: "'n fmath \<Rightarrow> 'n \<Rightarrow> nat \<Rightarrow> 'n \<Rightarrow> 'n \<Rightarrow> 'n fsk2" where
  "fsk2_new F rate sps center shift =
     \<lparr>f2_rate = rate, f2_sps = sps, f2_mark = f_add F center (f_div F shift (f_lit F ''2.0'')),
      f2_space = f_sub F center (f_div F shift (f_lit F ''2.0''))\<rparr>"

definition fsk2_modulate :: "'n fmath \<Rightarrow> 'n fsk2 \<Rightarrow> bool list \<Rightarrow> 'n list" where
  "fsk2_modulate F m bits =
     tones_modulate F (f2_rate m) (f2_sps m) (map (\<lambda>b. if b then f2_mark m else f2_space m) bits) (f_zero F)"

record 'n afsk =
  ak_rate :: 'n
  ak_sps :: nat
  ak_mark :: 'n
  ak_space :: 'n

definition afsk_new :: "'n fmath \<Rightarrow> 'n \<Rightarrow> 'n \<Rightarrow> 'n \<Rightarrow> 'n \<Rightarrow> 'n afsk" where
  "afsk_new F rate baud mark space =
     \<lparr>ak_rate = rate, ak_sps = f_to_usize F (f_round F (f_div F rate baud)), ak_mark = mark, ak_space = space\<rparr>"

definition afsk_bell202 :: "'n fmath \<Rightarrow> 'n \<Rightarrow> 'n afsk" where
  "afsk_bell202 F rate =
     \<lparr>ak_rate = rate, ak_sps = f_to_usize F (f_round F (f_div F rate (f_lit F ''1200.0''))),
      ak_mark = f_lit F ''1200.0'', ak_space = f_lit F ''2200.0''\<rparr>"

definition afsk_modulate :: "'n fmath \<Rightarrow> 'n afsk \<Rightarrow> bool list \<Rightarrow> 'n list" where
  "afsk_modulate F m bits =
     tones_modulate F (ak_rate m) (ak_sps m) (map (\<lambda>b. if b then ak_mark m else ak_space m) bits) (f_zero F)"

section \<open>Differential phase keying\<close>

record 'n diff_psk =
  dp_rate :: 'n
  dp_carrier :: 'n
  dp_sps :: nat
  dp_bps :: u32

text \<open>\<open>None\<close> is the failed assertion of the constructor.\<close>

definition diff_psk_new :: "'n \<Rightarrow> 'n \<Rightarrow> nat \<Rightarrow> u32 \<Rightarrow> 'n diff_psk option" where
  "diff_psk_new rate carrier sps bps =
     (if bps = 1 \<or> bps = 2 then Some \<lparr>dp_rate = rate, dp_carrier = carrier, dp_sps = sps, dp_bps = bps\<rparr> else None)"

definition dp_order :: "'n diff_psk \<Rightarrow> u32" where
  "dp_order d = push_bit (unat (dp_bps d)) 1"

fun diff_encode_from :: "u32 \<Rightarrow> u32 \<Rightarrow> u32 list \<Rightarrow> u32 list" where
  "diff_encode_from m acc [] = []"
| "diff_encode_from m acc (s # ss) = (let acc1 = (acc + s) mod m in acc1 # diff_encode_from m acc1 ss)"

definition diff_encode :: "'n diff_psk \<Rightarrow> u32 list \<Rightarrow> u32 list" where
  "diff_encode d symbols = diff_encode_from (dp_order d) 0 symbols"

fun diff_decode_from :: "u32 \<Rightarrow> u32 \<Rightarrow> u32 list \<Rightarrow> u32 list" where
  "diff_decode_from m prev [] = []"
| "diff_decode_from m prev (p # ps) = (p + m - prev) mod m # diff_decode_from m p ps"

definition diff_decode :: "'n diff_psk \<Rightarrow> u32 list \<Rightarrow> u32 list" where
  "diff_decode d phases = diff_decode_from (dp_order d) 0 phases"

definition phasor :: "'n fmath \<Rightarrow> u32 \<Rightarrow> u32 \<Rightarrow> 'n cplx" where
  "phasor F m idx = (let a = f_div F (f_mul F (f_tau F) (f_nat F (unat idx))) (f_nat F (unat m)) in (f_cos F a, f_sin F a))"

text \<open>Sample \<open>k\<close> of a symbol: its phasor blended with the nearer neighbour, on the carrier.\<close>

definition shaped_sample :: "'n fmath \<Rightarrow> nat \<Rightarrow> 'n cplx \<Rightarrow> 'n cplx \<Rightarrow> 'n cplx \<Rightarrow> nat \<Rightarrow> 'n \<Rightarrow> 'n" where
  "shaped_sample F sps before cur after k carrier =
     (let n = f_nat F sps; d = f_sub F (f_nat F k) (f_div F n (f_lit F ''2.0''));
          nb = (if f_le F (f_zero F) d then after else before);
          wn = f_mul F (f_lit F ''0.5'') (f_add F (f_one F) (f_cos F (f_div F (f_mul F (f_pi F) (f_abs F d)) n)));
          wo = f_sub F (f_one F) wn;
          bi = f_add F (f_mul F (fst cur) wn) (f_mul F (fst nb) wo);
          bq = f_add F (f_mul F (snd cur) wn) (f_mul F (snd nb) wo)
      in f_sub F (f_mul F bi (f_cos F carrier)) (f_mul F bq (f_sin F carrier)))"

fun shaped_symbol :: "'n fmath \<Rightarrow> nat \<Rightarrow> 'n \<Rightarrow> 'n cplx \<Rightarrow> 'n cplx \<Rightarrow> 'n cplx \<Rightarrow> nat list \<Rightarrow> 'n \<Rightarrow> 'n \<times> 'n list" where
  "shaped_symbol F sps dphi before cur after [] carrier = (carrier, [])"
| "shaped_symbol F sps dphi before cur after (k # ks) carrier =
     (case shaped_symbol F sps dphi before cur after ks (phase_step F dphi carrier) of
        (c, out) \<Rightarrow> (c, shaped_sample F sps before cur after k carrier # out))"

fun shaped_symbols :: "'n fmath \<Rightarrow> nat \<Rightarrow> 'n \<Rightarrow> 'n cplx list \<Rightarrow> nat list \<Rightarrow> 'n \<Rightarrow> 'n list" where
  "shaped_symbols F sps dphi ph [] carrier = []"
| "shaped_symbols F sps dphi ph (n # ns) carrier =
     (case shaped_symbol F sps dphi (ph ! (n - 1)) (ph ! n) (ph ! min (n + 1) (length ph - 1)) [0..<sps] carrier of
        (c, out) \<Rightarrow> out @ shaped_symbols F sps dphi ph ns c)"

definition diff_psk_modulate :: "'n fmath \<Rightarrow> 'n diff_psk \<Rightarrow> u32 list \<Rightarrow> 'n list" where
  "diff_psk_modulate F d symbols =
     (let ph = map (phasor F (dp_order d)) (diff_encode d symbols);
          dphi = f_div F (f_mul F (f_tau F) (dp_carrier d)) (dp_rate d)
      in if ph = [] then [] else shaped_symbols F (dp_sps d) dphi ph [0..<length ph] (f_zero F))"

section \<open>Morse keying\<close>

record 'n cw_keyer =
  ck_rate :: 'n
  ck_tone :: 'n
  ck_dit :: nat
  ck_edge :: nat

definition cw_keyer_new :: "'n fmath \<Rightarrow> 'n \<Rightarrow> 'n \<Rightarrow> 'n \<Rightarrow> 'n cw_keyer" where
  "cw_keyer_new F rate tone wpm =
     (let dit = f_to_usize F (f_round F (f_mul F (f_div F (f_lit F ''1.2'') wpm) rate))
      in \<lparr>ck_rate = rate, ck_tone = tone, ck_dit = dit,
          ck_edge = min (f_to_usize F (f_round F (f_mul F (f_lit F ''0.005'') rate))) (dit div 2)\<rparr>)"

definition edge_gain :: "'n fmath \<Rightarrow> nat \<Rightarrow> nat \<Rightarrow> 'n" where
  "edge_gain F k edge = f_sub F (f_lit F ''0.5'')
     (f_mul F (f_lit F ''0.5'') (f_cos F (f_div F (f_mul F (f_pi F) (f_nat F k)) (f_nat F edge))))"

definition envelope :: "'n fmath \<Rightarrow> nat \<Rightarrow> nat \<Rightarrow> nat \<Rightarrow> 'n" where
  "envelope F edge tot k =
     (if k < edge then edge_gain F k edge
      else if tot - edge \<le> k then edge_gain F (tot - 1 - k) edge
      else f_one F)"

fun keyed_samples :: "'n fmath \<Rightarrow> 'n \<Rightarrow> nat \<Rightarrow> nat \<Rightarrow> nat list \<Rightarrow> 'n \<Rightarrow> 'n \<times> 'n list" where
  "keyed_samples F dp edge tot [] phase = (phase, [])"
| "keyed_samples F dp edge tot (k # ks) phase =
     (let p = phase_step F dp phase
      in case keyed_samples F dp edge tot ks p of (p', out) \<Rightarrow> (p', f_mul F (envelope F edge tot k) (f_sin F p) # out))"

definition keyed :: "'n fmath \<Rightarrow> 'n cw_keyer \<Rightarrow> nat \<Rightarrow> 'n \<Rightarrow> 'n \<times> 'n list" where
  "keyed F c elements phase =
     (let tot = elements * ck_dit c
      in keyed_samples F (f_div F (f_mul F (f_tau F) (ck_tone c)) (ck_rate c)) (ck_edge c) tot [0..<tot] phase)"

definition cw_silence :: "'n fmath \<Rightarrow> 'n cw_keyer \<Rightarrow> nat \<Rightarrow> 'n list" where
  "cw_silence F c elements = replicate (elements * ck_dit c) (f_zero F)"

fun cw_modulate_from :: "'n fmath \<Rightarrow> 'n cw_keyer \<Rightarrow> string \<Rightarrow> bool \<Rightarrow> 'n \<Rightarrow> 'n list" where
  "cw_modulate_from F c [] first phase = []"
| "cw_modulate_from F c (ch # cs) first phase =
     (if ch = CHR ''.'' \<or> ch = CHR ''-''
      then (case keyed F c (if ch = CHR ''.'' then 1 else 3) phase of
              (p, out) \<Rightarrow> (if first then [] else cw_silence F c 1) @ out @ cw_modulate_from F c cs False p)
      else if ch = CHR '' '' then cw_silence F c 3 @ cw_modulate_from F c cs True phase
      else cw_modulate_from F c cs first phase)"

definition cw_modulate :: "'n fmath \<Rightarrow> 'n cw_keyer \<Rightarrow> string \<Rightarrow> 'n list" where
  "cw_modulate F c morse = cw_modulate_from F c morse True (f_zero F)"

section \<open>Tone detection\<close>

definition goertzel_power :: "'n fmath \<Rightarrow> 'n list \<Rightarrow> 'n \<Rightarrow> 'n \<Rightarrow> 'n" where
  "goertzel_power F sig freq rate =
     (let w = f_div F (f_mul F (f_tau F) freq) rate; coeff = f_mul F (f_lit F ''2.0'') (f_cos F w)
      in case foldl (\<lambda>(s1, s2) x. (f_sub F (f_add F x (f_mul F coeff s1)) s2, s1)) (f_zero F, f_zero F) sig of
        (s1, s2) \<Rightarrow> f_sub F (f_add F (f_mul F s1 s1) (f_mul F s2 s2)) (f_mul F (f_mul F coeff s1) s2))"

definition tone_powers :: "'n fmath \<Rightarrow> 'n list \<Rightarrow> 'n \<Rightarrow> 'n \<Rightarrow> 'n \<Rightarrow> u32 \<Rightarrow> 'n list" where
  "tone_powers F block rate base spacing tones =
     map (\<lambda>k. goertzel_power F block (f_add F base (f_mul F (f_nat F k) spacing)) rate) [0..<unat tones]"

definition argmax :: "'n fmath \<Rightarrow> 'n list \<Rightarrow> nat" where
  "argmax F v = snd (foldl (\<lambda>(m, best) (i, x). if f_lt F m x then (x, i) else (m, best))
     (f_lit F ''NEG_INFINITY'', 0) (enumerate 0 v))"

definition symbol_block :: "'a list \<Rightarrow> nat \<Rightarrow> nat \<Rightarrow> nat \<Rightarrow> 'a list" where
  "symbol_block window offset sps i =
     (let start = offset + i * sps in take (min (start + sps) (length window) - min start (length window))
        (drop (min start (length window)) window))"

definition detect_symbols ::
    "'n fmath \<Rightarrow> 'n list \<Rightarrow> nat \<Rightarrow> nat \<Rightarrow> nat \<Rightarrow> 'n \<Rightarrow> 'n \<Rightarrow> 'n \<Rightarrow> u32 \<Rightarrow> u32 list" where
  "detect_symbols F window offset sps n_symbols rate base spacing tones =
     map (\<lambda>i. of_nat (argmax F (tone_powers F (symbol_block window offset sps i) rate base spacing tones)))
       [0..<n_symbols]"

definition symbol_to_llrs :: "'n fmath \<Rightarrow> u32 \<Rightarrow> nat \<Rightarrow> 'n \<Rightarrow> 'n list" where
  "symbol_to_llrs F symbol bits strength =
     map (\<lambda>b. if drop_bit (bits - 1 - b) symbol AND 1 = 0 then strength else f_neg F strength) [0..<bits]"

lemma argmax_bound: "argmax F v < max 1 (length v)"
proof -
  have "snd (foldl (\<lambda>(m, best) (i, x). if f_lt F m x then (x, i) else (m, best)) (m, b) (enumerate n v))
      < max (Suc b) (n + length v)" for m b n
  proof (induction v arbitrary: m b n)
    case (Cons x v)
    show ?case using Cons.IH [of m b "Suc n"] Cons.IH [of x n "Suc n"] by (auto simp: max_def split: if_splits)
  qed simp
  from this [of "f_lit F ''NEG_INFINITY''" 0 0] show ?thesis by (auto simp: argmax_def)
qed

lemma detect_symbols_length [simp]: "length (detect_symbols F w off sps n rate base spacing tones) = n"
  by (simp add: detect_symbols_def)

section \<open>Properties\<close>

lemma diff_round_trip:
  assumes "m = 2 \<or> m = 4" "a < m" "\<forall>s\<in>set ss. s < m"
  shows "diff_decode_from m a (diff_encode_from m a ss) = ss \<and> (\<forall>p\<in>set (diff_encode_from m a ss). p < m)"
  using assms(2,3)
proof (induction ss arbitrary: a)
  case (Cons s ss)
  have lt: "(a + s) mod m < m" using assms(1) by (auto simp: word_less_nat_alt unat_mod)
  have "((a + s) mod m + m - a) mod m = s"
  proof (rule word_unat_eq_iff [THEN iffD2])
    have b: "unat a < 4" "unat s < 4" "unat m = 2 \<or> unat m = 4" "unat a < unat m" "unat s < unat m"
      using Cons.prems assms(1) by (auto simp: word_less_nat_alt)
    have 1: "unat (a + s) = unat a + unat s" using b by (simp add: unat_word_ariths)
    have 2: "unat ((a + s) mod m) = (unat a + unat s) mod unat m" by (simp add: unat_mod 1)
    have 3: "unat ((a + s) mod m + m) = (unat a + unat s) mod unat m + unat m"
      using b by (auto simp: unat_word_ariths 2)
    have "a \<le> (a + s) mod m + m" using b by (auto simp: word_le_nat_alt 3)
    then have 4: "unat ((a + s) mod m + m - a) = (unat a + unat s) mod unat m + unat m - unat a"
      by (simp add: unat_sub 3)
    have "((unat a + unat s) mod unat m + unat m - unat a) mod unat m = unat s"
      using b by (cases "unat a + unat s < unat m") (auto simp: mod_if)
    then show "unat (((a + s) mod m + m - a) mod m) = unat s" by (simp add: unat_mod 4)
  qed
  with Cons lt show ?case by (simp add: Let_def)
qed simp

text \<open>Differential decoding undoes differential encoding for every stream of symbols below the order, and the phases on air are indices below the order.\<close>

theorem diff_psk_round_trip:
  assumes "diff_psk_new rate carrier sps bps = Some d" "\<forall>s\<in>set symbols. s < dp_order d"
  shows "diff_decode d (diff_encode d symbols) = symbols \<and> (\<forall>p\<in>set (diff_encode d symbols). p < dp_order d)"
proof -
  have "dp_order d = 2 \<or> dp_order d = 4"
    using assms(1) by (auto simp: diff_psk_new_def dp_order_def split: if_splits)
  with diff_round_trip [OF this, of 0 symbols] assms(2) show ?thesis
    by (auto simp: diff_decode_def diff_encode_def)
qed

lemma diff_psk_round_trip_witness:
  "\<exists>d. diff_psk_new 0 0 256 2 = Some (d :: nat diff_psk) \<and> diff_decode d (diff_encode d [3, 0, 1, 2]) = [3, 0, 1, 2]"
  using diff_psk_round_trip [of "0 :: nat" 0 256 2 _ "[3, 0, 1, 2]"] by (simp add: diff_psk_new_def dp_order_def)

text \<open>Every transmission of the plain keyings has exactly \<open>sps\<close> samples per symbol, whatever the arithmetic does.\<close>

lemma keying_length:
  "length (mfsk_modulate F m symbols) = length symbols * mf_sps m"
  "length (fsk2_modulate F g bits) = length bits * f2_sps g"
  "length (afsk_modulate F h bits) = length bits * ak_sps h"
  by (simp_all add: mfsk_modulate_def fsk2_modulate_def afsk_modulate_def)

end
