(* ===== verification/JtModes.thy ===== *)
theory JtModes
  imports Frames ViterbiProps InterleaveProps Modulate ReedProps LegacyPack
begin

text \<open>
  The weak-signal modes that carry legacy messages: JT65 (\<open>modes/jt65.rs\<close>, Reed--Solomon), JT9
  (\<open>jt9.rs\<close>), JT4 (\<open>jt4.rs\<close>) and WSPR (\<open>wspr.rs\<close>) with the long convolutional code. A modulator
  is the composition of message packing, coding, interleaving and keying; a decoder that of tone
  detection and the inverses. \<open>None\<close> of a decoder is a loop that does not end.
\<close>

section \<open>Delivered text\<close>

definition text_frame :: "string \<Rightarrow> string \<Rightarrow> 'n frame" where
  "text_frame decoder text =
     \<lparr>fr_payload = Text text, fr_meta = frame_meta_default\<lparr>fm_crc_ok := True, fm_decoder := Some decoder\<rparr>\<rparr>"

definition windowed_caps :: "u32 \<Rightarrow> 'n \<Rightarrow> 'n \<Rightarrow> 'n \<Rightarrow> 'n mode_caps" where
  "windowed_caps rate bandwidth window every =
     \<lparr>mc_native_rate = rate, mc_bandwidth = bandwidth, mc_tx = True, mc_duplex = Half, mc_shape = Windowed window every\<rparr>"

section \<open>JT65\<close>

definition JT65_RATE :: u32 where "JT65_RATE = 11025"
definition JT65_SPS :: nat where "JT65_SPS = 4096"
definition JT65_TONES :: u32 where "JT65_TONES = 65"
definition JT65_SYMBOLS :: nat where "JT65_SYMBOLS = 126"

definition jt65_baud :: "'n fmath \<Rightarrow> 'n" where
  "jt65_baud F = f_div F (f_nat F (unat JT65_RATE)) (f_nat F JT65_SPS)"

definition jt65_caps :: "'n fmath \<Rightarrow> 'n mode_caps" where
  "jt65_caps F = windowed_caps JT65_RATE (f_mul F (f_nat F (unat JT65_TONES)) (jt65_baud F))
     (f_lit F ''60.0'') (f_lit F ''60.0'')"

definition bits72_to_rs_symbols :: "u8 list \<Rightarrow> u8 list" where
  "bits72_to_rs_symbols bits =
     map (\<lambda>i. foldl (\<lambda>s j. push_bit 1 s OR (bits ! (i * 6 + j) AND 1)) 0 [0..<6]) [0..<12]"

definition rs_symbols_to_bits72 :: "u8 list \<Rightarrow> u8 list" where
  "rs_symbols_to_bits72 syms = concat (map (\<lambda>s. map (\<lambda>j. drop_bit (5 - j) s AND 1) [0..<6]) syms)"

definition jt65_symbols :: "frame_payload \<Rightarrow> (u32 list, mod_error) result" where
  "jt65_symbols p = (case p of
       Text t \<Rightarrow>
         let text = normalize_grid6 t
         in (case pack72 text of None \<Rightarrow> Err (TooLong text)
             | Some bits \<Rightarrow> Ok (concat (map (\<lambda>s. [0, ucast s + 1]) (rs64_encode rs_jt65 (bits72_to_rs_symbols bits)))))
     | _ \<Rightarrow> Err (UnsupportedPayload ''jt65 needs text''))"

definition jt65_keying :: "'n fmath \<Rightarrow> 'n mfsk" where
  "jt65_keying F = \<lparr>mf_rate = f_nat F (unat JT65_RATE), mf_sps = JT65_SPS, mf_base = f_lit F ''1000.0'',
     mf_spacing = jt65_baud F, mf_tones = JT65_TONES\<rparr>"

fun map_ok :: "('a \<Rightarrow> 'b) \<Rightarrow> ('a, 'e) result \<Rightarrow> ('b, 'e) result" where
  "map_ok f (Ok x) = Ok (f x)"
| "map_ok f (Err e) = Err e"

definition jt65_modulate :: "'n fmath \<Rightarrow> frame_payload \<Rightarrow> ('n list, mod_error) result" where
  "jt65_modulate F p = map_ok (mfsk_modulate F (jt65_keying F)) (jt65_symbols p)"

definition jt65_tones :: "'n fmath \<Rightarrow> 'n list \<Rightarrow> u32 list" where
  "jt65_tones F window = detect_symbols F window 0 JT65_SPS JT65_SYMBOLS (f_nat F (unat JT65_RATE))
     (f_lit F ''1000.0'') (jt65_baud F) JT65_TONES"

definition saturating_pred :: "u32 \<Rightarrow> u32" where
  "saturating_pred t = (if t = 0 then 0 else t - 1)"

definition jt65_received :: "u32 list \<Rightarrow> u8 list" where
  "jt65_received syms = map (\<lambda>i. ucast (min (saturating_pred (syms ! (i * 2 + 1))) 63)) [0..<63]"

definition jt65_decode_window :: "'n fmath \<Rightarrow> 'n list \<Rightarrow> 'n frame list" where
  "jt65_decode_window F window =
     (if length window < JT65_SYMBOLS * JT65_SPS then []
      else case rs64_decode rs_jt65 (jt65_received (jt65_tones F window)) of
          None \<Rightarrow> []
        | Some data \<Rightarrow> (case unpack72 (rs_symbols_to_bits72 data) of
            None \<Rightarrow> [] | Some text \<Rightarrow> [text_frame ''jt65'' text]))"

section \<open>JT9\<close>

definition JT9_RATE :: u32 where "JT9_RATE = 12000"
definition JT9_SPS :: nat where "JT9_SPS = 6912"
definition JT9_TONES :: u32 where "JT9_TONES = 9"
definition JT9_SYNC_TONE :: u32 where "JT9_SYNC_TONE = 8"
definition JT_MSG_BITS :: nat where "JT_MSG_BITS = 72"
definition JT9_CODED_BITS :: nat where "JT9_CODED_BITS = (JT_MSG_BITS + 31) * 2"
definition JT9_TOTAL_SYMBOLS :: nat where "JT9_TOTAL_SYMBOLS = (JT9_CODED_BITS + 2) div 3 + 1"

definition jt9_baud :: "'n fmath \<Rightarrow> 'n" where
  "jt9_baud F = f_div F (f_nat F (unat JT9_RATE)) (f_nat F JT9_SPS)"

definition jt9_caps :: "'n fmath \<Rightarrow> 'n mode_caps" where
  "jt9_caps F = windowed_caps JT9_RATE (f_mul F (f_nat F (unat JT9_TONES)) (jt9_baud F))
     (f_lit F ''60.0'') (f_lit F ''60.0'')"

definition triple :: "u8 \<Rightarrow> u8 \<Rightarrow> u8 \<Rightarrow> u32" where
  "triple a b c = foldl (\<lambda>s x. push_bit 1 s OR (ucast x AND 1)) 0 [a, b, c]"

fun triples :: "u8 list \<Rightarrow> u32 list" where
  "triples [] = []"
| "triples [a] = [triple a 0 0]"
| "triples [a, b] = [triple a b 0]"
| "triples (a # b # c # rest) = triple a b c # triples rest"

definition jt9_symbols :: "frame_payload \<Rightarrow> (u32 list, mod_error) result" where
  "jt9_symbols p = (case p of
       Text t \<Rightarrow>
         let text = normalize_grid6 t
         in (case pack72 text of None \<Rightarrow> Err (TooLong text)
             | Some bits \<Rightarrow> Ok (JT9_SYNC_TONE # triples (fano_encode bits)))
     | _ \<Rightarrow> Err (UnsupportedPayload ''jt9 needs text''))"

definition jt9_keying :: "'n fmath \<Rightarrow> 'n mfsk" where
  "jt9_keying F = \<lparr>mf_rate = f_nat F (unat JT9_RATE), mf_sps = JT9_SPS, mf_base = f_lit F ''1000.0'',
     mf_spacing = jt9_baud F, mf_tones = JT9_TONES\<rparr>"

definition jt9_modulate :: "'n fmath \<Rightarrow> frame_payload \<Rightarrow> ('n list, mod_error) result" where
  "jt9_modulate F p = map_ok (mfsk_modulate F (jt9_keying F)) (jt9_symbols p)"

definition jt9_tones :: "'n fmath \<Rightarrow> 'n list \<Rightarrow> u32 list" where
  "jt9_tones F window = detect_symbols F window 0 JT9_SPS JT9_TOTAL_SYMBOLS (f_nat F (unat JT9_RATE))
     (f_lit F ''1000.0'') (jt9_baud F) JT9_TONES"

definition jt_frames :: "string \<Rightarrow> u8 list option option \<Rightarrow> 'n frame list option" where
  "jt_frames decoder decoded =
     map_option (\<lambda>r. case r of None \<Rightarrow> []
        | Some bits \<Rightarrow> if length bits \<noteq> 72 then []
            else (case unpack72 bits of None \<Rightarrow> [] | Some text \<Rightarrow> [text_frame decoder text])) decoded"

definition jt9_llrs :: "'n fmath \<Rightarrow> u32 list \<Rightarrow> 'n list" where
  "jt9_llrs F syms = take JT9_CODED_BITS (concat (map (\<lambda>s. symbol_to_llrs F s 3 (f_lit F ''6.0'')) (tl syms)))"

definition jt9_decode_window :: "'n fmath \<Rightarrow> 'n list \<Rightarrow> 'n frame list option" where
  "jt9_decode_window F window =
     (if length window < JT9_TOTAL_SYMBOLS * JT9_SPS then Some []
      else jt_frames ''jt9'' (fano_decode F (jt9_llrs F (jt9_tones F window)) JT_MSG_BITS (f_lit F ''0.5'')))"

section \<open>JT4\<close>

definition JT4_RATE :: u32 where "JT4_RATE = 12000"
definition JT4_SPS :: nat where "JT4_SPS = 2742"
definition JT4_TONES :: u32 where "JT4_TONES = 4"
definition JT4_SYMBOLS :: nat where "JT4_SYMBOLS = (JT_MSG_BITS + 31) * 2"

definition NPR :: "u8 list" where
  "NPR = [
    0, 0, 0, 0, 1, 1, 0, 0, 0, 1, 1, 0, 1, 1, 0, 0, 1, 0, 1, 0, 0, 0, 0, 0, 0, 0, 1, 1, 0, 0,
    0, 0, 0, 0, 0, 0, 0, 0, 0, 0, 1, 0, 1, 1, 0, 1, 1, 0, 1, 0, 1, 1, 1, 1, 1, 0, 1, 0, 0, 0,
    1, 0, 0, 1, 0, 0, 1, 1, 1, 1, 1, 0, 0, 0, 1, 0, 1, 0, 0, 0, 1, 1, 1, 1, 0, 1, 1, 0, 0, 1,
    0, 0, 0, 1, 1, 0, 1, 0, 1, 0, 1, 0, 1, 0, 1, 1, 1, 1, 1, 0, 1, 0, 1, 0, 1, 1, 0, 1, 0, 1,
    0, 1, 1, 1, 0, 0, 1, 0, 1, 1, 0, 1, 1, 1, 1, 0, 0, 0, 0, 1, 1, 0, 1, 1, 0, 0, 0, 1, 1, 1,
    0, 1, 1, 1, 0, 1, 1, 1, 0, 0, 1, 0, 0, 0, 1, 1, 0, 1, 1, 0, 0, 1, 0, 0, 0, 1, 1, 1, 1, 1,
    1, 0, 0, 1, 1, 0, 0, 0, 0, 1, 1, 0, 0, 0, 1, 0, 1, 1, 0, 1, 1, 1, 1, 0, 1, 0, 1]"

definition jt4_sync_bits :: "u8 list" where
  "jt4_sync_bits = tl NPR"

definition reverse_bits :: "u32 \<Rightarrow> u32" where
  "reverse_bits w = horner_sum of_bool 2 (rev (map (bit w) [0..<32]))"

text \<open>The table has as many entries as the filter keeps; the code would panic otherwise.\<close>

definition jt4_interleave_table :: "nat list" where
  "jt4_interleave_table =
     filter (\<lambda>n. n < JT4_SYMBOLS) (map (\<lambda>i. unat (drop_bit 24 (reverse_bits (of_nat i)))) [0..<256])"

datatype jt4_submode = Jt4A | Jt4B | Jt4C | Jt4D | Jt4E | Jt4F | Jt4G

definition jt4_all :: "jt4_submode list" where
  "jt4_all = [Jt4A, Jt4B, Jt4C, Jt4D, Jt4E, Jt4F, Jt4G]"

fun jt4_nch :: "jt4_submode \<Rightarrow> u32" where
  "jt4_nch Jt4A = 1" | "jt4_nch Jt4B = 2" | "jt4_nch Jt4C = 4" | "jt4_nch Jt4D = 9"
| "jt4_nch Jt4E = 18" | "jt4_nch Jt4F = 36" | "jt4_nch Jt4G = 72"

fun jt4_label :: "jt4_submode \<Rightarrow> string" where
  "jt4_label Jt4A = ''jt4a''" | "jt4_label Jt4B = ''jt4b''" | "jt4_label Jt4C = ''jt4c''" | "jt4_label Jt4D = ''jt4d''"
| "jt4_label Jt4E = ''jt4e''" | "jt4_label Jt4F = ''jt4f''" | "jt4_label Jt4G = ''jt4g''"

definition jt4_submode_from_label :: "string \<Rightarrow> jt4_submode option" where
  "jt4_submode_from_label label = find (\<lambda>v. jt4_label v = label) jt4_all"

definition jt4_baud :: "'n fmath \<Rightarrow> 'n" where
  "jt4_baud F = f_div F (f_nat F (unat JT4_RATE)) (f_nat F JT4_SPS)"

definition jt4_spacing_hz :: "'n fmath \<Rightarrow> jt4_submode \<Rightarrow> 'n" where
  "jt4_spacing_hz F sub = f_mul F (jt4_baud F) (f_nat F (unat (jt4_nch sub)))"

definition jt4_caps :: "'n fmath \<Rightarrow> jt4_submode \<Rightarrow> 'n mode_caps" where
  "jt4_caps F sub = windowed_caps JT4_RATE (f_mul F (f_nat F (unat JT4_TONES)) (jt4_spacing_hz F sub))
     (f_lit F ''60.0'') (f_lit F ''60.0'')"

definition jt4_encode_bits :: "u8 list \<Rightarrow> u8 list" where
  "jt4_encode_bits bits = fold (\<lambda>(i, c) out. out[jt4_interleave_table ! i := c]) (enumerate 0 (fano_encode bits))
     (replicate JT4_SYMBOLS 0)"

definition jt4_symbols :: "frame_payload \<Rightarrow> (u32 list, mod_error) result" where
  "jt4_symbols p = (case p of
       Text t \<Rightarrow> (case pack72 t of None \<Rightarrow> Err (TooLong t)
         | Some bits \<Rightarrow> Ok (map (\<lambda>(d, s). 2 * ucast d + ucast s) (zip (jt4_encode_bits bits) jt4_sync_bits)))
     | _ \<Rightarrow> Err (UnsupportedPayload ''jt4 needs text''))"

definition jt4_keying :: "'n fmath \<Rightarrow> jt4_submode \<Rightarrow> 'n mfsk" where
  "jt4_keying F sub = \<lparr>mf_rate = f_nat F (unat JT4_RATE), mf_sps = JT4_SPS, mf_base = f_lit F ''1000.0'',
     mf_spacing = jt4_spacing_hz F sub, mf_tones = JT4_TONES\<rparr>"

definition jt4_modulate :: "'n fmath \<Rightarrow> jt4_submode \<Rightarrow> frame_payload \<Rightarrow> ('n list, mod_error) result" where
  "jt4_modulate F sub p = map_ok (mfsk_modulate F (jt4_keying F sub)) (jt4_symbols p)"

text \<open>The sync bit is known, so two of the four tones compete.\<close>

definition jt4_llr :: "'n fmath \<Rightarrow> jt4_submode \<Rightarrow> 'n list \<Rightarrow> nat \<Rightarrow> u8 \<Rightarrow> 'n" where
  "jt4_llr F sub window i s =
     (let p = tone_powers F (take JT4_SPS (drop (i * JT4_SPS) window)) (f_nat F (unat JT4_RATE)) (f_lit F ''1000.0'')
            (jt4_spacing_hz F sub) JT4_TONES;
          p0 = p ! unat s; p1 = p ! (2 + unat s)
      in f_div F (f_mul F (f_lit F ''6.0'') (f_sub F p0 p1)) (f_add F (f_add F p0 p1) (f_lit F ''1e-9'')))"

definition jt4_llrs :: "'n fmath \<Rightarrow> jt4_submode \<Rightarrow> 'n list \<Rightarrow> 'n list" where
  "jt4_llrs F sub window =
     (let inter = map (\<lambda>(i, s). jt4_llr F sub window i s) (enumerate 0 jt4_sync_bits)
      in map (\<lambda>i. inter ! (jt4_interleave_table ! i)) [0..<JT4_SYMBOLS])"

definition jt4_decode_window :: "'n fmath \<Rightarrow> jt4_submode \<Rightarrow> 'n list \<Rightarrow> 'n frame list option" where
  "jt4_decode_window F sub window =
     (if length window < JT4_SYMBOLS * JT4_SPS then Some []
      else jt_frames ''jt4'' (fano_decode F (jt4_llrs F sub window) JT_MSG_BITS (f_lit F ''0.5'')))"

section \<open>WSPR\<close>

definition WSPR_RATE :: u32 where "WSPR_RATE = 12000"
definition WSPR_SPS :: nat where "WSPR_SPS = 8192"
definition WSPR_TONES :: u32 where "WSPR_TONES = 4"
definition WSPR_SYMBOLS :: nat where "WSPR_SYMBOLS = 162"
definition WSPR_MSG_BITS :: nat where "WSPR_MSG_BITS = 50"

definition wspr_baud :: "'n fmath \<Rightarrow> 'n" where
  "wspr_baud F = f_div F (f_nat F (unat WSPR_RATE)) (f_nat F WSPR_SPS)"

definition wspr_caps :: "'n fmath \<Rightarrow> 'n mode_caps" where
  "wspr_caps F = windowed_caps WSPR_RATE (f_mul F (f_nat F (unat WSPR_TONES)) (wspr_baud F))
     (f_lit F ''120.0'') (f_lit F ''120.0'')"

definition xorshift :: "u32 \<Rightarrow> u32" where
  "xorshift s = (let a = s XOR push_bit 13 s; b = a XOR drop_bit 17 a in b XOR push_bit 5 b)"

fun sync_from :: "nat \<Rightarrow> u32 \<Rightarrow> u8 list" where
  "sync_from 0 s = []"
| "sync_from (Suc k) s = (let s1 = xorshift s in ucast (s1 AND 1) # sync_from k s1)"

definition sync_vector :: "u8 list" where
  "sync_vector = sync_from WSPR_SYMBOLS 0x5EED1234"

definition parse_dbm :: "string \<Rightarrow> nat option" where
  "parse_dbm s = from_str_radix 10 255 s"

definition parse_wspr_message :: "string \<Rightarrow> (string \<times> string \<times> nat) option" where
  "parse_wspr_message s = (case split_whitespace s of
       [call, grid, d] \<Rightarrow> map_option (\<lambda>dbm. (call, grid, dbm)) (parse_dbm d)
     | _ \<Rightarrow> None)"

definition wspr_symbols :: "frame_payload \<Rightarrow> (u32 list, mod_error) result" where
  "wspr_symbols p = (case p of
       Text t \<Rightarrow> (case parse_wspr_message t of
           None \<Rightarrow> Err (EncodeFailed t)
         | Some (call, grid, dbm) \<Rightarrow> (case pack50 call grid dbm of
             None \<Rightarrow> Err (TooLong t)
           | Some bits \<Rightarrow>
               let coded = fano_encode bits; idx = the (bit_reversal_indices WSPR_SYMBOLS);
                   interleaved = the (permute coded idx)
               in Ok (map (\<lambda>(d, s). 2 * ucast d + ucast s) (zip interleaved sync_vector))))
     | _ \<Rightarrow> Err (UnsupportedPayload (''wspr needs '' @ CHR 0x27 # ''CALL GRID DBM'' @ [CHR 0x27])))"

definition wspr_keying :: "'n fmath \<Rightarrow> 'n mfsk" where
  "wspr_keying F = \<lparr>mf_rate = f_nat F (unat WSPR_RATE), mf_sps = WSPR_SPS, mf_base = f_lit F ''1400.0'',
     mf_spacing = wspr_baud F, mf_tones = WSPR_TONES\<rparr>"

definition wspr_modulate :: "'n fmath \<Rightarrow> frame_payload \<Rightarrow> ('n list, mod_error) result" where
  "wspr_modulate F p = map_ok (mfsk_modulate F (wspr_keying F)) (wspr_symbols p)"

definition wspr_tones :: "'n fmath \<Rightarrow> 'n list \<Rightarrow> u32 list" where
  "wspr_tones F window = detect_symbols F window 0 WSPR_SPS WSPR_SYMBOLS (f_nat F (unat WSPR_RATE))
     (f_lit F ''1400.0'') (wspr_baud F) WSPR_TONES"

definition wspr_llrs :: "'n fmath \<Rightarrow> u32 list \<Rightarrow> 'n list" where
  "wspr_llrs F tones =
     (let interleaved = map (\<lambda>t. ucast (drop_bit 1 t) AND (1 :: u8)) tones;
          coded = the (unpermute 0 interleaved (the (bit_reversal_indices WSPR_SYMBOLS)))
      in map (\<lambda>b. if b = 0 then f_lit F ''6.0'' else f_neg F (f_lit F ''6.0'')) coded)"

definition wspr_text :: "string \<times> string \<times> nat \<Rightarrow> string" where
  "wspr_text m = (case m of (call, grid, dbm) \<Rightarrow> call @ '' '' @ grid @ '' '' @ show_dec dbm)"

definition wspr_decode_window :: "'n fmath \<Rightarrow> 'n list \<Rightarrow> 'n frame list option" where
  "wspr_decode_window F window =
     (if length window < WSPR_SYMBOLS * WSPR_SPS then Some []
      else map_option (\<lambda>r. case r of None \<Rightarrow> []
          | Some bits \<Rightarrow> if length bits \<noteq> 50 then []
              else (case unpack50 bits of None \<Rightarrow> [] | Some m \<Rightarrow> [text_frame ''wspr'' (wspr_text m)]))
        (fano_decode F (wspr_llrs F (wspr_tones F window)) WSPR_MSG_BITS (f_lit F ''0.5'')))"

end
