(* ===== verification/JtProps.thy ===== *)
theory JtProps
  imports JtModes
begin

text \<open>
  JT65, JT9 and WSPR deliver the message that was sent, with the errors each code is there for: up to
  25 wrong data tones of JT65, wrong sync bits of WSPR.
\<close>

section \<open>Messages\<close>

lemma legacy_extra_short: "legacy_extra e \<Longrightarrow> \<not> is_grid6 e"
proof
  assume e: "legacy_extra e" "is_grid6 e"
  then have len: "length e = 6" and f: "in_field (e ! 0)" by (auto simp: is_grid6_def)
  from e(1) len have "report_text e" "\<not> starts_with e ''R''" by (auto simp: legacy_extra_def is_grid4_def)
  then have "\<exists>v. e = show_plus03 v" unfolding report_text_def Let_def by (simp only: if_False) blast
  then have "e ! 0 = CHR ''-'' \<or> e ! 0 = CHR ''+''"
  proof
    fix v assume "e = show_plus03 v"
    then show ?thesis by (cases "v < 0") (simp_all add: show_plus03_def)
  qed
  with f show False by (auto simp: in_field_def)
qed

lemma legacy_normal:
  assumes "legacy_field t" "legacy_field d" "legacy_extra e"
  shows "normalize_grid6 (join_sp [t, d, e]) = join_sp [t, d, e]"
proof -
  have "split_whitespace (join_sp [t, d, e]) = [t, d, e]"
    by (rule split_whitespace_join) (use assms legacy_field_word legacy_extra_word in auto)
  then show ?thesis using legacy_extra_short [OF assms(3)] by (simp add: normalize_grid6_def)
qed

section \<open>JT65\<close>

lemma bit_u8_small: "(\<And>n. n < 8 \<Longrightarrow> bit a n = bit b n) \<Longrightarrow> a = b" for a b :: u8
  by (rule bit_word_eqI) simp

lemma six_bits:
  assumes "length bs = 6" "set bs \<subseteq> {0, 1}"
  defines "s \<equiv> foldl (\<lambda>s j. push_bit 1 s OR (bs ! j AND 1)) (0 :: u8) [0..<6]"
  shows "s < 64 \<and> map (\<lambda>j. drop_bit (5 - j) s AND 1) [0..<6] = bs"
proof -
  obtain a b c d e f where bs: "bs = [a, b, c, d, e, f]"
    using assms(1) by (auto simp: length_Suc_conv numeral_eq_Suc)
  have upt: "[0..<6] = [0, 1, 2, 3, 4, 5 :: nat]" by (simp add: upt_rec)
  show ?thesis using assms(2) by (auto simp: s_def bs upt)
qed

lemma rs_symbols_bits:
  assumes "length bits = 72" "set bits \<subseteq> {0, 1}"
  shows "length (bits72_to_rs_symbols bits) = 12" "\<forall>s\<in>set (bits72_to_rs_symbols bits). s < 64"
    "rs_symbols_to_bits72 (bits72_to_rs_symbols bits) = bits"
proof -
  let ?b = "\<lambda>i. take 6 (drop (i * 6) bits)"
  have b: "length (?b i) = 6" "set (?b i) \<subseteq> {0, 1}" if "i < 12" for i
    using that assms by (auto dest: in_set_takeD in_set_dropD)
  have sym: "foldl (\<lambda>s j. push_bit 1 s OR (bits ! (i * 6 + j) AND 1)) (0 :: u8) [0..<6] =
      foldl (\<lambda>s j. push_bit 1 s OR (?b i ! j AND 1)) 0 [0..<6]" if "i < 12" for i
    using that assms(1) by (intro foldl_cong refl) auto
  show "length (bits72_to_rs_symbols bits) = 12" by (simp add: bits72_to_rs_symbols_def)
  show "\<forall>s\<in>set (bits72_to_rs_symbols bits). s < 64"
  proof
    fix s assume "s \<in> set (bits72_to_rs_symbols bits)"
    then obtain i where "i < 12" "s = foldl (\<lambda>s j. push_bit 1 s OR (bits ! (i * 6 + j) AND 1)) 0 [0..<6]"
      by (auto simp: bits72_to_rs_symbols_def simp del: upt_Suc)
    with sym six_bits [OF b] show "s < 64" by metis
  qed
  have "rs_symbols_to_bits72 (bits72_to_rs_symbols bits) = concat (map ?b [0..<12])"
    unfolding rs_symbols_to_bits72_def bits72_to_rs_symbols_def map_map comp_def
    using sym six_bits [OF b] by (intro arg_cong [where f = concat] map_cong refl) (metis atLeastLessThan_iff set_upt)
  also have "\<dots> = bits"
  proof -
    have "concat (map ?b [0..<n]) = take (n * 6) bits" for n
      by (induction n) (simp_all add: take_add add.commute [of 6])
    from this [of 12] show ?thesis using assms(1) by simp
  qed
  finally show "rs_symbols_to_bits72 (bits72_to_rs_symbols bits) = bits" .
qed

lemma interleaved_sync_nth:
  "i < length cw \<Longrightarrow> concat (map (\<lambda>s. [0, g s]) cw) ! (2 * i + 1) = g (cw ! i)"
proof (induction cw arbitrary: i)
  case (Cons s cw)
  then show ?case by (cases i) auto
qed simp

lemma received_symbol:
  assumes "s < (64 :: u8)" "t = ucast s + 1"
  shows "(ucast (min (saturating_pred t) 63) :: u8) = s"
proof -
  have "(ucast s :: u32) \<le> 63" using assms(1) by (simp add: word_le_nat_alt word_less_nat_alt unsigned_ucast_eq take_bit_eq_mod)
  moreover have "(ucast s + 1 :: u32) \<noteq> 0" using calculation by (auto simp: word_le_nat_alt unat_eq_0 dest!: arg_cong [where f = unat] simp: unat_word_ariths)
  moreover have "(ucast (ucast s :: u32) :: u8) = s" by (rule bit_word_eqI) (simp add: bit_ucast_iff)
  ultimately show ?thesis by (simp add: assms(2) saturating_pred_def min_absorb1)
qed

text \<open>The data tones that were detected wrongly.\<close>

definition wrong_tones :: "u32 list \<Rightarrow> u32 list \<Rightarrow> nat" where
  "wrong_tones sent got = length (filter (\<lambda>i. got ! (2 * i + 1) \<noteq> sent ! (2 * i + 1)) [0..<63])"

lemma jt65_symbol_errors:
  assumes "length cw = 63" "\<forall>s\<in>set cw. s < 64"
  shows "symbol_errors cw (jt65_received got) \<le> wrong_tones (concat (map (\<lambda>s. [0, ucast s + 1]) cw)) got"
proof -
  let ?sent = "concat (map (\<lambda>s. [0, ucast s + 1]) cw) :: u32 list"
  have len: "length (jt65_received got) = 63" by (simp add: jt65_received_def)
  have "symbol_errors cw (jt65_received got) = card {i. i < 63 \<and> cw ! i \<noteq> jt65_received got ! i}"
    using assms(1) len by (simp add: symbol_errors_card)
  also have "\<dots> \<le> card {i. i < 63 \<and> got ! (2 * i + 1) \<noteq> ?sent ! (2 * i + 1)}"
  proof (rule card_mono, simp, rule Collect_mono, intro impI conjI)
    fix i assume i: "i < 63 \<and> cw ! i \<noteq> jt65_received got ! i"
    then show "i < 63" by simp
    show "got ! (2 * i + 1) \<noteq> ?sent ! (2 * i + 1)"
    proof
      assume "got ! (2 * i + 1) = ?sent ! (2 * i + 1)"
      then have "got ! (2 * i + 1) = ucast (cw ! i) + 1" using i assms(1) interleaved_sync_nth [of i cw "\<lambda>s. ucast s + 1"] by simp
      moreover have "cw ! i < 64" using i assms by simp
      ultimately have "jt65_received got ! i = cw ! i"
        using received_symbol [of "cw ! i" "got ! (2 * i + 1)"] i by (simp add: jt65_received_def mult.commute)
      with i show False by simp
    qed
  qed
  also have "\<dots> = wrong_tones ?sent got"
    unfolding wrong_tones_def length_filter_conv_card by (intro arg_cong [where f = card]) auto
  finally show ?thesis .
qed

lemma rs64_codeword:
  assumes "length data = 12" "\<forall>s\<in>set data. s < 64"
  shows "length (rs64_encode rs_jt65 data) = 63 \<and> (\<forall>s\<in>set (rs64_encode rs_jt65 data). s < 64)"
proof -
  have "set data \<subseteq> symbols64" using assms(2) by (auto simp: symbols64_def)
  from rep64.encode_parity_ok(1,2) [OF rs_jt65_def _ this] assms(1) show ?thesis
    using assms(2) by (auto simp: rs64_encode_def symbols64_def)
qed

lemma jt65_received_small: "\<forall>s\<in>set (jt65_received got). s < 64"
proof -
  have "(ucast (min t 63) :: u8) < 64" for t :: u32
  proof -
    have "min t 63 \<le> 63" by simp
    then have "unat (min t 63) \<le> 63" by (simp add: word_le_nat_alt)
    then show ?thesis by (simp add: word_less_nat_alt unsigned_ucast_eq take_bit_eq_mod)
  qed
  then show ?thesis by (auto simp: jt65_received_def)
qed

text \<open>
  C21: A full JT65 window decodes to exactly the message that was sent although up to 25 of its 63 data
  tones, and any of the sync tones, were detected wrongly, in any arithmetic of the detector. The
  message is of three fields: two unaliased calls or calling tokens, and a locator, a report from -30
  without \<open>R\<close>, \<open>RRR\<close>, \<open>RR73\<close> or \<open>73\<close>.
\<close>

theorem jt65_survives_25_errors:
  assumes "legacy_field t" "legacy_field d" "legacy_extra e" "legacy_text t = t" "legacy_text d = d"
    "jt65_symbols (Text (join_sp [t, d, e])) = Ok sent" "JT65_SYMBOLS * JT65_SPS \<le> length window"
    "wrong_tones sent (jt65_tones F window) \<le> 25"
  shows "jt65_decode_window F window = [text_frame ''jt65'' (join_sp [t, d, e])]"
proof -
  obtain bits where bits: "pack72 (join_sp [t, d, e]) = Some bits" "length bits = 72" "bits01 bits"
      "unpack72 bits = Some (join_sp [t, d, e])"
    using message72 [OF assms(1,2), of e] legacy_extra_word [OF assms(3)] assms(4,5) by auto
  let ?data = "bits72_to_rs_symbols bits"
  let ?cw = "rs64_encode rs_jt65 ?data"
  note sy = rs_symbols_bits [OF bits(2) bits(3) [unfolded bits01_def]]
  note cw = rs64_codeword [OF sy(1,2)]
  have sent: "sent = concat (map (\<lambda>s. [0, ucast s + 1]) ?cw)"
    using assms(6) unfolding jt65_symbols_def frame_payload.case legacy_normal [OF assms(1-3)] Let_def bits(1) by simp
  let ?got = "jt65_received (jt65_tones F window)"
  have "symbol_errors ?cw ?got \<le> 25"
    using jt65_symbol_errors [of ?cw "jt65_tones F window"] cw assms(8) unfolding sent by simp
  then have "rs64_decode rs_jt65 ?got = Some ?data"
    by (intro rs64_corrects [OF sy(1,2) _ jt65_received_small]) (simp add: jt65_received_def)
  with assms(7) sy(3) bits(4) show ?thesis by (simp add: jt65_decode_window_def)
qed

section \<open>The sequential modes\<close>

text \<open>The soft value of a hard decision, and what the branch metric makes of it.\<close>

definition hard_llr :: "'n fmath \<Rightarrow> u8 \<Rightarrow> 'n" where
  "hard_llr F b = (if b = 0 then f_lit F ''6.0'' else f_neg F (f_lit F ''6.0''))"

definition sound_metric :: "('n::floor_ceiling) fmath \<Rightarrow> bool" where
  "sound_metric F \<longleftrightarrow> exact_costs F \<and> 0 < f_lit F ''0.5'' \<and> explains F (hard_llr F 0) 0 \<and> explains F (hard_llr F 1) 1"

lemma fano_encode_length: "length (fano_encode data) = 2 * (length data + 31)"
  by (simp add: fano_encode_def encode_from_length FANO_POLYS_def FANO_TAIL_def)

lemma fano_decodes_hard:
  assumes "sound_metric F" "bits01_list data" "length data < 1000"
  shows "fano_decode F (map (hard_llr F) (fano_encode data)) (length data) (f_lit F ''0.5'') = Some (Some data)"
proof -
  let ?enc = "fano_encode data"
  have F: "exact_costs F" "0 < f_lit F ''0.5''" "explains F (hard_llr F 0) 0" "explains F (hard_llr F 1) 1"
    using assms(1) by (auto simp: sound_metric_def)
  have ex: "explains F (map (hard_llr F) ?enc ! i) (?enc ! i)" if "i < length ?enc" for i
    using fano_encode_01 [OF nth_mem [OF that]] F(3,4) that by auto
  show ?thesis
    by (rule fano_clean [OF F(1,2) assms(2)]) (use assms(3) ex in \<open>simp_all add: FANO_TAIL_def DEFAULT_BUDGET_def\<close>)
qed

lemma triple_bits:
  "list_all (\<lambda>a. list_all (\<lambda>b. list_all (\<lambda>c.
     (drop_bit 2 (triple a b c) AND 1 = 0 \<longleftrightarrow> a = 0) \<and> (drop_bit 1 (triple a b c) AND 1 = 0 \<longleftrightarrow> b = 0) \<and>
     (drop_bit 0 (triple a b c) AND 1 = 0 \<longleftrightarrow> c = 0)) [0, 1]) [0, 1]) [0, 1]"
  by code_simp

lemma triple_llrs:
  assumes "{a, b, c} \<subseteq> {0, 1}"
  shows "symbol_to_llrs F (triple a b c) 3 (f_lit F ''6.0'') = map (hard_llr F) [a, b, c]"
proof -
  have upt: "[0..<3] = [0, 1, 2 :: nat]" by (simp add: upt_rec)
  have in01: "a \<in> set [0, 1]" "b \<in> set [0, 1]" "c \<in> set [0, 1]" using assms by auto
  note t3 = bspec [OF bspec [OF bspec [OF triple_bits [unfolded list_all_iff] in01(1)] in01(2)] in01(3)]
  note t = conjunct1 [OF t3] conjunct1 [OF conjunct2 [OF t3]] conjunct2 [OF conjunct2 [OF t3]]
  have d: "3 - 1 - 0 = (2 :: nat)" "3 - 1 - 1 = (1 :: nat)" "3 - 1 - 2 = (0 :: nat)" by simp_all
  show ?thesis unfolding symbol_to_llrs_def upt list.map d t hard_llr_def ..
qed

lemma triples_llrs:
  assumes "set bs \<subseteq> {0, 1}"
  shows "take (length bs) (concat (map (\<lambda>s. symbol_to_llrs F s 3 (f_lit F ''6.0'')) (triples bs))) = map (hard_llr F) bs"
  using assms by (induction bs rule: triples.induct) (simp_all add: triple_llrs)

text \<open>
  A full JT9 window whose data tones are all detected decodes to the message that was sent (of the
  three fields of a JT65 message), whatever the sync tone was taken for: the search of the sequential
  decoder ends, within its budget, with the message. Its arithmetic is exact and its bit metric sound:
  the value of a hard decision scores at least 0 for its bit and less for the other.
\<close>

theorem jt9_delivers:
  assumes "sound_metric F" "legacy_field t" "legacy_field d" "legacy_extra e" "legacy_text t = t" "legacy_text d = d"
    "jt9_symbols (Text (join_sp [t, d, e])) = Ok sent" "JT9_TOTAL_SYMBOLS * JT9_SPS \<le> length window"
    "tl (jt9_tones F window) = tl sent"
  shows "jt9_decode_window F window = Some [text_frame ''jt9'' (join_sp [t, d, e])]"
proof -
  obtain bits where bits: "pack72 (join_sp [t, d, e]) = Some bits" "length bits = 72" "bits01 bits"
      "unpack72 bits = Some (join_sp [t, d, e])"
    using message72 [OF assms(2,3), of e] legacy_extra_word [OF assms(4)] assms(5,6) by auto
  have sent: "tl sent = triples (fano_encode bits)"
    using assms(7) unfolding jt9_symbols_def frame_payload.case legacy_normal [OF assms(2-4)] Let_def bits(1) by auto
  have "set (fano_encode bits) \<subseteq> {0, 1}" using fano_encode_01 by blast
  from triples_llrs [OF this, of F] have "jt9_llrs F (jt9_tones F window) = map (hard_llr F) (fano_encode bits)"
    by (simp add: jt9_llrs_def assms(9) sent JT9_CODED_BITS_def JT_MSG_BITS_def fano_encode_length bits(2))
  moreover have "fano_decode F (map (hard_llr F) (fano_encode bits)) 72 (f_lit F ''0.5'') = Some (Some bits)"
    using fano_decodes_hard [OF assms(1), of bits] bits(2,3) by (simp add: bits01_def)
  ultimately show ?thesis
    using assms(8) bits(2,4) by (simp add: jt9_decode_window_def jt_frames_def JT_MSG_BITS_def)
qed

section \<open>WSPR\<close>

lemma sync_from_01: "length (sync_from k s) = k \<and> set (sync_from k s) \<subseteq> {0, 1}"
proof (induction k arbitrary: s)
  case (Suc k)
  have "(ucast (w AND 1) :: u8) \<in> {0, 1}" for w :: u32 by (simp add: and_one_eq mod_2_eq_odd)
  with Suc show ?case by (simp add: Let_def)
qed simp

lemma sync_tone:
  assumes "d = 0 \<or> d = (1 :: u8)" "s = 0 \<or> s = (1 :: u8)" "drop_bit 1 t = drop_bit 1 (2 * ucast d + ucast s :: u32)"
  shows "ucast (drop_bit 1 t) AND (1 :: u8) = d"
  using assms by auto

lemma digit_graphic: "n < 10 \<Longrightarrow> graphic (digit_char n)"
  by (simp add: graphic_def digit_char_def)

lemma show_dec_word: "word_text (show_dec n)"
proof -
  have "graphic c" if "c \<in> set (show_dec n)" for c
  proof -
    from show_radix_chars [of 10 n] that have "c \<in> digit_char ` {..<10}" by auto
    then show ?thesis using digit_graphic by auto
  qed
  then show ?thesis by (simp add: word_text_def list_all_iff)
qed

lemma grid4_word: "is_grid4 g \<Longrightarrow> word_text g"
  by (auto simp: is_grid4_def length_Suc_conv numeral_eq_Suc word_text_def graphic_def in_field_def is_digit_def)

text \<open>
  A WSPR window whose tones are detected in the right half of the tone set decodes to the call, locator and power that
  were sent, whatever became of the sync bits.
\<close>

theorem wspr_delivers:
  assumes "sound_metric F" "legacy_call c" "legacy_text c = c" "is_grid4 g" "dbm \<le> 60"
    "wspr_symbols (Text (join_sp [c, g, show_dec dbm])) = Ok sent" "WSPR_SYMBOLS * WSPR_SPS \<le> length window"
    "\<forall>i < WSPR_SYMBOLS. drop_bit 1 (wspr_tones F window ! i) = drop_bit 1 (sent ! i)"
  shows "wspr_decode_window F window = Some [text_frame ''wspr'' (join_sp [c, g, show_dec dbm])]"
proof -
  obtain bits where bits: "pack50 c g dbm = Some bits" "length bits = 50" "bits01 bits" "unpack50 bits = Some (c, g, dbm)"
    using pack50_value [OF assms(2,4,5)] assms(3) by auto
  have "split_whitespace (join_sp [c, g, show_dec dbm]) = [c, g, show_dec dbm]"
    by (rule split_whitespace_join) (use assms(2) grid4_word [OF assms(4)] show_dec_word in \<open>simp add: legacy_call_def\<close>)
  then have parse: "parse_wspr_message (join_sp [c, g, show_dec dbm]) = Some (c, g, dbm)"
    using from_str_show_dec [of dbm 255] assms(5) by (simp add: parse_wspr_message_def parse_dbm_def)
  let ?enc = "fano_encode bits"
  have enc: "length ?enc = WSPR_SYMBOLS" by (simp add: fano_encode_length bits(2) WSPR_SYMBOLS_def)
  obtain idx where idx: "bit_reversal_indices WSPR_SYMBOLS = Some idx" "distinct idx" "set idx = {..<WSPR_SYMBOLS}"
    using bit_reversal_permutation [of WSPR_SYMBOLS] by (auto simp: WSPR_SYMBOLS_def)
  obtain inter where inter: "permute ?enc idx = Some inter" "length inter = WSPR_SYMBOLS" "unpermute 0 inter idx = Some ?enc"
    using unpermute_permute [of idx ?enc 0] idx enc by auto
  have sent: "sent = map (\<lambda>(d, s). 2 * ucast d + ucast s) (zip inter sync_vector)"
    using assms(6) unfolding wspr_symbols_def frame_payload.case parse by (simp add: bits(1) idx(1) inter(1) Let_def)
  note sync = sync_from_01 [of WSPR_SYMBOLS "0x5EED1234", folded sync_vector_def]
  have in01: "inter ! i = 0 \<or> inter ! i = 1" if "i < WSPR_SYMBOLS" for i
  proof -
    have "inter ! i \<in> set inter" using that inter(2) by simp
    then have "inter ! i \<in> set ?enc" using inter(1) by (auto simp: permute_def split: if_splits)
    then show ?thesis by (rule fano_encode_01)
  qed
  have s01: "sync_vector ! i = 0 \<or> sync_vector ! i = 1" if "i < WSPR_SYMBOLS" for i
    using subsetD [OF conjunct2 [OF sync] nth_mem [of i sync_vector]] sync that by simp
  have len: "length (wspr_tones F window) = WSPR_SYMBOLS" by (simp add: wspr_tones_def)
  have "map (\<lambda>t. ucast (drop_bit 1 t) AND (1 :: u8)) (wspr_tones F window) = inter" (is "?l = _")
  proof (rule nth_equalityI)
    show "length ?l = length inter" by (simp only: length_map len inter(2))
    fix i assume "i < length ?l"
    then have i: "i < WSPR_SYMBOLS" using len by simp
    have "sent ! i = 2 * ucast (inter ! i) + ucast (sync_vector ! i)" using i inter(2) sync by (simp add: sent)
    with assms(8) i have "drop_bit 1 (wspr_tones F window ! i) = drop_bit 1 (2 * ucast (inter ! i) + ucast (sync_vector ! i))" by simp
    from sync_tone [OF in01 [OF i] s01 [OF i] this] show "?l ! i = inter ! i" using i len by simp
  qed
  then have "wspr_llrs F (wspr_tones F window) = map (hard_llr F) ?enc"
    by (simp only: wspr_llrs_def Let_def idx(1) option.sel inter(3) hard_llr_def [abs_def])
  moreover have "fano_decode F (map (hard_llr F) ?enc) 50 (f_lit F ''0.5'') = Some (Some bits)"
    using fano_decodes_hard [OF assms(1), of bits] bits(2,3) by (simp add: bits01_def)
  ultimately show ?thesis
    using assms(7) bits(2,4) by (simp add: wspr_decode_window_def WSPR_MSG_BITS_def wspr_text_def)
qed

section \<open>A test bench\<close>

text \<open>
  An arithmetic in which the tone detector can be followed by hand: additions are exact, products and
  comparisons are made up so that the power of tone \<open>k\<close> in a block that ends with the sample \<open>j + 1\<close> is
  the maximum for \<open>k = j\<close>. It serves the worked examples only.
\<close>

definition bench_mul :: "rat \<Rightarrow> rat \<Rightarrow> rat" where
  "bench_mul x y = (if y = - 3 then x else if x = - 1 \<or> x = - 2 then y
     else if y = 0 then (if 1000000 \<le> x then x else 0)
     else if 1000 \<le> x then 1000000 + 100 * (x - 1000) + (y - 1) else 0)"

definition bench_lit :: "string \<Rightarrow> rat" where
  "bench_lit s = (if s = ''TAU'' then - 1 else if s = ''2.0'' then - 2 else if s = ''60.0'' then 60
     else if s = ''-60.0'' then - 60 else if s = ''6.0'' then 6 else if s = ''0.5'' then 1 / 2
     else if s = ''1.0'' then 1 else 0)"

definition bench_math :: "rat fmath" where
  "bench_math = rat_math\<lparr>f_lit := bench_lit, f_mul := bench_mul, f_div := (\<lambda>x y. if 1000 \<le> x then - 3 else x),
     f_cos := (\<lambda>w. 1000 + w), f_lt := (\<lambda>m x. x \<in> set (map (\<lambda>k. - (1000000 + 101 * of_nat k)) [0..<99])),
     f_exp := (\<lambda>x. if x < 0 then 0 else 3), f_log2 := (\<lambda>x. x - 1)\<rparr>"

lemmas bench_ops = bench_math_def rat_math_def

lemma bench_sound: "sound_metric bench_math"
proof -
  have "\<not> f_lt bench_math m x" if "- 1000000 < x" for m x using that by (auto simp: bench_ops)
  then show ?thesis
    by (simp add: sound_metric_def exact_costs_def explains_def fano_bit_metric_def hard_llr_def Let_def)
      (simp add: bench_ops bench_lit_def)
qed

definition bench_window :: "nat \<Rightarrow> u32 list \<Rightarrow> rat list" where
  "bench_window sps tones = concat (map (\<lambda>t. replicate (sps - 1) 0 @ [of_nat (unat t) + 1]) tones)"

lemma bench_power:
  assumes "k < 99" "j < 99"
  shows "goertzel_power bench_math (replicate n 0 @ [of_nat j + 1]) (of_nat k) rate = - (1000000 + 100 * of_nat k + of_nat j)"
proof -
  let ?c = "1000 + of_nat k :: rat" and ?j = "of_nat j + 1 :: rat"
  have lt: "of_nat k < (99 :: rat)" "of_nat j < (99 :: rat)" using assms by simp_all
  have pos: "0 \<le> (of_nat k :: rat)" "0 \<le> (of_nat j :: rat)" by simp_all
  have m: "bench_mul (- 1) (of_nat k) = of_nat k" "bench_mul (- 2) ?c = ?c" "bench_mul ?c 0 = 0" "bench_mul ?j ?j = 0"
    "bench_mul 0 0 = 0" "bench_mul (bench_mul ?c ?j) 0 = 1000000 + 100 * of_nat k + of_nat j"
    using lt pos by (simp_all add: bench_mul_def del: of_nat_0_le_iff)
  let ?step = "\<lambda>(s1, s2) x. (x + bench_mul ?c s1 - s2, s1)"
  have z: "foldl ?step (0, 0) (replicate n 0) = (0, 0 :: rat)" by (induction n) (simp_all add: m)
  have ops: "f_tau bench_math = - 1" "f_mul bench_math = bench_mul" "f_cos bench_math = (\<lambda>w. 1000 + w)"
    "f_lit bench_math ''2.0'' = - 2" "f_add bench_math = (+)" "f_sub bench_math = (-)" "f_zero bench_math = 0"
    "f_div bench_math (of_nat k) rate = of_nat k"
    using lt by (simp_all add: bench_ops bench_lit_def)
  show ?thesis
    unfolding goertzel_power_def Let_def ops m foldl_append z by (simp add: m)
qed

lemma argmax_unique:
  assumes "\<And>m x. f_lt F m x \<longleftrightarrow> Q x" "\<forall>y\<in>set a. \<not> Q y" "Q x" "\<forall>y\<in>set b. \<not> Q y"
  shows "argmax F (a @ x # b) = length a"
proof -
  let ?f = "\<lambda>(m, best) (i, x). if f_lt F m x then (x, i) else (m, best)"
  have skip: "foldl ?f mb (enumerate n v) = mb" if "\<forall>y\<in>set v. \<not> Q y" for mb n v
    using that by (induction v arbitrary: n mb) (auto simp: assms(1))
  have "foldl ?f mb (enumerate 0 (a @ x # b)) = (x, length a)" for mb
    using skip [OF assms(2)] skip [OF assms(4)] assms(3) by (simp add: enumerate_append_eq assms(1) split: prod.split)
  then show ?thesis by (simp add: argmax_def)
qed

lemma bench_argmax:
  assumes "j < n" "n < 99"
  shows "argmax bench_math (map (\<lambda>k. - (1000000 + 100 * of_nat k + of_nat j)) [0..<n]) = j"
proof -
  let ?p = "\<lambda>k. - (1000000 + 100 * of_nat k + of_nat j) :: rat"
  let ?Q = "\<lambda>x :: rat. x \<in> set (map (\<lambda>k. - (1000000 + 101 * of_nat k)) [0..<99])"
  have Q: "?Q (?p k) \<longleftrightarrow> k = j" if "k < n" for k
  proof
    assume "?Q (?p k)"
    then obtain i where i: "i < 99" "?p k = - (1000000 + 101 * of_nat i)" unfolding set_map set_upt image_iff Bex_def atLeastLessThan_iff by blast
    then have "(of_nat (100 * k + j) :: rat) = of_nat (101 * i)" by simp
    then have "100 * k + j = 101 * i" by (simp only: of_nat_eq_iff)
    moreover have "j < 100" "i < 100" using assms i(1) by simp_all
    ultimately have "k = i" by (cases k i rule: linorder_cases) linarith+
    with \<open>100 * k + j = 101 * i\<close> show "k = j" by simp
  next
    assume "k = j"
    then have "?p k = - (1000000 + 101 * of_nat j)" by simp
    moreover have "j \<in> {0..<99}" using assms by simp
    ultimately show "?Q (?p k)" unfolding set_map set_upt by (rule image_eqI)
  qed
  have "[0..<n] = [0..<j] @ [j..<n]" using upt_add_eq_append [of 0 j "n - j"] assms(1) by simp
  then have "[0..<n] = [0..<j] @ j # [Suc j..<n]" using assms(1) by (simp only: upt_conv_Cons)
  then have split: "map ?p [0..<n] = map ?p [0..<j] @ ?p j # map ?p [Suc j..<n]" by (simp only: map_append list.map)
  have lt: "f_lt bench_math m x \<longleftrightarrow> ?Q x" for m x by (simp add: bench_math_def)
  have "\<forall>y\<in>set (map ?p [0..<j]). \<not> ?Q y"
  proof
    fix y assume "y \<in> set (map ?p [0..<j])"
    then obtain k where "y = ?p k" "k < j" unfolding set_map image_iff by auto
    with Q [of k] assms(1) show "\<not> ?Q y" by (simp only: less_trans)
  qed
  moreover have "\<forall>y\<in>set (map ?p [Suc j..<n]). \<not> ?Q y"
  proof
    fix y assume "y \<in> set (map ?p [Suc j..<n])"
    then obtain k where "y = ?p k" "Suc j \<le> k" "k < n" unfolding set_map image_iff by auto
    with Q [of k] show "\<not> ?Q y" by auto
  qed
  moreover have "?Q (?p j)" using Q [OF assms(1)] by blast
  ultimately show ?thesis unfolding split
    by (subst argmax_unique [of bench_math ?Q]) (use lt in \<open>simp_all only: length_map length_upt diff_zero\<close>)
qed

lemma concat_block:
  assumes "\<forall>b\<in>set bs. length b = n" "i < length bs"
  shows "take n (drop (i * n) (concat bs)) = bs ! i"
  using assms
proof (induction bs arbitrary: i)
  case (Cons b bs)
  then show ?case by (cases i) auto
qed simp

lemma bench_block:
  assumes "i < length tones" "0 < sps"
  shows "symbol_block (bench_window sps tones) 0 sps i = replicate (sps - 1) 0 @ [of_nat (unat (tones ! i)) + 1]"
proof -
  let ?b = "\<lambda>t. replicate (sps - 1) 0 @ [of_nat (unat t) + 1 :: rat]"
  have len: "length (bench_window sps tones) = length tones * sps"
    using assms(2) by (simp add: bench_window_def length_concat comp_def sum_list_triv)
  have "i * sps + sps \<le> length tones * sps" using mult_le_mono1 [of "Suc i" "length tones" sps] assms(1) by simp
  then have "symbol_block (bench_window sps tones) 0 sps i = take sps (drop (i * sps) (bench_window sps tones))"
    by (simp add: symbol_block_def Let_def len min_def)
  also have "\<dots> = map ?b tones ! i"
    unfolding bench_window_def by (rule concat_block) (use assms in auto)
  finally show ?thesis using assms(1) by simp
qed

lemma bench_detects:
  assumes "\<forall>t\<in>set tones. t < n" "n < 99" "0 < sps"
  shows "detect_symbols bench_math (bench_window sps tones) 0 sps (length tones) rate 0 (- 3) n = tones"
proof (rule nth_equalityI)
  fix i assume "i < length (detect_symbols bench_math (bench_window sps tones) 0 sps (length tones) rate 0 (- 3) n)"
  then have i: "i < length tones" by simp
  then have t: "unat (tones ! i) < unat n" "unat n < 99" using assms(1,2) by (auto simp: word_less_nat_alt)
  have mul: "f_add bench_math 0 (f_mul bench_math (f_nat bench_math k) (- 3)) = of_nat k" for k
    by (simp add: bench_ops bench_mul_def)
  have "tone_powers bench_math (replicate (sps - 1) 0 @ [of_nat (unat (tones ! i)) + 1]) rate 0 (- 3) n =
      map (\<lambda>k. - (1000000 + 100 * of_nat k + of_nat (unat (tones ! i)))) [0..<unat n]"
    unfolding tone_powers_def mul using t by (intro map_cong refl bench_power) auto
  then have "argmax bench_math (tone_powers bench_math (symbol_block (bench_window sps tones) 0 sps i) rate 0 (- 3) n) = unat (tones ! i)"
    using bench_argmax [OF t] by (simp add: bench_block [OF i assms(3)])
  then show "detect_symbols bench_math (bench_window sps tones) 0 sps (length tones) rate 0 (- 3) n ! i = tones ! i"
    using i by (simp add: detect_symbols_def)
qed simp

lemma bench_length: "0 < sps \<Longrightarrow> length (bench_window sps tones) = length tones * sps"
  by (simp add: bench_window_def length_concat comp_def sum_list_triv)

lemma bench_lits: "f_lit bench_math ''1000.0'' = 0" "f_lit bench_math ''1400.0'' = 0"
  "jt65_baud bench_math = - 3" "jt9_baud bench_math = - 3" "wspr_baud bench_math = - 3"
  by (simp_all add: bench_ops bench_lit_def jt65_baud_def jt9_baud_def wspr_baud_def JT65_RATE_def JT9_RATE_def WSPR_RATE_def)

lemma message_cq: "join_sp [''CQ'', ''K1ABC'', ''FN42''] = ''CQ K1ABC FN42''"
  by simp

text \<open>What the modulators make of the worked messages: symbols within the tone set, as many as the window holds.\<close>

lemma jt65_sent:
  "\<exists>sent. jt65_symbols (Text ''CQ K1ABC FN42'') = Ok sent \<and> length sent = JT65_SYMBOLS \<and> (\<forall>t\<in>set sent. t < JT65_TONES)"
proof -
  obtain bits where bits: "pack72 ''CQ K1ABC FN42'' = Some bits" "length bits = 72" "bits01 bits"
    using message72 [OF legacy_witness_facts(1,2), of "''FN42''"] legacy_extra_word [OF legacy_witness_facts(3)] message_cq by auto
  let ?cw = "rs64_encode rs_jt65 (bits72_to_rs_symbols bits)"
  note cw = rs64_codeword [OF rs_symbols_bits(1,2) [OF bits(2) bits(3) [unfolded bits01_def]]]
  have "jt65_symbols (Text ''CQ K1ABC FN42'') = Ok (concat (map (\<lambda>s. [0, ucast s + 1]) ?cw))"
    unfolding jt65_symbols_def frame_payload.case legacy_normal [OF legacy_witness_facts(1-3), unfolded message_cq] Let_def bits(1) by simp
  moreover have "length (concat (map (\<lambda>s. [0, ucast s + 1 :: u32]) ?cw)) = JT65_SYMBOLS"
    using cw by (simp add: length_concat comp_def sum_list_triv JT65_SYMBOLS_def)
  moreover have "ucast s + 1 < JT65_TONES" if "s < 64" for s :: u8
    using that by (simp add: JT65_TONES_def word_less_nat_alt unat_word_ariths unsigned_ucast_eq take_bit_eq_mod)
  moreover have "0 < JT65_TONES" by (simp add: JT65_TONES_def)
  ultimately show ?thesis using cw by auto
qed

lemma jt65_survives_25_errors_witness:
  "\<exists>window. jt65_decode_window bench_math window = [text_frame ''jt65'' ''CQ K1ABC FN42'']"
proof -
  obtain sent where sent: "jt65_symbols (Text ''CQ K1ABC FN42'') = Ok sent" "length sent = JT65_SYMBOLS" "\<forall>t\<in>set sent. t < JT65_TONES"
    using jt65_sent by blast
  let ?w = "bench_window JT65_SPS sent"
  have "jt65_tones bench_math ?w = sent"
    using bench_detects [OF sent(3), of JT65_SPS] sent(2) by (simp add: jt65_tones_def bench_lits JT65_TONES_def JT65_SPS_def)
  then have "wrong_tones sent (jt65_tones bench_math ?w) \<le> 25" by (simp add: wrong_tones_def)
  moreover have "JT65_SYMBOLS * JT65_SPS \<le> length ?w" using sent(2) by (simp add: bench_length JT65_SPS_def)
  ultimately show ?thesis
    using jt65_survives_25_errors [OF legacy_witness_facts(1-5), of sent ?w bench_math] sent(1) by (auto simp: message_cq)
qed

lemma triple_small: "list_all (\<lambda>a. list_all (\<lambda>b. list_all (\<lambda>c. triple a b c < 8) [0, 1]) [0, 1]) [0, 1]"
  by code_simp

lemma triple_less:
  assumes "a = 0 \<or> a = 1" "b = 0 \<or> b = 1" "c = 0 \<or> c = 1"
  shows "triple a b c < 8"
proof -
  have in01: "a \<in> set [0, 1]" "b \<in> set [0, 1]" "c \<in> set [0, 1]" using assms by auto
  show ?thesis by (rule bspec [OF bspec [OF bspec [OF triple_small [unfolded list_all_iff] in01(1)] in01(2)] in01(3)])
qed

lemma triples_bounds:
  "set bs \<subseteq> {0, 1} \<Longrightarrow> length (triples bs) = (length bs + 2) div 3 \<and> (\<forall>t\<in>set (triples bs). t < 8)"
proof (induction bs rule: triples.induct)
  case (4 a b c rest)
  then have "triple a b c < 8" by (intro triple_less) auto
  with 4 show ?case by simp
qed (auto intro: triple_less)

lemma jt9_delivers_witness:
  "\<exists>window. jt9_decode_window bench_math window = Some [text_frame ''jt9'' ''CQ K1ABC FN42'']"
proof -
  obtain bits where bits: "pack72 ''CQ K1ABC FN42'' = Some bits" "length bits = 72" "bits01 bits"
    using message72 [OF legacy_witness_facts(1,2), of "''FN42''"] legacy_extra_word [OF legacy_witness_facts(3)] message_cq by auto
  let ?sent = "JT9_SYNC_TONE # triples (fano_encode bits)"
  have sent: "jt9_symbols (Text ''CQ K1ABC FN42'') = Ok ?sent"
    unfolding jt9_symbols_def frame_payload.case legacy_normal [OF legacy_witness_facts(1-3), unfolded message_cq] Let_def bits(1) by simp
  have "set (fano_encode bits) \<subseteq> {0, 1}" using fano_encode_01 by blast
  note tr = triples_bounds [OF this]
  have len: "length ?sent = JT9_TOTAL_SYMBOLS"
    using tr by (simp add: fano_encode_length bits(2) JT9_TOTAL_SYMBOLS_def JT9_CODED_BITS_def JT_MSG_BITS_def)
  have "t < JT9_TONES" if "t < 8" for t
    using that by (simp add: JT9_TONES_def word_less_nat_alt)
  then have lt: "\<forall>t\<in>set ?sent. t < JT9_TONES" using tr by (auto simp: JT9_TONES_def JT9_SYNC_TONE_def)
  let ?w = "bench_window JT9_SPS ?sent"
  have "jt9_tones bench_math ?w = ?sent"
    using bench_detects [OF lt, of JT9_SPS] by (simp only: len jt9_tones_def bench_lits) (simp add: JT9_TONES_def JT9_SPS_def)
  moreover have "JT9_TOTAL_SYMBOLS * JT9_SPS \<le> length ?w"
  proof -
    have "0 < JT9_SPS" by (simp add: JT9_SPS_def)
    from bench_length [OF this, of ?sent] show ?thesis by (simp only: len)
  qed
  ultimately show ?thesis
    using jt9_delivers [OF bench_sound legacy_witness_facts(1-5), of ?sent ?w] sent by (auto simp: message_cq)
qed

lemma wspr_delivers_witness:
  "\<exists>window. wspr_decode_window bench_math window = Some [text_frame ''wspr'' ''K1ABC FN42 37'']"
proof -
  have c: "legacy_call ''K1ABC''" using legacy_witness_facts(2) by (simp add: legacy_field_def)
  have g: "is_grid4 ''FN42''" by code_simp
  have d: "show_dec 37 = ''37''" by code_simp
  have msg: "join_sp [''K1ABC'', ''FN42'', show_dec 37] = ''K1ABC FN42 37''" by (simp add: d)
  obtain bits where bits: "pack50 ''K1ABC'' ''FN42'' 37 = Some bits" "length bits = 50"
    using pack50_value [OF c g, of 37] by auto
  obtain sent where sent: "wspr_symbols (Text ''K1ABC FN42 37'') = Ok sent" "length sent = WSPR_SYMBOLS" "\<forall>t\<in>set sent. t < WSPR_TONES"
  proof -
    have "split_whitespace (join_sp [''K1ABC'', ''FN42'', show_dec 37]) = [''K1ABC'', ''FN42'', show_dec 37]"
      by (rule split_whitespace_join) (use c grid4_word [OF g] show_dec_word [of 37] in \<open>simp only: list.pred_inject legacy_call_def simp_thms\<close>)
    then have parse: "parse_wspr_message ''K1ABC FN42 37'' = Some (''K1ABC'', ''FN42'', 37)"
      using from_str_show_dec [of 37 255] by (simp only: msg) (simp add: parse_wspr_message_def parse_dbm_def)
    let ?enc = "fano_encode bits"
    have enc: "length ?enc = WSPR_SYMBOLS" by (simp add: fano_encode_length bits(2) WSPR_SYMBOLS_def)
    obtain idx where idx: "bit_reversal_indices WSPR_SYMBOLS = Some idx" "distinct idx" "set idx = {..<WSPR_SYMBOLS}"
      using bit_reversal_permutation [of WSPR_SYMBOLS] by (auto simp: WSPR_SYMBOLS_def)
    obtain inter where inter: "permute ?enc idx = Some inter" "length inter = WSPR_SYMBOLS"
      using unpermute_permute [of idx ?enc 0] idx enc by auto
    let ?sent = "map (\<lambda>(d, s). 2 * ucast d + ucast s :: u32) (zip inter sync_vector)"
    have "wspr_symbols (Text ''K1ABC FN42 37'') = Ok ?sent"
      unfolding wspr_symbols_def frame_payload.case parse by (simp add: bits(1) idx(1) inter(1) Let_def)
    moreover have "length ?sent = WSPR_SYMBOLS" using inter(2) sync_from_01 by (simp add: sync_vector_def)
    moreover have "\<forall>t\<in>set ?sent. t < WSPR_TONES"
    proof
      fix t assume "t \<in> set ?sent"
      then obtain d s where ds: "t = 2 * ucast d + ucast s" "d \<in> set inter" "s \<in> set sync_vector"
        by (auto dest: set_zip_leftD set_zip_rightD)
      have "d \<in> set ?enc" using ds(2) inter(1) by (auto simp: permute_def split: if_splits)
      then have "d = 0 \<or> d = 1" by (rule fano_encode_01)
      moreover have "s = 0 \<or> s = 1" using ds(3) sync_from_01 unfolding sync_vector_def by blast
      ultimately show "t < WSPR_TONES" by (auto simp: ds(1) WSPR_TONES_def)
    qed
    ultimately show ?thesis using that by blast
  qed
  let ?w = "bench_window WSPR_SPS sent"
  have "wspr_tones bench_math ?w = sent"
    using bench_detects [OF sent(3), of WSPR_SPS] sent(2) by (simp add: wspr_tones_def bench_lits WSPR_TONES_def WSPR_SPS_def)
  moreover have "WSPR_SYMBOLS * WSPR_SPS \<le> length ?w" using sent(2) by (simp add: bench_length WSPR_SPS_def)
  ultimately show ?thesis
    using wspr_delivers [OF bench_sound c legacy_witness_facts(5) g, of 37 sent ?w, unfolded msg] sent(1) by auto
qed

end
