(* ===== verification/Spec2Isabelle.thy ===== *)
theory Spec2Isabelle
  imports TxSystem Ensemble Afsk1200 Ax25 Kiss CoreKeying RxProps CapturePipeline
    Message77Claims Pack77Props Fx25 Il2p JtProps
begin

text \<open>
  A verification development for omnimodem, a headless radio modem daemon in Rust.

  \<^bold>\<open>The program.\<close> The daemon (\<open>crates/omnimodem\<close>) owns sound cards, SDR dongles and PTT hardware.
  Clients talk gRPC or KISS to it; their requests become commands for one core thread
  (\<open>core/mod.rs\<close>), which owns the channel table, the device bindings, the TX leases and the RX/TX
  interlock. For every bound channel it starts a receive worker (\<open>core/rx_worker.rs\<close>), fed by an
  audio backend, and a transmit worker (\<open>core/tx_worker.rs\<close>), which keys the transmitter
  (\<open>ptt/sequence.rs\<close>) and plays modulated samples. Configurations are kept in a SQLite store
  (\<open>persist/\<close>), devices come and go by hotplug (\<open>device/\<close>). The DSP crate (\<open>crates/dsp\<close>) has the
  modulators, demodulators, framings and codes of the modes.

  \<^bold>\<open>Conventions.\<close> A struct is a \<^theory_text>\<open>record\<close>, an enum a \<^theory_text>\<open>datatype\<close>, an integer a word of its
  width, \<open>Result\<close> the sum type \<open>result\<close> of \<open>Prelude\<close>, a string a list of characters (of bytes where the
  code slices by bytes). A function that can panic on an index, a slice or an assertion, or loop for
  ever, returns an option, and \<open>None\<close> is that outcome; where a theorem says that the code returns, it is
  proved to be \<open>Some\<close>. Integer arithmetic wraps around, as in a release build: where a debug build
  would stop on an overflow (the report sum of \<open>packgrid\<close>, the ones counter of \<open>deframe_step\<close>) the
  models go on with the wrapped value. What the
  program only observes (a clock, the stop flag, the answer of a device, the interleaving of threads)
  is an explicit input: a list of observations, one per turn of a loop, or a step relation. Floating
  point is a record of operations over an arbitrary carrier (\<open>hz_math\<close> of \<open>Sdr\<close> for the control path,
  \<open>fmath\<close> of \<open>Floats\<close> for the signal path), so that a theorem holds for IEEE arithmetic with its
  rounding, and for the rationals of the worked examples. Third-party code (the Fourier transform,
  serial and GPIO drivers, the operating system's device lists) is an argument of the definitions,
  with the laws used as hypotheses. The SQLite table is a list of rows sorted by key, read with the
  SQL meaning of the store's own statements; whether a statement fails is an argument.

  \<^bold>\<open>Theories.\<close>
  \<^item> \<open>Prelude\<close>, \<open>RustText\<close>: integers, results, bit streams, stateful transducers, finite maps; Rust's
    string and number formatting and parsing.
  \<^item> \<open>DeviceIds\<close> (\<open>ids.rs\<close>), \<open>Devices\<close> (\<open>device/enumerate.rs\<close>, \<open>cache.rs\<close>, \<open>hotplug.rs\<close>), \<open>Udev\<close>
    (\<open>ptt/udev.rs\<close>): identities and their canonical strings, enumeration, the cache, hotplug events.
  \<^item> \<open>Interlock\<close>, \<open>Lease\<close>, \<open>PttDriver\<close>, \<open>TxSequence\<close> (\<open>ptt/\<close>): the key counts that mute receivers, the
    exclusive TX leases, the drivers behind one interface (locale \<open>ptt_driver\<close> and its interpretations),
    and the key, lead, play, drain, tail, unkey cycle with every failure and cancellation.
  \<^item> \<open>Events\<close>, \<open>TxWorker\<close>, \<open>TxSystem\<close>: events; the queue and jobs of a transmit worker; the step relation
    in which the workers and lease clients of all channels interleave.
  \<^item> \<open>Persist\<close>, \<open>Modes\<close>, \<open>Registry\<close>, \<open>Supervisor\<close>, \<open>CoreTypes\<close>, \<open>Sdr\<close>: the channel store, the mode
    configurations and their strings, what the mode registry builds, the channel table over the
    store, the SDR control cell and tuner tables.
  \<^item> \<open>Core\<close>, \<open>Commands\<close>: bindings, workers and \<open>handle_command\<close>, one definition per command, start-up and
    hotplug ticks. \<open>CoreProps\<close>, \<open>CoreRun\<close>, \<open>CoreKeying\<close>, \<open>CoreDemo\<close>: invariants of the core, its runs,
    its leases and keying, a worked example. The environment record \<open>core_env\<close> answers for devices,
    backends, drivers and the outside of a transmission.
  \<^item> \<open>RxWorker\<close>, \<open>RxProps\<close>: both receive loops over abstract demodulators, and what they report.
  \<^item> \<open>RtlTcp\<close>, \<open>CapturePipeline\<close> (\<open>audio/sdr/\<close>): the network dongle with its reconnects, and the capture
    thread that follows the control cell and delivers audio.
  \<^item> \<open>Floats\<close>, \<open>Resample\<close>, \<open>SdrDemod\<close>, \<open>Spectrum\<close> (\<open>frontend/\<close> of the DSP crate): arithmetic and delay
    lines (locale \<open>delay_line\<close>), the polyphase resampler, the SDR receiver, the waterfall.
  \<^item> \<open>Crc\<close>, \<open>LineCodes\<close>, \<open>Hdlc\<close>, \<open>Ax25\<close>, \<open>Kiss\<close>, \<open>Afsk1200\<close>, \<open>Ensemble\<close>: checksums, NRZI and scramblers,
    HDLC framing, AX.25 frames, KISS, the packet mode's bit path, the duplicate window.
  \<^item> \<open>CallText\<close>, \<open>Message77\<close> with \<open>Message77Props\<close>, \<open>Message77Calls\<close>, \<open>Message77Std\<close>, \<open>Message77Nonstd\<close>,
    \<open>Message77Free\<close>, \<open>Message77Claims\<close> (\<open>framing/message77.rs\<close>), \<open>LegacyPack\<close> (its module \<open>legacy\<close>),
    \<open>Pack77\<close>, \<open>Pack77Props\<close> (\<open>framing/pack77.rs\<close>): the message codecs of FT8, FT4, JT65, JT9, JT4,
    WSPR, FST4 and MSK144, and the equivalence of the two ports of the 77-bit packing.
  \<^item> \<open>ReedSolomon\<close> (\<open>fec/rs.rs\<close>, \<open>fec/rs_gf64.rs\<close>): tables, encoder and decoder over lists of bytes.
    \<open>ReedMath\<close> has the algebra (shortest recurrences, locators, Forney's formula) over any field;
    \<open>GaloisFields\<close> makes the bytes a field (types \<open>gf256\<close> and \<open>gf64\<close>) and shows that the tables are
    its logarithms (locales \<open>log_tables\<close>, \<open>gf_rep\<close>); \<open>ReedEncode\<close>, \<open>ReedDecode\<close>, \<open>ReedProps\<close> refine the
    program to the algebra.
  \<^item> \<open>FilterDesign\<close> (\<open>frontend/fir.rs\<close>), \<open>Modulate\<close> (\<open>frontend/modulate.rs\<close>, \<open>modes/fsk_util.rs\<close>):
    filter taps and filters, the tone and phase modulators, tone detection.
  \<^item> \<open>Interleave\<close>, \<open>InterleaveProps\<close> (\<open>fec/interleave.rs\<close>), \<open>Convolutional\<close>, \<open>ViterbiProps\<close>
    (\<open>fec/conv.rs\<close>, \<open>fec/fano.rs\<close>): the interleavers, the convolutional encoders, the Viterbi decoder
    and the sequential decoder.
  \<^item> \<open>Frames\<close> (\<open>types.rs\<close>, \<open>mode.rs\<close>): the frames that cross the DSP crate's interface. \<open>JtModes\<close>,
    \<open>JtProps\<close> (\<open>modes/jt65.rs\<close>, \<open>jt9.rs\<close>, \<open>jt4.rs\<close>, \<open>wspr.rs\<close>): those modes from message to tones and
    from window to message, over the codecs and codes above.
  \<^item> \<open>Fx25\<close> (\<open>framing/fx25.rs\<close>), \<open>Il2p\<close> (\<open>framing/il2p.rs\<close>): the two packet framings that use the code.

  \<^bold>\<open>What the lemmas show.\<close> Safety of transmission: a cycle leaves the transmitter off, a rig is muted
  exactly while somebody transmits on it, leases exclude other channels, and the core keeps its
  bindings, leases and key counts consistent through all commands and departures. Fidelity of
  reception: workers report each frame once, the capture thread neither loses samples silently nor
  works with a stale control, the resampler is the direct form for every blocking of its input.
  Round trips: identities, mode strings, stored configurations, AX.25, KISS, HDLC and packet audio
  bits, 77-bit and legacy messages, and, through the proof that the Reed-Solomon decoder repairs every
  pattern of at most half as many errors as parity symbols, FX.25 and IL2P frames received with
  errors. The Viterbi decoder returns a word whose path metric no other word of the code beats, for
  every soft input; the sequential decoder returns a clean word within its node budget; the
  interleavers only delay; JT65, JT9 and WSPR deliver a standard message from detected tones, JT65
  with up to 25 of its 63 symbols wrong. Bounds: buffers, backlogs, counters. Where the code deviates from its intent, a lemma states
  what it does instead and the manifest names it.

  \<^bold>\<open>Bounds and fuel.\<close> Loops are structural over their observations, or have a measure; a run over
  too short a list of observations says so (\<open>None\<close>, or a flag that the loop has not ended). The one
  bounded search is the code's own: \<open>fano_search\<close> of \<open>Convolutional\<close> recurses over the node budget of
  200000 that \<open>fano.rs\<close> gives it, and its inner \<open>tighten\<close> loop is a \<open>while_option\<close> whose end is proved
  where a theorem needs it. Worked examples use small concrete inputs; those that need arithmetic
  use \<open>bench_math\<close>, the rationals, while the theorems they instantiate hold for any \<open>fmath\<close> with the
  laws in their hypotheses.

  \<^bold>\<open>Not modelled.\<close> Modulators and demodulators of the modes other than the packet mode's bit path and
  the JT family with WSPR (float signal processing and synchronisation searches), the text alphabets
  of the keyboard modes, the error-correcting decoders other than Reed-Solomon, Viterbi and the
  sequential decoder, the gRPC and KISS servers, the sound-card and USB backends, the metrics exporter
  and the Go client: they are I/O, or code whose correctness is statistical rather than logical, or
  left for later. Inside the modelled parts: locks are implicit, since each operation on a shared
  object is one step; a failing allocation or thread spawn and the wrap-around of counters after
  \<open>2 ^ 64\<close> events are not followed; log output is left out. In \<open>CoreKeying\<close> a job reads the lease
  registry at arbitrary moments, which includes the moments of the real interleaving; a registry
  panic during a respawn leaves the state unchanged and cannot happen for configurations that parse
  (\<open>Registry.parsed_modes_are_served\<close>).
\<close>

end
